(* ===== verification/Prelude.thy ===== *)
theory Prelude
  imports Main "HOL-Library.Word"
begin

text \<open>
  Shared vocabulary of the development: the machine integers of the kernel, the outcome of a
  Rust computation (a value, an \<^verbatim>\<open>Err\<close>, a panic or a loop that never ends), state-passing
  computations with outcomes, byte order conversions, and the list operations that stand for
  Rust's slices and arrays. Everything below is generic; the lemmas are declared as
  simplification rules or collected in the named collections, so that the component theories
  can discharge their side conditions by \<open>simp\<close> and \<open>auto\<close>.
\<close>

unbundle bit_operations_syntax

named_theorems outcome_simps \<open>unfolding of the outcome and state combinators\<close>
named_theorems byte_simps \<open>conversions between integers and their bytes\<close>

section \<open>Machine integers\<close>

type_synonym u8 = "8 word"
type_synonym u16 = "16 word"
type_synonym u32 = "32 word"
type_synonym u64 = "64 word"
type_synonym bytes = "u8 list"

lemma unat_ucast_mod: "unat (ucast (w :: 'a::len word) :: 'b::len word) = unat w mod 2 ^ LENGTH('b)"
  by (simp add: unsigned_ucast_eq take_bit_eq_mod)

lemma unat_ucast_up:
  "LENGTH('a::len) \<le> LENGTH('b::len) \<Longrightarrow> unat (ucast (w :: 'a word) :: 'b word) = unat w"
  unfolding unat_ucast_mod
  by (rule mod_less) (rule less_le_trans [OF unsigned_less], simp)

lemma unat_u8_less [simp]: "unat (b :: u8) < 256"
  using unsigned_less [of b] by simp

lemma unat_u16_less [simp]: "unat (w :: u16) < 65536"
  using unsigned_less [of w] by simp

lemma unat_u32_less [simp]: "unat (w :: u32) < 4294967296"
  using unsigned_less [of w] by simp

lemma unat_u64_less [simp]: "unat (w :: u64) < 18446744073709551616"
  using unsigned_less [of w] by simp

lemma unat_drop_bit: "unat (drop_bit n (w :: 'a::len word)) = unat w div 2 ^ n"
  unfolding unat_drop_bit_eq by (simp add: drop_bit_eq_div)

lemma unat_take_bit: "unat (take_bit n (w :: 'a::len word)) = unat w mod 2 ^ n"
  unfolding unsigned_take_bit_eq by (simp add: take_bit_eq_mod)

lemma unat_and_mask: "unat ((w :: 'a::len word) AND mask n) = unat w mod 2 ^ n"
  using unat_take_bit [of n w] by (simp add: take_bit_eq_mask)

lemma unat_and_u32_ffff: "unat ((w :: u32) AND 0xFFFF) = unat w mod 65536"
  using unat_and_mask [of w 16] by (simp add: mask_numeral)

lemma mod_add_cancel:
  "(r + x) mod m = (r + y) mod m \<Longrightarrow> x mod m = y mod (m :: nat)"
proof (induction x y rule: linorder_wlog)
  case (le x y)
  then have "m dvd (r + y) - (r + x)" by (metis mod_eq_dvd_iff_nat add_left_mono)
  then show ?case using le(1) by (metis mod_eq_dvd_iff_nat add_diff_cancel_left)
qed metis

section \<open>Outcomes\<close>

text \<open>
  \<open>Ok\<close> and \<open>Err\<close> are the constructors of \<^verbatim>\<open>Result<T, &'static str>\<close>. \<open>Panic\<close> is a Rust
  panic (an index out of range, a failed \<^verbatim>\<open>assert!\<close> or \<^verbatim>\<open>expect\<close>), which this kernel turns
  into a permanent halt. \<open>Diverge\<close> is a loop that never returns.
\<close>

datatype 'a outcome = Ok 'a | Err string | Panic | Diverge

primrec obind :: "'a outcome \<Rightarrow> ('a \<Rightarrow> 'b outcome) \<Rightarrow> 'b outcome" where
  "obind (Ok a) f = f a"
| "obind (Err e) f = Err e"
| "obind Panic f = Panic"
| "obind Diverge f = Diverge"

primrec omap :: "('a \<Rightarrow> 'b) \<Rightarrow> 'a outcome \<Rightarrow> 'b outcome" where
  "omap f (Ok a) = Ok (f a)"
| "omap f (Err e) = Err e"
| "omap f Panic = Panic"
| "omap f Diverge = Diverge"

text \<open>\<^verbatim>\<open>Result::map_err(|_| e)\<close>.\<close>

primrec omap_err :: "string \<Rightarrow> 'a outcome \<Rightarrow> 'a outcome" where
  "omap_err e' (Ok a) = Ok a"
| "omap_err e' (Err e) = Err e'"
| "omap_err e' Panic = Panic"
| "omap_err e' Diverge = Diverge"

primrec is_err :: "'a outcome \<Rightarrow> bool" where
  "is_err (Ok a) = False"
| "is_err (Err e) = True"
| "is_err Panic = False"
| "is_err Diverge = False"

text \<open>A computation returns to its caller when it yields a value or an error.\<close>

primrec returns :: "'a outcome \<Rightarrow> bool" where
  "returns (Ok a) = True"
| "returns (Err e) = True"
| "returns Panic = False"
| "returns Diverge = False"

lemma obind_eq_Ok [simp]: "obind m f = Ok b \<longleftrightarrow> (\<exists>a. m = Ok a \<and> f a = Ok b)"
  by (cases m) auto

lemma obind_eq_Panic: "obind m f = Panic \<longleftrightarrow> m = Panic \<or> (\<exists>a. m = Ok a \<and> f a = Panic)"
  by (cases m) auto

lemma returns_obind: "returns (obind m f) \<longleftrightarrow> returns m \<and> (\<forall>a. m = Ok a \<longrightarrow> returns (f a))"
  by (cases m) auto

lemma obind_assoc: "obind (obind m f) g = obind m (\<lambda>x. obind (f x) g)"
  by (cases m) auto

lemma omap_err_eq_Ok [simp]: "omap_err e m = Ok a \<longleftrightarrow> m = Ok a"
  by (cases m) auto

lemma returns_omap_err [simp]: "returns (omap_err e m) = returns m"
  by (cases m) auto

lemma omap_eq_Ok [simp]: "omap f m = Ok b \<longleftrightarrow> (\<exists>a. m = Ok a \<and> b = f a)"
  by (cases m) auto

lemma returns_Ok_cases: "returns m \<Longrightarrow> (\<exists>a. m = Ok a) \<or> (\<exists>e. m = Err e)"
  by (cases m) auto

section \<open>Stateful computations with outcomes\<close>

text \<open>
  The state is kept when the computation ends in an error: writes made before a \<^verbatim>\<open>?\<close> took
  the early return stay made, as in the source.
\<close>

type_synonym ('s, 'a) io = "'s \<Rightarrow> 'a outcome \<times> 's"

definition io_ret :: "'a \<Rightarrow> ('s, 'a) io" where
  "io_ret a s = (Ok a, s)"

definition io_err :: "string \<Rightarrow> ('s, 'a) io" where
  "io_err e s = (Err e, s)"

definition io_lift :: "'a outcome \<Rightarrow> ('s, 'a) io" where
  "io_lift r s = (r, s)"

definition io_bind :: "('s, 'a) io \<Rightarrow> ('a \<Rightarrow> ('s, 'b) io) \<Rightarrow> ('s, 'b) io" where
  "io_bind m f s =
     (case fst (m s) of
        Ok a \<Rightarrow> f a (snd (m s))
      | Err e \<Rightarrow> (Err e, snd (m s))
      | Panic \<Rightarrow> (Panic, snd (m s))
      | Diverge \<Rightarrow> (Diverge, snd (m s)))"

text \<open>A \<^verbatim>\<open>match\<close> on the result of a call: the error is a value, and the caller goes on.\<close>

definition io_match :: "('s, 'a) io \<Rightarrow> ('s, string + 'a) io" where
  "io_match m s =
     (case m s of
        (Ok x, s') \<Rightarrow> (Ok (Inr x), s')
      | (Err e, s') \<Rightarrow> (Ok (Inl e), s')
      | (Panic, s') \<Rightarrow> (Panic, s')
      | (Diverge, s') \<Rightarrow> (Diverge, s'))"

lemma io_ret_apply [simp, outcome_simps]: "io_ret a s = (Ok a, s)"
  by (simp add: io_ret_def)

lemma io_err_apply [simp, outcome_simps]: "io_err e s = (Err e, s)"
  by (simp add: io_err_def)

lemma io_lift_apply [simp, outcome_simps]: "io_lift r s = (r, s)"
  by (simp add: io_lift_def)

lemma io_bind_Ok [outcome_simps]: "fst (m s) = Ok a \<Longrightarrow> io_bind m f s = f a (snd (m s))"
  by (simp add: io_bind_def)

lemma io_bind_Err [outcome_simps]: "fst (m s) = Err e \<Longrightarrow> io_bind m f s = (Err e, snd (m s))"
  by (simp add: io_bind_def)

lemma io_bind_ret [simp]: "io_bind (io_ret a) f = f a"
  by (rule ext) (simp add: io_bind_def)

lemma io_bind_assoc: "io_bind (io_bind m f) g = io_bind m (\<lambda>x. io_bind (f x) g)"
  by (rule ext) (auto simp: io_bind_def split: outcome.splits)

lemma io_bind_eq_Ok:
  "io_bind m f s = (Ok b, s') \<longleftrightarrow> (\<exists>a t. m s = (Ok a, t) \<and> f a t = (Ok b, s'))"
  by (cases "m s") (auto simp: io_bind_def split: outcome.splits)

lemma fst_io_bind_Ok_iff:
  "fst (io_bind m f s) = Ok b \<longleftrightarrow> (\<exists>a. fst (m s) = Ok a \<and> fst (f a (snd (m s))) = Ok b)"
  by (auto simp: io_bind_def split: outcome.splits)

section \<open>Slices and arrays\<close>

text \<open>
  \<open>idx\<close> and \<open>slice\<close> are Rust's \<^verbatim>\<open>xs[i]\<close> and \<^verbatim>\<open>&xs[a..b]\<close>, with the panic out of range;
  \<open>sub\<close> is the total version for positions known to be inside the array; \<open>overwrite\<close> is
  \<^verbatim>\<open>xs[a..a + ys.len()].copy_from_slice(&ys)\<close>.
\<close>

definition idx :: "'a list \<Rightarrow> nat \<Rightarrow> 'a outcome" where
  "idx xs i = (if i < length xs then Ok (xs ! i) else Panic)"

definition slice :: "'a list \<Rightarrow> nat \<Rightarrow> nat \<Rightarrow> 'a list outcome" where
  "slice xs a b = (if a \<le> b \<and> b \<le> length xs then Ok (take (b - a) (drop a xs)) else Panic)"

definition sub :: "'a list \<Rightarrow> nat \<Rightarrow> nat \<Rightarrow> 'a list" where
  "sub xs a n = take n (drop a xs)"

definition overwrite :: "'a list \<Rightarrow> nat \<Rightarrow> 'a list \<Rightarrow> 'a list" where
  "overwrite xs a ys = take a xs @ ys @ drop (a + length ys) xs"

lemma idx_Ok [simp]: "i < length xs \<Longrightarrow> idx xs i = Ok (xs ! i)"
  by (simp add: idx_def)

lemma idx_eq_Ok: "idx xs i = Ok x \<longleftrightarrow> i < length xs \<and> xs ! i = x"
  by (simp add: idx_def)

lemma returns_idx [simp]: "returns (idx xs i) \<longleftrightarrow> i < length xs"
  by (simp add: idx_def)

lemma returns_slice [simp]: "returns (slice xs a b) \<longleftrightarrow> a \<le> b \<and> b \<le> length xs"
  by (simp add: slice_def)

lemma slice_Ok [simp]: "a \<le> b \<Longrightarrow> b \<le> length xs \<Longrightarrow> slice xs a b = Ok (sub xs a (b - a))"
  by (simp add: slice_def sub_def)

lemma length_sub [simp]: "a + n \<le> length xs \<Longrightarrow> length (sub xs a n) = n"
  by (simp add: sub_def)

lemma nth_sub [simp]: "i < n \<Longrightarrow> a + n \<le> length xs \<Longrightarrow> sub xs a n ! i = xs ! (a + i)"
  by (simp add: sub_def)

lemma sub_append1 [simp]: "a + n \<le> length xs \<Longrightarrow> sub (xs @ ys) a n = sub xs a n"
  by (simp add: sub_def)

lemma sub_append2 [simp]: "length xs \<le> a \<Longrightarrow> sub (xs @ ys) a n = sub ys (a - length xs) n"
  by (simp add: sub_def)

lemma sub_all: "length xs = n \<Longrightarrow> sub xs 0 n = xs"
  by (simp add: sub_def)

lemma length_overwrite [simp]:
  "a + length ys \<le> length xs \<Longrightarrow> length (overwrite xs a ys) = length xs"
  by (simp add: overwrite_def)

lemma nth_overwrite_other:
  "a + length ys \<le> length xs \<Longrightarrow> i < a \<or> a + length ys \<le> i \<Longrightarrow> i < length xs \<Longrightarrow>
   overwrite xs a ys ! i = xs ! i"
  by (auto simp: overwrite_def nth_append)

lemma nth_overwrite_same:
  "a + length ys \<le> length xs \<Longrightarrow> a \<le> i \<Longrightarrow> i < a + length ys \<Longrightarrow>
   overwrite xs a ys ! i = ys ! (i - a)"
  by (auto simp: overwrite_def nth_append)

lemma sub_overwrite_same [simp]:
  "a + length ys \<le> length xs \<Longrightarrow> n = length ys \<Longrightarrow> sub (overwrite xs a ys) a n = ys"
  by (simp add: sub_def overwrite_def)

lemma sub_overwrite_other:
  "a + length ys \<le> length xs \<Longrightarrow> b + n \<le> length xs \<Longrightarrow> b + n \<le> a \<or> a + length ys \<le> b \<Longrightarrow>
   sub (overwrite xs a ys) b n = sub xs b n"
  by (rule nth_equalityI) (auto simp: nth_overwrite_other)

text \<open>\<^verbatim>\<open>xs.as_chunks::<N>().0\<close>: the complete chunks, the remainder dropped.\<close>

function chunks :: "nat \<Rightarrow> 'a list \<Rightarrow> 'a list list" where
  "chunks n xs = (if n = 0 \<or> length xs < n then [] else take n xs # chunks n (drop n xs))"
  by pat_completeness auto
termination
  by (relation "measure (\<lambda>(n, xs). length xs)") auto

declare chunks.simps [simp del]

lemma chunks_short [simp]: "length xs < n \<Longrightarrow> chunks n xs = []"
  by (simp add: chunks.simps)

lemma chunks_append: "length xs = n \<Longrightarrow> 0 < n \<Longrightarrow> chunks n (xs @ ys) = xs # chunks n ys"
  by (subst chunks.simps) simp

lemma chunks_concat:
  "0 < n \<Longrightarrow> \<forall>b \<in> set bs. length b = n \<Longrightarrow> length r < n \<Longrightarrow> chunks n (concat bs @ r) = bs"
  by (induction bs) (auto simp: chunks_append)

lemma length_chunks: "0 < n \<Longrightarrow> length (chunks n xs) = length xs div n"
proof (induction n xs rule: chunks.induct)
  case (1 n xs)
  then show ?case
    by (auto simp: chunks.simps [of n xs] div_if)
qed

lemma chunks_elem_length: "b \<in> set (chunks n xs) \<Longrightarrow> length b = n"
proof (induction n xs rule: chunks.induct)
  case (1 n xs)
  then show ?case
    by (auto simp: chunks.simps [of n xs] split: if_splits)
qed

lemma nth_chunks:
  "0 < n \<Longrightarrow> i < length xs div n \<Longrightarrow> chunks n xs ! i = sub xs (i * n) n"
proof (induction n xs arbitrary: i rule: chunks.induct)
  case (1 n xs)
  have len: "n \<le> length xs"
    using "1.prems" by (metis div_less gr_zeroI leI less_zeroE)
  have tail: "(length xs - n) div n = length xs div n - 1"
    using "1.prems" len by (simp add: div_if)
  show ?case
  proof (cases i)
    case 0
    then show ?thesis
      using len "1.prems" by (simp add: chunks.simps [of n xs] sub_def)
  next
    case (Suc j)
    then have "chunks n (drop n xs) ! j = sub (drop n xs) (j * n) n"
      using "1.IH" "1.prems" len tail by simp
    then show ?thesis
      using len "1.prems" Suc by (simp add: chunks.simps [of n xs] sub_def add.commute)
  qed
qed

text \<open>\<^verbatim>\<open>xs.iter().position(p)\<close>: the first index whose element satisfies the predicate.\<close>

fun position :: "('a \<Rightarrow> bool) \<Rightarrow> 'a list \<Rightarrow> nat option" where
  "position P [] = None"
| "position P (x # xs) = (if P x then Some 0 else map_option Suc (position P xs))"

lemma position_SomeD:
  "position P xs = Some i \<Longrightarrow> i < length xs \<and> P (xs ! i) \<and> (\<forall>j<i. \<not> P (xs ! j))"
  by (induction xs arbitrary: i) (auto split: if_splits simp: nth_Cons' less_Suc_eq_0_disj)

lemma position_None_iff: "position P xs = None \<longleftrightarrow> (\<forall>x \<in> set xs. \<not> P x)"
  by (induction xs) auto

lemma position_Some_iff:
  "position P xs = Some i \<longleftrightarrow> i < length xs \<and> P (xs ! i) \<and> (\<forall>j<i. \<not> P (xs ! j))"
proof
  assume r: "i < length xs \<and> P (xs ! i) \<and> (\<forall>j<i. \<not> P (xs ! j))"
  then obtain k where k: "position P xs = Some k"
    using position_None_iff [of P xs] nth_mem by fastforce
  then show "position P xs = Some i"
    using position_SomeD [OF k] r by (metis linorder_neqE_nat)
qed (rule position_SomeD)

lemma all_less_two: "(\<forall>i<(2 :: nat). P i) \<longleftrightarrow> P 0 \<and> P 1"
  by (auto simp: less_2_cases_iff)

text \<open>Counting the elements with a property while one of them is replaced.\<close>

lemma count_update:
  "i < length xs \<Longrightarrow> length (filter P (xs[i := y])) + (if P (xs ! i) then 1 else 0)
     = length (filter P xs) + (if P y then 1 else 0)"
proof (induction xs arbitrary: i)
  case (Cons x xs)
  show ?case
  proof (cases i)
    case (Suc j)
    then show ?thesis using Cons.IH [of j] Cons.prems by simp
  qed simp
qed simp

text \<open>\<^verbatim>\<open>xs.iter().flatten()\<close> over optional elements.\<close>

fun flatten :: "'a option list \<Rightarrow> 'a list" where
  "flatten [] = []"
| "flatten (None # xs) = flatten xs"
| "flatten (Some x # xs) = x # flatten xs"

lemma set_flatten [simp]: "x \<in> set (flatten xs) \<longleftrightarrow> Some x \<in> set xs"
  by (induction xs rule: flatten.induct) auto

lemma length_flatten: "length (flatten xs) = length (filter (\<lambda>x. x \<noteq> None) xs)"
  by (induction xs rule: flatten.induct) auto

lemma flatten_append [simp]: "flatten (xs @ ys) = flatten xs @ flatten ys"
  by (induction xs rule: flatten.induct) auto

lemma map_flatten: "map f (flatten xs) = flatten (map (map_option f) xs)"
  by (induction xs rule: flatten.induct) auto

lemma flatten_map_Some [simp]: "flatten (map (\<lambda>x. Some (f x)) xs) = map f xs"
  by (induction xs) auto

lemma flatten_replicate_None [simp]: "flatten (replicate n None) = []"
  by (induction n) auto

lemma unat_slot_id: "i < 128 \<Longrightarrow> unat (of_nat i + 1 :: u32) = Suc i"
  by (simp add: unat_word_ariths unat_of_nat)

section \<open>Byte order\<close>

definition be16 :: "u8 \<Rightarrow> u8 \<Rightarrow> u16" where
  "be16 a b = push_bit 8 (ucast a) OR ucast b"

definition le16 :: "u8 \<Rightarrow> u8 \<Rightarrow> u16" where
  "le16 a b = be16 b a"

definition be32 :: "u8 \<Rightarrow> u8 \<Rightarrow> u8 \<Rightarrow> u8 \<Rightarrow> u32" where
  "be32 a b c d =
     push_bit 24 (ucast a) OR push_bit 16 (ucast b) OR push_bit 8 (ucast c) OR ucast d"

definition le32 :: "u8 \<Rightarrow> u8 \<Rightarrow> u8 \<Rightarrow> u8 \<Rightarrow> u32" where
  "le32 a b c d = be32 d c b a"

definition be_bytes16 :: "u16 \<Rightarrow> bytes" where
  "be_bytes16 w = [ucast (drop_bit 8 w), ucast w]"

definition le_bytes16 :: "u16 \<Rightarrow> bytes" where
  "le_bytes16 w = [ucast w, ucast (drop_bit 8 w)]"

definition be_bytes32 :: "u32 \<Rightarrow> bytes" where
  "be_bytes32 w = [ucast (drop_bit 24 w), ucast (drop_bit 16 w), ucast (drop_bit 8 w), ucast w]"

definition le_bytes32 :: "u32 \<Rightarrow> bytes" where
  "le_bytes32 w = [ucast w, ucast (drop_bit 8 w), ucast (drop_bit 16 w), ucast (drop_bit 24 w)]"

definition le64 :: "bytes \<Rightarrow> u64" where
  "le64 b = push_bit 32 (ucast (le32 (b ! 4) (b ! 5) (b ! 6) (b ! 7)))
     OR ucast (le32 (b ! 0) (b ! 1) (b ! 2) (b ! 3))"

definition le_bytes64 :: "u64 \<Rightarrow> bytes" where
  "le_bytes64 w = le_bytes32 (ucast w) @ le_bytes32 (ucast (drop_bit 32 w))"

lemma length_byte_lists [simp]:
  "length (be_bytes16 w) = 2" "length (le_bytes16 w) = 2"
  "length (be_bytes32 v) = 4" "length (le_bytes32 v) = 4" "length (le_bytes64 x) = 8"
  by (simp_all add: be_bytes16_def le_bytes16_def be_bytes32_def le_bytes32_def le_bytes64_def)

lemma be16_of_bytes [simp, byte_simps]: "be16 (ucast (drop_bit 8 w)) (ucast w) = w"
  by (rule bit_word_eqI) (auto simp: be16_def bit_simps)

lemma be16_hi [simp, byte_simps]: "ucast (drop_bit 8 (be16 a b)) = a"
  by (rule bit_word_eqI) (auto simp: be16_def bit_simps dest: bit_imp_le_length)

lemma be16_lo [simp, byte_simps]: "ucast (be16 a b) = b"
  by (rule bit_word_eqI) (auto simp: be16_def bit_simps)

lemma be32_of_bytes [simp, byte_simps]:
  "be32 (ucast (drop_bit 24 w)) (ucast (drop_bit 16 w)) (ucast (drop_bit 8 w)) (ucast w) = w"
proof (rule bit_word_eqI)
  fix n
  assume "n < LENGTH(32)"
  then consider "n < 8" | "8 \<le> n" "n < 16" | "16 \<le> n" "n < 24" | "24 \<le> n" "n < 32"
    by fastforce
  then show "bit (be32 (ucast (drop_bit 24 w)) (ucast (drop_bit 16 w)) (ucast (drop_bit 8 w))
      (ucast w)) n = bit w n"
    by cases (auto simp: be32_def bit_simps)
qed

lemma le16_of_bytes [simp, byte_simps]: "le16 (ucast w) (ucast (drop_bit 8 w)) = w"
  by (simp add: le16_def)

lemma le32_of_bytes [simp, byte_simps]:
  "le32 (ucast w) (ucast (drop_bit 8 w)) (ucast (drop_bit 16 w)) (ucast (drop_bit 24 w)) = w"
  by (simp add: le32_def)

lemma be_bytes16_of_be16 [simp, byte_simps]: "be_bytes16 (be16 a b) = [a, b]"
  by (simp add: be_bytes16_def)

lemma le_bytes16_of_le16 [simp, byte_simps]: "le_bytes16 (le16 a b) = [a, b]"
  by (simp add: le_bytes16_def le16_def)

lemma be32_parts [simp, byte_simps]:
  "ucast (drop_bit 24 (be32 a b c d)) = a" "ucast (drop_bit 16 (be32 a b c d)) = b"
  "ucast (drop_bit 8 (be32 a b c d)) = c" "ucast (be32 a b c d) = d"
  by (rule bit_word_eqI; auto simp: be32_def bit_simps dest: bit_imp_le_length)+

lemma be_bytes32_of_be32 [simp, byte_simps]: "be_bytes32 (be32 a b c d) = [a, b, c, d]"
  by (simp add: be_bytes32_def)

lemma le_bytes32_of_le32 [simp, byte_simps]: "le_bytes32 (le32 a b c d) = [a, b, c, d]"
  by (simp add: le_bytes32_def le32_def)

lemma unat_be16: "unat (be16 a b) = 256 * unat a + unat b"
proof -
  have "be16 a b = push_bit 8 (ucast a) + (ucast b :: u16)"
    unfolding be16_def
    by (rule disjunctive_add [symmetric]) (auto simp: bit_simps dest: bit_imp_le_length)
  moreover have "unat (ucast a :: u16) = unat a" "unat (ucast b :: u16) = unat b"
    by (simp_all add: unat_ucast_up)
  moreover have "unat a * 256 + unat b < 65536"
    using unat_u8_less [of a] unat_u8_less [of b] by linarith
  ultimately show ?thesis
    by (simp add: unat_word_ariths push_bit_eq_mult)
qed

lemma le64_of_bytes [simp, byte_simps]: "le64 (le_bytes64 w) = w"
proof -
  have "le64 (le_bytes64 w) = push_bit 32 (ucast (ucast (drop_bit 32 w) :: u32)) OR ucast (ucast w :: u32)"
    by (simp add: le64_def le_bytes64_def le_bytes32_def nth_append)
  also have "\<dots> = w"
    by (rule bit_word_eqI) (auto simp: bit_simps)
  finally show ?thesis .
qed

end
