(* ===== verification/Icmp.thy ===== *)
theory Icmp
  imports Prelude
begin

text \<open>
  Model of \<^verbatim>\<open>net/icmp.rs\<close>: the RFC 1071 Internet checksum, the pseudo-header checksum shared by
  TCP and UDP, the Ethernet, IPv4 and ICMP echo builders and the ICMP echo parser. The contract
  the other protocol layers rely on is the locale \<open>checksum_scheme\<close>; it is interpreted here on
  \<open>internet_checksum\<close> and on \<open>pseudo_header_checksum\<close>.
\<close>

section \<open>Definitions\<close>

fun ck_sum :: "u32 \<Rightarrow> bytes \<Rightarrow> u32" where
  "ck_sum s (a # b # xs) = ck_sum (s + ucast (be16 a b)) xs"
| "ck_sum s [a] = s + push_bit 8 (ucast a)"
| "ck_sum s [] = s"

lemma unat_fold_step:
  "unat ((s AND 0xFFFF) + drop_bit 16 s :: u32) = unat s mod 65536 + unat s div 65536"
proof -
  have "unat s mod 65536 + unat s div 65536 < 4294967296"
    using unat_u32_less [of s] by linarith
  then show ?thesis
    using unat_drop_bit [of 16 s] by (simp add: unat_word_ariths unat_and_u32_ffff)
qed

lemma drop16_eq_0_iff: "drop_bit 16 (s :: u32) = 0 \<longleftrightarrow> unat s < 65536"
  using unat_drop_bit [of 16 s] by (auto simp: unat_0_iff [symmetric])

function ck_fold :: "u32 \<Rightarrow> u32" where
  "ck_fold s = (if drop_bit 16 s \<noteq> 0 then ck_fold ((s AND 0xFFFF) + drop_bit 16 s) else s)"
  by pat_completeness auto
termination
proof (relation "measure unat")
  fix s :: u32
  assume "drop_bit 16 s \<noteq> 0"
  then have "65536 \<le> unat s" by (simp add: drop16_eq_0_iff)
  then have "unat s mod 65536 + unat s div 65536 < unat s"
    using mult_div_mod_eq [of 65536 "unat s"] by linarith
  then show "((s AND 0xFFFF) + drop_bit 16 s, s) \<in> measure unat"
    by (simp only: in_measure unat_fold_step)
qed simp

declare ck_fold.simps [simp del]

definition internet_checksum :: "bytes \<Rightarrow> u16" where
  "internet_checksum data = NOT (ucast (ck_fold (ck_sum 0 data)))"

definition pseudo_header_checksum :: "bytes \<Rightarrow> bytes \<Rightarrow> u8 \<Rightarrow> bytes \<Rightarrow> u16" where
  "pseudo_header_checksum source_ip dest_ip protocol segment =
     (let seg_len = (of_nat (length segment) :: u16)
      in internet_checksum
           (source_ip @ dest_ip @ [0] @ [protocol] @ be_bytes16 seg_len @ segment))"

definition checksum_is_valid :: "bytes \<Rightarrow> bool" where
  "checksum_is_valid data \<longleftrightarrow> internet_checksum data = 0"

abbreviation (input) ETHERNET_HEADER_LEN :: nat where "ETHERNET_HEADER_LEN \<equiv> 14"
abbreviation (input) IPV4_HEADER_LEN :: nat where "IPV4_HEADER_LEN \<equiv> 20"
abbreviation (input) ICMP_ECHO_HEADER_LEN :: nat where "ICMP_ECHO_HEADER_LEN \<equiv> 8"
abbreviation (input) ETHERTYPE_IPV4 :: u16 where "ETHERTYPE_IPV4 \<equiv> 0x0800"
abbreviation (input) IP_PROTOCOL_ICMP :: u8 where "IP_PROTOCOL_ICMP \<equiv> 1"
abbreviation (input) ICMP_TYPE_ECHO_REPLY :: u8 where "ICMP_TYPE_ECHO_REPLY \<equiv> 0"
abbreviation (input) ICMP_TYPE_ECHO_REQUEST :: u8 where "ICMP_TYPE_ECHO_REQUEST \<equiv> 8"

definition build_ethernet_header :: "bytes \<Rightarrow> bytes \<Rightarrow> u16 \<Rightarrow> bytes" where
  "build_ethernet_header dest_mac src_mac ethertype =
     (let h0 = replicate ETHERNET_HEADER_LEN 0;
          h1 = overwrite h0 0 dest_mac;
          h2 = overwrite h1 6 src_mac
      in overwrite h2 12 (be_bytes16 ethertype))"

definition build_ipv4_header :: "u16 \<Rightarrow> u8 \<Rightarrow> u8 \<Rightarrow> bytes \<Rightarrow> bytes \<Rightarrow> nat \<Rightarrow> bytes" where
  "build_ipv4_header identification ttl protocol source destination payload_len =
     (let total_len = (of_nat (IPV4_HEADER_LEN + payload_len) :: u16);
          header = [0x45, 0x00] @ be_bytes16 total_len @ be_bytes16 identification
            @ be_bytes16 0 @ [ttl, protocol] @ [0, 0] @ source @ destination;
          checksum = internet_checksum header
      in overwrite header 10 (be_bytes16 checksum))"

definition build_icmp_echo :: "bool \<Rightarrow> u16 \<Rightarrow> u16 \<Rightarrow> bytes \<Rightarrow> bytes" where
  "build_icmp_echo is_reply ident sequence data =
     (let message = [if is_reply then ICMP_TYPE_ECHO_REPLY else ICMP_TYPE_ECHO_REQUEST, 0]
            @ be_bytes16 0 @ be_bytes16 ident @ be_bytes16 sequence @ data;
          checksum = internet_checksum message
      in overwrite message 2 (be_bytes16 checksum))"

record icmp_echo_info =
  echo_is_reply :: bool
  echo_identifier :: u16
  echo_sequence :: u16

definition parse_icmp_echo :: "bytes \<Rightarrow> icmp_echo_info outcome" where
  "parse_icmp_echo message =
     (if length message < ICMP_ECHO_HEADER_LEN
      then Err ''ICMP message shorter than the 8-byte echo header''
      else if \<not> checksum_is_valid message
      then Err ''ICMP checksum mismatch - message is corrupt or not a valid echo message''
      else obind (idx message 0) (\<lambda>t.
        obind (if t = ICMP_TYPE_ECHO_REPLY then Ok True
               else if t = ICMP_TYPE_ECHO_REQUEST then Ok False
               else Err ''not an ICMP echo request/reply (unexpected type)'') (\<lambda>reply.
        obind (idx message 4) (\<lambda>m4. obind (idx message 5) (\<lambda>m5.
        obind (idx message 6) (\<lambda>m6. obind (idx message 7) (\<lambda>m7.
          Ok \<lparr>echo_is_reply = reply, echo_identifier = be16 m4 m5, echo_sequence = be16 m6 m7\<rparr>)))))))"

section \<open>The sum over natural numbers\<close>

text \<open>\<open>wsum\<close> is the exact sum of the 16-bit words, the quantity RFC 1071 speaks of.\<close>

fun wsum :: "bytes \<Rightarrow> nat" where
  "wsum (a # b # xs) = unat (be16 a b) + wsum xs"
| "wsum [a] = 256 * unat a"
| "wsum [] = 0"

lemma wsum_append: "even (length xs) \<Longrightarrow> wsum (xs @ ys) = wsum xs + wsum ys"
  by (induction xs rule: wsum.induct) auto

lemma wsum_bound: "wsum xs \<le> 65535 * ((length xs + 1) div 2)"
proof (induction xs rule: wsum.induct)
  case (1 a b xs)
  have "unat (be16 a b) \<le> 65535"
    using unat_u16_less [of "be16 a b"] by linarith
  with "1" show ?case by simp
next
  case (2 a)
  have "256 * unat a \<le> 65535" using unat_u8_less [of a] by linarith
  then show ?case by simp
qed simp

lemma wsum_no_overflow: "length xs \<le> 131072 \<Longrightarrow> wsum xs < 4294967296"
  using wsum_bound [of xs] by linarith

lemma unat_ck_sum: "unat s + wsum xs < 4294967296 \<Longrightarrow> unat (ck_sum s xs) = unat s + wsum xs"
proof (induction s xs rule: ck_sum.induct)
  case (1 s a b xs)
  have "unat (s + ucast (be16 a b)) = unat s + unat (be16 a b)"
    using "1.prems" by (simp add: unat_word_ariths unat_ucast_up)
  with "1.IH" "1.prems" show ?case by simp
next
  case (2 s a)
  have "unat (push_bit 8 (ucast a) :: u32) = 256 * unat a"
    using "2.prems" unat_u8_less [of a]
    by (simp add: push_bit_eq_mult unat_word_ariths unat_ucast_up)
  with "2.prems" show ?case by (simp add: unat_word_ariths)
qed simp

lemma mod_65535_split: "(n mod 65536 + n div 65536) mod 65535 = n mod (65535 :: nat)"
proof -
  have "n mod 65535 = (65536 * (n div 65536) + n mod 65536) mod 65535" by simp
  also have "\<dots> = (n div 65536 + n mod 65536 + 65535 * (n div 65536)) mod 65535"
    by (simp add: algebra_simps)
  also have "\<dots> = (n div 65536 + n mod 65536) mod 65535"
    by (simp only: mod_mult_self2)
  finally show ?thesis by (simp add: add.commute)
qed

lemma ck_fold_spec:
  "unat (ck_fold s) < 65536 \<and> unat (ck_fold s) mod 65535 = unat s mod 65535
     \<and> (ck_fold s = 0 \<longleftrightarrow> s = 0)"
proof (induction s rule: ck_fold.induct)
  case (1 s)
  show ?case
  proof (cases "drop_bit 16 s = 0")
    case True
    then show ?thesis by (simp add: ck_fold.simps [of s] drop16_eq_0_iff)
  next
    case False
    let ?t = "(s AND 0xFFFF) + drop_bit 16 s"
    have t: "unat ?t = unat s mod 65536 + unat s div 65536" by (rule unat_fold_step)
    have "65536 \<le> unat s" using False by (simp add: drop16_eq_0_iff)
    then have "unat ?t \<noteq> 0" "unat s \<noteq> 0" unfolding t by auto
    then have nz: "?t \<noteq> 0" "s \<noteq> 0" by (metis unat_0)+
    have fold: "ck_fold s = ck_fold ?t" using False by (simp add: ck_fold.simps [of s])
    show ?thesis
      using "1.IH" [OF False] nz mod_65535_split [of "unat s"] by (simp only: fold t)
  qed
qed

definition ocsum :: "bytes \<Rightarrow> nat" where
  "ocsum data = unat (ck_fold (ck_sum 0 data))"

lemma ocsum_props:
  assumes "length data \<le> 131072"
  shows "ocsum data \<le> 65535" "ocsum data mod 65535 = wsum data mod 65535"
    "ocsum data = 0 \<longleftrightarrow> wsum data = 0"
proof -
  have s: "unat (ck_sum 0 data) = wsum data"
    using unat_ck_sum [of 0 data] wsum_no_overflow [OF assms] by simp
  show "ocsum data \<le> 65535"
    using ck_fold_spec [of "ck_sum 0 data"] by (simp add: ocsum_def)
  show "ocsum data mod 65535 = wsum data mod 65535"
    using ck_fold_spec [of "ck_sum 0 data"] s by (simp add: ocsum_def)
  show "ocsum data = 0 \<longleftrightarrow> wsum data = 0"
    using ck_fold_spec [of "ck_sum 0 data"] s by (metis ocsum_def unat_0_iff)
qed

lemma unat_not_u16: "unat (NOT w :: u16) = 65535 - unat w"
proof -
  have "NOT w = 0xFFFF - w" by (simp add: not_eq_complement)
  moreover have "unat w \<le> 65535" using unat_u16_less [of w] by linarith
  then have "w \<le> 0xFFFF" by (simp add: word_le_nat_alt)
  ultimately show ?thesis by (simp add: unat_sub)
qed

lemma unat_internet_checksum: "unat (internet_checksum data) = 65535 - ocsum data"
proof -
  have "unat (ucast (ck_fold (ck_sum 0 data)) :: u16) = ocsum data"
    using ck_fold_spec [of "ck_sum 0 data"] by (simp add: ocsum_def unat_ucast_mod)
  then show ?thesis by (simp add: internet_checksum_def unat_not_u16)
qed

lemma internet_checksum_eq_0:
  assumes "length data \<le> 131072"
  shows "internet_checksum data = 0 \<longleftrightarrow> wsum data \<noteq> 0 \<and> wsum data mod 65535 = 0"
proof -
  note p = ocsum_props [OF assms]
  have "internet_checksum data = 0 \<longleftrightarrow> ocsum data = 65535"
    using p(1) by (simp add: unat_0_iff [symmetric] unat_internet_checksum del: unat_0_iff)
  also have "\<dots> \<longleftrightarrow> ocsum data \<noteq> 0 \<and> ocsum data mod 65535 = 0"
    using p(1) by (auto simp: mod_eq_0_iff_dvd dest: dvd_imp_le)
  also have "\<dots> \<longleftrightarrow> wsum data \<noteq> 0 \<and> wsum data mod 65535 = 0"
    using p(2,3) by simp
  finally show ?thesis .
qed

section \<open>The contract of a 16-bit checksum field\<close>

text \<open>
  What a protocol layer needs of a checksum function: storing the checksum of a message in a
  zeroed, even-aligned field makes the whole message verify (and so does storing all ones when
  the checksum is zero), and two verifying messages that differ in one aligned word differ only
  by the two representations of zero.
\<close>

lemma split_field:
  assumes "sub h k 2 = [0, 0]"
  shows "h @ s = take k h @ [0, 0] @ drop (k + 2) h @ s"
proof -
  have "h = take k h @ sub h k 2 @ drop (k + 2) h"
    by (metis append_take_drop_id sub_def drop_drop add.commute)
  then show ?thesis using assms by simp
qed

locale checksum_scheme =
  fixes ck :: "bytes \<Rightarrow> u16"
    and limit :: nat
  assumes stamped:
      "even (length p) \<Longrightarrow> length (p @ [0, 0] @ s) \<le> limit \<Longrightarrow>
       ck (p @ be_bytes16 (ck (p @ [0, 0] @ s)) @ s) = 0"
    and stamped_ones:
      "even (length p) \<Longrightarrow> length (p @ [0, 0] @ s) \<le> limit \<Longrightarrow> ck (p @ [0, 0] @ s) = 0 \<Longrightarrow>
       ck (p @ be_bytes16 0xFFFF @ s) = 0"
    and one_word:
      "even (length p) \<Longrightarrow> length (p @ [a, b] @ s) \<le> limit \<Longrightarrow>
       ck (p @ [a, b] @ s) = 0 \<Longrightarrow> ck (p @ [a', b'] @ s) = 0 \<Longrightarrow>
       be16 a b = be16 a' b' \<or> {be16 a b, be16 a' b'} = {0, 0xFFFF}"
begin

lemma stamp_header:
  assumes "even k" and "k + 2 \<le> length h" and "length (h @ s) \<le> limit"
    and "sub h k 2 = [0, 0]"
  shows "ck (overwrite h k (be_bytes16 (ck (h @ s))) @ s) = 0"
proof -
  note h = split_field [OF assms(4)]
  have "ck (take k h @ be_bytes16 (ck (take k h @ [0, 0] @ drop (k + 2) h @ s)) @ drop (k + 2) h @ s) = 0"
    by (rule stamped) (use assms h [of s] in simp_all)
  then show ?thesis by (simp only: flip: h) (simp add: overwrite_def)
qed

lemma stamp_header_ones:
  assumes "even k" and "k + 2 \<le> length h" and "length (h @ s) \<le> limit"
    and "sub h k 2 = [0, 0]" and "ck (h @ s) = 0"
  shows "ck (overwrite h k (be_bytes16 0xFFFF) @ s) = 0"
proof -
  note h = split_field [OF assms(4)]
  have "ck (take k h @ be_bytes16 0xFFFF @ drop (k + 2) h @ s) = 0"
    by (rule stamped_ones) (use assms h [of s] in \<open>simp_all flip: h\<close>)
  then show ?thesis by (simp add: overwrite_def)
qed

lemma stamp_message:
  assumes "even k" and "k + 2 \<le> length m" and "length m \<le> limit" and "sub m k 2 = [0, 0]"
  shows "ck (overwrite m k (be_bytes16 (ck m))) = 0"
  using stamp_header [of k m "[]"] assms by simp

end

lemma wsum_word: "wsum (be_bytes16 w @ s) = unat w + wsum s"
proof -
  have "be_bytes16 w @ s = ucast (drop_bit 8 w) # ucast w # s" by (simp add: be_bytes16_def)
  then show ?thesis by simp
qed

lemma internet_checksum_add:
  assumes "length data \<le> 131072"
  shows "(wsum data + unat (internet_checksum data)) mod 65535 = 0
     \<and> wsum data + unat (internet_checksum data) \<noteq> 0"
proof -
  note p = ocsum_props [OF assms]
  have "(wsum data + (65535 - ocsum data)) mod 65535 = (ocsum data + (65535 - ocsum data)) mod 65535"
    using p(2) by (metis mod_add_left_eq)
  also have "\<dots> = 0" using p(1) by simp
  finally show ?thesis using p(1,3) by (auto simp: unat_internet_checksum)
qed

lemma mod_65535_cases:
  assumes "m mod 65535 = n mod (65535 :: nat)" and "m < 65536" and "n < 65536"
  shows "m = n \<or> {m, n} = {0, 65535}"
proof -
  have "m = 65535 \<or> m < 65535" "n = 65535 \<or> n < 65535" using assms(2,3) by linarith+
  then show ?thesis using assms(1) by auto
qed

interpretation inet: checksum_scheme internet_checksum 131072
proof
  fix p s :: bytes
  let ?m = "p @ [0, 0] @ s"
  assume ev: "even (length p)" and len: "length ?m \<le> 131072"
  have len': "length (p @ be_bytes16 w @ s) \<le> 131072" for w using len by simp
  have sum: "wsum (p @ be_bytes16 w @ s) = wsum ?m + unat w" for w
    using ev wsum_append [of p "[0, 0] @ s"] wsum_append [of p "be_bytes16 w @ s"]
    by (simp add: wsum_word be16_def)
  show "internet_checksum (p @ be_bytes16 (internet_checksum ?m) @ s) = 0"
    using internet_checksum_add [OF len] unfolding internet_checksum_eq_0 [OF len'] sum by simp
  show "internet_checksum (p @ be_bytes16 0xFFFF @ s) = 0" if "internet_checksum ?m = 0"
    using that unfolding internet_checksum_eq_0 [OF len'] internet_checksum_eq_0 [OF len] sum
    by simp
next
  fix p s :: bytes and a b a' b' :: u8
  assume ev: "even (length p)" and len: "length (p @ [a, b] @ s) \<le> 131072"
    and ok: "internet_checksum (p @ [a, b] @ s) = 0" "internet_checksum (p @ [a', b'] @ s) = 0"
  have len': "length (p @ [a', b'] @ s) \<le> 131072" using len by simp
  define r where "r = wsum p + wsum s"
  have sum: "wsum (p @ [x, y] @ s) = r + unat (be16 x y)" for x y
    using ev by (simp add: wsum_append r_def)
  have "(r + unat (be16 a b)) mod 65535 = 0" "(r + unat (be16 a' b')) mod 65535 = 0"
    using ok unfolding internet_checksum_eq_0 [OF len] internet_checksum_eq_0 [OF len'] sum
    by blast+
  then have "unat (be16 a b) mod 65535 = unat (be16 a' b') mod 65535"
    by (metis mod_add_cancel)
  then have "unat (be16 a b) = unat (be16 a' b')
      \<or> {unat (be16 a b), unat (be16 a' b')} = {0, 65535}"
    by (rule mod_65535_cases) simp_all
  then show "be16 a b = be16 a' b' \<or> {be16 a b, be16 a' b'} = {0, 0xFFFF}"
    by (auto simp: doubleton_eq_iff word_unat_eq_iff)
qed

text \<open>The pseudo header has 12 bytes, so it leaves alignment alone and lowers the limit by 12.\<close>

interpretation pseudo: checksum_scheme
  "pseudo_header_checksum [s0, s1, s2, s3] [d0, d1, d2, d3] protocol" 131060
  for s0 s1 s2 s3 d0 d1 d2 d3 protocol :: u8
proof
  let ?h = "\<lambda>n. [s0, s1, s2, s3] @ [d0, d1, d2, d3] @ [0] @ [protocol] @ be_bytes16 (of_nat n)"
  have pseudo: "pseudo_header_checksum [s0, s1, s2, s3] [d0, d1, d2, d3] protocol (p @ w @ s) =
      internet_checksum ((?h (length (p @ w @ s)) @ p) @ w @ s)" for p w s
    by (simp add: pseudo_header_checksum_def)
  fix p s :: bytes and a b a' b' :: u8
  assume ev: "even (length p)"
  then have ev': "even (length (?h n @ p))" for n by simp
  show "pseudo_header_checksum [s0, s1, s2, s3] [d0, d1, d2, d3] protocol
      (p @ be_bytes16 (pseudo_header_checksum [s0, s1, s2, s3] [d0, d1, d2, d3] protocol
        (p @ [0, 0] @ s)) @ s) = 0"
    if "length (p @ [0, 0] @ s) \<le> 131060"
    unfolding pseudo using inet.stamped [OF ev', of "length (p @ [0, 0] @ s)" s] that by simp
  show "pseudo_header_checksum [s0, s1, s2, s3] [d0, d1, d2, d3] protocol
      (p @ be_bytes16 0xFFFF @ s) = 0"
    if "length (p @ [0, 0] @ s) \<le> 131060" and
      "pseudo_header_checksum [s0, s1, s2, s3] [d0, d1, d2, d3] protocol (p @ [0, 0] @ s) = 0"
    using inet.stamped_ones [OF ev', of "length (p @ [0, 0] @ s)" s] that
    unfolding pseudo by simp
  show "be16 a b = be16 a' b' \<or> {be16 a b, be16 a' b'} = {0, 0xFFFF}"
    if "length (p @ [a, b] @ s) \<le> 131060" and
      "pseudo_header_checksum [s0, s1, s2, s3] [d0, d1, d2, d3] protocol (p @ [a, b] @ s) = 0" and
      "pseudo_header_checksum [s0, s1, s2, s3] [d0, d1, d2, d3] protocol (p @ [a', b'] @ s) = 0"
    using inet.one_word [OF ev', of "length (p @ [a, b] @ s)" a b s a' b'] that
    unfolding pseudo by simp
qed

lemma length_4E:
  assumes "length xs = 4"
  obtains a b c d where "xs = [a, b, c, d]"
  using assms by (auto simp: numeral_eq_Suc length_Suc_conv)

lemma pseudo_stamp_header:
  assumes "length src = 4" and "length dst = 4" and "even k" and "k + 2 \<le> length h"
    and "length (h @ s) \<le> 131060" and "sub h k 2 = [0, 0]"
  shows "pseudo_header_checksum src dst pr
           (overwrite h k (be_bytes16 (pseudo_header_checksum src dst pr (h @ s))) @ s) = 0"
    and "pseudo_header_checksum src dst pr (h @ s) = 0 \<Longrightarrow>
         pseudo_header_checksum src dst pr (overwrite h k (be_bytes16 0xFFFF) @ s) = 0"
proof -
  obtain s0 s1 s2 s3 d0 d1 d2 d3 where "src = [s0, s1, s2, s3]" "dst = [d0, d1, d2, d3]"
    using assms(1,2) length_4E by metis
  then show "pseudo_header_checksum src dst pr
           (overwrite h k (be_bytes16 (pseudo_header_checksum src dst pr (h @ s))) @ s) = 0"
    and "pseudo_header_checksum src dst pr (h @ s) = 0 \<Longrightarrow>
         pseudo_header_checksum src dst pr (overwrite h k (be_bytes16 0xFFFF) @ s) = 0"
    using pseudo.stamp_header [OF assms(3-6)] pseudo.stamp_header_ones [OF assms(3-6)] by auto
qed

section \<open>Headers and messages\<close>

lemma build_ethernet_header_eq:
  assumes "length d = 6" and "length s = 6"
  shows "build_ethernet_header d s e = d @ s @ be_bytes16 e"
  using assms by (simp add: build_ethernet_header_def Let_def overwrite_def)

text \<open>The zeroed IPv4 header the checksum is computed over.\<close>

definition ipv4_blank :: "u16 \<Rightarrow> u8 \<Rightarrow> u8 \<Rightarrow> bytes \<Rightarrow> bytes \<Rightarrow> nat \<Rightarrow> bytes" where
  "ipv4_blank ident ttl protocol src dst n =
     [0x45, 0x00] @ be_bytes16 (of_nat (20 + n)) @ be_bytes16 ident @ be_bytes16 0
       @ [ttl, protocol] @ [0, 0] @ src @ dst"

lemma build_ipv4_header_eq:
  "build_ipv4_header i t p src dst n =
     overwrite (ipv4_blank i t p src dst n) 10 (be_bytes16 (internet_checksum (ipv4_blank i t p src dst n)))"
  by (simp add: build_ipv4_header_def ipv4_blank_def Let_def)

lemma ipv4_blank_shape:
  assumes "length src = 4" and "length dst = 4"
  shows "length (ipv4_blank i t p src dst n) = 20"
    and "sub (ipv4_blank i t p src dst n) 10 2 = [0, 0]"
  using assms by (simp_all add: ipv4_blank_def be_bytes16_def sub_def)

lemma build_ipv4_header_checksum:
  assumes "length src = 4" and "length dst = 4"
  shows "internet_checksum (build_ipv4_header i t p src dst n) = 0"
  unfolding build_ipv4_header_eq
  by (rule inet.stamp_message) (simp_all add: ipv4_blank_shape [OF assms])

definition icmp_blank :: "bool \<Rightarrow> u16 \<Rightarrow> u16 \<Rightarrow> bytes \<Rightarrow> bytes" where
  "icmp_blank is_reply ident sequence data =
     [if is_reply then ICMP_TYPE_ECHO_REPLY else ICMP_TYPE_ECHO_REQUEST, 0]
       @ be_bytes16 0 @ be_bytes16 ident @ be_bytes16 sequence @ data"

lemma build_icmp_echo_eq:
  "build_icmp_echo r i s d =
     overwrite (icmp_blank r i s d) 2 (be_bytes16 (internet_checksum (icmp_blank r i s d)))"
  by (simp add: build_icmp_echo_def icmp_blank_def Let_def)

lemma icmp_blank_shape:
  "length (icmp_blank r i s d) = 8 + length d" "sub (icmp_blank r i s d) 2 2 = [0, 0]"
  by (simp_all add: icmp_blank_def be_bytes16_def sub_def)

lemma build_icmp_echo_bytes:
  "build_icmp_echo r i s d =
     [if r then 0 else 8, 0] @ be_bytes16 (internet_checksum (icmp_blank r i s d))
       @ be_bytes16 i @ be_bytes16 s @ d"
  by (simp add: build_icmp_echo_eq overwrite_def) (simp add: icmp_blank_def be_bytes16_def)

lemma build_icmp_echo_checksum:
  assumes "length d \<le> 131064"
  shows "internet_checksum (build_icmp_echo r i s d) = 0"
  unfolding build_icmp_echo_eq
  by (rule inet.stamp_message) (use assms in \<open>simp_all add: icmp_blank_shape\<close>)

lemma parse_built_icmp:
  assumes "length data \<le> 131064"
  shows "parse_icmp_echo (build_icmp_echo r i s data) =
     Ok \<lparr>echo_is_reply = r, echo_identifier = i, echo_sequence = s\<rparr>"
proof -
  have "checksum_is_valid (build_icmp_echo r i s data)"
    using build_icmp_echo_checksum [OF assms] by (simp add: checksum_is_valid_def)
  then show ?thesis
    by (simp add: parse_icmp_echo_def build_icmp_echo_bytes be_bytes16_def)
qed

section \<open>Properties\<close>

text \<open>
  Every echo message the builder produces (any payload of at most 131064 bytes, far above
  what an Ethernet frame carries) is accepted by the parser, which returns exactly the type,
  identifier and sequence number it was built from, and its payload starts at offset 8.
\<close>

theorem icmp_echo_roundtrip:
  assumes "length data \<le> 131064"
  shows "parse_icmp_echo (build_icmp_echo r i s data) =
           Ok \<lparr>echo_is_reply = r, echo_identifier = i, echo_sequence = s\<rparr>
         \<and> drop ICMP_ECHO_HEADER_LEN (build_icmp_echo r i s data) = data"
  using parse_built_icmp [OF assms] by (simp add: build_icmp_echo_bytes)

theorem icmp_echo_roundtrip_witness:
  "parse_icmp_echo (build_icmp_echo True 7 9 [1, 2, 3]) =
     Ok \<lparr>echo_is_reply = True, echo_identifier = 7, echo_sequence = 9\<rparr>
   \<and> drop 8 (build_icmp_echo True 7 9 [1, 2, 3]) = [1, 2, 3]"
  using icmp_echo_roundtrip [of "[1, 2, 3]" True 7 9] by simp

text \<open>
  A built IPv4 header is 20 bytes long, verifies, and carries the version and header length
  byte, the total length (wrapping at 16 bits), identification, TTL, protocol and both addresses
  at the offsets of RFC 791.
\<close>

theorem ipv4_header_correct:
  assumes "length src = 4" and "length dst = 4"
  shows "checksum_is_valid (build_ipv4_header i t p src dst n)
     \<and> length (build_ipv4_header i t p src dst n) = IPV4_HEADER_LEN
     \<and> take 10 (build_ipv4_header i t p src dst n)
         = [0x45, 0] @ be_bytes16 (of_nat (20 + n)) @ be_bytes16 i @ [0, 0, t, p]
     \<and> drop 12 (build_ipv4_header i t p src dst n) = src @ dst"
proof -
  note shape = ipv4_blank_shape [OF assms]
  have "internet_checksum (build_ipv4_header i t p src dst n) = 0"
    by (rule build_ipv4_header_checksum [OF assms])
  moreover have "take 10 (ipv4_blank i t p src dst n)
      = [0x45, 0] @ be_bytes16 (of_nat (20 + n)) @ be_bytes16 i @ [0, 0, t, p]"
    and "drop 12 (ipv4_blank i t p src dst n) = src @ dst"
    by (simp_all add: ipv4_blank_def be_bytes16_def)
  ultimately show ?thesis
    by (simp add: checksum_is_valid_def build_ipv4_header_eq shape assms overwrite_def)
qed

theorem ipv4_header_correct_witness:
  "checksum_is_valid (build_ipv4_header 1 64 17 [10, 0, 2, 15] [10, 0, 2, 3] 30)
   \<and> drop 12 (build_ipv4_header 1 64 17 [10, 0, 2, 15] [10, 0, 2, 3] 30)
       = [10, 0, 2, 15, 10, 0, 2, 3]"
  using ipv4_header_correct [of "[10, 0, 2, 15]" "[10, 0, 2, 3]" 1 64 17 30] by simp

text \<open>
  A message in which one aligned 16-bit word was changed after it was built is rejected as
  corrupt, except for the exchange of the two representations of zero, which the one's complement
  sum cannot see.
\<close>

theorem icmp_echo_detects_corruption:
  assumes "length m \<le> 131072" and "8 \<le> length m" and "even k" and "k + 2 \<le> length m"
    and "checksum_is_valid m"
    and "be16 a b \<noteq> be16 (m ! k) (m ! (k + 1))"
    and "{be16 a b, be16 (m ! k) (m ! (k + 1))} \<noteq> {0, 0xFFFF}"
  shows "parse_icmp_echo (overwrite m k [a, b]) =
           Err ''ICMP checksum mismatch - message is corrupt or not a valid echo message''"
proof -
  let ?p = "take k m" and ?s = "drop (k + 2) m"
  have m: "m = ?p @ [m ! k, m ! (k + 1)] @ ?s"
    using assms(4) by (simp add: Cons_nth_drop_Suc)
  have m': "overwrite m k [a, b] = ?p @ [a, b] @ ?s" by (simp add: overwrite_def)
  have "internet_checksum (?p @ [a, b] @ ?s) \<noteq> 0"
  proof
    assume "internet_checksum (?p @ [a, b] @ ?s) = 0"
    moreover have "internet_checksum (?p @ [m ! k, m ! (k + 1)] @ ?s) = 0"
      using assms(5) m by (simp add: checksum_is_valid_def)
    moreover have "even (length ?p)" "length (?p @ [a, b] @ ?s) \<le> 131072"
      using assms(1,3,4) by simp_all
    ultimately have "be16 a b = be16 (m ! k) (m ! (k + 1))
        \<or> {be16 a b, be16 (m ! k) (m ! (k + 1))} = {0, 0xFFFF}"
      using inet.one_word by blast
    then show False using assms(6,7) by blast
  qed
  moreover have "\<not> length (overwrite m k [a, b]) < 8" using assms(2,4) by simp
  ultimately show ?thesis
    unfolding m' parse_icmp_echo_def checksum_is_valid_def by simp
qed

theorem icmp_echo_detects_corruption_witness:
  "parse_icmp_echo (overwrite (build_icmp_echo False 1 2 []) 4 [0, 3]) =
     Err ''ICMP checksum mismatch - message is corrupt or not a valid echo message''"
proof (rule icmp_echo_detects_corruption)
  show "checksum_is_valid (build_icmp_echo False 1 2 [])"
    by (simp add: checksum_is_valid_def build_icmp_echo_checksum)
qed (simp_all add: build_icmp_echo_bytes be_bytes16_def be16_def doubleton_eq_iff)

lemma parse_icmp_echo_returns: "returns (parse_icmp_echo m)"
  by (auto simp: parse_icmp_echo_def returns_obind)

end
