(* ===== verification/Udp.thy ===== *)
theory Udp
  imports Icmp
begin

text \<open>
  Model of \<^verbatim>\<open>net/udp.rs\<close>: the UDP header builder with the RFC 768 rule that a computed
  checksum of zero is sent as all ones, the verification that treats a stored zero as ``no
  checksum'', and the parser.
\<close>

section \<open>Definitions\<close>

abbreviation (input) UDP_HEADER_LEN :: nat where "UDP_HEADER_LEN \<equiv> 8"
abbreviation (input) IP_PROTOCOL_UDP :: u8 where "IP_PROTOCOL_UDP \<equiv> 17"

definition udp_checksum_is_valid :: "bytes \<Rightarrow> bytes \<Rightarrow> bytes \<Rightarrow> bool" where
  "udp_checksum_is_valid source_ip dest_ip datagram \<longleftrightarrow>
     (if UDP_HEADER_LEN \<le> length datagram \<and> datagram ! 6 = 0 \<and> datagram ! 7 = 0 then True
      else pseudo_header_checksum source_ip dest_ip IP_PROTOCOL_UDP datagram = 0)"

definition build_udp_header :: "bytes \<Rightarrow> bytes \<Rightarrow> u16 \<Rightarrow> u16 \<Rightarrow> bytes \<Rightarrow> bytes" where
  "build_udp_header source_ip dest_ip source_port dest_port payload =
     (let udp_len = (of_nat (UDP_HEADER_LEN + length payload) :: u16);
          header = be_bytes16 source_port @ be_bytes16 dest_port @ be_bytes16 udp_len @ [0, 0];
          datagram = header @ payload;
          checksum = pseudo_header_checksum source_ip dest_ip IP_PROTOCOL_UDP datagram;
          checksum' = (if checksum = 0 then 0xFFFF else checksum)
      in overwrite header 6 (be_bytes16 checksum'))"

record udp_datagram_info =
  udp_source_port :: u16
  udp_dest_port :: u16
  udp_length :: u16

definition parse_udp_datagram :: "bytes \<Rightarrow> bytes \<Rightarrow> bytes \<Rightarrow> udp_datagram_info outcome" where
  "parse_udp_datagram source_ip dest_ip datagram =
     (if length datagram < UDP_HEADER_LEN
      then Err ''UDP datagram shorter than the 8-byte header''
      else if \<not> udp_checksum_is_valid source_ip dest_ip datagram
      then Err ''UDP checksum mismatch - datagram is corrupt or IPs don't match''
      else obind (idx datagram 0) (\<lambda>d0. obind (idx datagram 1) (\<lambda>d1.
           obind (idx datagram 2) (\<lambda>d2. obind (idx datagram 3) (\<lambda>d3.
           obind (idx datagram 4) (\<lambda>d4. obind (idx datagram 5) (\<lambda>d5.
             Ok \<lparr>udp_source_port = be16 d0 d1, udp_dest_port = be16 d2 d3, udp_length = be16 d4 d5\<rparr>)))))))"

section \<open>Lemmas\<close>

lemma be_bytes16_eq_zero: "be_bytes16 w = [0, 0] \<longleftrightarrow> w = 0"
proof
  assume "be_bytes16 w = [0, 0]"
  then have "be16 (ucast (drop_bit 8 w)) (ucast w) = be16 0 0"
    by (simp only: be_bytes16_def list.inject)
  then have "w = be16 0 0" by (simp only: be16_of_bytes)
  then show "w = 0" by (simp add: be16_def)
qed (simp add: be_bytes16_def)

text \<open>The header with its checksum field still zero, and the value that replaces the zero.\<close>

definition udp_blank :: "u16 \<Rightarrow> u16 \<Rightarrow> bytes \<Rightarrow> bytes" where
  "udp_blank sp dp payload =
     be_bytes16 sp @ be_bytes16 dp @ be_bytes16 (of_nat (8 + length payload)) @ [0, 0]"

definition udp_stamp :: "bytes \<Rightarrow> bytes \<Rightarrow> u16 \<Rightarrow> u16 \<Rightarrow> bytes \<Rightarrow> u16" where
  "udp_stamp src dst sp dp payload =
     (let c = pseudo_header_checksum src dst 17 (udp_blank sp dp payload @ payload)
      in if c = 0 then 0xFFFF else c)"

lemma udp_blank_shape [simp]:
  "length (udp_blank sp dp p) = 8" "sub (udp_blank sp dp p) 6 2 = [0, 0]"
  by (simp_all add: udp_blank_def be_bytes16_def sub_def)

lemma build_udp_header_eq:
  "build_udp_header src dst sp dp p =
     overwrite (udp_blank sp dp p) 6 (be_bytes16 (udp_stamp src dst sp dp p))"
  by (simp add: build_udp_header_def udp_blank_def udp_stamp_def Let_def)

lemma build_udp_header_bytes:
  "build_udp_header src dst sp dp p =
     be_bytes16 sp @ be_bytes16 dp @ be_bytes16 (of_nat (8 + length p))
       @ be_bytes16 (udp_stamp src dst sp dp p)"
  by (simp add: build_udp_header_eq overwrite_def) (simp add: udp_blank_def be_bytes16_def)

lemma udp_stamp_nonzero: "udp_stamp src dst sp dp p \<noteq> 0"
  by (simp add: udp_stamp_def Let_def)

lemma build_udp_header_checksum:
  assumes "length src = 4" and "length dst = 4" and "length p \<le> 131052"
  shows "pseudo_header_checksum src dst 17 (build_udp_header src dst sp dp p @ p) = 0"
  using pseudo_stamp_header [OF assms(1,2), of 6 "udp_blank sp dp p" p 17] assms(3)
  by (simp add: build_udp_header_eq udp_stamp_def Let_def)

lemma parse_built_udp:
  assumes "length src = 4" and "length dst = 4" and "length p \<le> 131052"
  shows "parse_udp_datagram src dst (build_udp_header src dst sp dp p @ p) =
           Ok \<lparr>udp_source_port = sp, udp_dest_port = dp, udp_length = of_nat (8 + length p)\<rparr>"
proof -
  have "udp_checksum_is_valid src dst (build_udp_header src dst sp dp p @ p)"
    using build_udp_header_checksum [OF assms] by (simp add: udp_checksum_is_valid_def)
  then show ?thesis
    by (simp add: parse_udp_datagram_def build_udp_header_bytes be_bytes16_def)
qed

lemma parse_udp_datagram_returns: "returns (parse_udp_datagram src dst d)"
  by (auto simp: parse_udp_datagram_def returns_obind)

section \<open>Properties\<close>

text \<open>
  A datagram made of a built header and its payload parses under the same addresses to the
  ports it was built from and the length of header and payload (modulo 2 ^ 16), its checksum
  field is never the reserved value zero, and its pseudo-header checksum really sums to zero, so
  that acceptance does not come from the ``no checksum'' escape.
\<close>

theorem udp_roundtrip:
  assumes "length src = 4" and "length dst = 4" and "length p \<le> 131052"
  shows "parse_udp_datagram src dst (build_udp_header src dst sp dp p @ p) =
           Ok \<lparr>udp_source_port = sp, udp_dest_port = dp, udp_length = of_nat (8 + length p)\<rparr>
     \<and> length (build_udp_header src dst sp dp p) = UDP_HEADER_LEN
     \<and> drop 6 (build_udp_header src dst sp dp p) \<noteq> [0, 0]
     \<and> pseudo_header_checksum src dst IP_PROTOCOL_UDP (build_udp_header src dst sp dp p @ p) = 0"
  using build_udp_header_checksum [OF assms, of sp dp] parse_built_udp [OF assms, of sp dp]
  by (simp add: build_udp_header_bytes be_bytes16_eq_zero udp_stamp_nonzero)

theorem udp_roundtrip_witness:
  "parse_udp_datagram [10, 0, 2, 15] [10, 0, 2, 3]
     (build_udp_header [10, 0, 2, 15] [10, 0, 2, 3] 1234 53 [1, 2, 3] @ [1, 2, 3]) =
   Ok \<lparr>udp_source_port = 1234, udp_dest_port = 53, udp_length = 11\<rparr>"
  using udp_roundtrip [of "[10, 0, 2, 15]" "[10, 0, 2, 3]" "[1, 2, 3]" 1234 53] by simp

end
