(* ===== verification/Tcp.thy ===== *)
theory Tcp
  imports Icmp
begin

text \<open>
  Model of \<^verbatim>\<open>net/tcp.rs\<close>: the option-less TCP header builder with the RFC 793 pseudo-header
  checksum, and the segment parser that accepts headers with options.
\<close>

section \<open>Definitions\<close>

abbreviation (input) TCP_HEADER_LEN :: nat where "TCP_HEADER_LEN \<equiv> 20"
abbreviation (input) IP_PROTOCOL_TCP :: u8 where "IP_PROTOCOL_TCP \<equiv> 6"
abbreviation (input) TCP_FLAG_FIN :: u8 where "TCP_FLAG_FIN \<equiv> 0x01"
abbreviation (input) TCP_FLAG_SYN :: u8 where "TCP_FLAG_SYN \<equiv> 0x02"
abbreviation (input) TCP_FLAG_RST :: u8 where "TCP_FLAG_RST \<equiv> 0x04"
abbreviation (input) TCP_FLAG_PSH :: u8 where "TCP_FLAG_PSH \<equiv> 0x08"
abbreviation (input) TCP_FLAG_ACK :: u8 where "TCP_FLAG_ACK \<equiv> 0x10"

definition tcp_checksum_is_valid :: "bytes \<Rightarrow> bytes \<Rightarrow> bytes \<Rightarrow> bool" where
  "tcp_checksum_is_valid source_ip dest_ip segment \<longleftrightarrow>
     pseudo_header_checksum source_ip dest_ip IP_PROTOCOL_TCP segment = 0"

definition build_tcp_header ::
  "bytes \<Rightarrow> bytes \<Rightarrow> u16 \<Rightarrow> u16 \<Rightarrow> u32 \<Rightarrow> u32 \<Rightarrow> u8 \<Rightarrow> u16 \<Rightarrow> bytes \<Rightarrow> bytes" where
  "build_tcp_header source_ip dest_ip source_port dest_port seq_num ack_num flags window payload =
     (let header = be_bytes16 source_port @ be_bytes16 dest_port @ be_bytes32 seq_num
            @ be_bytes32 ack_num @ [0x50, flags] @ be_bytes16 window @ [0, 0] @ [0, 0];
          segment = header @ payload;
          checksum = pseudo_header_checksum source_ip dest_ip IP_PROTOCOL_TCP segment
      in overwrite header 16 (be_bytes16 checksum))"

record tcp_segment_info =
  tcp_source_port :: u16
  tcp_dest_port :: u16
  tcp_seq_num :: u32
  tcp_ack_num :: u32
  tcp_flags :: u8
  tcp_window :: u16
  tcp_header_len :: nat

definition parse_tcp_segment :: "bytes \<Rightarrow> bytes \<Rightarrow> bytes \<Rightarrow> tcp_segment_info outcome" where
  "parse_tcp_segment source_ip dest_ip segment =
     (if length segment < TCP_HEADER_LEN
      then Err ''TCP segment shorter than the 20-byte header''
      else obind (idx segment 12) (\<lambda>s12.
        let data_offset_words = drop_bit 4 s12 in
        if data_offset_words < 5
        then Err ''TCP header claims an impossible data offset (< 5)''
        else if \<not> tcp_checksum_is_valid source_ip dest_ip segment
        then Err ''TCP checksum mismatch - segment is corrupt or IPs don't match''
        else
          obind (idx segment 0) (\<lambda>s0. obind (idx segment 1) (\<lambda>s1.
          obind (idx segment 2) (\<lambda>s2. obind (idx segment 3) (\<lambda>s3.
          obind (idx segment 4) (\<lambda>s4. obind (idx segment 5) (\<lambda>s5.
          obind (idx segment 6) (\<lambda>s6. obind (idx segment 7) (\<lambda>s7.
          obind (idx segment 8) (\<lambda>s8. obind (idx segment 9) (\<lambda>s9.
          obind (idx segment 10) (\<lambda>s10. obind (idx segment 11) (\<lambda>s11.
          obind (idx segment 13) (\<lambda>s13.
          obind (idx segment 14) (\<lambda>s14. obind (idx segment 15) (\<lambda>s15.
            Ok \<lparr>tcp_source_port = be16 s0 s1, tcp_dest_port = be16 s2 s3,
                tcp_seq_num = be32 s4 s5 s6 s7, tcp_ack_num = be32 s8 s9 s10 s11,
                tcp_flags = s13, tcp_window = be16 s14 s15,
                tcp_header_len = unat data_offset_words * 4\<rparr>)))))))))))))))))"

section \<open>Lemmas\<close>

definition tcp_blank :: "u16 \<Rightarrow> u16 \<Rightarrow> u32 \<Rightarrow> u32 \<Rightarrow> u8 \<Rightarrow> u16 \<Rightarrow> bytes" where
  "tcp_blank sp dp seq ack fl win =
     be_bytes16 sp @ be_bytes16 dp @ be_bytes32 seq @ be_bytes32 ack @ [0x50, fl]
       @ be_bytes16 win @ [0, 0] @ [0, 0]"

lemma tcp_blank_shape [simp]:
  "length (tcp_blank sp dp seq ack fl win) = 20"
  "sub (tcp_blank sp dp seq ack fl win) 16 2 = [0, 0]"
  by (simp_all add: tcp_blank_def be_bytes16_def be_bytes32_def sub_def)

lemma build_tcp_header_eq:
  "build_tcp_header src dst sp dp seq ack fl win p =
     overwrite (tcp_blank sp dp seq ack fl win) 16
       (be_bytes16 (pseudo_header_checksum src dst 6 (tcp_blank sp dp seq ack fl win @ p)))"
  by (simp add: build_tcp_header_def tcp_blank_def Let_def)

lemma build_tcp_header_bytes:
  "\<exists>c0 c1. build_tcp_header src dst sp dp seq ack fl win p =
     be_bytes16 sp @ be_bytes16 dp @ be_bytes32 seq @ be_bytes32 ack @ [0x50, fl]
       @ be_bytes16 win @ [c0, c1, 0, 0]"
  unfolding build_tcp_header_eq overwrite_def
  by (simp add: tcp_blank_def be_bytes16_def be_bytes32_def)

lemma build_tcp_header_checksum:
  assumes "length src = 4" and "length dst = 4" and "length p \<le> 131040"
  shows "tcp_checksum_is_valid src dst (build_tcp_header src dst sp dp seq ack fl win p @ p)"
  unfolding tcp_checksum_is_valid_def build_tcp_header_eq
  by (rule pseudo_stamp_header) (use assms in simp_all)

lemma length_build_tcp_header [simp]: "length (build_tcp_header src dst sp dp seq ack fl win p) = 20"
  unfolding build_tcp_header_eq by simp

lemma parse_built_tcp:
  assumes "length src = 4" and "length dst = 4" and "length p \<le> 131040"
  shows "parse_tcp_segment src dst (build_tcp_header src dst sp dp seq ack fl win p @ p) =
     Ok \<lparr>tcp_source_port = sp, tcp_dest_port = dp, tcp_seq_num = seq, tcp_ack_num = ack,
         tcp_flags = fl, tcp_window = win, tcp_header_len = TCP_HEADER_LEN\<rparr>"
proof -
  obtain c0 c1 where bytes: "build_tcp_header src dst sp dp seq ack fl win p =
     be_bytes16 sp @ be_bytes16 dp @ be_bytes32 seq @ be_bytes32 ack @ [0x50, fl]
       @ be_bytes16 win @ [c0, c1, 0, 0]"
    using build_tcp_header_bytes by metis
  have "tcp_checksum_is_valid src dst (build_tcp_header src dst sp dp seq ack fl win p @ p)"
    by (rule build_tcp_header_checksum [OF assms])
  then show ?thesis
    by (simp add: bytes parse_tcp_segment_def be_bytes16_def be_bytes32_def)
qed

lemma parse_tcp_segment_returns: "returns (parse_tcp_segment src dst seg)"
  by (auto simp: parse_tcp_segment_def returns_obind Let_def)

text \<open>A bare 20-byte segment whose data offset claims 15 words.\<close>

definition long_offset_segment :: bytes where
  "long_offset_segment = [0, 5, 0, 6, 0, 0, 0, 7, 0, 0, 0, 8, 0xF0, 0x10, 0, 9, 0x09, 0xAC, 0, 0]"

lemma long_offset_segment_accepted:
  "parse_tcp_segment [1, 1, 1, 1] [2, 2, 2, 2] long_offset_segment =
     Ok \<lparr>tcp_source_port = 5, tcp_dest_port = 6, tcp_seq_num = 7, tcp_ack_num = 8,
         tcp_flags = 0x10, tcp_window = 9, tcp_header_len = 60\<rparr>"
  by code_simp

text \<open>Any segment becomes valid with the right checksum.\<close>

lemma sub_two: "k + 2 \<le> length xs \<Longrightarrow> sub xs k 2 = [xs ! k, xs ! (k + 1)]"
  by (rule nth_equalityI) (auto simp: sub_def less_Suc_eq numeral_2_eq_2)

lemma stamp_segment:
  assumes "length src = 4" and "length dst = 4" and "20 \<le> length seg" and "length seg \<le> 131060"
  shows "\<exists>c0 c1. tcp_checksum_is_valid src dst (seg[16 := c0, 17 := c1])"
proof -
  define h where "h = seg[16 := 0, 17 := 0]"
  let ?c = "pseudo_header_checksum src dst 6 (h @ [])"
  have "pseudo_header_checksum src dst 6 (overwrite h 16 (be_bytes16 ?c) @ []) = 0"
    by (rule pseudo_stamp_header) (use assms in \<open>simp_all add: h_def sub_two\<close>)
  moreover have "overwrite h 16 [c0, c1] = seg[16 := c0, 17 := c1]" for c0 c1
    using assms(3) by (intro nth_equalityI) (auto simp: h_def overwrite_def nth_append nth_list_update nth_Cons' not_less)
  ultimately show ?thesis by (auto simp: tcp_checksum_is_valid_def be_bytes16_def)
qed

section \<open>Properties\<close>

text \<open>
  A segment made of a built header and its payload parses under the same addresses to exactly
  the ports, sequence and acknowledgement numbers, flags and window it was built from, and the
  returned header length is the offset of the payload.
\<close>

theorem tcp_roundtrip:
  assumes "length src = 4" and "length dst = 4" and "length p \<le> 131040"
  shows "\<exists>info. parse_tcp_segment src dst (build_tcp_header src dst sp dp seq ack fl win p @ p) = Ok info
     \<and> info = \<lparr>tcp_source_port = sp, tcp_dest_port = dp, tcp_seq_num = seq, tcp_ack_num = ack,
                tcp_flags = fl, tcp_window = win, tcp_header_len = TCP_HEADER_LEN\<rparr>
     \<and> drop (tcp_header_len info) (build_tcp_header src dst sp dp seq ack fl win p @ p) = p"
  using parse_built_tcp [OF assms] by simp

theorem tcp_roundtrip_witness:
  "\<exists>info. parse_tcp_segment [10, 0, 2, 15] [10, 0, 2, 2]
       (build_tcp_header [10, 0, 2, 15] [10, 0, 2, 2] 49152 7 1000 0 TCP_FLAG_SYN 64240 [104, 105]
        @ [104, 105]) = Ok info
     \<and> info = \<lparr>tcp_source_port = 49152, tcp_dest_port = 7, tcp_seq_num = 1000, tcp_ack_num = 0,
                tcp_flags = 2, tcp_window = 64240, tcp_header_len = 20\<rparr>
     \<and> drop (tcp_header_len info)
        (build_tcp_header [10, 0, 2, 15] [10, 0, 2, 2] 49152 7 1000 0 TCP_FLAG_SYN 64240 [104, 105]
         @ [104, 105]) = [104, 105]"
  by (rule tcp_roundtrip) simp_all

text \<open>
  Whatever bytes arrive, an accepted segment has at least 20 bytes, a data offset of at least
  five words and a correct checksum, and its returned header length is four times the data
  offset, hence between 20 and 60.
\<close>

theorem parse_tcp_segment_sound:
  assumes "parse_tcp_segment src dst seg = Ok info"
  shows "TCP_HEADER_LEN \<le> length seg \<and> tcp_checksum_is_valid src dst seg
     \<and> tcp_header_len info = 4 * unat (drop_bit 4 (seg ! 12))
     \<and> 20 \<le> tcp_header_len info \<and> tcp_header_len info \<le> 60"
proof -
  have "unat (drop_bit 4 (seg ! 12)) = unat (seg ! 12) div 16"
    by (simp add: unat_drop_bit)
  then have "unat (drop_bit 4 (seg ! 12)) \<le> 15"
    using unat_u8_less [of "seg ! 12"] by linarith
  then show ?thesis
    using assms
    by (auto simp: parse_tcp_segment_def Let_def word_less_nat_alt split: if_splits)
qed

theorem parse_tcp_segment_sound_witness:
  "20 \<le> length long_offset_segment
   \<and> tcp_checksum_is_valid [1, 1, 1, 1] [2, 2, 2, 2] long_offset_segment"
  using parse_tcp_segment_sound [OF long_offset_segment_accepted] by simp

text \<open>
  C33: which segments are accepted. Exactly those of at least 20 bytes with a data offset of at least five words and a correct
  checksum, with the fields at their places; every other input is an error. The data offset is not compared with the
  length of the segment: any segment of at least 20 bytes, with any data offset from 5 to 15 words written into it, is accepted
  with some checksum, and the returned header length is four times that offset even where this lies beyond the end of
  the segment.
\<close>

theorem parse_tcp_segment_exact:
  assumes "length src = 4" and "length dst = 4"
  shows "parse_tcp_segment src dst seg =
       (if 20 \<le> length seg \<and> 5 \<le> unat (seg ! 12) div 16 \<and> tcp_checksum_is_valid src dst seg
        then Ok \<lparr>tcp_source_port = be16 (seg ! 0) (seg ! 1), tcp_dest_port = be16 (seg ! 2) (seg ! 3),
               tcp_seq_num = be32 (seg ! 4) (seg ! 5) (seg ! 6) (seg ! 7), tcp_ack_num = be32 (seg ! 8) (seg ! 9) (seg ! 10) (seg ! 11),
               tcp_flags = seg ! 13, tcp_window = be16 (seg ! 14) (seg ! 15), tcp_header_len = 4 * (unat (seg ! 12) div 16)\<rparr>
        else if length seg < 20 then Err ''TCP segment shorter than the 20-byte header''
        else if unat (seg ! 12) div 16 < 5 then Err ''TCP header claims an impossible data offset (< 5)''
        else Err ''TCP checksum mismatch - segment is corrupt or IPs don't match'')
     \<and> (20 \<le> length seg \<and> length seg \<le> 131060 \<and> 5 \<le> unat b div 16 \<longrightarrow>
        (\<exists>c0 c1 info. parse_tcp_segment src dst (seg[12 := b, 16 := c0, 17 := c1]) = Ok info
           \<and> tcp_header_len info = 4 * (unat b div 16)))"
proof (intro conjI impI)
  have exact: "parse_tcp_segment src dst seg =
       (if 20 \<le> length seg \<and> 5 \<le> unat (seg ! 12) div 16 \<and> tcp_checksum_is_valid src dst seg
        then Ok \<lparr>tcp_source_port = be16 (seg ! 0) (seg ! 1), tcp_dest_port = be16 (seg ! 2) (seg ! 3),
               tcp_seq_num = be32 (seg ! 4) (seg ! 5) (seg ! 6) (seg ! 7), tcp_ack_num = be32 (seg ! 8) (seg ! 9) (seg ! 10) (seg ! 11),
               tcp_flags = seg ! 13, tcp_window = be16 (seg ! 14) (seg ! 15), tcp_header_len = 4 * (unat (seg ! 12) div 16)\<rparr>
        else if length seg < 20 then Err ''TCP segment shorter than the 20-byte header''
        else if unat (seg ! 12) div 16 < 5 then Err ''TCP header claims an impossible data offset (< 5)''
        else Err ''TCP checksum mismatch - segment is corrupt or IPs don't match'')" for seg
    by (auto simp: parse_tcp_segment_def Let_def word_less_nat_alt unat_drop_bit idx_def)
  show "parse_tcp_segment src dst seg =
       (if 20 \<le> length seg \<and> 5 \<le> unat (seg ! 12) div 16 \<and> tcp_checksum_is_valid src dst seg
        then Ok \<lparr>tcp_source_port = be16 (seg ! 0) (seg ! 1), tcp_dest_port = be16 (seg ! 2) (seg ! 3),
               tcp_seq_num = be32 (seg ! 4) (seg ! 5) (seg ! 6) (seg ! 7), tcp_ack_num = be32 (seg ! 8) (seg ! 9) (seg ! 10) (seg ! 11),
               tcp_flags = seg ! 13, tcp_window = be16 (seg ! 14) (seg ! 15), tcp_header_len = 4 * (unat (seg ! 12) div 16)\<rparr>
        else if length seg < 20 then Err ''TCP segment shorter than the 20-byte header''
        else if unat (seg ! 12) div 16 < 5 then Err ''TCP header claims an impossible data offset (< 5)''
        else Err ''TCP checksum mismatch - segment is corrupt or IPs don't match'')" by (rule exact)
  assume a: "20 \<le> length seg \<and> length seg \<le> 131060 \<and> 5 \<le> unat b div 16"
  obtain c0 c1 where c: "tcp_checksum_is_valid src dst (seg[12 := b, 16 := c0, 17 := c1])"
    using stamp_segment [OF assms, of "seg[12 := b]"] a by auto
  show "\<exists>c0 c1 info. parse_tcp_segment src dst (seg[12 := b, 16 := c0, 17 := c1]) = Ok info
      \<and> tcp_header_len info = 4 * (unat b div 16)"
    by (intro exI [of _ c0] exI [of _ c1]) (use exact [of "seg[12 := b, 16 := c0, 17 := c1]"] a c in simp)
qed

theorem parse_tcp_segment_exact_witness:
  "\<exists>c0 c1 info. parse_tcp_segment [10, 0, 2, 2] [10, 0, 2, 15] ((replicate 20 0)[12 := 0xF0, 16 := c0, 17 := c1]) = Ok info
     \<and> tcp_header_len info = 60"
  using parse_tcp_segment_exact [of "[10, 0, 2, 2]" "[10, 0, 2, 15]" "replicate 20 0" "0xF0"] by simp

end
