(* ===== verification/Dns.thy ===== *)
theory Dns
  imports Udp
begin

text \<open>
  Model of \<^verbatim>\<open>net/dns.rs\<close>: hostname encoding, the query builder, the length of a NAME field and
  the search through the answer records of a reply. Every access to the message goes through
  \<open>idx\<close> or \<open>slice\<close>, so an access out of range would show as \<open>Panic\<close>. A hostname is given as
  its bytes (the source takes an ASCII \<^verbatim>\<open>&str\<close>).
\<close>

section \<open>Definitions\<close>

abbreviation (input) DNS_HEADER_LEN :: nat where "DNS_HEADER_LEN \<equiv> 12"
abbreviation (input) DNS_TYPE_A :: u16 where "DNS_TYPE_A \<equiv> 1"
abbreviation (input) DNS_TYPE_AAAA :: u16 where "DNS_TYPE_AAAA \<equiv> 28"
abbreviation (input) DNS_QCLASS_IN :: u16 where "DNS_QCLASS_IN \<equiv> 1"
abbreviation (input) MAX_LABEL_LEN :: nat where "MAX_LABEL_LEN \<equiv> 63"
abbreviation (input) MAX_QNAME_ENCODED_LEN :: nat where "MAX_QNAME_ENCODED_LEN \<equiv> 255"

text \<open>The loop of \<^verbatim>\<open>name_field_len\<close>; \<open>pos\<close> grows by at least one in every round.\<close>

function name_field_loop :: "bytes \<Rightarrow> nat \<Rightarrow> nat outcome" where
  "name_field_loop message pos =
     (if length message \<le> pos then Err ''answer record NAME runs past the end of the message''
      else let label_len = message ! pos in
        if label_len AND 0xC0 = 0xC0 then
          (if length message \<le> pos + 1
           then Err ''answer record NAME's own compression pointer is missing its second byte''
           else Ok (pos + 2))
        else if label_len = 0 then Ok (pos + 1)
        else if MAX_LABEL_LEN < unat label_len then Err ''answer record NAME has a label over 63 bytes''
        else name_field_loop message (pos + (1 + unat label_len)))"
  by pat_completeness auto
termination
  by (relation "measure (\<lambda>(m, pos). length m - pos)") auto

declare name_field_loop.simps [simp del]

definition name_field_len :: "bytes \<Rightarrow> nat \<Rightarrow> nat outcome" where
  "name_field_len message offset =
     (if length message \<le> offset then Err ''answer record NAME starts past the end of the message''
      else obind (idx message offset) (\<lambda>b.
        if b AND 0xC0 = 0xC0 then
          (if length message \<le> offset + 1
           then Err ''answer record NAME's own compression pointer is missing its second byte''
           else Ok 2)
        else obind (name_field_loop message offset) (\<lambda>pos. Ok (pos - offset))))"

text \<open>The \<^verbatim>\<open>for _ in 0..ancount\<close> loop: \<open>n\<close> rounds are left, \<open>offset\<close> is the next record.\<close>

fun record_loop :: "bytes \<Rightarrow> u16 \<Rightarrow> nat \<Rightarrow> nat \<Rightarrow> bytes outcome" where
  "record_loop message record_type 0 offset =
     Err ''no record of the requested type found among this reply's own answer records''"
| "record_loop message record_type (Suc n) offset =
     obind (name_field_len message offset) (\<lambda>name_len.
       let fixed_start = offset + name_len in
       if length message < fixed_start + 10
       then Err ''DNS message too short to contain the answer record's fixed fields''
       else
         obind (idx message fixed_start) (\<lambda>t0. obind (idx message (fixed_start + 1)) (\<lambda>t1.
         obind (idx message (fixed_start + 8)) (\<lambda>l0. obind (idx message (fixed_start + 9)) (\<lambda>l1.
           let this_type = be16 t0 t1;
               rdlength = unat (be16 l0 l1);
               rdata_start = fixed_start + 10
           in if length message < rdata_start + rdlength
              then Err ''DNS message too short to contain the answer record's own RDATA''
              else if this_type = record_type then slice message rdata_start (rdata_start + rdlength)
              else record_loop message record_type n (rdata_start + rdlength))))))"

definition find_first_record_rdata :: "bytes \<Rightarrow> nat \<Rightarrow> u16 \<Rightarrow> bytes outcome" where
  "find_first_record_rdata message question_len record_type =
     (if length message < DNS_HEADER_LEN then Err ''DNS message shorter than the 12-byte header''
      else obind (idx message 6) (\<lambda>m6. obind (idx message 7) (\<lambda>m7.
        let ancount = be16 m6 m7 in
        if ancount = 0 then Err ''DNS response has zero answer records''
        else record_loop message record_type (unat ancount) (DNS_HEADER_LEN + question_len))))"

definition parse_first_a_record :: "bytes \<Rightarrow> nat \<Rightarrow> bytes outcome" where
  "parse_first_a_record message question_len =
     obind (omap_err ''no A record found among this reply's own answer records''
              (find_first_record_rdata message question_len DNS_TYPE_A)) (\<lambda>rdata.
       if length rdata \<noteq> 4 then Err ''A record's own RDLENGTH is not 4'' else Ok rdata)"

definition parse_first_aaaa_record :: "bytes \<Rightarrow> nat \<Rightarrow> bytes outcome" where
  "parse_first_aaaa_record message question_len =
     obind (omap_err ''no AAAA record found among this reply's own answer records''
              (find_first_record_rdata message question_len DNS_TYPE_AAAA)) (\<lambda>rdata.
       if length rdata \<noteq> 16 then Err ''AAAA record's own RDLENGTH is not 16'' else Ok rdata)"

text \<open>\<^verbatim>\<open>hostname.split('.')\<close>: always at least one piece, the separators removed.\<close>

fun split_dot :: "bytes \<Rightarrow> bytes list" where
  "split_dot [] = [[]]"
| "split_dot (c # cs) =
     (if c = 0x2E then [] # split_dot cs
      else (c # hd (split_dot cs)) # tl (split_dot cs))"

text \<open>The loop of \<^verbatim>\<open>encode_qname\<close>: what it appends to \<^verbatim>\<open>out\<close>, and whether it stops early.\<close>

fun encode_labels :: "nat \<Rightarrow> bytes list \<Rightarrow> bytes \<Rightarrow> unit outcome \<times> bytes" where
  "encode_labels encoded_len [] out = (Ok (), out)"
| "encode_labels encoded_len (label # ls) out =
     (if label = [] then
        (Err ''hostname has an empty label (leading, trailing, or doubled '.')'', out)
      else if MAX_LABEL_LEN < length label then (Err ''hostname label exceeds 63 bytes'', out)
      else let encoded_len' = encoded_len + (1 + length label) in
        if MAX_QNAME_ENCODED_LEN < encoded_len' + 1
        then (Err ''hostname exceeds 255 bytes when DNS-encoded'', out)
        else encode_labels encoded_len' ls (out @ [of_nat (length label)] @ label))"

definition encode_qname :: "bytes \<Rightarrow> bytes \<Rightarrow> unit outcome \<times> bytes" where
  "encode_qname hostname out =
     (if hostname = [] then (Err ''hostname is empty'', out)
      else case encode_labels 0 (split_dot hostname) out of
          (Ok _, out') \<Rightarrow> (Ok (), out' @ [0])
        | (r, out') \<Rightarrow> (r, out'))"

definition build_query :: "u16 \<Rightarrow> bytes \<Rightarrow> u16 \<Rightarrow> bytes outcome" where
  "build_query transaction_id hostname qtype =
     (let query = be_bytes16 transaction_id @ [0x01, 0x00] @ [0x00, 0x01] @ [0x00, 0x00]
            @ [0x00, 0x00] @ [0x00, 0x00]
      in case encode_qname hostname query of
           (r, query') \<Rightarrow> obind r (\<lambda>_. Ok (query' @ be_bytes16 qtype @ be_bytes16 DNS_QCLASS_IN)))"

section \<open>Names on the wire\<close>

text \<open>
  A NAME field as RFC 1035 describes it: a sequence of labels ended by a zero byte or by a
  two-byte compression pointer.
\<close>

datatype name_end = Root | Pointer u8 u8

primrec end_bytes :: "name_end \<Rightarrow> bytes" where
  "end_bytes Root = [0]"
| "end_bytes (Pointer a b) = [a, b]"

definition wire_name :: "bytes list \<Rightarrow> name_end \<Rightarrow> bytes" where
  "wire_name ls e = concat (map (\<lambda>l. of_nat (length l) # l) ls) @ end_bytes e"

definition valid_label :: "bytes \<Rightarrow> bool" where
  "valid_label l \<longleftrightarrow> l \<noteq> [] \<and> length l \<le> MAX_LABEL_LEN"

primrec valid_end :: "name_end \<Rightarrow> bool" where
  "valid_end Root = True"
| "valid_end (Pointer a b) = (a AND 0xC0 = 0xC0)"

lemma and_c0_small: "unat (b :: u8) < 64 \<Longrightarrow> b AND 0xC0 = 0"
proof -
  assume "unat b < 64"
  then have "b = take_bit 6 b"
    by (simp add: word_unat_eq_iff unat_take_bit)
  moreover have "take_bit 6 b AND push_bit 6 c = 0" for c
    by (rule bit_word_eqI) (auto simp: bit_simps)
  from this [of 3] have "take_bit 6 b AND 0xC0 = 0" by simp
  ultimately show ?thesis by metis
qed

lemma wire_name_Nil [simp]: "wire_name [] e = end_bytes e"
  and wire_name_Cons [simp]: "wire_name (l # ls) e = of_nat (length l) # l @ wire_name ls e"
  by (simp_all add: wire_name_def)

lemma unat_label_length: "length l \<le> 63 \<Longrightarrow> unat (of_nat (length l) :: u8) = length l"
  by (simp add: unat_of_nat)

lemma valid_label_byte:
  assumes "valid_label l"
  shows "unat (of_nat (length l) :: u8) = length l" "of_nat (length l) AND 0xC0 = (0 :: u8)"
    "of_nat (length l) \<noteq> (0 :: u8)"
proof -
  show u: "unat (of_nat (length l) :: u8) = length l"
    using assms by (simp add: valid_label_def unat_label_length)
  show "of_nat (length l) AND 0xC0 = (0 :: u8)"
    by (rule and_c0_small) (use assms u in \<open>simp add: valid_label_def\<close>)
  show "of_nat (length l) \<noteq> (0 :: u8)"
    using assms u by (metis length_0_conv unat_0 valid_label_def)
qed

lemma name_field_loop_wire:
  assumes "\<forall>l \<in> set ls. valid_label l" and "valid_end e"
  shows "name_field_loop (pre @ wire_name ls e @ post) (length pre) =
           Ok (length pre + length (wire_name ls e))"
  using assms(1)
proof (induction ls arbitrary: pre)
  case Nil
  then show ?case
    using assms(2) by (cases e) (simp_all add: name_field_loop.simps nth_append)
next
  case (Cons l ls)
  let ?m = "pre @ wire_name (l # ls) e @ post"
  have v: "valid_label l" using Cons.prems by simp
  have m: "?m = (pre @ of_nat (length l) # l) @ wire_name ls e @ post" by simp
  have "?m ! length pre = of_nat (length l)" by (simp add: nth_append)
  then have "name_field_loop ?m (length pre) = name_field_loop ?m (length pre + (1 + length l))"
    using valid_label_byte [OF v] v
    by (subst name_field_loop.simps) (simp add: valid_label_def)
  also have "\<dots> = Ok (length pre + (1 + length l) + length (wire_name ls e))"
    using Cons.IH [of "pre @ of_nat (length l) # l"] Cons.prems m by simp
  finally show ?case by simp
qed

lemma wire_name_length_pos: "0 < length (wire_name ls e)"
  by (cases e) (auto simp: wire_name_def)

lemma name_field_len_wire:
  assumes "\<forall>l \<in> set ls. valid_label l" and "valid_end e"
  shows "name_field_len (pre @ wire_name ls e @ post) (length pre) = Ok (length (wire_name ls e))"
proof (cases ls)
  case Nil
  then show ?thesis
    using name_field_loop_wire [OF assms, of pre post] assms(2)
    by (cases e) (simp_all add: name_field_len_def idx_def nth_append)
next
  case (Cons l k)
  have "valid_label l" using assms(1) Cons by simp
  then have "(pre @ wire_name ls e @ post) ! length pre AND 0xC0 \<noteq> 0xC0"
    by (simp add: Cons valid_label_byte)
  then show ?thesis
    using name_field_loop_wire [OF assms, of pre post] wire_name_length_pos [of ls e]
    by (simp add: name_field_len_def)
qed

lemma name_field_loop_total: "returns (name_field_loop m pos)"
proof (induction m pos rule: name_field_loop.induct)
  case (1 m pos)
  then show ?case by (subst name_field_loop.simps) (auto simp: Let_def)
qed

lemma name_field_len_total: "returns (name_field_len m offset)"
  by (auto simp: name_field_len_def returns_obind name_field_loop_total)

lemma record_loop_total: "returns (record_loop m t n offset)"
  by (induction n arbitrary: offset) (auto simp: returns_obind name_field_len_total Let_def)

lemma find_first_record_rdata_total: "returns (find_first_record_rdata m q t)"
  by (auto simp: find_first_record_rdata_def returns_obind record_loop_total Let_def)

section \<open>Answer records on the wire\<close>

record answer =
  a_labels :: "bytes list"
  a_end :: name_end
  a_type :: u16
  a_class :: u16
  a_ttl :: u32
  a_rdata :: bytes

definition wire_fixed :: "answer \<Rightarrow> bytes" where
  "wire_fixed r = be_bytes16 (a_type r) @ be_bytes16 (a_class r) @ be_bytes32 (a_ttl r)
     @ be_bytes16 (of_nat (length (a_rdata r)))"

definition wire_answer :: "answer \<Rightarrow> bytes" where
  "wire_answer r = wire_name (a_labels r) (a_end r) @ wire_fixed r @ a_rdata r"

definition valid_answer :: "answer \<Rightarrow> bool" where
  "valid_answer r \<longleftrightarrow> list_all valid_label (a_labels r) \<and> valid_end (a_end r)
     \<and> length (a_rdata r) < 65536"

definition first_rdata :: "u16 \<Rightarrow> answer list \<Rightarrow> bytes option" where
  "first_rdata t rs = map_option a_rdata (find (\<lambda>r. a_type r = t) rs)"

lemma length_wire_fixed [simp]: "length (wire_fixed r) = 10"
  by (simp add: wire_fixed_def)

lemma wire_fixed_bytes:
  "be16 (wire_fixed r ! 0) (wire_fixed r ! Suc 0) = a_type r"
  "be16 (wire_fixed r ! 8) (wire_fixed r ! 9) = of_nat (length (a_rdata r))"
  by (simp_all add: wire_fixed_def be_bytes16_def be_bytes32_def)

lemma record_loop_step:
  assumes "valid_answer r"
  shows "record_loop (pre @ wire_answer r @ post) t (Suc n) (length pre) =
    (if a_type r = t then Ok (a_rdata r)
     else record_loop (pre @ wire_answer r @ post) t n (length (pre @ wire_answer r)))"
proof -
  let ?nm = "wire_name (a_labels r) (a_end r)"
  let ?m = "pre @ wire_answer r @ post" and ?f = "length pre + length ?nm"
  have m: "?m = pre @ ?nm @ (wire_fixed r @ a_rdata r @ post)" by (simp add: wire_answer_def)
  have nm: "name_field_len ?m (length pre) = Ok (length ?nm)"
    unfolding m by (rule name_field_len_wire) (use assms in \<open>simp_all add: valid_answer_def list_all_iff\<close>)
  have nth: "?m ! (?f + k) = wire_fixed r ! k" if "k < 10" for k
    unfolding m using that by (simp add: nth_append)
  have len: "length ?m = ?f + 10 + length (a_rdata r) + length post" by (simp add: m)
  have rd: "unat (of_nat (length (a_rdata r)) :: u16) = length (a_rdata r)"
    using assms by (simp add: valid_answer_def unat_of_nat)
  have sl: "slice ?m (?f + 10) (?f + 10 + length (a_rdata r)) = Ok (a_rdata r)"
    by (simp add: m sub_def)
  show ?thesis
    using nth [of 0] nth [of 1] nth [of 8] nth [of 9] sl
    by (simp add: nm len Let_def wire_fixed_bytes rd) (simp add: wire_answer_def add.assoc)
qed

lemma record_loop_wire:
  assumes "list_all valid_answer rs" and "n \<le> length rs"
  shows "record_loop (pre @ concat (map wire_answer rs) @ post) t n (length pre) =
    (case first_rdata t (take n rs) of Some d \<Rightarrow> Ok d
     | None \<Rightarrow> Err ''no record of the requested type found among this reply's own answer records'')"
  using assms
proof (induction rs arbitrary: pre n)
  case Nil
  then show ?case by (simp add: first_rdata_def)
next
  case (Cons r rs)
  show ?case
  proof (cases n)
    case 0
    then show ?thesis by (simp add: first_rdata_def)
  next
    case (Suc k)
    have "valid_answer r" using Cons.prems(1) by simp
    from record_loop_step [OF this, of pre "concat (map wire_answer rs) @ post" t k]
    show ?thesis
      using Cons.IH [of k "pre @ wire_answer r"] Cons.prems Suc by (simp add: first_rdata_def)
  qed
qed

lemma find_first_record_rdata_wire:
  assumes "length hdr = 12" and "be16 (hdr ! 6) (hdr ! 7) = of_nat n" and "0 < n" and "n < 65536"
    and "n \<le> length rs" and "list_all valid_answer rs"
  shows "find_first_record_rdata (hdr @ question @ concat (map wire_answer rs) @ post)
           (length question) t =
    (case first_rdata t (take n rs) of Some d \<Rightarrow> Ok d
     | None \<Rightarrow> Err ''no record of the requested type found among this reply's own answer records'')"
proof -
  let ?m = "hdr @ question @ concat (map wire_answer rs) @ post"
  have n: "unat (of_nat n :: u16) = n" using assms(4) by (simp add: unat_of_nat)
  then have nz: "of_nat n \<noteq> (0 :: u16)" using assms(3) by (metis gr_zeroI unat_0 less_irrefl)
  have "find_first_record_rdata ?m (length question) t =
      record_loop ?m t n (length (hdr @ question))"
    using assms(1,2) nz n by (simp add: find_first_record_rdata_def nth_append)
  also have "\<dots> = (case first_rdata t (take n rs) of Some d \<Rightarrow> Ok d
     | None \<Rightarrow> Err ''no record of the requested type found among this reply's own answer records'')"
    using record_loop_wire [OF assms(6,5), of "hdr @ question" post t] by simp
  finally show ?thesis .
qed

lemma slice_result: "slice m a b = Ok d \<Longrightarrow> d = sub m a (length d) \<and> a + length d \<le> length m"
  by (auto simp: slice_def sub_def split: if_splits)

lemma record_loop_slice:
  "record_loop m t n offset = Ok d \<Longrightarrow> \<exists>k. d = sub m k (length d) \<and> k + length d \<le> length m"
proof (induction n arbitrary: offset)
  case (Suc n)
  then show ?case
    by (auto simp: Let_def simp del: slice_Ok split: if_splits dest!: slice_result Suc.IH)
qed simp

lemma find_first_record_rdata_slice:
  "find_first_record_rdata m q t = Ok d \<Longrightarrow> \<exists>k. d = sub m k (length d) \<and> k + length d \<le> length m"
  by (auto simp: find_first_record_rdata_def Let_def split: if_splits dest: record_loop_slice)

section \<open>Encoding of hostnames\<close>

definition valid_hostname :: "bytes \<Rightarrow> bool" where
  "valid_hostname h \<longleftrightarrow> h \<noteq> [] \<and> list_all valid_label (split_dot h)
     \<and> length (wire_name (split_dot h) Root) \<le> MAX_QNAME_ENCODED_LEN"

lemma split_dot_nonempty [simp]: "split_dot h \<noteq> []"
  by (cases h) auto

text \<open>The pieces are the maximal dot-free parts: joined by dots they give the hostname back.\<close>

primrec join_dot :: "bytes list \<Rightarrow> bytes" where
  "join_dot [] = []"
| "join_dot (l # ls) = (if ls = [] then l else l @ [0x2E] @ join_dot ls)"

lemma join_dot_Cons_hd: "ls \<noteq> [] \<Longrightarrow> join_dot ((c # hd ls) # tl ls) = c # join_dot ls"
  by (cases ls) auto

lemma split_dot_join: "join_dot (split_dot h) = h"
proof (induction h)
  case (Cons c h)
  then show ?case
    using join_dot_Cons_hd [of "split_dot h" c] by (cases "c = 0x2E") auto
qed simp

lemma split_dot_no_dot: "l \<in> set (split_dot h) \<Longrightarrow> 0x2E \<notin> set l"
proof (induction h arbitrary: l)
  case (Cons c h)
  show ?case
  proof (cases "c = 0x2E")
    case False
    have "hd (split_dot h) \<in> set (split_dot h)" by simp
    then show ?thesis using Cons False by (auto dest: list.set_sel(2) [rotated])
  qed (use Cons in auto)
qed simp

lemma encode_labels_spec:
  assumes "k + 1 \<le> 255"
  shows "if list_all valid_label ls \<and> k + length (wire_name ls Root) \<le> 255
         then fst (encode_labels k ls out) = Ok ()
           \<and> snd (encode_labels k ls out) @ [0] = out @ wire_name ls Root
         else is_err (fst (encode_labels k ls out))"
  using assms
proof (induction k ls out rule: encode_labels.induct)
  case (2 k l ls out)
  show ?case
  proof (cases "valid_label l \<and> k + (1 + length l) + 1 \<le> 255")
    case True
    then have l: "l \<noteq> []" "\<not> 63 < length l" "\<not> 255 < k + (1 + length l) + 1"
      by (simp_all add: valid_label_def)
    show ?thesis using "2.IH" [OF l(1,2) refl l(3)] True l by (auto simp: add.assoc split: if_splits)
  next
    case False
    then show ?thesis
      by (auto simp: valid_label_def Let_def) (use wire_name_length_pos [of ls Root] in linarith)
  qed
qed simp

lemma encode_qname_spec:
  "encode_qname h out = (Ok (), out @ wire_name (split_dot h) Root) \<and> valid_hostname h
   \<or> is_err (fst (encode_qname h out)) \<and> \<not> valid_hostname h"
proof (cases "encode_labels 0 (split_dot h) out")
  case (Pair r out')
  then show ?thesis
    using encode_labels_spec [of 0 "split_dot h" out]
    by (cases "h = []"; cases r) (auto simp: encode_qname_def valid_hostname_def split: if_splits)
qed

text \<open>The 12-byte header of a query with one question.\<close>

definition query_header :: "u16 \<Rightarrow> bytes" where
  "query_header tid = be_bytes16 tid @ [0x01, 0x00, 0x00, 0x01, 0x00, 0x00, 0x00, 0x00, 0x00, 0x00]"

lemma length_query_header [simp]: "length (query_header tid) = 12"
  by (simp add: query_header_def)

lemma build_query_eq:
  "build_query tid h qt = (case encode_qname h (query_header tid) of
     (r, q) \<Rightarrow> obind r (\<lambda>_. Ok (q @ be_bytes16 qt @ be_bytes16 1)))"
  by (simp add: build_query_def query_header_def)

section \<open>Properties\<close>

text \<open>
  \<open>build_query\<close> succeeds exactly on the hostnames RFC 1035 allows (no empty label, labels of
  at most 63 bytes, at most 255 bytes encoded), in every other case it returns an error, and the
  query it returns is the header, the labels of the hostname (whose dot-joined concatenation is
  the hostname), QTYPE and QCLASS. The parser's own \<open>name_field_len\<close> measures the encoded name
  as everything between the header and the last four bytes.
\<close>

theorem build_query_correct:
  "(build_query tid h qt = Ok q \<longleftrightarrow>
      valid_hostname h \<and> q = query_header tid @ wire_name (split_dot h) Root
        @ be_bytes16 qt @ be_bytes16 DNS_QCLASS_IN)
   \<and> (is_err (build_query tid h qt) \<longleftrightarrow> \<not> valid_hostname h)
   \<and> join_dot (split_dot h) = h
   \<and> (build_query tid h qt = Ok q \<longrightarrow> name_field_len q DNS_HEADER_LEN = Ok (length q - 16))"
proof -
  have nf: "name_field_len (query_header tid @ wire_name (split_dot h) Root @ r) 12
      = Ok (length (wire_name (split_dot h) Root))" if "valid_hostname h" for r
    using name_field_len_wire [of "split_dot h" Root "query_header tid" r] that
    by (simp add: valid_hostname_def list_all_iff)
  show ?thesis
    using encode_qname_spec [of h "query_header tid"] nf
    by (auto simp: build_query_eq split_dot_join split: prod.splits)
      (metis is_err.simps outcome.exhaust obind.simps)+
qed

theorem build_query_correct_witness:
  "name_field_len (query_header 7 @ wire_name [[0x61], [0x62, 0x63]] Root @ [0, 1, 0, 1]) 12 = Ok 6
   \<and> build_query 7 [0x61, 0x2E, 0x62, 0x63] DNS_TYPE_A
       = Ok (query_header 7 @ wire_name [[0x61], [0x62, 0x63]] Root @ [0, 1, 0, 1])"
  using build_query_correct [of 7 "[0x61, 0x2E, 0x62, 0x63]" 1
      "query_header 7 @ wire_name [[0x61], [0x62, 0x63]] Root @ [0, 1, 0, 1]"]
  by (simp add: valid_hostname_def valid_label_def be_bytes16_def)

text \<open>
  On a reply whose answer section is a sequence of well-formed records (any label sequence
  ended by a zero byte or a compression pointer, any type, class, TTL and data), the search
  among the announced records returns the data of the first A record when it has four bytes, and
  an error when that record has another length or no announced record has type A.
\<close>

theorem parse_first_a_record_correct:
  assumes "length hdr = DNS_HEADER_LEN" and "be16 (hdr ! 6) (hdr ! 7) = of_nat n" and "0 < n"
    and "n < 65536" and "n \<le> length rs" and "list_all valid_answer rs"
  shows "parse_first_a_record (hdr @ question @ concat (map wire_answer rs) @ post)
           (length question) =
    (case first_rdata DNS_TYPE_A (take n rs) of
       None \<Rightarrow> Err ''no A record found among this reply's own answer records''
     | Some d \<Rightarrow> if length d = 4 then Ok d else Err ''A record's own RDLENGTH is not 4'')"
  by (simp add: parse_first_a_record_def find_first_record_rdata_wire [OF assms] split: option.splits)

theorem parse_first_a_record_correct_witness:
  "parse_first_a_record
     ([0, 1, 0x81, 0x80, 0, 1, 0, 2, 0, 0, 0, 0] @ [1, 0x61, 0, 0, 1, 0, 1]
        @ concat (map wire_answer
            [\<lparr>a_labels = [], a_end = Pointer 0xC0 12, a_type = 5, a_class = 1, a_ttl = 60,
              a_rdata = [1, 0x62, 0]\<rparr>,
             \<lparr>a_labels = [[0x62]], a_end = Root, a_type = 1, a_class = 1, a_ttl = 60,
              a_rdata = [93, 184, 216, 34]\<rparr>]) @ [])
     (length [1, 0x61, 0, 0, 1, 0, 1 :: u8]) = Ok [93, 184, 216, 34]"
proof -
  let ?cname = "\<lparr>a_labels = [], a_end = Pointer 0xC0 12, a_type = 5, a_class = 1, a_ttl = 60,
              a_rdata = [1, 0x62, 0]\<rparr>"
  let ?a = "\<lparr>a_labels = [[0x62]], a_end = Root, a_type = 1, a_class = 1, a_ttl = 60,
              a_rdata = [93, 184, 216, 34]\<rparr>"
  have "list_all valid_answer [?cname, ?a]" by (simp add: valid_answer_def valid_label_def)
  then show ?thesis
    using parse_first_a_record_correct [of "[0, 1, 0x81, 0x80, 0, 1, 0, 2, 0, 0, 0, 0]" 2
        "[?cname, ?a]" "[1, 0x61, 0, 0, 1, 0, 1]" "[]"]
    by (simp add: be16_def first_rdata_def)
qed

text \<open>
  C28: no reply can make the record search panic or run forever: for every byte sequence and
  every question length both parsers return, and an address they return is a run of 4 (or 16)
  bytes of the message itself.
\<close>

theorem dns_parsers_safe:
  "returns (parse_first_a_record m q) \<and> returns (parse_first_aaaa_record m q)
   \<and> (parse_first_a_record m q = Ok ip4 \<longrightarrow> length ip4 = 4 \<and> (\<exists>k. ip4 = sub m k 4 \<and> k + 4 \<le> length m))
   \<and> (parse_first_aaaa_record m q = Ok ip6 \<longrightarrow> length ip6 = 16 \<and> (\<exists>k. ip6 = sub m k 16 \<and> k + 16 \<le> length m))"
proof -
  have "\<exists>k. d = sub m k n \<and> k + n \<le> length m"
    if "find_first_record_rdata m q t = Ok d" "length d = n" for t d n
    using find_first_record_rdata_slice [OF that(1)] that(2) by auto
  then show ?thesis
    by (auto simp: parse_first_a_record_def parse_first_aaaa_record_def returns_obind
        find_first_record_rdata_total split: if_splits)
qed

theorem dns_parsers_safe_witness:
  "length [93, 184, 216, 34 :: u8] = 4 \<and>
   (\<exists>k. [93, 184, 216, 34] = sub ([0, 1, 0x81, 0x80, 0, 1, 0, 1, 0, 0, 0, 0, 0xC0, 12, 0, 1, 0, 1,
     0, 0, 0, 60, 0, 4, 93, 184, 216, 34] :: bytes) k 4)"
proof -
  let ?m = "[0, 1, 0x81, 0x80, 0, 1, 0, 1, 0, 0, 0, 0, 0xC0, 12, 0, 1, 0, 1,
     0, 0, 0, 60, 0, 4, 93, 184, 216, 34] :: bytes"
  have "parse_first_a_record ?m 0 = Ok [93, 184, 216, 34]" by code_simp
  then show ?thesis using dns_parsers_safe [of ?m 0 "[93, 184, 216, 34]"] by blast
qed

end
