(* ===== verification/Net_Sim.thy ===== *)
theory Net_Sim
  imports Udp
begin

text \<open>
  Model of \<^verbatim>\<open>net/virtio_net.rs\<close> (the simulated driver: a record of counters) and of
  \<^verbatim>\<open>net/tcpip.rs\<close> (the UDP broadcast over it). The log lines are not modelled. The frame that
  \<^verbatim>\<open>send_ipv4_packet\<close> assembles in its 132-byte buffer is the definition \<open>ipv4_packet_frame\<close>.
\<close>

section \<open>Definitions\<close>

record virtio_net_driver =
  mac_address :: bytes
  is_initialized :: bool
  rx_packets_count :: u64
  tx_packets_count :: u64

definition virtio_net_new :: virtio_net_driver where
  "virtio_net_new = \<lparr>mac_address = [0x52, 0x54, 0x00, 0x12, 0x34, 0x56], is_initialized = False,
     rx_packets_count = 0, tx_packets_count = 0\<rparr>"

definition virtio_net_init :: "virtio_net_driver \<Rightarrow> virtio_net_driver" where
  "virtio_net_init d = d\<lparr>is_initialized := True\<rparr>"

definition transmit_packet :: "virtio_net_driver \<Rightarrow> bytes \<Rightarrow> bool \<times> virtio_net_driver" where
  "transmit_packet d packet =
     (if \<not> is_initialized d then (False, d)
      else (True, d\<lparr>tx_packets_count := tx_packets_count d + 1\<rparr>))"

definition receive_packet :: "virtio_net_driver \<Rightarrow> nat \<Rightarrow> bool \<times> virtio_net_driver" where
  "receive_packet d len =
     (if \<not> is_initialized d then (False, d)
      else (True, d\<lparr>rx_packets_count := rx_packets_count d + 1\<rparr>))"

definition ipv4_packet_frame :: "bytes \<Rightarrow> bytes \<Rightarrow> bytes \<Rightarrow> bytes" where
  "ipv4_packet_frame mac dest_ip payload0 =
     (let src_ip = [192, 168, 1, 100];
          payload = take 90 payload0;
          eth_header = build_ethernet_header (replicate 6 0xff) mac ETHERTYPE_IPV4;
          udp_header = build_udp_header src_ip dest_ip 49152 9000 payload;
          ip_header = build_ipv4_header 1 64 IP_PROTOCOL_UDP src_ip dest_ip
            (UDP_HEADER_LEN + length payload);
          buffer = replicate 132 0;
          ip_start = ETHERNET_HEADER_LEN;
          udp_start = ip_start + IPV4_HEADER_LEN;
          payload_start = udp_start + UDP_HEADER_LEN;
          payload_end = payload_start + length payload;
          b1 = overwrite buffer 0 eth_header;
          b2 = overwrite b1 ip_start ip_header;
          b3 = overwrite b2 udp_start udp_header;
          b4 = overwrite b3 payload_start payload
      in take payload_end b4)"

definition send_ipv4_packet :: "virtio_net_driver \<Rightarrow> bytes \<Rightarrow> bytes \<Rightarrow> virtio_net_driver" where
  "send_ipv4_packet driver dest_ip payload =
     (let d = (if \<not> is_initialized driver then virtio_net_init driver else driver)
      in snd (transmit_packet d (ipv4_packet_frame (mac_address d) dest_ip payload)))"

section \<open>Lemmas\<close>

lemma length_build_udp_header [simp]: "length (build_udp_header s d sp dp p) = 8"
  by (simp add: build_udp_header_bytes)

lemma length_build_ipv4_header:
  "length s = 4 \<Longrightarrow> length d = 4 \<Longrightarrow> length (build_ipv4_header i t p s d n) = 20"
  by (simp add: build_ipv4_header_eq ipv4_blank_shape)

lemma fill4:
  assumes "length a + length b + length c + length d \<le> n"
  shows "take (length a + length b + length c + length d)
     (overwrite (overwrite (overwrite (overwrite (replicate n z) 0 a) (length a) b)
        (length a + length b) c) (length a + length b + length c) d) = a @ b @ c @ d"
  using assms by (simp add: overwrite_def)

lemma ipv4_packet_frame_eq:
  assumes "length mac = 6" and "length dest_ip = 4"
  shows "ipv4_packet_frame mac dest_ip payload =
     (replicate 6 0xff @ mac @ be_bytes16 ETHERTYPE_IPV4)
     @ build_ipv4_header 1 64 17 [192, 168, 1, 100] dest_ip (8 + length (take 90 payload))
     @ build_udp_header [192, 168, 1, 100] dest_ip 49152 9000 (take 90 payload)
     @ take 90 payload"
proof -
  let ?p = "take 90 payload" and ?src = "[192, 168, 1, 100] :: bytes"
  let ?e = "build_ethernet_header (replicate 6 0xff) mac ETHERTYPE_IPV4"
  let ?i = "build_ipv4_header 1 64 17 ?src dest_ip (8 + length ?p)"
  let ?u = "build_udp_header ?src dest_ip 49152 9000 ?p"
  have len: "length ?e = 14" "length ?i = 20" "length ?u = 8" "length ?p \<le> 90"
    using assms by (simp_all add: build_ethernet_header_eq length_build_ipv4_header)
  have "length ?e + length ?i + length ?u + length ?p \<le> 132"
    unfolding len(1-3) using len(4) by linarith
  from fill4 [OF this, of 0]
  have "ipv4_packet_frame mac dest_ip payload = ?e @ ?i @ ?u @ ?p"
    unfolding ipv4_packet_frame_def Let_def len(1-3) by simp
  then show ?thesis using assms by (simp add: build_ethernet_header_eq)
qed

section \<open>Properties\<close>

text \<open>
  The frame handed to the driver decomposes, whatever the payload, into the broadcast
  Ethernet header, a verifying IPv4 header and a UDP datagram that parses to ports 49152 and 9000
  and carries the first 90 bytes of the payload; sending it leaves the driver initialised and
  counts exactly one transmitted packet.
\<close>

theorem send_ipv4_packet_correct:
  assumes "length (mac_address drv) = 6" and "length dest_ip = 4"
  shows "let f = ipv4_packet_frame (mac_address drv) dest_ip payload;
             drv' = send_ipv4_packet drv dest_ip payload
     in take 14 f = replicate 6 0xff @ mac_address drv @ [0x08, 0x00]
      \<and> checksum_is_valid (sub f 14 20)
      \<and> parse_udp_datagram [192, 168, 1, 100] dest_ip (drop 34 f) =
          Ok \<lparr>udp_source_port = 49152, udp_dest_port = 9000,
              udp_length = of_nat (8 + min 90 (length payload))\<rparr>
      \<and> drop 42 f = take 90 payload
      \<and> drv' = drv\<lparr>is_initialized := True, tx_packets_count := tx_packets_count drv + 1\<rparr>"
proof -
  let ?src = "[192, 168, 1, 100] :: bytes" and ?p = "take 90 payload"
  let ?ip = "build_ipv4_header 1 64 17 ?src dest_ip (8 + length ?p)"
  let ?u = "build_udp_header ?src dest_ip 49152 9000 ?p"
  have ipl: "length ?ip = 20" using assms(2) by (simp add: length_build_ipv4_header)
  have ip: "checksum_is_valid ?ip"
    by (simp add: checksum_is_valid_def build_ipv4_header_checksum assms(2))
  have "parse_udp_datagram ?src dest_ip (?u @ ?p) =
      Ok \<lparr>udp_source_port = 49152, udp_dest_port = 9000, udp_length = of_nat (8 + length ?p)\<rparr>"
    by (rule parse_built_udp) (simp_all add: assms(2))
  then have u: "parse_udp_datagram ?src dest_ip (?u @ ?p) =
      Ok \<lparr>udp_source_port = 49152, udp_dest_port = 9000,
          udp_length = of_nat (8 + min 90 (length payload))\<rparr>"
    by (simp add: min.commute)
  have sub: "sub (ipv4_packet_frame (mac_address drv) dest_ip payload) 14 20 = ?ip"
    using assms ipl by (simp add: ipv4_packet_frame_eq sub_all)
  show ?thesis
    using ip u ipl assms unfolding Let_def sub
    by (simp add: ipv4_packet_frame_eq be_bytes16_def send_ipv4_packet_def
        transmit_packet_def virtio_net_init_def)
qed

theorem send_ipv4_packet_correct_witness:
  "checksum_is_valid (sub (ipv4_packet_frame (mac_address virtio_net_new) [10, 0, 2, 2] [1, 2]) 14 20)
   \<and> tx_packets_count (send_ipv4_packet virtio_net_new [10, 0, 2, 2] [1, 2]) = 1"
  using send_ipv4_packet_correct [of virtio_net_new "[10, 0, 2, 2]" "[1, 2]"]
  by (simp add: virtio_net_new_def Let_def)

end
