(* ===== verification/Machine.thy ===== *)
theory Machine
  imports Prelude
begin

text \<open>
  Raw memory as the unsafe code of the schedulers sees it: a function from 64-bit addresses to
  bytes, with the block operations \<^verbatim>\<open>copy_nonoverlapping\<close> and \<^verbatim>\<open>write_bytes\<close> and 64-bit loads and
  stores in little endian order. Two blocks of \<open>n\<close> bytes are \<open>apart\<close> when they share no byte.
\<close>

type_synonym mem = "u64 \<Rightarrow> u8"

definition copy_mem :: "mem \<Rightarrow> u64 \<Rightarrow> u64 \<Rightarrow> nat \<Rightarrow> mem" where
  "copy_mem m src dst n = (\<lambda>a. if unat (a - dst) < n then m (src + (a - dst)) else m a)"

definition fill_mem :: "mem \<Rightarrow> u64 \<Rightarrow> u8 \<Rightarrow> nat \<Rightarrow> mem" where
  "fill_mem m dst v n = (\<lambda>a. if unat (a - dst) < n then v else m a)"

definition store_mem :: "mem \<Rightarrow> u64 \<Rightarrow> bytes \<Rightarrow> mem" where
  "store_mem m dst bs = (\<lambda>a. if unat (a - dst) < length bs then bs ! unat (a - dst) else m a)"

definition load_mem :: "mem \<Rightarrow> u64 \<Rightarrow> nat \<Rightarrow> bytes" where
  "load_mem m a n = map (\<lambda>k. m (a + of_nat k)) [0..<n]"

definition write_u64 :: "mem \<Rightarrow> u64 \<Rightarrow> u64 \<Rightarrow> mem" where
  "write_u64 m a v = store_mem m a (le_bytes64 v)"

definition read_u64 :: "mem \<Rightarrow> u64 \<Rightarrow> u64" where
  "read_u64 m a = le64 (load_mem m a 8)"

definition apart :: "nat \<Rightarrow> u64 \<Rightarrow> u64 \<Rightarrow> bool" where
  "apart n a b \<longleftrightarrow> n \<le> unat (a - b) \<and> n \<le> unat (b - a)"

lemma apart_sym: "apart n a b \<longleftrightarrow> apart n b a"
  by (auto simp: apart_def)

lemma apart_outside:
  assumes "apart n a b" and "k < n"
  shows "n \<le> unat (a + of_nat k - b)"
proof (rule ccontr)
  assume "\<not> n \<le> unat (a + of_nat k - b)"
  then have q: "unat (a + of_nat k - b) < n" by simp
  have n: "n \<le> 2 ^ 64"
    using assms(1) less_imp_le [OF unat_u64_less [of "a - b"]] by (simp add: apart_def)
  define p where "p = (of_nat k :: u64)"
  define r where "r = a + of_nat k - b"
  have p: "unat p = k" using assms(2) n by (simp add: p_def unat_of_nat)
  show False
  proof (cases "unat p \<le> unat r")
    case True
    have "a - b = r - p" by (simp add: p_def r_def)
    then have "unat (a - b) \<le> unat r" using True by (simp add: unat_sub word_le_nat_alt)
    then show False using assms(1) q by (simp add: apart_def r_def)
  next
    case False
    have "b - a = p - r" by (simp add: p_def r_def)
    then have "unat (b - a) \<le> unat p" using False by (simp add: unat_sub word_le_nat_alt)
    then show False using assms p by (simp add: apart_def)
  qed
qed

lemma apart_inside: "unat (a + of_nat k - b) < n \<Longrightarrow> apart n a b \<Longrightarrow> k < n \<Longrightarrow> False"
  using apart_outside [of n a b k] by simp

lemma length_load_mem [simp]: "length (load_mem m a n) = n"
  by (simp add: load_mem_def)

lemma nth_load_mem [simp]: "k < n \<Longrightarrow> load_mem m a n ! k = m (a + of_nat k)"
  by (simp add: load_mem_def)

lemma offset_unat: "k < n \<Longrightarrow> n \<le> 2 ^ 64 \<Longrightarrow> unat (a + of_nat k - a :: u64) = k"
  by (simp add: unat_of_nat)

lemma load_copy_same: "n \<le> 2 ^ 64 \<Longrightarrow> load_mem (copy_mem m src dst n) dst n = load_mem m src n"
  by (rule nth_equalityI) (simp_all add: copy_mem_def unat_of_nat)

lemma load_copy_apart: "apart n a dst \<Longrightarrow> load_mem (copy_mem m src dst n) a n = load_mem m a n"
  by (rule nth_equalityI) (auto simp: copy_mem_def dest: apart_inside)

lemma load_fill_same: "n \<le> 2 ^ 64 \<Longrightarrow> load_mem (fill_mem m dst v n) dst n = replicate n v"
  by (rule nth_equalityI) (simp_all add: fill_mem_def unat_of_nat)

lemma load_fill_apart: "apart n a dst \<Longrightarrow> load_mem (fill_mem m dst v n) a n = load_mem m a n"
  by (rule nth_equalityI) (auto simp: fill_mem_def dest: apart_inside)

lemma load_store_same: "length bs = n \<Longrightarrow> n \<le> 2 ^ 64 \<Longrightarrow> load_mem (store_mem m dst bs) dst n = bs"
  by (rule nth_equalityI) (simp_all add: store_mem_def unat_of_nat)

lemma load_store_apart: "length bs = n \<Longrightarrow> apart n a dst \<Longrightarrow> load_mem (store_mem m dst bs) a n = load_mem m a n"
  by (rule nth_equalityI) (auto simp: store_mem_def dest: apart_inside)

lemma read_write_same [simp]: "read_u64 (write_u64 m a v) a = v"
  by (simp add: read_u64_def write_u64_def load_store_same)

lemma read_write_apart: "apart 8 a b \<Longrightarrow> read_u64 (write_u64 m b v) a = read_u64 m a"
  by (simp add: read_u64_def write_u64_def load_store_apart)

end
