(* ===== verification/Tier_Select.thy ===== *)
theory Tier_Select
  imports Prelude
begin

text \<open>
  Model of \<^verbatim>\<open>scheduler/tier_select.rs\<close>: the selection of the next task shared by the ring-3
  schedulers (the best priority among the tasks that are not done, then round robin inside that
  tier), and the arming of the task slots. The \<^verbatim>\<open>while\<close> loop of \<^verbatim>\<open>select_next\<close> visits the slots
  cyclically, so after \<^verbatim>\<open>active_tasks\<close> rounds without a hit it never ends: the fuel of
  \<open>tier_search\<close> is \<^verbatim>\<open>active_tasks\<close>, running out of it is \<open>Diverge\<close>, and \<open>tier_search_more_fuel\<close>
  shows that no larger fuel would change the outcome. The locale \<open>tier_policy\<close> is the contract of
  a selection function; the fairness of the schedulers is proved in it once.
\<close>

section \<open>Definitions\<close>

fun top_scan :: "nat list \<Rightarrow> u8 list \<Rightarrow> bool list \<Rightarrow> u8 \<Rightarrow> u8 outcome" where
  "top_scan [] prios finished best = Ok best"
| "top_scan (i # ids) prios finished best =
     obind (idx finished i) (\<lambda>d.
       if d then top_scan ids prios finished best
       else obind (idx prios i) (\<lambda>p. top_scan ids prios finished (if p < best then p else best)))"

fun tier_search :: "nat \<Rightarrow> nat \<Rightarrow> u8 list \<Rightarrow> bool list \<Rightarrow> u8 \<Rightarrow> nat \<Rightarrow> nat outcome" where
  "tier_search 0 active_tasks prios finished best nxt = Diverge"
| "tier_search (Suc fuel) active_tasks prios finished best nxt =
     obind (idx finished nxt) (\<lambda>d. obind (idx prios nxt) (\<lambda>p.
       if d \<or> p \<noteq> best
       then tier_search fuel active_tasks prios finished best ((nxt + 1) mod active_tasks)
       else Ok nxt))"

definition select_next :: "nat \<Rightarrow> nat \<Rightarrow> u8 list \<Rightarrow> bool list \<Rightarrow> nat outcome" where
  "select_next active_tasks current prios finished =
     obind (top_scan [0..<active_tasks] prios finished (- 1)) (\<lambda>best.
       if active_tasks = 0 then Panic
       else tier_search active_tasks active_tasks prios finished best ((current + 1) mod active_tasks))"

text \<open>The writes of the slots, priorities and flags; the assertion is the panic.\<close>

definition arm_task_slots ::
  "u64 list \<Rightarrow> u8 list \<Rightarrow> bool list \<Rightarrow> (u64 \<times> u8) list \<Rightarrow> (u64 list \<times> u8 list \<times> bool list) outcome" where
  "arm_task_slots slots priorities finished tasks =
     (if length slots < length tasks then Panic
      else Ok (overwrite slots 0 (map fst tasks), overwrite priorities 0 (map snd tasks),
               replicate (length finished) False))"

section \<open>The contract of a selection function\<close>

text \<open>Slot \<open>i\<close> may run next: it is not done and no slot that is not done has a better priority.\<close>

definition top_tier :: "nat \<Rightarrow> u8 list \<Rightarrow> bool list \<Rightarrow> nat \<Rightarrow> bool" where
  "top_tier n prios finished i \<longleftrightarrow> i < n \<and> \<not> finished ! i
     \<and> (\<forall>j<n. \<not> finished ! j \<longrightarrow> prios ! i \<le> prios ! j)"

text \<open>The distance from the slot after \<open>cur\<close> to slot \<open>j\<close>, going upwards cyclically.\<close>

definition gap :: "nat \<Rightarrow> nat \<Rightarrow> nat \<Rightarrow> nat" where
  "gap n cur j = (n + j - (cur + 1) mod n) mod n"

lemma gap_less: "0 < n \<Longrightarrow> gap n cur j < n"
  by (simp add: gap_def)

lemma gap_reaches: "0 < n \<Longrightarrow> j < n \<Longrightarrow> (cur + 1 + gap n cur j) mod n = j"
proof -
  assume n: "0 < n" and j: "j < n"
  let ?c = "(cur + 1) mod n"
  have c: "?c < n" using n by simp
  have "(cur + 1 + gap n cur j) mod n = (?c + (n + j - ?c)) mod n"
    by (simp only: gap_def mod_add_left_eq mod_add_right_eq)
  also have "\<dots> = (n + j) mod n" using c by simp
  finally show ?thesis using j by simp
qed

lemma gap_unique:
  assumes "0 < (n :: nat)" and "d < n" and "e < n" and "(c + d) mod n = (c + e) mod n"
  shows "d = e"
proof -
  have "d mod n = e mod n"
    using assms(4) by (rule mod_add_cancel)
  then show ?thesis using assms by simp
qed

lemma gap_step:
  assumes "0 < n" and "j < n" and "d < gap n cur j"
  shows "gap n ((cur + 1 + d) mod n) j = gap n cur j - d - 1"
proof -
  let ?c = "(cur + 1 + d) mod n"
  have lt: "gap n cur j < n" using assms(1) by (rule gap_less)
  have "(?c + 1 + (gap n cur j - d - 1)) mod n = (cur + 1 + d + 1 + (gap n cur j - d - 1)) mod n"
    by (simp only: add.assoc mod_add_left_eq)
  also have "cur + 1 + d + 1 + (gap n cur j - d - 1) = cur + 1 + gap n cur j"
    using assms(3) by simp
  also have "(cur + 1 + gap n cur j) mod n = (?c + 1 + gap n ?c j) mod n"
    using gap_reaches [OF assms(1,2)] by simp
  finally show ?thesis
    using gap_unique [OF assms(1), of "gap n cur j - d - 1" "gap n ?c j" "?c + 1"] lt
      gap_less [OF assms(1), of ?c j] by simp
qed

text \<open>The slots a selection function gives the processor to, one after the other.\<close>

fun turns :: "(nat \<Rightarrow> nat outcome) \<Rightarrow> nat \<Rightarrow> nat \<Rightarrow> nat list" where
  "turns pick 0 cur = []"
| "turns pick (Suc k) cur = (case pick cur of Ok i \<Rightarrow> i # turns pick k i | _ \<Rightarrow> [])"

locale tier_policy =
  fixes pick :: "nat \<Rightarrow> nat \<Rightarrow> u8 list \<Rightarrow> bool list \<Rightarrow> nat outcome"
    and valid :: "nat \<Rightarrow> u8 list \<Rightarrow> bool list \<Rightarrow> bool"
  assumes pick_next: "valid n prios finished \<Longrightarrow> i < n \<Longrightarrow> \<not> finished ! i \<Longrightarrow> cur < n \<Longrightarrow>
     \<exists>d<n. pick n cur prios finished = Ok ((cur + 1 + d) mod n)
       \<and> top_tier n prios finished ((cur + 1 + d) mod n)
       \<and> (\<forall>e<d. \<not> top_tier n prios finished ((cur + 1 + e) mod n))"
begin

lemma pick_top_tier:
  assumes "valid n prios finished" and "i < n" and "\<not> finished ! i" and "cur < n"
  shows "\<exists>j. pick n cur prios finished = Ok j \<and> top_tier n prios finished j"
  using pick_next [OF assms] by blast

lemma pick_progress:
  assumes "valid n prios finished" and "cur < n" and top: "top_tier n prios finished j"
    and "pick n cur prios finished = Ok k" and "k \<noteq> j"
  shows "k < n \<and> gap n k j < gap n cur j"
proof -
  have j: "j < n" "\<not> finished ! j" using top by (auto simp: top_tier_def)
  then have n: "0 < n" by simp
  obtain d where d: "d < n" "k = (cur + 1 + d) mod n"
    "\<forall>e<d. \<not> top_tier n prios finished ((cur + 1 + e) mod n)"
    using pick_next [OF assms(1) j assms(2)] assms(4) by auto
  have hit: "(cur + 1 + gap n cur j) mod n = j" by (rule gap_reaches [OF n j(1)])
  then have "d \<le> gap n cur j" using d(3) top by (metis not_le)
  moreover have "d \<noteq> gap n cur j" using hit d(2) assms(5) by auto
  ultimately have lt: "d < gap n cur j" by simp
  show ?thesis using gap_step [OF n j(1) lt] d(2) lt n by simp
qed

text \<open>Bounded waiting: a slot of the top tier gets its turn within \<open>n\<close> selections.\<close>

lemma bounded_waiting:
  assumes valid: "valid n prios finished" and "top_tier n prios finished j" and "cur < n"
  shows "j \<in> set (turns (\<lambda>c. pick n c prios finished) n cur)"
proof -
  have j: "j < n" "\<not> finished ! j" using assms(2) by (auto simp: top_tier_def)
  have "j \<in> set (turns (\<lambda>c. pick n c prios finished) (Suc m) cur)" if "gap n cur j \<le> m" "cur < n" for m cur
    using that
  proof (induction m arbitrary: cur)
    case 0
    obtain k where k: "pick n cur prios finished = Ok k" using pick_top_tier [OF valid j 0(2)] by auto
    have "k = j" using pick_progress [OF valid 0(2) assms(2) k] 0(1) by auto
    then show ?case using k by simp
  next
    case (Suc m)
    obtain k where k: "pick n cur prios finished = Ok k" using pick_top_tier [OF valid j Suc(3)] by auto
    show ?case
    proof (cases "k = j")
      case False
      then have "k < n" "gap n k j < gap n cur j"
        using pick_progress [OF valid Suc.prems(2) assms(2) k] by auto
      then show ?thesis using Suc.IH [of k] Suc.prems k by simp
    qed (use k in simp)
  qed
  from this [of cur "n - 1"] gap_less [of n cur j] assms(3) show ?thesis by (cases n) simp_all
qed

text \<open>Every selection goes to the top tier: a worse priority never runs while a better one can.\<close>

lemma turns_top_tier:
  assumes "valid n prios finished" and "i < n" and "\<not> finished ! i" and "cur < n"
    and "k \<in> set (turns (\<lambda>c. pick n c prios finished) m cur)"
  shows "top_tier n prios finished k"
  using assms(4,5)
proof (induction m arbitrary: cur)
  case (Suc m)
  obtain l where "pick n cur prios finished = Ok l" "top_tier n prios finished l"
    using pick_top_tier [OF assms(1-3) Suc.prems(1)] by auto
  then show ?case using Suc.IH [of l] Suc.prems(2) by (auto simp: top_tier_def)
qed simp

end

section \<open>The selection function implements the contract\<close>

definition live_min :: "nat list \<Rightarrow> u8 list \<Rightarrow> bool list \<Rightarrow> u8 \<Rightarrow> u8" where
  "live_min ids prios finished m = fold (\<lambda>i m. if \<not> finished ! i \<and> prios ! i < m then prios ! i else m) ids m"

lemma top_scan_ok:
  "\<forall>i \<in> set ids. i < length finished \<and> i < length prios \<Longrightarrow>
   top_scan ids prios finished m = Ok (live_min ids prios finished m)"
  by (induction ids arbitrary: m) (auto simp: live_min_def)

lemma live_min_Cons:
  "live_min (k # ids) prios finished m =
     live_min ids prios finished (if \<not> finished ! k \<and> prios ! k < m then prios ! k else m)"
  by (simp add: live_min_def)

lemma live_min_le: "live_min ids prios finished m \<le> m"
proof (induction ids arbitrary: m)
  case (Cons k ids)
  show ?case
    unfolding live_min_Cons by (rule order_trans [OF Cons.IH]) auto
qed (simp add: live_min_def)

lemma live_min_lower: "i \<in> set ids \<Longrightarrow> \<not> finished ! i \<Longrightarrow> live_min ids prios finished m \<le> prios ! i"
proof (induction ids arbitrary: m)
  case (Cons k ids)
  then show ?case
    using live_min_le [of ids prios finished] unfolding live_min_Cons
    by (cases "i = k") (auto intro: order_trans [OF live_min_le])
qed simp

lemma live_min_cases:
  "live_min ids prios finished m = m \<or> (\<exists>i \<in> set ids. \<not> finished ! i \<and> live_min ids prios finished m = prios ! i)"
proof (induction ids arbitrary: m)
  case (Cons k ids)
  then show ?case unfolding live_min_Cons by (auto split: if_splits)
qed (simp add: live_min_def)

lemma live_min_top:
  assumes "i < n" and "\<not> finished ! i"
  shows "top_tier n prios finished j \<longleftrightarrow>
    j < n \<and> \<not> finished ! j \<and> prios ! j = live_min [0..<n] prios finished (- 1)"
proof -
  let ?m = "live_min [0..<n] prios finished (- 1)"
  have low: "?m \<le> prios ! k" if "k < n" "\<not> finished ! k" for k
    using that live_min_lower [of k "[0..<n]"] by simp
  have "\<exists>k<n. \<not> finished ! k \<and> ?m = prios ! k"
  proof (cases "?m = - 1")
    case True
    then have "prios ! i = - 1" using low [OF assms] by (simp add: word_order.extremum_unique)
    then show ?thesis using True assms by auto
  qed (use live_min_cases [of "[0..<n]" prios finished "- 1"] in auto)
  then show ?thesis
    using low by (auto simp: top_tier_def intro: antisym)
qed

lemma tier_search_hit:
  assumes "n \<le> length prios" and "n \<le> length finished" and "0 < n" and "d < fuel"
    and "\<not> finished ! ((c + d) mod n)" and "prios ! ((c + d) mod n) = m"
    and "\<forall>e<d. finished ! ((c + e) mod n) \<or> prios ! ((c + e) mod n) \<noteq> m"
  shows "tier_search fuel n prios finished m (c mod n) = Ok ((c + d) mod n)"
  using assms(4-)
proof (induction d arbitrary: c fuel)
  case 0
  then obtain f where "fuel = Suc f" by (cases fuel) auto
  moreover have "c mod n < n" using assms(3) by simp
  ultimately show ?case using 0 assms(1,2) by simp
next
  case (Suc d)
  then obtain f where f: "fuel = Suc f" by (cases fuel) auto
  have lt: "c mod n < n" using assms(3) by simp
  have "finished ! (c mod n) \<or> prios ! (c mod n) \<noteq> m" using Suc.prems(4) by force
  then have "tier_search fuel n prios finished m (c mod n) = tier_search f n prios finished m (Suc c mod n)"
    using lt assms(1,2) f by (simp add: mod_Suc_eq)
  also have "\<dots> = Ok ((Suc c + d) mod n)"
    by (rule Suc.IH) (use Suc.prems f in \<open>auto dest: spec [of _ "Suc _"]\<close>)
  finally show ?case by simp
qed

lemma tier_search_miss:
  assumes "n \<le> length prios" and "n \<le> length finished" and "0 < n"
    and "\<forall>j<n. finished ! j \<or> prios ! j \<noteq> m"
  shows "tier_search fuel n prios finished m (c mod n) = Diverge"
proof (induction fuel arbitrary: c)
  case (Suc fuel)
  have "c mod n < n" using assms(3) by simp
  then have "c mod n < length finished" "c mod n < length prios"
    "finished ! (c mod n) \<or> prios ! (c mod n) \<noteq> m"
    using assms(1,2,4) less_le_trans by blast+
  then show ?case using Suc.IH [of "Suc c"] by (simp add: mod_Suc_eq)
qed simp

text \<open>The fuel \<open>n\<close> is enough: one round over the slots finds a hit if there is one.\<close>

lemma tier_search_more_fuel:
  assumes "n \<le> length prios" and "n \<le> length finished" and "0 < n"
  shows "tier_search (n + k) n prios finished m (c mod n) = tier_search n n prios finished m (c mod n)"
proof -
  define hit where "hit d \<longleftrightarrow> \<not> finished ! ((c + d) mod n) \<and> prios ! ((c + d) mod n) = m" for d
  show ?thesis
  proof (cases "\<exists>d<n. hit d")
    case True
    then obtain d where "d < n" "hit d" "\<forall>e<d. \<not> hit e"
      using ex_least_nat_le [of hit] by (metis order_le_less_trans)
    then show ?thesis
      using tier_search_hit [OF assms, of d "n + k" c m]
        tier_search_hit [OF assms, of d n c m] by (auto simp: hit_def)
  next
    case False
    have "finished ! j \<or> prios ! j \<noteq> m" if "j < n" for j
    proof (cases c)
      case 0
      then show ?thesis using False that by (force simp: hit_def)
    next
      case (Suc c')
      then show ?thesis
        using False gap_reaches [OF assms(3) that, of c'] gap_less [OF assms(3), of c' j]
        by (force simp: hit_def)
    qed
    then show ?thesis using tier_search_miss [OF assms] by simp
  qed
qed

lemma select_next_unfold:
  assumes "n \<le> length prios" and "n \<le> length finished" and "0 < n"
  shows "select_next n cur prios finished =
    tier_search n n prios finished (live_min [0..<n] prios finished (- 1)) ((cur + 1) mod n)"
  using assms top_scan_ok [of "[0..<n]" finished prios "- 1"] by (simp add: select_next_def)

interpretation ts: tier_policy select_next
  "\<lambda>n prios finished. n \<le> length prios \<and> n \<le> length finished"
proof
  fix n i cur :: nat and prios :: "u8 list" and finished :: "bool list"
  assume valid: "n \<le> length prios \<and> n \<le> length finished" and i: "i < n" "\<not> finished ! i"
  let ?m = "live_min [0..<n] prios finished (- 1)" and ?top = "top_tier n prios finished"
  have n: "0 < n" using i by simp
  have m: "?top ((cur + 1 + d) mod n) \<longleftrightarrow>
      \<not> finished ! ((cur + 1 + d) mod n) \<and> prios ! ((cur + 1 + d) mod n) = ?m" for d
    using live_min_top [OF i] n by simp
  obtain j where j: "?top j"
  proof -
    from live_min_cases [of "[0..<n]" prios finished "- 1"] live_min_lower [of i "[0..<n]" finished prios "- 1"] i
    have "\<exists>j<n. \<not> finished ! j \<and> prios ! j = ?m" by (auto simp: word_order.extremum_unique)
    then show ?thesis using that live_min_top [OF i] by auto
  qed
  then have jn: "j < n" by (simp add: top_tier_def)
  have "?top ((cur + 1 + gap n cur j) mod n)" using gap_reaches [OF n jn] j by simp
  with gap_less [OF n, of cur j]
  obtain d where d: "d < n" "?top ((cur + 1 + d) mod n)" "\<forall>e<d. \<not> ?top ((cur + 1 + e) mod n)"
    using ex_least_nat_le [of "\<lambda>d. ?top ((cur + 1 + d) mod n)"] by (metis order_le_less_trans)
  have "select_next n cur prios finished = Ok ((cur + 1 + d) mod n)"
    using valid n d m unfolding select_next_unfold [OF conjunct1 [OF valid] conjunct2 [OF valid] n]
    by (intro tier_search_hit) auto
  then show "\<exists>d<n. select_next n cur prios finished = Ok ((cur + 1 + d) mod n)
       \<and> ?top ((cur + 1 + d) mod n) \<and> (\<forall>e<d. \<not> ?top ((cur + 1 + e) mod n))"
    using d by blast
qed

section \<open>Properties\<close>

text \<open>
  With at least one slot that is not done among the active ones, \<open>select_next\<close> returns the
  first slot after the current one, going round cyclically, that is not done and has the best
  priority of all slots that are not done.
\<close>

theorem select_next_correct:
  assumes "n \<le> length prios" and "n \<le> length finished" and "cur < n"
    and "i < n" and "\<not> finished ! i"
  shows "\<exists>d<n. select_next n cur prios finished = Ok ((cur + 1 + d) mod n)
       \<and> top_tier n prios finished ((cur + 1 + d) mod n)
       \<and> (\<forall>e<d. \<not> top_tier n prios finished ((cur + 1 + e) mod n))"
  using assms by (intro ts.pick_next) auto

theorem select_next_correct_witness:
  "\<exists>d<3. select_next 3 0 [1, 2, 1, 0] [False, False, False, False] = Ok ((0 + 1 + d) mod 3)
       \<and> top_tier 3 [1, 2, 1, 0] [False, False, False, False] ((0 + 1 + d) mod 3)
       \<and> (\<forall>e<d. \<not> top_tier 3 [1, 2, 1, 0] [False, False, False, False] ((0 + 1 + e) mod 3))"
  by (rule select_next_correct [of _ _ _ _ 0]) simp_all

text \<open>
  C18: no starvation inside the top tier. Whatever slot runs now, every slot of the best priority
  that is not done is selected within the next \<open>n\<close> selections, \<open>n\<close> being the number of active
  slots, and all these selections go to that tier.
\<close>

theorem select_next_bounded_waiting:
  assumes "n \<le> length prios" and "n \<le> length finished" and "cur < n"
    and "top_tier n prios finished j"
  shows "j \<in> set (turns (\<lambda>c. select_next n c prios finished) n cur)
     \<and> list_all (top_tier n prios finished) (turns (\<lambda>c. select_next n c prios finished) k cur)"
proof -
  have j: "j < n" "\<not> finished ! j" using assms(4) by (auto simp: top_tier_def)
  show ?thesis
    using ts.bounded_waiting [OF _ assms(4,3)] ts.turns_top_tier [OF _ j assms(3)] assms(1,2)
    by (auto simp: list_all_iff)
qed

theorem select_next_bounded_waiting_witness:
  "2 \<in> set (turns (\<lambda>c. select_next 3 c [1, 2, 1, 0] [False, False, False, False]) 3 0)"
  using select_next_bounded_waiting [of 3 "[1, 2, 1, 0]" "[False, False, False, False]" 0 2 3]
  by (simp add: top_tier_def less_Suc_eq numeral_eq_Suc)

text \<open>
  The two ways in which \<open>select_next\<close> does not return: with no active slot it panics (the
  remainder by zero), and with every active slot done it loops forever, as its documentation
  warns.
\<close>

theorem select_next_failures:
  assumes "n \<le> length prios" and "n \<le> length finished"
  shows "select_next 0 cur prios finished = Panic
     \<and> (0 < n \<longrightarrow> (\<forall>j<n. finished ! j) \<longrightarrow> select_next n cur prios finished = Diverge)"
  using assms tier_search_miss [OF assms] by (auto simp: select_next_unfold) (simp add: select_next_def)

theorem select_next_failures_witness:
  "select_next 2 1 [0, 0, 0, 0] [True, True, False, False] = Diverge"
  using select_next_failures [of 2 "[0, 0, 0, 0]" "[True, True, False, False]" 1]
  by (simp add: less_Suc_eq numeral_eq_Suc)

end
