(* ===== verification/Agent_Scheduler.thy ===== *)
theory Agent_Scheduler
  imports Prelude "HOL-Library.Multiset"
begin

text \<open>
  Model of \<^verbatim>\<open>scheduler/process.rs\<close> (the process control block) and of
  \<^verbatim>\<open>scheduler/agent_scheduler.rs\<close> (the 32-slot process table behind \<^verbatim>\<open>ps\<close>). Every operation that
  finds a process by pid is an instance of \<open>update_first\<close>, the source's
  \<^verbatim>\<open>for slot in processes.iter_mut().flatten()\<close> with an early return.
\<close>

section \<open>Definitions\<close>

datatype process_state = Ready | Running | Blocked | Terminated

datatype priority = KernelCritical | High | Normal | Background

text \<open>\<^verbatim>\<open>priority as u8\<close>.\<close>

primrec priority_u8 :: "priority \<Rightarrow> u8" where
  "priority_u8 KernelCritical = 0"
| "priority_u8 High = 1"
| "priority_u8 Normal = 2"
| "priority_u8 Background = 3"

record process_control_block =
  pid :: u32
  pname :: string
  pstate :: process_state
  prio :: priority
  token_quota :: u64
  tokens_used :: u64
  kv_block_id :: "u32 option"
  stack_pointer :: u64

definition pcb_new :: "u32 \<Rightarrow> string \<Rightarrow> priority \<Rightarrow> u64 \<Rightarrow> process_control_block" where
  "pcb_new i n p q = \<lparr>pid = i, pname = n, pstate = Ready, prio = p, token_quota = q,
     tokens_used = 0, kv_block_id = None, stack_pointer = 0\<rparr>"

abbreviation (input) MAX_PROCESSES :: nat where "MAX_PROCESSES \<equiv> 32"

record native_agent_scheduler =
  processes :: "process_control_block option list"
  current_pid :: u32
  next_pid :: u32

definition sched_new :: native_agent_scheduler where
  "sched_new = \<lparr>processes = replicate MAX_PROCESSES None, current_pid = 0, next_pid = 1\<rparr>"

definition spawn ::
  "native_agent_scheduler \<Rightarrow> string \<Rightarrow> priority \<Rightarrow> u64 \<Rightarrow> u32 option \<times> native_agent_scheduler" where
  "spawn s n p q =
     (case position Option.is_none (processes s) of
        None \<Rightarrow> (None, s)
      | Some i \<Rightarrow> let new_pid = next_pid s in
          (Some new_pid,
           s\<lparr>next_pid := next_pid s + 1,
             processes := (processes s)[i := Some (pcb_new new_pid n p q)]\<rparr>))"

text \<open>The scan of \<^verbatim>\<open>schedule_next\<close>: strictly better priorities replace the candidate.\<close>

fun best_scan :: "nat \<Rightarrow> process_control_block option list \<Rightarrow> nat option \<Rightarrow> u8 \<Rightarrow> nat option" where
  "best_scan i [] best highest = best"
| "best_scan i (None # ps) best highest = best_scan (i + 1) ps best highest"
| "best_scan i (Some p # ps) best highest =
     (if pstate p = Ready \<and> priority_u8 (prio p) < highest
      then best_scan (i + 1) ps (Some i) (priority_u8 (prio p))
      else best_scan (i + 1) ps best highest)"

definition schedule_next :: "native_agent_scheduler \<Rightarrow> u32 option \<times> native_agent_scheduler" where
  "schedule_next s =
     (case best_scan 0 (processes s) None 99 of
        None \<Rightarrow> (None, s)
      | Some i \<Rightarrow>
          (case processes s ! i of
             None \<Rightarrow> (None, s)
           | Some p \<Rightarrow>
               (Some (pid p),
                s\<lparr>processes := (processes s)[i := Some (p\<lparr>pstate := Running\<rparr>)],
                  current_pid := pid p\<rparr>)))"

definition get_active_count :: "native_agent_scheduler \<Rightarrow> nat" where
  "get_active_count s = length (filter (\<lambda>p. p \<noteq> None) (processes s))"

definition get_current_pid :: "native_agent_scheduler \<Rightarrow> u32" where
  "get_current_pid s = current_pid s"

text \<open>\<^verbatim>\<open>for_each_process\<close>: the control blocks the closure is called with, in order.\<close>

definition for_each_process :: "native_agent_scheduler \<Rightarrow> process_control_block list" where
  "for_each_process s = flatten (processes s)"

fun update_first ::
  "(process_control_block \<Rightarrow> bool) \<Rightarrow> (process_control_block \<Rightarrow> process_control_block) \<Rightarrow>
   process_control_block option list \<Rightarrow> process_control_block option list" where
  "update_first P f [] = []"
| "update_first P f (None # ps) = None # update_first P f ps"
| "update_first P f (Some p # ps) = (if P p then Some (f p) # ps else Some p # update_first P f ps)"

definition update_process ::
  "native_agent_scheduler \<Rightarrow> u32 \<Rightarrow> process_state \<Rightarrow> u64 \<Rightarrow> native_agent_scheduler" where
  "update_process s i st sp =
     s\<lparr>processes := update_first (\<lambda>p. pid p = i)
        (\<lambda>p. p\<lparr>pstate := st, stack_pointer := sp\<rparr>) (processes s)\<rparr>"

definition set_kv_block_id :: "native_agent_scheduler \<Rightarrow> u32 \<Rightarrow> u32 \<Rightarrow> native_agent_scheduler" where
  "set_kv_block_id s i b =
     s\<lparr>processes := update_first (\<lambda>p. pid p = i) (\<lambda>p. p\<lparr>kv_block_id := Some b\<rparr>) (processes s)\<rparr>"

definition clear_kv_block_id_if_matches ::
  "native_agent_scheduler \<Rightarrow> u32 \<Rightarrow> u32 \<Rightarrow> native_agent_scheduler" where
  "clear_kv_block_id_if_matches s i b =
     s\<lparr>processes := update_first (\<lambda>p. pid p = i \<and> kv_block_id p = Some b)
        (\<lambda>p. p\<lparr>kv_block_id := None\<rparr>) (processes s)\<rparr>"

text \<open>\<^verbatim>\<open>usize::saturating_add\<close>.\<close>

definition saturating_add_u64 :: "u64 \<Rightarrow> u64 \<Rightarrow> u64" where
  "saturating_add_u64 a b = (if unat a + unat b < 2 ^ 64 then a + b else - 1)"

definition add_tokens_used :: "native_agent_scheduler \<Rightarrow> u32 \<Rightarrow> u64 \<Rightarrow> native_agent_scheduler" where
  "add_tokens_used s i amount =
     s\<lparr>processes := update_first (\<lambda>p. pid p = i)
        (\<lambda>p. p\<lparr>tokens_used := saturating_add_u64 (tokens_used p) amount\<rparr>) (processes s)\<rparr>"

section \<open>The order of priorities\<close>

instantiation priority :: linorder
begin

definition less_eq_priority :: "priority \<Rightarrow> priority \<Rightarrow> bool" where
  "less_eq_priority p q \<longleftrightarrow> priority_u8 p \<le> priority_u8 q"

definition less_priority :: "priority \<Rightarrow> priority \<Rightarrow> bool" where
  "less_priority p q \<longleftrightarrow> priority_u8 p < priority_u8 q"

instance
proof
  fix x y :: priority
  show "x \<le> y \<Longrightarrow> y \<le> x \<Longrightarrow> x = y"
    by (cases x; cases y) (simp_all add: less_eq_priority_def word_le_nat_alt)
qed (auto simp: less_eq_priority_def less_priority_def)

end

section \<open>Choosing the next process\<close>

text \<open>A slot is ready when it holds a process in state \<open>Ready\<close>.\<close>

definition ready_slot :: "process_control_block option list \<Rightarrow> nat \<Rightarrow> bool" where
  "ready_slot ps i \<longleftrightarrow> i < length ps \<and> (\<exists>p. ps ! i = Some p \<and> pstate p = Ready)"

definition slot_prio :: "process_control_block option list \<Rightarrow> nat \<Rightarrow> priority" where
  "slot_prio ps i = prio (the (ps ! i))"

definition ready_slots :: "process_control_block option list \<Rightarrow> nat list" where
  "ready_slots ps = filter (ready_slot ps) [0..<length ps]"

text \<open>Slot \<open>i\<close> is the best: ready, with no ready slot of smaller priority value, first among equals.\<close>

definition best_slot :: "process_control_block option list \<Rightarrow> nat \<Rightarrow> bool" where
  "best_slot ps i \<longleftrightarrow> ready_slot ps i
     \<and> (\<forall>j. ready_slot ps j \<longrightarrow> slot_prio ps i \<le> slot_prio ps j
          \<and> (slot_prio ps j = slot_prio ps i \<longrightarrow> i \<le> j))"

lemma priority_u8_bound: "priority_u8 p < 99"
  by (cases p) simp_all

text \<open>The loop invariant of the scan after the slots \<open>pre\<close>.\<close>

definition scan_inv :: "process_control_block option list \<Rightarrow> nat option \<Rightarrow> u8 \<Rightarrow> bool" where
  "scan_inv pre best h \<longleftrightarrow> (case best of
     None \<Rightarrow> h = 99 \<and> (\<forall>j. \<not> ready_slot pre j)
   | Some b \<Rightarrow> best_slot pre b \<and> h = priority_u8 (slot_prio pre b))"

lemma ready_slot_snoc:
  "ready_slot (pre @ [x]) j \<longleftrightarrow>
     ready_slot pre j \<or> (j = length pre \<and> (\<exists>p. x = Some p \<and> pstate p = Ready))"
  by (auto simp: ready_slot_def nth_append)

lemma slot_prio_snoc:
  "ready_slot pre j \<Longrightarrow> slot_prio (pre @ [x]) j = slot_prio pre j"
  "slot_prio (pre @ [x]) (length pre) = prio (the x)"
  by (auto simp: ready_slot_def slot_prio_def nth_append)

lemma ready_slot_length: "ready_slot ps j \<Longrightarrow> j < length ps"
  by (simp add: ready_slot_def)

lemma scan_inv_skip:
  assumes "scan_inv pre best h" and "\<And>p. x = Some p \<Longrightarrow> pstate p = Ready \<Longrightarrow> h \<le> priority_u8 (prio p)"
  shows "scan_inv (pre @ [x]) best h"
proof (cases best)
  case None
  then have h: "h = 99" and nr: "\<And>j. \<not> ready_slot pre j" using assms(1) by (simp_all add: scan_inv_def)
  have "\<not> (\<exists>p. x = Some p \<and> pstate p = Ready)"
    using assms(2) h priority_u8_bound leD by blast
  then show ?thesis using None h nr by (simp add: scan_inv_def ready_slot_snoc)
next
  case (Some b)
  then have b: "best_slot pre b" "h = priority_u8 (slot_prio pre b)" using assms(1) by (simp_all add: scan_inv_def)
  then have "ready_slot pre b" by (simp add: best_slot_def)
  then have "best_slot (pre @ [x]) b"
    using b assms(2) ready_slot_length [of pre b]
    by (auto simp: best_slot_def ready_slot_snoc slot_prio_snoc less_eq_priority_def)
  then show ?thesis using Some b \<open>ready_slot pre b\<close> by (simp add: scan_inv_def slot_prio_snoc)
qed

lemma scan_inv_take:
  assumes "scan_inv pre best h" and "pstate p = Ready" and "priority_u8 (prio p) < h"
  shows "scan_inv (pre @ [Some p]) (Some (length pre)) (priority_u8 (prio p))"
proof -
  have lt: "priority_u8 (prio p) < priority_u8 (slot_prio pre j)" if "ready_slot pre j" for j
  proof (cases best)
    case None
    then show ?thesis using that assms(1) by (simp add: scan_inv_def)
  next
    case (Some b)
    then show ?thesis
      using that assms(1,3) by (auto simp: scan_inv_def best_slot_def less_eq_priority_def intro: less_le_trans)
  qed
  have "best_slot (pre @ [Some p]) (length pre)"
    unfolding best_slot_def using assms(2) lt
    by (auto simp: ready_slot_snoc slot_prio_snoc less_eq_priority_def intro: less_imp_le)
      (metis less_irrefl)
  then show ?thesis by (simp add: scan_inv_def slot_prio_snoc)
qed

lemma best_scan_inv:
  "scan_inv pre best h \<Longrightarrow> \<exists>h'. scan_inv (pre @ ps) (best_scan (length pre) ps best h) h'"
proof (induction "length pre" ps best h arbitrary: pre rule: best_scan.induct)
  case (1 best h)
  then show ?case by auto
next
  case (2 ps best h)
  then show ?case using scan_inv_skip [OF "2.prems", of None] "2.hyps" [of "pre @ [None]"] by simp
next
  case (3 p ps best h)
  then show ?case
    using scan_inv_skip [OF "3.prems", of "Some p"] scan_inv_take [OF "3.prems", of p]
      "3.hyps"(1) [of "pre @ [Some p]"] "3.hyps"(2) [of "pre @ [Some p]"]
    by (auto simp: not_less)
qed

lemma best_scan_correct:
  "best_scan 0 ps None 99 = Some i \<longleftrightarrow> best_slot ps i"
  "best_scan 0 ps None 99 = None \<longleftrightarrow> (\<forall>j. \<not> ready_slot ps j)"
proof -
  obtain h where h: "scan_inv ps (best_scan 0 ps None 99) h"
    using best_scan_inv [of "[]" None 99 ps] by (auto simp: scan_inv_def ready_slot_def)
  have uniq: "i = j" if "best_slot ps i" "best_slot ps j" for i j
    using that by (auto simp: best_slot_def intro!: antisym)
  show "best_scan 0 ps None 99 = None \<longleftrightarrow> (\<forall>j. \<not> ready_slot ps j)"
    using h by (auto simp: scan_inv_def best_slot_def split: option.splits)
  then show "best_scan 0 ps None 99 = Some i \<longleftrightarrow> best_slot ps i"
    using h uniq by (cases "best_scan 0 ps None 99") (auto simp: scan_inv_def best_slot_def)
qed

lemma schedule_next_best:
  assumes "best_slot (processes s) i"
  shows "\<exists>p. processes s ! i = Some p \<and> pstate p = Ready \<and> i < length (processes s) \<and>
     schedule_next s = (Some (pid p),
       s\<lparr>processes := (processes s)[i := Some (p\<lparr>pstate := Running\<rparr>)], current_pid := pid p\<rparr>)"
proof -
  have "best_scan 0 (processes s) None 99 = Some i" using assms by (simp add: best_scan_correct)
  moreover obtain p where "processes s ! i = Some p" "pstate p = Ready" "i < length (processes s)"
    using assms by (auto simp: best_slot_def ready_slot_def)
  ultimately show ?thesis by (simp add: schedule_next_def)
qed

lemma schedule_next_none:
  "\<forall>j. \<not> ready_slot (processes s) j \<Longrightarrow> schedule_next s = (None, s)"
  using best_scan_correct(2) [of "processes s"] by (simp add: schedule_next_def)

lemma best_slot_exists: "ready_slot ps j \<Longrightarrow> \<exists>i. best_slot ps i"
  using best_scan_correct [of ps] by (metis not_None_eq)

section \<open>Repeated scheduling\<close>

fun drain :: "nat \<Rightarrow> native_agent_scheduler \<Rightarrow> u32 option list \<times> native_agent_scheduler" where
  "drain 0 s = ([], s)"
| "drain (Suc n) s =
     (let (r, s') = schedule_next s; (rs, s'') = drain n s' in (r # rs, s''))"

text \<open>The ready slots in the order in which they ought to run: by priority, then by slot.\<close>

definition run_order :: "process_control_block option list \<Rightarrow> nat list" where
  "run_order ps = sort_key (slot_prio ps) (ready_slots ps)"

lemma ready_slots_mem [simp]: "i \<in> set (ready_slots ps) \<longleftrightarrow> ready_slot ps i"
  by (auto simp: ready_slots_def ready_slot_def)

lemma distinct_ready_slots [simp]: "distinct (ready_slots ps)"
  by (simp add: ready_slots_def)

lemma sorted_ready_slots: "sorted (ready_slots ps)"
  unfolding ready_slots_def by (rule sorted_filter [of id, simplified]) simp

lemma sort_key_level: "sort_key f (filter (\<lambda>y. c = f y) xs) = filter (\<lambda>y. c = f y) xs"
proof (rule sort_key_id_if_sorted)
  have "map f (filter (\<lambda>y. c = f y) xs) = replicate (length (filter (\<lambda>y. c = f y) xs)) c"
    by (induction xs) auto
  then show "sorted (map f (filter (\<lambda>y. c = f y) xs))"
    by (metis sorted_replicate)
qed

lemma sort_key_first_min:
  assumes "x \<in> set xs" and "distinct xs" and "\<forall>y \<in> set xs. f x \<le> f y"
    and "filter (\<lambda>y. f y = f x) xs = x # zs"
  shows "sort_key f xs = x # sort_key f (remove1 x xs)"
proof (rule properties_for_sort_key)
  show "mset (x # sort_key f (remove1 x xs)) = mset xs"
    using assms(1) by simp
  show "sorted (map f (x # sort_key f (remove1 x xs)))"
    using assms(3) notin_set_remove1 by fastforce
  fix k
  assume "k \<in> set (x # sort_key f (remove1 x xs))"
  show "filter (\<lambda>y. f k = f y) (x # sort_key f (remove1 x xs)) = filter (\<lambda>y. f k = f y) xs"
  proof (cases "f k = f x")
    case True
    have "filter (\<lambda>y. f k = f y) xs = x # zs"
      using assms(4) True by (simp add: eq_commute)
    then have "filter (\<lambda>y. f k = f y) (remove1 x xs) = zs"
      using True by (simp add: filter_remove1)
    then show ?thesis
      using True sort_key_level [of f "f k" "remove1 x xs"] \<open>filter (\<lambda>y. f k = f y) xs = x # zs\<close>
      by (simp add: filter_sort)
  next
    case False
    then show ?thesis
      using sort_key_level [of f "f k" "remove1 x xs"] by (simp add: filter_sort filter_remove1)
  qed
qed

lemma run_order_best:
  assumes best: "best_slot ps i"
  shows "run_order ps = i # sort_key (slot_prio ps) (remove1 i (ready_slots ps))"
proof -
  let ?eq = "filter (\<lambda>j. slot_prio ps j = slot_prio ps i) (ready_slots ps)"
  have i: "i \<in> set ?eq" using best by (simp add: best_slot_def)
  have min: "\<forall>j \<in> set ?eq. i \<le> j" using best by (auto simp: best_slot_def)
  have srt: "sorted ?eq" using sorted_ready_slots by (simp add: sorted_filter [of id, simplified])
  obtain z zs where z: "?eq = z # zs" using i by (cases ?eq) auto
  have "z = i" using i min srt unfolding z by (auto intro: antisym)
  then show ?thesis
    unfolding run_order_def using z best
    by (intro sort_key_first_min) (auto simp: best_slot_def)
qed

lemma ready_slots_update:
  assumes "i < length ps" and "ps ! i = Some p"
  shows "ready_slots (ps[i := Some (p\<lparr>pstate := Running\<rparr>)]) = remove1 i (ready_slots ps)"
proof -
  let ?ps = "ps[i := Some (p\<lparr>pstate := Running\<rparr>)]"
  have "ready_slot ?ps j \<longleftrightarrow> ready_slot ps j \<and> j \<noteq> i" for j
    using assms by (auto simp: ready_slot_def nth_list_update)
  then have "ready_slots ?ps = filter (\<lambda>j. j \<noteq> i) (ready_slots ps)"
    unfolding ready_slots_def by (simp add: filter_filter)
      (rule filter_cong [OF refl], auto)
  also have "\<dots> = remove1 i (ready_slots ps)"
    by (simp add: distinct_remove1_removeAll removeAll_filter_not_eq eq_commute)
  finally show ?thesis .
qed

lemma slot_prio_update:
  "i < length ps \<Longrightarrow> ps ! i = Some p \<Longrightarrow> slot_prio (ps[i := Some (p\<lparr>pstate := st\<rparr>)]) = slot_prio ps"
  by (rule ext) (auto simp: slot_prio_def nth_list_update)

definition slot_pid :: "process_control_block option list \<Rightarrow> nat \<Rightarrow> u32" where
  "slot_pid ps i = pid (the (ps ! i))"

lemma slot_pid_update:
  "i < length ps \<Longrightarrow> ps ! i = Some p \<Longrightarrow> slot_pid (ps[i := Some (p\<lparr>pstate := st\<rparr>)]) = slot_pid ps"
  by (rule ext) (auto simp: slot_pid_def nth_list_update)

lemma run_order_empty: "run_order ps = [] \<longleftrightarrow> (\<forall>j. \<not> ready_slot ps j)"
  using ready_slots_mem [of _ ps] by (metis run_order_def set_sort length_0_conv length_sort list.set(1) empty_iff last_in_set)

lemma drain_none: "\<forall>j. \<not> ready_slot (processes s) j \<Longrightarrow> drain n s = (replicate n None, s)"
  by (induction n) (simp_all add: schedule_next_none)

lemma drain_order:
  "fst (drain n s) = take n (map (Some \<circ> slot_pid (processes s)) (run_order (processes s)) @ replicate n None)"
proof (induction n arbitrary: s)
  case (Suc n)
  show ?case
  proof (cases "\<exists>j. ready_slot (processes s) j")
    case False
    then show ?thesis
      using drain_none [of s "Suc n"] run_order_empty [of "processes s"] by simp
  next
    case True
    then obtain i where best: "best_slot (processes s) i" using best_slot_exists by blast
    from schedule_next_best [OF this] obtain p where p: "processes s ! i = Some p"
      "i < length (processes s)" and next_s: "schedule_next s = (Some (pid p),
       s\<lparr>processes := (processes s)[i := Some (p\<lparr>pstate := Running\<rparr>)], current_pid := pid p\<rparr>)"
      by blast
    let ?s = "s\<lparr>processes := (processes s)[i := Some (p\<lparr>pstate := Running\<rparr>)], current_pid := pid p\<rparr>"
    have "run_order (processes s) = i # run_order (processes ?s)"
      using run_order_best [OF best] p
      by (simp add: run_order_def ready_slots_update slot_prio_update)
    moreover have "slot_pid (processes s) i = pid p" by (simp add: slot_pid_def p)
    ultimately show ?thesis
      using Suc.IH [of ?s] p
      by (simp add: next_s split_def slot_pid_update replicate_append_same [symmetric] del: replicate.simps)
  qed
qed simp

section \<open>The process table\<close>

definition table_pids :: "native_agent_scheduler \<Rightarrow> u32 option list" where
  "table_pids s = map (map_option pid) (processes s)"

text \<open>
  Slots are never freed, so the first \<open>n\<close> slots hold the pids 1 to \<open>n\<close> and \<open>next_pid\<close> is \<open>n + 1\<close>.
\<close>

definition table_shape :: "nat \<Rightarrow> u32 option list" where
  "table_shape n = map (\<lambda>i. Some (of_nat i + 1)) [0..<n] @ replicate (MAX_PROCESSES - n) None"

definition sched_inv :: "native_agent_scheduler \<Rightarrow> bool" where
  "sched_inv s \<longleftrightarrow> (\<exists>n\<le>MAX_PROCESSES. table_pids s = table_shape n
     \<and> next_pid s = of_nat n + 1 \<and> unat (current_pid s) \<le> n)"

lemma update_first_pids:
  "(\<And>p. pid (f p) = pid p) \<Longrightarrow> map (map_option pid) (update_first P f ps) = map (map_option pid) ps"
  by (induction P f ps rule: update_first.induct) auto

lemma is_none_pids: "Option.is_none x \<longleftrightarrow> Option.is_none (map_option f x)"
  by (cases x) auto

lemma position_map: "position P (map f xs) = position (P \<circ> f) xs"
  by (induction xs) auto

lemma position_table:
  "position Option.is_none (table_shape n) = (if n < 32 then Some n else None)"
proof (cases "n < 32")
  case True
  then show ?thesis by (auto simp: position_Some_iff table_shape_def nth_append)
next
  case False
  then show ?thesis by (auto simp: position_None_iff table_shape_def)
qed

lemma position_processes:
  assumes "table_pids s = table_shape n"
  shows "position Option.is_none (processes s) = (if n < 32 then Some n else None)"
proof -
  have "Option.is_none = Option.is_none \<circ> map_option pid"
    using is_none_pids by (auto simp: fun_eq_iff)
  then have "position Option.is_none (processes s) = position Option.is_none (table_pids s)"
    unfolding table_pids_def position_map by metis
  then show ?thesis using position_table assms by simp
qed

lemma table_shape_step:
  "n < 32 \<Longrightarrow> (table_shape n)[n := Some (of_nat n + 1)] = table_shape (Suc n)"
  by (rule nth_equalityI) (auto simp: table_shape_def nth_append nth_list_update less_Suc_eq)

lemma sched_inv_new: "sched_inv sched_new"
  unfolding sched_inv_def by (rule exI [of _ 0]) (simp add: sched_new_def table_pids_def table_shape_def)

lemma spawn_effect:
  assumes "table_pids s = table_shape n" and "next_pid s = of_nat n + 1" and "n \<le> 32"
  shows "n < 32 \<Longrightarrow> fst (spawn s nm p q) = Some (of_nat n + 1)
           \<and> table_pids (snd (spawn s nm p q)) = table_shape (Suc n)
           \<and> next_pid (snd (spawn s nm p q)) = of_nat (Suc n) + 1
           \<and> current_pid (snd (spawn s nm p q)) = current_pid s"
    and "n = 32 \<Longrightarrow> spawn s nm p q = (None, s)"
proof -
  show "fst (spawn s nm p q) = Some (of_nat n + 1)
           \<and> table_pids (snd (spawn s nm p q)) = table_shape (Suc n)
           \<and> next_pid (snd (spawn s nm p q)) = of_nat (Suc n) + 1
           \<and> current_pid (snd (spawn s nm p q)) = current_pid s" if "n < 32"
    using position_processes [OF assms(1)] that assms(2) assms(1) [unfolded table_pids_def]
    by (simp add: spawn_def Let_def table_pids_def map_update pcb_new_def table_shape_step [symmetric])
  show "spawn s nm p q = (None, s)" if "n = 32"
    using position_processes [OF assms(1)] that by (simp add: spawn_def)
qed

lemma table_pid_bound:
  assumes "table_pids s = table_shape n" and "n \<le> 32" and "i < length (processes s)"
    and "processes s ! i = Some p"
  shows "pid p = of_nat i + 1 \<and> i < n"
proof -
  have "table_shape n ! i = Some (pid p)"
    using assms(1,3,4) unfolding assms(1) [symmetric] table_pids_def by simp
  moreover have "length (table_pids s) = length (table_shape n)" using assms(1) by simp
  then have "i < 32" using assms(2,3) by (simp add: table_pids_def table_shape_def)
  ultimately show ?thesis by (auto simp: table_shape_def nth_append split: if_splits)
qed

datatype sched_op =
  OpSpawn string priority u64 | OpScheduleNext | OpUpdate u32 process_state u64
| OpSetKv u32 u32 | OpClearKv u32 u32 | OpAddTokens u32 u64

primrec sched_step :: "sched_op \<Rightarrow> native_agent_scheduler \<Rightarrow> native_agent_scheduler" where
  "sched_step (OpSpawn n p q) s = snd (spawn s n p q)"
| "sched_step OpScheduleNext s = snd (schedule_next s)"
| "sched_step (OpUpdate i st sp) s = update_process s i st sp"
| "sched_step (OpSetKv i b) s = set_kv_block_id s i b"
| "sched_step (OpClearKv i b) s = clear_kv_block_id_if_matches s i b"
| "sched_step (OpAddTokens i a) s = add_tokens_used s i a"

inductive sched_reachable :: "native_agent_scheduler \<Rightarrow> bool" where
  boot: "sched_reachable sched_new"
| step: "sched_reachable s \<Longrightarrow> sched_reachable (sched_step op s)"

lemma schedule_next_cases:
  "schedule_next s = (None, s) \<or>
   (\<exists>i p. i < length (processes s) \<and> processes s ! i = Some p \<and> pstate p = Ready \<and>
     schedule_next s = (Some (pid p),
       s\<lparr>processes := (processes s)[i := Some (p\<lparr>pstate := Running\<rparr>)], current_pid := pid p\<rparr>))"
  using schedule_next_none [of s] schedule_next_best [of s] best_slot_exists [of "processes s"] by blast

lemma sched_inv_schedule_next:
  assumes "sched_inv s"
  shows "sched_inv (snd (schedule_next s))"
proof -
  from assms obtain n where n: "n \<le> 32" "table_pids s = table_shape n" "next_pid s = of_nat n + 1"
    "unat (current_pid s) \<le> n" by (auto simp: sched_inv_def)
  from schedule_next_cases [of s] show ?thesis
  proof (elim disjE exE conjE)
    fix i p
    assume i: "i < length (processes s)" "processes s ! i = Some p" and
      eq: "schedule_next s = (Some (pid p),
       s\<lparr>processes := (processes s)[i := Some (p\<lparr>pstate := Running\<rparr>)], current_pid := pid p\<rparr>)"
    have "pid p = of_nat i + 1" "i < n" using table_pid_bound [OF n(2,1) i] by auto
    then have "unat (pid p) \<le> n" using n(1) by (simp add: unat_word_ariths unat_of_nat)
    moreover have "table_pids (snd (schedule_next s)) = table_pids s"
    proof -
      have "(map (map_option pid) (processes s))[i := Some (pid p)] = map (map_option pid) (processes s)"
        using i list_update_id [of "map (map_option pid) (processes s)" i] by simp
      then show ?thesis by (simp add: eq table_pids_def map_update)
    qed
    ultimately show ?thesis using n eq unfolding sched_inv_def by (intro exI [of _ n]) simp
  qed (use assms in simp)
qed

lemma sched_inv_step:
  assumes "sched_inv s"
  shows "sched_inv (sched_step op s)"
proof (cases op)
  case (OpSpawn n p q)
  from assms obtain k where "k \<le> 32" "table_pids s = table_shape k" "next_pid s = of_nat k + 1"
    "unat (current_pid s) \<le> k" by (auto simp: sched_inv_def)
  then show ?thesis
    using spawn_effect [of s k n p q] assms
    by (cases "k = 32") (auto simp: OpSpawn sched_inv_def intro!: exI [of _ "Suc k"])
next
  case OpScheduleNext
  then show ?thesis using sched_inv_schedule_next [OF assms] by simp
qed (use assms in \<open>simp_all add: sched_inv_def table_pids_def update_process_def set_kv_block_id_def
   clear_kv_block_id_if_matches_def add_tokens_used_def update_first_pids\<close>)

lemma reachable_inv: "sched_reachable s \<Longrightarrow> sched_inv s"
  by (induction rule: sched_reachable.induct) (simp_all add: sched_inv_new sched_inv_step)

text \<open>The table as a map from pids to control blocks.\<close>

definition process_of :: "native_agent_scheduler \<Rightarrow> u32 \<Rightarrow> process_control_block option" where
  "process_of s i = find (\<lambda>p. pid p = i) (for_each_process s)"

lemma find_update_first:
  assumes "\<And>p. pid (f p) = pid p"
  shows "find (\<lambda>p. pid p = j) (flatten (update_first (\<lambda>p. pid p = i) f ps)) =
    (if j = i then map_option f (find (\<lambda>p. pid p = i) (flatten ps))
     else find (\<lambda>p. pid p = j) (flatten ps))"
proof (induction ps)
  case (Cons x ps)
  then show ?case by (cases x) (auto simp: assms)
qed simp

lemmas table_update_defs = update_process_def set_kv_block_id_def add_tokens_used_def

lemma process_of_updates:
  "process_of (update_process s i st sp) j =
     (if j = i then map_option (\<lambda>p. p\<lparr>pstate := st, stack_pointer := sp\<rparr>) (process_of s i) else process_of s j)"
  "process_of (set_kv_block_id s i b) j =
     (if j = i then map_option (\<lambda>p. p\<lparr>kv_block_id := Some b\<rparr>) (process_of s i) else process_of s j)"
  "process_of (add_tokens_used s i a) j =
     (if j = i then map_option (\<lambda>p. p\<lparr>tokens_used := saturating_add_u64 (tokens_used p) a\<rparr>) (process_of s i)
      else process_of s j)"
  by (simp_all add: process_of_def for_each_process_def table_update_defs find_update_first)

lemma sched_pids:
  assumes "table_pids s = table_shape n"
  shows "map pid (for_each_process s) = map (\<lambda>i. of_nat i + 1) [0..<n]"
proof -
  have "flatten (table_shape n) = map (\<lambda>i. of_nat i + 1) [0..<n]"
    by (simp add: table_shape_def)
  then show ?thesis
    using assms by (simp add: for_each_process_def map_flatten table_pids_def)
qed

lemma active_count_eq: "get_active_count s = length (for_each_process s)"
  by (simp add: get_active_count_def for_each_process_def length_flatten)

lemma distinct_small_pids: "n \<le> 32 \<Longrightarrow> distinct (map (\<lambda>i. of_nat i + 1 :: u32) [0..<n])"
  by (auto simp: distinct_map inj_on_def word_unat_eq_iff unat_slot_id)

lemma find_clear:
  assumes "distinct (map pid (flatten ps))"
  shows "find (\<lambda>p. pid p = j) (flatten
       (update_first (\<lambda>p. pid p = i \<and> kv_block_id p = Some b) (\<lambda>p. p\<lparr>kv_block_id := None\<rparr>) ps)) =
    (if j = i then map_option (\<lambda>p. if kv_block_id p = Some b then p\<lparr>kv_block_id := None\<rparr> else p)
        (find (\<lambda>p. pid p = i) (flatten ps))
     else find (\<lambda>p. pid p = j) (flatten ps))"
  using assms
proof (induction ps)
  case (Cons x ps)
  show ?case
  proof (cases x)
    case (Some p)
    then have "find (\<lambda>q. pid q = pid p) (flatten ps) = None"
      using Cons.prems unfolding find_None_iff by (simp del: set_flatten) (metis image_eqI)
    then show ?thesis using Cons Some by auto
  qed (use Cons in simp)
qed simp

lemma process_of_clear:
  assumes "sched_inv s"
  shows "process_of (clear_kv_block_id_if_matches s i b) j =
    (if j = i then map_option (\<lambda>p. if kv_block_id p = Some b then p\<lparr>kv_block_id := None\<rparr> else p) (process_of s i)
     else process_of s j)"
proof -
  from assms obtain n where "n \<le> 32" "table_pids s = table_shape n" by (auto simp: sched_inv_def)
  then have "distinct (map pid (for_each_process s))"
    using sched_pids distinct_small_pids by simp
  then show ?thesis
    by (simp add: process_of_def for_each_process_def clear_kv_block_id_if_matches_def find_clear)
qed

lemma flatten_fill_first:
  assumes "n < length ps" and "ps ! n = None" and "\<And>j. n < j \<Longrightarrow> j < length ps \<Longrightarrow> ps ! j = None"
  shows "flatten (ps[n := Some x]) = flatten ps @ [x]"
proof -
  have "drop (Suc n) ps = replicate (length ps - Suc n) None"
    using assms(1,3) by (intro nth_equalityI) simp_all
  then have tl: "flatten (drop (Suc n) ps) = []" by simp
  have "ps = take n ps @ None # drop (Suc n) ps" using assms(1,2) by (metis id_take_nth_drop)
  then have "flatten ps = flatten (take n ps)" using tl by (metis append_Nil2 flatten.simps(2) flatten_append)
  moreover have "flatten (ps[n := Some x]) = flatten (take n ps) @ [x]"
    using assms(1) tl by (simp add: upd_conv_take_nth_drop)
  ultimately show ?thesis by simp
qed

lemma spawn_appends:
  assumes "sched_inv s" and "fst (spawn s nm p q) = Some new"
  shows "for_each_process (snd (spawn s nm p q)) = for_each_process s @ [pcb_new new nm p q]
     \<and> new \<notin> pid ` set (for_each_process s)"
proof -
  from assms(1) obtain n where n: "n \<le> 32" "table_pids s = table_shape n" "next_pid s = of_nat n + 1"
    by (auto simp: sched_inv_def)
  note pos = position_processes [OF n(2)]
  have lt: "n < 32" and new: "new = of_nat n + 1"
    using assms(2) pos n(3) by (auto simp: spawn_def Let_def split: if_splits)
  have len: "length (processes s) = 32"
    using arg_cong [OF n(2), of length] n(1) by (simp add: table_pids_def table_shape_def)
  have none: "processes s ! j = None" if "n \<le> j" "j < 32" for j
    using table_pid_bound [OF n(2,1), of j] that len by (cases "processes s ! j") auto
  have "new \<notin> set (map pid (for_each_process s))"
    unfolding sched_pids [OF n(2)] using lt by (auto simp: new word_unat_eq_iff unat_slot_id)
  moreover have "for_each_process (snd (spawn s nm p q)) = for_each_process s @ [pcb_new new nm p q]"
    using pos lt none len n(3) new flatten_fill_first [of n "processes s"]
    by (simp add: spawn_def Let_def for_each_process_def)
  ultimately show ?thesis by simp
qed

lemma find_append_one:
  "find P (xs @ [x]) = (case find P xs of Some y \<Rightarrow> Some y | None \<Rightarrow> if P x then Some x else None)"
  by (induction xs) auto

lemma process_of_spawn:
  assumes "sched_inv s" and "fst (spawn s nm p q) = Some new"
  shows "process_of s new = None
     \<and> process_of (snd (spawn s nm p q)) j =
         (if j = new then Some (pcb_new new nm p q) else process_of s j)"
proof -
  note sp = spawn_appends [OF assms]
  then have none: "find (\<lambda>p. pid p = new) (for_each_process s) = None"
    unfolding find_None_iff by blast
  then show ?thesis
    using sp by (auto simp: process_of_def find_append_one pcb_new_def split: option.splits)
qed

section \<open>Properties\<close>

text \<open>
  C17: calling \<open>schedule_next\<close> repeatedly runs the ready processes exactly once each, ordered by
  priority and, within one priority, by slot (a stable sort of the ready slots), and returns
  nothing once none is left.
\<close>

theorem schedule_next_priority_order:
  "fst (drain n s) =
     take n (map (Some \<circ> slot_pid (processes s)) (run_order (processes s)) @ replicate n None)"
  by (rule drain_order)

text \<open>
  \<open>schedule_next\<close> picks a ready process of minimal priority value, marks only that process
  \<open>Running\<close>, records its pid and leaves the rest of the table alone; it returns nothing, and
  changes nothing, exactly when no process is ready.
\<close>

theorem schedule_next_correct:
  "(fst (schedule_next s) = None \<longleftrightarrow> (\<forall>j. \<not> ready_slot (processes s) j))
   \<and> (fst (schedule_next s) = None \<longrightarrow> snd (schedule_next s) = s)
   \<and> (\<forall>i. best_slot (processes s) i \<longrightarrow>
        (\<exists>p. processes s ! i = Some p \<and> fst (schedule_next s) = Some (pid p)
          \<and> get_current_pid (snd (schedule_next s)) = pid p
          \<and> next_pid (snd (schedule_next s)) = next_pid s
          \<and> processes (snd (schedule_next s)) = (processes s)[i := Some (p\<lparr>pstate := Running\<rparr>)]))"
proof (cases "\<exists>j. ready_slot (processes s) j")
  case True
  then obtain i where best: "best_slot (processes s) i" using best_slot_exists by blast
  have "j = i" if "best_slot (processes s) j" for j
    using that best best_scan_correct(1) [of "processes s"] by (metis option.inject)
  then show ?thesis
    using True schedule_next_best [OF best] by (auto simp: get_current_pid_def)
next
  case False
  then show ?thesis using schedule_next_none [of s] by (auto simp: best_slot_def)
qed

theorem schedule_next_correct_witness:
  "fst (schedule_next (snd (spawn sched_new ''a'' Normal 10))) = Some 1"
proof -
  let ?s = "snd (spawn sched_new ''a'' Normal 10)"
  have ps: "processes ?s = Some (pcb_new 1 ''a'' Normal 10) # replicate 31 None" by code_simp
  have "best_slot (processes ?s) 0"
    unfolding ps by (auto simp: best_slot_def ready_slot_def pcb_new_def nth_Cons' split: if_splits)
  then show ?thesis
    using schedule_next_correct [of ?s] ps
    by (metis nth_Cons_0 option.inject pcb_new_def process_control_block.select_convs(1))
qed

text \<open>
  C22: in every reachable state the live processes have the pids 1 to \<open>n\<close> in slot order, with
  \<open>n\<close> the active count, and \<open>spawn\<close> succeeds exactly while fewer than 32 processes exist, then
  handing out the pid \<open>n + 1\<close> that no process has.
\<close>

theorem process_table_invariant:
  assumes "sched_reachable s"
  shows "map pid (for_each_process s) = map (\<lambda>i. of_nat i + 1) [0..<get_active_count s]
     \<and> distinct (map pid (for_each_process s))
     \<and> get_active_count s \<le> MAX_PROCESSES
     \<and> fst (spawn s nm p q) =
         (if get_active_count s < MAX_PROCESSES then Some (of_nat (get_active_count s) + 1) else None)"
proof -
  from reachable_inv [OF assms] obtain n where n: "n \<le> 32" "table_pids s = table_shape n"
    "next_pid s = of_nat n + 1" by (auto simp: sched_inv_def)
  note pids = sched_pids [OF n(2)]
  then have "length (for_each_process s) = n" by (metis length_map length_upt minus_nat.diff_0)
  then show ?thesis
    using pids n spawn_effect [OF n(2,3,1), of nm p q] distinct_small_pids [OF n(1)]
    by (auto simp: active_count_eq)
qed

theorem process_table_invariant_witness:
  "fst (spawn (sched_step (OpSpawn ''init'' KernelCritical 5) sched_new) ''b'' High 7) = Some 2"
proof -
  have r: "sched_reachable (sched_step (OpSpawn ''init'' KernelCritical 5) sched_new)"
    by (intro sched_reachable.intros)
  have "get_active_count (sched_step (OpSpawn ''init'' KernelCritical 5) sched_new) = 1" by code_simp
  then show ?thesis using process_table_invariant [OF r, of "''b''" High 7] by simp
qed

end
