(* ===== verification/Ring3_Sched.thy ===== *)
theory Ring3_Sched
  imports Machine Tier_Select Agent_Scheduler
begin

text \<open>
  Model of \<^verbatim>\<open>scheduler/ring3_preempt.rs\<close> (one full-context interception of a ring-3 program) and
  \<^verbatim>\<open>scheduler/ring3_mt.rs\<close> (timer-driven switching between up to four ring-3 programs). The static
  variables of each module are a record; memory is passed along, since both modules copy the
  160-byte context of the interrupted program with raw pointers. The closures \<^verbatim>\<open>f\<close> that enter ring
  3, and the addresses the heap returns for the boxed buffers, are parameters.
\<close>

section \<open>Definitions: one interception\<close>

record ring3_preempt =
  rp_enabled :: bool
  rp_hit :: bool
  rp_task_ctx :: u64

definition rp_tick :: "u64 \<Rightarrow> ring3_preempt \<Rightarrow> mem \<Rightarrow> u64 \<times> ring3_preempt \<times> mem" where
  "rp_tick saved_ctx_ptr st m =
     (if \<not> rp_enabled st then (saved_ctx_ptr, st, m)
      else let hit = rp_hit st; st' = st\<lparr>rp_hit := True\<rparr> in
        if hit then (saved_ctx_ptr, st', m)
        else let dest = rp_task_ctx st';
                 m1 = copy_mem m saved_ctx_ptr dest 160;
                 m2 = fill_mem m1 saved_ctx_ptr 0xAA 160
             in (dest, st', m2))"

definition run_intercepting ::
  "u64 \<Rightarrow> (ring3_preempt \<Rightarrow> mem \<Rightarrow> u64 \<times> ring3_preempt \<times> mem) \<Rightarrow>
   ring3_preempt \<Rightarrow> mem \<Rightarrow> (u64 \<times> bool) \<times> ring3_preempt \<times> mem" where
  "run_intercepting ctx_buf f st m =
     (let m1 = store_mem m ctx_buf (replicate 160 0);
          st1 = st\<lparr>rp_task_ctx := ctx_buf, rp_hit := False, rp_enabled := True\<rparr>;
          (exit_code, st2, m2) = f st1 m1;
          st3 = st2\<lparr>rp_enabled := False\<rparr>
      in ((exit_code, rp_hit st3), st3, m2))"

section \<open>Definitions: several programs\<close>

abbreviation (input) RING3_MT_MAX_TASKS :: nat where "RING3_MT_MAX_TASKS \<equiv> 4"

record ring3_mt =
  mt_enabled :: bool
  mt_active_tasks :: nat
  mt_current :: nat
  mt_switch_count :: u64
  mt_task_ctx :: "u64 list"
  mt_task_priority :: "u8 list"
  mt_task_done_flags :: "bool list"

definition mt_tick :: "u64 \<Rightarrow> ring3_mt \<Rightarrow> mem \<Rightarrow> (u64 \<times> ring3_mt \<times> mem) outcome" where
  "mt_tick saved_ctx_ptr st m =
     (if \<not> mt_enabled st then Ok (saved_ctx_ptr, st, m)
      else let active_tasks = mt_active_tasks st; current = mt_current st in
        obind (idx (mt_task_ctx st) current) (\<lambda>dest.
          let m1 = copy_mem m saved_ctx_ptr dest 160;
              m2 = fill_mem m1 saved_ctx_ptr 0xAA 160
          in obind (select_next active_tasks current (mt_task_priority st) (mt_task_done_flags st)) (\<lambda>nxt.
            let st' = st\<lparr>mt_current := nxt, mt_switch_count := mt_switch_count st + 1\<rparr>
            in obind (idx (mt_task_ctx st') nxt) (\<lambda>r. Ok (r, st', m2)))))"

definition mt_task_done :: "u64 \<Rightarrow> ring3_mt \<Rightarrow> mem \<Rightarrow> (u64 \<times> ring3_mt \<times> mem) outcome" where
  "mt_task_done saved_ctx_ptr st m =
     (let active_tasks = mt_active_tasks st; current = mt_current st in
        obind (idx (mt_task_ctx st) current) (\<lambda>dest.
          let m1 = copy_mem m saved_ctx_ptr dest 160;
              m2 = fill_mem m1 saved_ctx_ptr 0xAA 160
          in obind (idx (mt_task_done_flags st) current) (\<lambda>_.
            let st1 = st\<lparr>mt_task_done_flags := (mt_task_done_flags st)[current := True]\<rparr>
            in obind (select_next active_tasks current (mt_task_priority st1) (mt_task_done_flags st1)) (\<lambda>nxt.
              let st' = st1\<lparr>mt_current := nxt, mt_switch_count := mt_switch_count st1 + 1\<rparr>
              in obind (idx (mt_task_ctx st') nxt) (\<lambda>r. Ok (r, st', m2))))))"

text \<open>The part of \<^verbatim>\<open>run_multitasking\<close> before the closure runs; \<open>bufs\<close> are the boxed buffers.\<close>

fun store_contexts :: "mem \<Rightarrow> (u64 \<times> bytes) list \<Rightarrow> mem" where
  "store_contexts m [] = m"
| "store_contexts m ((a, ctx) # rest) = store_contexts (store_mem m a ctx) rest"

definition mt_arm ::
  "u64 list \<Rightarrow> priority \<Rightarrow> (priority \<times> bytes) list \<Rightarrow> ring3_mt \<Rightarrow> mem \<Rightarrow> (ring3_mt \<times> mem) outcome" where
  "mt_arm bufs task0_priority other_tasks st m =
     (let active_tasks = length other_tasks + 1 in
      if RING3_MT_MAX_TASKS < active_tasks then Panic
      else
        let contexts = replicate 160 0 # map snd other_tasks;
            m1 = store_contexts m (zip bufs contexts);
            task_pairs = zip bufs (priority_u8 task0_priority # map (priority_u8 \<circ> fst) other_tasks)
        in obind (arm_task_slots (mt_task_ctx st) (mt_task_priority st) (mt_task_done_flags st) task_pairs)
          (\<lambda>(slots, prios, flags).
            Ok (st\<lparr>mt_task_ctx := slots, mt_task_priority := prios, mt_task_done_flags := flags,
                   mt_active_tasks := active_tasks, mt_current := 0, mt_switch_count := 0,
                   mt_enabled := True\<rparr>, m1)))"

definition run_multitasking ::
  "u64 list \<Rightarrow> priority \<Rightarrow> (priority \<times> bytes) list \<Rightarrow>
   (ring3_mt \<Rightarrow> mem \<Rightarrow> (u64 \<times> ring3_mt \<times> mem) outcome) \<Rightarrow> ring3_mt \<Rightarrow> mem \<Rightarrow>
   ((u64 \<times> u32 list \<times> bool list \<times> u64) \<times> ring3_mt \<times> mem) outcome" where
  "run_multitasking bufs task0_priority other_tasks f st m =
     obind (mt_arm bufs task0_priority other_tasks st m) (\<lambda>(st1, m1).
     obind (f st1 m1) (\<lambda>(exit_code, st2, m2).
       let st3 = st2\<lparr>mt_enabled := False\<rparr>;
           switches = mt_switch_count st3;
           other_last_eax = map (\<lambda>a. case load_mem m2 a 4 of [b0, b1, b2, b3] \<Rightarrow> le32 b0 b1 b2 b3 | _ \<Rightarrow> 0)
             (tl bufs)
       in obind (slice (mt_task_done_flags st3) 1 (length other_tasks + 1)) (\<lambda>other_done.
            Ok ((exit_code, other_last_eax, other_done, switches), st3, m2))))"

section \<open>Saved contexts\<close>

definition saved_ctx :: "ring3_mt \<Rightarrow> mem \<Rightarrow> nat \<Rightarrow> bytes" where
  "saved_ctx st m i = load_mem m (mt_task_ctx st ! i) 160"

text \<open>The armed state: four slots, separate buffers, and task 0 never retired.\<close>

definition mt_inv :: "ring3_mt \<Rightarrow> bool" where
  "mt_inv st \<longleftrightarrow> mt_enabled st \<and> length (mt_task_ctx st) = RING3_MT_MAX_TASKS
     \<and> length (mt_task_priority st) = RING3_MT_MAX_TASKS
     \<and> length (mt_task_done_flags st) = RING3_MT_MAX_TASKS
     \<and> mt_current st < mt_active_tasks st \<and> mt_active_tasks st \<le> RING3_MT_MAX_TASKS
     \<and> \<not> mt_task_done_flags st ! 0
     \<and> (\<forall>i<mt_active_tasks st. \<forall>j<mt_active_tasks st. i \<noteq> j \<longrightarrow>
          apart 160 (mt_task_ctx st ! i) (mt_task_ctx st ! j))"

text \<open>The interrupt stack holding the fresh context lies outside all buffers.\<close>

definition mt_clear :: "ring3_mt \<Rightarrow> u64 \<Rightarrow> bool" where
  "mt_clear st saved \<longleftrightarrow> (\<forall>i<mt_active_tasks st. apart 160 (mt_task_ctx st ! i) saved)"

lemma save_context:
  assumes "mt_inv st" and "mt_clear st saved" and "i < mt_active_tasks st"
  shows "load_mem (fill_mem (copy_mem m saved (mt_task_ctx st ! mt_current st) 160) saved v 160)
           (mt_task_ctx st ! i) 160 =
         (if i = mt_current st then load_mem m saved 160 else saved_ctx st m i)"
proof -
  have "apart 160 (mt_task_ctx st ! i) saved" using assms(2,3) by (simp add: mt_clear_def)
  moreover have "i \<noteq> mt_current st \<Longrightarrow> apart 160 (mt_task_ctx st ! i) (mt_task_ctx st ! mt_current st)"
    using assms(1,3) by (simp add: mt_inv_def)
  ultimately show ?thesis
    by (simp add: load_fill_apart load_copy_same load_copy_apart saved_ctx_def)
qed

lemma select_live:
  assumes "mt_inv st"
  shows "\<exists>nxt. select_next (mt_active_tasks st) (mt_current st) (mt_task_priority st)
      (mt_task_done_flags st) = Ok nxt
     \<and> top_tier (mt_active_tasks st) (mt_task_priority st) (mt_task_done_flags st) nxt"
  using assms by (intro ts.pick_top_tier [of _ _ _ 0]) (auto simp: mt_inv_def)

lemma mt_tick_effect:
  assumes inv: "mt_inv st" and "mt_clear st saved"
  shows "\<exists>nxt st' m'. mt_tick saved st m = Ok (mt_task_ctx st ! nxt, st', m')
     \<and> top_tier (mt_active_tasks st) (mt_task_priority st) (mt_task_done_flags st) nxt
     \<and> st' = st\<lparr>mt_current := nxt, mt_switch_count := mt_switch_count st + 1\<rparr>
     \<and> (\<forall>i<mt_active_tasks st. saved_ctx st' m' i =
          (if i = mt_current st then load_mem m saved 160 else saved_ctx st m i))"
proof -
  obtain nxt where nxt: "select_next (mt_active_tasks st) (mt_current st) (mt_task_priority st)
      (mt_task_done_flags st) = Ok nxt"
    "top_tier (mt_active_tasks st) (mt_task_priority st) (mt_task_done_flags st) nxt"
    using select_live [OF inv] by blast
  have bounds: "mt_current st < length (mt_task_ctx st)" "nxt < length (mt_task_ctx st)" "mt_enabled st"
    using inv nxt(2) by (auto simp: mt_inv_def top_tier_def)
  let ?st = "st\<lparr>mt_current := nxt, mt_switch_count := mt_switch_count st + 1\<rparr>"
  let ?m = "fill_mem (copy_mem m saved (mt_task_ctx st ! mt_current st) 160) saved 0xAA 160"
  have "mt_tick saved st m = Ok (mt_task_ctx st ! nxt, ?st, ?m)"
    using nxt bounds by (simp add: mt_tick_def Let_def)
  moreover have "saved_ctx ?st ?m i =
      (if i = mt_current st then load_mem m saved 160 else saved_ctx st m i)"
    if "i < mt_active_tasks st" for i
    using save_context [OF assms that, of m "0xAA"] by (simp add: saved_ctx_def)
  ultimately show ?thesis using nxt(2) by blast
qed

definition mt_retire :: "ring3_mt \<Rightarrow> ring3_mt" where
  "mt_retire st = st\<lparr>mt_task_done_flags := (mt_task_done_flags st)[mt_current st := True]\<rparr>"

lemma mt_task_done_as_tick:
  assumes "mt_inv st"
  shows "mt_task_done saved st m = mt_tick saved (mt_retire st) m"
  using assms by (simp add: mt_task_done_def mt_tick_def mt_retire_def mt_inv_def Let_def)

lemma mt_retire_inv: "mt_inv st \<Longrightarrow> mt_current st \<noteq> 0 \<Longrightarrow> mt_inv (mt_retire st)"
  by (simp add: mt_inv_def mt_retire_def)

lemma mt_inv_switch:
  "mt_inv st \<Longrightarrow> top_tier (mt_active_tasks st) p d nxt \<Longrightarrow>
   mt_inv (st\<lparr>mt_current := nxt, mt_switch_count := c\<rparr>)"
  by (simp add: mt_inv_def top_tier_def)

section \<open>Runs of the timer\<close>

text \<open>
  A run of the scheduler: programs execute (changing memory outside the parked buffers), a timer
  tick or a voluntary retirement interrupts the current one. The last component records, for every
  slot, the context that was captured when its program last lost the processor (its bootstrap
  context before its first turn).
\<close>

definition keeps_buffers :: "ring3_mt \<Rightarrow> mem \<Rightarrow> mem \<Rightarrow> bool" where
  "keeps_buffers st m m' \<longleftrightarrow> (\<forall>i<mt_active_tasks st. saved_ctx st m' i = saved_ctx st m i)"

inductive mt_reachable :: "ring3_mt \<Rightarrow> mem \<Rightarrow> (nat \<Rightarrow> bytes) \<Rightarrow> bool" where
  armed: "mt_inv st \<Longrightarrow> mt_reachable st m (saved_ctx st m)"
| tick: "mt_reachable st m captured \<Longrightarrow> keeps_buffers st m m' \<Longrightarrow> mt_clear st saved \<Longrightarrow>
    mt_tick saved st m' = Ok (r, st', m'') \<Longrightarrow>
    mt_reachable st' m'' (captured(mt_current st := load_mem m' saved 160))"
| retire: "mt_reachable st m captured \<Longrightarrow> keeps_buffers st m m' \<Longrightarrow> mt_clear st saved \<Longrightarrow>
    mt_current st \<noteq> 0 \<Longrightarrow> mt_task_done saved st m' = Ok (r, st', m'') \<Longrightarrow>
    mt_reachable st' m'' (captured(mt_current st := load_mem m' saved 160))"

lemma mt_tick_step:
  assumes inv: "mt_inv st" and cap: "\<forall>i<mt_active_tasks st. captured i = saved_ctx st m i"
    and clear: "mt_clear st saved" and tick: "mt_tick saved st m = Ok (r, st', m')"
  shows "mt_inv st' \<and> (\<forall>i<mt_active_tasks st'. (captured(mt_current st := load_mem m saved 160)) i
     = saved_ctx st' m' i)"
proof -
  obtain nxt where nxt: "top_tier (mt_active_tasks st) (mt_task_priority st) (mt_task_done_flags st) nxt"
    "st' = st\<lparr>mt_current := nxt, mt_switch_count := mt_switch_count st + 1\<rparr>"
    "\<forall>i<mt_active_tasks st. saved_ctx st' m' i =
       (if i = mt_current st then load_mem m saved 160 else saved_ctx st m i)"
    using mt_tick_effect [OF inv clear, of m] tick by auto
  have "mt_inv st'" using mt_inv_switch [OF inv nxt(1)] nxt(2) by simp
  then show ?thesis using nxt cap by simp
qed

lemma mt_retire_simps [simp]:
  "mt_active_tasks (mt_retire st) = mt_active_tasks st" "mt_current (mt_retire st) = mt_current st"
  "mt_task_ctx (mt_retire st) = mt_task_ctx st" "saved_ctx (mt_retire st) = saved_ctx st"
  "mt_clear (mt_retire st) = mt_clear st"
  by (simp_all add: mt_retire_def saved_ctx_def mt_clear_def fun_eq_iff)

lemma mt_reachable_inv:
  "mt_reachable st m captured \<Longrightarrow> mt_inv st \<and> (\<forall>i<mt_active_tasks st. captured i = saved_ctx st m i)"
proof (induction rule: mt_reachable.induct)
  case (tick st m captured m' saved r st' m'')
  then show ?case
    using mt_tick_step [of st captured m' saved r st' m''] by (simp add: keeps_buffers_def)
next
  case (retire st m captured m' saved r st' m'')
  then show ?case
    using mt_tick_step [of "mt_retire st" captured m' saved r st' m'']
    by (simp add: keeps_buffers_def mt_retire_inv mt_task_done_as_tick)
qed simp

lemma store_contexts_load:
  assumes "length as = length cs" and "\<forall>c \<in> set cs. length c = 160"
    and "\<forall>i<length as. \<forall>j<length as. i \<noteq> j \<longrightarrow> apart 160 (as ! i) (as ! j)" and "i < length as"
  shows "load_mem (store_contexts m (zip as cs)) (as ! i) 160 = cs ! i"
proof -
  have keep: "load_mem (store_contexts m (zip as cs)) a 160 = load_mem m a 160"
    if "\<forall>b \<in> set as. apart 160 a b" "length as = length cs" "\<forall>c \<in> set cs. length c = 160" for a m as cs
    using that(2,1,3) by (induction as cs arbitrary: m rule: list_induct2) (simp_all add: load_store_apart)
  show ?thesis
    using assms
  proof (induction as cs arbitrary: m i rule: list_induct2)
    case (Cons a as c cs)
    show ?case
    proof (cases i)
      case 0
      have "\<forall>b \<in> set as. apart 160 a b"
        using Cons.prems(2) by (auto simp: in_set_conv_nth) (metis Suc_less_eq Zero_not_Suc nth_Cons_0 nth_Cons_Suc zero_less_Suc)
      then show ?thesis
        using 0 Cons.hyps Cons.prems(1) keep [of as a cs] by (simp add: load_store_same)
    next
      case (Suc j)
      have "\<forall>i<length as. \<forall>j<length as. i \<noteq> j \<longrightarrow> apart 160 (as ! i) (as ! j)"
        using Cons.prems(2) by (metis Suc_less_eq length_Cons nat.inject nth_Cons_Suc)
      then show ?thesis using Suc Cons by simp
    qed
  qed simp
qed


lemma mt_tick_resumes:
  assumes "mt_inv st" and "\<forall>i<mt_active_tasks st. captured i = saved_ctx st m i" and "mt_clear st saved"
  shows "\<exists>r st' m'. mt_tick saved st m = Ok (r, st', m')
     \<and> top_tier (mt_active_tasks st) (mt_task_priority st) (mt_task_done_flags st) (mt_current st')
     \<and> mt_task_done_flags st' = mt_task_done_flags st
     \<and> load_mem m' r 160 =
         (if mt_current st' = mt_current st then load_mem m saved 160 else captured (mt_current st'))"
proof -
  obtain nxt st' m' where eff: "mt_tick saved st m = Ok (mt_task_ctx st ! nxt, st', m')"
    "top_tier (mt_active_tasks st) (mt_task_priority st) (mt_task_done_flags st) nxt"
    "st' = st\<lparr>mt_current := nxt, mt_switch_count := mt_switch_count st + 1\<rparr>"
    "\<forall>i<mt_active_tasks st. saved_ctx st' m' i =
       (if i = mt_current st then load_mem m saved 160 else saved_ctx st m i)"
    using mt_tick_effect [OF assms(1,3), of m] by blast
  have "nxt < mt_active_tasks st" using eff(2) by (simp add: top_tier_def)
  then have "load_mem m' (mt_task_ctx st ! nxt) 160 =
      (if nxt = mt_current st then load_mem m saved 160 else captured nxt)"
    using eff(3,4) assms(2) by (simp add: saved_ctx_def)
  then show ?thesis using eff by simp
qed

section \<open>Properties\<close>

text \<open>
  C5: no ring-3 program is ever resumed with a context that is not its own. In every reachable
  state a timer tick returns (it neither panics nor loops), picks a program of the best priority
  among those not retired, and the 160 bytes at the address it returns are exactly the context
  captured when that program was last interrupted: the context just saved if it is the same
  program, otherwise the one recorded for its slot. When a program other than the first retires, that
  call returns as well, marks it retired, and resumes a different program of the best priority among the
  remaining ones, again with exactly the context recorded for it; who has retired stays retired, and
  a retired program is never picked.
\<close>

theorem mt_resumes_exact_context:
  assumes "mt_reachable st m captured" and "keeps_buffers st m m'" and "mt_clear st saved"
  shows "(\<exists>r st' m''. mt_tick saved st m' = Ok (r, st', m'')
     \<and> top_tier (mt_active_tasks st) (mt_task_priority st) (mt_task_done_flags st) (mt_current st')
     \<and> mt_task_done_flags st' = mt_task_done_flags st
     \<and> load_mem m'' r 160 =
         (if mt_current st' = mt_current st then load_mem m' saved 160 else captured (mt_current st')))
   \<and> (mt_current st \<noteq> 0 \<longrightarrow> (\<exists>r st' m''. mt_task_done saved st m' = Ok (r, st', m'')
     \<and> mt_task_done_flags st' = (mt_task_done_flags st)[mt_current st := True] \<and> mt_task_done_flags st' ! mt_current st
     \<and> top_tier (mt_active_tasks st) (mt_task_priority st) (mt_task_done_flags st') (mt_current st')
     \<and> mt_current st' \<noteq> mt_current st \<and> load_mem m'' r 160 = captured (mt_current st')))"
proof (intro conjI impI)
  have inv: "mt_inv st" "\<forall>i<mt_active_tasks st. captured i = saved_ctx st m' i"
    using mt_reachable_inv [OF assms(1)] assms(2) by (auto simp: keeps_buffers_def)
  show "\<exists>r st' m''. mt_tick saved st m' = Ok (r, st', m'')
     \<and> top_tier (mt_active_tasks st) (mt_task_priority st) (mt_task_done_flags st) (mt_current st')
     \<and> mt_task_done_flags st' = mt_task_done_flags st
     \<and> load_mem m'' r 160 =
         (if mt_current st' = mt_current st then load_mem m' saved 160 else captured (mt_current st'))"
    by (rule mt_tick_resumes [OF inv assms(3)])
  assume c: "mt_current st \<noteq> 0"
  let ?d = "(mt_task_done_flags st)[mt_current st := True]"
  have retired: "mt_task_done_flags (mt_retire st) = ?d" "mt_task_priority (mt_retire st) = mt_task_priority st"
    by (simp_all add: mt_retire_def)
  obtain r st' m'' where t: "mt_tick saved (mt_retire st) m' = Ok (r, st', m'')"
      "top_tier (mt_active_tasks st) (mt_task_priority st) ?d (mt_current st')" "mt_task_done_flags st' = ?d"
      "load_mem m'' r 160 = (if mt_current st' = mt_current st then load_mem m' saved 160 else captured (mt_current st'))"
    using mt_tick_resumes [OF mt_retire_inv [OF inv(1) c], of captured m' saved] inv(2) assms(3) by (auto simp: retired)
  have d: "?d ! mt_current st" using inv(1) by (simp add: mt_inv_def)
  then have "mt_current st' \<noteq> mt_current st" using t(2) by (auto simp: top_tier_def)
  then show "\<exists>r st' m''. mt_task_done saved st m' = Ok (r, st', m'')
     \<and> mt_task_done_flags st' = ?d \<and> mt_task_done_flags st' ! mt_current st
     \<and> top_tier (mt_active_tasks st) (mt_task_priority st) (mt_task_done_flags st') (mt_current st')
     \<and> mt_current st' \<noteq> mt_current st \<and> load_mem m'' r 160 = captured (mt_current st')"
    using t d by (simp add: mt_task_done_as_tick [OF inv(1)])
qed

definition demo_mt :: ring3_mt where
  "demo_mt = \<lparr>mt_enabled = True, mt_active_tasks = 2, mt_current = 0, mt_switch_count = 0,
     mt_task_ctx = [0x1000, 0x2000, 0, 0], mt_task_priority = [2, 2, 0, 0],
     mt_task_done_flags = [False, False, False, False]\<rparr>"

lemma demo_mt_inv: "mt_inv demo_mt" "mt_clear demo_mt 0x9000"
  by (simp_all add: mt_inv_def mt_clear_def demo_mt_def apart_def all_less_two)

lemma demo_mt_second_inv: "mt_inv (demo_mt\<lparr>mt_current := 1\<rparr>)" "mt_clear (demo_mt\<lparr>mt_current := 1\<rparr>) 0x9000"
  using demo_mt_inv by (simp_all add: mt_inv_def mt_clear_def demo_mt_def)

theorem mt_resumes_exact_context_witness:
  "(\<exists>r st' m''. mt_tick 0x9000 demo_mt (\<lambda>a. if a < 0x3000 then 7 else 1) = Ok (r, st', m'')
     \<and> load_mem m'' r 160 =
         (if mt_current st' = mt_current demo_mt then load_mem (\<lambda>a. if a < 0x3000 then 7 else 1) 0x9000 160
          else saved_ctx demo_mt (\<lambda>a. if a < 0x3000 then 7 else 1) (mt_current st')))
   \<and> (\<exists>r st' m''. mt_task_done 0x9000 (demo_mt\<lparr>mt_current := 1\<rparr>) (\<lambda>a. if a < 0x3000 then 7 else 1) = Ok (r, st', m'')
     \<and> mt_current st' \<noteq> 1 \<and> mt_task_done_flags st' ! 1)"
proof -
  let ?m = "\<lambda>a. if a < (0x3000 :: u64) then 7 else (1 :: u8)"
  have k: "keeps_buffers st ?m ?m" for st by (simp add: keeps_buffers_def)
  show ?thesis
  proof
    show "\<exists>r st' m''. mt_tick 0x9000 demo_mt ?m = Ok (r, st', m'')
     \<and> load_mem m'' r 160 = (if mt_current st' = mt_current demo_mt then load_mem ?m 0x9000 160 else saved_ctx demo_mt ?m (mt_current st'))"
      using mt_resumes_exact_context [OF mt_reachable.armed [OF demo_mt_inv(1)] k demo_mt_inv(2)] by blast
    have "mt_current (demo_mt\<lparr>mt_current := 1\<rparr>) = 1" by simp
    then show "\<exists>r st' m''. mt_task_done 0x9000 (demo_mt\<lparr>mt_current := 1\<rparr>) ?m = Ok (r, st', m'') \<and> mt_current st' \<noteq> 1 \<and> mt_task_done_flags st' ! 1"
      using mt_resumes_exact_context [OF mt_reachable.armed [OF demo_mt_second_inv(1)] k demo_mt_second_inv(2)] by (metis zero_neq_one)
  qed
qed

text \<open>
  Arming a run with at most three further programs (their contexts 160 bytes long, the boxed
  buffers apart) gives a state in which every slot holds its own fresh context (zeros for task 0),
  with task 0 current, nobody retired, and the invariant of the switching in force; with more
  programs the assertion fires.
\<close>

theorem mt_arm_correct:
  assumes "length bufs = length others + 1" and "\<forall>(p, c) \<in> set others. length c = 160"
    and "\<forall>i<length bufs. \<forall>j<length bufs. i \<noteq> j \<longrightarrow> apart 160 (bufs ! i) (bufs ! j)"
    and "length (mt_task_ctx st) = 4" and "length (mt_task_priority st) = 4"
    and "length (mt_task_done_flags st) = 4"
  shows "if length others \<le> 3
     then \<exists>st' m'. mt_arm bufs p0 others st m = Ok (st', m') \<and> mt_inv st' \<and> mt_current st' = 0
       \<and> mt_active_tasks st' = length bufs
       \<and> take (length bufs) (mt_task_priority st') = priority_u8 p0 # map (priority_u8 \<circ> fst) others
       \<and> map (saved_ctx st' m') [0..<length bufs] = replicate 160 0 # map snd others
     else mt_arm bufs p0 others st m = Panic"
proof (cases "length others \<le> 3")
  case True
  let ?cs = "replicate 160 0 # map snd others"
  let ?ps = "priority_u8 p0 # map (priority_u8 \<circ> fst) others"
  let ?st = "st\<lparr>mt_task_ctx := overwrite (mt_task_ctx st) 0 bufs,
     mt_task_priority := overwrite (mt_task_priority st) 0 ?ps,
     mt_task_done_flags := replicate 4 False,
     mt_active_tasks := length bufs, mt_current := 0, mt_switch_count := 0, mt_enabled := True\<rparr>"
  let ?m = "store_contexts m (zip bufs ?cs)"
  have len: "length bufs \<le> 4" using True assms(1) by simp
  have eq: "mt_arm bufs p0 others st m = Ok (?st, ?m)"
    using True assms(1,4,5,6) by (simp add: mt_arm_def arm_task_slots_def Let_def)
  have nth: "mt_task_ctx ?st ! i = bufs ! i" if "i < length bufs" for i
    using that len assms(4) by (simp add: nth_overwrite_same)
  have inv: "mt_inv ?st"
    using assms(1,3,4,5) len nth by (auto simp: mt_inv_def)
  have "load_mem ?m (bufs ! i) 160 = ?cs ! i" if "i < length bufs" for i
    by (rule store_contexts_load) (use assms(1-3) that in auto)
  then have "map (saved_ctx ?st ?m) [0..<length bufs] = ?cs"
    using nth assms(1) by (intro nth_equalityI [of "map _ _"]) (simp_all add: saved_ctx_def del: upt_Suc)
  moreover have "take (length bufs) (overwrite (mt_task_priority st) 0 ?ps) = ?ps"
    using assms(1) by (simp add: overwrite_def)
  ultimately show ?thesis using True eq inv by simp
qed (simp add: mt_arm_def Let_def)

theorem mt_arm_correct_witness:
  "\<exists>st' m'. mt_arm [0x1000, 0x2000] High [(Normal, replicate 160 1)] demo_mt (\<lambda>_. 5) = Ok (st', m')
     \<and> map (saved_ctx st' m') [0..<2] = [replicate 160 0, replicate 160 1]"
proof -
  have "\<forall>i<length [0x1000, 0x2000 :: u64]. \<forall>j<length [0x1000, 0x2000 :: u64]. i \<noteq> j \<longrightarrow>
      apart 160 ([0x1000, 0x2000] ! i) ([0x1000, 0x2000] ! j)"
    by (simp add: apart_def all_less_two flip: numeral_2_eq_2)
  then show ?thesis
    using mt_arm_correct [of "[0x1000, 0x2000]" "[(Normal, replicate 160 1)]" demo_mt High "\<lambda>_. 5"]
    by (auto simp: demo_mt_def numeral_2_eq_2 simp del: replicate.simps)
qed

text \<open>
  The single interception. While armed, the first tick parks the whole interrupted context
  in the dedicated buffer, returns that buffer as the place to resume from and destroys the
  original; every later tick, and every tick while disarmed, resumes in place and changes no memory.
\<close>

theorem rp_tick_correct:
  assumes "apart 160 (rp_task_ctx st) saved"
  shows "let (r, st', m') = rp_tick saved st m in
     if rp_enabled st \<and> \<not> rp_hit st
     then r = rp_task_ctx st \<and> load_mem m' r 160 = load_mem m saved 160
        \<and> load_mem m' saved 160 = replicate 160 0xAA \<and> rp_hit st'
        \<and> rp_tick saved2 st' m2 = (saved2, st', m2)
     else r = saved \<and> m' = m"
  using assms
  by (simp add: rp_tick_def Let_def load_fill_apart load_copy_same load_fill_same)

theorem rp_tick_correct_witness:
  "\<exists>st' m'. rp_tick 0x9000 \<lparr>rp_enabled = True, rp_hit = False, rp_task_ctx = 0x1000\<rparr> (\<lambda>_. 3) = (0x1000, st', m')
     \<and> load_mem m' 0x1000 160 = load_mem (\<lambda>_. 3) 0x9000 160"
proof -
  let ?st = "\<lparr>rp_enabled = True, rp_hit = False, rp_task_ctx = 0x1000\<rparr>"
  obtain r st' m' where eq: "rp_tick 0x9000 ?st (\<lambda>_. 3) = (r, st', m')" by (metis prod_cases3)
  have "apart 160 (rp_task_ctx ?st) 0x9000" by (simp add: apart_def)
  from rp_tick_correct [OF this, of "\<lambda>_. 3" 0 "\<lambda>_. 0"] eq show ?thesis by auto
qed

end
