(* ===== verification/Context_Switch.thy ===== *)
theory Context_Switch
  imports Machine Agent_Scheduler
begin

text \<open>
  Model of \<^verbatim>\<open>scheduler/context_switch.rs\<close>. The first part is the machine level: the naked
  \<^verbatim>\<open>switch_to\<close>, instruction by instruction, on a processor record with the stack pointer, the six
  callee-saved registers and the instruction pointer, and \<^verbatim>\<open>prepare_initial_stack\<close>. The second
  part is the cooperative scheduler on top of it. There a context is known by its saved stack
  pointer: \<open>yield_now\<close> takes the stack pointer that \<^verbatim>\<open>switch_to\<close> stores for the outgoing context
  and returns the one it continues from (none when it returns without a switch).
\<close>

section \<open>Definitions: the switch\<close>

record cpu =
  rsp :: u64
  rbp :: u64
  rbx :: u64
  r12 :: u64
  r13 :: u64
  r14 :: u64
  r15 :: u64
  rip :: u64

definition push :: "u64 \<Rightarrow> cpu \<times> mem \<Rightarrow> cpu \<times> mem" where
  "push v = (\<lambda>(c, m). (c\<lparr>rsp := rsp c - 8\<rparr>, write_u64 m (rsp c - 8) v))"

definition pop :: "(u64 \<Rightarrow> cpu \<Rightarrow> cpu) \<Rightarrow> cpu \<times> mem \<Rightarrow> cpu \<times> mem" where
  "pop set_reg = (\<lambda>(c, m). let v = read_u64 m (rsp c) in (set_reg v (c\<lparr>rsp := rsp c + 8\<rparr>), m))"

definition switch_to :: "u64 \<Rightarrow> u64 \<Rightarrow> cpu \<times> mem \<Rightarrow> cpu \<times> mem" where
  "switch_to old_rsp new_rsp s0 =
     (let s1 = push (rbp (fst s0)) s0;
          s2 = push (rbx (fst s1)) s1;
          s3 = push (r12 (fst s2)) s2;
          s4 = push (r13 (fst s3)) s3;
          s5 = push (r14 (fst s4)) s4;
          s6 = push (r15 (fst s5)) s5;
          s7 = (fst s6, write_u64 (snd s6) old_rsp (rsp (fst s6)));
          s8 = ((fst s7)\<lparr>rsp := new_rsp\<rparr>, snd s7);
          s9 = pop (\<lambda>v c. c\<lparr>r15 := v\<rparr>) s8;
          s10 = pop (\<lambda>v c. c\<lparr>r14 := v\<rparr>) s9;
          s11 = pop (\<lambda>v c. c\<lparr>r13 := v\<rparr>) s10;
          s12 = pop (\<lambda>v c. c\<lparr>r12 := v\<rparr>) s11;
          s13 = pop (\<lambda>v c. c\<lparr>rbx := v\<rparr>) s12;
          s14 = pop (\<lambda>v c. c\<lparr>rbp := v\<rparr>) s13
      in pop (\<lambda>v c. c\<lparr>rip := v\<rparr>) s14)"

text \<open>The entry address and six zeros below it; the result is the new stack pointer.\<close>

fun push_zeros :: "nat \<Rightarrow> u64 \<Rightarrow> mem \<Rightarrow> u64 \<times> mem" where
  "push_zeros 0 sp m = (sp, m)"
| "push_zeros (Suc n) sp m = push_zeros n (sp - 8) (write_u64 m (sp - 8) 0)"

definition prepare_initial_stack :: "u64 \<Rightarrow> u64 \<Rightarrow> mem \<Rightarrow> u64 \<times> mem" where
  "prepare_initial_stack stack_top entry m =
     (let tp = (stack_top AND NOT 0xf) - 8;
          sp = tp - 8;
          m1 = write_u64 m sp entry
      in push_zeros 6 sp m1)"

section \<open>Definitions: cooperative tasks\<close>

abbreviation (input) MAX_COOP_TASKS :: nat where "MAX_COOP_TASKS \<equiv> 4"

record coop_task =
  ct_priority :: priority
  ct_done :: bool
  ct_saved_rsp :: u64
  ct_pid :: u32

record coop_state =
  coop_tasks :: "coop_task option list"
  coop_current :: "nat option"
  coop_kernel_rsp :: u64
  coop_table :: native_agent_scheduler

text \<open>\<open>stack_top\<close> is the end of the freshly boxed stack.\<close>

definition spawn_cooperative ::
  "u64 \<Rightarrow> string \<Rightarrow> priority \<Rightarrow> u64 \<Rightarrow> coop_state \<Rightarrow> mem \<Rightarrow> bool \<times> coop_state \<times> mem" where
  "spawn_cooperative stack_top name p entry st m =
     (case position Option.is_none (coop_tasks st) of
        None \<Rightarrow> (False, st, m)
      | Some i \<Rightarrow>
          (case spawn (coop_table st) name p 0 of
             (None, _) \<Rightarrow> (False, st, m)
           | (Some new_pid, table) \<Rightarrow>
               let (saved_rsp, m') = prepare_initial_stack stack_top entry m;
                   task = \<lparr>ct_priority = p, ct_done = False, ct_saved_rsp = saved_rsp, ct_pid = new_pid\<rparr>
               in (True, st\<lparr>coop_tasks := (coop_tasks st)[i := Some task], coop_table := table\<rparr>, m')))"

fun coop_scan :: "coop_task option list \<Rightarrow> nat list \<Rightarrow> nat option \<Rightarrow> nat option" where
  "coop_scan ts [] best = best"
| "coop_scan ts (i # ids) best =
     (case ts ! i of
        None \<Rightarrow> coop_scan ts ids best
      | Some task \<Rightarrow>
          if \<not> ct_done task \<and>
             (case best of None \<Rightarrow> True
              | Some b \<Rightarrow> priority_u8 (ct_priority task) < priority_u8 (ct_priority (the (ts ! b))))
          then coop_scan ts ids (Some i) else coop_scan ts ids best)"

text \<open>The \<^verbatim>\<open>ps\<close> table update for the outgoing and the incoming task.\<close>

definition coop_sync_out :: "coop_task option list \<Rightarrow> nat option \<Rightarrow> native_agent_scheduler \<Rightarrow> native_agent_scheduler" where
  "coop_sync_out ts from tbl =
     (case from of None \<Rightarrow> tbl
      | Some i \<Rightarrow> (case ts ! i of None \<Rightarrow> tbl
          | Some task \<Rightarrow> if \<not> ct_done task then update_process tbl (ct_pid task) Ready (ct_saved_rsp task) else tbl))"

definition coop_sync_in :: "coop_task option list \<Rightarrow> nat option \<Rightarrow> native_agent_scheduler \<Rightarrow> native_agent_scheduler outcome" where
  "coop_sync_in ts best tbl =
     (case best of None \<Rightarrow> Ok tbl
      | Some i \<Rightarrow> (case ts ! i of None \<Rightarrow> Panic
          | Some task \<Rightarrow> Ok (update_process tbl (ct_pid task) Running (ct_saved_rsp task))))"

definition yield_now :: "u64 \<Rightarrow> coop_state \<Rightarrow> (u64 option \<times> coop_state) outcome" where
  "yield_now rsp_now st =
     (let ts = coop_tasks st;
          best = coop_scan ts [0..<MAX_COOP_TASKS] None;
          from = coop_current st
      in if best = from then Ok (None, st)
         else
           obind (coop_sync_in ts best (coop_sync_out ts from (coop_table st))) (\<lambda>tbl.
           obind (case best of None \<Rightarrow> Ok (coop_kernel_rsp st)
                  | Some i \<Rightarrow> (case ts ! i of None \<Rightarrow> Panic | Some task \<Rightarrow> Ok (ct_saved_rsp task))) (\<lambda>new_rsp.
             let st1 = st\<lparr>coop_table := tbl, coop_current := best\<rparr> in
             case from of
               None \<Rightarrow> Ok (Some new_rsp, st1\<lparr>coop_kernel_rsp := rsp_now\<rparr>)
             | Some i \<Rightarrow> (case ts ! i of None \<Rightarrow> Panic
                 | Some task \<Rightarrow> Ok (Some new_rsp,
                     st1\<lparr>coop_tasks := ts[i := Some (task\<lparr>ct_saved_rsp := rsp_now\<rparr>)]\<rparr>)))))"

definition finish_current_task :: "u64 \<Rightarrow> coop_state \<Rightarrow> (u64 \<times> coop_state) outcome" where
  "finish_current_task rsp_now st =
     obind (case coop_current st of
              None \<Rightarrow> Ok st
            | Some i \<Rightarrow> (case coop_tasks st ! i of
                None \<Rightarrow> Panic
              | Some task \<Rightarrow> Ok (st\<lparr>coop_tasks := (coop_tasks st)[i := Some (task\<lparr>ct_done := True\<rparr>)],
                  coop_table := update_process (coop_table st) (ct_pid task) Terminated (ct_saved_rsp task)\<rparr>)))
       (\<lambda>st1. obind (yield_now rsp_now st1) (\<lambda>(r, st2).
          case r of None \<Rightarrow> Panic | Some new_rsp \<Rightarrow> Ok (new_rsp, st2)))"

section \<open>Stack frames\<close>

text \<open>The frame \<open>switch_to\<close> leaves on a stack: six registers and the return address.\<close>

definition frame_at :: "mem \<Rightarrow> u64 \<Rightarrow> cpu \<Rightarrow> u64 \<Rightarrow> bool" where
  "frame_at m f c ret \<longleftrightarrow>
     read_u64 m f = r15 c \<and> read_u64 m (f + 8) = r14 c \<and> read_u64 m (f + 16) = r13 c
     \<and> read_u64 m (f + 24) = r12 c \<and> read_u64 m (f + 32) = rbx c \<and> read_u64 m (f + 40) = rbp c
     \<and> read_u64 m (f + 48) = ret"

text \<open>A frame of seven words is apart from the word at \<open>a\<close>, or from seven words at \<open>a\<close>.\<close>

definition frame_apart_word :: "u64 \<Rightarrow> u64 \<Rightarrow> bool" where
  "frame_apart_word f a \<longleftrightarrow> (\<forall>i\<in>{0, 8, 16, 24, 32, 40, 48}. apart 8 (f + i) a)"

definition frames_apart :: "u64 \<Rightarrow> u64 \<Rightarrow> bool" where
  "frames_apart f g \<longleftrightarrow> (\<forall>i\<in>{0, 8, 16, 24, 32, 40}. frame_apart_word f (g + i))"

lemma read_write_frame:
  assumes "frame_apart_word f a"
  shows "frame_at (write_u64 m a v) f c ret = frame_at m f c ret"
  using assms by (simp add: frame_apart_word_def frame_at_def read_write_apart)

definition saved_stack :: "cpu \<Rightarrow> mem \<Rightarrow> mem" where
  "saved_stack c m =
     write_u64 (write_u64 (write_u64 (write_u64 (write_u64 (write_u64 m
       (rsp c - 8) (rbp c)) (rsp c - 16) (rbx c)) (rsp c - 24) (r12 c))
       (rsp c - 32) (r13 c)) (rsp c - 40) (r14 c)) (rsp c - 48) (r15 c)"

lemma switch_to_eq:
  "switch_to old new (c, m) =
     (let m' = write_u64 (saved_stack c m) old (rsp c - 48)
      in (c\<lparr>rsp := new + 56, r15 := read_u64 m' new, r14 := read_u64 m' (new + 8),
           r13 := read_u64 m' (new + 16), r12 := read_u64 m' (new + 24),
           rbx := read_u64 m' (new + 32), rbp := read_u64 m' (new + 40),
           rip := read_u64 m' (new + 48)\<rparr>, m'))"
  by (simp add: switch_to_def push_def pop_def saved_stack_def Let_def algebra_simps)

lemma saved_stack_frame: "frame_at (saved_stack c m) (rsp c - 48) c (read_u64 m (rsp c))"
proof -
  have "apart 8 (rsp c - a) (rsp c - b)"
    if "a \<in> {0, 8, 16, 24, 32, 40, 48}" "b \<in> {0, 8, 16, 24, 32, 40, 48}" "a \<noteq> b" for a b
    using that by (auto simp: apart_def)
  moreover have "apart 8 (rsp c) (rsp c - b)" if "b \<in> {8, 16, 24, 32, 40, 48}" for b
    using that by (auto simp: apart_def)
  ultimately show ?thesis
    by (simp add: frame_at_def saved_stack_def read_write_apart)
qed

lemma saved_stack_other:
  assumes "frames_apart f (rsp c - 48)"
  shows "frame_at (saved_stack c m) f d ret = frame_at m f d ret"
  using assms by (simp add: frames_apart_def saved_stack_def read_write_frame)

text \<open>What a switch leaves behind, and what it restores.\<close>

lemma switch_to_saves:
  assumes "frame_apart_word (rsp c - 48) old"
  shows "frame_at (snd (switch_to old new (c, m))) (rsp c - 48) c (read_u64 m (rsp c))
     \<and> read_u64 (snd (switch_to old new (c, m))) old = rsp c - 48"
  using assms saved_stack_frame by (simp add: switch_to_eq Let_def read_write_frame)

lemma switch_to_restores:
  assumes "frame_at m f d ret" and "frames_apart f (rsp c - 48)" and "frame_apart_word f old"
  shows "fst (switch_to old f (c, m)) = d\<lparr>rsp := f + 56, rip := ret\<rparr>"
proof -
  have "frame_at (write_u64 (saved_stack c m) old (rsp c - 48)) f d ret"
    using assms by (simp add: read_write_frame saved_stack_other)
  then show ?thesis
    by (simp add: switch_to_eq Let_def frame_at_def)
qed

lemma and_not_f_aligned: "16 dvd unat ((a :: u64) AND NOT 0xf)"
proof -
  have "NOT 0xf = (NOT (mask 4) :: u64)" by (simp add: mask_numeral)
  then have "a AND NOT 0xf = push_bit 4 (drop_bit 4 a)"
    by (simp add: bit_eq_iff) (auto simp: bit_simps)
  then have "unat (a AND NOT 0xf) = unat (drop_bit 4 a) * 16 mod 18446744073709551616"
    by (simp add: push_bit_eq_mult unat_word_ariths)
  then show ?thesis by (simp add: dvd_mod_iff)
qed

lemma minus_8_aligned:
  assumes "16 dvd unat (x :: u64)"
  shows "unat (x - 8) mod 16 = 8"
proof -
  have "(16 :: int) dvd uint x" using assms by (metis of_nat_numeral int_dvd_int_iff uint_nat)
  then have "uint (x - 8) mod 16 = 8" by (simp add: uint_word_ariths mod_mod_cancel) presburger
  then have "int (unat (x - 8) mod 16) = int 8" by (simp add: of_nat_mod)
  then show ?thesis by (simp only: of_nat_eq_iff)
qed

lemma prepare_initial_stack_frame:
  assumes "prepare_initial_stack stack_top entry m = (sp, m')"
  shows "frame_at m' sp \<lparr>rsp = sp + 56, rbp = 0, rbx = 0, r12 = 0, r13 = 0, r14 = 0, r15 = 0, rip = entry\<rparr> entry
     \<and> sp + 56 = (stack_top AND NOT 0xf) - 8"
proof -
  define t where "t = (stack_top AND NOT 0xf) - 8"
  have sp: "sp = t - 56" and m': "m' = saved_stack
      \<lparr>rsp = t - 8, rbp = 0, rbx = 0, r12 = 0, r13 = 0, r14 = 0, r15 = 0, rip = 0\<rparr> (write_u64 m (t - 8) entry)"
    using assms by (auto simp: prepare_initial_stack_def saved_stack_def numeral_eq_Suc t_def Let_def algebra_simps)
  from saved_stack_frame
    [of "\<lparr>rsp = t - 8, rbp = 0, rbx = 0, r12 = 0, r13 = 0, r14 = 0, r15 = 0, rip = 0\<rparr>" "write_u64 m (t - 8) entry"]
  show ?thesis unfolding sp m' t_def [symmetric] by (simp add: frame_at_def)
qed

section \<open>The cooperative scheduler\<close>

text \<open>A task seen as an entry of the process table: ready until it is done.\<close>

definition as_pcb :: "coop_task \<Rightarrow> process_control_block" where
  "as_pcb t = (pcb_new (ct_pid t) [] (ct_priority t) 0)\<lparr>pstate := if ct_done t then Terminated else Ready\<rparr>"

lemma as_pcb_simps [simp]:
  "pstate (as_pcb t) = Ready \<longleftrightarrow> \<not> ct_done t" "prio (as_pcb t) = ct_priority t"
  by (simp_all add: as_pcb_def pcb_new_def)

lemma coop_scan_eq:
  assumes "\<And>b. best = Some b \<Longrightarrow> ts ! b \<noteq> None" and "i \<le> length ts"
  shows "coop_scan ts [i..<length ts] best =
    best_scan i (map (map_option as_pcb) (drop i ts)) best
      (case best of None \<Rightarrow> 99 | Some b \<Rightarrow> priority_u8 (ct_priority (the (ts ! b))))"
  using assms
proof (induction "length ts - i" arbitrary: i best)
  case (Suc n)
  then have i: "i < length ts" by simp
  then have drop: "drop i ts = ts ! i # drop (Suc i) ts" by (simp add: Cons_nth_drop_Suc)
  have upt: "[i..<length ts] = i # [Suc i..<length ts]" using i by (simp add: upt_conv_Cons)
  have IH: "coop_scan ts [Suc i..<length ts] b =
    best_scan (Suc i) (map (map_option as_pcb) (drop (Suc i) ts)) b
      (case b of None \<Rightarrow> 99 | Some b \<Rightarrow> priority_u8 (ct_priority (the (ts ! b))))"
    if "\<And>x. b = Some x \<Longrightarrow> ts ! x \<noteq> None" for b
    using Suc.hyps(1) [of "Suc i" b] Suc.hyps(2) i that by simp
  show ?case
  proof (cases "ts ! i")
    case None
    then show ?thesis using IH [of best] Suc.prems(1) by (simp add: upt drop)
  next
    case (Some t)
    then show ?thesis
      using IH [of best] IH [of "Some i"] Suc.prems(1)
      by (cases best) (auto simp: upt drop priority_u8_bound)
  qed
qed simp

definition coop_slots :: "coop_state \<Rightarrow> process_control_block option list" where
  "coop_slots st = map (map_option as_pcb) (coop_tasks st)"

lemma coop_scan_best:
  assumes "length (coop_tasks st) = 4"
  shows "coop_scan (coop_tasks st) [0..<4] None = Some i \<longleftrightarrow> best_slot (coop_slots st) i"
    and "coop_scan (coop_tasks st) [0..<4] None = None \<longleftrightarrow> (\<forall>j. \<not> ready_slot (coop_slots st) j)"
  using coop_scan_eq [of None "coop_tasks st" 0] assms best_scan_correct [of "coop_slots st"]
  by (simp_all add: coop_slots_def)

text \<open>What \<^verbatim>\<open>ps\<close> ought to show for the task in slot \<open>i\<close>.\<close>

definition shown_state :: "nat option \<Rightarrow> nat \<Rightarrow> coop_task \<Rightarrow> process_state" where
  "shown_state cur i t = (if ct_done t then Terminated else if cur = Some i then Running else Ready)"

definition ps_in_sync :: "coop_state \<Rightarrow> bool" where
  "ps_in_sync st \<longleftrightarrow> (\<forall>i<4. \<forall>t. coop_tasks st ! i = Some t \<longrightarrow>
     map_option pstate (process_of (coop_table st) (ct_pid t)) = Some (shown_state (coop_current st) i t))"

definition coop_inv :: "coop_state \<Rightarrow> bool" where
  "coop_inv st \<longleftrightarrow> length (coop_tasks st) = MAX_COOP_TASKS
     \<and> (\<forall>i. coop_current st = Some i \<longrightarrow> i < 4 \<and> coop_tasks st ! i \<noteq> None)
     \<and> (\<forall>i<4. \<forall>j<4. \<forall>t u. coop_tasks st ! i = Some t \<longrightarrow> coop_tasks st ! j = Some u \<longrightarrow>
          ct_pid t = ct_pid u \<longrightarrow> i = j)
     \<and> ps_in_sync st"

lemma best_slot_task:
  assumes "length (coop_tasks (st :: coop_state)) = 4" and "coop_scan (coop_tasks st) [0..<4] None = Some b"
  shows "\<exists>t. b < 4 \<and> coop_tasks st ! b = Some t \<and> \<not> ct_done t"
  using assms coop_scan_best(1) [OF assms(1), of b]
  by (auto simp: best_slot_def ready_slot_def coop_slots_def)

text \<open>The table after both updates: only the outgoing and the incoming task change.\<close>

lemma coop_sync_tables:
  assumes inv: "coop_inv st" and scan: "coop_scan (coop_tasks st) [0..<4] None = best"
    and ne: "best \<noteq> coop_current st"
  shows "\<exists>tbl. coop_sync_in (coop_tasks st) best (coop_sync_out (coop_tasks st) (coop_current st) (coop_table st)) = Ok tbl
     \<and> (\<forall>i<4. \<forall>t. coop_tasks st ! i = Some t \<longrightarrow>
          map_option pstate (process_of tbl (ct_pid t)) = Some (shown_state best i t))"
proof -
  let ?ts = "coop_tasks st" and ?from = "coop_current st"
  let ?out = "coop_sync_out ?ts ?from (coop_table st)"
  have len: "length ?ts = 4" using inv by (simp add: coop_inv_def)
  have uniq: "i = j" if "i < 4" "j < 4" "?ts ! i = Some t" "?ts ! j = Some u" "ct_pid t = ct_pid u" for i j t u
    using inv that unfolding coop_inv_def by blast
  have from_ok: "j < 4 \<and> ?ts ! j \<noteq> None" if "?from = Some j" for j
    using inv that by (simp add: coop_inv_def)
  have out: "map_option pstate (process_of ?out (ct_pid t)) = Some (shown_state None i t)"
    if t: "i < 4" "?ts ! i = Some t" for i t
  proof (cases "\<exists>j. ?from = Some j")
    case True
    then obtain j u where j: "?from = Some j" "j < 4" "?ts ! j = Some u" using from_ok by blast
    have old: "map_option pstate (process_of (coop_table st) (ct_pid v)) = Some (shown_state ?from k v)"
      if "k < 4" "?ts ! k = Some v" for k v
      using inv that by (simp add: coop_inv_def ps_in_sync_def)
    show ?thesis
    proof (cases "i = j")
      case True
      then have "t = u" using t j by simp
      then show ?thesis using old [OF t] True j
        by (auto simp: coop_sync_out_def process_of_updates(1) shown_state_def)
    next
      case False
      then have "ct_pid t \<noteq> ct_pid u" using uniq [OF t(1) j(2) t(2) j(3)] by blast
      then show ?thesis using old [OF t] False j
        by (auto simp: coop_sync_out_def process_of_updates(1) shown_state_def split: if_splits)
    qed
  next
    case False
    then show ?thesis
      using inv t by (auto simp: coop_inv_def ps_in_sync_def coop_sync_out_def)
  qed
  show ?thesis
  proof (cases best)
    case None
    then show ?thesis using out by (simp add: coop_sync_in_def)
  next
    case (Some b)
    then obtain tb where b: "b < 4" "?ts ! b = Some tb" "\<not> ct_done tb"
      using best_slot_task [OF len] scan by auto
    have "map_option pstate (process_of (update_process ?out (ct_pid tb) Running sp) (ct_pid t))
        = Some (shown_state (Some b) i t)" if "i < 4" "?ts ! i = Some t" for i t sp
    proof (cases "i = b")
      case True
      then have "t = tb" using that b by simp
      then show ?thesis using out [OF that] True b
        by (auto simp: process_of_updates(1) shown_state_def)
    next
      case False
      then have "ct_pid t \<noteq> ct_pid tb" using uniq [OF that(1) b(1) that(2) b(2)] by blast
      then show ?thesis using out [OF that] False
        by (auto simp: process_of_updates(1) shown_state_def split: if_splits)
    qed
    then show ?thesis using Some b by (simp add: coop_sync_in_def)
  qed
qed

lemma yield_now_effect:
  assumes inv: "coop_inv st"
  shows "\<exists>r st'. yield_now sp st = Ok (r, st') \<and> coop_inv st'
     \<and> coop_current st' = coop_scan (coop_tasks st) [0..<4] None
     \<and> (r = None \<longleftrightarrow> coop_current st' = coop_current st) \<and> (r = None \<longrightarrow> st' = st)
     \<and> (\<forall>x. r = Some x \<longrightarrow> x = (case coop_current st' of None \<Rightarrow> coop_kernel_rsp st
            | Some i \<Rightarrow> ct_saved_rsp (the (coop_tasks st ! i)))
          \<and> coop_kernel_rsp st' = (if coop_current st = None then sp else coop_kernel_rsp st)
          \<and> coop_tasks st' = (case coop_current st of None \<Rightarrow> coop_tasks st
              | Some i \<Rightarrow> (coop_tasks st)[i := map_option (ct_saved_rsp_update (\<lambda>_. sp)) (coop_tasks st ! i)]))"
proof (cases "coop_scan (coop_tasks st) [0..<4] None = coop_current st")
  case True
  then show ?thesis using inv by (simp add: yield_now_def)
next
  case False
  let ?ts = "coop_tasks st" and ?from = "coop_current st" and ?best = "coop_scan (coop_tasks st) [0..<4] None"
  obtain tbl where tbl: "coop_sync_in ?ts ?best (coop_sync_out ?ts ?from (coop_table st)) = Ok tbl"
    and sync: "\<And>i t. i < 4 \<Longrightarrow> ?ts ! i = Some t \<Longrightarrow>
       map_option pstate (process_of tbl (ct_pid t)) = Some (shown_state ?best i t)"
    using coop_sync_tables [OF inv refl False] by blast
  have len: "length ?ts = 4" using inv by (simp add: coop_inv_def)
  have best: "b < 4 \<and> (\<exists>t. ?ts ! b = Some t)" if "?best = Some b" for b
    using best_slot_task [OF len that] by blast
  show ?thesis
  proof (cases ?from)
    case None
    let ?st = "st\<lparr>coop_table := tbl, coop_current := ?best, coop_kernel_rsp := sp\<rparr>"
    have "coop_inv ?st" using inv best sync by (auto simp: coop_inv_def ps_in_sync_def)
    moreover obtain b where "?best = Some b" using False None by auto
    ultimately show ?thesis
      using None tbl best [of b] False by (auto simp: yield_now_def Let_def)
  next
    case (Some i)
    then obtain ti where ti: "i < 4" "?ts ! i = Some ti" using inv by (auto simp: coop_inv_def)
    let ?t = "ti\<lparr>ct_saved_rsp := sp\<rparr>"
    let ?st = "st\<lparr>coop_table := tbl, coop_current := ?best, coop_tasks := ?ts[i := Some ?t]\<rparr>"
    have task: "\<exists>u. ?ts ! k = Some u \<and> ct_pid t = ct_pid u \<and> ct_done t = ct_done u"
      if "k < 4" "?ts[i := Some ?t] ! k = Some t" for k t
      using that ti len by (cases "k = i") auto
    have "ps_in_sync ?st"
      unfolding ps_in_sync_def using sync task by (fastforce simp: shown_state_def)
    moreover have "\<forall>k<4. \<forall>j<4. \<forall>t u. ?ts[i := Some ?t] ! k = Some t \<longrightarrow> ?ts[i := Some ?t] ! j = Some u \<longrightarrow>
        ct_pid t = ct_pid u \<longrightarrow> k = j"
      using inv task unfolding coop_inv_def by metis
    moreover have "\<forall>b. ?best = Some b \<longrightarrow> b < 4 \<and> ?ts[i := Some ?t] ! b \<noteq> None"
      using best ti len by (auto simp: nth_list_update)
    ultimately have "coop_inv ?st" using len by (simp add: coop_inv_def)
    then show ?thesis
      using Some tbl best ti False by (cases ?best) (auto simp: yield_now_def Let_def)
  qed
qed

lemma mark_done_inv:
  assumes inv: "coop_inv st" and cur: "coop_current st = Some i" and ti: "coop_tasks st ! i = Some ti"
  shows "coop_inv (st\<lparr>coop_tasks := (coop_tasks st)[i := Some (ti\<lparr>ct_done := True\<rparr>)],
     coop_table := update_process (coop_table st) (ct_pid ti) Terminated sp\<rparr>)" (is "coop_inv ?st")
proof -
  let ?ts = "(coop_tasks st)[i := Some (ti\<lparr>ct_done := True\<rparr>)]"
  have len: "length (coop_tasks st) = 4" and i: "i < 4" using inv cur by (simp_all add: coop_inv_def)
  have task: "\<exists>u. coop_tasks st ! k = Some u \<and> ct_pid t = ct_pid u
      \<and> (if k = i then ct_done t else t = u)" if "k < 4" "?ts ! k = Some t" for k t
    using that ti len i by (cases "k = i") auto
  have uniq: "k = i" if "k < 4" "coop_tasks st ! k = Some u" "ct_pid u = ct_pid ti" for k u
    using inv that i ti unfolding coop_inv_def by blast
  have sync: "map_option pstate (process_of (coop_table st) (ct_pid u)) = Some (shown_state (Some i) k u)"
    if "k < 4" "coop_tasks st ! k = Some u" for k u
    using inv that cur by (simp add: coop_inv_def ps_in_sync_def)
  have "map_option pstate (process_of (coop_table ?st) (ct_pid t)) = Some (shown_state (Some i) k t)"
    if "k < 4" "?ts ! k = Some t" for k t
  proof (cases "k = i")
    case True
    then have "t = ti\<lparr>ct_done := True\<rparr>" using that len i by simp
    then show ?thesis using sync [OF i ti] by (auto simp: process_of_updates(1) shown_state_def)
  next
    case False
    then have u: "coop_tasks st ! k = Some t" using that(2) by simp
    then have "ct_pid t \<noteq> ct_pid ti" using uniq [OF that(1)] False by blast
    then show ?thesis using sync [OF that(1) u] by (simp add: process_of_updates(1))
  qed
  then have "ps_in_sync ?st" using cur by (simp add: ps_in_sync_def)
  moreover have "\<forall>k<4. \<forall>j<4. \<forall>t u. ?ts ! k = Some t \<longrightarrow> ?ts ! j = Some u \<longrightarrow> ct_pid t = ct_pid u \<longrightarrow> k = j"
    using inv task unfolding coop_inv_def by metis
  ultimately show ?thesis using len i cur by (simp add: coop_inv_def)
qed

text \<open>Spawning keeps the invariant and the table in step.\<close>

lemma spawn_cooperative_inv:
  assumes inv: "coop_inv st" and tbl: "sched_inv (coop_table st)"
    and sp: "spawn_cooperative top nm p entry st m = (b, st', m')"
  shows "coop_inv st' \<and> sched_inv (coop_table st')
     \<and> (if b then \<exists>i<4. coop_tasks st ! i = None
          \<and> coop_tasks st' = (coop_tasks st)[i := coop_tasks st' ! i] \<and> coop_tasks st' ! i \<noteq> None
        else st' = st \<and> m' = m)"
proof (cases "\<exists>i new. position Option.is_none (coop_tasks st) = Some i
    \<and> fst (spawn (coop_table st) nm p 0) = Some new")
  case True
  then obtain i new where pos: "position Option.is_none (coop_tasks st) = Some i"
    and new: "fst (spawn (coop_table st) nm p 0) = Some new" by blast
  let ?tbl = "snd (spawn (coop_table st) nm p 0)"
  have len: "length (coop_tasks st) = 4" using inv by (simp add: coop_inv_def)
  have i: "i < 4" "coop_tasks st ! i = None"
    using position_SomeD [OF pos] len by (auto simp: Option.is_none_def)
  obtain rsp0 m0 where prep: "prepare_initial_stack top entry m = (rsp0, m0)" by (metis prod.exhaust)
  let ?t = "\<lparr>ct_priority = p, ct_done = False, ct_saved_rsp = rsp0, ct_pid = new\<rparr>"
  have b: "b" and st': "st' = st\<lparr>coop_tasks := (coop_tasks st)[i := Some ?t], coop_table := ?tbl\<rparr>"
    using sp pos new prep by (auto simp: spawn_cooperative_def Let_def split: prod.splits option.splits)
  have none: "process_of (coop_table st) new = None" using process_of_spawn [OF tbl new] by simp
  have old: "map_option pstate (process_of (coop_table st) (ct_pid u)) = Some (shown_state (coop_current st) k u)"
    if "k < 4" "coop_tasks st ! k = Some u" for k u
    using inv that by (simp add: coop_inv_def ps_in_sync_def)
  then have fresh: "ct_pid u \<noteq> new" if "k < 4" "coop_tasks st ! k = Some u" for k u
    using that none by fastforce
  have "coop_current st = Some i \<longrightarrow> coop_tasks st ! i \<noteq> None"
    using inv unfolding coop_inv_def by blast
  then have cur: "coop_current st \<noteq> Some i" using i by blast
  note psp = process_of_spawn [OF tbl new]
  have "map_option pstate (process_of ?tbl (ct_pid t)) = Some (shown_state (coop_current st) k t)"
    if "k < 4" "(coop_tasks st)[i := Some ?t] ! k = Some t" for k t
  proof (cases "k = i")
    case True
    then have "t = ?t" using that i len by simp
    then show ?thesis using psp cur True by (simp add: shown_state_def pcb_new_def)
  next
    case False
    then have t: "coop_tasks st ! k = Some t" using that(2) by simp
    then show ?thesis using psp old [OF that(1) t] fresh [OF that(1) t] by simp
  qed
  then have "ps_in_sync st'" by (simp add: ps_in_sync_def st')
  moreover have "\<forall>k<4. \<forall>j<4. \<forall>t u. coop_tasks st' ! k = Some t \<longrightarrow> coop_tasks st' ! j = Some u \<longrightarrow>
      ct_pid t = ct_pid u \<longrightarrow> k = j"
  proof (intro allI impI)
    fix k j t u
    assume a: "k < 4" "j < 4" "coop_tasks st' ! k = Some t" "coop_tasks st' ! j = Some u" "ct_pid t = ct_pid u"
    have dist: "k = j" if "coop_tasks st ! k = Some t" "coop_tasks st ! j = Some u"
      using inv a that unfolding coop_inv_def by blast
    show "k = j"
      using a fresh [OF a(1)] fresh [OF a(2)] dist i len
      by (cases "k = i"; cases "j = i") (auto simp: st')
  qed
  moreover have "\<forall>k. coop_current st' = Some k \<longrightarrow> k < 4 \<and> coop_tasks st' ! k \<noteq> None"
  proof (intro allI impI)
    fix k
    assume "coop_current st' = Some k"
    then have "coop_current st = Some k" by (simp add: st')
    then have "k < 4 \<and> coop_tasks st ! k \<noteq> None" using inv unfolding coop_inv_def by blast
    then show "k < 4 \<and> coop_tasks st' ! k \<noteq> None" using len i by (cases "k = i") (auto simp: st')
  qed
  ultimately have "coop_inv st'" using len by (simp add: coop_inv_def st')
  moreover have "sched_inv (coop_table st')"
    using sched_inv_step [OF tbl, of "OpSpawn nm p 0"] by (simp add: st')
  ultimately show ?thesis using b i len by (auto simp: st')
next
  case False
  then show ?thesis
    using inv tbl sp by (auto simp: spawn_cooperative_def split: option.splits prod.splits)
qed

lemma not_best_self:
  assumes "length (coop_tasks (st :: coop_state)) = 4" and "coop_tasks st ! i = Some t" and "ct_done t" and "i < 4"
  shows "coop_scan (coop_tasks st) [0..<4] None \<noteq> Some i"
  using best_slot_task [OF assms(1), of i] assms by auto

section \<open>Properties\<close>

text \<open>
  C20: a context switch is lossless. A context switched away from resumes, whenever some later
  context switches to the stack pointer that was stored for it, with its own six callee-saved
  registers, at the return address of its own call to \<open>switch_to\<close> and with the stack pointer just
  above it, provided its seven-word frame was not overwritten in between (neither by the programs
  running meanwhile, \<open>frame_at\<close> at the later memory, nor by the later context's own frame).
\<close>

theorem switch_to_roundtrip:
  assumes "frame_apart_word (rsp c - 48) old" and "(c1, m1) = switch_to old new (c, m)"
    and "frame_at m1 (rsp c - 48) c ret \<longrightarrow> frame_at m2 (rsp c - 48) c ret"
    and "ret = read_u64 m (rsp c)" and "saved = read_u64 m1 old"
    and "frames_apart (rsp c - 48) (rsp c2 - 48)" and "frame_apart_word (rsp c - 48) old2"
  shows "fst (switch_to old2 saved (c2, m2)) = c\<lparr>rsp := rsp c + 8, rip := read_u64 m (rsp c)\<rparr>"
proof -
  have m1: "m1 = snd (switch_to old new (c, m))" using assms(2) by (metis snd_conv)
  note s = switch_to_saves [OF assms(1), of new m]
  have saved: "saved = rsp c - 48" using s assms(5) m1 by simp
  have "frame_at m2 (rsp c - 48) c ret" using s assms(3,4) m1 by simp
  from switch_to_restores [OF this assms(6,7)] show ?thesis using saved assms(4) by simp
qed

theorem switch_to_roundtrip_witness:
  "\<exists>c m c1 m1. (c1, m1) = switch_to 0x500 0x3000 (c, m) \<and> rsp c = 0x2000 \<and> rbx c = 5 \<and>
     fst (switch_to 0x508 (read_u64 m1 0x500) (c1\<lparr>rsp := 0x8000\<rparr>, m1)) =
       c\<lparr>rsp := rsp c + 8, rip := read_u64 m (rsp c)\<rparr>"
proof -
  define c where "c = \<lparr>rsp = 0x2000, rbp = 1, rbx = 5, r12 = 2, r13 = 3, r14 = 4, r15 = 6, rip = 0\<rparr>"
  define m :: mem where "m = (\<lambda>_. 7)"
  obtain c1 m1 where s: "(c1, m1) = switch_to 0x500 0x3000 (c, m)" by (metis prod.exhaust)
  have "frame_apart_word (rsp c - 48) 0x500" "frame_apart_word (rsp c - 48) 0x508"
    "frames_apart (rsp c - 48) (rsp (c1\<lparr>rsp := 0x8000\<rparr>) - 48)"
    by (simp_all add: c_def frame_apart_word_def frames_apart_def apart_def)
  then have "fst (switch_to 0x508 (read_u64 m1 0x500) (c1\<lparr>rsp := 0x8000\<rparr>, m1)) =
       c\<lparr>rsp := rsp c + 8, rip := read_u64 m (rsp c)\<rparr>"
    using switch_to_roundtrip [OF _ s, of "read_u64 m (rsp c)" m1 "read_u64 m1 0x500"] by simp
  then show ?thesis using s by (intro exI [of _ c] exI [of _ m] exI conjI) (auto simp: c_def)
qed

text \<open>
  The first switch to a prepared stack starts the task at its entry point with all
  callee-saved registers zero and a stack pointer that is 8 modulo 16, the alignment the System V
  ABI guarantees on function entry, whatever the alignment of the stack memory.
\<close>

theorem prepare_initial_stack_entry:
  assumes "prepare_initial_stack stack_top entry m = (sp, m')"
    and "frames_apart sp (rsp c - 48)" and "frame_apart_word sp old"
  shows "fst (switch_to old sp (c, m')) =
      \<lparr>rsp = (stack_top AND NOT 0xf) - 8, rbp = 0, rbx = 0, r12 = 0, r13 = 0, r14 = 0, r15 = 0, rip = entry\<rparr>
    \<and> unat (rsp (fst (switch_to old sp (c, m')))) mod 16 = 8"
proof -
  note f = prepare_initial_stack_frame [OF assms(1)]
  have eq: "fst (switch_to old sp (c, m')) =
      \<lparr>rsp = (stack_top AND NOT 0xf) - 8, rbp = 0, rbx = 0, r12 = 0, r13 = 0, r14 = 0, r15 = 0, rip = entry\<rparr>"
    using switch_to_restores [OF conjunct1 [OF f] assms(2,3)] f by simp
  show ?thesis unfolding eq using minus_8_aligned [OF and_not_f_aligned] by simp
qed

theorem prepare_initial_stack_entry_witness:
  "\<exists>sp m'. prepare_initial_stack 0x4003 0xABC (\<lambda>_. 1) = (sp, m') \<and>
     unat (rsp (fst (switch_to 0x500 sp (\<lparr>rsp = 0x9000, rbp = 1, rbx = 1, r12 = 1, r13 = 1, r14 = 1,
       r15 = 1, rip = 1\<rparr>, m')))) mod 16 = 8"
proof -
  obtain sp m' where p: "prepare_initial_stack 0x4003 0xABC (\<lambda>_. 1) = (sp, m')" by (metis prod.exhaust)
  have "sp + 56 = 0x3FF8" using prepare_initial_stack_frame [OF p] by simp
  then have sp: "sp = 0x3FC0" by (simp add: eq_diff_eq [symmetric])
  show ?thesis
    using prepare_initial_stack_entry [OF p, of "\<lparr>rsp = 0x9000, rbp = 1, rbx = 1, r12 = 1, r13 = 1, r14 = 1,
       r15 = 1, rip = 1\<rparr>" "0x500"] p
    by (simp add: sp frame_apart_word_def frames_apart_def apart_def)
qed

text \<open>
  A cooperative yield never panics; it continues the not-finished task of the best priority
  (the lowest slot among equals), from the stack pointer stored when that task was last switched
  away from, or the kernel context when every task is finished; it stores the outgoing stack
  pointer in the outgoing slot only, is a plain return exactly when the running context is still
  the best one, and keeps the process table showing the running task as \<open>Running\<close>, finished ones
  as \<open>Terminated\<close> and all others as \<open>Ready\<close>.
\<close>

theorem yield_now_correct:
  assumes "coop_inv st"
  shows "\<exists>r st'. yield_now sp st = Ok (r, st') \<and> coop_inv st'
     \<and> (\<forall>i. coop_current st' = Some i \<longleftrightarrow> best_slot (coop_slots st) i)
     \<and> (coop_current st' = None \<longleftrightarrow> (\<forall>j. \<not> ready_slot (coop_slots st) j))
     \<and> (r = None \<longleftrightarrow> coop_current st' = coop_current st) \<and> (r = None \<longrightarrow> st' = st)
     \<and> (\<forall>x. r = Some x \<longrightarrow> x = (case coop_current st' of None \<Rightarrow> coop_kernel_rsp st
            | Some i \<Rightarrow> ct_saved_rsp (the (coop_tasks st ! i)))
          \<and> coop_kernel_rsp st' = (if coop_current st = None then sp else coop_kernel_rsp st)
          \<and> coop_tasks st' = (case coop_current st of None \<Rightarrow> coop_tasks st
              | Some i \<Rightarrow> (coop_tasks st)[i := map_option (ct_saved_rsp_update (\<lambda>_. sp)) (coop_tasks st ! i)]))"
proof -
  have "length (coop_tasks st) = 4" using assms by (simp add: coop_inv_def)
  note scan = coop_scan_best [OF this]
  show ?thesis using yield_now_effect [OF assms, of sp] unfolding scan [symmetric] by auto
qed

text \<open>Two tasks, the first one running.\<close>

definition demo_coop :: coop_state where
  "demo_coop = \<lparr>coop_tasks = [Some \<lparr>ct_priority = High, ct_done = False, ct_saved_rsp = 0x100, ct_pid = 1\<rparr>,
       Some \<lparr>ct_priority = Normal, ct_done = False, ct_saved_rsp = 0x200, ct_pid = 2\<rparr>, None, None],
     coop_current = Some 0, coop_kernel_rsp = 0x300,
     coop_table = update_process (snd (spawn (snd (spawn sched_new ''a'' High 0)) ''b'' Normal 0)) 1 Running 0x100\<rparr>"

lemma demo_coop_inv: "coop_inv demo_coop"
proof -
  have "map_option pstate (process_of (coop_table demo_coop) 1) = Some Running"
    "map_option pstate (process_of (coop_table demo_coop) 2) = Some Ready" by code_simp+
  then show ?thesis
    unfolding coop_inv_def ps_in_sync_def
    by (auto simp: demo_coop_def shown_state_def numeral_eq_Suc less_Suc_eq)
qed

theorem yield_now_correct_witness:
  "\<exists>r st'. yield_now 0x400 demo_coop = Ok (r, st') \<and> coop_inv st'"
  using yield_now_correct [OF demo_coop_inv, of "0x400"] by blast

text \<open>
  A finishing task never returns to itself: \<open>finish_current_task\<close> always switches away (the
  \<^verbatim>\<open>unreachable!\<close> is unreachable), the task is shown as terminated and the switch goes to another
  task or to the kernel.
\<close>

theorem finish_current_task_switches:
  assumes inv: "coop_inv st" and cur: "coop_current st = Some i"
  shows "\<exists>x st'. finish_current_task sp st = Ok (x, st') \<and> coop_inv st'
     \<and> coop_current st' \<noteq> Some i \<and> ct_done (the (coop_tasks st' ! i))"
proof -
  obtain ti where ti: "i < 4" "coop_tasks st ! i = Some ti" using inv cur by (auto simp: coop_inv_def)
  have len: "length (coop_tasks st) = 4" using inv by (simp add: coop_inv_def)
  let ?st = "st\<lparr>coop_tasks := (coop_tasks st)[i := Some (ti\<lparr>ct_done := True\<rparr>)],
     coop_table := update_process (coop_table st) (ct_pid ti) Terminated (ct_saved_rsp ti)\<rparr>"
  have inv': "coop_inv ?st" by (rule mark_done_inv [OF inv cur ti(2)])
  have ne: "coop_scan (coop_tasks ?st) [0..<4] None \<noteq> Some i"
    by (rule not_best_self [of _ _ "ti\<lparr>ct_done := True\<rparr>"]) (use len ti in simp_all)
  obtain r st' where y: "yield_now sp ?st = Ok (r, st')" "coop_inv st'"
    "coop_current st' = coop_scan (coop_tasks ?st) [0..<4] None" "r = None \<longleftrightarrow> coop_current st' = Some i"
    "\<And>x. r = Some x \<Longrightarrow> coop_tasks st' =
       (coop_tasks ?st)[i := map_option (ct_saved_rsp_update (\<lambda>_. sp)) (coop_tasks ?st ! i)]"
    using yield_now_effect [OF inv', of sp] cur by auto
  then obtain x where x: "r = Some x" using ne by auto
  have "ct_done (the (coop_tasks st' ! i))" using y(5) [OF x] len ti by simp
  then show ?thesis using y ne x cur ti by (simp add: finish_current_task_def)
qed

theorem finish_current_task_switches_witness:
  "\<exists>x st'. finish_current_task 0x400 demo_coop = Ok (x, st') \<and> coop_current st' \<noteq> Some 0"
  using finish_current_task_switches [OF demo_coop_inv, of 0 "0x400"] by (auto simp: demo_coop_def)

end
