(* ===== verification/Preemptive.thy ===== *)
theory Preemptive
  imports Context_Switch Tier_Select
begin

text \<open>
  Model of \<^verbatim>\<open>scheduler/preemptive.rs\<close>: two ring-0 tasks switched by the timer for a budget of
  ticks. The static variables are a record. \<open>preempt_tick\<close> is the whole handler; its arguments are
  whether the tick interrupted ring 3, whether \<^verbatim>\<open>SCHEDULER.try_lock()\<close> got the lock, and the stack
  pointer that \<^verbatim>\<open>switch_to\<close> stores for the interrupted context; it returns the stack pointer to
  continue from, or none when it returns without a switch.
\<close>

section \<open>Definitions\<close>

record preempt_task =
  pt_saved_rsp :: u64
  pt_priority :: priority
  pt_pid :: u32

record preempt_state =
  pre_enabled :: bool
  pre_tasks :: "preempt_task option list"
  pre_current :: "nat option"
  pre_idle_rsp :: u64
  pre_ticks_remaining :: u64
  pre_counters :: "u64 list"
  pre_table :: native_agent_scheduler

fun top_priority :: "preempt_task option list \<Rightarrow> nat list \<Rightarrow> u8 option \<Rightarrow> u8 option" where
  "top_priority ts [] best = best"
| "top_priority ts (i # ids) best =
     (case ts ! i of
        None \<Rightarrow> top_priority ts ids best
      | Some task \<Rightarrow> let p = priority_u8 (pt_priority task) in
          top_priority ts ids (Some (case best of None \<Rightarrow> p | Some cur \<Rightarrow> min cur p)))"

fun first_at :: "preempt_task option list \<Rightarrow> u8 \<Rightarrow> nat list \<Rightarrow> nat option" where
  "first_at ts tp [] = None"
| "first_at ts tp (i # ids) =
     (case ts ! i of
        Some task \<Rightarrow> if priority_u8 (pt_priority task) = tp then Some i else first_at ts tp ids
      | None \<Rightarrow> first_at ts tp ids)"

text \<open>The choice of the next task while the budget lasts.\<close>

definition pick_next :: "preempt_task option list \<Rightarrow> nat option \<Rightarrow> nat option" where
  "pick_next ts from =
     (case top_priority ts [0, 1] None of
        None \<Rightarrow> None
      | Some tp \<Rightarrow>
          let start = (case from of Some i \<Rightarrow> (i + 1) mod 2 | None \<Rightarrow> 0)
          in first_at ts tp (map (\<lambda>offset. (start + offset) mod 2) [0, 1]))"

definition pre_sync :: "bool \<Rightarrow> preempt_task option list \<Rightarrow> nat option \<Rightarrow> nat option \<Rightarrow>
    native_agent_scheduler \<Rightarrow> native_agent_scheduler" where
  "pre_sync lock_free ts from nxt tbl =
     (if \<not> lock_free then tbl
      else
        let tbl1 = (case from of None \<Rightarrow> tbl
              | Some i \<Rightarrow> (case ts ! i of None \<Rightarrow> tbl
                  | Some t \<Rightarrow> update_process tbl (pt_pid t) Ready (pt_saved_rsp t)))
        in (case nxt of None \<Rightarrow> tbl1
              | Some i \<Rightarrow> (case ts ! i of None \<Rightarrow> tbl1
                  | Some t \<Rightarrow> update_process tbl1 (pt_pid t) Running (pt_saved_rsp t))))"

definition preempt_tick :: "bool \<Rightarrow> bool \<Rightarrow> u64 \<Rightarrow> preempt_state \<Rightarrow> (u64 option \<times> preempt_state) outcome" where
  "preempt_tick interrupted_ring3 lock_free rsp_now st0 =
     (if \<not> pre_enabled st0 \<or> interrupted_ring3 then Ok (None, st0)
      else
        let remaining = (if pre_ticks_remaining st0 = 0 then 0 else pre_ticks_remaining st0 - 1);
            st1 = st0\<lparr>pre_ticks_remaining := remaining\<rparr>;
            from = pre_current st1;
            ts = pre_tasks st1;
            st2 = (if remaining = 0 then st1\<lparr>pre_enabled := False\<rparr> else st1);
            nxt = (if remaining = 0 then None else pick_next ts from)
        in if nxt = from then Ok (None, st2)
           else
             let st3 = st2\<lparr>pre_table := pre_sync lock_free ts from nxt (pre_table st2)\<rparr> in
             obind (case nxt of None \<Rightarrow> Ok (pre_idle_rsp st3)
                    | Some i \<Rightarrow> (case ts ! i of None \<Rightarrow> Panic | Some t \<Rightarrow> Ok (pt_saved_rsp t))) (\<lambda>new_rsp.
               let st4 = st3\<lparr>pre_current := nxt\<rparr> in
               case from of
                 None \<Rightarrow> Ok (Some new_rsp, st4\<lparr>pre_idle_rsp := rsp_now\<rparr>)
               | Some i \<Rightarrow> (case ts ! i of None \<Rightarrow> Panic
                   | Some t \<Rightarrow> Ok (Some new_rsp, st4\<lparr>pre_tasks := ts[i := Some (t\<lparr>pt_saved_rsp := rsp_now\<rparr>)]\<rparr>))))"

text \<open>\<open>tops\<close> are the ends of the two boxed stacks, \<open>entries\<close> the task entry points.\<close>

definition start_demo :: "u64 \<times> u64 \<Rightarrow> u64 \<times> u64 \<Rightarrow> u64 \<Rightarrow> priority \<Rightarrow> priority \<Rightarrow>
    preempt_state \<Rightarrow> mem \<Rightarrow> (preempt_state \<times> mem) outcome" where
  "start_demo tops entries ticks priority0 priority1 st m =
     (case spawn (pre_table st) ''preempt-task-0'' priority0 0 of
        (None, _) \<Rightarrow> Panic
      | (Some pid0, tbl0) \<Rightarrow>
          (case spawn tbl0 ''preempt-task-1'' priority1 0 of
             (None, _) \<Rightarrow> Panic
           | (Some pid1, tbl1) \<Rightarrow>
               let (rsp0, m0) = prepare_initial_stack (fst tops) (fst entries) m;
                   (rsp1, m1) = prepare_initial_stack (snd tops) (snd entries) m0;
                   t0 = \<lparr>pt_saved_rsp = rsp0, pt_priority = priority0, pt_pid = pid0\<rparr>;
                   t1 = \<lparr>pt_saved_rsp = rsp1, pt_priority = priority1, pt_pid = pid1\<rparr>
               in Ok (st\<lparr>pre_tasks := [Some t0, Some t1], pre_ticks_remaining := ticks,
                         pre_table := tbl1, pre_enabled := True\<rparr>, m1)))"

definition ticks_remaining :: "preempt_state \<Rightarrow> u64" where
  "ticks_remaining st = pre_ticks_remaining st"

definition task_counters :: "preempt_state \<Rightarrow> u64 \<times> u64" where
  "task_counters st = (pre_counters st ! 0, pre_counters st ! 1)"

text \<open>One round of the endless loop of task \<open>i\<close>.\<close>

definition preempt_task_round :: "nat \<Rightarrow> preempt_state \<Rightarrow> preempt_state" where
  "preempt_task_round i st = st\<lparr>pre_counters := (pre_counters st)[i := pre_counters st ! i + 1]\<rparr>"

text \<open>The part of \<^verbatim>\<open>wait_for_demo_and_cleanup\<close> after its waiting loop has ended.\<close>

fun retire_all :: "preempt_task option list \<Rightarrow> native_agent_scheduler \<Rightarrow> native_agent_scheduler" where
  "retire_all [] tbl = tbl"
| "retire_all (None # ts) tbl = retire_all ts tbl"
| "retire_all (Some t # ts) tbl = retire_all ts (update_process tbl (pt_pid t) Terminated (pt_saved_rsp t))"

definition demo_cleanup :: "preempt_state \<Rightarrow> (u64 \<times> u64) \<times> preempt_state" where
  "demo_cleanup st =
     (task_counters st,
      st\<lparr>pre_tasks := replicate (length (pre_tasks st)) None,
        pre_table := retire_all (pre_tasks st) (pre_table st)\<rparr>)"

section \<open>The choice is the shared policy\<close>

text \<open>A choice function of the shape of \<open>select_next\<close>, for two slots with tasks of given priorities.\<close>

definition slot_task :: "u8 \<Rightarrow> preempt_task option" where
  "slot_task p = Some \<lparr>pt_saved_rsp = 0, pt_priority =
     (if p = 0 then KernelCritical else if p = 1 then High else if p = 2 then Normal else Background), pt_pid = 0\<rparr>"

definition pick_pair :: "nat \<Rightarrow> nat \<Rightarrow> u8 list \<Rightarrow> bool list \<Rightarrow> nat outcome" where
  "pick_pair n cur prios finished =
     (case pick_next [slot_task (prios ! 0), slot_task (prios ! 1)] (Some cur) of
        Some i \<Rightarrow> Ok i | None \<Rightarrow> Panic)"

definition pair_valid :: "nat \<Rightarrow> u8 list \<Rightarrow> bool list \<Rightarrow> bool" where
  "pair_valid n prios finished \<longleftrightarrow> n = 2 \<and> finished ! 0 = False \<and> finished ! 1 = False
     \<and> prios ! 0 \<le> 3 \<and> prios ! 1 \<le> 3"

lemma u8_le_3: "(p :: u8) \<le> 3 \<longleftrightarrow> p = 0 \<or> p = 1 \<or> p = 2 \<or> p = 3"
proof -
  have "unat p \<le> 3 \<longleftrightarrow> unat p = 0 \<or> unat p = 1 \<or> unat p = 2 \<or> unat p = 3" by linarith
  then show ?thesis by (simp add: word_le_nat_alt word_unat_eq_iff)
qed

lemma slot_task_prio: "p \<le> 3 \<Longrightarrow> \<exists>t. slot_task p = Some t \<and> priority_u8 (pt_priority t) = p"
  by (auto simp: slot_task_def u8_le_3)

lemma pick_next_pair:
  assumes "ts = [Some t0, Some t1]" and "from = Some i" and "i < 2"
  shows "pick_next ts from = Some (
    if priority_u8 (pt_priority t0) < priority_u8 (pt_priority t1) then 0
    else if priority_u8 (pt_priority t1) < priority_u8 (pt_priority t0) then 1 else 1 - i)"
  using assms by (auto simp: pick_next_def less_2_cases_iff Let_def min_def not_less)

interpretation pair: tier_policy pick_pair pair_valid
proof
  fix n i cur :: nat and prios :: "u8 list" and finished :: "bool list"
  assume v: "pair_valid n prios finished" and "i < n" and cur: "cur < n"
  then have n: "n = 2" and f: "\<not> finished ! 0" "\<not> finished ! 1"
    and p: "prios ! 0 \<le> 3" "prios ! 1 \<le> 3" by (auto simp: pair_valid_def)
  obtain t0 t1 where t: "slot_task (prios ! 0) = Some t0" "slot_task (prios ! 1) = Some t1"
    "priority_u8 (pt_priority t0) = prios ! 0" "priority_u8 (pt_priority t1) = prios ! 1"
    using slot_task_prio p by metis
  have c: "cur = 0 \<or> cur = 1" using cur n by auto
  have pk: "pick_pair n cur prios finished = Ok (if prios ! 0 < prios ! 1 then 0
      else if prios ! 1 < prios ! 0 then 1 else 1 - cur)"
    using pick_next_pair [OF refl refl, of cur t0 t1] cur n t by (simp add: pick_pair_def)
  have tt: "top_tier n prios finished j \<longleftrightarrow> j < 2 \<and> prios ! j \<le> prios ! 0 \<and> prios ! j \<le> prios ! 1" for j
    using f by (auto simp: top_tier_def n less_2_cases_iff)
  let ?d = "if prios ! 0 < prios ! 1 then (if cur = 0 then 1 else 0)
      else if prios ! 1 < prios ! 0 then (if cur = 0 then 0 else 1) else (0 :: nat)"
  have "?d < n \<and> pick_pair n cur prios finished = Ok ((cur + 1 + ?d) mod n)
       \<and> top_tier n prios finished ((cur + 1 + ?d) mod n)
       \<and> (\<forall>e<?d. \<not> top_tier n prios finished ((cur + 1 + e) mod n))"
    unfolding pk tt using c by (auto simp: n not_less not_le numeral_2_eq_2 mod_Suc)
  then show "\<exists>d<n. pick_pair n cur prios finished = Ok ((cur + 1 + d) mod n)
       \<and> top_tier n prios finished ((cur + 1 + d) mod n)
       \<and> (\<forall>e<d. \<not> top_tier n prios finished ((cur + 1 + e) mod n))" by blast
qed

text \<open>The contract of \<open>tier_policy\<close> determines the slot, so both choice functions agree.\<close>

lemma first_hit_unique:
  fixes d d' :: nat
  assumes "x = (c + d) mod n \<and> P x \<and> (\<forall>e<d. \<not> P ((c + e) mod n))"
    and "y = (c + d') mod n \<and> P y \<and> (\<forall>e<d'. \<not> P ((c + e) mod n))"
  shows "x = y"
  using assms by (metis linorder_neqE_nat)

lemma pick_pair_select_next:
  assumes "prios ! 0 \<le> 3" and "prios ! 1 \<le> 3" and "length prios = 2" and "cur < 2"
  shows "pick_pair 2 cur prios [False, False] = select_next 2 cur prios [False, False]"
proof -
  obtain d where d: "pick_pair 2 cur prios [False, False] = Ok ((cur + 1 + d) mod 2)"
    "top_tier 2 prios [False, False] ((cur + 1 + d) mod 2)"
    "\<forall>e<d. \<not> top_tier 2 prios [False, False] ((cur + 1 + e) mod 2)"
    using pair.pick_next [of 2 prios "[False, False]" 0 cur] assms by (auto simp: pair_valid_def)
  obtain d' where d': "select_next 2 cur prios [False, False] = Ok ((cur + 1 + d') mod 2)"
    "top_tier 2 prios [False, False] ((cur + 1 + d') mod 2)"
    "\<forall>e<d'. \<not> top_tier 2 prios [False, False] ((cur + 1 + e) mod 2)"
    using ts.pick_next [of 2 prios "[False, False]" 0 cur] assms by auto
  show ?thesis
    using first_hit_unique [of _ "cur + 1" d 2 "top_tier 2 prios [False, False]" _ d'] d d' by simp
qed

section \<open>Runs of the timer\<close>

definition pre_inv :: "preempt_state \<Rightarrow> bool" where
  "pre_inv st \<longleftrightarrow> (\<exists>t0 t1. pre_tasks st = [Some t0, Some t1]) \<and> (\<forall>i. pre_current st = Some i \<longrightarrow> i < 2)"

lemma pick_next_range:
  assumes "ts = [Some t0, Some t1]" and "\<And>i. from = Some i \<Longrightarrow> i < 2"
  shows "\<exists>k<2. pick_next ts from = Some k \<and> (\<exists>t. ts ! k = Some t
     \<and> priority_u8 (pt_priority t) \<le> priority_u8 (pt_priority t0)
     \<and> priority_u8 (pt_priority t) \<le> priority_u8 (pt_priority t1))"
proof (cases "from")
  case None
  then show ?thesis using assms(1) by (auto simp: pick_next_def Let_def min_def not_le)
next
  case (Some i)
  then show ?thesis
    using pick_next_pair [OF assms(1) Some] assms(1) assms(2) [OF Some]
    by (auto simp: less_2_cases_iff not_less)
qed

text \<open>
  A ring-0 tick with budget left: the task of the best priority is chosen, its stored stack
  pointer is returned unless it already runs, and only the outgoing slot is written.
\<close>

lemma preempt_tick_effect:
  assumes inv: "pre_inv st" and en: "pre_enabled st"
  shows "\<exists>r st'. preempt_tick False lk sp st = Ok (r, st') \<and> pre_inv st'
     \<and> pre_ticks_remaining st' = (if pre_ticks_remaining st = 0 then 0 else pre_ticks_remaining st - 1)
     \<and> pre_enabled st' = (1 < pre_ticks_remaining st)
     \<and> pre_current st' = (if 1 < pre_ticks_remaining st then pick_next (pre_tasks st) (pre_current st) else None)
     \<and> (r = None \<longleftrightarrow> pre_current st' = pre_current st)
     \<and> (r = None \<longrightarrow> pre_tasks st' = pre_tasks st \<and> pre_idle_rsp st' = pre_idle_rsp st)
     \<and> (\<forall>x. r = Some x \<longrightarrow> x = (case pre_current st' of None \<Rightarrow> pre_idle_rsp st
            | Some i \<Rightarrow> pt_saved_rsp (the (pre_tasks st ! i)))
          \<and> pre_idle_rsp st' = (if pre_current st = None then sp else pre_idle_rsp st)
          \<and> pre_tasks st' = (case pre_current st of None \<Rightarrow> pre_tasks st
              | Some i \<Rightarrow> (pre_tasks st)[i := map_option (pt_saved_rsp_update (\<lambda>_. sp)) (pre_tasks st ! i)]))"
proof -
  obtain t0 t1 where ts: "pre_tasks st = [Some t0, Some t1]" using inv by (auto simp: pre_inv_def)
  have cur: "i < 2" if "pre_current st = Some i" for i using inv that by (simp add: pre_inv_def)
  obtain k where k: "k < 2" "pick_next (pre_tasks st) (pre_current st) = Some k"
    using pick_next_range [OF ts, of "pre_current st"] cur by blast
  have rem: "(if pre_ticks_remaining st = 0 then 0 else pre_ticks_remaining st - 1) = 0
      \<longleftrightarrow> \<not> 1 < pre_ticks_remaining st" (is "?rem = 0 \<longleftrightarrow> _")
  proof -
    have "unat (pre_ticks_remaining st - 1) = unat (pre_ticks_remaining st) - 1" if "pre_ticks_remaining st \<noteq> 0"
      using that by (simp add: unat_minus_one)
    then show ?thesis by (auto simp: word_unat_eq_iff word_less_nat_alt)
  qed
  show ?thesis
    using k cur ts en rem
    by (cases "pre_current st"; cases "?rem = 0")
      (auto simp: preempt_tick_def Let_def pre_inv_def less_2_cases_iff split: if_splits)
qed

record timer_event =
  te_ring3 :: bool
  te_lock_free :: bool
  te_rsp :: u64

fun run_ticks :: "timer_event list \<Rightarrow> preempt_state \<Rightarrow> preempt_state outcome" where
  "run_ticks [] st = Ok st"
| "run_ticks (e # es) st =
     obind (preempt_tick (te_ring3 e) (te_lock_free e) (te_rsp e) st) (\<lambda>(r, st'). run_ticks es st')"

definition ring0_ticks :: "timer_event list \<Rightarrow> nat" where
  "ring0_ticks es = length (filter (\<lambda>e. \<not> te_ring3 e) es)"

lemma tick_disabled: "\<not> pre_enabled st \<Longrightarrow> preempt_tick b lk sp st = Ok (None, st)"
  by (simp add: preempt_tick_def)

lemma run_ticks_disabled: "\<not> pre_enabled st \<Longrightarrow> run_ticks es st = Ok st"
  by (induction es) (simp_all add: tick_disabled)

lemma unat_dec:
  "(w :: u64) \<noteq> 0 \<Longrightarrow> unat (w - 1) = unat w - 1" "1 < w \<longleftrightarrow> 1 < unat (w :: u64)"
  by (simp_all add: unat_minus_one word_less_nat_alt)

lemma run_ticks_budget:
  assumes "pre_inv st" and "pre_enabled st" and "pre_ticks_remaining st \<noteq> 0"
  shows "\<exists>st'. run_ticks es st = Ok st' \<and> pre_inv st'
     \<and> pre_enabled st' = (ring0_ticks es < unat (pre_ticks_remaining st))
     \<and> unat (pre_ticks_remaining st') = unat (pre_ticks_remaining st) - ring0_ticks es
     \<and> (\<not> pre_enabled st' \<longrightarrow> pre_current st' = None)"
  using assms
proof (induction es arbitrary: st)
  case Nil
  then show ?case by (simp add: ring0_ticks_def unat_gt_0)
next
  case (Cons e es)
  show ?case
  proof (cases "te_ring3 e")
    case True
    then have "preempt_tick (te_ring3 e) (te_lock_free e) (te_rsp e) st = Ok (None, st)"
      by (simp add: preempt_tick_def)
    then show ?thesis using Cons.IH [OF Cons.prems] True by (simp add: ring0_ticks_def)
  next
    case False
    obtain r st1 where t: "preempt_tick (te_ring3 e) (te_lock_free e) (te_rsp e) st = Ok (r, st1)"
      "pre_inv st1" "pre_ticks_remaining st1 = pre_ticks_remaining st - 1"
      "pre_enabled st1 = (1 < pre_ticks_remaining st)"
      "\<not> pre_enabled st1 \<Longrightarrow> pre_current st1 = None"
      using preempt_tick_effect [OF Cons.prems(1,2), of "te_lock_free e" "te_rsp e"] Cons.prems(3) False
      by auto
    have rem: "unat (pre_ticks_remaining st1) = unat (pre_ticks_remaining st) - 1"
      using t(3) Cons.prems(3) by (simp add: unat_dec)
    have pos: "0 < unat (pre_ticks_remaining st)" using Cons.prems(3) by (simp add: unat_gt_0)
    have cnt: "ring0_ticks (e # es) = Suc (ring0_ticks es)" using False by (simp add: ring0_ticks_def)
    show ?thesis
    proof (cases "pre_enabled st1")
      case True
      then have "1 < unat (pre_ticks_remaining st)" using t(4) by (simp add: unat_dec)
      then have "pre_ticks_remaining st1 \<noteq> 0" using rem by (metis unat_0 zero_less_diff not_less_zero)
      from Cons.IH [OF t(2) True this] show ?thesis using t(1) rem cnt pos by auto
    next
      case False
      then have "unat (pre_ticks_remaining st) = 1" using t(4) pos by (simp add: unat_dec)
      then show ?thesis
        using run_ticks_disabled [OF False, of es] t rem cnt False by auto
    qed
  qed
qed

lemma retire_all_state:
  assumes "Some t \<in> set ts" and "process_of tbl (pt_pid t) \<noteq> None"
  shows "map_option pstate (process_of (retire_all ts tbl) (pt_pid t)) = Some Terminated"
proof -
  have keep: "map_option pstate (process_of (retire_all ts tbl) p) = Some Terminated"
    if "map_option pstate (process_of tbl p) = Some Terminated" for p tbl ts
    using that
  proof (induction ts tbl rule: retire_all.induct)
    case (3 t ts tbl)
    then show ?case by (cases "p = pt_pid t") (auto simp: process_of_updates(1))
  qed simp_all
  show ?thesis
    using assms
  proof (induction ts tbl rule: retire_all.induct)
    case (3 u ts tbl)
    show ?case
    proof (cases "u = t")
      case True
      then show ?thesis using 3 keep [of "update_process tbl (pt_pid t) Terminated (pt_saved_rsp t)" "pt_pid t" ts]
        by (auto simp: process_of_updates(1))
    next
      case False
      then show ?thesis using 3 by (cases "pt_pid t = pt_pid u") (auto simp: process_of_updates(1))
    qed
  qed simp_all
qed

section \<open>Properties\<close>

text \<open>
  C19: the budget of the demo counts exactly the ring-0 ticks. However ring-0 and ring-3 ticks
  are interleaved and whenever the table lock is free, no tick panics; after \<open>k\<close> ring-0 ticks the
  remaining budget is the initial one minus \<open>k\<close> (not below zero), switching stays enabled while
  \<open>k\<close> is smaller than the budget, and once the budget is used up it is disabled with the kernel
  context current, so the wait for the end of the demo ends.
\<close>

theorem preempt_budget:
  assumes "pre_inv st" and "pre_enabled st" and "ticks_remaining st \<noteq> 0"
  shows "\<exists>st'. run_ticks es st = Ok st'
     \<and> (pre_enabled st' \<longleftrightarrow> ring0_ticks es < unat (ticks_remaining st))
     \<and> unat (ticks_remaining st') = unat (ticks_remaining st) - ring0_ticks es
     \<and> (\<not> pre_enabled st' \<longrightarrow> pre_current st' = None)"
  using run_ticks_budget [of st es] assms unfolding ticks_remaining_def by blast

definition demo_pre :: preempt_state where
  "demo_pre = \<lparr>pre_enabled = True,
     pre_tasks = [Some \<lparr>pt_saved_rsp = 1, pt_priority = Normal, pt_pid = 1\<rparr>,
                  Some \<lparr>pt_saved_rsp = 2, pt_priority = Normal, pt_pid = 2\<rparr>],
     pre_current = None, pre_idle_rsp = 0, pre_ticks_remaining = 50, pre_counters = [0, 0],
     pre_table = sched_new\<rparr>"

theorem preempt_budget_witness:
  "\<exists>st'. run_ticks (replicate 50 \<lparr>te_ring3 = False, te_lock_free = False, te_rsp = 3\<rparr>) demo_pre = Ok st'
     \<and> \<not> pre_enabled st' \<and> pre_current st' = None"
  using preempt_budget [of demo_pre "replicate 50 \<lparr>te_ring3 = False, te_lock_free = False, te_rsp = 3\<rparr>"]
  by (auto simp: demo_pre_def pre_inv_def ticks_remaining_def ring0_ticks_def)

text \<open>
  One tick switches correctly. While the budget lasts and both tasks exist, the tick chooses
  the task \<open>select_next\<close> chooses for the two priorities (the kernel context starts with the best
  task of the lowest slot); it returns the stack pointer stored for that task, or the idle one
  when the budget ends, stores the interrupted stack pointer only in the outgoing slot, and
  switches exactly when the choice is not the running context.
\<close>

theorem preempt_tick_switches:
  assumes "pre_inv st" and "pre_enabled st" and "pre_tasks st = [Some t0, Some t1]"
    and "prios = [priority_u8 (pt_priority t0), priority_u8 (pt_priority t1)]"
  shows "\<exists>r st'. preempt_tick False lk sp st = Ok (r, st')
     \<and> (1 < pre_ticks_remaining st \<longrightarrow> (case pre_current st of
           Some i \<Rightarrow> \<exists>k. pre_current st' = Some k \<and> select_next 2 i prios [False, False] = Ok k
         | None \<Rightarrow> pre_current st' = Some (if prios ! 1 < prios ! 0 then 1 else 0)))
     \<and> (\<not> 1 < pre_ticks_remaining st \<longrightarrow> pre_current st' = None)
     \<and> (r = None \<longleftrightarrow> pre_current st' = pre_current st)
     \<and> (\<forall>x. r = Some x \<longrightarrow> x = (case pre_current st' of None \<Rightarrow> pre_idle_rsp st
            | Some i \<Rightarrow> pt_saved_rsp (the (pre_tasks st ! i)))
          \<and> pre_tasks st' = (case pre_current st of None \<Rightarrow> pre_tasks st
              | Some i \<Rightarrow> (pre_tasks st)[i := map_option (pt_saved_rsp_update (\<lambda>_. sp)) (pre_tasks st ! i)]))"
proof -
  have p3: "priority_u8 p \<le> 3" for p by (cases p) simp_all
  have sel: "\<exists>k. pick_next (pre_tasks st) (Some i) = Some k \<and> select_next 2 i prios [False, False] = Ok k"
    if "i < 2" for i
  proof -
    obtain u0 u1 where u: "slot_task (prios ! 0) = Some u0" "slot_task (prios ! 1) = Some u1"
      "priority_u8 (pt_priority u0) = prios ! 0" "priority_u8 (pt_priority u1) = prios ! 1"
      using slot_task_prio [of "prios ! 0"] slot_task_prio [of "prios ! 1"] p3 assms(4) by auto
    have "pick_pair 2 i prios [False, False] = select_next 2 i prios [False, False]"
      by (rule pick_pair_select_next) (use assms(4) p3 that in simp_all)
    moreover have "pick_next [Some u0, Some u1] (Some i) = pick_next (pre_tasks st) (Some i)"
      unfolding pick_next_pair [OF assms(3) refl that] pick_next_pair [OF refl refl that]
      using u(3,4) assms(4) by simp
    moreover have "\<exists>k. pick_next (pre_tasks st) (Some i) = Some k"
      using pick_next_pair [OF assms(3) refl that] by blast
    ultimately show ?thesis using u(1,2) by (auto simp: pick_pair_def)
  qed
  have none: "pick_next (pre_tasks st) None = Some (if prios ! 1 < prios ! 0 then 1 else 0)"
    using assms(3,4) by (auto simp: pick_next_def Let_def min_def not_le)
  have cur: "i < 2" if "pre_current st = Some i" for i using assms(1) that by (simp add: pre_inv_def)
  obtain r st' where "preempt_tick False lk sp st = Ok (r, st')"
    "pre_current st' = (if 1 < pre_ticks_remaining st then pick_next (pre_tasks st) (pre_current st) else None)"
    "r = None \<longleftrightarrow> pre_current st' = pre_current st"
    "\<forall>x. r = Some x \<longrightarrow> x = (case pre_current st' of None \<Rightarrow> pre_idle_rsp st
            | Some i \<Rightarrow> pt_saved_rsp (the (pre_tasks st ! i)))
          \<and> pre_idle_rsp st' = (if pre_current st = None then sp else pre_idle_rsp st)
          \<and> pre_tasks st' = (case pre_current st of None \<Rightarrow> pre_tasks st
              | Some i \<Rightarrow> (pre_tasks st)[i := map_option (pt_saved_rsp_update (\<lambda>_. sp)) (pre_tasks st ! i)])"
    using preempt_tick_effect [OF assms(1,2), of lk sp] by blast
  then show ?thesis
    using sel cur none by (intro exI [of _ r] exI [of _ st']) (auto split: option.splits)
qed

theorem preempt_tick_switches_witness:
  "\<exists>r st'. preempt_tick False True 9 demo_pre = Ok (r, st') \<and> pre_current st' = Some 0"
  using preempt_tick_switches [of demo_pre "\<lparr>pt_saved_rsp = 1, pt_priority = Normal, pt_pid = 1\<rparr>"
      "\<lparr>pt_saved_rsp = 2, pt_priority = Normal, pt_pid = 2\<rparr>" "[2, 2]" True 9]
  by (auto simp: demo_pre_def pre_inv_def)

end
