(* ===== verification/Fat_Common.thy ===== *)
theory Fat_Common
  imports Prelude
begin

text \<open>
  Model of \<^verbatim>\<open>partition.rs\<close> (the MBR partition table) and \<^verbatim>\<open>fat_common.rs\<close> (the directory entry
  format shared by FAT12 and FAT32): the VFAT checksum, the reconstruction of long names entry by
  entry, short names, name matching and the parser of a directory sector. A Rust string is the
  list of its character codes; all names of this kernel are ASCII, one byte per character.
\<close>

section \<open>Definitions: partition table\<close>

record partition_entry =
  bootable :: bool
  partition_type :: u8
  start_lba :: u32
  sector_count :: u32

definition partition_type_name :: "u8 \<Rightarrow> string" where
  "partition_type_name t =
     (if t = 0x00 then ''empty'' else if t = 0x01 then ''FAT12''
      else if t = 0x04 \<or> t = 0x06 \<or> t = 0x0E then ''FAT16''
      else if t = 0x0B \<or> t = 0x0C then ''FAT32''
      else if t = 0x07 then ''NTFS/exFAT'' else if t = 0x82 then ''Linux swap''
      else if t = 0x83 then ''Linux'' else if t = 0xEE then ''GPT protective'' else ''unknown'')"

definition parse_mbr_entry :: "bytes \<Rightarrow> partition_entry" where
  "parse_mbr_entry raw =
     \<lparr>bootable = (raw ! 0 = 0x80), partition_type = raw ! 4,
      start_lba = le32 (raw ! 8) (raw ! 9) (raw ! 10) (raw ! 11),
      sector_count = le32 (raw ! 12) (raw ! 13) (raw ! 14) (raw ! 15)\<rparr>"

definition parse_mbr :: "bytes \<Rightarrow> partition_entry list" where
  "parse_mbr sector = map (\<lambda>i. parse_mbr_entry (sub sector (446 + i * 16) 16)) [0..<4]"

section \<open>Definitions: directory entries\<close>

record dir_entry =
  de_name :: bytes
  de_is_dir :: bool
  de_size :: u32
  de_start_cluster :: u32
  de_fat_time :: u16
  de_fat_date :: u16

definition lfn_checksum :: "bytes \<Rightarrow> u8" where
  "lfn_checksum short_name = fold (\<lambda>b acc. word_rotr 1 acc + b) short_name 0"

record lfn_state =
  lfn_chunks :: "u16 list list"
  lfn_sum :: u8

definition lfn_default :: lfn_state where
  "lfn_default = \<lparr>lfn_chunks = [], lfn_sum = 0\<rparr>"

definition push_long_entry :: "bytes \<Rightarrow> lfn_state \<Rightarrow> lfn_state" where
  "push_long_entry raw st =
     (let chars = map (\<lambda>i. le16 (raw ! (1 + i * 2)) (raw ! (2 + i * 2))) [0..<5]
            @ map (\<lambda>i. le16 (raw ! (14 + i * 2)) (raw ! (15 + i * 2))) [0..<6]
            @ map (\<lambda>i. le16 (raw ! (28 + i * 2)) (raw ! (29 + i * 2))) [0..<2];
          st1 = (if raw ! 0 AND 0x40 \<noteq> 0 then \<lparr>lfn_chunks = [], lfn_sum = raw ! 13\<rparr> else st)
      in st1\<lparr>lfn_chunks := lfn_chunks st1 @ [chars]\<rparr>)"

text \<open>Decoding stops at the first zero code; each code is narrowed to a byte.\<close>

definition decode_lfn_chunk :: "u16 list \<Rightarrow> bytes" where
  "decode_lfn_chunk chars = map ucast (takeWhile (\<lambda>c. c \<noteq> 0) chars)"

definition take_verified :: "bytes \<Rightarrow> lfn_state \<Rightarrow> bytes option \<times> lfn_state" where
  "take_verified short_name_bytes st =
     ((if lfn_chunks st \<noteq> [] \<and> lfn_sum st = lfn_checksum short_name_bytes
       then Some (concat (map decode_lfn_chunk (rev (lfn_chunks st)))) else None),
      st\<lparr>lfn_chunks := []\<rparr>)"

definition lfn_reset :: "lfn_state \<Rightarrow> lfn_state" where
  "lfn_reset st = st\<lparr>lfn_chunks := []\<rparr>"

definition format_short_name :: "bytes \<Rightarrow> bytes \<Rightarrow> bytes" where
  "format_short_name name ext =
     (let s = takeWhile (\<lambda>b. b \<noteq> 0x20) name;
          ext_len = length (takeWhile (\<lambda>b. b \<noteq> 0x20) ext)
      in if 0 < ext_len then s @ [0x2E] @ take ext_len ext else s)"

definition to_ascii_uppercase :: "u8 \<Rightarrow> u8" where
  "to_ascii_uppercase b = (if 0x61 \<le> b \<and> b \<le> 0x7A then b - 0x20 else b)"

definition to_ascii_lowercase :: "u8 \<Rightarrow> u8" where
  "to_ascii_lowercase b = (if 0x41 \<le> b \<and> b \<le> 0x5A then b + 0x20 else b)"

definition eq_ignore_ascii_case :: "bytes \<Rightarrow> bytes \<Rightarrow> bool" where
  "eq_ignore_ascii_case a b \<longleftrightarrow> map to_ascii_lowercase a = map to_ascii_lowercase b"

text \<open>The fields both the listing and the search read out of a raw short entry.\<close>

definition raw_dir_entry :: "bytes \<Rightarrow> bytes \<Rightarrow> dir_entry" where
  "raw_dir_entry name raw =
     (let hi = (ucast (le16 (raw ! 20) (raw ! 21)) :: u32);
          lo = ucast (le16 (raw ! 26) (raw ! 27))
      in \<lparr>de_name = name, de_is_dir = (raw ! 11 AND 0x10 \<noteq> 0),
          de_size = le32 (raw ! 28) (raw ! 29) (raw ! 30) (raw ! 31),
          de_start_cluster = push_bit 16 hi OR lo,
          de_fat_time = le16 (raw ! 22) (raw ! 23), de_fat_date = le16 (raw ! 24) (raw ! 25)\<rparr>)"

definition short_entry_if_matches :: "bytes \<Rightarrow> lfn_state \<Rightarrow> bytes \<Rightarrow> dir_entry option \<times> lfn_state" where
  "short_entry_if_matches raw lfn target_name =
     (let (long_name, lfn') = take_verified (sub raw 0 11) lfn;
          short_name = format_short_name (sub raw 0 8) (sub raw 8 3);
          matches = (case long_name of None \<Rightarrow> False | Some n \<Rightarrow> eq_ignore_ascii_case n target_name)
            \<or> eq_ignore_ascii_case short_name target_name
      in if \<not> matches then (None, lfn')
         else (Some (raw_dir_entry (case long_name of Some n \<Rightarrow> n | None \<Rightarrow> short_name) raw), lfn'))"

text \<open>The loop over the 16 raw entries of a sector; the flag is the end-of-directory marker.\<close>

fun parse_dir_entries :: "bytes list \<Rightarrow> dir_entry list \<Rightarrow> lfn_state \<Rightarrow> bool \<times> dir_entry list \<times> lfn_state" where
  "parse_dir_entries [] entries lfn = (False, entries, lfn)"
| "parse_dir_entries (raw # rs) entries lfn =
     (if raw ! 0 = 0x00 then (True, entries, lfn)
      else if raw ! 0 = 0xE5 then parse_dir_entries rs entries (lfn_reset lfn)
      else if raw ! 11 = 0x0F then parse_dir_entries rs entries (push_long_entry raw lfn)
      else if raw ! 11 AND 0x08 \<noteq> 0 then parse_dir_entries rs entries (lfn_reset lfn)
      else
        let (long_name, lfn') = take_verified (sub raw 0 11) lfn;
            name = (case long_name of Some n \<Rightarrow> n
              | None \<Rightarrow> format_short_name (sub raw 0 8) (sub raw 8 3))
        in parse_dir_entries rs (entries @ [raw_dir_entry name raw]) lfn')"

definition parse_dir_sector :: "bytes \<Rightarrow> dir_entry list \<Rightarrow> lfn_state \<Rightarrow> bool \<times> dir_entry list \<times> lfn_state" where
  "parse_dir_sector sector entries lfn = parse_dir_entries (chunks 32 sector) entries lfn"

section \<open>Definitions: building entries\<close>

text \<open>
  The builders of \<^verbatim>\<open>fat12.rs\<close> that produce what the definitions above read: short names, long
  name entries and short entries.
\<close>

text \<open>\<^verbatim>\<open>name.split_once('.')\<close> with the source's default of an empty extension.\<close>

definition split_once_dot :: "bytes \<Rightarrow> bytes \<times> bytes" where
  "split_once_dot name = (takeWhile (\<lambda>b. b \<noteq> 0x2E) name, drop 1 (dropWhile (\<lambda>b. b \<noteq> 0x2E) name))"

definition to_short_name :: "bytes \<Rightarrow> bytes outcome" where
  "to_short_name name =
     (let (base, ext) = split_once_dot name in
      if base = [] \<or> 8 < length base \<or> 3 < length ext
      then Err ''FAT12: name must fit the 8.3 short-name format''
      else Ok (overwrite (overwrite (replicate 11 0x20) 0 (map to_ascii_uppercase base))
             8 (map to_ascii_uppercase ext)))"

definition is_valid_lfn_char :: "u8 \<Rightarrow> bool" where
  "is_valid_lfn_char b \<longleftrightarrow> 0x20 \<le> b \<and> b \<le> 0x7E
     \<and> b \<notin> {0x22, 0x2A, 0x2F, 0x3A, 0x3C, 0x3E, 0x3F, 0x5C, 0x7C}"

text \<open>The 13 codes of one chunk: the characters, a zero terminator if there is room, then padding.\<close>

definition lfn_chars :: "bytes \<Rightarrow> u16 list" where
  "lfn_chars chunk_bytes =
     (let chars = overwrite (replicate 13 0xFFFF) 0 (map ucast chunk_bytes)
      in if length chunk_bytes < 13 then chars[length chunk_bytes := 0] else chars)"

definition lfn_entry :: "u8 \<Rightarrow> u8 \<Rightarrow> u16 list \<Rightarrow> bytes" where
  "lfn_entry sequence checksum chars =
     (let e0 = (replicate 32 0)[0 := sequence];
          e1 = overwrite e0 1 (concat (map le_bytes16 (sub chars 0 5)));
          e2 = e1[11 := 0x0F, 12 := 0x00, 13 := checksum];
          e3 = overwrite e2 14 (concat (map le_bytes16 (sub chars 5 6)))
      in overwrite e3 28 (concat (map le_bytes16 (sub chars 11 2))))"

definition build_lfn_entries :: "bytes \<Rightarrow> bytes \<Rightarrow> bytes list" where
  "build_lfn_entries name short_name =
     (let num_chunks = max ((length name + 12) div 13) 1;
          checksum = lfn_checksum short_name
      in map (\<lambda>chunk_index.
           let start = chunk_index * 13;
               stop = min (start + 13) (length name);
               chars = lfn_chars (sub name start (stop - start));
               sequence = of_nat (chunk_index + 1);
               sequence' = (if chunk_index = num_chunks - 1 then sequence OR 0x40 else sequence)
           in lfn_entry sequence' checksum chars) (rev [0..<num_chunks]))"

definition build_dir_entry :: "bytes \<Rightarrow> u8 \<Rightarrow> u32 \<Rightarrow> u32 \<Rightarrow> u16 \<Rightarrow> u16 \<Rightarrow> bytes" where
  "build_dir_entry short_name attr cluster fsize fat_time fat_date =
     short_name @ [attr] @ [0, 0] @ le_bytes16 fat_time @ le_bytes16 fat_date @ le_bytes16 fat_date
       @ le_bytes16 (ucast (drop_bit 16 cluster)) @ le_bytes16 fat_time @ le_bytes16 fat_date
       @ le_bytes16 (ucast cluster) @ le_bytes32 fsize"

section \<open>Long names\<close>

text \<open>The entry with its bytes in order, and what reading it gives.\<close>

lemma length_13E:
  assumes "length xs = 13"
  obtains a b c d e f g h i j k l m where "xs = [a, b, c, d, e, f, g, h, i, j, k, l, m]"
  using assms by (auto simp: numeral_eq_Suc length_Suc_conv)

lemma le16_of_bytes_Suc:
  "le16 (ucast w) (ucast (drop_bit (Suc (Suc (Suc (Suc (Suc (Suc (Suc (Suc 0)))))))) w)) = w"
  using le16_of_bytes [of w] by (simp add: numeral_eq_Suc del: le16_of_bytes)

lemma lfn_entry_bytes:
  assumes "length chars = 13"
  shows "length (lfn_entry s c chars) = 32 \<and> lfn_entry s c chars ! 0 = s
     \<and> lfn_entry s c chars ! 11 = 0x0F \<and> lfn_entry s c chars ! 13 = c
     \<and> map (\<lambda>i. le16 (lfn_entry s c chars ! (1 + i * 2)) (lfn_entry s c chars ! (2 + i * 2))) [0..<5]
       @ map (\<lambda>i. le16 (lfn_entry s c chars ! (14 + i * 2)) (lfn_entry s c chars ! (15 + i * 2))) [0..<6]
       @ map (\<lambda>i. le16 (lfn_entry s c chars ! (28 + i * 2)) (lfn_entry s c chars ! (29 + i * 2))) [0..<2]
       = chars"
  by (rule length_13E [OF assms])
    (simp add: lfn_entry_def Let_def sub_def overwrite_def le_bytes16_def upt_rec numeral_eq_Suc
      le16_of_bytes_Suc)

lemma length_lfn_chars [simp]: "length c \<le> 13 \<Longrightarrow> length (lfn_chars c) = 13"
  by (simp add: lfn_chars_def Let_def)

lemma lfn_chars_eq:
  assumes "length c \<le> 13"
  shows "lfn_chars c = map ucast c @ (if length c < 13 then 0 # replicate (12 - length c) 0xFFFF else [])"
proof (cases "length c < 13")
  case True
  then have "replicate (13 - length c) (0xFFFF :: u16) = 0xFFFF # replicate (12 - length c) 0xFFFF"
    by (metis Suc_diff_Suc Suc_numeral diff_Suc_Suc replicate_Suc semiring_norm(5) semiring_norm(8))
  then show ?thesis
    using True by (simp add: lfn_chars_def Let_def overwrite_def list_update_append)
next
  case False
  then show ?thesis
    using assms by (simp add: lfn_chars_def Let_def overwrite_def)
qed

lemma ucast_u16_zero_iff [simp]: "(ucast (b :: u8) :: u16) = 0 \<longleftrightarrow> b = 0"
  by (simp add: word_unat_eq_iff unat_ucast_up)

lemma ucast_u8_u16 [simp]: "(ucast (ucast (b :: u8) :: u16) :: u8) = b"
  using unat_u8_less [of b] by (simp add: word_unat_eq_iff unat_ucast_mod del: unat_u8_less)

lemma decode_lfn_chars:
  assumes "length c \<le> 13" "0 \<notin> set c"
  shows "decode_lfn_chunk (lfn_chars c) = c"
proof -
  have nz: "\<forall>x \<in> set (map (\<lambda>b. ucast b :: u16) c). x \<noteq> 0"
    using assms(2) by auto
  have "takeWhile (\<lambda>x. x \<noteq> 0) (lfn_chars c) = map ucast c"
    unfolding lfn_chars_eq [OF assms(1)] using nz
    by (cases "length c < 13") (simp_all add: takeWhile_append takeWhile_eq_all_conv)
  then show ?thesis
    by (simp add: decode_lfn_chunk_def comp_def)
qed

text \<open>The piece of a name that chunk \<open>i\<close> carries.\<close>

definition name_chunk :: "bytes \<Rightarrow> nat \<Rightarrow> bytes" where
  "name_chunk name i = sub name (i * 13) (min (i * 13 + 13) (length name) - i * 13)"

lemma length_name_chunk: "length (name_chunk name i) \<le> 13"
  by (simp add: name_chunk_def sub_def)

lemma set_name_chunk: "set (name_chunk name i) \<subseteq> set name"
  unfolding name_chunk_def sub_def by (meson order_trans set_drop_subset set_take_subset)

lemma concat_name_chunks: "concat (map (name_chunk name) [0..<n]) = take (n * 13) name"
proof (induction n)
  case (Suc n)
  have "name_chunk name n = take 13 (drop (n * 13) name)"
    by (auto simp: name_chunk_def sub_def min_def)
  then show ?case
    using Suc take_add [of "n * 13" 13 name] by (simp add: add.commute)
qed simp

lemma u8_and_0x40:
  "k < 64 \<Longrightarrow> (of_nat k :: u8) AND 0x40 = 0" "((x :: u8) OR 0x40) AND 0x40 \<noteq> 0"
proof -
  have eq: "(0x40 :: u8) = 2 ^ 6" by simp
  show "(of_nat k :: u8) AND 0x40 = 0" if "k < 64"
    unfolding eq and_exp_eq_0_iff_not_bit using that
    by (subst bit_of_nat_iff) (simp add: bit_iff_odd)
  show "(x OR 0x40) AND 0x40 \<noteq> 0"
    unfolding eq and_exp_eq_0_iff_not_bit by (simp add: bit_simps)
qed

lemma push_lfn_entry:
  assumes "length chars = 13"
  shows "push_long_entry (lfn_entry s c chars) st =
     (if s AND 0x40 \<noteq> 0 then \<lparr>lfn_chunks = [chars], lfn_sum = c\<rparr>
      else st\<lparr>lfn_chunks := lfn_chunks st @ [chars]\<rparr>)"
  using lfn_entry_bytes [OF assms, of s c] by (simp add: push_long_entry_def Let_def)

definition chunk_entry :: "bytes \<Rightarrow> bytes \<Rightarrow> nat \<Rightarrow> nat \<Rightarrow> bytes" where
  "chunk_entry name short n i = lfn_entry (if i = n - 1 then of_nat (i + 1) OR 0x40 else of_nat (i + 1))
     (lfn_checksum short) (lfn_chars (name_chunk name i))"

lemma build_lfn_entries_eq:
  "build_lfn_entries name short =
     (let n = max ((length name + 12) div 13) 1 in map (chunk_entry name short n) (rev [0..<n]))"
  unfolding build_lfn_entries_def chunk_entry_def name_chunk_def Let_def by (rule refl)

lemma fold_push_tail:
  "\<forall>i \<in> set is. i < 63 \<and> i \<noteq> n - 1 \<Longrightarrow>
   fold push_long_entry (map (chunk_entry name short n) is) st =
     st\<lparr>lfn_chunks := lfn_chunks st @ map (\<lambda>i. lfn_chars (name_chunk name i)) is\<rparr>"
proof (induction "is" arbitrary: st)
  case (Cons i "is")
  then have "(of_nat (Suc i) :: u8) AND 0x40 = 0"
    by (intro u8_and_0x40) simp
  then show ?case
    using Cons by (simp add: chunk_entry_def push_lfn_entry length_name_chunk)
qed simp

lemma fold_push_build_lfn:
  assumes "length name \<le> 819"
  defines "n \<equiv> max ((length name + 12) div 13) 1"
  shows "fold push_long_entry (build_lfn_entries name short) st =
     \<lparr>lfn_chunks = map (\<lambda>i. lfn_chars (name_chunk name i)) (rev [0..<n]), lfn_sum = lfn_checksum short\<rparr>"
proof -
  have n: "0 < n" "n \<le> 63" using assms(1) by (simp_all add: n_def)
  have split: "rev [0..<n] = (n - 1) # rev [0..<n - 1]"
    using n by (metis Suc_diff_1 rev.simps(2) rev_append rev_rev_ident upt_Suc zero_le append.simps(1,2) rev.simps(1))
  have hd: "push_long_entry (chunk_entry name short n (n - 1)) st =
      \<lparr>lfn_chunks = [lfn_chars (name_chunk name (n - 1))], lfn_sum = lfn_checksum short\<rparr>"
    by (simp add: chunk_entry_def push_lfn_entry length_name_chunk u8_and_0x40)
  have tl: "\<forall>i \<in> set (rev [0..<n - 1]). i < 63 \<and> i \<noteq> n - 1" using n by auto
  show ?thesis
    unfolding build_lfn_entries_eq Let_def n_def [symmetric] split
    by (simp only: list.map fold_simps hd fold_push_tail [OF tl]) simp
qed

lemma take_verified_lfn:
  assumes "name \<noteq> []" "length name \<le> 819" "0 \<notin> set name"
  shows "take_verified short (fold push_long_entry (build_lfn_entries name short) st) =
     (Some name, \<lparr>lfn_chunks = [], lfn_sum = lfn_checksum short\<rparr>)"
proof -
  define n where "n = max ((length name + 12) div 13) 1"
  have "length name \<le> n * 13" using assms(1) by (simp add: n_def)
  have dec: "decode_lfn_chunk (lfn_chars (name_chunk name i)) = name_chunk name i" for i
    using assms(3) set_name_chunk [of name i] by (intro decode_lfn_chars length_name_chunk) blast
  have "concat (map decode_lfn_chunk (rev (map (\<lambda>i. lfn_chars (name_chunk name i)) (rev [0..<n])))) = name"
    using concat_name_chunks [of name n] \<open>length name \<le> n * 13\<close> by (simp add: rev_map comp_def dec)
  moreover have "0 < n" by (simp add: n_def)
  ultimately show ?thesis
    unfolding fold_push_build_lfn [OF assms(2)] n_def [symmetric] by (simp add: take_verified_def)
qed

section \<open>Entries\<close>

lemma length_11E:
  assumes "length xs = 11"
  obtains a b c d e f g h i j k where "xs = [a, b, c, d, e, f, g, h, i, j, k]"
  using assms by (auto simp: numeral_eq_Suc length_Suc_conv)

lemma cluster_words [simp]:
  "push_bit 16 (ucast (ucast (drop_bit 16 c) :: u16)) OR ucast (ucast (c :: u32) :: u16) = c"
  by (rule bit_word_eqI) (auto simp: bit_simps)

lemma build_dir_entry_fields:
  fixes cl sz :: u32 and t d :: u16 and attr :: u8
  assumes "length short = 11"
  defines "e \<equiv> build_dir_entry short attr cl sz t d"
  shows "length e = 32 \<and> sub e 0 11 = short \<and> e ! 0 = short ! 0 \<and> e ! 11 = attr
     \<and> raw_dir_entry name e = \<lparr>de_name = name, de_is_dir = (attr AND 0x10 \<noteq> 0), de_size = sz,
          de_start_cluster = cl, de_fat_time = t, de_fat_date = d\<rparr>"
proof -
  have len: "length e = 32" and pre: "sub e 0 11 = short" and first: "e ! 0 = short ! 0"
      and at: "e ! 11 = attr"
    using assms(1) by (auto simp: e_def build_dir_entry_def nth_append sub_def)
  have rest: "e ! (11 + k) = (attr # [0, 0] @ le_bytes16 t @ le_bytes16 d @ le_bytes16 d
       @ le_bytes16 (ucast (drop_bit 16 cl)) @ le_bytes16 t @ le_bytes16 d
       @ le_bytes16 (ucast cl) @ le_bytes32 sz) ! k" for k
    using assms(1) by (simp add: e_def build_dir_entry_def nth_append)
  have "raw_dir_entry name e = \<lparr>de_name = name, de_is_dir = (attr AND 0x10 \<noteq> 0), de_size = sz,
          de_start_cluster = cl, de_fat_time = t, de_fat_date = d\<rparr>"
    using rest [of 0] rest [of 9] rest [of 10] rest [of 11] rest [of 12] rest [of 13] rest [of 14]
      rest [of 15] rest [of 16] rest [of 17] rest [of 18] rest [of 19] rest [of 20]
    by (simp add: raw_dir_entry_def le_bytes16_def le_bytes32_def)
  then show ?thesis using len pre first at by simp
qed

lemma parse_long_entries:
  "(\<forall>e \<in> set es. e ! 0 \<noteq> 0x00 \<and> e ! 0 \<noteq> 0xE5 \<and> e ! 11 = 0x0F) \<Longrightarrow>
   parse_dir_entries (es @ rest) out st = parse_dir_entries rest out (fold push_long_entry es st)"
  by (induction es arbitrary: st) auto

lemma small_sequence:
  assumes "k < 16"
  shows "(of_nat (Suc k) :: u8) \<notin> {0, 0xE5}" "of_nat (Suc k) OR 0x40 \<notin> {0, 0xE5 :: u8}"
proof -
  have "unat (of_nat (Suc k) :: u8) = Suc k"
    using assms by (simp add: unat_of_nat del: of_nat_Suc)
  then show "(of_nat (Suc k) :: u8) \<notin> {0, 0xE5}"
    using assms by (auto simp del: of_nat_Suc)
  have "\<not> bit (of_nat (Suc k) OR 0x40 :: u8) 7"
    using assms by (simp add: bit_or_iff bit_of_nat_iff del: of_nat_Suc) (simp add: bit_iff_odd)
  then have "of_nat (Suc k) OR 0x40 \<noteq> (0xE5 :: u8)"
    by (auto simp del: of_nat_Suc)
  moreover have "of_nat (Suc k) OR 0x40 \<noteq> (0 :: u8)"
    using u8_and_0x40(2) by (metis and_zero_eq bit.conj_zero_left)
  ultimately show "of_nat (Suc k) OR 0x40 \<notin> {0, 0xE5 :: u8}" by simp
qed

lemma build_lfn_entries_raw:
  assumes "length name \<le> 195" "e \<in> set (build_lfn_entries name short)"
  shows "length e = 32 \<and> e ! 0 \<noteq> 0x00 \<and> e ! 0 \<noteq> 0xE5 \<and> e ! 11 = 0x0F"
proof -
  define n where "n = max ((length name + 12) div 13) 1"
  have n: "n \<le> 15" using assms(1) by (simp add: n_def)
  obtain i where i: "i < n" "e = chunk_entry name short n i"
    using assms(2) unfolding build_lfn_entries_eq Let_def n_def [symmetric] by auto
  have "i < 16" using i(1) n by simp
  show ?thesis
    using lfn_entry_bytes [OF length_lfn_chars [OF length_name_chunk]] small_sequence [OF \<open>i < 16\<close>]
    unfolding i(2) chunk_entry_def by (cases "i = n - 1") (simp_all del: of_nat_Suc)
qed

lemma parse_short_entry:
  assumes "length short = 11" "short ! 0 \<notin> {0x00, 0xE5}" "attr \<in> {0x10, 0x20}"
  shows "parse_dir_entries (build_dir_entry short attr cl sz t d # rest) out st =
     parse_dir_entries rest (out @ [\<lparr>de_name = (case fst (take_verified short st) of Some n \<Rightarrow> n
         | None \<Rightarrow> format_short_name (take 8 short) (drop 8 short)),
        de_is_dir = (attr AND 0x10 \<noteq> 0), de_size = sz, de_start_cluster = cl, de_fat_time = t,
        de_fat_date = d\<rparr>]) (snd (take_verified short st))"
proof -
  let ?e = "build_dir_entry short attr cl sz t d"
  note f = build_dir_entry_fields [OF assms(1), of attr cl sz t d]
  have parts: "sub ?e 0 8 = take 8 short" "sub ?e 8 3 = drop 8 short"
    using assms(1) by (simp_all add: build_dir_entry_def sub_def del: sub_append1)
  have at: "attr \<noteq> 0x0F" "attr AND 0x08 = 0" using assms(3) by auto
  show ?thesis
    using f assms(2) at by (cases "fst (take_verified short st)") (simp_all add: parts split_beta)
qed

text \<open>The 8.3 form of a name without spaces shows as that name in capitals.\<close>

lemma split_once_dot_join:
  "split_once_dot name = (base, ext) \<Longrightarrow> name = base @ (if 0x2E \<in> set name then 0x2E # ext else ext)
     \<and> 0x2E \<notin> set base \<and> (0x2E \<notin> set name \<longrightarrow> ext = [])"
proof -
  assume s: "split_once_dot name = (base, ext)"
  show ?thesis
  proof (cases "0x2E \<in> set name")
    case True
    then have "dropWhile (\<lambda>b. b \<noteq> 0x2E) name = 0x2E # ext"
      using s hd_dropWhile [of "\<lambda>b. b \<noteq> 0x2E" name]
      by (cases "dropWhile (\<lambda>b. b \<noteq> 0x2E) name") (auto simp: split_once_dot_def dropWhile_eq_Nil_conv)
    then show ?thesis
      using s True takeWhile_dropWhile_id [of "\<lambda>b. b \<noteq> 0x2E" name]
      by (auto simp: split_once_dot_def dest: set_takeWhileD)
  next
    case False
    then have all: "\<And>x. x \<in> set name \<Longrightarrow> x \<noteq> 0x2E" by auto
    have "takeWhile (\<lambda>b. b \<noteq> 0x2E) name = name" "dropWhile (\<lambda>b. b \<noteq> 0x2E) name = []"
      using all by (simp_all add: takeWhile_eq_all_conv dropWhile_eq_Nil_conv)
    then have "base = name" "ext = []"
      using s by (simp_all only: split_once_dot_def prod.inject drop_Nil)
    then show ?thesis using False by simp
  qed
qed

lemma to_ascii_uppercase_space [simp]: "to_ascii_uppercase b = 0x20 \<longleftrightarrow> b = 0x20"
proof -
  have "b - 0x20 \<noteq> 0x20" if "0x61 \<le> b"
  proof
    assume "b - 0x20 = 0x20"
    then have "b = 0x40" by (metis diff_add_cancel numeral_Bit0)
    with that show False by simp
  qed
  then show ?thesis by (auto simp: to_ascii_uppercase_def)
qed

lemma takeWhile_padded:
  "0x20 \<notin> set xs \<Longrightarrow> takeWhile (\<lambda>b. b \<noteq> 0x20) (xs @ replicate k (0x20 :: u8)) = xs"
  by (induction xs) (auto simp: takeWhile_eq_Nil_iff hd_replicate)

lemma to_short_name_Ok:
  assumes "to_short_name name = Ok short" "split_once_dot name = (base, ext)"
  shows "base \<noteq> []" "length base \<le> 8" "length ext \<le> 3"
    "short = map to_ascii_uppercase base @ replicate (8 - length base) 0x20
       @ map to_ascii_uppercase ext @ replicate (3 - length ext) 0x20"
proof -
  show b: "base \<noteq> []" "length base \<le> 8" "length ext \<le> 3"
    using assms by (auto simp: to_short_name_def split: if_splits)
  show "short = map to_ascii_uppercase base @ replicate (8 - length base) 0x20
       @ map to_ascii_uppercase ext @ replicate (3 - length ext) 0x20"
    using assms b by (auto simp: to_short_name_def overwrite_def min_def)
qed

lemma format_to_short_name:
  assumes "to_short_name name = Ok short" "0x20 \<notin> set name" "last name \<noteq> 0x2E"
  shows "format_short_name (take 8 short) (drop 8 short) = map to_ascii_uppercase name"
proof -
  obtain base ext where s: "split_once_dot name = (base, ext)" by fastforce
  note n = split_once_dot_join [OF s] and sh = to_short_name_Ok [OF assms(1) s]
  have sp: "0x20 \<notin> set (map to_ascii_uppercase base)" "0x20 \<notin> set (map to_ascii_uppercase ext)"
    using assms(2) n by (auto split: if_splits simp: image_iff)
  have parts: "take 8 short = map to_ascii_uppercase base @ replicate (8 - length base) 0x20"
    "drop 8 short = map to_ascii_uppercase ext @ replicate (3 - length ext) 0x20"
    using sh by simp_all
  have dot: "ext = [] \<Longrightarrow> 0x2E \<notin> set name"
    using n assms(3) by (metis last_snoc)
  show ?thesis
  proof (cases "ext = []")
    case True
    then show ?thesis
      using n dot parts takeWhile_padded [OF sp(1)] takeWhile_padded [OF sp(2)]
      by (simp add: format_short_name_def)
  next
    case False
    then have "name = base @ 0x2E # ext" using n by auto
    then show ?thesis
      using False parts takeWhile_padded [OF sp(1)] takeWhile_padded [OF sp(2)]
      by (simp add: format_short_name_def to_ascii_uppercase_def)
  qed
qed

lemma lowercase_uppercase [simp]: "to_ascii_lowercase (to_ascii_uppercase b) = to_ascii_lowercase b"
proof (cases "0x61 \<le> b \<and> b \<le> 0x7A")
  case True
  then have "unat b \<ge> 97" "unat b \<le> 122" by (simp_all add: word_le_nat_alt)
  moreover have "unat (b - 0x20) = unat b - 32"
    using True by (subst unat_sub) (auto simp: word_le_nat_alt)
  ultimately have "0x41 \<le> b - 0x20" "b - 0x20 \<le> 0x5A" "\<not> b \<le> 0x5A"
    by (simp_all add: word_le_nat_alt)
  then show ?thesis using True by (simp add: to_ascii_uppercase_def to_ascii_lowercase_def)
qed (auto simp: to_ascii_uppercase_def)

lemma eq_ignore_ascii_case_uppercase [simp]: "eq_ignore_ascii_case (map to_ascii_uppercase n) n"
  by (simp add: eq_ignore_ascii_case_def)

section \<open>Properties\<close>

text \<open>
  C16: A file or directory with a long name survives the directory. Writing the long entries and
  the short entry that the builders produce, in any place of a directory and whatever long-name
  state the scan arrives with, makes the listing show exactly one more entry with the full name,
  size, cluster, type and time that were stored; and the search accepts that entry under the long
  name in any case.
\<close>

theorem long_name_roundtrip:
  fixes cl sz :: u32 and t d :: u16
  assumes "name \<noteq> []" "length name \<le> 195" "0 \<notin> set name"
    "length short = 11" "short ! 0 \<notin> {0x00, 0xE5}" "attr \<in> {0x10, 0x20}"
  defines "e \<equiv> build_dir_entry short attr cl sz t d"
    and "entry \<equiv> \<lparr>de_name = name, de_is_dir = (attr = 0x10), de_size = sz,
        de_start_cluster = cl, de_fat_time = t, de_fat_date = d\<rparr>"
  shows "parse_dir_entries (build_lfn_entries name short @ e # rest) out st =
      parse_dir_entries rest (out @ [entry]) \<lparr>lfn_chunks = [], lfn_sum = lfn_checksum short\<rparr>
    \<and> (eq_ignore_ascii_case name target \<longrightarrow>
        fst (short_entry_if_matches e (fold push_long_entry (build_lfn_entries name short) st) target) = Some entry)"
proof -
  note v = take_verified_lfn [OF assms(1) _ assms(3), of short st]
  have dir: "(attr AND 0x10 \<noteq> 0) = (attr = 0x10)" using assms(6) by auto
  have "parse_dir_entries (build_lfn_entries name short @ e # rest) out st =
      parse_dir_entries (e # rest) out (fold push_long_entry (build_lfn_entries name short) st)"
    using build_lfn_entries_raw [OF assms(2)] by (intro parse_long_entries) blast
  moreover have "fst (short_entry_if_matches e (fold push_long_entry (build_lfn_entries name short) st) target)
      = Some entry" if "eq_ignore_ascii_case name target"
    using v assms(2) that build_dir_entry_fields [OF assms(4), of attr cl sz t d] dir
    by (simp add: short_entry_if_matches_def e_def entry_def)
  ultimately show ?thesis
    using v assms(2) parse_short_entry [OF assms(4-6), of cl sz t d rest out] dir
    by (simp add: e_def entry_def)
qed

theorem long_name_roundtrip_witness:
  defines "name \<equiv> map (of_nat \<circ> (of_char :: char \<Rightarrow> nat)) ''quarterly report.txt''"
    and "short \<equiv> map (of_nat \<circ> (of_char :: char \<Rightarrow> nat)) ''QUART~1 TXT''"
  shows "parse_dir_entries (build_lfn_entries name short @ build_dir_entry short 0x20 7 9 0 0 # []) []
      lfn_default = (False, [\<lparr>de_name = name, de_is_dir = False, de_size = 9, de_start_cluster = 7,
        de_fat_time = 0, de_fat_date = 0\<rparr>], \<lparr>lfn_chunks = [], lfn_sum = lfn_checksum short\<rparr>)"
  using long_name_roundtrip [where name = name and short = short and attr = "0x20" and cl = "7" and sz = "9" and t = "0"
      and d = "0" and rest = "[]" and out = "[]" and st = lfn_default]
  by (simp add: name_def short_def)

text \<open>
  The 8.3 path. A name that \<^verbatim>\<open>to_short_name\<close> accepts and that has no space and no final
  dot is stored so that the listing shows it in capitals and the search finds its entry under the
  original spelling, whatever the case.
\<close>

theorem short_name_roundtrip:
  fixes cl sz :: u32 and t d :: u16
  assumes "to_short_name name = Ok short" "0x20 \<notin> set name" "last name \<noteq> 0x2E"
    "attr \<in> {0x10, 0x20}" "lfn_chunks st = []" "short ! 0 \<notin> {0x00, 0xE5}"
  defines "e \<equiv> build_dir_entry short attr cl sz t d"
    and "entry \<equiv> \<lparr>de_name = map to_ascii_uppercase name, de_is_dir = (attr = 0x10), de_size = sz,
        de_start_cluster = cl, de_fat_time = t, de_fat_date = d\<rparr>"
  shows "length short = 11
    \<and> parse_dir_entries (e # rest) out st = parse_dir_entries rest (out @ [entry]) st
    \<and> fst (short_entry_if_matches e st name) = Some entry"
proof -
  obtain base ext where s: "split_once_dot name = (base, ext)" by fastforce
  have len: "length short = 11"
    using to_short_name_Ok [OF assms(1) s] by simp
  have dir: "(attr AND 0x10 \<noteq> 0) = (attr = 0x10)" using assms(4) by auto
  have v: "take_verified short st = (None, st)"
    using assms(5) by (simp add: take_verified_def)
  have parts: "sub e 0 8 = take 8 short" "sub e 8 3 = drop 8 short"
    using len by (simp_all add: e_def build_dir_entry_def sub_def)
  show ?thesis
    using parse_short_entry [OF len assms(6,4), of cl sz t d rest out st] v dir len
      format_to_short_name [OF assms(1-3)] build_dir_entry_fields [OF len, of attr cl sz t d] parts
    by (simp add: e_def entry_def short_entry_if_matches_def)
qed

theorem short_name_roundtrip_witness:
  defines "name \<equiv> map (of_nat \<circ> (of_char :: char \<Rightarrow> nat)) ''Notes.txt''"
    and "short \<equiv> map (of_nat \<circ> (of_char :: char \<Rightarrow> nat)) ''NOTES   TXT''"
  shows "fst (short_entry_if_matches (build_dir_entry short 0x20 7 9 0 0) lfn_default name)
    = Some \<lparr>de_name = map to_ascii_uppercase name, de_is_dir = False, de_size = 9, de_start_cluster = 7,
        de_fat_time = 0, de_fat_date = 0\<rparr>"
proof -
  have "replicate 3 (0x20 :: u8) = [0x20, 0x20, 0x20]" by (simp add: numeral_eq_Suc)
  then have "to_short_name name = Ok short"
    by (simp add: name_def short_def to_short_name_def split_once_dot_def to_ascii_uppercase_def overwrite_def)
  then show ?thesis
    using short_name_roundtrip [where name = name and short = short and attr = "0x20" and st = lfn_default
      and cl = "7" and sz = "9" and t = "0" and d = "0"]
    by (simp add: name_def short_def lfn_default_def)
qed

text \<open>
  The two exclusions above are needed: \<^verbatim>\<open>to_short_name\<close> accepts a name with a space in it
  and one with a final dot, but the entry then shows, and is found, under a different name only.
\<close>

theorem short_name_unreachable:
  defines "with_space \<equiv> map (of_nat \<circ> (of_char :: char \<Rightarrow> nat)) ''A B''"
    and "with_dot \<equiv> map (of_nat \<circ> (of_char :: char \<Rightarrow> nat)) ''FOO.''"
  shows "\<exists>s1 s2. to_short_name with_space = Ok s1 \<and> to_short_name with_dot = Ok s2
    \<and> fst (short_entry_if_matches (build_dir_entry s1 0x20 cl sz t d) lfn_default with_space) = None
    \<and> fst (short_entry_if_matches (build_dir_entry s2 0x20 cl sz t d) lfn_default with_dot) = None"
  by (simp add: with_space_def with_dot_def to_short_name_def split_once_dot_def to_ascii_uppercase_def
      overwrite_def short_entry_if_matches_def take_verified_def lfn_default_def format_short_name_def
      eq_ignore_ascii_case_def to_ascii_lowercase_def build_dir_entry_def sub_def)

end
