(* ===== verification/Ata.thy ===== *)
theory Ata
  imports Prelude
begin

text \<open>
  Model of \<^verbatim>\<open>ata.rs\<close>, the PIO disk driver, at the level of single port accesses. The I/O ports
  are a parameter (\<open>port_bus\<close>): what is behind them is hardware. The interface the file systems
  rely on is the locale \<open>ata_disk\<close>: reading a sector yields its content and writing it changes
  that sector only. It is interpreted on the driver running against a drive that follows the
  ATA PIO protocol and stays busy for some polls after every command.
\<close>

section \<open>Definitions: the driver\<close>

record 'd port_bus =
  port_read8 :: "u16 \<Rightarrow> 'd \<Rightarrow> u8 \<times> 'd"
  port_write8 :: "u16 \<Rightarrow> u8 \<Rightarrow> 'd \<Rightarrow> 'd"
  port_read16 :: "u16 \<Rightarrow> 'd \<Rightarrow> u16 \<times> 'd"
  port_write16 :: "u16 \<Rightarrow> u16 \<Rightarrow> 'd \<Rightarrow> 'd"

definition ATA_DATA :: u16 where "ATA_DATA = 0x1F0"
definition ATA_ERROR_FEATURES :: u16 where "ATA_ERROR_FEATURES = 0x1F1"
definition ATA_SECTOR_COUNT :: u16 where "ATA_SECTOR_COUNT = 0x1F2"
definition ATA_LBA_LOW :: u16 where "ATA_LBA_LOW = 0x1F3"
definition ATA_LBA_MID :: u16 where "ATA_LBA_MID = 0x1F4"
definition ATA_LBA_HIGH :: u16 where "ATA_LBA_HIGH = 0x1F5"
definition ATA_DRIVE_HEAD :: u16 where "ATA_DRIVE_HEAD = 0x1F6"
definition ATA_COMMAND_STATUS :: u16 where "ATA_COMMAND_STATUS = 0x1F7"

definition CMD_READ_SECTORS :: u8 where "CMD_READ_SECTORS = 0x20"
definition CMD_WRITE_SECTORS :: u8 where "CMD_WRITE_SECTORS = 0x30"
definition CMD_CACHE_FLUSH :: u8 where "CMD_CACHE_FLUSH = 0xE7"

definition STATUS_ERR :: u8 where "STATUS_ERR = 0x01"
definition STATUS_DRQ :: u8 where "STATUS_DRQ = 0x08"
definition STATUS_BSY :: u8 where "STATUS_BSY = 0x80"

definition MAX_POLL_ITERATIONS :: nat where "MAX_POLL_ITERATIONS = 50000000"

lemmas ata_constants = ATA_DATA_def ATA_ERROR_FEATURES_def ATA_SECTOR_COUNT_def ATA_LBA_LOW_def
  ATA_LBA_MID_def ATA_LBA_HIGH_def ATA_DRIVE_HEAD_def ATA_COMMAND_STATUS_def CMD_READ_SECTORS_def
  CMD_WRITE_SECTORS_def CMD_CACHE_FLUSH_def STATUS_ERR_def STATUS_DRQ_def STATUS_BSY_def

text \<open>The polling loop, with the number of iterations left.\<close>

function poll_loop :: "'d port_bus \<Rightarrow> u16 \<Rightarrow> string \<Rightarrow> (u8 \<Rightarrow> bool) \<Rightarrow> nat \<Rightarrow> ('d, u8) io" where
  "poll_loop bus port op finished n d =
     (if n = 0 then (Err (if op = ''read'' then ''ATA read: timed out waiting for the drive to respond''
        else ''ATA write: timed out waiting for the drive to respond''), d)
      else let (status, d') = port_read8 bus port d
           in if finished status then (Ok status, d') else poll_loop bus port op finished (n - 1) d')"
  by pat_completeness auto
termination
  by (relation "measure (\<lambda>(bus, port, op, finished, n, d). n)") auto

declare poll_loop.simps [simp del]

definition poll_until :: "'d port_bus \<Rightarrow> u16 \<Rightarrow> string \<Rightarrow> (u8 \<Rightarrow> bool) \<Rightarrow> ('d, u8) io" where
  "poll_until bus port op finished = poll_loop bus port op finished MAX_POLL_ITERATIONS"

definition out8 :: "'d port_bus \<Rightarrow> u16 \<Rightarrow> u8 \<Rightarrow> ('d, unit) io" where
  "out8 bus port v d = (Ok (), port_write8 bus port v d)"

definition warmup_reads :: "'d port_bus \<Rightarrow> 'd \<Rightarrow> 'd" where
  "warmup_reads bus d = ((\<lambda>d. snd (port_read8 bus ATA_ERROR_FEATURES d)) ^^ 4) d"

definition select_drive_and_issue_command :: "'d port_bus \<Rightarrow> u32 \<Rightarrow> string \<Rightarrow> u8 \<Rightarrow> ('d, u8) io" where
  "select_drive_and_issue_command bus lba op command =
     io_bind (out8 bus ATA_DRIVE_HEAD (0xE0 OR ucast (drop_bit 24 lba AND 0x0F))) (\<lambda>_.
     io_bind (\<lambda>d. (Ok (), warmup_reads bus d)) (\<lambda>_.
     io_bind (out8 bus ATA_SECTOR_COUNT 1) (\<lambda>_.
     io_bind (out8 bus ATA_LBA_LOW (ucast (lba AND 0xFF))) (\<lambda>_.
     io_bind (out8 bus ATA_LBA_MID (ucast (drop_bit 8 lba AND 0xFF))) (\<lambda>_.
     io_bind (out8 bus ATA_LBA_HIGH (ucast (drop_bit 16 lba AND 0xFF))) (\<lambda>_.
     io_bind (out8 bus ATA_COMMAND_STATUS command) (\<lambda>_.
     poll_until bus ATA_COMMAND_STATUS op (\<lambda>s. s AND STATUS_BSY = 0))))))))"

fun read_words :: "'d port_bus \<Rightarrow> nat \<Rightarrow> 'd \<Rightarrow> bytes \<times> 'd" where
  "read_words bus 0 d = ([], d)"
| "read_words bus (Suc n) d =
     (let (w, d1) = port_read16 bus ATA_DATA d; (bs, d2) = read_words bus n d1
      in (ucast (w AND 0xFF) # ucast (drop_bit 8 w) # bs, d2))"

fun write_words :: "'d port_bus \<Rightarrow> bytes \<Rightarrow> 'd \<Rightarrow> 'd" where
  "write_words bus (a # b # bs) d =
     write_words bus bs (port_write16 bus ATA_DATA (ucast a OR push_bit 8 (ucast b)) d)"
| "write_words bus _ d = d"

definition check_err :: "string \<Rightarrow> u8 \<Rightarrow> ('d, unit) io" where
  "check_err e status = (if status AND STATUS_ERR \<noteq> 0 then io_err e else io_ret ())"

definition read_sector :: "'d port_bus \<Rightarrow> u32 \<Rightarrow> ('d, bytes) io" where
  "read_sector bus lba =
     io_bind (select_drive_and_issue_command bus lba ''read'' CMD_READ_SECTORS) (\<lambda>status.
     io_bind (check_err ''ATA read: drive reported an error (ERR bit set)'' status) (\<lambda>_.
     io_bind (poll_until bus ATA_COMMAND_STATUS ''read'' (\<lambda>s. s AND STATUS_DRQ \<noteq> 0)) (\<lambda>status.
     io_bind (check_err ''ATA read: drive reported an error (ERR bit set)'' status) (\<lambda>_.
     \<lambda>d. let (bs, d') = read_words bus 256 d in (Ok bs, d')))))"

definition write_sector :: "'d port_bus \<Rightarrow> u32 \<Rightarrow> bytes \<Rightarrow> ('d, unit) io" where
  "write_sector bus lba buf =
     io_bind (select_drive_and_issue_command bus lba ''write'' CMD_WRITE_SECTORS) (\<lambda>status.
     io_bind (check_err ''ATA write: drive reported an error (ERR bit set)'' status) (\<lambda>_.
     io_bind (poll_until bus ATA_COMMAND_STATUS ''write'' (\<lambda>s. s AND STATUS_DRQ \<noteq> 0)) (\<lambda>status.
     io_bind (check_err ''ATA write: drive reported an error (ERR bit set)'' status) (\<lambda>_.
     io_bind (\<lambda>d. (Ok (), write_words bus buf d)) (\<lambda>_.
     io_bind (poll_until bus ATA_COMMAND_STATUS ''write'' (\<lambda>s. s AND STATUS_BSY = 0)) (\<lambda>status.
     io_bind (check_err ''ATA write: drive reported an error after transfer (ERR bit set)'' status) (\<lambda>_.
     io_bind (out8 bus ATA_COMMAND_STATUS CMD_CACHE_FLUSH) (\<lambda>_.
     io_bind (poll_until bus ATA_COMMAND_STATUS ''write'' (\<lambda>s. s AND STATUS_BSY = 0)) (\<lambda>status.
     check_err ''ATA write: drive reported an error after cache flush (ERR bit set)'' status)))))))))"

section \<open>The interface of the file systems\<close>

text \<open>
  \<open>sects\<close> is the content of the disk and \<open>ready\<close> holds whenever no command is in progress.
  The driver addresses 28 bits.
\<close>

locale ata_disk =
  fixes bus :: "'d port_bus" and sects :: "'d \<Rightarrow> u32 \<Rightarrow> bytes" and ready :: "'d \<Rightarrow> bool"
  assumes read_law: "ready d \<Longrightarrow> unat lba < 2 ^ 28 \<Longrightarrow>
      \<exists>d'. read_sector bus lba d = (Ok (sects d lba), d') \<and> ready d' \<and> sects d' = sects d"
    and write_law: "ready d \<Longrightarrow> unat lba < 2 ^ 28 \<Longrightarrow> length buf = 512 \<Longrightarrow>
      \<exists>d'. write_sector bus lba buf d = (Ok (), d') \<and> ready d' \<and> sects d' = (sects d)(lba := buf)"
    and sector_size: "ready d \<Longrightarrow> length (sects d lba) = 512"
begin

lemma read_after_write:
  assumes "ready d" "unat lba < 2 ^ 28" "unat lba' < 2 ^ 28" "length buf = 512"
  shows "\<exists>d1 d2. write_sector bus lba buf d = (Ok (), d1)
     \<and> read_sector bus lba' d1 = (Ok (if lba' = lba then buf else sects d lba'), d2) \<and> ready d2"
proof -
  obtain d1 where w: "write_sector bus lba buf d = (Ok (), d1)" "ready d1" "sects d1 = (sects d)(lba := buf)"
    using write_law [OF assms(1,2,4)] by blast
  then show ?thesis using read_law [OF w(2) assms(3)] by fastforce
qed

end

section \<open>A PIO drive\<close>

text \<open>
  The documented behaviour of the drive: the task file registers select a 28-bit address; READ
  SECTORS makes 256 words available, WRITE SECTORS collects 256 words and commits them; after
  every command and every completed transfer the busy bit stays set for \<open>pio_latency\<close> polls.
  The same machine carries the CMOS clock behind ports 0x70 and 0x71, which the theory \<open>Rtc\<close> reads.
\<close>

datatype pio_mode = Pio_Idle | Pio_Reading "u16 list" | Pio_Writing "u16 list"

record pio_drive =
  pio_store :: "u32 \<Rightarrow> bytes"
  pio_low :: u8
  pio_mid :: u8
  pio_high :: u8
  pio_head :: u8
  pio_busy :: nat
  pio_latency :: nat
  pio_mode :: pio_mode
  cmos_index :: u8
  cmos_regs :: "u8 \<Rightarrow> u8"

definition pio_lba :: "pio_drive \<Rightarrow> u32" where
  "pio_lba p = le32 (pio_low p) (pio_mid p) (pio_high p) (pio_head p AND 0x0F)"

fun word_pairs :: "bytes \<Rightarrow> u16 list" where
  "word_pairs (a # b # bs) = le16 a b # word_pairs bs"
| "word_pairs _ = []"

definition pio_status :: "pio_drive \<Rightarrow> u8" where
  "pio_status p = (if 0 < pio_busy p then 0x80
     else case pio_mode p of Pio_Idle \<Rightarrow> 0x50 | Pio_Reading ws \<Rightarrow> 0x58 | Pio_Writing ws \<Rightarrow> 0x58)"

definition pio_in8 :: "u16 \<Rightarrow> pio_drive \<Rightarrow> u8 \<times> pio_drive" where
  "pio_in8 port p =
     (if port = 0x1F7 then (pio_status p, p\<lparr>pio_busy := pio_busy p - 1\<rparr>)
      else if port = 0x71 then (cmos_regs p (cmos_index p), p) else (0, p))"

definition pio_out8 :: "u16 \<Rightarrow> u8 \<Rightarrow> pio_drive \<Rightarrow> pio_drive" where
  "pio_out8 port v p =
     (if port = 0x1F3 then p\<lparr>pio_low := v\<rparr> else if port = 0x1F4 then p\<lparr>pio_mid := v\<rparr>
      else if port = 0x1F5 then p\<lparr>pio_high := v\<rparr> else if port = 0x1F6 then p\<lparr>pio_head := v\<rparr>
      else if port = 0x1F7 then
        (let q = p\<lparr>pio_busy := pio_latency p\<rparr>
         in if v = 0x20 then q\<lparr>pio_mode := Pio_Reading (word_pairs (pio_store p (pio_lba p)))\<rparr>
            else if v = 0x30 then q\<lparr>pio_mode := Pio_Writing []\<rparr> else q)
      else if port = 0x70 then p\<lparr>cmos_index := v\<rparr> else p)"

definition pio_in16 :: "u16 \<Rightarrow> pio_drive \<Rightarrow> u16 \<times> pio_drive" where
  "pio_in16 port p =
     (case pio_mode p of
        Pio_Reading (w # ws) \<Rightarrow> (w, p\<lparr>pio_mode := (if ws = [] then Pio_Idle else Pio_Reading ws)\<rparr>)
      | _ \<Rightarrow> (0, p))"

definition pio_out16 :: "u16 \<Rightarrow> u16 \<Rightarrow> pio_drive \<Rightarrow> pio_drive" where
  "pio_out16 port w p =
     (case pio_mode p of
        Pio_Writing ws \<Rightarrow>
          (if length ws + 1 = 256
           then p\<lparr>pio_mode := Pio_Idle, pio_busy := pio_latency p,
                  pio_store := (pio_store p)(pio_lba p := concat (map le_bytes16 (ws @ [w])))\<rparr>
           else p\<lparr>pio_mode := Pio_Writing (ws @ [w])\<rparr>)
      | _ \<Rightarrow> p)"

definition pio_bus :: "pio_drive port_bus" where
  "pio_bus = \<lparr>port_read8 = pio_in8, port_write8 = pio_out8, port_read16 = pio_in16, port_write16 = pio_out16\<rparr>"

definition pio_ready :: "pio_drive \<Rightarrow> bool" where
  "pio_ready p \<longleftrightarrow> pio_mode p = Pio_Idle \<and> pio_latency p < MAX_POLL_ITERATIONS
     \<and> (\<forall>lba. length (pio_store p lba) = 512) \<and> cmos_regs p 0x0A AND 0x80 = 0"

section \<open>The driver against the drive\<close>

lemma pio_bus_simps [simp]:
  "port_read8 pio_bus = pio_in8" "port_write8 pio_bus = pio_out8"
  "port_read16 pio_bus = pio_in16" "port_write16 pio_bus = pio_out16"
  by (simp_all add: pio_bus_def)

lemma poll_loop_ready:
  "fst (port_read8 bus port d) = s \<Longrightarrow> finished s \<Longrightarrow> 0 < n \<Longrightarrow>
   poll_loop bus port op finished n d = (Ok s, snd (port_read8 bus port d))"
  by (subst poll_loop.simps) (auto simp: split_beta)

lemma pio_busy_poll:
  "pio_busy p < n \<Longrightarrow>
   poll_loop pio_bus 0x1F7 op (\<lambda>s. s AND 0x80 = 0) n p = (Ok (pio_status (p\<lparr>pio_busy := 0\<rparr>)), p\<lparr>pio_busy := 0\<rparr>)"
proof (induction "pio_busy p" arbitrary: p n)
  case 0
  then show ?case
    by (subst poll_loop_ready) (auto simp: pio_in8_def pio_status_def split: pio_mode.split)
next
  case (Suc k)
  let ?q = "p\<lparr>pio_busy := pio_busy p - 1\<rparr>"
  have "poll_loop pio_bus 0x1F7 op (\<lambda>s. s AND 0x80 = 0) n p =
      poll_loop pio_bus 0x1F7 op (\<lambda>s. s AND 0x80 = 0) (n - 1) ?q"
    using Suc(2,3) by (subst poll_loop.simps) (simp add: pio_in8_def pio_status_def)
  also have "\<dots> = (Ok (pio_status (?q\<lparr>pio_busy := 0\<rparr>)), ?q\<lparr>pio_busy := 0\<rparr>)"
    using Suc(2,3) by (intro Suc(1)) auto
  finally show ?case by simp
qed

lemma pio_busy_poll_timeout:
  "n \<le> pio_busy p \<Longrightarrow> \<exists>e q. poll_loop pio_bus 0x1F7 op (\<lambda>s. s AND 0x80 = 0) n p = (Err e, q)"
proof (induction n arbitrary: p)
  case (Suc n)
  have "poll_loop pio_bus 0x1F7 op (\<lambda>s. s AND 0x80 = 0) (Suc n) p =
      poll_loop pio_bus 0x1F7 op (\<lambda>s. s AND 0x80 = 0) n (p\<lparr>pio_busy := pio_busy p - 1\<rparr>)"
    using Suc(2) by (subst poll_loop.simps) (simp add: pio_in8_def pio_status_def)
  then show ?case using Suc by auto
qed (simp add: poll_loop.simps)

lemma lba_registers:
  assumes "unat lba < 2 ^ 28"
  shows "le32 (ucast (lba AND 0xFF)) (ucast (drop_bit 8 lba AND 0xFF)) (ucast (drop_bit 16 lba AND 0xFF))
     ((0xE0 OR ucast (drop_bit 24 lba AND 0x0F)) AND 0x0F) = lba"
proof -
  have "drop_bit 28 lba = 0"
    using assms by (simp add: word_unat_eq_iff unat_drop_bit)
  then have hi': "\<not> bit lba n" if "28 \<le> n" for n
  proof -
    have "bit (drop_bit 28 lba) (n - 28) = bit lba n"
      using that by (simp add: bit_drop_bit_eq)
    then show ?thesis using \<open>drop_bit 28 lba = 0\<close> by simp
  qed
  have c: "ucast (w AND 0xFF) = (ucast w :: u8)" for w :: u32
    by (rule bit_word_eqI) (auto simp: bit_simps bit_numeral_rec less_Suc_eq numeral_eq_Suc)
  have h: "(0xE0 OR ucast (drop_bit 24 lba AND 0x0F)) AND 0x0F = (ucast (drop_bit 24 lba) :: u8)"
  proof (rule bit_word_eqI)
    fix n assume "n < LENGTH(8)"
    then have "n \<in> {0, 1, 2, 3, 4, 5, 6, 7}" by auto
    then show "bit ((0xE0 OR ucast (drop_bit 24 lba AND 0x0F)) AND 0x0F :: u8) n = bit (ucast (drop_bit 24 lba) :: u8) n"
      using hi' [of 28] hi' [of 29] hi' [of 30] hi' [of 31] by (auto simp: bit_simps)
  qed
  show ?thesis unfolding c h by (rule le32_of_bytes)
qed

lemma select_pio:
  assumes "unat lba < 2 ^ 28" "pio_latency p < MAX_POLL_ITERATIONS" "cmd = 0x20 \<or> cmd = 0x30"
  shows "\<exists>q. select_drive_and_issue_command pio_bus lba op cmd p = (Ok 0x58, q)
     \<and> pio_store q = pio_store p \<and> pio_latency q = pio_latency p \<and> pio_busy q = 0 \<and> pio_lba q = lba
     \<and> cmos_regs q = cmos_regs p
     \<and> pio_mode q = (if cmd = 0x20 then Pio_Reading (word_pairs (pio_store p lba)) else Pio_Writing [])"
proof -
  let ?h = "0xE0 OR ucast (drop_bit 24 lba AND 0x0F) :: u8"
  let ?r = "p\<lparr>pio_head := ?h, pio_low := ucast (lba AND 0xFF), pio_mid := ucast (drop_bit 8 lba AND 0xFF),
     pio_high := ucast (drop_bit 16 lba AND 0xFF)\<rparr>"
  let ?q = "pio_out8 0x1F7 cmd ?r"
  have lba: "pio_lba ?r = lba" using lba_registers [OF assms(1)] by (simp add: pio_lba_def)
  have w: "warmup_reads pio_bus x = x" for x
    by (simp add: warmup_reads_def pio_in8_def ata_constants flip: id_def)
  have mode: "pio_mode ?q = (if cmd = 0x20 then Pio_Reading (word_pairs (pio_store p lba)) else Pio_Writing [])"
    "pio_busy ?q = pio_latency p"
    using assms(3) lba by (auto simp: pio_out8_def Let_def)
  have st: "pio_status (?q\<lparr>pio_busy := 0\<rparr>) = 0x58"
    using mode assms(3) by (auto simp: pio_status_def)
  have poll: "poll_until pio_bus 0x1F7 op (\<lambda>s. s AND 0x80 = 0) ?q = (Ok 0x58, ?q\<lparr>pio_busy := 0\<rparr>)"
    unfolding poll_until_def st [symmetric] using assms(2) mode by (intro pio_busy_poll) simp
  have eq: "select_drive_and_issue_command pio_bus lba op cmd p = (Ok 0x58, ?q\<lparr>pio_busy := 0\<rparr>)"
    using poll unfolding select_drive_and_issue_command_def
    by (simp add: io_bind_def out8_def ata_constants w) (simp add: pio_out8_def)
  show ?thesis
    unfolding eq using mode lba assms(3) by (auto simp: pio_out8_def Let_def pio_lba_def)
qed

lemma le16_bytes [simp]:
  "ucast (le16 a b AND 0xFF) = a" "ucast (drop_bit 8 (le16 a b)) = b"
proof -
  have "ucast (w AND 0xFF) = (ucast w :: u8)" for w :: u16
    by (rule bit_word_eqI) (auto simp: bit_simps bit_numeral_rec less_Suc_eq numeral_eq_Suc)
  then show "ucast (le16 a b AND 0xFF) = a" by (simp add: le16_def)
qed (simp add: le16_def)

lemma read_words_pio:
  "length bs = 2 * n \<Longrightarrow> pio_mode p = Pio_Reading (word_pairs bs) \<Longrightarrow> 0 < n \<Longrightarrow>
   read_words pio_bus n p = (bs, p\<lparr>pio_mode := Pio_Idle\<rparr>)"
proof (induction n arbitrary: bs p)
  case (Suc n)
  then obtain a b cs where bs: "bs = a # b # cs" "length cs = 2 * n"
    by (auto simp: length_Suc_conv)
  show ?case
  proof (cases n)
    case 0
    then show ?thesis using Suc.prems bs by (simp add: pio_in16_def)
  next
    case (Suc m)
    then obtain c d es where "cs = c # d # es" using bs(2) by (auto simp: length_Suc_conv)
    then show ?thesis
      using Suc.prems Suc.IH [of cs "p\<lparr>pio_mode := Pio_Reading (word_pairs cs)\<rparr>"] bs Suc
      by (simp add: pio_in16_def)
  qed
qed simp

lemma write_words_pio:
  "pio_mode p = Pio_Writing ws \<Longrightarrow> length bs = 2 * (256 - length ws) \<Longrightarrow> length ws < 256 \<Longrightarrow>
   write_words pio_bus bs p = p\<lparr>pio_mode := Pio_Idle, pio_busy := pio_latency p,
     pio_store := (pio_store p)(pio_lba p := concat (map le_bytes16 ws) @ bs)\<rparr>"
proof (induction "256 - length ws" arbitrary: ws bs p)
  case (Suc n)
  have "length bs = Suc (Suc (2 * n))"
    using Suc.prems(2) Suc.hyps(2) [symmetric] by simp
  then obtain a b cs where bs: "bs = a # b # cs" "length cs = 2 * n"
    by (auto simp: length_Suc_conv)
  have word: "(ucast a OR push_bit 8 (ucast b) :: u16) = le16 a b"
    by (simp add: le16_def be16_def or.commute)
  show ?case
  proof (cases n)
    case 0
    then have "length ws = 255" using Suc(2,5) by simp
    then show ?thesis using Suc.prems bs 0 by (simp add: pio_out16_def word)
  next
    case (Suc m)
    then have l: "length ws < 255" using Suc.hyps(2) by simp
    let ?p = "p\<lparr>pio_mode := Pio_Writing (ws @ [le16 a b])\<rparr>"
    have "write_words pio_bus cs ?p = ?p\<lparr>pio_mode := Pio_Idle, pio_busy := pio_latency ?p,
       pio_store := (pio_store ?p)(pio_lba ?p := concat (map le_bytes16 (ws @ [le16 a b])) @ cs)\<rparr>"
      using Suc.hyps Suc.prems bs l by (intro Suc.hyps(1)) auto
    then show ?thesis
      using Suc.prems bs l by (simp add: pio_out16_def word pio_lba_def)
  qed
qed simp

lemma poll_drq:
  "pio_busy p = 0 \<Longrightarrow> pio_mode p \<noteq> Pio_Idle \<Longrightarrow>
   poll_until pio_bus 0x1F7 op (\<lambda>s. s AND 0x08 \<noteq> 0) p = (Ok 0x58, p)"
  unfolding poll_until_def
  by (subst poll_loop_ready [of _ _ _ "0x58"])
    (auto simp: pio_in8_def pio_status_def MAX_POLL_ITERATIONS_def split: pio_mode.split)

lemma pio_read:
  assumes "pio_ready p" "unat lba < 2 ^ 28"
  shows "\<exists>q. read_sector pio_bus lba p = (Ok (pio_store p lba), q) \<and> pio_ready q \<and> pio_store q = pio_store p"
proof -
  have lat: "pio_latency p < MAX_POLL_ITERATIONS" and len: "length (pio_store p lba) = 2 * 256"
    using assms(1) by (simp_all add: pio_ready_def)
  obtain q where sel: "select_drive_and_issue_command pio_bus lba ''read'' 0x20 p = (Ok 0x58, q)"
      and q: "pio_store q = pio_store p" "pio_latency q = pio_latency p" "pio_busy q = 0"
        "cmos_regs q = cmos_regs p"
        "pio_mode q = Pio_Reading (word_pairs (pio_store p lba))"
    using select_pio [OF assms(2) lat, of "0x20" "''read''"] by auto
  have "read_words pio_bus 256 q = (pio_store p lba, q\<lparr>pio_mode := Pio_Idle\<rparr>)"
    using q(5) len by (intro read_words_pio) simp_all
  then have "read_sector pio_bus lba p = (Ok (pio_store p lba), q\<lparr>pio_mode := Pio_Idle\<rparr>)"
    using sel poll_drq [OF q(3), of "''read''"] q(5)
    by (simp add: read_sector_def io_bind_def check_err_def ata_constants)
  then show ?thesis using assms(1) q by (simp add: pio_ready_def)
qed

lemma pio_idle_poll:
  assumes "pio_mode p = Pio_Idle" "pio_busy p < MAX_POLL_ITERATIONS"
  shows "poll_until pio_bus 0x1F7 op (\<lambda>s. s AND 0x80 = 0) p = (Ok 0x50, p\<lparr>pio_busy := 0\<rparr>)"
  unfolding poll_until_def pio_busy_poll [OF assms(2)] using assms(1) by (simp add: pio_status_def)

lemma pio_write:
  assumes "pio_ready p" "unat lba < 2 ^ 28" "length buf = 512"
  shows "\<exists>q. write_sector pio_bus lba buf p = (Ok (), q) \<and> pio_ready q
     \<and> pio_store q = (pio_store p)(lba := buf)"
proof -
  have lat: "pio_latency p < MAX_POLL_ITERATIONS"
    using assms(1) by (simp add: pio_ready_def)
  obtain q where sel: "select_drive_and_issue_command pio_bus lba ''write'' 0x30 p = (Ok 0x58, q)"
      and q: "pio_store q = pio_store p" "pio_latency q = pio_latency p" "pio_busy q = 0"
        "cmos_regs q = cmos_regs p"
        "pio_mode q = Pio_Writing []" "pio_lba q = lba"
    using select_pio [OF assms(2) lat, of "0x30" "''write''"] by auto
  define r where "r = q\<lparr>pio_mode := Pio_Idle, pio_busy := pio_latency p, pio_store := (pio_store p)(lba := buf)\<rparr>"
  have words: "write_words pio_bus buf q = r"
    using write_words_pio [OF q(5), of buf] assms(3) q by (simp add: r_def)
  have p1: "poll_until pio_bus 0x1F7 ''write'' (\<lambda>s. s AND 0x80 = 0) r = (Ok 0x50, r\<lparr>pio_busy := 0\<rparr>)"
    using lat by (intro pio_idle_poll) (simp_all add: r_def)
  have fl: "pio_out8 0x1F7 0xE7 (r\<lparr>pio_busy := 0\<rparr>) = r"
    using q(2) by (simp add: pio_out8_def r_def)
  have "write_sector pio_bus lba buf p = (Ok (), r\<lparr>pio_busy := 0\<rparr>)"
    using sel poll_drq [OF q(3), of "''write''"] q(5) words p1 fl
    by (simp add: write_sector_def io_bind_def check_err_def ata_constants out8_def)
  then show ?thesis using assms q by (simp add: pio_ready_def r_def)
qed

interpretation pio: ata_disk pio_bus pio_store pio_ready
proof
  show "pio_ready d \<Longrightarrow> length (pio_store d lba) = 512" for d lba
    by (simp add: pio_ready_def)
qed (rule pio_read pio_write; assumption)+

section \<open>Properties\<close>

text \<open>
  The driver always comes back: whatever the hardware answers, polling is bounded.
\<close>

lemma poll_loop_returns: "returns (fst (poll_loop bus port op finished n d))"
proof (induction n arbitrary: d)
  case (Suc n)
  then show ?case by (subst poll_loop.simps) (simp add: split_beta)
qed (simp add: poll_loop.simps)

lemma returns_io_bind:
  "returns (fst (m d)) \<Longrightarrow> (\<And>a d'. returns (fst (f a d'))) \<Longrightarrow> returns (fst (io_bind m f d))"
  by (auto simp: io_bind_def split: outcome.split)

lemma ata_steps_return:
  "returns (fst (poll_until bus port op finished d))" "returns (fst (out8 bus port v d))"
  "returns (fst (check_err e st d))"
  by (simp_all add: poll_until_def poll_loop_returns out8_def check_err_def)

lemma select_returns: "returns (fst (select_drive_and_issue_command bus lba op cmd d))"
  unfolding select_drive_and_issue_command_def
  by (intro returns_io_bind ata_steps_return) simp

text \<open>
  C29: The sector driver. Against a drive that follows the PIO protocol, whatever its latency
  below the poll bound, writing a sector and reading any sector below 2^28 afterwards returns the
  written bytes, or the old content of another sector. Against arbitrary hardware both operations
  return: a value or an error, never a panic and never an endless wait.
\<close>

theorem ata_sector_correct:
  shows "returns (fst (read_sector bus lba d)) \<and> returns (fst (write_sector bus lba buf d))
    \<and> (pio_ready p \<longrightarrow> unat lba < 2 ^ 28 \<longrightarrow> unat lba' < 2 ^ 28 \<longrightarrow> length buf = 512 \<longrightarrow>
       (\<exists>p1 p2. write_sector pio_bus lba buf p = (Ok (), p1)
          \<and> read_sector pio_bus lba' p1 = (Ok (if lba' = lba then buf else pio_store p lba'), p2) \<and> pio_ready p2))"
proof -
  have "returns (fst (read_sector bus lba d))"
    unfolding read_sector_def
    by (intro returns_io_bind ata_steps_return select_returns) (simp add: split_beta)
  moreover have "returns (fst (write_sector bus lba buf d))"
    unfolding write_sector_def
    by (intro returns_io_bind ata_steps_return select_returns) simp
  ultimately show ?thesis using pio.read_after_write [of p lba lba' buf] by simp
qed

definition blank_drive :: pio_drive where
  "blank_drive = \<lparr>pio_store = (\<lambda>_. replicate 512 0), pio_low = 0, pio_mid = 0, pio_high = 0, pio_head = 0,
     pio_busy = 0, pio_latency = 3, pio_mode = Pio_Idle,
     cmos_index = 0, cmos_regs = (\<lambda>r. if r = 0x0B then 0x06 else 0)\<rparr>"

lemma blank_drive_ready: "pio_ready blank_drive"
  by (simp add: pio_ready_def blank_drive_def MAX_POLL_ITERATIONS_def)

theorem ata_sector_correct_witness:
  "\<exists>p1 p2. write_sector pio_bus 70000 (replicate 512 7) blank_drive = (Ok (), p1)
     \<and> read_sector pio_bus 70000 p1 = (Ok (replicate 512 7), p2) \<and> pio_ready p2"
  using ata_sector_correct [of pio_bus 70000 blank_drive "replicate 512 7" blank_drive 70000] blank_drive_ready
  by simp

text \<open>
  A drive that stays busy too long is reported, not waited for: if the busy bit is still set
  after \<open>MAX_POLL_ITERATIONS\<close> polls, reading and writing end with an error and the stored sectors
  are what they were.
\<close>

lemma poll_loop_store: "pio_store (snd (poll_loop pio_bus 0x1F7 op finished n p)) = pio_store p"
proof (induction n arbitrary: p)
  case (Suc n)
  then show ?case by (subst poll_loop.simps) (simp add: pio_in8_def)
qed (simp add: poll_loop.simps)

lemma select_timeout:
  assumes "MAX_POLL_ITERATIONS \<le> pio_latency p"
  shows "\<exists>e q. select_drive_and_issue_command pio_bus lba op cmd p = (Err e, q) \<and> pio_store q = pio_store p"
proof -
  have w: "warmup_reads pio_bus x = x" for x
    by (simp add: warmup_reads_def pio_in8_def ata_constants flip: id_def)
  define q where "q = pio_out8 0x1F7 cmd (pio_out8 0x1F5 (ucast (drop_bit 16 lba AND 0xFF))
     (pio_out8 0x1F4 (ucast (drop_bit 8 lba AND 0xFF)) (pio_out8 0x1F3 (ucast (lba AND 0xFF))
     (pio_out8 0x1F2 1 (pio_out8 0x1F6 (0xE0 OR ucast (drop_bit 24 lba AND 0x0F)) p)))))"
  have q: "pio_busy q = pio_latency p" "pio_store q = pio_store p"
    by (simp_all add: q_def pio_out8_def Let_def)
  have "select_drive_and_issue_command pio_bus lba op cmd p = poll_until pio_bus 0x1F7 op (\<lambda>s. s AND 0x80 = 0) q"
    by (simp add: select_drive_and_issue_command_def io_bind_def out8_def ata_constants w q_def)
  then show ?thesis
    using pio_busy_poll_timeout [of MAX_POLL_ITERATIONS q op] assms q
      poll_loop_store [of op "\<lambda>s. s AND 0x80 = 0" MAX_POLL_ITERATIONS q]
    by (auto simp: poll_until_def)
qed

lemma ata_timeout:
  assumes "MAX_POLL_ITERATIONS \<le> pio_latency p"
  shows "(\<exists>e q. read_sector pio_bus lba p = (Err e, q) \<and> pio_store q = pio_store p)
    \<and> (\<exists>e q. write_sector pio_bus lba buf p = (Err e, q) \<and> pio_store q = pio_store p)"
proof -
  obtain e q where "select_drive_and_issue_command pio_bus lba ''read'' CMD_READ_SECTORS p = (Err e, q)"
      "pio_store q = pio_store p"
    using select_timeout [OF assms] by blast
  moreover obtain e' q' where "select_drive_and_issue_command pio_bus lba ''write'' CMD_WRITE_SECTORS p = (Err e', q')"
      "pio_store q' = pio_store p"
    using select_timeout [OF assms] by blast
  ultimately show ?thesis
    by (simp add: read_sector_def write_sector_def io_bind_def)
qed

end
