(* ===== verification/Rtc.thy ===== *)
theory Rtc
  imports Ata
begin

text \<open>
  Model of \<^verbatim>\<open>rtc.rs\<close>, the CMOS real-time clock, and of \<^verbatim>\<open>to_fat_datetime\<close> from \<^verbatim>\<open>fat12.rs\<close>,
  which packs its value for the disk. The clock is read through the same port bus as the disk.
  Both waiting loops of the source depend on the hardware alone, so they are partial functions:
  not returning is the value \<open>None\<close>, which \<open>read_time\<close> reports as \<open>Diverge\<close>.
\<close>

section \<open>Definitions\<close>

record rtc_time =
  rtc_year :: u16
  rtc_month :: u8
  rtc_day :: u8
  rtc_hours :: u8
  rtc_minutes :: u8
  rtc_seconds :: u8

definition read_register :: "'d port_bus \<Rightarrow> u8 \<Rightarrow> 'd \<Rightarrow> u8 \<times> 'd" where
  "read_register bus reg d = port_read8 bus 0x71 (port_write8 bus 0x70 reg d)"

partial_function (option) wait_update :: "'d port_bus \<Rightarrow> 'd \<Rightarrow> 'd option" where
  "wait_update bus d =
     (let (a, d') = read_register bus 0x0A d in if a AND 0x80 \<noteq> 0 then wait_update bus d' else Some d')"

type_synonym raw_registers = "u8 \<times> u8 \<times> u8 \<times> u8 \<times> u8 \<times> u8 \<times> u8"

definition read_seven :: "'d port_bus \<Rightarrow> 'd \<Rightarrow> raw_registers \<times> 'd" where
  "read_seven bus d0 =
     (let (s, d1) = read_register bus 0x00 d0;
          (mi, d2) = read_register bus 0x02 d1;
          (h, d3) = read_register bus 0x04 d2;
          (da, d4) = read_register bus 0x07 d3;
          (mo, d5) = read_register bus 0x08 d4;
          (y, d6) = read_register bus 0x09 d5;
          (b, d7) = read_register bus 0x0B d6
      in ((s, mi, h, da, mo, y, b), d7))"

definition read_raw_registers :: "'d port_bus \<Rightarrow> 'd \<Rightarrow> (raw_registers \<times> 'd) option" where
  "read_raw_registers bus d = map_option (read_seven bus) (wait_update bus d)"

partial_function (option) read_until_stable :: "'d port_bus \<Rightarrow> raw_registers \<Rightarrow> 'd \<Rightarrow> (raw_registers \<times> 'd) option" where
  "read_until_stable bus raw d =
     (case read_raw_registers bus d of
        None \<Rightarrow> None
      | Some (raw_again, d') \<Rightarrow>
          if raw = raw_again then Some (raw, d') else read_until_stable bus raw_again d')"

definition bcd_to_binary :: "u8 \<Rightarrow> u8" where
  "bcd_to_binary v = (v AND 0x0F) + drop_bit 4 v * 10"

definition normalize_hours_12h :: "u8 \<Rightarrow> u8 \<Rightarrow> u8" where
  "normalize_hours_12h hours_raw hours_12 =
     (if hours_raw AND 0x80 \<noteq> 0 then (hours_12 mod 12) + 12
      else if hours_12 = 12 then 0 else hours_12)"

definition decode_registers :: "raw_registers \<Rightarrow> rtc_time" where
  "decode_registers raw =
     (let (seconds_raw, minutes_raw, hours_raw, day_raw, month_raw, year_raw, status_b) = raw;
          is_binary = (status_b AND 0x04 \<noteq> 0);
          is_24h = (status_b AND 0x02 \<noteq> 0);
          conv = (if is_binary then id else bcd_to_binary);
          hours = conv (hours_raw AND NOT 0x80)
      in \<lparr>rtc_year = 2000 + ucast (conv year_raw), rtc_month = conv month_raw, rtc_day = conv day_raw,
          rtc_hours = (if \<not> is_24h then normalize_hours_12h hours_raw hours else hours),
          rtc_minutes = conv minutes_raw, rtc_seconds = conv seconds_raw\<rparr>)"

definition read_time :: "'d port_bus \<Rightarrow> ('d, rtc_time) io" where
  "read_time bus d =
     (case read_raw_registers bus d of
        None \<Rightarrow> (Diverge, d)
      | Some (raw, d1) \<Rightarrow>
          (case read_until_stable bus raw d1 of
             None \<Rightarrow> (Diverge, d1)
           | Some (raw', d2) \<Rightarrow> (Ok (decode_registers raw'), d2)))"

definition to_fat_datetime :: "rtc_time \<Rightarrow> u16 \<times> u16" where
  "to_fat_datetime t =
     (let fat_time = push_bit 11 (ucast (rtc_hours t)) OR push_bit 5 (ucast (rtc_minutes t))
            OR (ucast (rtc_seconds t) div 2);
          year_offset = min (if rtc_year t < 1980 then 0 else rtc_year t - 1980) 127;
          fat_date = push_bit 9 year_offset OR push_bit 5 (ucast (rtc_month t)) OR ucast (rtc_day t)
      in (fat_time, fat_date))"

section \<open>Reading a clock that is not changing\<close>

lemma pio_read_register:
  "read_register pio_bus reg p = (cmos_regs p reg, p\<lparr>cmos_index := reg\<rparr>)"
  by (simp add: read_register_def pio_out8_def pio_in8_def)

definition clock_registers :: "pio_drive \<Rightarrow> raw_registers" where
  "clock_registers p = (cmos_regs p 0x00, cmos_regs p 0x02, cmos_regs p 0x04, cmos_regs p 0x07,
     cmos_regs p 0x08, cmos_regs p 0x09, cmos_regs p 0x0B)"

lemma pio_read_raw:
  assumes "cmos_regs p 0x0A AND 0x80 = 0"
  shows "read_raw_registers pio_bus p = Some (clock_registers p, p\<lparr>cmos_index := 0x0B\<rparr>)"
proof -
  have "wait_update pio_bus p = Some (p\<lparr>cmos_index := 0x0A\<rparr>)"
    using assms by (subst wait_update.simps) (simp add: pio_read_register)
  then show ?thesis
    by (simp add: read_raw_registers_def read_seven_def pio_read_register clock_registers_def)
qed

lemma pio_read_time:
  assumes "cmos_regs p 0x0A AND 0x80 = 0"
  shows "read_time pio_bus p = (Ok (decode_registers (clock_registers p)), p\<lparr>cmos_index := 0x0B\<rparr>)"
proof -
  have "read_until_stable pio_bus (clock_registers p) (p\<lparr>cmos_index := 0x0B\<rparr>) =
      Some (clock_registers p, p\<lparr>cmos_index := 0x0B\<rparr>)"
    using assms pio_read_raw [of "p\<lparr>cmos_index := 0x0B\<rparr>"]
    by (subst read_until_stable.simps) (simp add: clock_registers_def)
  then show ?thesis using pio_read_raw [OF assms] by (simp add: read_time_def)
qed

section \<open>A machine with a disk and a clock\<close>

text \<open>
  What the file system needs besides the disk: reading the clock ends, yields some time and leaves
  the disk alone.
\<close>

locale disk_machine = ata_disk +
  assumes clock_law: "ready d \<Longrightarrow> \<exists>t d'. read_time bus d = (Ok t, d') \<and> ready d' \<and> sects d' = sects d"

interpretation pc: disk_machine pio_bus pio_store pio_ready
proof
  fix p
  assume "pio_ready p"
  then show "\<exists>t q. read_time pio_bus p = (Ok t, q) \<and> pio_ready q \<and> pio_store q = pio_store p"
    using pio_read_time [of p] by (simp add: pio_ready_def)
qed

section \<open>Formats of the clock\<close>

text \<open>
  How a clock chip stores a time: in binary or in binary coded decimal, with hours from 0 to 23 or
  from 1 to 12 with the afternoon flag.
\<close>

definition to_bcd :: "nat \<Rightarrow> nat" where
  "to_bcd v = 16 * (v div 10) + v mod 10"

definition clock_digit :: "bool \<Rightarrow> nat \<Rightarrow> u8" where
  "clock_digit binary v = of_nat (if binary then v else to_bcd v)"

definition clock_hours :: "bool \<Rightarrow> bool \<Rightarrow> nat \<Rightarrow> u8" where
  "clock_hours binary h24 h =
     (if h24 then clock_digit binary h
      else clock_digit binary (if h mod 12 = 0 then 12 else h mod 12) OR (if 12 \<le> h then 0x80 else 0))"

definition clock_status_b :: "bool \<Rightarrow> bool \<Rightarrow> u8" where
  "clock_status_b binary h24 = (if binary then 0x04 else 0) OR (if h24 then 0x02 else 0)"

lemma bcd_to_binary_to_bcd: "v < 100 \<Longrightarrow> bcd_to_binary (of_nat (to_bcd v)) = of_nat v"
proof -
  assume v: "v < 100"
  have lt: "to_bcd v < 256" using v by (simp add: to_bcd_def)
  then have u: "unat (of_nat (to_bcd v) :: u8) = to_bcd v" by (simp add: unat_of_nat)
  have "unat ((of_nat (to_bcd v) :: u8) AND 0x0F) = v mod 10"
    using unat_and_mask [of "of_nat (to_bcd v) :: u8" 4] u by (simp add: mask_numeral to_bcd_def)
  moreover have "unat (drop_bit 4 (of_nat (to_bcd v) :: u8)) = v div 10"
    using u by (simp add: unat_drop_bit to_bcd_def)
  ultimately have "unat (bcd_to_binary (of_nat (to_bcd v))) = v"
    using v by (simp add: bcd_to_binary_def unat_word_ariths)
  then show ?thesis using v by (simp add: word_unat_eq_iff unat_of_nat)
qed

lemma conv_clock_digit:
  "v < 100 \<Longrightarrow> (if b then id else bcd_to_binary) (clock_digit b v) = of_nat v"
  by (simp add: clock_digit_def bcd_to_binary_to_bcd)

lemma and_not_exp:
  "\<not> bit (x :: 'a::len word) n \<Longrightarrow> x AND NOT (2 ^ n) = x"
  "\<not> bit x n \<Longrightarrow> (x OR 2 ^ n) AND NOT (2 ^ n) = x"
  by (auto simp: bit_simps intro!: bit_word_eqI)

lemma pm_flag:
  assumes "unat (x :: u8) < 128"
  shows "x AND NOT 0x80 = x" "(x OR 0x80) AND NOT 0x80 = x" "(x OR 0x80) AND 0x80 \<noteq> 0" "x AND 0x80 = 0"
proof -
  have c: "(0x80 :: u8) = 2 ^ 7" by simp
  have "drop_bit 7 x = 0" using assms by (simp add: word_unat_eq_iff unat_drop_bit)
  moreover have "bit (drop_bit 7 x) 0 = bit x 7" by (simp add: bit_drop_bit_eq)
  ultimately have b: "\<not> bit x 7" by simp
  show "x AND 0x80 = 0" unfolding c and_exp_eq_0_iff_not_bit by (rule b)
  show "(x OR 0x80) AND 0x80 \<noteq> 0" unfolding c and_exp_eq_0_iff_not_bit by (simp add: bit_simps)
  show "x AND NOT 0x80 = x" "(x OR 0x80) AND NOT 0x80 = x"
    unfolding c by (rule and_not_exp [OF b])+
qed

lemma clock_digit_small: "v < 80 \<Longrightarrow> unat (clock_digit b v) < 128"
proof -
  assume "v < 80"
  then have "v div 10 \<le> 7" by linarith
  then have "to_bcd v < 128" unfolding to_bcd_def using pos_mod_bound [of 10 "int v"] by (simp add: nat_less_iff)
  then show ?thesis using \<open>v < 80\<close> by (simp add: clock_digit_def unat_of_nat)
qed

lemma decode_clock_hours:
  assumes "h < 24"
  shows "(let hours = (if b then id else bcd_to_binary) (clock_hours b h24 h AND NOT 0x80)
    in if \<not> h24 then normalize_hours_12h (clock_hours b h24 h) hours else hours) = of_nat h"
proof (cases h24)
  case True
  then show ?thesis
    using assms conv_clock_digit [of h b] pm_flag(1) [OF clock_digit_small [of h b]]
    by (simp add: clock_hours_def)
next
  case False
  define h12 where "h12 = (if h mod 12 = 0 then 12 else h mod 12)"
  have h12: "h12 \<le> 12" "h12 < 80" "h12 < 100" by (auto simp: h12_def intro: order.strict_implies_order)
  note flag = pm_flag [OF clock_digit_small [OF h12(2)]]
  note conv = conv_clock_digit [OF h12(3), of b]
  have md: "(of_nat h12 :: u8) mod 12 = of_nat (h mod 12)"
    using h12 by (simp add: word_unat_eq_iff unat_mod unat_of_nat h12_def)
  show ?thesis
  proof (cases "12 \<le> h")
    case True
    then have "h mod 12 = h - 12" using assms by (simp add: le_mod_geq)
    then have "of_nat (h mod 12) + 12 = (of_nat h :: u8)" using True by (simp add: of_nat_diff)
    then show ?thesis
      using False True flag conv md by (simp add: clock_hours_def h12_def [symmetric] normalize_hours_12h_def)
  next
    case h: False
    have "(of_nat h12 = (12 :: u8)) = (h = 0)"
      using h h12 by (auto simp: h12_def word_unat_eq_iff unat_of_nat)
    moreover have "clock_hours b h24 h = clock_digit b h12"
      using False h by (simp add: clock_hours_def h12_def)
    ultimately show ?thesis
      using False h flag conv by (cases "h = 0") (simp_all add: normalize_hours_12h_def h12_def)
  qed
qed

lemma decode_registers_correct:
  assumes "y < 100" "mo < 100" "da < 100" "h < 24" "mi < 100" "s < 100"
  shows "decode_registers (clock_digit b s, clock_digit b mi, clock_hours b h24 h, clock_digit b da,
       clock_digit b mo, clock_digit b y, clock_status_b b h24)
     = \<lparr>rtc_year = 2000 + of_nat y, rtc_month = of_nat mo, rtc_day = of_nat da, rtc_hours = of_nat h,
        rtc_minutes = of_nat mi, rtc_seconds = of_nat s\<rparr>"
proof -
  have b: "(clock_status_b b h24 AND 0x04 \<noteq> 0) = b" "(clock_status_b b h24 AND 0x02 \<noteq> 0) = h24"
    by (auto simp: clock_status_b_def)
  have yy: "ucast (of_nat y :: u8) = (of_nat y :: u16)"
    using assms(1) by (simp add: word_unat_eq_iff unat_ucast_mod unat_of_nat)
  show ?thesis
    using assms yy conv_clock_digit [of y b] conv_clock_digit [of mo b] conv_clock_digit [of da b]
      conv_clock_digit [of mi b] conv_clock_digit [of s b] decode_clock_hours [OF assms(4), of b h24]
    unfolding decode_registers_def Let_def prod.case b by simp
qed

section \<open>Packed times\<close>

lemma u16_high_bits: "unat (w :: u16) < 2 ^ m \<Longrightarrow> m \<le> n \<Longrightarrow> \<not> bit w n"
  by (metis bit_take_bit_iff not_less take_bit_nat_eq_self_iff unsigned_take_bit_eq word_unat_eq_iff)

lemma packed_fields:
  fixes a b c :: u16
  assumes "unat a < 2 ^ (16 - k)" "unat b < 2 ^ (k - j)" "unat c < 2 ^ j" "j \<le> k" "k \<le> 16"
  shows "drop_bit k (push_bit k a OR push_bit j b OR c) = a"
    "take_bit (k - j) (drop_bit j (push_bit k a OR push_bit j b OR c)) = b"
    "take_bit j (push_bit k a OR push_bit j b OR c) = c"
proof -
  have hi: "bit a n \<Longrightarrow> n < 16 - k" "bit b n \<Longrightarrow> n < k - j" "bit c n \<Longrightarrow> n < j" for n
    using u16_high_bits assms(1-3) leI by blast+
  show "drop_bit k (push_bit k a OR push_bit j b OR c) = a"
    using assms(4,5) by (intro bit_word_eqI) (auto simp: bit_simps dest: hi)
  show "take_bit (k - j) (drop_bit j (push_bit k a OR push_bit j b OR c)) = b"
    using assms(4,5) by (intro bit_word_eqI) (auto simp: bit_simps dest: hi)
  show "take_bit j (push_bit k a OR push_bit j b OR c) = c"
    using assms(4,5) by (intro bit_word_eqI) (auto simp: bit_simps dest: hi)
qed

section \<open>Properties\<close>

text \<open>
  The clock is read correctly in all four register formats. If the CMOS registers of a clock
  that is not updating hold a time of the years 2000 to 2099, in binary or BCD and with 24-hour or
  12-hour counting (midnight is 12 AM, noon 12 PM), then \<^verbatim>\<open>read_time\<close> returns exactly that time,
  and the FAT fields that \<^verbatim>\<open>to_fat_datetime\<close> packs from it contain its hours, minutes, half
  seconds, years since 1980, month and day, each in its own bits.
\<close>

theorem rtc_time_correct:
  assumes "cmos_regs p 0x0A AND 0x80 = 0"
    and time: "y < 100" "mo \<le> 12" "da \<le> 31" "h < 24" "mi < 60" "s < 60"
    and regs: "clock_registers p = (clock_digit b s, clock_digit b mi, clock_hours b full h, clock_digit b da,
       clock_digit b mo, clock_digit b y, clock_status_b b full)"
  shows "\<exists>t. fst (read_time pio_bus p) = Ok t
     \<and> unat (rtc_year t) = 2000 + y \<and> unat (rtc_month t) = mo \<and> unat (rtc_day t) = da
     \<and> unat (rtc_hours t) = h \<and> unat (rtc_minutes t) = mi \<and> unat (rtc_seconds t) = s
     \<and> (let (ft, fd) = to_fat_datetime t in
         unat (drop_bit 11 ft) = h \<and> unat (take_bit 6 (drop_bit 5 ft)) = mi \<and> unat (take_bit 5 ft) = s div 2
         \<and> unat (drop_bit 9 fd) = 20 + y \<and> unat (take_bit 4 (drop_bit 5 fd)) = mo \<and> unat (take_bit 5 fd) = da)"
proof -
  define t where "t = \<lparr>rtc_year = 2000 + of_nat y, rtc_month = of_nat mo, rtc_day = of_nat da,
    rtc_hours = of_nat h, rtc_minutes = of_nat mi, rtc_seconds = of_nat s\<rparr>"
  have rt: "fst (read_time pio_bus p) = Ok t"
    using pio_read_time [OF assms(1)] decode_registers_correct [of y mo da h mi s b full] time regs
    by (simp add: t_def)
  have year: "unat (rtc_year t) = 2000 + y"
    using time(1) by (simp add: t_def unat_word_ariths unat_of_nat)
  have f: "unat (rtc_month t) = mo" "unat (rtc_day t) = da" "unat (rtc_hours t) = h"
    "unat (rtc_minutes t) = mi" "unat (rtc_seconds t) = s"
    using time by (simp_all add: t_def unat_of_nat)
  have yo: "unat (min (if rtc_year t < 1980 then 0 else rtc_year t - 1980) 127) = 20 + y"
  proof -
    have "\<not> rtc_year t < 1980" using year by (simp add: word_less_nat_alt)
    moreover have "unat (rtc_year t - 1980) = 20 + y" using year by (subst unat_sub) (simp_all add: word_le_nat_alt)
    ultimately show ?thesis using time(1) by (simp add: min_def word_le_nat_alt)
  qed
  have w: "unat (ucast (rtc_hours t) :: u16) = h" "unat (ucast (rtc_minutes t) :: u16) = mi"
    "unat (ucast (rtc_seconds t) div 2 :: u16) = s div 2" "unat (ucast (rtc_month t) :: u16) = mo"
    "unat (ucast (rtc_day t) :: u16) = da"
    using f by (simp_all add: unat_ucast_up unat_div)
  have ft: "fst (to_fat_datetime t) = push_bit 11 (ucast (rtc_hours t)) OR push_bit 5 (ucast (rtc_minutes t))
        OR (ucast (rtc_seconds t) div 2)"
    and fd: "snd (to_fat_datetime t) = push_bit 9 (min (if rtc_year t < 1980 then 0 else rtc_year t - 1980) 127)
        OR push_bit 5 (ucast (rtc_month t)) OR ucast (rtc_day t)"
    by (simp_all add: to_fat_datetime_def Let_def)
  note pt = packed_fields [of "ucast (rtc_hours t)" 11 "ucast (rtc_minutes t)" 5 "ucast (rtc_seconds t) div 2"]
  note pd = packed_fields [of "min (if rtc_year t < 1980 then 0 else rtc_year t - 1980) 127" 9
      "ucast (rtc_month t)" 5 "ucast (rtc_day t)"]
  have "unat (drop_bit 11 (fst (to_fat_datetime t))) = h \<and> unat (take_bit 6 (drop_bit 5 (fst (to_fat_datetime t)))) = mi
      \<and> unat (take_bit 5 (fst (to_fat_datetime t))) = s div 2"
    unfolding ft using pt w time by simp
  moreover have "unat (drop_bit 9 (snd (to_fat_datetime t))) = 20 + y
      \<and> unat (take_bit 4 (drop_bit 5 (snd (to_fat_datetime t)))) = mo \<and> unat (take_bit 5 (snd (to_fat_datetime t))) = da"
    unfolding fd using pd w yo time by simp
  ultimately show ?thesis using rt year f by (intro exI [of _ t]) (simp add: split_beta Let_def)
qed

definition evening_clock :: pio_drive where
  "evening_clock = blank_drive\<lparr>cmos_regs := (\<lambda>r. if r = 0x00 then 0x07 else if r = 0x02 then 0x59
     else if r = 0x04 then 0x91 else if r = 0x07 then 0x24 else if r = 0x08 then 0x12
     else if r = 0x09 then 0x26 else 0)\<rparr>"

theorem rtc_time_correct_witness:
  "\<exists>t. fst (read_time pio_bus evening_clock) = Ok t \<and> unat (rtc_hours t) = 23 \<and> unat (rtc_year t) = 2026"
  using rtc_time_correct [where p = evening_clock and y = "26" and mo = "12" and da = "24" and h = "23"
      and mi = "59" and s = "7" and b = False and full = False]
  by (auto simp: evening_clock_def clock_registers_def clock_digit_def clock_hours_def to_bcd_def
      clock_status_b_def)

end
