(* ===== verification/Fat12_Model.thy ===== *)
theory Fat12_Model
  imports Fat_Common Rtc
begin

text \<open>
  Model of \<^verbatim>\<open>fat12.rs\<close>: mounting, the packed 12-bit FAT, cluster chains, directories and the file
  and directory operations. \<^verbatim>\<open>&self\<close> operations take the mounted volume as an argument and run on
  the device; \<^verbatim>\<open>&mut self\<close> operations run on the pair of volume and device and keep what they
  changed when they end in an error. Arithmetic on \<^verbatim>\<open>u32\<close> wraps, as in the release build.

  The source walks cluster chains with \<^verbatim>\<open>while let\<close> loops. A chain has at most 4087 different
  links (12-bit values below 0xFF8), so a walk of 4096 steps that has not ended is in a cycle and
  never ends: the walks take 4096 steps and then yield \<open>Diverge\<close>.
\<close>

section \<open>Definitions: state and combinators\<close>

record fat12_info =
  sectors_per_cluster :: u8
  num_fats :: u8
  fat_size_16 :: u16
  root_entry_count :: u16
  reserved_sector_count :: u16
  partition_start_lba :: u32
  fat_bytes :: bytes

datatype dir_location = Root | Cluster u32

text \<open>An operation on the device alone, as an operation on volume and device.\<close>

definition disk_io :: "('d, 'a) io \<Rightarrow> ('i \<times> 'd, 'a) io" where
  "disk_io m s = (case s of (i, d) \<Rightarrow> case m d of (r, d') \<Rightarrow> (r, (i, d')))"

definition with_info :: "('i \<Rightarrow> ('i \<times> 'd, 'a) io) \<Rightarrow> ('i \<times> 'd, 'a) io" where
  "with_info f s = f (fst s) s"

fun io_for :: "'x list \<Rightarrow> ('x \<Rightarrow> ('s, unit) io) \<Rightarrow> ('s, unit) io" where
  "io_for [] f = io_ret ()"
| "io_for (x # xs) f = io_bind (f x) (\<lambda>_. io_for xs f)"

text \<open>The result of scanning one sector: return from the function, or go on with some state.\<close>

datatype ('a, 's) scan = Scan_Return 'a | Scan_More 's

section \<open>Definitions: mounting\<close>

fun load_fat :: "'d port_bus \<Rightarrow> u32 \<Rightarrow> nat list \<Rightarrow> bytes \<Rightarrow> ('d, bytes) io" where
  "load_fat bus first [] fat = io_ret fat"
| "load_fat bus first (s # ss) fat =
     io_bind (read_sector bus (first + of_nat s)) (\<lambda>buf. load_fat bus first ss (overwrite fat (s * 512) buf))"

definition read_bpb :: "'d port_bus \<Rightarrow> partition_entry \<Rightarrow> ('d, fat12_info) io" where
  "read_bpb bus part =
     io_bind (read_sector bus (start_lba part)) (\<lambda>sector.
     if sector ! 510 \<noteq> 0x55 \<or> sector ! 511 \<noteq> 0xAA
     then io_err ''FAT12: boot sector missing 0x55AA signature''
     else if le16 (sector ! 11) (sector ! 12) \<noteq> 512
     then io_err ''FAT12: only 512-byte sectors are supported''
     else
       let reserved = le16 (sector ! 14) (sector ! 15);
           root_count = le16 (sector ! 17) (sector ! 18);
           fat_size = le16 (sector ! 22) (sector ! 23)
       in if root_count = 0
          then io_err ''not FAT12/16 (root_entry_count == 0 means this is FAT32)''
          else if fat_size = 0
          then io_err ''FAT12: fat_size_16 is 0 - not a valid FAT12/16 BPB''
          else io_bind (load_fat bus (start_lba part + ucast reserved) [0..<unat fat_size]
                 (replicate (unat fat_size * 512) 0)) (\<lambda>fat.
               io_ret \<lparr>sectors_per_cluster = sector ! 13, num_fats = sector ! 16, fat_size_16 = fat_size,
                 root_entry_count = root_count, reserved_sector_count = reserved,
                 partition_start_lba = start_lba part, fat_bytes = fat\<rparr>))"

section \<open>Definitions: layout and the allocation table\<close>

definition div_ceil :: "u32 \<Rightarrow> u32 \<Rightarrow> u32" where
  "div_ceil a b = (if a mod b = 0 then a div b else a div b + 1)"

definition first_fat_sector :: "fat12_info \<Rightarrow> u32" where
  "first_fat_sector i = partition_start_lba i + ucast (reserved_sector_count i)"

definition root_dir_sectors :: "fat12_info \<Rightarrow> u32" where
  "root_dir_sectors i = div_ceil (ucast (root_entry_count i) * 32) 512"

definition first_root_dir_sector :: "fat12_info \<Rightarrow> u32" where
  "first_root_dir_sector i = first_fat_sector i + ucast (num_fats i) * ucast (fat_size_16 i)"

definition first_data_sector :: "fat12_info \<Rightarrow> u32" where
  "first_data_sector i = first_root_dir_sector i + root_dir_sectors i"

definition cluster_to_lba :: "fat12_info \<Rightarrow> u32 \<Rightarrow> u32" where
  "cluster_to_lba i cluster = first_data_sector i + (cluster - 2) * ucast (sectors_per_cluster i)"

definition cluster_sectors :: "fat12_info \<Rightarrow> u32 \<Rightarrow> u32 list" where
  "cluster_sectors i c = map (\<lambda>s. cluster_to_lba i c + of_nat s) [0..<unat (sectors_per_cluster i)]"

definition entry_offset :: "u32 \<Rightarrow> nat" where
  "entry_offset cluster = unat (cluster * 3 div 2)"

definition unpack_entry :: "u32 \<Rightarrow> u16 \<Rightarrow> u16" where
  "unpack_entry cluster raw16 = (if even (unat cluster) then raw16 AND 0x0FFF else drop_bit 4 raw16)"

definition fat_entry :: "bytes \<Rightarrow> u32 \<Rightarrow> u16" where
  "fat_entry fat cluster =
     unpack_entry cluster (le16 (fat ! entry_offset cluster) (fat ! (entry_offset cluster + 1)))"

definition next_cluster :: "fat12_info \<Rightarrow> u32 \<Rightarrow> u32 option outcome" where
  "next_cluster i cluster =
     (if length (fat_bytes i) \<le> entry_offset cluster + 1
      then Err ''FAT12: cluster number out of range for this FAT''
      else let entry = fat_entry (fat_bytes i) cluster
           in if entry = 0 then Err ''FAT12: cluster chain hit a free (0) entry unexpectedly''
              else if 0x0FF8 \<le> entry then Ok None else Ok (Some (ucast entry)))"

definition cluster_is_free :: "fat12_info \<Rightarrow> u32 \<Rightarrow> bool" where
  "cluster_is_free i cluster = is_err (next_cluster i cluster)"

fun cluster_chain :: "nat \<Rightarrow> fat12_info \<Rightarrow> u32 \<Rightarrow> u32 list outcome" where
  "cluster_chain 0 i c = Diverge"
| "cluster_chain (Suc n) i c =
     obind (next_cluster i c) (\<lambda>next.
       case next of None \<Rightarrow> Ok [c] | Some c' \<Rightarrow> omap (Cons c) (cluster_chain n i c'))"

definition chain_fuel :: nat where "chain_fuel = 4096"

definition root_lbas :: "fat12_info \<Rightarrow> u32 list" where
  "root_lbas i = map (\<lambda>s. first_root_dir_sector i + of_nat s) [0..<unat (root_dir_sectors i)]"

definition directory_sectors :: "fat12_info \<Rightarrow> dir_location \<Rightarrow> u32 list outcome" where
  "directory_sectors i dir =
     (case dir of
        Root \<Rightarrow> Ok (root_lbas i)
      | Cluster c \<Rightarrow> omap (\<lambda>cs. concat (map (cluster_sectors i) cs)) (cluster_chain chain_fuel i c))"

text \<open>The single pass of \<^verbatim>\<open>find_free_clusters\<close>: the cluster numbers still to look at and the ones found.\<close>

fun free_scan :: "bytes \<Rightarrow> nat \<Rightarrow> nat list \<Rightarrow> u32 list \<Rightarrow> u32 list" where
  "free_scan fat count [] found = found"
| "free_scan fat count (c # cs) found =
     (if length found = count then found
      else if length fat \<le> entry_offset (of_nat c) + 1 then found
      else free_scan fat count cs
             (if fat_entry fat (of_nat c) = 0 then found @ [of_nat c] else found))"

definition find_free_clusters :: "fat12_info \<Rightarrow> nat \<Rightarrow> u32 list outcome" where
  "find_free_clusters i count =
     (let total_entries = unat (of_nat (length (fat_bytes i) * 2 div 3) :: u32);
          found = free_scan (fat_bytes i) count [2..<total_entries] []
      in if length found < count then Err ''FAT12: not enough free clusters available for this file''
         else Ok found)"

definition pack_entry :: "u32 \<Rightarrow> u16 \<Rightarrow> u16 \<Rightarrow> u16" where
  "pack_entry cluster raw16 value =
     (let masked = value AND 0x0FFF
      in if even (unat cluster) then (raw16 AND 0xF000) OR masked
         else (raw16 AND 0x000F) OR push_bit 4 masked)"

definition write_fat_entry_to_disk :: "'d port_bus \<Rightarrow> u32 \<Rightarrow> u16 \<Rightarrow> (fat12_info \<times> 'd, unit) io" where
  "write_fat_entry_to_disk bus cluster value = with_info (\<lambda>i.
     let byte_offset = entry_offset cluster in
     if length (fat_bytes i) \<le> byte_offset + 1
     then io_err ''FAT12: cluster number out of range for this FAT''
     else
       let sector0 = first_fat_sector i + of_nat (byte_offset div 512);
           offset0 = byte_offset mod 512;
           straddles = (offset0 = 511)
       in
       io_bind (disk_io (read_sector bus sector0)) (\<lambda>buf0.
       io_bind (if straddles then disk_io (read_sector bus (sector0 + 1)) else io_ret (replicate 512 0)) (\<lambda>buf1.
       let byte0 = buf0 ! offset0;
           byte1 = (if straddles then buf1 ! 0 else buf0 ! (offset0 + 1));
           raw16 = pack_entry cluster (le16 byte0 byte1) value;
           out0 = ucast raw16;
           out1 = ucast (drop_bit 8 raw16);
           buf0' = buf0[offset0 := out0]
       in
       io_bind
         (if straddles
          then io_bind (disk_io (write_sector bus sector0 buf0')) (\<lambda>_.
               disk_io (write_sector bus (sector0 + 1) (buf1[0 := out1])))
          else disk_io (write_sector bus sector0 (buf0'[offset0 + 1 := out1]))) (\<lambda>_.
       \<lambda>(i, d). (Ok (), (i\<lparr>fat_bytes := (fat_bytes i)[byte_offset := out0, byte_offset + 1 := out1]\<rparr>, d))))))"

section \<open>Definitions: reading directories\<close>

fun list_sectors :: "'d port_bus \<Rightarrow> u32 list \<Rightarrow> dir_entry list \<Rightarrow> lfn_state \<Rightarrow> ('d, bool \<times> dir_entry list \<times> lfn_state) io" where
  "list_sectors bus [] entries lfn = io_ret (False, entries, lfn)"
| "list_sectors bus (lba # lbas) entries lfn =
     io_bind (read_sector bus lba) (\<lambda>buf.
       case parse_dir_sector buf entries lfn of
         (stop, entries', lfn') \<Rightarrow>
           if stop then io_ret (True, entries', lfn') else list_sectors bus lbas entries' lfn')"

definition list_root_directory :: "'d port_bus \<Rightarrow> fat12_info \<Rightarrow> ('d, dir_entry list) io" where
  "list_root_directory bus i =
     io_bind (list_sectors bus (root_lbas i) [] lfn_default) (\<lambda>(_, entries, _). io_ret entries)"

fun list_clusters :: "nat \<Rightarrow> 'd port_bus \<Rightarrow> fat12_info \<Rightarrow> u32 \<Rightarrow> dir_entry list \<Rightarrow> lfn_state \<Rightarrow> ('d, dir_entry list) io" where
  "list_clusters 0 bus i c entries lfn = io_lift Diverge"
| "list_clusters (Suc n) bus i c entries lfn =
     io_bind (list_sectors bus (cluster_sectors i c) entries lfn) (\<lambda>(stop, entries', lfn').
       if stop then io_ret entries'
       else io_bind (io_lift (next_cluster i c)) (\<lambda>next.
         case next of None \<Rightarrow> io_ret entries' | Some c' \<Rightarrow> list_clusters n bus i c' entries' lfn'))"

definition list_directory :: "'d port_bus \<Rightarrow> fat12_info \<Rightarrow> u32 \<Rightarrow> ('d, dir_entry list) io" where
  "list_directory bus i start_cluster = list_clusters chain_fuel bus i start_cluster [] lfn_default"

definition list_entries_in :: "'d port_bus \<Rightarrow> fat12_info \<Rightarrow> dir_location \<Rightarrow> ('d, dir_entry list) io" where
  "list_entries_in bus i dir =
     (case dir of Root \<Rightarrow> list_root_directory bus i | Cluster c \<Rightarrow> list_directory bus i c)"

fun count_in_sector :: "bytes list \<Rightarrow> nat \<Rightarrow> (nat, nat) scan" where
  "count_in_sector [] n = Scan_More n"
| "count_in_sector (raw # rs) n =
     (if raw ! 0 = 0x00 then Scan_Return n
      else count_in_sector rs (if raw ! 0 \<noteq> 0xE5 then n + 1 else n))"

fun count_sectors :: "'d port_bus \<Rightarrow> u32 list \<Rightarrow> nat \<Rightarrow> ('d, (nat, nat) scan) io" where
  "count_sectors bus [] n = io_ret (Scan_More n)"
| "count_sectors bus (lba # lbas) n =
     io_bind (read_sector bus lba) (\<lambda>buf.
       case count_in_sector (chunks 32 buf) n of
         Scan_Return m \<Rightarrow> io_ret (Scan_Return m)
       | Scan_More m \<Rightarrow> count_sectors bus lbas m)"

fun count_clusters :: "nat \<Rightarrow> 'd port_bus \<Rightarrow> fat12_info \<Rightarrow> u32 \<Rightarrow> nat \<Rightarrow> ('d, nat) io" where
  "count_clusters 0 bus i c n = io_lift Diverge"
| "count_clusters (Suc k) bus i c n =
     io_bind (count_sectors bus (cluster_sectors i c) n) (\<lambda>r.
       case r of
         Scan_Return m \<Rightarrow> io_ret m
       | Scan_More m \<Rightarrow> io_bind (io_lift (next_cluster i c)) (\<lambda>next.
           case next of None \<Rightarrow> io_ret m | Some c' \<Rightarrow> count_clusters k bus i c' m))"

definition count_used_slots_in :: "'d port_bus \<Rightarrow> fat12_info \<Rightarrow> u32 \<Rightarrow> ('d, nat) io" where
  "count_used_slots_in bus i dir_cluster = count_clusters chain_fuel bus i dir_cluster 0"

definition not_found :: "dir_location \<Rightarrow> string" where
  "not_found dir = (case dir of Root \<Rightarrow> ''FAT12: file not found in root directory''
     | Cluster c \<Rightarrow> ''FAT12: file not found in directory'')"

fun find_in_sector :: "string \<Rightarrow> bytes \<Rightarrow> nat \<Rightarrow> bytes list \<Rightarrow> lfn_state \<Rightarrow> ((nat \<times> dir_entry) outcome, lfn_state) scan" where
  "find_in_sector nf name k [] lfn = Scan_More lfn"
| "find_in_sector nf name k (raw # rs) lfn =
     (if raw ! 0 = 0x00 then Scan_Return (Err nf)
      else if raw ! 0 = 0xE5 then find_in_sector nf name (k + 1) rs (lfn_reset lfn)
      else if raw ! 11 = 0x0F then find_in_sector nf name (k + 1) rs (push_long_entry raw lfn)
      else if raw ! 11 AND 0x08 \<noteq> 0 then find_in_sector nf name (k + 1) rs (lfn_reset lfn)
      else case short_entry_if_matches raw lfn name of
             (Some entry, _) \<Rightarrow> Scan_Return (Ok (k * 32, entry))
           | (None, lfn') \<Rightarrow> find_in_sector nf name (k + 1) rs lfn')"

fun find_in_sectors :: "'d port_bus \<Rightarrow> string \<Rightarrow> bytes \<Rightarrow> u32 list \<Rightarrow> lfn_state \<Rightarrow> ('d, u32 \<times> nat \<times> dir_entry) io" where
  "find_in_sectors bus nf name [] lfn = io_err nf"
| "find_in_sectors bus nf name (lba # lbas) lfn =
     io_bind (read_sector bus lba) (\<lambda>buf.
       case find_in_sector nf name 0 (chunks 32 buf) lfn of
         Scan_Return r \<Rightarrow> io_lift (omap (\<lambda>(off, e). (lba, off, e)) r)
       | Scan_More lfn' \<Rightarrow> find_in_sectors bus nf name lbas lfn')"

definition find_entry_location_in :: "'d port_bus \<Rightarrow> fat12_info \<Rightarrow> dir_location \<Rightarrow> bytes \<Rightarrow> ('d, u32 \<times> nat \<times> dir_entry) io" where
  "find_entry_location_in bus i dir name =
     io_bind (io_lift (directory_sectors i dir)) (\<lambda>lbas.
       find_in_sectors bus (not_found dir) name lbas lfn_default)"

fun lfn_slots_in_sector :: "u32 \<Rightarrow> u32 \<Rightarrow> nat \<Rightarrow> nat \<Rightarrow> bytes list \<Rightarrow> (u32 \<times> nat) list \<Rightarrow> ((u32 \<times> nat) list, (u32 \<times> nat) list) scan" where
  "lfn_slots_in_sector short_lba lba short_offset k [] pending = Scan_More pending"
| "lfn_slots_in_sector short_lba lba short_offset k (raw # rs) pending =
     (if lba = short_lba \<and> k * 32 = short_offset then Scan_Return pending
      else if raw ! 0 = 0x00 then Scan_Return []
      else lfn_slots_in_sector short_lba lba short_offset (k + 1) rs
             (if raw ! 0 = 0xE5 then [] else if raw ! 11 = 0x0F then pending @ [(lba, k * 32)] else []))"

fun lfn_slots_in_sectors :: "'d port_bus \<Rightarrow> u32 \<Rightarrow> nat \<Rightarrow> u32 list \<Rightarrow> (u32 \<times> nat) list \<Rightarrow> ('d, (u32 \<times> nat) list) io" where
  "lfn_slots_in_sectors bus short_lba short_offset [] pending = io_ret []"
| "lfn_slots_in_sectors bus short_lba short_offset (lba # lbas) pending =
     io_bind (read_sector bus lba) (\<lambda>buf.
       case lfn_slots_in_sector short_lba lba short_offset 0 (chunks 32 buf) pending of
         Scan_Return r \<Rightarrow> io_ret r
       | Scan_More pending' \<Rightarrow> lfn_slots_in_sectors bus short_lba short_offset lbas pending')"

definition find_preceding_lfn_slots :: "'d port_bus \<Rightarrow> fat12_info \<Rightarrow> dir_location \<Rightarrow> u32 \<Rightarrow> nat \<Rightarrow> ('d, (u32 \<times> nat) list) io" where
  "find_preceding_lfn_slots bus i dir short_lba short_offset =
     io_bind (io_lift (directory_sectors i dir)) (\<lambda>lbas.
       lfn_slots_in_sectors bus short_lba short_offset lbas [])"

fun short_names_in_sector :: "bytes list \<Rightarrow> bytes list \<Rightarrow> (bytes list, bytes list) scan" where
  "short_names_in_sector [] names = Scan_More names"
| "short_names_in_sector (raw # rs) names =
     (if raw ! 0 = 0x00 then Scan_Return names
      else short_names_in_sector rs
             (if raw ! 0 = 0xE5 \<or> raw ! 11 = 0x0F \<or> raw ! 11 AND 0x08 \<noteq> 0 then names
              else names @ [sub raw 0 11]))"

fun short_names_in_sectors :: "'d port_bus \<Rightarrow> u32 list \<Rightarrow> bytes list \<Rightarrow> ('d, bytes list) io" where
  "short_names_in_sectors bus [] names = io_ret names"
| "short_names_in_sectors bus (lba # lbas) names =
     io_bind (read_sector bus lba) (\<lambda>buf.
       case short_names_in_sector (chunks 32 buf) names of
         Scan_Return r \<Rightarrow> io_ret r
       | Scan_More names' \<Rightarrow> short_names_in_sectors bus lbas names')"

definition existing_short_names_in :: "'d port_bus \<Rightarrow> fat12_info \<Rightarrow> dir_location \<Rightarrow> ('d, bytes list) io" where
  "existing_short_names_in bus i dir =
     io_bind (io_lift (directory_sectors i dir)) (\<lambda>lbas. short_names_in_sectors bus lbas [])"

section \<open>Definitions: names and slots\<close>

definition is_alias_char :: "u8 \<Rightarrow> bool" where
  "is_alias_char b \<longleftrightarrow> 0x30 \<le> b \<and> b \<le> 0x39 \<or> 0x41 \<le> b \<and> b \<le> 0x5A \<or> 0x61 \<le> b \<and> b \<le> 0x7A
     \<or> b = 0x5F \<or> b = 0x2D"

definition alias_suffix :: "nat \<Rightarrow> bytes" where
  "alias_suffix n = 0x7E # (if n < 10 then [0x30 + of_nat n] else [0x30 + of_nat (n div 10), 0x30 + of_nat (n mod 10)])"

definition alias_candidate :: "bytes \<Rightarrow> bytes \<Rightarrow> nat \<Rightarrow> bytes" where
  "alias_candidate clean_base clean_ext n =
     overwrite (overwrite (overwrite (replicate 11 0x20) 0 clean_base) (length clean_base) (alias_suffix n))
       8 clean_ext"

definition generate_short_alias :: "'d port_bus \<Rightarrow> fat12_info \<Rightarrow> dir_location \<Rightarrow> bytes \<Rightarrow> ('d, bytes) io" where
  "generate_short_alias bus i dir name =
     (let (base, ext) = split_once_dot name;
          cleaned = filter is_alias_char (map to_ascii_uppercase base);
          clean_base = take 5 (if cleaned = [] then [0x5F] else cleaned);
          clean_ext = take 3 (filter is_alias_char (map to_ascii_uppercase ext))
      in io_bind (existing_short_names_in bus i dir) (\<lambda>existing.
         case find (\<lambda>out. out \<notin> set existing) (map (alias_candidate clean_base clean_ext) [1..<100]) of
           Some out \<Rightarrow> io_ret out
         | None \<Rightarrow> io_err ''FAT12: too many colliding short-name aliases in this directory''))"

definition build_name_entries :: "'d port_bus \<Rightarrow> fat12_info \<Rightarrow> dir_location \<Rightarrow> bytes \<Rightarrow> ('d, bytes \<times> bytes list) io" where
  "build_name_entries bus i dir name =
     (case to_short_name name of
        Ok short_name \<Rightarrow>
          io_bind (existing_short_names_in bus i dir) (\<lambda>existing.
            if short_name \<in> set existing then io_err ''FAT12: that short name is already in use''
            else io_ret (short_name, []))
      | _ \<Rightarrow>
          if name = [] \<or> 15 * 13 < length name \<or> \<not> list_all is_valid_lfn_char name
          then io_err ''FAT12: name must fit the 8.3 short-name format, or be a valid name of 195 characters or fewer''
          else io_bind (generate_short_alias bus i dir name) (\<lambda>short_name.
            io_ret (short_name, build_lfn_entries name short_name)))"

fun free_run_in_sector :: "nat \<Rightarrow> u32 \<Rightarrow> nat \<Rightarrow> bytes list \<Rightarrow> (u32 \<times> nat) list \<Rightarrow> ((u32 \<times> nat) list, (u32 \<times> nat) list) scan" where
  "free_run_in_sector count lba k [] run = Scan_More run"
| "free_run_in_sector count lba k (raw # rs) run =
     (if raw ! 0 = 0x00 \<or> raw ! 0 = 0xE5
      then (let run' = run @ [(lba, k * 32)]
            in if length run' = count then Scan_Return run'
               else free_run_in_sector count lba (k + 1) rs run')
      else free_run_in_sector count lba (k + 1) rs [])"

fun free_run_in_sectors :: "'d port_bus \<Rightarrow> nat \<Rightarrow> u32 list \<Rightarrow> (u32 \<times> nat) list \<Rightarrow> ('d, ((u32 \<times> nat) list, (u32 \<times> nat) list) scan) io" where
  "free_run_in_sectors bus count [] run = io_ret (Scan_More run)"
| "free_run_in_sectors bus count (lba # lbas) run =
     io_bind (read_sector bus lba) (\<lambda>buf.
       case free_run_in_sector count lba 0 (chunks 32 buf) run of
         Scan_Return r \<Rightarrow> io_ret (Scan_Return r)
       | Scan_More run' \<Rightarrow> free_run_in_sectors bus count lbas run')"

definition grow_directory :: "'d port_bus \<Rightarrow> u32 \<Rightarrow> (fat12_info \<times> 'd, u32 \<times> nat) io" where
  "grow_directory bus start_cluster = with_info (\<lambda>i.
     io_bind (io_lift (cluster_chain chain_fuel i start_cluster)) (\<lambda>chain.
     io_bind (io_lift (find_free_clusters i 1)) (\<lambda>free.
     let new_cluster = free ! 0; new_lba = cluster_to_lba i new_cluster in
     io_bind (io_for (cluster_sectors i new_cluster) (\<lambda>lba. disk_io (write_sector bus lba (replicate 512 0)))) (\<lambda>_.
     io_bind (write_fat_entry_to_disk bus (last chain) (ucast new_cluster)) (\<lambda>_.
     io_bind (write_fat_entry_to_disk bus new_cluster 0x0FFF) (\<lambda>_.
     io_ret (new_lba, 0)))))))"

definition find_free_entry_run_in :: "'d port_bus \<Rightarrow> dir_location \<Rightarrow> nat \<Rightarrow> (fat12_info \<times> 'd, (u32 \<times> nat) list) io" where
  "find_free_entry_run_in bus dir count = with_info (\<lambda>i.
     if 16 < count
     then io_err ''FAT12: cannot reserve that many consecutive directory-entry slots within one sector''
     else
       io_bind (io_lift (directory_sectors i dir)) (\<lambda>lbas.
       io_bind (disk_io (free_run_in_sectors bus count lbas [])) (\<lambda>r.
       case r of
         Scan_Return run \<Rightarrow> io_ret run
       | Scan_More run \<Rightarrow>
           (case dir of
              Root \<Rightarrow> io_err ''FAT12: root directory is full, no free entry slot''
            | Cluster start_cluster \<Rightarrow>
                io_bind (grow_directory bus start_cluster) (\<lambda>(lba, offset).
                  io_ret (run @ map (\<lambda>slot. (lba, (offset div 32 + slot) * 32)) [0..<count - length run]))))))"

definition write_slot :: "'d port_bus \<Rightarrow> u32 \<times> nat \<times> bytes \<Rightarrow> ('d, unit) io" where
  "write_slot bus w = (case w of (lba, offset, bytes) \<Rightarrow>
     io_bind (read_sector bus lba) (\<lambda>buf. write_sector bus lba (overwrite buf offset bytes)))"

definition write_name_entries :: "'d port_bus \<Rightarrow> (u32 \<times> nat) list \<Rightarrow> bytes list \<Rightarrow> bytes \<Rightarrow> ('d, unit) io" where
  "write_name_entries bus slots long_entries short_entry =
     (if slots = [] then io_lift Panic
      else io_for (map (\<lambda>((lba, offset), entry). (lba, offset, entry)) (zip slots long_entries)
             @ [(fst (last slots), snd (last slots), short_entry)]) (write_slot bus))"

section \<open>Definitions: file contents\<close>

text \<open>The sectors of one cluster, filled from \<open>data\<close> starting at \<open>written\<close>, padded with zeros.\<close>

fun lay_sectors :: "'d port_bus \<Rightarrow> bytes \<Rightarrow> u32 list \<Rightarrow> nat \<Rightarrow> ('d, nat) io" where
  "lay_sectors bus data [] written = io_ret written"
| "lay_sectors bus data (lba # lbas) written =
     (let stop = (if written < length data then min (written + 512) (length data) else written)
      in io_bind (write_sector bus lba (overwrite (replicate 512 0) 0 (sub data written (stop - written)))) (\<lambda>_.
         lay_sectors bus data lbas stop))"

fun lay_clusters :: "'d port_bus \<Rightarrow> bytes \<Rightarrow> u32 list \<Rightarrow> nat \<Rightarrow> (fat12_info \<times> 'd, unit) io" where
  "lay_clusters bus data [] written = io_ret ()"
| "lay_clusters bus data (c # cs) written = with_info (\<lambda>i.
     io_bind (disk_io (lay_sectors bus data (cluster_sectors i c) written)) (\<lambda>written'.
     io_bind (write_fat_entry_to_disk bus c (case cs of [] \<Rightarrow> 0x0FFF | next # _ \<Rightarrow> ucast next)) (\<lambda>_.
     lay_clusters bus data cs written')))"

definition clusters_for :: "fat12_info \<Rightarrow> bytes \<Rightarrow> nat outcome" where
  "clusters_for i data =
     (let cluster_bytes = unat (sectors_per_cluster i) * 512
      in if cluster_bytes = 0 then Panic
         else Ok (max ((length data + cluster_bytes - 1) div cluster_bytes) 1))"

fun read_sectors_upto :: "'d port_bus \<Rightarrow> nat \<Rightarrow> u32 list \<Rightarrow> bytes \<Rightarrow> ('d, (bytes, bytes) scan) io" where
  "read_sectors_upto bus fsize [] data = io_ret (Scan_More data)"
| "read_sectors_upto bus fsize (lba # lbas) data =
     io_bind (read_sector bus lba) (\<lambda>buf.
       let data' = data @ take (min (fsize - length data) 512) buf
       in if fsize \<le> length data' then io_ret (Scan_Return data') else read_sectors_upto bus fsize lbas data')"

fun read_clusters :: "nat \<Rightarrow> 'd port_bus \<Rightarrow> fat12_info \<Rightarrow> nat \<Rightarrow> u32 \<Rightarrow> bytes \<Rightarrow> ('d, bytes) io" where
  "read_clusters 0 bus i fsize c data = io_lift Diverge"
| "read_clusters (Suc n) bus i fsize c data =
     io_bind (read_sectors_upto bus fsize (cluster_sectors i c) data) (\<lambda>r.
       case r of
         Scan_Return data' \<Rightarrow> io_ret data'
       | Scan_More data' \<Rightarrow> io_bind (io_lift (next_cluster i c)) (\<lambda>next.
           case next of None \<Rightarrow> io_ret data' | Some c' \<Rightarrow> read_clusters n bus i fsize c' data'))"

section \<open>Definitions: file and directory operations\<close>

text \<open>
  A file read ends after at most \<open>size\<close> clusters with at least one sector each; the additional
  4096 steps cover a volume whose clusters have no sectors.
\<close>

definition read_file_impl :: "'d port_bus \<Rightarrow> fat12_info \<Rightarrow> dir_location \<Rightarrow> bytes \<Rightarrow> ('d, bytes) io" where
  "read_file_impl bus i dir name =
     io_bind (find_entry_location_in bus i dir name) (\<lambda>(_, _, entry).
       if de_is_dir entry then io_err (not_found dir)
       else if de_size entry = 0 then io_ret []
       else read_clusters (unat (de_size entry) + chain_fuel) bus i (unat (de_size entry))
              (de_start_cluster entry) [])"

definition write_file_impl :: "'d port_bus \<Rightarrow> dir_location \<Rightarrow> bytes \<Rightarrow> bytes \<Rightarrow> (fat12_info \<times> 'd, unit) io" where
  "write_file_impl bus dir name data = with_info (\<lambda>i.
     io_bind (disk_io (find_entry_location_in bus i dir name)) (\<lambda>(entry_lba, entry_offset, entry).
     if de_is_dir entry then io_err ''FAT12: write_file does not support directories''
     else
       io_bind (io_lift (cluster_chain chain_fuel i (de_start_cluster entry))) (\<lambda>clusters.
       io_bind (io_lift (clusters_for i data)) (\<lambda>needed.
       io_bind
         (if length clusters < needed
          then io_bind (io_lift (find_free_clusters i (needed - length clusters))) (\<lambda>extra. io_ret (clusters @ extra))
          else io_bind (io_for (drop needed clusters) (\<lambda>c. write_fat_entry_to_disk bus c 0x0000)) (\<lambda>_.
            io_ret (take needed clusters))) (\<lambda>clusters'.
       io_bind (lay_clusters bus data clusters' 0) (\<lambda>_.
       disk_io (write_slot bus (entry_lba, entry_offset + 28, le_bytes32 (of_nat (length data))))))))))"

definition create_file_impl :: "'d port_bus \<Rightarrow> dir_location \<Rightarrow> bytes \<Rightarrow> bytes \<Rightarrow> (fat12_info \<times> 'd, unit) io" where
  "create_file_impl bus dir name data = with_info (\<lambda>i.
     io_bind (disk_io (list_entries_in bus i dir)) (\<lambda>entries.
     if list_ex (\<lambda>e. eq_ignore_ascii_case (de_name e) name) entries
     then io_err ''FAT12: a file or directory with that name already exists''
     else
       io_bind (disk_io (build_name_entries bus i dir name)) (\<lambda>(short_name, long_entries).
       io_bind (find_free_entry_run_in bus dir (length long_entries + 1)) (\<lambda>slots.
       with_info (\<lambda>i.
       io_bind (io_lift (clusters_for i data)) (\<lambda>needed.
       io_bind (io_lift (find_free_clusters i needed)) (\<lambda>clusters.
       io_bind (lay_clusters bus data clusters 0) (\<lambda>_.
       io_bind (disk_io (read_time bus)) (\<lambda>time.
       let (fat_time, fat_date) = to_fat_datetime time;
           entry = build_dir_entry short_name 0x20 (clusters ! 0) (of_nat (length data)) fat_time fat_date
       in disk_io (write_name_entries bus slots long_entries entry))))))))))"

text \<open>The first sector of a new directory: its own entry, its parent's and zeros.\<close>

definition dot_sector :: "u32 \<Rightarrow> u32 \<Rightarrow> u16 \<Rightarrow> u16 \<Rightarrow> bytes" where
  "dot_sector cluster parent_cluster fat_time fat_date =
     (let dot_name = (replicate 11 0x20)[0 := 0x2E];
          dotdot_name = (replicate 11 0x20)[0 := 0x2E, 1 := 0x2E]
      in overwrite (overwrite (replicate 512 0) 0 (build_dir_entry dot_name 0x10 cluster 0 fat_time fat_date))
           32 (build_dir_entry dotdot_name 0x10 parent_cluster 0 fat_time fat_date))"

definition create_directory_impl :: "'d port_bus \<Rightarrow> dir_location \<Rightarrow> bytes \<Rightarrow> (fat12_info \<times> 'd, unit) io" where
  "create_directory_impl bus parent name = with_info (\<lambda>i.
     io_bind (disk_io (list_entries_in bus i parent)) (\<lambda>entries.
     if list_ex (\<lambda>e. eq_ignore_ascii_case (de_name e) name) entries
     then io_err ''FAT12: a file or directory with that name already exists''
     else
       io_bind (disk_io (build_name_entries bus i parent name)) (\<lambda>(short_name, long_entries).
       io_bind (find_free_entry_run_in bus parent (length long_entries + 1)) (\<lambda>slots.
       with_info (\<lambda>i.
       io_bind (io_lift (find_free_clusters i 1)) (\<lambda>free.
       io_bind (disk_io (read_time bus)) (\<lambda>time.
       let cluster = free ! 0;
           (fat_time, fat_date) = to_fat_datetime time;
           parent_cluster = (case parent of Root \<Rightarrow> 0 | Cluster c \<Rightarrow> c);
           cluster_lba = cluster_to_lba i cluster
       in
       io_bind (disk_io (write_sector bus cluster_lba (dot_sector cluster parent_cluster fat_time fat_date))) (\<lambda>_.
       io_bind (io_for [1..<unat (sectors_per_cluster i)] (\<lambda>s.
         disk_io (write_sector bus (cluster_lba + of_nat s) (replicate 512 0)))) (\<lambda>_.
       io_bind (write_fat_entry_to_disk bus cluster 0x0FFF) (\<lambda>_.
       disk_io (write_name_entries bus slots long_entries
         (build_dir_entry short_name 0x10 cluster 0 fat_time fat_date))))))))))))"

fun free_chain :: "nat \<Rightarrow> 'd port_bus \<Rightarrow> u32 \<Rightarrow> (fat12_info \<times> 'd, unit) io" where
  "free_chain 0 bus c = io_lift Diverge"
| "free_chain (Suc n) bus c = with_info (\<lambda>i.
     io_bind (io_lift (next_cluster i c)) (\<lambda>next.
     io_bind (write_fat_entry_to_disk bus c 0x0000) (\<lambda>_.
     case next of None \<Rightarrow> io_ret () | Some c' \<Rightarrow> free_chain n bus c')))"

definition mark_deleted :: "'d port_bus \<Rightarrow> (u32 \<times> nat) list \<Rightarrow> ('d, unit) io" where
  "mark_deleted bus slots = io_for slots (\<lambda>(lba, offset).
     io_bind (read_sector bus lba) (\<lambda>buf. write_sector bus lba (buf[offset := 0xE5])))"

definition delete_file_impl :: "'d port_bus \<Rightarrow> dir_location \<Rightarrow> bytes \<Rightarrow> (fat12_info \<times> 'd, unit) io" where
  "delete_file_impl bus dir name = with_info (\<lambda>i.
     io_bind (disk_io (find_entry_location_in bus i dir name)) (\<lambda>(entry_lba, entry_offset, entry).
     if de_is_dir entry then io_err ''FAT12: delete_file does not support directories''
     else
       io_bind (disk_io (find_preceding_lfn_slots bus i dir entry_lba entry_offset)) (\<lambda>lfn_slots.
       io_bind (free_chain chain_fuel bus (de_start_cluster entry)) (\<lambda>_.
       disk_io (mark_deleted bus (lfn_slots @ [(entry_lba, entry_offset)]))))))"

definition delete_directory_impl :: "'d port_bus \<Rightarrow> dir_location \<Rightarrow> bytes \<Rightarrow> (fat12_info \<times> 'd, unit) io" where
  "delete_directory_impl bus parent name = with_info (\<lambda>i.
     io_bind (disk_io (find_entry_location_in bus i parent name)) (\<lambda>(entry_lba, entry_offset, entry).
     if \<not> de_is_dir entry then io_err ''FAT12: delete_directory does not support files - use rm''
     else
       io_bind (disk_io (list_directory bus i (de_start_cluster entry))) (\<lambda>entries.
       if 2 < length entries then io_err ''FAT12: directory is not empty''
       else
         io_bind (disk_io (find_preceding_lfn_slots bus i parent entry_lba entry_offset)) (\<lambda>lfn_slots.
         io_bind (free_chain chain_fuel bus (de_start_cluster entry)) (\<lambda>_.
         disk_io (mark_deleted bus (lfn_slots @ [(entry_lba, entry_offset)])))))))"

text \<open>The public operations: in the root directory, and in the directory at a given cluster.\<close>

definition write_file :: "'d port_bus \<Rightarrow> bytes \<Rightarrow> bytes \<Rightarrow> (fat12_info \<times> 'd, unit) io" where
  "write_file bus name data = write_file_impl bus Root name data"

definition write_file_in :: "'d port_bus \<Rightarrow> u32 \<Rightarrow> bytes \<Rightarrow> bytes \<Rightarrow> (fat12_info \<times> 'd, unit) io" where
  "write_file_in bus dir_cluster name data = write_file_impl bus (Cluster dir_cluster) name data"

definition create_file :: "'d port_bus \<Rightarrow> bytes \<Rightarrow> bytes \<Rightarrow> (fat12_info \<times> 'd, unit) io" where
  "create_file bus name data = create_file_impl bus Root name data"

definition create_file_in :: "'d port_bus \<Rightarrow> u32 \<Rightarrow> bytes \<Rightarrow> bytes \<Rightarrow> (fat12_info \<times> 'd, unit) io" where
  "create_file_in bus dir_cluster name data = create_file_impl bus (Cluster dir_cluster) name data"

definition create_directory :: "'d port_bus \<Rightarrow> bytes \<Rightarrow> (fat12_info \<times> 'd, unit) io" where
  "create_directory bus name = create_directory_impl bus Root name"

definition create_directory_in :: "'d port_bus \<Rightarrow> u32 \<Rightarrow> bytes \<Rightarrow> (fat12_info \<times> 'd, unit) io" where
  "create_directory_in bus dir_cluster name = create_directory_impl bus (Cluster dir_cluster) name"

definition delete_file :: "'d port_bus \<Rightarrow> bytes \<Rightarrow> (fat12_info \<times> 'd, unit) io" where
  "delete_file bus name = delete_file_impl bus Root name"

definition delete_file_in :: "'d port_bus \<Rightarrow> u32 \<Rightarrow> bytes \<Rightarrow> (fat12_info \<times> 'd, unit) io" where
  "delete_file_in bus dir_cluster name = delete_file_impl bus (Cluster dir_cluster) name"

definition delete_directory :: "'d port_bus \<Rightarrow> bytes \<Rightarrow> (fat12_info \<times> 'd, unit) io" where
  "delete_directory bus name = delete_directory_impl bus Root name"

definition delete_directory_in :: "'d port_bus \<Rightarrow> u32 \<Rightarrow> bytes \<Rightarrow> (fat12_info \<times> 'd, unit) io" where
  "delete_directory_in bus dir_cluster name = delete_directory_impl bus (Cluster dir_cluster) name"

definition read_file :: "'d port_bus \<Rightarrow> fat12_info \<Rightarrow> bytes \<Rightarrow> ('d, bytes) io" where
  "read_file bus i name = read_file_impl bus i Root name"

definition read_file_in :: "'d port_bus \<Rightarrow> fat12_info \<Rightarrow> u32 \<Rightarrow> bytes \<Rightarrow> ('d, bytes) io" where
  "read_file_in bus i dir_cluster name = read_file_impl bus i (Cluster dir_cluster) name"

end
