(* ===== verification/Fat12_Table.thy ===== *)
theory Fat12_Table
  imports Fat12_Model
begin

text \<open>
  The packed allocation table of \<open>Fat12_Model\<close>: twelve bits per cluster in memory and on disk.
  Writing an entry changes that entry and no other, in the cached copy and in the sectors of the
  first FAT alike, also where the two bytes of the entry lie in different sectors.
\<close>

section \<open>Twelve bits in two bytes\<close>

lemma u16_masks:
  "(w :: u16) AND 0x0FFF = take_bit 12 w" "w AND 0x000F = take_bit 4 w"
  "w AND 0xF000 = push_bit 12 (drop_bit 12 w)"
proof -
  show "w AND 0x0FFF = take_bit 12 w" "w AND 0x000F = take_bit 4 w"
    by (simp_all add: take_bit_eq_mask mask_numeral)
  have m: "(0xF000 :: u16) = push_bit 12 (drop_bit 12 (mask 16))" by (simp add: mask_numeral)
  show "w AND 0xF000 = push_bit 12 (drop_bit 12 w)"
    unfolding m by (rule bit_word_eqI) (auto simp: bit_and_iff bit_push_bit_iff bit_drop_bit_eq bit_mask_iff
      dest: bit_imp_le_length)
qed

lemma unpack_pack: "unpack_entry c (pack_entry c r v) = v AND 0x0FFF"
proof -
  have f: "drop_bit 4 (take_bit 4 r OR push_bit 4 (take_bit 12 v)) = take_bit 12 v"
    "take_bit 12 (push_bit 12 (drop_bit 12 r) OR take_bit 12 v) = take_bit 12 v"
    by (auto simp: bit_simps intro!: bit_word_eqI)
  then show ?thesis
    unfolding unpack_entry_def pack_entry_def Let_def u16_masks by simp
qed

lemma u8_bit: "bit (b :: u8) n \<Longrightarrow> n < 8"
  using bit_imp_le_length [of b n] by simp

lemma u8_high: "8 \<le> n \<Longrightarrow> \<not> bit (b :: u8) n"
  using u8_bit by fastforce

lemma pack_even_high:
  assumes "even (unat c)"
  shows "drop_bit 4 (ucast (drop_bit 8 (pack_entry c (le16 a b) v)) :: u8) = drop_bit 4 b"
proof (rule bit_word_eqI)
  fix n
  assume "n < LENGTH(8)"
  then show "bit (drop_bit 4 (ucast (drop_bit 8 (pack_entry c (le16 a b) v)) :: u8)) n = bit (drop_bit 4 b) n"
    using assms u8_high [of "12 + n" a] u8_high [of "4 + n" b]
    unfolding pack_entry_def Let_def u16_masks le16_def be16_def by (cases "n < 4") (auto simp: bit_simps)
qed

lemma pack_odd_low:
  "odd (unat c) \<Longrightarrow> take_bit 4 (ucast (pack_entry c (le16 a b) v) :: u8) = take_bit 4 a"
  unfolding pack_entry_def Let_def u16_masks le16_def be16_def
  by (auto simp: bit_simps dest: u8_bit intro!: bit_word_eqI)

lemma unpack_odd_cong:
  "odd (unat c) \<Longrightarrow> drop_bit 4 x = drop_bit 4 x' \<Longrightarrow> unpack_entry c (le16 x y) = unpack_entry c (le16 x' y)"
proof -
  assume c: "odd (unat c)" and d: "drop_bit 4 x = drop_bit 4 x'"
  have "bit x n = bit x' n" if "4 \<le> n" for n
  proof -
    have "bit (drop_bit 4 x) (n - 4) = bit x n" "bit (drop_bit 4 x') (n - 4) = bit x' n"
      using that by (simp_all add: bit_drop_bit_eq)
    then show ?thesis using d by simp
  qed
  then show ?thesis
    using c unfolding unpack_entry_def le16_def be16_def by (auto simp: bit_simps intro!: bit_word_eqI)
qed

lemma unpack_even_cong:
  "even (unat c) \<Longrightarrow> take_bit 4 y = take_bit 4 y' \<Longrightarrow> unpack_entry c (le16 x y) = unpack_entry c (le16 x y')"
proof -
  assume c: "even (unat c)" and t: "take_bit 4 y = take_bit 4 y'"
  have "bit y n = bit y' n" if "n < 4" for n
    using t that by (metis bit_take_bit_iff)
  then show ?thesis
    using c unfolding unpack_entry_def u16_masks le16_def be16_def by (auto simp: bit_simps intro!: bit_word_eqI)
qed

section \<open>One entry among the others\<close>

definition put_entry :: "bytes \<Rightarrow> u32 \<Rightarrow> u16 \<Rightarrow> bytes" where
  "put_entry fat c v =
     (let k = entry_offset c; raw = pack_entry c (le16 (fat ! k) (fat ! (k + 1))) v
      in fat[k := ucast raw, k + 1 := ucast (drop_bit 8 raw)])"

lemma length_put_entry [simp]: "length (put_entry fat c v) = length fat"
  by (simp add: put_entry_def Let_def)

lemma entry_offset_small: "unat c < 4096 \<Longrightarrow> entry_offset c = unat c * 3 div 2"
  by (simp add: entry_offset_def unat_div unat_word_ariths)

lemma fat_entry_put_same:
  assumes "entry_offset c + 1 < length fat"
  shows "fat_entry (put_entry fat c v) c = v AND 0x0FFF"
proof -
  let ?raw = "pack_entry c (le16 (fat ! entry_offset c) (fat ! (entry_offset c + 1))) v"
  have "put_entry fat c v ! entry_offset c = ucast ?raw"
    "put_entry fat c v ! (entry_offset c + 1) = ucast (drop_bit 8 ?raw)"
    using assms by (simp_all add: put_entry_def Let_def)
  then show ?thesis by (simp add: fat_entry_def unpack_pack)
qed

lemma entry_positions:
  fixes n m :: nat
  assumes "n \<noteq> m"
  shows "n * 3 div 2 + 1 < m * 3 div 2 \<or> m * 3 div 2 + 1 < n * 3 div 2
    \<or> n * 3 div 2 = m * 3 div 2 + 1 \<and> even m \<and> odd n \<or> m * 3 div 2 = n * 3 div 2 + 1 \<and> odd m \<and> even n"
proof -
  have half: "k * 3 div 2 = (if even k then 3 * (k div 2) else 3 * (k div 2) + 1)" for k :: nat
    by (cases "even k") (auto elim!: evenE oddE)
  have n: "n = 2 * (n div 2) + (if even n then 0 else 1)" and m: "m = 2 * (m div 2) + (if even m then 0 else 1)"
    by auto
  show ?thesis
  proof (cases "n div 2 = m div 2")
    case True
    then show ?thesis using assms n m unfolding half by (cases "even n"; cases "even m") auto
  next
    case False
    then have "n div 2 < m div 2 \<or> m div 2 < n div 2" by linarith
    then show ?thesis unfolding half by (cases "even n"; cases "even m") auto
  qed
qed

lemma fat_entry_put_other:
  assumes "entry_offset c + 1 < length fat" "unat c < 4096" "unat c' < 4096" "c' \<noteq> c"
  shows "fat_entry (put_entry fat c v) c' = fat_entry fat c'"
proof -
  define k where "k = entry_offset c"
  define k' where "k' = entry_offset c'"
  define raw where "raw = pack_entry c (le16 (fat ! k) (fat ! (k + 1))) v"
  have fat': "put_entry fat c v = fat[k := ucast raw, k + 1 := ucast (drop_bit 8 raw)]"
    by (simp add: put_entry_def Let_def k_def raw_def)
  have kk: "k = unat c * 3 div 2" "k' = unat c' * 3 div 2"
    using assms(2,3) by (simp_all add: k_def k'_def entry_offset_small)
  have neq: "unat c' \<noteq> unat c" using assms(4) by (simp add: word_unat_eq_iff)
  consider (far) "k' + 1 < k \<or> k + 1 < k'" | (succ) "k' = k + 1" "even (unat c)" "odd (unat c')"
    | (prev) "k = k' + 1" "odd (unat c)" "even (unat c')"
    using entry_positions [OF neq] unfolding kk by blast
  then show ?thesis
  proof cases
    case far
    then have "k' \<noteq> k" "k' \<noteq> k + 1" "k' + 1 \<noteq> k" "k' + 1 \<noteq> k + 1" by linarith+
    then show ?thesis unfolding fat_entry_def fat' k'_def [symmetric] by (simp add: nth_list_update_neq)
  next
    case succ
    then have "put_entry fat c v ! k' = ucast (drop_bit 8 raw)" "put_entry fat c v ! (k' + 1) = fat ! (k' + 1)"
      using assms(1) unfolding fat' k_def [symmetric] by simp_all
    moreover have "unpack_entry c' (le16 (ucast (drop_bit 8 raw)) y) = unpack_entry c' (le16 (fat ! k') y)" for y
      unfolding raw_def succ(1) by (rule unpack_odd_cong [OF succ(3) pack_even_high [OF succ(2)]])
    ultimately show ?thesis
      by (simp only: fat_entry_def k'_def [symmetric])
  next
    case prev
    then have "put_entry fat c v ! (k' + 1) = ucast raw" "put_entry fat c v ! k' = fat ! k'"
      using assms(1) unfolding fat' k_def [symmetric] by simp_all
    moreover have "unpack_entry c' (le16 x (ucast raw)) = unpack_entry c' (le16 x (fat ! (k' + 1)))" for x
      unfolding raw_def prev(1) by (rule unpack_even_cong [OF prev(3) pack_odd_low [OF prev(2)]])
    ultimately show ?thesis
      by (simp only: fat_entry_def k'_def [symmetric])
  qed
qed

section \<open>The layout of a volume\<close>

definition fat_base :: "fat12_info \<Rightarrow> nat" where
  "fat_base i = unat (partition_start_lba i) + unat (reserved_sector_count i)"

definition root_base :: "fat12_info \<Rightarrow> nat" where
  "root_base i = fat_base i + unat (num_fats i) * unat (fat_size_16 i)"

definition data_base :: "fat12_info \<Rightarrow> nat" where
  "data_base i = root_base i + (unat (root_entry_count i) * 32 + 511) div 512"

text \<open>
  A FAT12 volume the driver can address: at least one FAT of at most 12 sectors (4096 entries),
  clusters of at least one sector, and all sectors below 2^28.
\<close>

definition layout_ok :: "fat12_info \<Rightarrow> bool" where
  "layout_ok i \<longleftrightarrow> 0 < unat (num_fats i) \<and> unat (fat_size_16 i) \<le> 12 \<and> 0 < unat (sectors_per_cluster i)
     \<and> data_base i + 4096 * unat (sectors_per_cluster i) \<le> 2 ^ 28"

definition fat_lbas :: "fat12_info \<Rightarrow> u32 set" where
  "fat_lbas i = (\<lambda>k. first_fat_sector i + of_nat k) ` {..<unat (fat_size_16 i)}"

text \<open>The cached table is what the first FAT on the disk holds.\<close>

definition coherent :: "(u32 \<Rightarrow> bytes) \<Rightarrow> fat12_info \<Rightarrow> bool" where
  "coherent disk i \<longleftrightarrow> length (fat_bytes i) = unat (fat_size_16 i) * 512
     \<and> (\<forall>k<unat (fat_size_16 i). disk (first_fat_sector i + of_nat k) = sub (fat_bytes i) (k * 512) 512)"

lemma unat_add_of_nat: "unat (w :: u32) + k < 2 ^ 32 \<Longrightarrow> unat (w + of_nat k) = unat w + k"
  by (simp add: unat_word_ariths unat_of_nat)

lemma base_order: "fat_base i \<le> root_base i" "root_base i \<le> data_base i"
  by (simp_all add: root_base_def data_base_def)

lemma unat_first_fat_sector:
  assumes "layout_ok i"
  shows "unat (first_fat_sector i) = fat_base i"
proof -
  have "fat_base i < 2 ^ 32" using assms base_order [of i] by (simp add: layout_ok_def)
  then show ?thesis
    by (simp add: first_fat_sector_def fat_base_def unat_word_ariths unat_ucast_up)
qed

lemma unat_first_root_dir_sector:
  assumes "layout_ok i"
  shows "unat (first_root_dir_sector i) = root_base i"
proof -
  have "root_base i < 2 ^ 32" using assms base_order [of i] by (simp add: layout_ok_def)
  moreover have "unat (num_fats i) * unat (fat_size_16 i) \<le> 256 * 65536"
    using unat_u8_less [of "num_fats i"] unat_u16_less [of "fat_size_16 i"]
    by (intro mult_le_mono) (simp_all del: unat_u8_less unat_u16_less)
  ultimately show ?thesis
    using unat_first_fat_sector [OF assms]
    by (simp add: first_root_dir_sector_def root_base_def unat_word_ariths unat_ucast_up)
qed

lemma ceil_div_512: "((n :: nat) + 511) div 512 = (if n mod 512 = 0 then n div 512 else n div 512 + 1)"
proof -
  define q r where "q = n div 512" and "r = n mod 512"
  have n: "n = 512 * q + r" and "r < 512" by (simp_all add: q_def r_def)
  then have "(n + 511) div 512 = q + (r + 511) div 512" by simp
  moreover have "(r + 511) div 512 = (if r = 0 then 0 else 1)"
    using \<open>r < 512\<close> by (auto intro!: div_nat_eqI)
  ultimately show ?thesis by (simp add: q_def r_def)
qed

lemma unat_root_dir_sectors: "unat (root_dir_sectors i) = (unat (root_entry_count i) * 32 + 511) div 512"
proof -
  define n where "n = unat (root_entry_count i) * 32"
  have n: "n < 4294967296 - 512" using unat_u16_less [of "root_entry_count i"]
    by (simp add: n_def del: unat_u16_less)
  have u: "unat (ucast (root_entry_count i) * 32 :: u32) = n"
    using n by (simp add: unat_word_ariths unat_ucast_up n_def)
  have "(n + 511) div 512 = (if n mod 512 = 0 then n div 512 else n div 512 + 1)"
    by (rule ceil_div_512)
  moreover have "n div 512 + 1 < 4294967296" using n by linarith
  ultimately show ?thesis
    unfolding root_dir_sectors_def div_ceil_def n_def [symmetric] using u
    by (auto simp: word_unat_eq_iff unat_mod unat_div unat_word_ariths)
qed

lemma unat_first_data_sector:
  assumes "layout_ok i"
  shows "unat (first_data_sector i) = data_base i"
proof -
  have "data_base i < 2 ^ 32" using assms by (simp add: layout_ok_def)
  then show ?thesis
    using unat_first_root_dir_sector [OF assms] unat_root_dir_sectors [of i]
    by (simp add: first_data_sector_def data_base_def unat_word_ariths)
qed

lemma unat_cluster_to_lba:
  assumes "layout_ok i" "2 \<le> unat c" "unat c < 4096"
  shows "unat (cluster_to_lba i c) = data_base i + (unat c - 2) * unat (sectors_per_cluster i)"
proof -
  let ?n = "(unat c - 2) * unat (sectors_per_cluster i)"
  have le: "?n \<le> 4096 * unat (sectors_per_cluster i)" using assms(3) by (intro mult_right_mono) simp_all
  have "data_base i + 4096 * unat (sectors_per_cluster i) \<le> 2 ^ 28" using assms(1) by (simp add: layout_ok_def)
  with le have "data_base i + ?n \<le> 2 ^ 28" by linarith
  then have n: "data_base i + ?n < 2 ^ 32" by simp
  have "unat (c - 2) = unat c - 2" using assms(2) by (subst unat_sub) (simp_all add: word_le_nat_alt)
  then show ?thesis
    using unat_first_data_sector [OF assms(1)] n
    by (simp add: cluster_to_lba_def unat_word_ariths unat_ucast_up)
qed

lemma fat_lba_bound:
  assumes "layout_ok i" "k < unat (fat_size_16 i)"
  shows "unat (first_fat_sector i + of_nat k) = fat_base i + k" "fat_base i + k < root_base i"
    "fat_base i + k < 2 ^ 28"
proof -
  have "unat (fat_size_16 i) \<le> unat (num_fats i) * unat (fat_size_16 i)"
    using assms(1) by (simp add: layout_ok_def Suc_le_eq)
  then show lt: "fat_base i + k < root_base i" using assms(2) unfolding root_base_def by linarith
  moreover have "root_base i \<le> 2 ^ 28" using assms(1) base_order(2) [of i] by (simp add: layout_ok_def)
  ultimately show "fat_base i + k < 2 ^ 28" by linarith
  then show "unat (first_fat_sector i + of_nat k) = fat_base i + k"
    using unat_first_fat_sector [OF assms(1)] by (subst unat_add_of_nat) simp_all
qed

lemma fat_lba_inj:
  assumes "layout_ok i" "k < unat (fat_size_16 i)" "j < unat (fat_size_16 i)"
  shows "first_fat_sector i + of_nat k = first_fat_sector i + of_nat j \<longleftrightarrow> k = j"
  using fat_lba_bound(1) [OF assms(1,2)] fat_lba_bound(1) [OF assms(1,3)] by (metis add_left_imp_eq)

lemma fat_lbas_below_root:
  "layout_ok i \<Longrightarrow> root_base i \<le> unat lba \<Longrightarrow> lba \<notin> fat_lbas i"
  using fat_lba_bound by (fastforce simp: fat_lbas_def)

section \<open>Writing an entry through to the disk\<close>

lemma sub_update:
  "i < a \<or> a + n \<le> i \<Longrightarrow> sub (xs[i := v]) a n = sub xs a n"
  "a \<le> i \<Longrightarrow> i < a + n \<Longrightarrow> sub (xs[i := v]) a n = (sub xs a n)[i - a := v]"
proof -
  assume i: "i < a \<or> a + n \<le> i"
  show "sub (xs[i := v]) a n = sub xs a n"
  proof (cases "i < a")
    case False
    then have "a \<le> i" "n \<le> i - a" using i by auto
    then show ?thesis by (simp add: sub_def drop_update_swap)
  qed (simp add: sub_def)
qed (simp add: sub_def drop_update_swap take_update_swap)

lemma sub_two_updates:
  fixes xs :: "'a list"
  assumes "r < 512"
  shows "sub (xs[q * 512 + r := x, q * 512 + r + 1 := y]) (k * 512) 512 =
     (if q = k then if r = 511 then (sub xs (k * 512) 512)[511 := x] else (sub xs (k * 512) 512)[r := x, r + 1 := y]
      else if r = 511 \<and> q + 1 = k then (sub xs (k * 512) 512)[0 := y] else sub xs (k * 512) 512)"
proof -
  consider "q = k" "r = 511" | "q = k" "r < 511" | "q \<noteq> k" "r = 511" "q + 1 = k"
    | "q \<noteq> k" "\<not> (r = 511 \<and> q + 1 = k)" using assms by linarith
  then show ?thesis
  proof cases
    case 3
    then show ?thesis by (auto simp: sub_update)
  next
    case 4
    have "q * 512 + r < k * 512 \<or> k * 512 + 512 \<le> q * 512 + r"
      "q * 512 + r + 1 < k * 512 \<or> k * 512 + 512 \<le> q * 512 + r + 1"
      using 4 assms by linarith+
    moreover have "\<not> (r = 511 \<and> q + 1 = k)" by (rule 4(2))
    ultimately show ?thesis using 4(1) by (simp only: sub_update(1) if_False)
  qed (simp_all add: sub_update)
qed

context ata_disk
begin

lemma write_fat_entry:
  assumes lay: "layout_ok i" and co: "coherent (sects d) i" and rdy: "ready d"
    and range: "entry_offset c + 1 < length (fat_bytes i)"
  shows "\<exists>d'. write_fat_entry_to_disk bus c v (i, d) = (Ok (), (i\<lparr>fat_bytes := put_entry (fat_bytes i) c v\<rparr>, d'))
     \<and> ready d' \<and> coherent (sects d') (i\<lparr>fat_bytes := put_entry (fat_bytes i) c v\<rparr>)
     \<and> (\<forall>lba. lba \<notin> fat_lbas i \<longrightarrow> sects d' lba = sects d lba)"
proof -
  define fat n where "fat = fat_bytes i" and "n = unat (fat_size_16 i)"
  define q r where "q = entry_offset c div 512" and "r = entry_offset c mod 512"
  let ?L = "\<lambda>k. first_fat_sector i + of_nat k"
  have off: "entry_offset c = q * 512 + r" and r: "r < 512" by (simp_all add: q_def r_def)
  have len: "length fat = n * 512" and sec: "k < n \<Longrightarrow> sects d (?L k) = sub fat (k * 512) 512" for k
    using co by (simp_all add: coherent_def fat_def n_def)
  have qn: "q < n" and qn1: "r = 511 \<Longrightarrow> q + 1 < n"
    using range r unfolding fat_def [symmetric] len off by linarith+
  have lb: "k < n \<Longrightarrow> unat (?L k) < 2 ^ 28" for k
    using fat_lba_bound [OF lay] by (simp add: n_def)
  have inj: "k < n \<Longrightarrow> j < n \<Longrightarrow> ?L k = ?L j \<longleftrightarrow> k = j" for k j
    using fat_lba_inj [OF lay] by (simp add: n_def)
  have L1: "?L q + 1 = ?L (q + 1)" by (simp add: add.assoc)
  define raw where "raw = pack_entry c (le16 (fat ! entry_offset c) (fat ! (entry_offset c + 1))) v"
  have div: "entry_offset c div 512 = q" "entry_offset c mod 512 = r" by (simp_all add: q_def r_def)
  have put: "put_entry fat c v = fat[q * 512 + r := ucast raw, q * 512 + r + 1 := ucast (drop_bit 8 raw)]"
    by (simp add: put_entry_def Let_def raw_def off)
  have put': "(fat_bytes i)[entry_offset c := ucast raw, Suc (entry_offset c) := ucast (drop_bit 8 raw)] = put_entry fat c v"
    unfolding put by (simp add: fat_def off)
  note two = sub_two_updates [OF r, of fat q "ucast raw" "ucast (drop_bit 8 raw)"]
  obtain d1 where rd: "read_sector bus (?L q) d = (Ok (sub fat (q * 512) 512), d1)" "ready d1" "sects d1 = sects d"
    using read_law [OF rdy lb [OF qn]] sec [OF qn] by auto
  show ?thesis
  proof (cases "r = 511")
    case False
    then have r1: "r + 1 < 512" using r by simp
    have byt: "pack_entry c (le16 (sub fat (q * 512) 512 ! r) (sub fat (q * 512) 512 ! Suc r)) v = raw"
      using r r1 qn len by (simp add: off raw_def)
    define b where "b = (sub fat (q * 512) 512)[r := ucast raw, r + 1 := ucast (drop_bit 8 raw)]"
    have "length b = 512" using qn len by (simp add: b_def)
    then obtain d2 where wr: "write_sector bus (?L q) b d1 = (Ok (), d2)" "ready d2" "sects d2 = (sects d)(?L q := b)"
      using write_law [OF rd(2) lb [OF qn]] rd(3) by metis
    have run: "write_fat_entry_to_disk bus c v (i, d) = (Ok (), (i\<lparr>fat_bytes := put_entry fat c v\<rparr>, d2))"
      using False range rd(1) wr(1)
      by (simp add: write_fat_entry_to_disk_def with_info_def Let_def io_bind_def disk_io_def div byt b_def put')
    have "coherent (sects d2) (i\<lparr>fat_bytes := put_entry fat c v\<rparr>)"
      using len sec two inj qn False
      by (auto simp: coherent_def wr(3) first_fat_sector_def put b_def n_def)
    moreover have "lba \<notin> fat_lbas i \<Longrightarrow> sects d2 lba = sects d lba" for lba
      using qn by (auto simp: wr(3) fat_lbas_def n_def)
    ultimately show ?thesis using run wr(2) by (auto simp: fat_def)
  next
    case True
    note qn1 = qn1 [OF True]
    have Ls: "?L q + 1 = ?L (Suc q)" by (simp add: add.assoc)
    have byt: "pack_entry c (le16 (sub fat (q * 512) 512 ! 511) (sub fat (Suc q * 512) 512 ! 0)) v = raw"
      using True qn1 len by (simp add: off raw_def)
    obtain d2 where rd2: "read_sector bus (?L (Suc q)) d1 = (Ok (sub fat (Suc q * 512) 512), d2)" "ready d2" "sects d2 = sects d"
      using read_law [OF rd(2) lb [of "Suc q"]] sec [of "Suc q"] qn1 rd(3) by auto
    define b where "b = (sub fat (q * 512) 512)[511 := ucast raw]"
    define b' where "b' = (sub fat (Suc q * 512) 512)[0 := ucast (drop_bit 8 raw)]"
    have lens: "length b = 512" "length b' = 512" using qn1 len by (simp_all add: b_def b'_def)
    obtain d3 where wr: "write_sector bus (?L q) b d2 = (Ok (), d3)" "ready d3" "sects d3 = (sects d)(?L q := b)"
      using write_law [OF rd2(2) lb [OF qn] lens(1)] rd2(3) by metis
    obtain d4 where wr2: "write_sector bus (?L (Suc q)) b' d3 = (Ok (), d4)" "ready d4"
        "sects d4 = (sects d)(?L q := b, ?L (Suc q) := b')"
      using write_law [OF wr(2) lb [of "Suc q"] lens(2)] wr(3) qn1 by (metis Suc_eq_plus1)
    have run: "write_fat_entry_to_disk bus c v (i, d) = (Ok (), (i\<lparr>fat_bytes := put_entry fat c v\<rparr>, d4))"
      using True range rd(1) rd2(1) wr(1) wr2(1)
      by (simp add: write_fat_entry_to_disk_def with_info_def Let_def io_bind_def disk_io_def div Ls byt [simplified]
          b_def b'_def put' del: of_nat_Suc)
    have "coherent (sects d4) (i\<lparr>fat_bytes := put_entry fat c v\<rparr>)"
      unfolding coherent_def wr2(3)
    proof (intro conjI allI impI)
      fix k
      assume "k < unat (fat_size_16 (i\<lparr>fat_bytes := put_entry fat c v\<rparr>))"
      then have k: "k < n" by (simp add: n_def)
      have "?L k = ?L q \<longleftrightarrow> k = q" "?L k = ?L (Suc q) \<longleftrightarrow> k = Suc q"
        using inj [OF k qn] inj [OF k, of "Suc q"] qn1 by (simp_all del: of_nat_Suc)
      then show "((sects d)(?L q := b, ?L (Suc q) := b')) (first_fat_sector (i\<lparr>fat_bytes := put_entry fat c v\<rparr>) + of_nat k)
          = sub (fat_bytes (i\<lparr>fat_bytes := put_entry fat c v\<rparr>)) (k * 512) 512"
        using two [of k] True sec [OF k] by (auto simp: first_fat_sector_def put b_def b'_def simp del: of_nat_Suc)
    qed (use len in \<open>simp add: n_def\<close>)
    moreover have "lba \<notin> fat_lbas i \<Longrightarrow> sects d4 lba = sects d lba" for lba
      using qn qn1 by (auto simp: wr2(3) fat_lbas_def n_def simp del: of_nat_Suc)
    ultimately show ?thesis using run wr2(2) by (auto simp: fat_def)
  qed
qed

end

section \<open>Allocation\<close>

lemma scan_in_range: "c < m * 2 div 3 \<Longrightarrow> m < 4294967296 div 3 \<Longrightarrow> entry_offset (of_nat c) + 1 < m"
proof -
  assume c: "c < m * 2 div 3" "m < 4294967296 div 3"
  then have "c * 3 + 3 \<le> m * 2" by linarith
  moreover have "unat (of_nat c * 3 :: u32) = c * 3"
    using c by (simp add: unat_word_ariths unat_of_nat)
  then have "entry_offset (of_nat c) = c * 3 div 2" by (simp add: entry_offset_def unat_div)
  ultimately show ?thesis by linarith
qed

lemma free_scan_eq:
  assumes "\<And>c. c \<in> set cs \<Longrightarrow> entry_offset (of_nat c) + 1 < length fat" "length found \<le> count"
  shows "free_scan fat count cs found =
     take count (found @ map of_nat (filter (\<lambda>c. fat_entry fat (of_nat c) = 0) cs))"
  using assms
proof (induction cs arbitrary: found)
  case (Cons c cs)
  have "\<not> length fat \<le> entry_offset (of_nat c) + 1" using Cons.prems(1) [of c] by simp
  then show ?case
    using Cons.prems Cons.IH [of "found @ [of_nat c]"] Cons.IH [of found]
    by (cases "length found = count") simp_all
qed simp

text \<open>The clusters of a volume that its table marks as free, in ascending order.\<close>

definition free_clusters :: "fat12_info \<Rightarrow> u32 list" where
  "free_clusters i = map of_nat (filter (\<lambda>c. fat_entry (fat_bytes i) (of_nat c) = 0)
     [2..<length (fat_bytes i) * 2 div 3])"

lemma find_free_clusters_eq:
  assumes "length (fat_bytes i) < 4294967296 div 3"
  shows "find_free_clusters i count =
     (if length (free_clusters i) < count then Err ''FAT12: not enough free clusters available for this file''
      else Ok (take count (free_clusters i)))"
proof -
  have "unat (of_nat (length (fat_bytes i) * 2 div 3) :: u32) = length (fat_bytes i) * 2 div 3"
    using assms by (simp add: unat_of_nat)
  moreover have "free_scan (fat_bytes i) count [2..<length (fat_bytes i) * 2 div 3] [] = take count (free_clusters i)"
    using assms scan_in_range by (subst free_scan_eq) (simp_all add: free_clusters_def)
  ultimately show ?thesis by (simp add: find_free_clusters_def Let_def)
qed

lemma distinct_free_clusters:
  assumes "length (fat_bytes i) < 4294967296 div 3"
  shows "distinct (free_clusters i)"
proof -
  have "inj_on (of_nat :: nat \<Rightarrow> u32) {2..<length (fat_bytes i) * 2 div 3}"
  proof (rule inj_onI)
    fix x y :: nat
    assume "x \<in> {2..<length (fat_bytes i) * 2 div 3}" "y \<in> {2..<length (fat_bytes i) * 2 div 3}"
      "(of_nat x :: u32) = of_nat y"
    then show "x = y" using assms by (auto simp: word_unat_eq_iff unat_of_nat)
  qed
  then show ?thesis
    by (auto simp: free_clusters_def distinct_map intro: inj_on_subset)
qed

lemma set_free_clusters:
  assumes "length (fat_bytes i) \<le> 6144" "c \<in> set (free_clusters i)"
  shows "2 \<le> unat c" "unat c < 4096" "entry_offset c + 1 < length (fat_bytes i)" "fat_entry (fat_bytes i) c = 0"
proof -
  obtain k where k: "c = of_nat k" "2 \<le> k" "k < length (fat_bytes i) * 2 div 3" "fat_entry (fat_bytes i) c = 0"
    using assms(2) by (auto simp: free_clusters_def)
  have "k < 4096" using k(3) assms(1) by linarith
  then show "2 \<le> unat c" "unat c < 4096" using k by (simp_all add: unat_of_nat)
  show "entry_offset c + 1 < length (fat_bytes i)" using scan_in_range [OF k(3)] assms(1) k(1) by simp
qed (use assms in \<open>auto simp: free_clusters_def\<close>)

section \<open>Properties\<close>

text \<open>
  Writing a FAT entry. On an addressable FAT12 volume whose cached table agrees with the disk,
  writing the entry of a cluster of the table always succeeds, and afterwards the entry reads as
  the low 12 bits of the value, the entries of all other clusters are what they were (the one that
  shares a byte with it included), the cache still agrees with the disk, also where the entry
  straddles two sectors, and no sector outside the first FAT has changed. For a cluster outside
  the table nothing happens and an error is reported.
\<close>

theorem write_fat_entry_correct:
  assumes "ata_disk bus sects ready" "layout_ok i" "coherent (sects d) i" "ready d" "unat c < 4096"
  shows "if entry_offset c + 1 < length (fat_bytes i)
    then \<exists>i' d'. write_fat_entry_to_disk bus c v (i, d) = (Ok (), (i', d')) \<and> ready d' \<and> coherent (sects d') i'
      \<and> (\<forall>c'. unat c' < 4096 \<longrightarrow> fat_entry (fat_bytes i') c' = (if c' = c then v AND 0x0FFF else fat_entry (fat_bytes i) c'))
      \<and> (\<forall>lba. lba \<notin> fat_lbas i \<longrightarrow> sects d' lba = sects d lba)
    else write_fat_entry_to_disk bus c v (i, d) = (Err ''FAT12: cluster number out of range for this FAT'', (i, d))"
proof (cases "entry_offset c + 1 < length (fat_bytes i)")
  case True
  then obtain d' where "write_fat_entry_to_disk bus c v (i, d) = (Ok (), (i\<lparr>fat_bytes := put_entry (fat_bytes i) c v\<rparr>, d'))"
      "ready d'" "coherent (sects d') (i\<lparr>fat_bytes := put_entry (fat_bytes i) c v\<rparr>)"
      "\<forall>lba. lba \<notin> fat_lbas i \<longrightarrow> sects d' lba = sects d lba"
    using ata_disk.write_fat_entry [OF assms(1-4), of c v] by blast
  moreover have "fat_entry (put_entry (fat_bytes i) c v) c' = (if c' = c then v AND 0x0FFF else fat_entry (fat_bytes i) c')"
    if "unat c' < 4096" for c'
    using that True assms(5) fat_entry_put_same fat_entry_put_other by metis
  ultimately show ?thesis
    using True by (subst if_P, simp, intro exI [of _ "i\<lparr>fat_bytes := put_entry (fat_bytes i) c v\<rparr>"] exI [of _ d']) simp_all
next
  case False
  then show ?thesis by (simp add: write_fat_entry_to_disk_def with_info_def Let_def)
qed

definition tiny_volume :: fat12_info where
  "tiny_volume = \<lparr>sectors_per_cluster = 1, num_fats = 1, fat_size_16 = 2, root_entry_count = 16,
     reserved_sector_count = 1, partition_start_lba = 2048, fat_bytes = replicate 1024 0\<rparr>"

lemma tiny_volume_ok: "layout_ok tiny_volume" "coherent (pio_store blank_drive) tiny_volume"
  by (auto simp: layout_ok_def data_base_def root_base_def fat_base_def tiny_volume_def coherent_def
      blank_drive_def sub_def less_2_cases_iff)

theorem write_fat_entry_correct_witness:
  "\<exists>i' d'. write_fat_entry_to_disk pio_bus 341 0x123 (tiny_volume, blank_drive) = (Ok (), (i', d'))
     \<and> fat_entry (fat_bytes i') 341 = 0x123 \<and> fat_entry (fat_bytes i') 340 = fat_entry (fat_bytes tiny_volume) 340"
proof -
  have r: "entry_offset 341 + 1 < length (fat_bytes tiny_volume)"
    by (simp add: entry_offset_def tiny_volume_def)
  obtain i' d' where "write_fat_entry_to_disk pio_bus 341 0x123 (tiny_volume, blank_drive) = (Ok (), (i', d'))"
      and e: "\<forall>c'. unat c' < 4096 \<longrightarrow> fat_entry (fat_bytes i') c' =
        (if c' = 341 then 0x123 AND 0x0FFF else fat_entry (fat_bytes tiny_volume) c')"
    using write_fat_entry_correct [OF pio.ata_disk_axioms tiny_volume_ok blank_drive_ready, of 341 "0x123"] r
    by (simp only: if_True) auto
  moreover have "fat_entry (fat_bytes i') 341 = 0x123"
    using spec [OF e, of 341] by simp
  moreover have "fat_entry (fat_bytes i') 340 = fat_entry (fat_bytes tiny_volume) 340"
    using spec [OF e, of 340] by simp
  ultimately show ?thesis by blast
qed

text \<open>
  Allocation hands out exactly the first free clusters. \<^verbatim>\<open>find_free_clusters\<close> returns the
  \<open>count\<close> lowest cluster numbers from 2 on whose entry is 0, in ascending order and without
  repetition, all inside the table; it fails exactly when there are fewer than \<open>count\<close>.
\<close>

theorem find_free_clusters_correct:
  assumes "length (fat_bytes i) \<le> 6144"
  shows "(length (free_clusters i) < count \<longleftrightarrow> is_err (find_free_clusters i count))
    \<and> (count \<le> length (free_clusters i) \<longrightarrow>
        (\<exists>cs. find_free_clusters i count = Ok cs \<and> length cs = count \<and> distinct cs \<and> cs = take count (free_clusters i)
          \<and> (\<forall>c \<in> set cs. 2 \<le> unat c \<and> entry_offset c + 1 < length (fat_bytes i)
              \<and> next_cluster i c = Err ''FAT12: cluster chain hit a free (0) entry unexpectedly'')))"
proof -
  have l: "length (fat_bytes i) < 4294967296 div 3" using assms by simp
  have "c \<in> set (take count (free_clusters i)) \<Longrightarrow> 2 \<le> unat c \<and> entry_offset c + 1 < length (fat_bytes i)
      \<and> next_cluster i c = Err ''FAT12: cluster chain hit a free (0) entry unexpectedly''" for c
    using set_free_clusters [OF assms, of c] by (auto dest!: in_set_takeD simp: next_cluster_def)
  then show ?thesis
    using find_free_clusters_eq [OF l, of count] distinct_free_clusters [OF l] by auto
qed

lemma free_clusters_tiny: "free_clusters tiny_volume = map of_nat [2..<682]"
proof -
  have z: "fat_entry (replicate 1024 0) (of_nat c) = 0" if "c < 682" for c
  proof -
    have "entry_offset (of_nat c) + 1 < 1024" using that by (intro scan_in_range) simp_all
    then show ?thesis by (simp add: fat_entry_def unpack_entry_def le16_def be16_def)
  qed
  have "filter (\<lambda>c. fat_entry (replicate 1024 0) (of_nat c) = 0) [2..<682] = [2..<682]"
    unfolding filter_id_conv set_upt by (intro ballI z) (simp only: atLeastLessThan_iff)
  moreover have "1024 * 2 div 3 = (682 :: nat)" by simp
  ultimately show ?thesis
    by (simp only: free_clusters_def tiny_volume_def fat12_info.simps length_replicate)
qed

theorem find_free_clusters_correct_witness:
  "length (fat_bytes tiny_volume) \<le> 6144 \<and> find_free_clusters tiny_volume 3 = Ok [2, 3, 4]"
proof -
  have "take 3 [2..<682] = [2..<2 + 3]" by (rule take_upt) simp
  then have t: "take 3 (map of_nat [2..<682]) = map (of_nat :: nat \<Rightarrow> u32) [2..<5]" by (simp only: take_map) simp
  have "3 \<le> length (free_clusters tiny_volume)" unfolding free_clusters_tiny by (simp only: length_map length_upt)
  moreover have "length (fat_bytes tiny_volume) \<le> 6144" by (simp add: tiny_volume_def)
  ultimately have "find_free_clusters tiny_volume 3 = Ok (take 3 (free_clusters tiny_volume))"
    using find_free_clusters_correct [of tiny_volume 3] by auto
  then show ?thesis unfolding free_clusters_tiny t by (simp add: tiny_volume_def)
qed

end
