(* ===== verification/Fat12_Dir.thy ===== *)
theory Fat12_Dir
  imports Fat12_Table
begin

text \<open>
  Directories of \<open>Fat12_Model\<close> as flat lists of slots. A slot is a place on the disk (sector and
  byte offset) with its 32 bytes; each scanner of the source (search, free slots, long-name slots,
  short names) is a recursion over the slots of all sectors of the directory.
\<close>

section \<open>Operations that only read\<close>

context ata_disk
begin

definition reads :: "('d, 'a) io \<Rightarrow> 'd \<Rightarrow> 'a outcome \<Rightarrow> bool" where
  "reads m d r \<longleftrightarrow> (\<exists>d'. m d = (r, d') \<and> ready d' \<and> sects d' = sects d)"

lemma reads_simple [intro]:
  "ready d \<Longrightarrow> reads (io_ret a) d (Ok a)" "ready d \<Longrightarrow> reads (io_lift r) d r" "ready d \<Longrightarrow> reads (io_err e) d (Err e)"
  by (simp_all add: reads_def)

lemma reads_sector: "ready d \<Longrightarrow> unat lba < 2 ^ 28 \<Longrightarrow> reads (read_sector bus lba) d (Ok (sects d lba))"
  unfolding reads_def by (rule read_law)

lemma reads_bind:
  assumes "reads m d (Ok a)" "\<And>d'. ready d' \<Longrightarrow> sects d' = sects d \<Longrightarrow> reads (f a) d' r"
  shows "reads (io_bind m f) d r"
proof -
  obtain d' where d: "m d = (Ok a, d')" "ready d'" "sects d' = sects d" using assms(1) by (auto simp: reads_def)
  then show ?thesis using assms(2) [OF d(2,3)] by (auto simp: reads_def io_bind_def)
qed

lemma reads_disk_io:
  assumes "reads m d r"
  shows "\<exists>d'. disk_io m (i, d) = (r, (i, d')) \<and> ready d' \<and> sects d' = sects d"
  using assms by (auto simp: reads_def disk_io_def)

end

section \<open>Slots\<close>

type_synonym slot = "(u32 \<times> nat) \<times> bytes"

definition sector_slots :: "(u32 \<Rightarrow> bytes) \<Rightarrow> u32 \<Rightarrow> slot list" where
  "sector_slots disk lba = zip (map (\<lambda>k. (lba, k * 32)) [0..<16]) (chunks 32 (disk lba))"

definition dir_slots :: "(u32 \<Rightarrow> bytes) \<Rightarrow> u32 list \<Rightarrow> slot list" where
  "dir_slots disk lbas = concat (map (sector_slots disk) lbas)"

lemma dir_slots_simps [simp]:
  "dir_slots disk [] = []" "dir_slots disk (lba # lbas) = sector_slots disk lba @ dir_slots disk lbas"
  by (simp_all add: dir_slots_def)

lemma length_chunks_sector: "length buf = 512 \<Longrightarrow> length (chunks 32 buf) = 16"
  by (simp add: length_chunks)

lemma sector_slots_eq:
  assumes "length (disk lba) = 512"
  shows "sector_slots disk lba = map (\<lambda>k. ((lba, k * 32), sub (disk lba) (k * 32) 32)) [0..<16]"
  unfolding sector_slots_def
  by (rule nth_equalityI) (use assms in \<open>auto simp: length_chunks nth_chunks\<close>)

definition is_free_slot :: "bytes \<Rightarrow> bool" where
  "is_free_slot raw \<longleftrightarrow> raw ! 0 = 0x00 \<or> raw ! 0 = 0xE5"

definition is_long_slot :: "bytes \<Rightarrow> bool" where
  "is_long_slot raw \<longleftrightarrow> \<not> is_free_slot raw \<and> raw ! 11 = 0x0F"

fun flat_find :: "string \<Rightarrow> bytes \<Rightarrow> slot list \<Rightarrow> lfn_state \<Rightarrow> (u32 \<times> nat \<times> dir_entry) outcome" where
  "flat_find nf name [] lfn = Err nf"
| "flat_find nf name (((lba, off), raw) # fl) lfn =
     (if raw ! 0 = 0x00 then Err nf
      else if raw ! 0 = 0xE5 then flat_find nf name fl (lfn_reset lfn)
      else if raw ! 11 = 0x0F then flat_find nf name fl (push_long_entry raw lfn)
      else if raw ! 11 AND 0x08 \<noteq> 0 then flat_find nf name fl (lfn_reset lfn)
      else case short_entry_if_matches raw lfn name of
             (Some entry, _) \<Rightarrow> Ok (lba, off, entry)
           | (None, lfn') \<Rightarrow> flat_find nf name fl lfn')"

lemma flat_find_sector:
  assumes "locs = map (\<lambda>k. (lba, k * 32)) [k..<k + length raws]"
  shows "flat_find nf name (zip locs raws @ rest) lfn =
     (case find_in_sector nf name k raws lfn of
        Scan_Return r \<Rightarrow> omap (\<lambda>(off, e). (lba, off, e)) r
      | Scan_More lfn' \<Rightarrow> flat_find nf name rest lfn')"
  using assms
proof (induction raws arbitrary: k lfn locs)
  case (Cons raw raws)
  have l: "locs = (lba, k * 32) # map (\<lambda>k. (lba, k * 32)) [k + 1..<(k + 1) + length raws]"
    using Cons.prems by (simp add: upt_conv_Cons del: upt_Suc)
  show ?case
    unfolding l using Cons.IH [OF refl, of "k + 1"]
    by (auto split: option.split prod.split)
qed simp

fun flat_free :: "nat \<Rightarrow> slot list \<Rightarrow> (u32 \<times> nat) list \<Rightarrow> ((u32 \<times> nat) list, (u32 \<times> nat) list) scan" where
  "flat_free count [] run = Scan_More run"
| "flat_free count ((loc, raw) # fl) run =
     (if is_free_slot raw
      then if length run + 1 = count then Scan_Return (run @ [loc]) else flat_free count fl (run @ [loc])
      else flat_free count fl [])"

lemma flat_free_sector:
  assumes "locs = map (\<lambda>k. (lba, k * 32)) [k..<k + length raws]"
  shows "flat_free count (zip locs raws @ rest) run =
     (case free_run_in_sector count lba k raws run of
        Scan_Return r \<Rightarrow> Scan_Return r | Scan_More run' \<Rightarrow> flat_free count rest run')"
  using assms
proof (induction raws arbitrary: k run locs)
  case (Cons raw raws)
  have l: "locs = (lba, k * 32) # map (\<lambda>k. (lba, k * 32)) [k + 1..<(k + 1) + length raws]"
    using Cons.prems by (simp add: upt_conv_Cons del: upt_Suc)
  show ?case
    unfolding l using Cons.IH [OF refl, of "k + 1"] by (auto simp: is_free_slot_def Let_def)
qed simp

text \<open>
  Where a run of free slots was found: \<open>ss\<close> continues \<open>run\<close> at the front of \<open>fl\<close>, or it starts
  after a slot that is in use.
\<close>

definition free_window :: "slot list \<Rightarrow> (u32 \<times> nat) list \<Rightarrow> (u32 \<times> nat) list \<Rightarrow> bool" where
  "free_window fl run ss \<longleftrightarrow>
     (\<exists>mid post. fl = mid @ post \<and> ss = run @ map fst mid \<and> (\<forall>s \<in> set mid. is_free_slot (snd s)))
     \<or> (\<exists>pre mid post. fl = pre @ mid @ post \<and> pre \<noteq> [] \<and> \<not> is_free_slot (snd (last pre)) \<and> ss = map fst mid
          \<and> (\<forall>s \<in> set mid. is_free_slot (snd s)))"

lemma free_window_free:
  assumes "free_window fl (run @ [loc]) ss" "is_free_slot raw"
  shows "free_window ((loc, raw) # fl) run ss"
  using assms(1) [unfolded free_window_def]
proof (elim disjE exE conjE)
  fix mid post
  assume "fl = mid @ post" "ss = (run @ [loc]) @ map fst mid" "\<forall>s \<in> set mid. is_free_slot (snd s)"
  then show "free_window ((loc, raw) # fl) run ss" unfolding free_window_def
    using assms(2) by (intro disjI1 exI [of _ "(loc, raw) # mid"] exI [of _ post]) auto
next
  fix pre mid post
  assume "fl = pre @ mid @ post" "pre \<noteq> []" "\<not> is_free_slot (snd (last pre))" "ss = map fst mid"
    "\<forall>s \<in> set mid. is_free_slot (snd s)"
  then show "free_window ((loc, raw) # fl) run ss" unfolding free_window_def
    by (intro disjI2 exI [of _ "(loc, raw) # pre"] exI [of _ mid] exI [of _ post]) auto
qed

lemma free_window_used:
  assumes "free_window fl [] ss" "\<not> is_free_slot raw"
  shows "free_window ((loc, raw) # fl) run ss"
  using assms(1) [unfolded free_window_def]
proof (elim disjE exE conjE)
  fix mid post
  assume "fl = mid @ post" "ss = [] @ map fst mid" "\<forall>s \<in> set mid. is_free_slot (snd s)"
  then show "free_window ((loc, raw) # fl) run ss" unfolding free_window_def
    using assms(2) by (intro disjI2 exI [of _ "[(loc, raw)]"] exI [of _ mid] exI [of _ post]) auto
next
  fix pre mid post
  assume "fl = pre @ mid @ post" "pre \<noteq> []" "\<not> is_free_slot (snd (last pre))" "ss = map fst mid"
    "\<forall>s \<in> set mid. is_free_slot (snd s)"
  then show "free_window ((loc, raw) # fl) run ss" unfolding free_window_def
    by (intro disjI2 exI [of _ "(loc, raw) # pre"] exI [of _ mid] exI [of _ post]) auto
qed

lemma flat_free_Return:
  "flat_free count fl run = Scan_Return ss \<Longrightarrow> length run < count \<Longrightarrow> length ss = count \<and> free_window fl run ss"
proof (induction count fl run rule: flat_free.induct)
  case (2 count loc raw fl run)
  show ?case
  proof (cases "is_free_slot raw \<and> length run + 1 = count")
    case True
    then have "ss = run @ [loc]" using "2.prems" by simp
    then show ?thesis
      using True unfolding free_window_def
      by (intro conjI disjI1 exI [of _ "[(loc, raw)]"] exI [of _ fl]) auto
  next
    case False
    then show ?thesis using 2 free_window_free free_window_used by (cases "is_free_slot raw") auto
  qed
qed simp

section \<open>Writing slots\<close>

definition put_slot :: "(u32 \<times> nat) \<times> bytes \<Rightarrow> (u32 \<Rightarrow> bytes) \<Rightarrow> u32 \<Rightarrow> bytes" where
  "put_slot w disk = (case w of ((lba, off), e) \<Rightarrow> disk(lba := overwrite (disk lba) off e))"

definition replace_slot :: "(u32 \<times> nat) \<times> bytes \<Rightarrow> slot list \<Rightarrow> slot list" where
  "replace_slot w = map (\<lambda>(l, r). (l, if l = fst w then snd w else r))"

definition slot_place :: "u32 \<times> nat \<Rightarrow> bool" where
  "slot_place l \<longleftrightarrow> (\<exists>k<16. snd l = k * 32)"

lemma map_fst_dir_slots:
  "\<forall>lba \<in> set lbas. length (disk lba) = 512 \<Longrightarrow>
   map fst (dir_slots disk lbas) = concat (map (\<lambda>lba. map (\<lambda>k. (lba, k * 32)) [0..<16]) lbas)"
  by (induction lbas) (simp_all add: sector_slots_eq comp_def)

lemma distinct_dir_slots:
  assumes "\<forall>lba \<in> set lbas. length (disk lba) = 512" "distinct lbas"
  shows "distinct (map fst (dir_slots disk lbas))"
  unfolding map_fst_dir_slots [OF assms(1)] using assms(2)
  by (induction lbas) (auto simp: distinct_map inj_on_def)

lemma dir_slots_place:
  "\<forall>lba \<in> set lbas. length (disk lba) = 512 \<Longrightarrow> l \<in> set (map fst (dir_slots disk lbas)) \<Longrightarrow> slot_place l \<and> fst l \<in> set lbas"
  by (simp only: map_fst_dir_slots) (auto simp: slot_place_def)

lemma sector_slots_put:
  assumes "length (disk lba) = 512" "length e = 32" "k < 16"
  shows "sector_slots (put_slot ((lba, k * 32), e) disk) lba = replace_slot ((lba, k * 32), e) (sector_slots disk lba)"
proof -
  have le: "k * 32 + length e \<le> length (disk lba)" using assms by simp
  have "sub (overwrite (disk lba) (k * 32) e) (j * 32) 32 = (if j = k then e else sub (disk lba) (j * 32) 32)"
    if "j < 16" for j
  proof (cases "j = k")
    case True
    then show ?thesis using le assms(2) by simp
  next
    case False
    then have "j * 32 + 32 \<le> k * 32 \<or> k * 32 + length e \<le> j * 32" using assms(2) by linarith
    then show ?thesis using False le that assms(1) by (simp add: sub_overwrite_other)
  qed
  then have "map (\<lambda>j. ((lba, j * 32), sub (overwrite (disk lba) (k * 32) e) (j * 32) 32)) [0..<16]
      = replace_slot ((lba, k * 32), e) (map (\<lambda>j. ((lba, j * 32), sub (disk lba) (j * 32) 32)) [0..<16])"
    unfolding replace_slot_def map_map by (intro map_cong) auto
  then show ?thesis
    using assms(1) le by (simp add: put_slot_def sector_slots_eq del: upt_rec_numeral)
qed

lemma sector_slots_put_other:
  assumes "x \<noteq> lba" "length (disk x) = 512"
  shows "sector_slots (put_slot ((lba, off), e) disk) x = replace_slot ((lba, off), e) (sector_slots disk x)"
  using assms by (simp add: put_slot_def sector_slots_eq replace_slot_def)

lemma dir_slots_put:
  assumes "\<forall>x \<in> set lbas. length (disk x) = 512" "length e = 32" "slot_place l"
  shows "dir_slots (put_slot (l, e) disk) lbas = replace_slot (l, e) (dir_slots disk lbas)"
proof -
  obtain lba k where l: "l = (lba, k * 32)" "k < 16" using assms(3) by (cases l) (auto simp: slot_place_def)
  show ?thesis using assms(1)
  proof (induction lbas)
    case (Cons x xs)
    have "sector_slots (put_slot (l, e) disk) x = replace_slot (l, e) (sector_slots disk x)"
      using Cons.prems sector_slots_put [OF _ assms(2) l(2)] sector_slots_put_other unfolding l(1)
      by (cases "x = lba") auto
    then show ?case using Cons by (simp add: replace_slot_def)
  qed (simp add: replace_slot_def)
qed

lemma put_slot_length:
  "length (disk (fst l)) = 512 \<Longrightarrow> length e = 32 \<Longrightarrow> slot_place l \<Longrightarrow>
   length (put_slot (l, e) disk x) = length (disk x)"
  by (cases l) (auto simp: put_slot_def slot_place_def)

lemma dir_slots_fold_put:
  assumes "\<forall>x \<in> set lbas. length (disk x) = 512" "\<forall>w \<in> set ws. length (snd w) = 32 \<and> slot_place (fst w)"
    "\<forall>w \<in> set ws. length (disk (fst (fst w))) = 512"
  shows "dir_slots (fold put_slot ws disk) lbas = fold replace_slot ws (dir_slots disk lbas)"
  using assms
proof (induction ws arbitrary: disk)
  case (Cons w ws)
  obtain l e where w: "w = (l, e)" by (cases w)
  have le: "length e = 32" "slot_place l" "length (disk (fst l)) = 512" using Cons.prems w by auto
  have "dir_slots (fold put_slot ws (put_slot w disk)) lbas = fold replace_slot ws (dir_slots (put_slot w disk) lbas)"
    using Cons.prems le w by (intro Cons.IH) (auto simp: put_slot_length)
  then show ?case using dir_slots_put [OF Cons.prems(1) le(1,2)] w by simp
qed simp

lemma replace_window:
  "distinct (map fst (pre @ mid @ post)) \<Longrightarrow> length es = length mid \<Longrightarrow>
   fold replace_slot (zip (map fst mid) es) (pre @ mid @ post) = pre @ zip (map fst mid) es @ post"
proof (induction mid arbitrary: pre es)
  case (Cons m mid)
  obtain e es' where es: "es = e # es'" using Cons.prems(2) by (cases es) auto
  have other: "replace_slot (fst m, e) xs = xs" if "fst m \<notin> set (map fst xs)" for xs
    unfolding replace_slot_def using that by (intro map_idI) (auto simp: rev_image_eqI split: prod.split)
  have "replace_slot (fst m, e) (pre @ (m # mid) @ post) = (pre @ [(fst m, e)]) @ mid @ post"
    using Cons.prems(1) other [of pre] other [of mid] other [of post]
    by (auto simp: replace_slot_def split: prod.split)
  then show ?case
    using Cons.IH [of "pre @ [(fst m, e)]" es'] Cons.prems es by simp
qed simp

context ata_disk
begin

lemma write_slot_run:
  assumes "ready d" "unat lba < 2 ^ 28" "off + length e \<le> 512"
  shows "\<exists>d'. write_slot bus (lba, off, e) d = (Ok (), d') \<and> ready d' \<and> sects d' = put_slot ((lba, off), e) (sects d)"
proof -
  obtain d1 where r: "read_sector bus lba d = (Ok (sects d lba), d1)" "ready d1" "sects d1 = sects d"
    using read_law [OF assms(1,2)] by blast
  have "length (overwrite (sects d lba) off e) = 512"
    using sector_size [OF assms(1)] assms(3) by simp
  then show ?thesis
    using write_law [OF r(2) assms(2)] r by (auto simp: write_slot_def io_bind_def put_slot_def)
qed

lemma write_slots_run:
  "ready d \<Longrightarrow> \<forall>((lba, off), e) \<in> set ws. unat lba < 2 ^ 28 \<and> off + length e \<le> 512 \<Longrightarrow>
   \<exists>d'. io_for (map (\<lambda>((lba, off), e). (lba, off, e)) ws) (write_slot bus) d = (Ok (), d') \<and> ready d'
     \<and> sects d' = fold put_slot ws (sects d)"
proof (induction ws arbitrary: d)
  case (Cons w ws)
  obtain lba off e where w: "w = ((lba, off), e)" by (metis prod.exhaust)
  obtain d1 where d1: "write_slot bus (lba, off, e) d = (Ok (), d1)" "ready d1" "sects d1 = put_slot w (sects d)"
    using write_slot_run [of d lba off e] Cons.prems w by auto
  then show ?case using Cons.IH [OF d1(2)] Cons.prems w by (auto simp: io_bind_def)
qed simp

end

section \<open>The scanners on the disk\<close>

context ata_disk
begin

lemma sector_locs: "ready d \<Longrightarrow> sector_slots (sects d) lba =
    zip (map (\<lambda>k. (lba, k * 32)) [0..<0 + length (chunks 32 (sects d lba))]) (chunks 32 (sects d lba))"
  by (simp add: sector_slots_def length_chunks_sector [OF sector_size])

lemma reads_find_in_sectors:
  "ready d \<Longrightarrow> \<forall>lba \<in> set lbas. unat lba < 2 ^ 28 \<Longrightarrow>
   reads (find_in_sectors bus nf name lbas lfn) d (flat_find nf name (dir_slots (sects d) lbas) lfn)"
proof (induction lbas arbitrary: d lfn)
  case (Cons lba lbas)
  let ?r = "find_in_sector nf name 0 (chunks 32 (sects d lba)) lfn"
  have eq: "flat_find nf name (dir_slots (sects d) (lba # lbas)) lfn =
      (case ?r of Scan_Return r \<Rightarrow> omap (\<lambda>(off, e). (lba, off, e)) r
       | Scan_More lfn' \<Rightarrow> flat_find nf name (dir_slots (sects d) lbas) lfn')"
    unfolding dir_slots_simps sector_locs [OF Cons.prems(1)] by (rule flat_find_sector) simp
  show ?case
    unfolding eq find_in_sectors.simps
  proof (rule reads_bind [OF reads_sector])
    fix d'
    assume d': "ready d'" "sects d' = sects d"
    show "reads (case ?r of Scan_Return r \<Rightarrow> io_lift (omap (\<lambda>(off, e). (lba, off, e)) r)
        | Scan_More lfn' \<Rightarrow> find_in_sectors bus nf name lbas lfn') d'
      (case ?r of Scan_Return r \<Rightarrow> omap (\<lambda>(off, e). (lba, off, e)) r
       | Scan_More lfn' \<Rightarrow> flat_find nf name (dir_slots (sects d) lbas) lfn')"
      using d' Cons.IH [OF d'(1)] Cons.prems(2) by (auto split: scan.split)
  qed (use Cons.prems in auto)
qed auto

lemma reads_free_run_in_sectors:
  "ready d \<Longrightarrow> \<forall>lba \<in> set lbas. unat lba < 2 ^ 28 \<Longrightarrow>
   reads (free_run_in_sectors bus count lbas run) d (Ok (flat_free count (dir_slots (sects d) lbas) run))"
proof (induction lbas arbitrary: d run)
  case (Cons lba lbas)
  let ?r = "free_run_in_sector count lba 0 (chunks 32 (sects d lba)) run"
  have eq: "flat_free count (dir_slots (sects d) (lba # lbas)) run =
      (case ?r of Scan_Return r \<Rightarrow> Scan_Return r
       | Scan_More run' \<Rightarrow> flat_free count (dir_slots (sects d) lbas) run')"
    unfolding dir_slots_simps sector_locs [OF Cons.prems(1)] by (rule flat_free_sector) simp
  show ?case
    unfolding eq free_run_in_sectors.simps
  proof (rule reads_bind [OF reads_sector])
    fix d'
    assume d': "ready d'" "sects d' = sects d"
    show "reads (case ?r of Scan_Return r \<Rightarrow> io_ret (Scan_Return r)
        | Scan_More run' \<Rightarrow> free_run_in_sectors bus count lbas run') d'
      (Ok (case ?r of Scan_Return r \<Rightarrow> Scan_Return r
       | Scan_More run' \<Rightarrow> flat_free count (dir_slots (sects d) lbas) run'))"
      using d' Cons.IH [OF d'(1)] Cons.prems(2) by (auto split: scan.split)
  qed (use Cons.prems in auto)
qed auto

text \<open>Operations that read, whatever their result.\<close>

definition readonly :: "('d, 'a) io \<Rightarrow> 'd \<Rightarrow> bool" where
  "readonly m d \<longleftrightarrow> (\<exists>r. reads m d r)"

lemma readonly_simple [intro]: "ready d \<Longrightarrow> readonly (io_ret a) d" "ready d \<Longrightarrow> readonly (io_lift r) d"
  "ready d \<Longrightarrow> readonly (io_err e) d"
  unfolding readonly_def by blast+

lemma readonly_sector: "ready d \<Longrightarrow> unat lba < 2 ^ 28 \<Longrightarrow> readonly (read_sector bus lba) d"
  unfolding readonly_def using reads_sector by blast

lemma readonly_bind:
  assumes "readonly m d" "\<And>a d'. ready d' \<Longrightarrow> sects d' = sects d \<Longrightarrow> readonly (f a) d'"
  shows "readonly (io_bind m f) d"
proof -
  obtain r d' where d: "m d = (r, d')" "ready d'" "sects d' = sects d"
    using assms(1) by (auto simp: readonly_def reads_def)
  show ?thesis
  proof (cases r)
    case (Ok a)
    then obtain r' where "reads (f a) d' r'" using assms(2) [OF d(2,3)] by (auto simp: readonly_def)
    then show ?thesis using d Ok by (auto simp: readonly_def reads_def io_bind_def)
  qed (use d in \<open>auto simp: readonly_def reads_def io_bind_def\<close>)
qed

lemma readonlyD: "readonly m d \<Longrightarrow> m d = (r, d') \<Longrightarrow> ready d' \<and> sects d' = sects d"
  by (auto simp: readonly_def reads_def)

lemma readonly_disk_io: "readonly m d \<Longrightarrow> disk_io m (i, d) = (r, s') \<Longrightarrow>
    \<exists>d'. s' = (i, d') \<and> m d = (r, d') \<and> ready d' \<and> sects d' = sects d"
  by (auto simp: readonly_def reads_def disk_io_def)

lemma readonly_list_sectors:
  "ready d \<Longrightarrow> \<forall>lba \<in> set lbas. unat lba < 2 ^ 28 \<Longrightarrow> readonly (list_sectors bus lbas es lfn) d"
proof (induction lbas arbitrary: d es lfn)
  case (Cons lba lbas)
  then show ?case
    by (auto simp del: split_paired_All intro!: readonly_bind readonly_sector split: prod.split)
qed auto

lemma readonly_short_names:
  "ready d \<Longrightarrow> \<forall>lba \<in> set lbas. unat lba < 2 ^ 28 \<Longrightarrow> readonly (short_names_in_sectors bus lbas ns) d"
proof (induction lbas arbitrary: d ns)
  case (Cons lba lbas)
  then show ?case by (auto intro!: readonly_bind readonly_sector split: scan.split)
qed auto

end

section \<open>Finding a new entry\<close>

text \<open>
  The long-name state after slots in which nothing was found and the end was not reached.
\<close>

fun flat_pass :: "bytes \<Rightarrow> slot list \<Rightarrow> lfn_state \<Rightarrow> lfn_state option" where
  "flat_pass name [] lfn = Some lfn"
| "flat_pass name ((loc, raw) # fl) lfn =
     (if raw ! 0 = 0x00 then None
      else if raw ! 0 = 0xE5 then flat_pass name fl (lfn_reset lfn)
      else if raw ! 11 = 0x0F then flat_pass name fl (push_long_entry raw lfn)
      else if raw ! 11 AND 0x08 \<noteq> 0 then flat_pass name fl (lfn_reset lfn)
      else case short_entry_if_matches raw lfn name of
             (Some entry, _) \<Rightarrow> None
           | (None, lfn') \<Rightarrow> flat_pass name fl lfn')"

lemma flat_find_pass:
  "flat_pass name pre lfn = Some lfn' \<Longrightarrow> flat_find nf name (pre @ fl) lfn = flat_find nf name fl lfn'"
  by (induction name pre lfn rule: flat_pass.induct) (auto split: if_splits option.splits prod.splits)

lemma flat_pass_exists:
  assumes "\<forall>s \<in> set pre. snd s ! 0 \<noteq> 0x00" "\<forall>x. flat_find nf name (pre @ fl) lfn \<noteq> Ok x"
  shows "\<exists>lfn'. flat_pass name pre lfn = Some lfn'"
  using assms
  by (induction name pre lfn rule: flat_pass.induct) (auto split: if_splits option.splits prod.splits)

lemma take_verified_chunks: "lfn_chunks (snd (take_verified sn lfn)) = []"
  by (simp add: take_verified_def)

lemma short_entry_chunks: "lfn_chunks (snd (short_entry_if_matches raw lfn name)) = []"
  using take_verified_chunks [of "sub raw 0 11" lfn]
  by (auto simp: short_entry_if_matches_def split_beta Let_def)

lemma flat_pass_chunks:
  assumes "flat_pass name pre lfn = Some lfn'" "pre = [] \<Longrightarrow> lfn_chunks lfn = []"
    "pre \<noteq> [] \<Longrightarrow> \<not> is_long_slot (snd (last pre))"
  shows "lfn_chunks lfn' = []"
  using assms
proof (induction name pre lfn rule: flat_pass.induct)
  case (2 name loc raw fl lfn)
  note chunks = short_entry_chunks [of raw lfn name]
  show ?case
  proof (cases "fl = []")
    case True
    then show ?thesis
      using "2.prems" chunks
      by (auto simp: is_long_slot_def is_free_slot_def lfn_reset_def split: if_splits option.splits prod.splits)
  next
    case False
    then show ?thesis using 2 by (auto split: if_splits option.splits prod.splits)
  qed
qed simp

text \<open>
  A directory as this driver keeps it: after the first never-used slot there are only such slots,
  and a long-name slot is followed by a slot in use.
\<close>

definition dir_wf :: "slot list \<Rightarrow> bool" where
  "dir_wf fl \<longleftrightarrow> (\<forall>xs s ys. fl = xs @ s # ys \<longrightarrow>
     (snd s ! 0 = 0x00 \<longrightarrow> (\<forall>t \<in> set ys. snd t ! 0 = 0x00))
     \<and> (is_long_slot (snd s) \<longrightarrow> ys \<noteq> [] \<longrightarrow> \<not> is_free_slot (snd (hd ys))))"

lemma dir_wfD:
  "dir_wf (xs @ s # ys) \<Longrightarrow> snd s ! 0 = 0x00 \<Longrightarrow> t \<in> set ys \<Longrightarrow> snd t ! 0 = 0x00"
  "dir_wf (xs @ s # y # ys) \<Longrightarrow> is_long_slot (snd s) \<Longrightarrow> \<not> is_free_slot (snd y)"
  unfolding dir_wf_def by (blast, fastforce)

lemma dir_wf_before_window:
  assumes wf: "dir_wf (pre @ mid @ post)" and mid: "mid \<noteq> []" "\<forall>s \<in> set mid. is_free_slot (snd s)"
    and last: "pre \<noteq> [] \<Longrightarrow> \<not> is_free_slot (snd (last pre))"
  shows "\<forall>s \<in> set pre. snd s ! 0 \<noteq> 0x00" "pre \<noteq> [] \<Longrightarrow> \<not> is_long_slot (snd (last pre))"
proof -
  obtain m mid' where m: "mid = m # mid'" using mid(1) by (cases mid) auto
  show "\<forall>s \<in> set pre. snd s ! 0 \<noteq> 0x00"
  proof (intro ballI notI)
    fix s
    assume s: "s \<in> set pre" "snd s ! 0 = 0x00"
    then obtain xs ys where pre: "pre = xs @ s # ys" by (meson split_list)
    have "snd (last pre) ! 0 = 0x00"
    proof (cases "ys = []")
      case False
      then have "last pre \<in> set (ys @ mid @ post)" by (simp add: pre)
      then show ?thesis using dir_wfD(1) [of xs s "ys @ mid @ post"] wf s(2) pre by simp
    qed (simp add: pre s(2))
    moreover have "pre \<noteq> []" using s(1) by auto
    ultimately show False using last by (simp add: is_free_slot_def)
  qed
  show "\<not> is_long_slot (snd (last pre))" if ne: "pre \<noteq> []"
  proof
    assume l: "is_long_slot (snd (last pre))"
    obtain ps p where p: "pre = ps @ [p]" using ne by (meson rev_exhaust)
    then have "dir_wf (ps @ p # m # mid' @ post)" using wf m by simp
    then show False using dir_wfD(2) [of ps p m] l mid(2) m p by auto
  qed
qed

text \<open>What the builders make of a name: an 8.3 entry, or long entries with an alias.\<close>

definition name_entries :: "bytes \<Rightarrow> bytes \<Rightarrow> bytes list \<Rightarrow> bool" where
  "name_entries name short long \<longleftrightarrow> length short = 11 \<and> short ! 0 \<notin> {0x00, 0xE5} \<and>
     (if long = [] then to_short_name name = Ok short \<and> 0x20 \<notin> set name \<and> last name \<noteq> 0x2E
      else name \<noteq> [] \<and> length name \<le> 195 \<and> 0 \<notin> set name \<and> long = build_lfn_entries name short)"

definition shown_name :: "bytes \<Rightarrow> bytes list \<Rightarrow> bytes" where
  "shown_name name long = (if long = [] then map to_ascii_uppercase name else name)"

lemma match_new_entry:
  fixes cl sz :: u32 and t d :: u16
  assumes "name_entries name short long" "attr \<in> {0x10, 0x20}" "long = [] \<Longrightarrow> lfn_chunks st = []"
  defines "e \<equiv> build_dir_entry short attr cl sz t d"
  shows "fst (short_entry_if_matches e (fold push_long_entry long st) name) =
     Some \<lparr>de_name = shown_name name long, de_is_dir = (attr = 0x10), de_size = sz, de_start_cluster = cl,
       de_fat_time = t, de_fat_date = d\<rparr>"
proof -
  have len: "length short = 11" using assms(1) by (simp add: name_entries_def)
  have dir: "(attr AND 0x10 \<noteq> 0) = (attr = 0x10)" using assms(2) by auto
  note f = build_dir_entry_fields [OF len, of attr cl sz t d, folded e_def]
  have parts: "sub e 0 8 = take 8 short" "sub e 8 3 = drop 8 short"
    using len by (simp_all add: e_def build_dir_entry_def sub_def)
  show ?thesis
  proof (cases "long = []")
    case True
    then have "take_verified short st = (None, st)" using assms(3) by (simp add: take_verified_def)
    moreover have "format_short_name (take 8 short) (drop 8 short) = map to_ascii_uppercase name"
      using True assms(1) by (intro format_to_short_name) (simp_all add: name_entries_def)
    ultimately show ?thesis
      using True f parts dir by (simp add: short_entry_if_matches_def shown_name_def)
  next
    case False
    then have "take_verified short (fold push_long_entry long st) = (Some name, \<lparr>lfn_chunks = [], lfn_sum = lfn_checksum short\<rparr>)"
      using assms(1) take_verified_lfn [of name short st] by (simp add: name_entries_def)
    then show ?thesis
      using False f dir by (simp add: short_entry_if_matches_def shown_name_def eq_ignore_ascii_case_def)
  qed
qed

lemma long_entries_raw:
  "name_entries name short long \<Longrightarrow> e \<in> set long \<Longrightarrow> length e = 32 \<and> e ! 0 \<noteq> 0x00 \<and> e ! 0 \<noteq> 0xE5 \<and> e ! 11 = 0x0F"
  using build_lfn_entries_raw [of name e short] by (auto simp: name_entries_def split: if_splits)

lemma flat_find_long:
  "\<forall>s \<in> set fl. snd s ! 0 \<noteq> 0x00 \<and> snd s ! 0 \<noteq> 0xE5 \<and> snd s ! 11 = 0x0F \<Longrightarrow>
   flat_find nf name (fl @ rest) st = flat_find nf name rest (fold push_long_entry (map snd fl) st)"
  by (induction fl arbitrary: st) auto

lemma find_new_entry:
  assumes wf: "dir_wf (pre @ mid @ post)" and mid: "\<forall>s \<in> set mid. is_free_slot (snd s)"
    and last: "pre \<noteq> [] \<Longrightarrow> \<not> is_free_slot (snd (last pre))"
    and none: "\<forall>x. flat_find nf name (pre @ mid @ post) lfn_default \<noteq> Ok x"
    and names: "name_entries name short long" and len: "length mid = length long + 1" and attr: "attr \<in> {0x10, 0x20}"
  shows "flat_find nf name (pre @ zip (map fst mid) (long @ [build_dir_entry short attr cl sz t d]) @ post) lfn_default =
     Ok (fst (fst (last mid)), snd (fst (last mid)), \<lparr>de_name = shown_name name long, de_is_dir = (attr = 0x10),
       de_size = sz, de_start_cluster = cl, de_fat_time = t, de_fat_date = d\<rparr>)"
proof -
  let ?e = "build_dir_entry short attr cl sz t d"
  have ne: "mid \<noteq> []" using len by auto
  note b = dir_wf_before_window [OF wf ne mid last]
  obtain st where pass: "flat_pass name pre lfn_default = Some st"
    using flat_pass_exists [OF b(1) none] by blast
  have st: "lfn_chunks st = []"
    using flat_pass_chunks [OF pass] b(2) by (simp add: lfn_default_def)
  obtain ms m where m: "mid = ms @ [m]" using ne by (meson rev_exhaust)
  have split: "zip (map fst mid) (long @ [?e]) = zip (map fst (butlast mid)) long @ [(fst (last mid), ?e)]"
    using len by (simp add: m)
  have "\<forall>s \<in> set (zip (map fst (butlast mid)) long). snd s ! 0 \<noteq> 0x00 \<and> snd s ! 0 \<noteq> 0xE5 \<and> snd s ! 11 = 0x0F"
    using long_entries_raw [OF names] by (auto dest: set_zip_rightD)
  moreover have "map snd (zip (map fst (butlast mid)) long) = long" using len by simp
  ultimately have "flat_find nf name (pre @ zip (map fst mid) (long @ [?e]) @ post) lfn_default
      = flat_find nf name ((fst (last mid), ?e) # post) (fold push_long_entry long st)"
    unfolding flat_find_pass [OF pass] split append_assoc by (subst flat_find_long) simp_all
  moreover have "?e ! 0 \<notin> {0x00, 0xE5}" "?e ! 11 = attr"
    using names build_dir_entry_fields [of short attr cl sz t d] by (auto simp: name_entries_def)
  moreover have "attr \<noteq> 0x0F" "attr AND 0x08 = 0" using attr by auto
  ultimately show ?thesis
    using match_new_entry [OF names attr, of st cl sz t d] st
    by (cases "fst (last mid)") (auto split: prod.split)
qed

text \<open>The directory stays well-formed.\<close>

lemma dir_wf_cut: "dir_wf (xs @ ys) \<Longrightarrow> dir_wf ys"
  unfolding dir_wf_def by (metis append_assoc)

lemma dir_wf_Cons:
  "dir_wf (s # fl) \<longleftrightarrow> dir_wf fl \<and> (snd s ! 0 = 0x00 \<longrightarrow> (\<forall>t \<in> set fl. snd t ! 0 = 0x00))
     \<and> (is_long_slot (snd s) \<longrightarrow> fl \<noteq> [] \<longrightarrow> \<not> is_free_slot (snd (hd fl)))"
proof
  assume w: "dir_wf (s # fl)"
  show "dir_wf fl \<and> (snd s ! 0 = 0x00 \<longrightarrow> (\<forall>t \<in> set fl. snd t ! 0 = 0x00))
     \<and> (is_long_slot (snd s) \<longrightarrow> fl \<noteq> [] \<longrightarrow> \<not> is_free_slot (snd (hd fl)))"
    using dir_wf_cut [of "[s]" fl] w w [unfolded dir_wf_def, THEN spec, of "[]", THEN spec, of s, THEN spec, of fl]
    by simp
next
  assume a: "dir_wf fl \<and> (snd s ! 0 = 0x00 \<longrightarrow> (\<forall>t \<in> set fl. snd t ! 0 = 0x00))
     \<and> (is_long_slot (snd s) \<longrightarrow> fl \<noteq> [] \<longrightarrow> \<not> is_free_slot (snd (hd fl)))"
  show "dir_wf (s # fl)"
    unfolding dir_wf_def
  proof (intro allI impI)
    fix xs u ys
    assume "s # fl = xs @ u # ys"
    then consider "xs = []" "u = s" "ys = fl" | xs' where "xs = s # xs'" "fl = xs' @ u # ys"
      by (cases xs) auto
    then show "(snd u ! 0 = 0x00 \<longrightarrow> (\<forall>t \<in> set ys. snd t ! 0 = 0x00))
       \<and> (is_long_slot (snd u) \<longrightarrow> ys \<noteq> [] \<longrightarrow> \<not> is_free_slot (snd (hd ys)))"
    proof cases
      case 2
      have "dir_wf fl" using a by blast
      then show ?thesis unfolding dir_wf_def using 2(2) by blast
    qed (use a in simp)
  qed
qed

lemma dir_wf_used:
  "\<forall>s \<in> set us. \<not> is_free_slot (snd s) \<Longrightarrow> us \<noteq> [] \<Longrightarrow> \<not> is_long_slot (snd (last us)) \<Longrightarrow> dir_wf post \<Longrightarrow> dir_wf (us @ post)"
proof (induction us)
  case (Cons s us)
  then show ?case by (cases us) (auto simp: dir_wf_Cons is_free_slot_def)
qed simp

lemma dir_wf_replace:
  "dir_wf (pre @ fl) \<Longrightarrow> \<forall>s \<in> set pre. snd s ! 0 \<noteq> 0x00 \<Longrightarrow> fl \<noteq> [] \<Longrightarrow> fl' \<noteq> [] \<Longrightarrow> \<not> is_free_slot (snd (hd fl'))
   \<Longrightarrow> dir_wf fl' \<Longrightarrow> dir_wf (pre @ fl')"
proof (induction pre)
  case (Cons s pre)
  then show ?case by (cases pre) (auto simp: dir_wf_Cons)
qed simp

lemma dir_wf_new_entry:
  assumes wf: "dir_wf (pre @ mid @ post)" and mid: "\<forall>s \<in> set mid. is_free_slot (snd s)"
    and last: "pre \<noteq> [] \<Longrightarrow> \<not> is_free_slot (snd (last pre))"
    and names: "name_entries name short long" and len: "length mid = length long + 1" and attr: "attr \<in> {0x10, 0x20}"
  shows "dir_wf (pre @ zip (map fst mid) (long @ [build_dir_entry short attr cl sz t d]) @ post)"
proof -
  let ?e = "build_dir_entry short attr cl sz t d" and ?z = "zip (map fst mid) (long @ [build_dir_entry short attr cl sz t d])"
  have ne: "mid \<noteq> []" using len by auto
  obtain ms m where m: "mid = ms @ [m]" using ne by (meson rev_exhaust)
  have z: "?z = zip (map fst ms) long @ [(fst m, ?e)]" using len by (simp add: m)
  have e: "?e ! 0 \<notin> {0x00, 0xE5}" "?e ! 11 = attr"
    using names build_dir_entry_fields [of short attr cl sz t d] by (auto simp: name_entries_def)
  have used: "\<forall>s \<in> set ?z. \<not> is_free_slot (snd s)"
    using long_entries_raw [OF names] e by (auto simp: z is_free_slot_def dest: set_zip_rightD)
  moreover have "\<not> is_long_slot (snd (List.last ?z))" using e attr by (auto simp: z is_long_slot_def)
  moreover have "?z \<noteq> []" by (simp add: z)
  moreover have "dir_wf post" using dir_wf_cut [of "pre @ mid" post] wf by simp
  ultimately have "dir_wf (?z @ post)" by (intro dir_wf_used)
  moreover have "?z @ post \<noteq> []" "\<not> is_free_slot (snd (hd (?z @ post)))"
    using used \<open>?z \<noteq> []\<close> by (simp_all add: hd_append)
  ultimately show ?thesis
    using dir_wf_replace [OF wf dir_wf_before_window(1) [OF wf ne mid last]] ne by simp
qed

end
