(* ===== verification/Fat12_Files.thy ===== *)
theory Fat12_Files
  imports Fat12_Dir
begin

text \<open>
  File contents of \<open>Fat12_Model\<close>: what laying data across clusters leaves on the disk and in the
  table, and what reading a chain returns.
\<close>

section \<open>Sectors of clusters\<close>

lemma layout_update [simp]:
  "cluster_to_lba (i\<lparr>fat_bytes := f\<rparr>) = cluster_to_lba i" "cluster_sectors (i\<lparr>fat_bytes := f\<rparr>) = cluster_sectors i"
  "fat_lbas (i\<lparr>fat_bytes := f\<rparr>) = fat_lbas i" "layout_ok (i\<lparr>fat_bytes := f\<rparr>) = layout_ok i"
  "root_lbas (i\<lparr>fat_bytes := f\<rparr>) = root_lbas i"
  by (auto simp: fun_eq_iff cluster_to_lba_def cluster_sectors_def first_data_sector_def first_root_dir_sector_def
      first_fat_sector_def root_dir_sectors_def fat_lbas_def layout_ok_def data_base_def root_base_def fat_base_def
      root_lbas_def)

definition data_cluster :: "u32 \<Rightarrow> bool" where
  "data_cluster c \<longleftrightarrow> 2 \<le> unat c \<and> unat c < 4096"

lemma unat_cluster_sector:
  assumes "layout_ok i" "data_cluster c" "s < unat (sectors_per_cluster i)"
  shows "unat (cluster_to_lba i c + of_nat s) = data_base i + ((unat c - 2) * unat (sectors_per_cluster i) + s)"
    "unat (cluster_to_lba i c + of_nat s) < 2 ^ 28"
proof -
  let ?p = "unat (sectors_per_cluster i)"
  have "unat c - 1 = Suc (unat c - 2)" using assms(2) unfolding data_cluster_def by linarith
  then have "(unat c - 2) * ?p + s < (unat c - 1) * ?p" using assms(3) by simp
  also have "\<dots> \<le> 4096 * ?p" using assms(2) by (intro mult_right_mono) (auto simp: data_cluster_def)
  finally have lt: "data_base i + ((unat c - 2) * ?p + s) < 2 ^ 28" using assms(1) by (simp add: layout_ok_def)
  then have "unat (cluster_to_lba i c) + s < 2 ^ 32"
    using unat_cluster_to_lba [OF assms(1), of c] assms(2) by (simp add: data_cluster_def)
  then show eq: "unat (cluster_to_lba i c + of_nat s) = data_base i + ((unat c - 2) * ?p + s)"
    using unat_cluster_to_lba [OF assms(1), of c] assms(2) by (simp add: data_cluster_def unat_add_of_nat)
  show "unat (cluster_to_lba i c + of_nat s) < 2 ^ 28" unfolding eq by (rule lt)
qed

lemma cluster_sectors_bound:
  assumes "layout_ok i" "data_cluster c" "lba \<in> set (cluster_sectors i c)"
  shows "unat lba < 2 ^ 28" "data_base i \<le> unat lba" "lba \<notin> fat_lbas i" "lba \<notin> set (root_lbas i)"
proof -
  obtain s where s: "s < unat (sectors_per_cluster i)" "lba = cluster_to_lba i c + of_nat s"
    using assms(3) by (auto simp: cluster_sectors_def)
  show "unat lba < 2 ^ 28" and ge: "data_base i \<le> unat lba"
    using unat_cluster_sector [OF assms(1,2) s(1)] by (simp_all add: s(2))
  show "lba \<notin> fat_lbas i"
    using fat_lbas_below_root [OF assms(1), of lba] ge base_order(2) [of i] by linarith
  show "lba \<notin> set (root_lbas i)"
  proof
    assume "lba \<in> set (root_lbas i)"
    then obtain k where k: "k < unat (root_dir_sectors i)" "lba = first_root_dir_sector i + of_nat k"
      by (auto simp: root_lbas_def)
    have lt: "root_base i + k < data_base i" using k(1) unat_root_dir_sectors [of i] by (simp add: data_base_def)
    moreover have "data_base i \<le> 2 ^ 28" using assms(1) by (simp add: layout_ok_def)
    ultimately have "unat lba = root_base i + k"
      unfolding k(2) using unat_first_root_dir_sector [OF assms(1)] by (subst unat_add_of_nat) simp_all
    then show False using ge lt by simp
  qed
qed

lemma cluster_sectors_disjoint:
  assumes "layout_ok i" "data_cluster c" "data_cluster c'" "c \<noteq> c'"
  shows "set (cluster_sectors i c) \<inter> set (cluster_sectors i c') = {}"
proof (rule ccontr)
  let ?p = "unat (sectors_per_cluster i)"
  assume "set (cluster_sectors i c) \<inter> set (cluster_sectors i c') \<noteq> {}"
  then obtain s s' where s: "s < ?p" "s' < ?p" "cluster_to_lba i c + of_nat s = cluster_to_lba i c' + of_nat s'"
    by (auto simp: cluster_sectors_def)
  have "(unat c - 2) * ?p + s = (unat c' - 2) * ?p + s'"
    using unat_cluster_sector(1) [OF assms(1,2) s(1)] unat_cluster_sector(1) [OF assms(1,3) s(2)] s(3) by simp
  then have "((unat c - 2) * ?p + s) div ?p = ((unat c' - 2) * ?p + s') div ?p" by simp
  then have "unat c - 2 = unat c' - 2" using s(1,2) by simp
  then have "unat c = unat c'" using assms(2,3) unfolding data_cluster_def by linarith
  then show False using assms(4) by (simp add: word_unat_eq_iff)
qed

lemma distinct_cluster_sectors:
  assumes "layout_ok i" "data_cluster c"
  shows "distinct (cluster_sectors i c)"
  unfolding cluster_sectors_def distinct_map
proof (intro conjI inj_onI)
  fix s s'
  assume a: "s \<in> set [0..<unat (sectors_per_cluster i)]" "s' \<in> set [0..<unat (sectors_per_cluster i)]"
    "cluster_to_lba i c + of_nat s = cluster_to_lba i c + of_nat s'"
  have "data_base i + ((unat c - 2) * unat (sectors_per_cluster i) + s)
      = data_base i + ((unat c - 2) * unat (sectors_per_cluster i) + s')"
    using a unat_cluster_sector(1) [OF assms] by (metis atLeastLessThan_iff set_upt)
  then show "s = s'" by simp
qed simp

lemma root_lbas_bound:
  assumes "layout_ok i" "lba \<in> set (root_lbas i)"
  shows "unat lba < 2 ^ 28" "lba \<notin> fat_lbas i"
proof -
  obtain k where k: "k < unat (root_dir_sectors i)" "lba = first_root_dir_sector i + of_nat k"
    using assms(2) by (auto simp: root_lbas_def)
  have lt: "root_base i + k < data_base i" using k(1) unat_root_dir_sectors [of i] by (simp add: data_base_def)
  moreover have "data_base i \<le> 2 ^ 28" using assms(1) by (simp add: layout_ok_def)
  ultimately have u: "unat lba = root_base i + k"
    unfolding k(2) using unat_first_root_dir_sector [OF assms(1)] by (subst unat_add_of_nat) simp_all
  show "unat lba < 2 ^ 28" using u lt \<open>data_base i \<le> 2 ^ 28\<close> by linarith
  show "lba \<notin> fat_lbas i" using fat_lbas_below_root [OF assms(1)] u by simp
qed

lemma distinct_root_lbas:
  assumes "layout_ok i"
  shows "distinct (root_lbas i)"
  unfolding root_lbas_def distinct_map
proof (intro conjI inj_onI)
  fix s s'
  assume a: "s \<in> set [0..<unat (root_dir_sectors i)]" "s' \<in> set [0..<unat (root_dir_sectors i)]"
    "first_root_dir_sector i + of_nat s = first_root_dir_sector i + of_nat s'"
  have "unat (first_root_dir_sector i + of_nat k) = root_base i + k" if "k < unat (root_dir_sectors i)" for k
  proof -
    have "root_base i + k < data_base i" using that unat_root_dir_sectors [of i] by (simp add: data_base_def)
    moreover have "data_base i \<le> 2 ^ 28" using assms by (simp add: layout_ok_def)
    ultimately show ?thesis
      using unat_first_root_dir_sector [OF assms] by (subst unat_add_of_nat) simp_all
  qed
  then show "s = s'" using a by (metis add_left_imp_eq atLeastLessThan_iff set_upt)
qed simp

section \<open>Data in sectors\<close>

text \<open>The sector that holds the bytes of \<open>data\<close> from position \<open>w\<close> on, padded with zeros.\<close>

definition data_sector :: "bytes \<Rightarrow> nat \<Rightarrow> bytes" where
  "data_sector data w = take 512 (drop w data @ replicate 512 0)"

lemma length_data_sector [simp]: "length (data_sector data w) = 512"
  by (simp add: data_sector_def)

lemma data_sector_min: "data_sector data (min w (length data)) = data_sector data w"
  by (cases "w \<le> length data") (simp_all add: data_sector_def min_def)

lemma data_sector_overwrite:
  assumes "w \<le> length data"
  shows "overwrite (replicate 512 0) 0 (sub data w (min (w + 512) (length data) - w)) = data_sector data w"
proof (cases "w + 512 \<le> length data")
  case True
  then show ?thesis by (simp add: overwrite_def data_sector_def sub_def)
next
  case False
  then show ?thesis using assms by (simp add: overwrite_def data_sector_def sub_def min_def)
qed

lemma concat_data_sectors:
  "concat (map (\<lambda>k. data_sector data (512 * k)) [0..<n]) = take (512 * n) (data @ replicate (512 * n) 0)"
proof (induction n)
  case (Suc n)
  let ?m = "512 * n"
  have "take (?m + 512) (data @ replicate (?m + 512) 0)
      = take ?m (data @ replicate (?m + 512) 0) @ take 512 (drop ?m (data @ replicate (?m + 512) 0))"
    by (rule take_add)
  moreover have "take ?m (data @ replicate (?m + 512) 0) = take ?m (data @ replicate ?m 0)"
    by (simp add: min_def)
  moreover have "take 512 (drop ?m (data @ replicate (?m + 512) 0)) = data_sector data ?m"
    by (cases "?m \<le> length data") (simp_all add: data_sector_def min_def)
  ultimately show ?case using Suc by (simp add: add.commute)
qed simp

lemma concat_grid:
  "concat (map (\<lambda>j. concat (map (\<lambda>s. f (j * p + s)) [0..<p])) [0..<m]) = concat (map f [0..<m * p])"
proof (induction m)
  case (Suc m)
  have "[0..<Suc m * p] = [0..<m * p] @ map (\<lambda>s. m * p + s) [0..<p]"
    using upt_add_eq_append [of 0 "m * p" p] by (simp add: add.commute map_add_upt)
  then show ?case using Suc by (simp add: comp_def)
qed simp

context ata_disk
begin

lemma lay_sectors_run:
  assumes "ready d" "\<forall>lba \<in> set lbas. unat lba < 2 ^ 28" "distinct lbas" "w \<le> length data"
  shows "\<exists>d'. lay_sectors bus data lbas w d = (Ok (min (w + 512 * length lbas) (length data)), d') \<and> ready d'
    \<and> (\<forall>lba. lba \<notin> set lbas \<longrightarrow> sects d' lba = sects d lba)
    \<and> (\<forall>j<length lbas. sects d' (lbas ! j) = data_sector data (w + 512 * j))"
  using assms
proof (induction lbas arbitrary: d w)
  case (Cons lba lbas)
  define stop where "stop = min (w + 512) (length data)"
  have st: "(if w < length data then min (w + 512) (length data) else w) = stop"
    using Cons.prems(4) by (auto simp: stop_def)
  have buf: "overwrite (replicate 512 0) 0 (sub data w (stop - w)) = data_sector data w"
    unfolding stop_def by (rule data_sector_overwrite [OF Cons.prems(4)])
  obtain d1 where d1: "write_sector bus lba (data_sector data w) d = (Ok (), d1)" "ready d1"
      "sects d1 = (sects d)(lba := data_sector data w)"
    using write_law [OF Cons.prems(1), of lba "data_sector data w"] Cons.prems(2) by auto
  obtain d2 where d2: "lay_sectors bus data lbas stop d1 = (Ok (min (stop + 512 * length lbas) (length data)), d2)" "ready d2"
      "\<forall>x. x \<notin> set lbas \<longrightarrow> sects d2 x = sects d1 x" "\<forall>j<length lbas. sects d2 (lbas ! j) = data_sector data (stop + 512 * j)"
    using Cons.IH [OF d1(2), of stop] Cons.prems by (auto simp: stop_def)
  have pos: "data_sector data (stop + 512 * j) = data_sector data (w + 512 + 512 * j)" for j
    using data_sector_min [of data "stop + 512 * j"] data_sector_min [of data "w + 512 + 512 * j"]
    by (simp add: stop_def min_def split: if_splits)
  have "lay_sectors bus data (lba # lbas) w d = (Ok (min (w + 512 * length (lba # lbas)) (length data)), d2)"
    using d1(1) d2(1) by (simp add: st Let_def buf io_bind_def) (simp add: stop_def min_def)
  moreover have "sects d2 ((lba # lbas) ! j) = data_sector data (w + 512 * j)" if "j < length (lba # lbas)" for j
  proof (cases j)
    case 0
    then show ?thesis using d2(3) d1(3) Cons.prems(3) by simp
  next
    case (Suc k)
    then show ?thesis using d2(4) pos [of k] that by (simp add: algebra_simps)
  qed
  ultimately show ?case using d2(2,3) d1(3) by auto
qed simp

lemma reads_sectors_upto:
  "ready d \<Longrightarrow> \<forall>lba \<in> set lbas. unat lba < 2 ^ 28 \<Longrightarrow> length acc < n \<Longrightarrow>
   reads (read_sectors_upto bus n lbas acc) d (Ok
     (if n \<le> length acc + 512 * length lbas then Scan_Return (acc @ take (n - length acc) (concat (map (sects d) lbas)))
      else Scan_More (acc @ concat (map (sects d) lbas))))"
proof (induction lbas arbitrary: d acc)
  case (Cons lba lbas)
  have sz: "length (sects d lba) = 512" by (rule sector_size [OF Cons.prems(1)])
  show ?case
    unfolding read_sectors_upto.simps Let_def
  proof (rule reads_bind [OF reads_sector])
    fix d'
    assume d': "ready d'" "sects d' = sects d"
    show "reads (if n \<le> length (acc @ take (min (n - length acc) 512) (sects d lba))
        then io_ret (Scan_Return (acc @ take (min (n - length acc) 512) (sects d lba)))
        else read_sectors_upto bus n lbas (acc @ take (min (n - length acc) 512) (sects d lba))) d'
      (Ok (if n \<le> length acc + 512 * length (lba # lbas)
        then Scan_Return (acc @ take (n - length acc) (concat (map (sects d) (lba # lbas))))
        else Scan_More (acc @ concat (map (sects d) (lba # lbas)))))"
    proof (cases "n \<le> length acc + 512")
      case True
      then show ?thesis using d'(1) Cons.prems(3) sz by (auto simp: min_def)
    next
      case False
      then have t: "take (min (n - length acc) 512) (sects d lba) = sects d lba" by (simp add: sz)
      have "length (acc @ sects d lba) < n" using False sz by simp
      then show ?thesis
        using Cons.IH [OF d'(1), of "acc @ sects d lba"] Cons.prems(2) d'(2) sz False unfolding t
        by (cases "n \<le> length acc + (512 + 512 * length lbas)") (simp_all add: algebra_simps)
    qed
  qed (use Cons.prems in auto)
qed (auto intro: reads_simple)

end

section \<open>Chains\<close>

fun linked :: "fat12_info \<Rightarrow> u32 list \<Rightarrow> bool" where
  "linked i [] \<longleftrightarrow> False"
| "linked i [c] \<longleftrightarrow> next_cluster i c = Ok None"
| "linked i (c # c' # cs) \<longleftrightarrow> next_cluster i c = Ok (Some c') \<and> linked i (c' # cs)"

lemma cluster_chain_linked:
  "linked i cs \<Longrightarrow> length cs \<le> n \<Longrightarrow> cluster_chain n i (hd cs) = Ok cs"
proof (induction i cs arbitrary: n rule: linked.induct)
  case (2 i c)
  then show ?case by (cases n) auto
next
  case (3 i c c' cs)
  then show ?case by (cases n) auto
qed simp

definition chain_bytes :: "(u32 \<Rightarrow> bytes) \<Rightarrow> fat12_info \<Rightarrow> u32 list \<Rightarrow> bytes" where
  "chain_bytes disk i cs = concat (map (\<lambda>c. concat (map disk (cluster_sectors i c))) cs)"

lemma length_cluster_sectors [simp]: "length (cluster_sectors i c) = unat (sectors_per_cluster i)"
  by (simp add: cluster_sectors_def)

context ata_disk
begin

lemma length_chain_bytes:
  "ready d \<Longrightarrow> length (chain_bytes (sects d) i cs) = length cs * (unat (sectors_per_cluster i) * 512)"
proof -
  assume r: "ready d"
  have "length (concat (map (sects d) lbas)) = length lbas * 512" for lbas
    by (induction lbas) (simp_all add: sector_size [OF r])
  then show ?thesis by (induction cs) (simp_all add: chain_bytes_def)
qed

lemma reads_clusters:
  "layout_ok i \<Longrightarrow> linked i cs \<Longrightarrow> \<forall>c \<in> set cs. data_cluster c \<Longrightarrow> length cs \<le> fuel \<Longrightarrow> ready d
   \<Longrightarrow> length acc < n \<Longrightarrow> n \<le> length acc + length (chain_bytes (sects d) i cs) \<Longrightarrow>
   reads (read_clusters fuel bus i n (hd cs) acc) d (Ok (acc @ take (n - length acc) (chain_bytes (sects d) i cs)))"
proof (induction cs arbitrary: fuel d acc)
  case (Cons c cs)
  obtain k where k: "fuel = Suc k" using Cons.prems(4) by (cases fuel) auto
  define cb where "cb = concat (map (sects d) (cluster_sectors i c))"
  have bytes: "chain_bytes (sects d) i (c # cs) = cb @ chain_bytes (sects d) i cs"
    by (simp add: chain_bytes_def cb_def)
  have lcb: "length cb = 512 * unat (sectors_per_cluster i)"
    using length_chain_bytes [OF Cons.prems(5), of i "[c]"] by (simp add: chain_bytes_def cb_def)
  have "\<forall>lba \<in> set (cluster_sectors i c). unat lba < 2 ^ 28"
    using cluster_sectors_bound(1) [OF Cons.prems(1)] Cons.prems(3) by (metis list.set_intros(1))
  note first = reads_sectors_upto [OF Cons.prems(5) this Cons.prems(6), folded cb_def]
  show ?case
    unfolding k list.sel read_clusters.simps
  proof (rule reads_bind [OF first])
    fix d'
    assume d': "ready d'" "sects d' = sects d"
    let ?r = "if n \<le> length acc + 512 * length (cluster_sectors i c) then Scan_Return (acc @ take (n - length acc) cb)
       else Scan_More (acc @ cb)"
    show "reads (case ?r of Scan_Return data' \<Rightarrow> io_ret data'
        | Scan_More data' \<Rightarrow> io_bind (io_lift (next_cluster i c)) (\<lambda>next.
            case next of None \<Rightarrow> io_ret data' | Some c' \<Rightarrow> read_clusters k bus i n c' data')) d'
      (Ok (acc @ take (n - length acc) (chain_bytes (sects d) i (c # cs))))"
    proof (cases "n \<le> length acc + length cb")
      case True
      then show ?thesis using d'(1) lcb by (auto simp: bytes)
    next
      case False
      then obtain c' cs' where cs: "cs = c' # cs'"
        using Cons.prems(7) unfolding bytes by (cases cs) (auto simp: chain_bytes_def)
      then have nx: "next_cluster i c = Ok (Some c')" and ln: "linked i cs" using Cons.prems(2) by simp_all
      have "reads (read_clusters k bus i n (hd cs) (acc @ cb)) d'
          (Ok ((acc @ cb) @ take (n - length (acc @ cb)) (chain_bytes (sects d') i cs)))"
        using Cons.prems False ln d' k unfolding bytes by (intro Cons.IH) auto
      then show ?thesis
        using False lcb nx d' cs unfolding bytes by (simp add: io_bind_def reads_def)
    qed
  qed
qed simp

text \<open>Laying data across clusters.\<close>

lemma coherent_frame: "coherent D i \<Longrightarrow> (\<And>lba. lba \<in> fat_lbas i \<Longrightarrow> D' lba = D lba) \<Longrightarrow> coherent D' i"
  by (simp add: coherent_def fat_lbas_def)

lemma lay_clusters_run:
  assumes "layout_ok i" "coherent (sects d) i" "ready d" "distinct cs" "w \<le> length data"
    "\<forall>c \<in> set cs. data_cluster c \<and> entry_offset c + 1 < length (fat_bytes i)"
  shows "\<exists>F d'. lay_clusters bus data cs w (i, d) = (Ok (), (i\<lparr>fat_bytes := F\<rparr>, d')) \<and> ready d'
    \<and> coherent (sects d') (i\<lparr>fat_bytes := F\<rparr>) \<and> length F = length (fat_bytes i)
    \<and> (\<forall>c. unat c < 4096 \<longrightarrow> c \<notin> set cs \<longrightarrow> fat_entry F c = fat_entry (fat_bytes i) c)
    \<and> (\<forall>j<length cs. fat_entry F (cs ! j) = (if j + 1 < length cs then ucast (cs ! (j + 1)) else 0x0FFF) AND 0x0FFF)
    \<and> (\<forall>j<length cs. \<forall>s<unat (sectors_per_cluster i). sects d' (cluster_to_lba i (cs ! j) + of_nat s)
         = data_sector data (w + 512 * (j * unat (sectors_per_cluster i) + s)))
    \<and> (\<forall>lba. lba \<notin> fat_lbas i \<longrightarrow> (\<forall>c \<in> set cs. lba \<notin> set (cluster_sectors i c)) \<longrightarrow> sects d' lba = sects d lba)"
  using assms
proof (induction cs arbitrary: i d w)
  case Nil
  then show ?case by (auto intro!: exI [of _ "fat_bytes i"])
next
  case (Cons c cs)
  note lay = Cons.prems(1)
  let ?p = "unat (sectors_per_cluster i)"
  have c: "data_cluster c" "entry_offset c + 1 < length (fat_bytes i)" using Cons.prems(6) by auto
  define w' where "w' = min (w + 512 * ?p) (length data)"
  obtain d1 where d1: "lay_sectors bus data (cluster_sectors i c) w d = (Ok w', d1)" "ready d1"
      "\<forall>lba. lba \<notin> set (cluster_sectors i c) \<longrightarrow> sects d1 lba = sects d lba"
      "\<forall>j<?p. sects d1 (cluster_sectors i c ! j) = data_sector data (w + 512 * j)"
    using lay_sectors_run [OF Cons.prems(3) _ distinct_cluster_sectors [OF lay c(1)] Cons.prems(5)]
      cluster_sectors_bound(1) [OF lay c(1)] by (auto simp: w'_def)
  have co1: "coherent (sects d1) i"
    using coherent_frame [OF Cons.prems(2)] d1(3) cluster_sectors_bound(3) [OF lay c(1)] by blast
  define v :: u16 where "v = (case cs of [] \<Rightarrow> 0x0FFF | next # _ \<Rightarrow> ucast next)"
  define i1 where "i1 = i\<lparr>fat_bytes := put_entry (fat_bytes i) c v\<rparr>"
  obtain d2 where d2: "write_fat_entry_to_disk bus c v (i, d1) = (Ok (), (i1, d2))" "ready d2" "coherent (sects d2) i1"
      "\<forall>lba. lba \<notin> fat_lbas i \<longrightarrow> sects d2 lba = sects d1 lba"
    using write_fat_entry [OF lay co1 d1(2) c(2), of v] by (auto simp: i1_def)
  have "\<exists>F d'. lay_clusters bus data cs w' (i1, d2) = (Ok (), (i1\<lparr>fat_bytes := F\<rparr>, d')) \<and> ready d'
    \<and> coherent (sects d') (i1\<lparr>fat_bytes := F\<rparr>) \<and> length F = length (fat_bytes i1)
    \<and> (\<forall>c. unat c < 4096 \<longrightarrow> c \<notin> set cs \<longrightarrow> fat_entry F c = fat_entry (fat_bytes i1) c)
    \<and> (\<forall>j<length cs. fat_entry F (cs ! j) = (if j + 1 < length cs then ucast (cs ! (j + 1)) else 0x0FFF) AND 0x0FFF)
    \<and> (\<forall>j<length cs. \<forall>s<unat (sectors_per_cluster i1). sects d' (cluster_to_lba i1 (cs ! j) + of_nat s)
         = data_sector data (w' + 512 * (j * unat (sectors_per_cluster i1) + s)))
    \<and> (\<forall>lba. lba \<notin> fat_lbas i1 \<longrightarrow> (\<forall>c \<in> set cs. lba \<notin> set (cluster_sectors i1 c)) \<longrightarrow> sects d' lba = sects d2 lba)"
    using Cons.prems d2 by (intro Cons.IH) (auto simp: i1_def w'_def)
  then obtain F d' where F: "lay_clusters bus data cs w' (i1, d2) = (Ok (), (i\<lparr>fat_bytes := F\<rparr>, d'))" "ready d'"
      "coherent (sects d') (i\<lparr>fat_bytes := F\<rparr>)" "length F = length (fat_bytes i)"
      "\<And>c'. unat c' < 4096 \<Longrightarrow> c' \<notin> set cs \<Longrightarrow> fat_entry F c' = fat_entry (put_entry (fat_bytes i) c v) c'"
      "\<And>j. j < length cs \<Longrightarrow> fat_entry F (cs ! j) = (if j + 1 < length cs then ucast (cs ! (j + 1)) else 0x0FFF) AND 0x0FFF"
      "\<And>j s. j < length cs \<Longrightarrow> s < ?p \<Longrightarrow> sects d' (cluster_to_lba i (cs ! j) + of_nat s) = data_sector data (w' + 512 * (j * ?p + s))"
      "\<And>lba. lba \<notin> fat_lbas i \<Longrightarrow> \<forall>c \<in> set cs. lba \<notin> set (cluster_sectors i c) \<Longrightarrow> sects d' lba = sects d2 lba"
    by (auto simp: i1_def)
  have run: "lay_clusters bus data (c # cs) w (i, d) = (Ok (), (i\<lparr>fat_bytes := F\<rparr>, d'))"
    using d1(1) d2(1) F(1) by (simp add: with_info_def io_bind_def disk_io_def v_def)
  have cu: "unat c < 4096" using c(1) by (simp add: data_cluster_def)
  have ent: "fat_entry F ((c # cs) ! j) = (if j + 1 < length (c # cs) then ucast ((c # cs) ! (j + 1)) else 0x0FFF) AND 0x0FFF"
    if "j < length (c # cs)" for j
  proof (cases j)
    case 0
    have "fat_entry F c = v AND 0x0FFF"
      using F(5) [OF cu] Cons.prems(4) fat_entry_put_same [OF c(2)] by simp
    then show ?thesis using 0 by (cases cs) (auto simp: v_def)
  qed (use that F(6) in simp)
  have oth: "fat_entry F c' = fat_entry (fat_bytes i) c'" if "unat c' < 4096" "c' \<notin> set (c # cs)" for c'
    using that F(5) fat_entry_put_other [OF c(2) cu, of c' v] by simp
  have same: "sects d' lba = sects d lba" if "lba \<notin> fat_lbas i" "\<forall>c \<in> set (c # cs). lba \<notin> set (cluster_sectors i c)" for lba
    using that F(8) d2(4) d1(3) by simp
  have pos: "data_sector data (w' + x) = data_sector data (w + 512 * ?p + x)" for x
    using data_sector_min [of data "w' + x"] data_sector_min [of data "w + 512 * ?p + x"]
    by (simp add: w'_def min_def split: if_splits)
  have dat: "sects d' (cluster_to_lba i ((c # cs) ! j) + of_nat s) = data_sector data (w + 512 * (j * ?p + s))"
    if "j < length (c # cs)" "s < ?p" for j s
  proof (cases j)
    case 0
    let ?lba = "cluster_to_lba i c + of_nat s"
    have mem: "?lba \<in> set (cluster_sectors i c)" using that(2) by (simp add: cluster_sectors_def)
    have "?lba \<notin> fat_lbas i" by (rule cluster_sectors_bound(3) [OF lay c(1) mem])
    moreover have "\<forall>c' \<in> set cs. ?lba \<notin> set (cluster_sectors i c')"
      using mem cluster_sectors_disjoint [OF lay c(1)] Cons.prems(4,6) by fastforce
    ultimately have "sects d' ?lba = sects d1 (cluster_sectors i c ! s)"
      using F(8) d2(4) that(2) by (simp add: cluster_sectors_def)
    then show ?thesis using d1(4) that(2) 0 by simp
  next
    case (Suc k)
    then show ?thesis using F(7) [of k s] that pos [of "512 * (k * ?p + s)"] by (simp add: algebra_simps)
  qed
  show ?case using run F(2-4) ent oth same dat by blast
qed

end

end
