(* ===== verification/Fat12.thy ===== *)
theory Fat12
  imports Fat12_Files
begin

text \<open>
  The operations of \<open>Fat12_Model\<close> as a whole: creating a file in the root directory either
  changes nothing or makes the file readable.
\<close>

section \<open>What the directory scans compute\<close>

fun scan_value :: "('a, 'a) scan \<Rightarrow> 'a" where
  "scan_value (Scan_Return x) = x"
| "scan_value (Scan_More x) = x"

definition slot_bytes :: "(u32 \<Rightarrow> bytes) \<Rightarrow> u32 list \<Rightarrow> bytes list" where
  "slot_bytes disk lbas = map snd (dir_slots disk lbas)"

definition listed :: "(u32 \<Rightarrow> bytes) \<Rightarrow> u32 list \<Rightarrow> dir_entry list" where
  "listed disk lbas = fst (snd (parse_dir_entries (slot_bytes disk lbas) [] lfn_default))"

definition short_names :: "(u32 \<Rightarrow> bytes) \<Rightarrow> u32 list \<Rightarrow> bytes list" where
  "short_names disk lbas = scan_value (short_names_in_sector (slot_bytes disk lbas) [])"

text \<open>The pure part of \<open>build_name_entries\<close>.\<close>

definition alias_for :: "bytes list \<Rightarrow> bytes \<Rightarrow> bytes outcome" where
  "alias_for existing name =
     (let (base, ext) = split_once_dot name;
          cleaned = filter is_alias_char (map to_ascii_uppercase base);
          clean_base = take 5 (if cleaned = [] then [0x5F] else cleaned);
          clean_ext = take 3 (filter is_alias_char (map to_ascii_uppercase ext))
      in case find (\<lambda>out. out \<notin> set existing) (map (alias_candidate clean_base clean_ext) [1..<100]) of
           Some out \<Rightarrow> Ok out
         | None \<Rightarrow> Err ''FAT12: too many colliding short-name aliases in this directory'')"

definition names_for :: "bytes list \<Rightarrow> bytes \<Rightarrow> (bytes \<times> bytes list) outcome" where
  "names_for existing name =
     (case to_short_name name of
        Ok short_name \<Rightarrow>
          if short_name \<in> set existing then Err ''FAT12: that short name is already in use''
          else Ok (short_name, [])
      | _ \<Rightarrow>
          if name = [] \<or> 15 * 13 < length name \<or> \<not> list_all is_valid_lfn_char name
          then Err ''FAT12: name must fit the 8.3 short-name format, or be a valid name of 195 characters or fewer''
          else obind (alias_for existing name) (\<lambda>short_name. Ok (short_name, build_lfn_entries name short_name)))"

lemma parse_dir_entries_append:
  "parse_dir_entries (xs @ ys) es lfn =
     (case parse_dir_entries xs es lfn of (stop, es', lfn') \<Rightarrow>
        if stop then (stop, es', lfn') else parse_dir_entries ys es' lfn')"
  by (induction xs es lfn rule: parse_dir_entries.induct) (auto split: prod.splits)

lemma short_names_append:
  "scan_value (short_names_in_sector (xs @ ys) ns) =
     (case short_names_in_sector xs ns of Scan_Return r \<Rightarrow> r
      | Scan_More ns' \<Rightarrow> scan_value (short_names_in_sector ys ns'))"
  by (induction xs ns rule: short_names_in_sector.induct) auto

context ata_disk
begin

lemma slot_bytes_Cons:
  "ready d \<Longrightarrow> slot_bytes (sects d) (lba # lbas) = chunks 32 (sects d lba) @ slot_bytes (sects d) lbas"
  by (simp add: slot_bytes_def sector_slots_def length_chunks_sector [OF sector_size])

lemma reads_list_sectors:
  "ready d \<Longrightarrow> \<forall>lba \<in> set lbas. unat lba < 2 ^ 28 \<Longrightarrow>
   reads (list_sectors bus lbas es lfn) d (Ok (parse_dir_entries (slot_bytes (sects d) lbas) es lfn))"
proof (induction lbas arbitrary: d es lfn)
  case Nil
  then show ?case by (simp add: slot_bytes_def reads_def)
next
  case (Cons lba lbas)
  show ?case
    unfolding list_sectors.simps slot_bytes_Cons [OF Cons.prems(1)]
  proof (rule reads_bind [OF reads_sector])
    fix d'
    assume d': "ready d'" "sects d' = sects d"
    obtain stop es' lfn' where p: "parse_dir_entries (chunks 32 (sects d lba)) es lfn = (stop, es', lfn')"
      by (metis prod.exhaust)
    show "reads (case parse_dir_sector (sects d lba) es lfn of (stop, es', lfn') \<Rightarrow>
          if stop then io_ret (True, es', lfn') else list_sectors bus lbas es' lfn') d'
      (Ok (parse_dir_entries (chunks 32 (sects d lba) @ slot_bytes (sects d) lbas) es lfn))"
      using Cons.IH [OF d'(1), of es' lfn'] Cons.prems(2) d' p
      by (cases stop) (auto simp: parse_dir_sector_def parse_dir_entries_append)
  qed (use Cons.prems in auto)
qed

lemma reads_short_names:
  "ready d \<Longrightarrow> \<forall>lba \<in> set lbas. unat lba < 2 ^ 28 \<Longrightarrow>
   reads (short_names_in_sectors bus lbas ns) d (Ok (scan_value (short_names_in_sector (slot_bytes (sects d) lbas) ns)))"
proof (induction lbas arbitrary: d ns)
  case Nil
  then show ?case by (simp add: slot_bytes_def reads_def)
next
  case (Cons lba lbas)
  show ?case
    unfolding short_names_in_sectors.simps slot_bytes_Cons [OF Cons.prems(1)]
  proof (rule reads_bind [OF reads_sector])
    fix d'
    assume d': "ready d'" "sects d' = sects d"
    show "reads (case short_names_in_sector (chunks 32 (sects d lba)) ns of Scan_Return r \<Rightarrow> io_ret r
        | Scan_More ns' \<Rightarrow> short_names_in_sectors bus lbas ns') d'
      (Ok (scan_value (short_names_in_sector (chunks 32 (sects d lba) @ slot_bytes (sects d) lbas) ns)))"
      using Cons.IH [OF d'(1)] Cons.prems(2) d'
      by (cases "short_names_in_sector (chunks 32 (sects d lba)) ns") (auto simp: short_names_append)
  qed (use Cons.prems in auto)
qed

lemma reads_root:
  assumes "ready d" "layout_ok i"
  shows "reads (list_entries_in bus i Root) d (Ok (listed (sects d) (root_lbas i)))"
    "reads (existing_short_names_in bus i Root) d (Ok (short_names (sects d) (root_lbas i)))"
    "reads (find_entry_location_in bus i Root name) d
       (flat_find (not_found Root) name (dir_slots (sects d) (root_lbas i)) lfn_default)"
proof -
  have b: "\<forall>lba \<in> set (root_lbas i). unat lba < 2 ^ 28" using root_lbas_bound(1) [OF assms(2)] by blast
  have r: "list_entries_in bus i Root = io_bind (list_sectors bus (root_lbas i) [] lfn_default) (\<lambda>(_, es, _). io_ret es)"
    by (simp add: list_entries_in_def list_root_directory_def)
  obtain stop es lfn where p: "parse_dir_entries (slot_bytes (sects d) (root_lbas i)) [] lfn_default = (stop, es, lfn)"
    by (metis prod.exhaust)
  show "reads (list_entries_in bus i Root) d (Ok (listed (sects d) (root_lbas i)))"
    unfolding r using reads_list_sectors [OF assms(1) b, of "[]" lfn_default] p
    by (auto intro!: reads_bind simp: listed_def)
  show "reads (existing_short_names_in bus i Root) d (Ok (short_names (sects d) (root_lbas i)))"
    using reads_short_names [OF assms(1) b, of "[]"]
    by (simp add: existing_short_names_in_def directory_sectors_def short_names_def io_bind_def reads_def)
  show "reads (find_entry_location_in bus i Root name) d
       (flat_find (not_found Root) name (dir_slots (sects d) (root_lbas i)) lfn_default)"
    using reads_find_in_sectors [OF assms(1) b, of "not_found Root" name lfn_default]
    by (simp add: find_entry_location_in_def directory_sectors_def io_bind_def reads_def)
qed

lemma reads_alias:
  assumes "ready d" "layout_ok i"
  shows "reads (generate_short_alias bus i Root name) d (alias_for (short_names (sects d) (root_lbas i)) name)"
  unfolding generate_short_alias_def alias_for_def Let_def
  by (auto intro!: reads_bind [OF reads_root(2) [OF assms]] split: prod.split option.split)

lemma reads_names:
  assumes "ready d" "layout_ok i"
  shows "reads (build_name_entries bus i Root name) d (names_for (short_names (sects d) (root_lbas i)) name)"
proof (cases "to_short_name name")
  case (Ok short)
  then show ?thesis
    by (auto simp: build_name_entries_def names_for_def intro!: reads_bind [OF reads_root(2) [OF assms]])
next
  case (Err e)
  let ?D = "short_names (sects d) (root_lbas i)"
  obtain d1 where a: "generate_short_alias bus i Root name d = (alias_for ?D name, d1)" "ready d1" "sects d1 = sects d"
    using reads_alias [OF assms, of name] by (auto simp: reads_def)
  show ?thesis
    using Err assms(1) a
    by (cases "alias_for ?D name") (auto simp: build_name_entries_def names_for_def reads_def io_bind_def)
qed (auto simp: to_short_name_def split: prod.splits if_splits)

end

section \<open>Creating a file\<close>

text \<open>A name the driver stores so that it finds it again.\<close>

definition storable_name :: "bytes \<Rightarrow> bool" where
  "storable_name name \<longleftrightarrow> name \<noteq> [] \<and> list_all is_valid_lfn_char name
     \<and> (\<not> is_err (to_short_name name) \<longrightarrow> 0x20 \<notin> set name \<and> last name \<noteq> 0x2E)"

text \<open>The number of clusters a file of \<open>n\<close> bytes takes.\<close>

definition file_clusters :: "fat12_info \<Rightarrow> nat \<Rightarrow> nat" where
  "file_clusters i n = max ((n + unat (sectors_per_cluster i) * 512 - 1) div (unat (sectors_per_cluster i) * 512)) 1"

text \<open>When the root directory takes a new file: a name can be built, there are slots and clusters.\<close>

definition root_accepts :: "(u32 \<Rightarrow> bytes) \<Rightarrow> fat12_info \<Rightarrow> bytes \<Rightarrow> nat \<Rightarrow> bool" where
  "root_accepts disk i name n \<longleftrightarrow>
     (case names_for (short_names disk (root_lbas i)) name of
        Ok (short, long) \<Rightarrow>
          (case flat_free (length long + 1) (dir_slots disk (root_lbas i)) [] of
             Scan_Return ss \<Rightarrow> file_clusters i n \<le> length (free_clusters i)
           | Scan_More run \<Rightarrow> False)
      | _ \<Rightarrow> False)"

lemma clusters_for_eq: "layout_ok i \<Longrightarrow> clusters_for i data = Ok (file_clusters i (length data))"
  by (simp add: clusters_for_def file_clusters_def layout_ok_def Let_def)

lemma listed_no_match:
  "\<forall>x. flat_find nf name fl lfn \<noteq> Ok x \<Longrightarrow> \<not> list_ex (\<lambda>e. eq_ignore_ascii_case (de_name e) name) es \<Longrightarrow>
   \<not> list_ex (\<lambda>e. eq_ignore_ascii_case (de_name e) name) (fst (snd (parse_dir_entries (map snd fl) es lfn)))"
proof (induction nf name fl lfn arbitrary: es rule: flat_find.induct)
  case (2 nf name lba off raw fl lfn)
  consider "raw ! 0 = 0x00" | "raw ! 0 \<noteq> 0x00" "raw ! 0 = 0xE5" | "raw ! 0 \<noteq> 0x00" "raw ! 0 \<noteq> 0xE5" "raw ! 11 = 0x0F"
    | "raw ! 0 \<noteq> 0x00" "raw ! 0 \<noteq> 0xE5" "raw ! 11 \<noteq> 0x0F" "raw ! 11 AND 0x08 \<noteq> 0"
    | "raw ! 0 \<noteq> 0x00" "raw ! 0 \<noteq> 0xE5" "raw ! 11 \<noteq> 0x0F" "raw ! 11 AND 0x08 = 0" by blast
  then show ?case
  proof cases
    case 5
    obtain long lfn' where tv: "take_verified (sub raw 0 11) lfn = (long, lfn')" by fastforce
    let ?sn = "format_short_name (sub raw 0 8) (sub raw 8 3)"
    let ?nm = "case long of Some n \<Rightarrow> n | None \<Rightarrow> ?sn"
    have sm: "short_entry_if_matches raw lfn name = (None, lfn')" and nm: "\<not> eq_ignore_ascii_case ?nm name"
      using 5 "2.prems"(1) tv
      by (auto simp: short_entry_if_matches_def Let_def split: if_splits option.splits)
    have nx: "\<forall>x. flat_find nf name fl lfn' \<noteq> Ok x" using "2.prems"(1) 5 sm by simp
    have "\<not> list_ex (\<lambda>e. eq_ignore_ascii_case (de_name e) name) (es @ [raw_dir_entry ?nm raw])"
      using "2.prems"(2) nm by (simp add: raw_dir_entry_def)
    from "2.IH"(4) [OF 5(1,2,3) _ sm [symmetric] refl nx this] show ?thesis using 5 tv by simp
  qed (use 2 in auto)
qed simp

lemma alias_candidate_shape:
  assumes "cb \<noteq> []" "length cb \<le> 5" "length ce \<le> 3" "n < 100"
  shows "length (alias_candidate cb ce n) = 11" "alias_candidate cb ce n ! 0 = cb ! 0"
proof -
  have "length (alias_suffix n) \<le> 3" by (simp add: alias_suffix_def)
  then show "length (alias_candidate cb ce n) = 11" "alias_candidate cb ce n ! 0 = cb ! 0"
    using assms by (simp_all add: alias_candidate_def overwrite_def nth_append)
qed

lemma alias_for_Ok:
  assumes "alias_for existing name = Ok short"
  shows "length short = 11 \<and> short ! 0 \<notin> {0x00, 0xE5}"
proof -
  obtain base ext where s: "split_once_dot name = (base, ext)" by fastforce
  define cleaned where "cleaned = filter is_alias_char (map to_ascii_uppercase base)"
  define cb where "cb = take 5 (if cleaned = [] then [0x5F] else cleaned)"
  define ce where "ce = take 3 (filter is_alias_char (map to_ascii_uppercase ext))"
  have "(case find (\<lambda>out. out \<notin> set existing) (map (alias_candidate cb ce) [1..<100]) of Some out \<Rightarrow> Ok out
      | None \<Rightarrow> Err ''FAT12: too many colliding short-name aliases in this directory'') = Ok short"
    using assms unfolding alias_for_def s Let_def prod.case cb_def ce_def cleaned_def .
  then have "find (\<lambda>out. out \<notin> set existing) (map (alias_candidate cb ce) [1..<100]) = Some short"
    by (simp split: option.splits del: upt_rec_numeral)
  then have "short \<in> set (map (alias_candidate cb ce) [1..<100])" by (metis find_Some_iff nth_mem)
  then obtain n where n: "n < 100" "short = alias_candidate cb ce n"
    by (simp only: set_map set_upt) auto
  have cb: "cb \<noteq> []" "length cb \<le> 5" "length ce \<le> 3" by (auto simp: cb_def ce_def)
  have "cb ! 0 = 0x5F \<or> cb ! 0 \<in> set cleaned"
    by (cases cleaned) (auto simp: cb_def)
  then have "is_alias_char (cb ! 0)" by (auto simp: cleaned_def is_alias_char_def)
  then have "cb ! 0 \<notin> {0x00, 0xE5}" by (auto simp: is_alias_char_def)
  then show ?thesis using alias_candidate_shape [OF cb n(1)] n(2) by simp
qed

lemma names_for_Ok:
  assumes "names_for existing name = Ok (short, long)" "storable_name name"
  shows "name_entries name short long" "length long \<le> 15"
proof -
  have v: "list_all is_valid_lfn_char name" and ne: "name \<noteq> []"
    using assms(2) by (simp_all add: storable_name_def)
  have z: "0 \<notin> set name"
  proof
    assume "0 \<in> set name"
    then have "is_valid_lfn_char 0" using v by (simp add: list_all_iff)
    then show False by (simp add: is_valid_lfn_char_def)
  qed
  show "name_entries name short long"
  proof (cases "to_short_name name")
    case (Ok sn)
    then have s: "short = sn" "long = []" using assms(1) by (auto simp: names_for_def split: if_splits)
    obtain base ext where sp: "split_once_dot name = (base, ext)" by fastforce
    note sh = to_short_name_Ok [OF Ok sp]
    have "hd base \<in> set name"
      using sh(1) sp by (metis fst_conv list.set_sel(1) set_takeWhileD split_once_dot_def)
    then have "is_valid_lfn_char (hd base)" using v by (simp add: list_all_iff)
    then have "to_ascii_uppercase (hd base) \<notin> {0x00, 0xE5}"
      by (auto simp: is_valid_lfn_char_def to_ascii_uppercase_def)
    moreover have "sn ! 0 = to_ascii_uppercase (hd base)" using sh(1,4) by (cases base) auto
    ultimately show ?thesis
      using assms(2) Ok s sh by (auto simp: name_entries_def storable_name_def)
  next
    case (Err e)
    then have "length name \<le> 195" "alias_for existing name = Ok short" "long = build_lfn_entries name short"
      using assms(1) v by (auto simp: names_for_def split: if_splits)
    moreover have "long \<noteq> []"
      using calculation(3) ne by (auto simp: build_lfn_entries_def Let_def)
    ultimately show ?thesis using alias_for_Ok ne z by (auto simp: name_entries_def)
  qed (auto simp: to_short_name_def split: prod.splits if_splits)
  show "length long \<le> 15"
  proof (cases "long = []")
    case False
    then have "length name \<le> 195" "long = build_lfn_entries name short"
      using \<open>name_entries name short long\<close> by (auto simp: name_entries_def)
    then show ?thesis by (simp add: build_lfn_entries_def Let_def)
  qed simp
qed

text \<open>\<open>create_file\<close> in the root directory once the name's entries are built.\<close>

definition create_named :: "'d port_bus \<Rightarrow> bytes \<Rightarrow> bytes \<times> bytes list \<Rightarrow> (fat12_info \<times> 'd, unit) io" where
  "create_named bus data = (\<lambda>(short_name, long_entries).
     io_bind (find_free_entry_run_in bus Root (length long_entries + 1)) (\<lambda>slots.
     with_info (\<lambda>i.
     io_bind (io_lift (clusters_for i data)) (\<lambda>needed.
     io_bind (io_lift (find_free_clusters i needed)) (\<lambda>clusters.
     io_bind (lay_clusters bus data clusters 0) (\<lambda>_.
     io_bind (disk_io (read_time bus)) (\<lambda>time.
     let (fat_time, fat_date) = to_fat_datetime time;
         entry = build_dir_entry short_name 0x20 (clusters ! 0) (of_nat (length data)) fat_time fat_date
     in disk_io (write_name_entries bus slots long_entries entry))))))))"

lemma names_for_fails: "names_for existing name \<noteq> Panic" "names_for existing name \<noteq> Diverge"
proof -
  have a: "alias_for existing name \<noteq> Panic" "alias_for existing name \<noteq> Diverge"
    unfolding alias_for_def Let_def by (auto split: prod.split option.split simp del: upt_rec_numeral)
  then show "names_for existing name \<noteq> Panic" "names_for existing name \<noteq> Diverge"
    by (auto simp: names_for_def obind_eq_Panic split: outcome.splits) (cases "alias_for existing name"; simp)+
qed

lemma flat_free_window:
  assumes "flat_free (Suc n) fl [] = Scan_Return ss"
  obtains pre mid post where "fl = pre @ mid @ post" "ss = map fst mid" "length mid = Suc n"
    "\<forall>s \<in> set mid. is_free_slot (snd s)" "pre \<noteq> [] \<longrightarrow> \<not> is_free_slot (snd (last pre))"
proof -
  have "length ss = Suc n" "free_window fl [] ss" using flat_free_Return [OF assms] by simp_all
  then show thesis
    using that [of "[]"] that unfolding free_window_def by (elim disjE exE conjE) auto
qed

context ata_disk
begin

lemma free_entry_run_root:
  assumes "ready d" "layout_ok i" "count \<le> 16"
  shows "\<exists>d'. find_free_entry_run_in bus Root count (i, d) =
      (case flat_free count (dir_slots (sects d) (root_lbas i)) [] of Scan_Return ss \<Rightarrow> Ok ss
       | Scan_More run \<Rightarrow> Err ''FAT12: root directory is full, no free entry slot'', (i, d'))
     \<and> ready d' \<and> sects d' = sects d"
proof -
  have b: "\<forall>lba \<in> set (root_lbas i). unat lba < 2 ^ 28" using root_lbas_bound(1) [OF assms(2)] by blast
  obtain d' where d': "disk_io (free_run_in_sectors bus count (root_lbas i) []) (i, d)
      = (Ok (flat_free count (dir_slots (sects d) (root_lbas i)) []), (i, d'))" "ready d'" "sects d' = sects d"
    using reads_disk_io [OF reads_free_run_in_sectors [OF assms(1) b, of count "[]"], of i] by (elim exE conjE)
  then show ?thesis
    using assms(3) by (cases "flat_free count (dir_slots (sects d) (root_lbas i)) []")
      (simp_all add: find_free_entry_run_in_def with_info_def directory_sectors_def io_bind_def)
qed

text \<open>The steps of \<open>create_file\<close> before anything is written.\<close>

lemma create_prepare:
  assumes "ready d" "layout_ok i" "\<forall>x. flat_find (not_found Root) name (dir_slots (sects d) (root_lbas i)) lfn_default \<noteq> Ok x"
  shows "\<exists>d'. ready d' \<and> sects d' = sects d \<and> create_file bus name data (i, d) =
    io_bind (io_lift (names_for (short_names (sects d) (root_lbas i)) name)) (create_named bus data) (i, d')"
proof -
  let ?D = "sects d" and ?R = "root_lbas i"
  obtain d1 where d1: "disk_io (list_entries_in bus i Root) (i, d) = (Ok (listed ?D ?R), (i, d1))" "ready d1" "sects d1 = ?D"
    using reads_disk_io [OF reads_root(1) [OF assms(1,2)], of i] by (elim exE conjE)
  obtain d2 where d2: "disk_io (build_name_entries bus i Root name) (i, d1) = (names_for (short_names ?D ?R) name, (i, d2))"
      "ready d2" "sects d2 = ?D"
    using reads_disk_io [OF reads_names [OF d1(2) assms(2), of name], of i] unfolding d1(3) by (elim exE conjE)
  have "\<not> list_ex (\<lambda>e. eq_ignore_ascii_case (de_name e) name) (listed ?D ?R)"
    using listed_no_match [OF assms(3), of "[]"] by (simp add: listed_def slot_bytes_def)
  then show ?thesis
    using d1(1) d2
    by (intro exI [of _ d2], cases "names_for (short_names ?D ?R) name")
      (simp_all add: create_file_def create_file_impl_def create_named_def [abs_def] with_info_def io_bind_def)
qed

lemma create_rejected:
  assumes "ready d" "layout_ok i" "\<forall>x. flat_find (not_found Root) name (dir_slots (sects d) (root_lbas i)) lfn_default \<noteq> Ok x"
    "storable_name name" "length (fat_bytes i) < 4294967296 div 3" "\<not> root_accepts (sects d) i name (length data)"
  shows "\<exists>e d'. create_file bus name data (i, d) = (Err e, (i, d')) \<and> ready d' \<and> sects d' = sects d"
proof -
  let ?D = "sects d" and ?R = "root_lbas i"
  obtain d' where d': "ready d'" "sects d' = ?D" and eq: "create_file bus name data (i, d) =
      io_bind (io_lift (names_for (short_names ?D ?R) name)) (create_named bus data) (i, d')"
    using create_prepare [OF assms(1-3), of data] by (elim exE conjE)
  show ?thesis
  proof (cases "names_for (short_names ?D ?R) name")
    case (Ok p)
    obtain short long where p: "p = (short, long)" by (cases p)
    have len: "length long + 1 \<le> 16" using names_for_Ok(2) [OF Ok [unfolded p] assms(4)] by simp
    obtain d2 where d2: "find_free_entry_run_in bus Root (length long + 1) (i, d') =
        (case flat_free (length long + 1) (dir_slots ?D ?R) [] of Scan_Return ss \<Rightarrow> Ok ss
         | Scan_More run \<Rightarrow> Err ''FAT12: root directory is full, no free entry slot'', (i, d2))"
        "ready d2" "sects d2 = ?D"
      using free_entry_run_root [OF d'(1) assms(2) len] unfolding d'(2) by (elim exE conjE)
    show ?thesis
    proof (cases "flat_free (length long + 1) (dir_slots ?D ?R) []")
      case (Scan_Return ss)
      then have "length (free_clusters i) < file_clusters i (length data)"
        using assms(6) Ok p by (simp add: root_accepts_def)
      then show ?thesis
        using eq Ok p d2 Scan_Return clusters_for_eq [OF assms(2)] find_free_clusters_eq [OF assms(5)]
        by (simp add: create_named_def io_bind_def with_info_def)
    qed (use eq Ok p d2 in \<open>simp add: create_named_def io_bind_def\<close>)
  qed (use eq d' names_for_fails in \<open>auto simp: io_bind_def\<close>)
qed

end

section \<open>The created file\<close>

lemma write_name_entries_zip:
  "length slots = length long + 1 \<Longrightarrow>
   write_name_entries bus slots long e = io_for (map (\<lambda>((lba, off), e). (lba, off, e)) (zip slots (long @ [e]))) (write_slot bus)"
  by (cases slots rule: rev_cases) (auto simp: write_name_entries_def zip_append1)

lemma fold_put_slot_frame: "lba \<notin> (fst \<circ> fst) ` set ws \<Longrightarrow> fold put_slot ws D lba = D lba"
  by (induction ws arbitrary: D) (auto simp: put_slot_def split: prod.splits)

lemma dir_slots_cong: "\<forall>lba \<in> set lbas. D' lba = D lba \<Longrightarrow> dir_slots D' lbas = dir_slots D lbas"
  by (induction lbas) (simp_all add: sector_slots_def)

lemma next_cluster_entry:
  "entry_offset c + 1 < length F \<Longrightarrow> fat_entry F c = v \<Longrightarrow> v \<noteq> 0 \<Longrightarrow>
   next_cluster (i\<lparr>fat_bytes := F\<rparr>) c = Ok (if 0x0FF8 \<le> v then None else Some (ucast v))"
  by (auto simp: next_cluster_def Let_def)

lemma ucast_cluster:
  assumes "2 \<le> unat (c :: u32)" "unat c < 0xFF8"
  shows "(ucast c AND 0x0FFF :: u16) \<noteq> 0" "(ucast c AND 0x0FFF :: u16) < 0x0FF8" "ucast (ucast c AND 0x0FFF :: u16) = c"
proof -
  have u: "unat (ucast c AND 0x0FFF :: u16) = unat c"
    using assms(2) unfolding u16_masks(1) by (simp add: unsigned_take_bit_eq unat_ucast_mod take_bit_nat_def)
  show "(ucast c AND 0x0FFF :: u16) \<noteq> 0" using u assms(1) by auto
  show "(ucast c AND 0x0FFF :: u16) < 0x0FF8" using u assms(2) by (simp add: word_less_nat_alt)
  show "ucast (ucast c AND 0x0FFF :: u16) = c" using u by (simp add: word_unat_eq_iff unat_ucast_up)
qed

lemma linked_of_entries:
  assumes "cs \<noteq> []" "\<forall>c \<in> set cs. 2 \<le> unat c \<and> unat c < 0xFF8 \<and> entry_offset c + 1 < length F"
    "\<And>j. j < length cs \<Longrightarrow> fat_entry F (cs ! j) = (if j + 1 < length cs then ucast (cs ! (j + 1)) else 0x0FFF) AND 0x0FFF"
  shows "linked (i\<lparr>fat_bytes := F\<rparr>) cs"
  using assms
proof (induction "i\<lparr>fat_bytes := F\<rparr>" cs rule: linked.induct)
  case (2 c)
  then show ?case using next_cluster_entry [of c F "0x0FFF"] by simp
next
  case (3 c c' cs)
  have e: "fat_entry F ((c' # cs) ! j) = (if j + 1 < length (c' # cs) then ucast ((c' # cs) ! (j + 1)) else 0x0FFF) AND 0x0FFF"
    if "j < length (c' # cs)" for j using "3.prems"(3) [of "Suc j"] that by simp
  have c': "2 \<le> unat c'" "unat c' < 0xFF8" using "3.prems"(2) by simp_all
  have "fat_entry F c = ucast c' AND 0x0FFF" using "3.prems"(3) [of 0] by simp
  then have "next_cluster (i\<lparr>fat_bytes := F\<rparr>) c = Ok (Some c')"
    using next_cluster_entry [of c F "ucast c' AND 0x0FFF" i] "3.prems"(2) ucast_cluster [OF c']
    by (simp add: not_le [symmetric])
  then show ?case using "3.hyps" "3.prems"(2) e by simp
qed simp

lemma file_clusters_fit:
  assumes "layout_ok i"
  shows "n \<le> file_clusters i n * (unat (sectors_per_cluster i) * 512)" "1 \<le> file_clusters i n"
    "0 < n \<Longrightarrow> file_clusters i n \<le> n"
proof -
  define k where "k = unat (sectors_per_cluster i) * 512"
  have k: "0 < k" using assms by (simp add: k_def layout_ok_def)
  have "n \<le> (n + k - 1) div k * k" using k by (metis (no_types) dividend_less_div_times add.commute
        Suc_diff_1 add_gr_0 add_less_cancel_left diff_add_inverse le_less_linear less_Suc_eq_le linorder_not_less not_add_less2 not_le)
  then show "n \<le> file_clusters i n * (unat (sectors_per_cluster i) * 512)"
    unfolding file_clusters_def k_def [symmetric] by (meson le_trans max.cobounded1 mult_right_mono zero_le)
  show "1 \<le> file_clusters i n" by (simp add: file_clusters_def)
  show "file_clusters i n \<le> n" if n: "0 < n"
  proof -
    have "n + k - 1 < n * k + k" using n k by (cases k) simp_all
    then have "(n + k - 1) div k < n + 1" using k by (simp add: div_less_iff_less_mult)
    then show ?thesis using n unfolding file_clusters_def k_def [symmetric] by simp
  qed
qed

lemma chain_bytes_laid:
  assumes "\<And>j s. j < length cs \<Longrightarrow> s < unat (sectors_per_cluster i) \<Longrightarrow>
      D (cluster_to_lba i (cs ! j) + of_nat s) = data_sector data (512 * (j * unat (sectors_per_cluster i) + s))"
    "length data \<le> length cs * (unat (sectors_per_cluster i) * 512)"
  shows "take (length data) (chain_bytes D i cs) = data"
proof -
  let ?p = "unat (sectors_per_cluster i)"
  have "chain_bytes D i cs = concat (map (\<lambda>j. concat (map D (cluster_sectors i (cs ! j)))) [0..<length cs])"
    unfolding chain_bytes_def
    by (subst (1) map_nth [of cs, symmetric], subst map_map) (simp only: comp_def)
  also have "\<dots> = concat (map (\<lambda>j. concat (map (\<lambda>s. data_sector data (512 * (j * ?p + s))) [0..<?p])) [0..<length cs])"
    using assms(1) by (intro arg_cong [where f = concat] map_cong) (simp_all add: cluster_sectors_def)
  also have "\<dots> = take (512 * (length cs * ?p)) (data @ replicate (512 * (length cs * ?p)) 0)"
    using concat_grid [of "\<lambda>k. data_sector data (512 * k)"] concat_data_sectors by simp
  finally show ?thesis using assms(2) by (simp add: min_def)
qed

text \<open>What laying \<open>data\<close> on the clusters \<open>cs\<close> makes of the disk \<open>D\<close> and the table.\<close>

definition laid :: "fat12_info \<Rightarrow> bytes \<Rightarrow> u32 list \<Rightarrow> (u32 \<Rightarrow> bytes) \<Rightarrow> bytes \<Rightarrow> (u32 \<Rightarrow> bytes) \<Rightarrow> bool" where
  "laid i data cs D F D' \<longleftrightarrow> coherent D' (i\<lparr>fat_bytes := F\<rparr>) \<and> length F = length (fat_bytes i)
    \<and> (\<forall>c. unat c < 4096 \<longrightarrow> c \<notin> set cs \<longrightarrow> fat_entry F c = fat_entry (fat_bytes i) c)
    \<and> (\<forall>j<length cs. fat_entry F (cs ! j) = (if j + 1 < length cs then ucast (cs ! (j + 1)) else 0x0FFF) AND 0x0FFF)
    \<and> (\<forall>j<length cs. \<forall>s<unat (sectors_per_cluster i). D' (cluster_to_lba i (cs ! j) + of_nat s)
         = data_sector data (512 * (j * unat (sectors_per_cluster i) + s)))
    \<and> (\<forall>lba. lba \<notin> fat_lbas i \<longrightarrow> (\<forall>c \<in> set cs. lba \<notin> set (cluster_sectors i c)) \<longrightarrow> D' lba = D lba)"

context disk_machine
begin

lemma create_accepted:
  assumes lay: "layout_ok i" and co: "coherent (sects d) i" and rdy: "ready d"
    and none: "\<forall>x. flat_find (not_found Root) name (dir_slots (sects d) (root_lbas i)) lfn_default \<noteq> Ok x"
    and nm: "storable_name name" and acc: "root_accepts (sects d) i name (length data)"
  obtains short long pre mid post cs F D3 d5 t dt where "name_entries name short long"
    "dir_slots (sects d) (root_lbas i) = pre @ mid @ post" "length mid = length long + 1"
    "\<forall>s \<in> set mid. is_free_slot (snd s)" "pre \<noteq> [] \<longrightarrow> \<not> is_free_slot (snd (last pre))"
    "cs = take (file_clusters i (length data)) (free_clusters i)" "length cs = file_clusters i (length data)"
    "laid i data cs (sects d) F D3"
    "create_file bus name data (i, d) = (Ok (), (i\<lparr>fat_bytes := F\<rparr>, d5))" "ready d5"
    "sects d5 = fold put_slot (zip (map fst mid) (long @ [build_dir_entry short 0x20 (cs ! 0) (of_nat (length data)) t dt])) D3"
proof -
  let ?D = "sects d" and ?R = "root_lbas i" and ?n = "file_clusters i (length data)"
  obtain short long ss where nf: "names_for (short_names ?D ?R) name = Ok (short, long)"
      and ff: "flat_free (Suc (length long)) (dir_slots ?D ?R) [] = Scan_Return ss" and n: "?n \<le> length (free_clusters i)"
    using acc by (auto simp: root_accepts_def split: outcome.splits prod.splits scan.splits)
  note ne = names_for_Ok [OF nf nm]
  obtain pre mid post where w: "dir_slots ?D ?R = pre @ mid @ post" "ss = map fst mid" "length mid = Suc (length long)"
      "\<forall>s \<in> set mid. is_free_slot (snd s)" "pre \<noteq> [] \<longrightarrow> \<not> is_free_slot (snd (last pre))"
    by (rule flat_free_window [OF ff])
  define cs where "cs = take ?n (free_clusters i)"
  have fat: "length (fat_bytes i) \<le> 6144" using co lay by (simp add: coherent_def layout_ok_def)
  have free: "\<forall>c \<in> set cs. data_cluster c \<and> entry_offset c + 1 < length (fat_bytes i)" "distinct cs"
    using set_free_clusters [OF fat] distinct_free_clusters [of i] fat
    by (auto simp: cs_def data_cluster_def dest: in_set_takeD)
  obtain d1 where d1: "ready d1" "sects d1 = ?D" and eq: "create_file bus name data (i, d) =
      io_bind (io_lift (names_for (short_names ?D ?R) name)) (create_named bus data) (i, d1)"
    using create_prepare [OF rdy lay none, of data] by (elim exE conjE)
  obtain d2 where d2: "find_free_entry_run_in bus Root (Suc (length long)) (i, d1) = (Ok ss, (i, d2))" "ready d2" "sects d2 = ?D"
    using free_entry_run_root [OF d1(1) lay, of "Suc (length long)"] ne(2) ff unfolding d1(2) by auto
  have co2: "coherent (sects d2) i" using co d2(3) by simp
  obtain F d3 where d3: "lay_clusters bus data cs 0 (i, d2) = (Ok (), (i\<lparr>fat_bytes := F\<rparr>, d3))" "ready d3"
      and ld: "laid i data cs (sects d) F (sects d3)"
    using lay_clusters_run [OF lay co2 d2(2) free(2) le0 free(1), of data] unfolding laid_def d2(3) add_0
    by (elim exE conjE) blast
  obtain tm d4 where d4: "read_time bus d3 = (Ok tm, d4)" "ready d4" "sects d4 = sects d3"
    using clock_law [OF d3(2)] by blast
  obtain t dt where t: "to_fat_datetime tm = (t, dt)" by fastforce
  define e where "e = build_dir_entry short 0x20 (cs ! 0) (of_nat (length data)) t dt"
  have len: "length e = 32" using ne(1) by (simp add: e_def name_entries_def build_dir_entry_def)
  have loc: "slot_place l \<and> fst l \<in> set ?R" if "l \<in> set ss" for l
    using that dir_slots_place [of ?R ?D l] sector_size [OF rdy] unfolding w(1,2) by auto
  have "\<forall>((lba, off), x) \<in> set (zip ss (long @ [e])). unat lba < 2 ^ 28 \<and> off + length x \<le> 512"
    using loc root_lbas_bound(1) [OF lay] long_entries_raw [OF ne(1)] len
    by (fastforce dest: set_zip_leftD set_zip_rightD simp: slot_place_def)
  then obtain d5 where d5: "io_for (map (\<lambda>((lba, off), e). (lba, off, e)) (zip ss (long @ [e]))) (write_slot bus) d4 = (Ok (), d5)"
      "ready d5" "sects d5 = fold put_slot (zip ss (long @ [e])) (sects d4)"
    using write_slots_run [OF d4(2)] by blast
  have run: "create_file bus name data (i, d) = (Ok (), (i\<lparr>fat_bytes := F\<rparr>, d5))"
    using nf d2(1) d3(1) d4(1) t d5(1) n clusters_for_eq [OF lay] find_free_clusters_eq [of i] fat w(2,3)
      write_name_entries_zip [of ss long bus e]
    unfolding eq by (simp add: create_named_def io_bind_def with_info_def disk_io_def e_def cs_def)
  show thesis
    using that [OF ne(1) w(1) _ w(4,5) cs_def _ ld run d5(2)] w(2,3) d5(3) d4(3) n by (simp add: cs_def e_def)
qed

text \<open>The directory after the new entries are written, and the sectors outside it.\<close>

lemma directory_after:
  assumes lay: "layout_ok i" and rdy: "ready d" and w: "dir_slots (sects d) (root_lbas i) = pre @ mid @ post"
    and ld: "laid i data cs (sects d) F D3" and cs: "\<forall>c \<in> set cs. data_cluster c"
    and len: "length mid = length long + 1" and names: "name_entries name short long"
    and e: "length e = 32"
  shows "dir_slots (fold put_slot (zip (map fst mid) (long @ [e])) D3) (root_lbas i) = pre @ zip (map fst mid) (long @ [e]) @ post"
    "lba \<notin> set (root_lbas i) \<Longrightarrow> fold put_slot (zip (map fst mid) (long @ [e])) D3 lba = D3 lba"
proof -
  let ?R = "root_lbas i" and ?ws = "zip (map fst mid) (long @ [e])"
  have keep: "\<forall>lba \<in> set ?R. D3 lba = sects d lba"
    using ld root_lbas_bound(2) [OF lay] cluster_sectors_bound(4) [OF lay] cs unfolding laid_def by blast
  have sz: "\<forall>x \<in> set ?R. length (D3 x) = 512" "\<forall>x \<in> set ?R. length (sects d x) = 512"
    using keep sector_size [OF rdy] by simp_all
  have loc: "slot_place l \<and> fst l \<in> set ?R" if "l \<in> set (map fst mid)" for l
    using that dir_slots_place [OF sz(2), of l] unfolding w by auto
  have ws: "length (snd x) = 32 \<and> slot_place (fst x) \<and> fst (fst x) \<in> set ?R" if "x \<in> set ?ws" for x
  proof -
    obtain l y where x: "x = (l, y)" by (cases x)
    have "l \<in> set (map fst mid)" "y \<in> set (long @ [e])" using that x by (auto dest: set_zip_leftD set_zip_rightD)
    then show ?thesis using loc [of l] long_entries_raw [OF names, of y] e x by auto
  qed
  have "dir_slots (fold put_slot ?ws D3) ?R = fold replace_slot ?ws (dir_slots D3 ?R)"
    using ws sz(1) by (intro dir_slots_fold_put) auto
  also have "dir_slots D3 ?R = pre @ mid @ post" using dir_slots_cong [OF keep] w by simp
  also have "fold replace_slot ?ws (pre @ mid @ post) = pre @ ?ws @ post"
    using distinct_dir_slots [OF sz(2) distinct_root_lbas [OF lay]] len unfolding w by (intro replace_window) simp_all
  finally show "dir_slots (fold put_slot ?ws D3) ?R = pre @ ?ws @ post" .
  show "fold put_slot ?ws D3 lba = D3 lba" if "lba \<notin> set ?R"
    using that ws by (intro fold_put_slot_frame) auto
qed

lemma reads_created:
  assumes lay: "layout_ok i" and rdy: "ready d" and cs: "cs \<noteq> []" "\<forall>c \<in> set cs. data_cluster c" "linked i cs"
    and find: "flat_find (not_found Root) name (dir_slots (sects d) (root_lbas i)) lfn_default = Ok (lba, off, entry)"
    and entry: "\<not> de_is_dir entry" "unat (de_size entry) = length data" "de_start_cluster entry = hd cs"
    and bytes: "take (length data) (chain_bytes (sects d) i cs) = data"
    and len: "data \<noteq> [] \<Longrightarrow> length cs \<le> length data"
  shows "reads (read_file bus i name) d (Ok data)"
proof -
  have f: "reads (find_entry_location_in bus i Root name) d (Ok (lba, off, entry))"
    using reads_root(3) [OF rdy lay, of name] unfolding find .
  show ?thesis
    unfolding read_file_def read_file_impl_def
  proof (rule reads_bind [OF f])
    fix d'
    assume d': "ready d'" "sects d' = sects d"
    show "reads (case (lba, off, entry) of (_, _, entry) \<Rightarrow> if de_is_dir entry then io_err (not_found Root)
        else if de_size entry = 0 then io_ret []
        else read_clusters (unat (de_size entry) + chain_fuel) bus i (unat (de_size entry)) (de_start_cluster entry) []) d'
       (Ok data)"
    proof (cases "data = []")
      case True
      then have "de_size entry = 0" using entry(2) by (simp add: word_unat_eq_iff)
      then show ?thesis using True entry(1) d'(1) by (auto simp: reads_def)
    next
      case False
      then have "de_size entry \<noteq> 0" using entry(2) by auto
      moreover have "length data \<le> length (chain_bytes (sects d') i cs)"
        using arg_cong [OF bytes, of length] d'(2) by simp
      then have "reads (read_clusters (length data + chain_fuel) bus i (length data) (hd cs) []) d'
          (Ok ([] @ take (length data - length ([] :: bytes)) (chain_bytes (sects d') i cs)))"
        using False len cs lay d'(1) by (intro reads_clusters) auto
      ultimately show ?thesis using entry bytes d'(2) by simp
    qed
  qed
qed

lemma create_then_read:
  assumes lay: "layout_ok i" and co: "coherent (sects d) i" and rdy: "ready d"
    and wf: "dir_wf (dir_slots (sects d) (root_lbas i))"
    and none: "\<forall>x. flat_find (not_found Root) name (dir_slots (sects d) (root_lbas i)) lfn_default \<noteq> Ok x"
    and nm: "storable_name name" and acc: "root_accepts (sects d) i name (length data)"
    and small: "length data < 2 ^ 32" and low: "\<forall>c \<in> set (free_clusters i). unat c < 0xFF8"
  shows "\<exists>i' d'. create_file bus name data (i, d) = (Ok (), (i', d')) \<and> ready d' \<and> layout_ok i' \<and> coherent (sects d') i'
     \<and> dir_wf (dir_slots (sects d') (root_lbas i'))
     \<and> (\<forall>x. ready x \<longrightarrow> sects x = sects d' \<longrightarrow> reads (read_file bus i' name) x (Ok data))
     \<and> (\<forall>c. data_cluster c \<longrightarrow> fat_entry (fat_bytes i) c \<noteq> 0 \<longrightarrow> fat_entry (fat_bytes i') c = fat_entry (fat_bytes i) c
          \<and> (\<forall>lba \<in> set (cluster_sectors i c). sects d' lba = sects d lba))
     \<and> (\<forall>s \<in> set (dir_slots (sects d) (root_lbas i)). \<not> is_free_slot (snd s) \<longrightarrow> s \<in> set (dir_slots (sects d') (root_lbas i')))"
proof -
  obtain short long pre mid post cs F D3 d5 t dt where ne: "name_entries name short long"
    and w: "dir_slots (sects d) (root_lbas i) = pre @ mid @ post" "length mid = length long + 1"
    "\<forall>s \<in> set mid. is_free_slot (snd s)" "pre \<noteq> [] \<longrightarrow> \<not> is_free_slot (snd (last pre))"
    and cs: "cs = take (file_clusters i (length data)) (free_clusters i)" "length cs = file_clusters i (length data)"
    and ld: "laid i data cs (sects d) F D3"
    and run: "create_file bus name data (i, d) = (Ok (), (i\<lparr>fat_bytes := F\<rparr>, d5))" "ready d5"
    and d5: "sects d5 = fold put_slot (zip (map fst mid) (long @ [build_dir_entry short 0x20 (cs ! 0) (of_nat (length data)) t dt])) D3"
    by (rule create_accepted [OF lay co rdy none nm acc])
  define e where "e = build_dir_entry short 0x20 (cs ! 0) (of_nat (length data)) t dt"
  define i' where "i' = i\<lparr>fat_bytes := F\<rparr>"
  have len: "length e = 32" using ne by (simp add: e_def name_entries_def build_dir_entry_def)
  have fat: "length (fat_bytes i) \<le> 6144" using co lay by (simp add: coherent_def layout_ok_def)
  have free: "\<forall>c \<in> set cs. data_cluster c \<and> entry_offset c + 1 < length (fat_bytes i) \<and> fat_entry (fat_bytes i) c = 0"
      "\<forall>c \<in> set cs. 2 \<le> unat c \<and> unat c < 0xFF8"
    using set_free_clusters [OF fat] low by (auto simp: cs(1) data_cluster_def dest: in_set_takeD)
  have dc: "\<forall>c \<in> set cs. data_cluster c" using free(1) by blast
  note dir = directory_after [OF lay rdy w(1) ld dc w(2) ne len, folded d5 [folded e_def]]
  have pos: "1 \<le> length cs" using file_clusters_fit(2) [OF lay] cs(2) by simp
  then have ncs: "cs \<noteq> []" by auto
  have l: "pre \<noteq> [] \<Longrightarrow> \<not> is_free_slot (snd (last pre))" using w(4) by blast
  note find = find_new_entry [OF wf [unfolded w(1)] w(3) l none [unfolded w(1)] ne w(2), of "0x20", folded dir(1)]
  have root: "c \<in> set cs \<or> data_cluster c \<Longrightarrow> lba \<in> set (cluster_sectors i c) \<Longrightarrow> lba \<notin> set (root_lbas i)" for c lba
    using cluster_sectors_bound(4) [OF lay] dc by blast
  have data: "sects d5 (cluster_to_lba i (cs ! j) + of_nat s) = data_sector data (512 * (j * unat (sectors_per_cluster i) + s))"
    if js: "j < length cs" "s < unat (sectors_per_cluster i)" for j s
    using root [of "cs ! j" "cluster_to_lba i (cs ! j) + of_nat s"] dir(2) ld js by (simp add: laid_def cluster_sectors_def)
  have bytes: "take (length data) (chain_bytes (sects d5) i cs) = data"
    using chain_bytes_laid [OF data] file_clusters_fit(1) [OF lay, of "length data"] cs(2) by simp
  have ln: "linked i' cs"
    unfolding i'_def using free ld ncs by (intro linked_of_entries) (auto simp: laid_def)
  have "reads (read_file bus i' name) x (Ok data)" if x: "ready x" "sects x = sects d5" for x
  proof (rule reads_created [OF _ x(1) ncs dc ln])
    show "take (length data) (chain_bytes (sects x) i' cs) = data" using bytes x(2) by (simp add: i'_def chain_bytes_def)
    show "length cs \<le> length data" if "data \<noteq> []" using that cs(2) file_clusters_fit(3) [OF lay, of "length data"] by simp
  qed (use find ncs small lay x(2) in \<open>auto simp: i'_def e_def hd_conv_nth unat_of_nat dir(1)\<close>)
  moreover have "coherent (sects d5) i'"
    using ld dir(2) root_lbas_bound(2) [OF lay] coherent_frame [of D3 i' "sects d5"] by (auto simp: laid_def i'_def)
  moreover have "dir_wf (dir_slots (sects d5) (root_lbas i'))"
    using dir_wf_new_entry [OF wf [unfolded w(1)] w(3) l ne w(2), of "0x20"] dir(1) by (simp add: i'_def e_def)
  moreover have "fat_entry (fat_bytes i') c = fat_entry (fat_bytes i) c \<and> (\<forall>lba \<in> set (cluster_sectors i c). sects d5 lba = sects d lba)"
    if c: "data_cluster c" "fat_entry (fat_bytes i) c \<noteq> 0" for c
  proof -
    have n: "c \<notin> set cs" using free(1) c(2) by blast
    have "sects d5 lba = sects d lba" if lba: "lba \<in> set (cluster_sectors i c)" for lba
    proof -
      have "\<forall>c' \<in> set cs. lba \<notin> set (cluster_sectors i c')"
        using cluster_sectors_disjoint [OF lay c(1)] dc n lba by fastforce
      then show ?thesis
        using dir(2) root [of c lba] c(1) lba ld cluster_sectors_bound(3) [OF lay c(1) lba] by (simp add: laid_def)
    qed
    then show ?thesis using ld n c(1) by (simp add: laid_def i'_def data_cluster_def)
  qed
  moreover have "s \<in> set (dir_slots (sects d5) (root_lbas i'))" if "s \<in> set (dir_slots (sects d) (root_lbas i))" "\<not> is_free_slot (snd s)" for s
    using that w(3) dir(1) unfolding w(1) by (auto simp: i'_def)
  ultimately show ?thesis using run lay by (intro exI [of _ i'] exI [of _ d5]) (auto simp: i'_def)
qed

end

section \<open>Properties\<close>

text \<open>
  C2: Creating a file. On an addressable FAT12 volume whose cached table agrees with the disk and
  whose root directory is well-formed, for a storable name that the directory does not have and a
  content below 4 GiB: when an entry can be named, the root has enough consecutive free slots and
  the table enough free clusters, \<^verbatim>\<open>create_file\<close> succeeds, \<^verbatim>\<open>read_file\<close> then returns exactly the
  content, the cache agrees with the disk, the directory is well-formed, the entry and the sectors
  of every cluster in use are what they were and so is every directory slot in use; otherwise it
  reports an error and has changed neither the volume nor any sector. The free clusters of the table
  are below 0xFF8, the first value that marks the end of a chain.
\<close>

theorem create_file_correct:
  assumes "disk_machine bus sects ready" "layout_ok i" "coherent (sects d) i" "ready d"
    "dir_wf (dir_slots (sects d) (root_lbas i))" "\<forall>x. fst (find_entry_location_in bus i Root name d) \<noteq> Ok x"
    "storable_name name" "length data < 2 ^ 32" "\<forall>c \<in> set (free_clusters i). unat c < 0xFF8"
  shows "if root_accepts (sects d) i name (length data)
    then \<exists>i' d'. create_file bus name data (i, d) = (Ok (), (i', d')) \<and> ready d'
       \<and> (\<exists>d''. read_file bus i' name d' = (Ok data, d'') \<and> sects d'' = sects d')
       \<and> coherent (sects d') i' \<and> dir_wf (dir_slots (sects d') (root_lbas i'))
       \<and> (\<forall>c. data_cluster c \<longrightarrow> fat_entry (fat_bytes i) c \<noteq> 0 \<longrightarrow> fat_entry (fat_bytes i') c = fat_entry (fat_bytes i) c
            \<and> (\<forall>lba \<in> set (cluster_sectors i c). sects d' lba = sects d lba))
       \<and> (\<forall>s \<in> set (dir_slots (sects d) (root_lbas i)). \<not> is_free_slot (snd s) \<longrightarrow> s \<in> set (dir_slots (sects d') (root_lbas i')))
    else \<exists>e d'. create_file bus name data (i, d) = (Err e, (i, d')) \<and> sects d' = sects d"
proof -
  have ad: "ata_disk bus sects ready" using assms(1) by (simp add: disk_machine_def)
  note r = ata_disk.reads_def [OF ad]
  have none: "\<forall>x. flat_find (not_found Root) name (dir_slots (sects d) (root_lbas i)) lfn_default \<noteq> Ok x"
    using ata_disk.reads_root(3) [OF ad assms(4,2), of name] assms(6) by (auto simp: r)
  have fat: "length (fat_bytes i) < 4294967296 div 3" using assms(2,3) by (simp add: coherent_def layout_ok_def)
  show ?thesis
  proof (cases "root_accepts (sects d) i name (length data)")
    case True
    from disk_machine.create_then_read [OF assms(1-5) none assms(7) True assms(8,9)]
    obtain i' d' where "create_file bus name data (i, d) = (Ok (), (i', d'))" "ready d'" "coherent (sects d') i'"
      "dir_wf (dir_slots (sects d') (root_lbas i'))"
      "\<forall>x. ready x \<longrightarrow> sects x = sects d' \<longrightarrow> ata_disk.reads sects ready (read_file bus i' name) x (Ok data)"
      "\<forall>c. data_cluster c \<longrightarrow> fat_entry (fat_bytes i) c \<noteq> 0 \<longrightarrow> fat_entry (fat_bytes i') c = fat_entry (fat_bytes i) c
          \<and> (\<forall>lba \<in> set (cluster_sectors i c). sects d' lba = sects d lba)"
      "\<forall>s \<in> set (dir_slots (sects d) (root_lbas i)). \<not> is_free_slot (snd s) \<longrightarrow> s \<in> set (dir_slots (sects d') (root_lbas i'))"
      by (elim exE conjE)
    then show ?thesis
      unfolding r using True by (subst if_P) blast+
  next
    case False
    then show ?thesis
      using ata_disk.create_rejected [OF ad assms(4,2) none assms(7) fat False] by (subst if_not_P) blast+
  qed
qed

lemma tiny_root: "root_lbas tiny_volume = [2051]"
  by (auto simp: root_lbas_def root_dir_sectors_def first_root_dir_sector_def first_fat_sector_def tiny_volume_def div_ceil_def)

text \<open>A small volume with an empty root directory.\<close>

lemma empty_root:
  assumes "D 2051 = replicate 512 0"
  shows "dir_wf (dir_slots D (root_lbas tiny_volume))"
    and "\<forall>x. flat_find nf [0x41] (dir_slots D (root_lbas tiny_volume)) lfn_default \<noteq> Ok x"
    and "0 < n \<Longrightarrow> n \<le> 512 \<Longrightarrow> root_accepts D tiny_volume [0x41] n"
    and "\<forall>c \<in> set (free_clusters tiny_volume). unat c < 0xFF8"
proof -
  let ?fl = "dir_slots D (root_lbas tiny_volume)"
  have fl: "?fl = map (\<lambda>k. ((2051, k * 32), replicate 32 0)) [0..<16]"
    using assms by (auto simp: tiny_root sector_slots_eq sub_def)
  then have z: "\<forall>s \<in> set ?fl. snd s = replicate 32 0" by auto
  obtain s fl' where s: "?fl = s # fl'" "snd s = replicate 32 0" using fl by (auto simp: upt_conv_Cons)
  show "dir_wf ?fl" using z unfolding dir_wf_def is_long_slot_def is_free_slot_def by auto
  show "\<forall>x. flat_find nf [0x41] ?fl lfn_default \<noteq> Ok x"
    unfolding s(1) using s(2) by (cases s) (auto simp: s)
  show "\<forall>c \<in> set (free_clusters tiny_volume). unat c < 0xFF8"
    unfolding free_clusters_tiny set_map set_upt by (auto simp: unat_of_nat)
  have n: "file_clusters tiny_volume n = 1" if "0 < n" "n \<le> 512"
    using that by (cases n) (simp_all add: file_clusters_def tiny_volume_def div_nat_eqI)
  have "length (free_clusters tiny_volume) = 680" unfolding free_clusters_tiny by (simp only: length_map length_upt)
  moreover have "names_for (short_names D (root_lbas tiny_volume)) [0x41] = Ok (0x41 # replicate 10 0x20, [])"
    using s by (simp add: short_names_def slot_bytes_def names_for_def to_short_name_def split_once_dot_def overwrite_def
        to_ascii_uppercase_def flip: replicate_add)
  moreover have "flat_free 1 ?fl [] = Scan_Return [fst s]"
    unfolding s(1) using s(2) by (cases s) (simp add: is_free_slot_def)
  ultimately show "root_accepts D tiny_volume [0x41] n" if "0 < n" "n \<le> 512"
    using n [OF that] that by (simp add: root_accepts_def)
qed

lemma storable_A: "storable_name [0x41]"
  by (simp add: storable_name_def is_valid_lfn_char_def)

theorem create_file_correct_witness:
  "\<exists>i' d' d''. create_file pio_bus [0x41] [1, 2, 3] (tiny_volume, blank_drive) = (Ok (), (i', d'))
     \<and> read_file pio_bus i' [0x41] d' = (Ok [1, 2, 3], d'')"
proof -
  have "pio_store blank_drive 2051 = replicate 512 0" by (simp add: blank_drive_def)
  note e = empty_root [of "pio_store blank_drive", OF this]
  have none: "\<forall>x. fst (find_entry_location_in pio_bus tiny_volume Root [0x41] blank_drive) \<noteq> Ok x"
    using pio.reads_root(3) [OF blank_drive_ready tiny_volume_ok(1), of "[0x41]"] e(2) by (auto simp: pio.reads_def)
  have "length [1, 2, 3 :: u8] < 2 ^ 32" by simp
  from create_file_correct [OF pc.disk_machine_axioms tiny_volume_ok blank_drive_ready e(1) none storable_A this e(4)]
  have "\<exists>i' d'. create_file pio_bus [0x41] [1, 2, 3] (tiny_volume, blank_drive) = (Ok (), (i', d'))
     \<and> (\<exists>d''. read_file pio_bus i' [0x41] d' = (Ok [1, 2, 3], d''))"
    using e(3) by (subst (asm) if_P) (simp add: numeral_3_eq_3, blast)
  then show ?thesis by blast
qed

end
