(* ===== verification/Fat32.thy ===== *)
theory Fat32
  imports Fat12_Files
begin

text \<open>
  Model of \<^verbatim>\<open>fat32.rs\<close>, the read-only FAT32 support. Unlike FAT12 the table is not cached: every
  step along a chain reads a sector. The loops over clusters take fuel; a walk longer than the
  number of 28-bit cluster numbers is in a cycle (\<open>fat32_fuel\<close>), and reading a file of \<open>n\<close> bytes
  takes at most \<open>n\<close> clusters.
\<close>

section \<open>Definitions\<close>

record fat32_info =
  f32_sectors_per_cluster :: u8
  f32_reserved_sector_count :: u16
  f32_num_fats :: u8
  f32_fat_size :: u32
  f32_root_cluster :: u32
  f32_partition_start_lba :: u32

definition fat32_read_bpb :: "'d port_bus \<Rightarrow> partition_entry \<Rightarrow> ('d, fat32_info) io" where
  "fat32_read_bpb bus part =
     io_bind (read_sector bus (start_lba part)) (\<lambda>sector.
     if sector ! 510 \<noteq> 0x55 \<or> sector ! 511 \<noteq> 0xAA
     then io_err ''FAT32: boot sector missing 0x55AA signature''
     else if le16 (sector ! 11) (sector ! 12) \<noteq> 512
     then io_err ''FAT32: only 512-byte sectors are supported''
     else if le16 (sector ! 17) (sector ! 18) \<noteq> 0
     then io_err ''not FAT32 (root_entry_count != 0 means this is FAT12/16)''
     else
       let fat_size = le32 (sector ! 36) (sector ! 37) (sector ! 38) (sector ! 39)
       in if fat_size = 0 then io_err ''FAT32: fat_size_32 is 0 - not a valid FAT32 BPB''
          else io_ret \<lparr>f32_sectors_per_cluster = sector ! 13,
                 f32_reserved_sector_count = le16 (sector ! 14) (sector ! 15), f32_num_fats = sector ! 16,
                 f32_fat_size = fat_size,
                 f32_root_cluster = le32 (sector ! 44) (sector ! 45) (sector ! 46) (sector ! 47),
                 f32_partition_start_lba = start_lba part\<rparr>)"

definition fat32_first_fat_sector :: "fat32_info \<Rightarrow> u32" where
  "fat32_first_fat_sector i = f32_partition_start_lba i + ucast (f32_reserved_sector_count i)"

definition fat32_first_data_sector :: "fat32_info \<Rightarrow> u32" where
  "fat32_first_data_sector i = fat32_first_fat_sector i + ucast (f32_num_fats i) * f32_fat_size i"

definition fat32_cluster_to_lba :: "fat32_info \<Rightarrow> u32 \<Rightarrow> u32" where
  "fat32_cluster_to_lba i cluster =
     fat32_first_data_sector i + (cluster - 2) * ucast (f32_sectors_per_cluster i)"

definition fat32_cluster_sectors :: "fat32_info \<Rightarrow> u32 \<Rightarrow> u32 list" where
  "fat32_cluster_sectors i c =
     map (\<lambda>s. fat32_cluster_to_lba i c + of_nat s) [0..<unat (f32_sectors_per_cluster i)]"

text \<open>The 28-bit entry of a cluster in a sector of the table.\<close>

definition fat32_raw_entry :: "u32 \<Rightarrow> bytes \<Rightarrow> u32" where
  "fat32_raw_entry cluster sector =
     (let k = unat (cluster * 4 mod 512)
      in le32 (sector ! k) (sector ! (k + 1)) (sector ! (k + 2)) (sector ! (k + 3)) AND 0x0FFFFFFF)"

definition fat32_next_cluster :: "'d port_bus \<Rightarrow> fat32_info \<Rightarrow> u32 \<Rightarrow> ('d, u32 option) io" where
  "fat32_next_cluster bus i cluster =
     io_bind (read_sector bus (fat32_first_fat_sector i + cluster * 4 div 512)) (\<lambda>sector.
     let raw = fat32_raw_entry cluster sector
     in if raw = 0 then io_err ''FAT32: cluster chain hit a free (0) entry unexpectedly''
        else if 0x0FFFFFF8 \<le> raw then io_ret None else io_ret (Some raw))"

definition fat32_fuel :: nat where "fat32_fuel = 2 ^ 28"

text \<open>
  The loops decrease a number, not a successor term, so that they evaluate at this fuel.
\<close>

function fat32_list_clusters :: "nat \<Rightarrow> 'd port_bus \<Rightarrow> fat32_info \<Rightarrow> u32 \<Rightarrow> dir_entry list \<Rightarrow> lfn_state \<Rightarrow> ('d, dir_entry list) io" where
  "fat32_list_clusters n bus i c entries lfn d =
     (if n = 0 then (Diverge, d)
      else io_bind (list_sectors bus (fat32_cluster_sectors i c) entries lfn) (\<lambda>(stop, entries', lfn').
        if stop then io_ret entries'
        else io_bind (fat32_next_cluster bus i c) (\<lambda>next.
          case next of None \<Rightarrow> io_ret entries'
          | Some c' \<Rightarrow> fat32_list_clusters (n - 1) bus i c' entries' lfn')) d)"
  by pat_completeness auto
termination
  by (relation "measure (\<lambda>(n, _). n)") auto

definition fat32_list_directory :: "'d port_bus \<Rightarrow> fat32_info \<Rightarrow> u32 \<Rightarrow> ('d, dir_entry list) io" where
  "fat32_list_directory bus i start_cluster = fat32_list_clusters fat32_fuel bus i start_cluster [] lfn_default"

text \<open>The scan of one cluster's sectors for a name: found, known to be absent, or go on.\<close>

fun fat32_find_sectors :: "'d port_bus \<Rightarrow> bytes \<Rightarrow> u32 list \<Rightarrow> lfn_state \<Rightarrow> ('d, (dir_entry outcome, lfn_state) scan) io" where
  "fat32_find_sectors bus name [] lfn = io_ret (Scan_More lfn)"
| "fat32_find_sectors bus name (lba # lbas) lfn =
     io_bind (read_sector bus lba) (\<lambda>buf.
       case find_in_sector ''FAT32: file not found in root directory'' name 0 (chunks 32 buf) lfn of
         Scan_Return r \<Rightarrow> io_ret (Scan_Return (omap snd r))
       | Scan_More lfn' \<Rightarrow> fat32_find_sectors bus name lbas lfn')"

function fat32_find_clusters :: "nat \<Rightarrow> 'd port_bus \<Rightarrow> fat32_info \<Rightarrow> bytes \<Rightarrow> u32 \<Rightarrow> lfn_state \<Rightarrow> ('d, dir_entry) io" where
  "fat32_find_clusters n bus i name c lfn d =
     (if n = 0 then (Diverge, d)
      else io_bind (fat32_find_sectors bus name (fat32_cluster_sectors i c) lfn) (\<lambda>r.
        case r of
          Scan_Return e \<Rightarrow> io_lift e
        | Scan_More lfn' \<Rightarrow> io_bind (fat32_next_cluster bus i c) (\<lambda>next.
            case next of None \<Rightarrow> io_err ''FAT32: file not found in root directory''
            | Some c' \<Rightarrow> fat32_find_clusters (n - 1) bus i name c' lfn')) d)"
  by pat_completeness auto
termination
  by (relation "measure (\<lambda>(n, _). n)") auto

definition fat32_find_entry :: "'d port_bus \<Rightarrow> fat32_info \<Rightarrow> u32 \<Rightarrow> bytes \<Rightarrow> ('d, dir_entry) io" where
  "fat32_find_entry bus i start_cluster name = fat32_find_clusters fat32_fuel bus i name start_cluster lfn_default"

function fat32_read_clusters :: "nat \<Rightarrow> 'd port_bus \<Rightarrow> fat32_info \<Rightarrow> nat \<Rightarrow> u32 \<Rightarrow> bytes \<Rightarrow> ('d, bytes) io" where
  "fat32_read_clusters n bus i fsize c data d =
     (if n = 0 then (Diverge, d)
      else io_bind (read_sectors_upto bus fsize (fat32_cluster_sectors i c) data) (\<lambda>r.
        case r of
          Scan_Return data' \<Rightarrow> io_ret data'
        | Scan_More data' \<Rightarrow> io_bind (fat32_next_cluster bus i c) (\<lambda>next.
            case next of None \<Rightarrow> io_ret data'
            | Some c' \<Rightarrow> fat32_read_clusters (n - 1) bus i fsize c' data')) d)"
  by pat_completeness auto
termination
  by (relation "measure (\<lambda>(n, _). n)") auto

declare fat32_list_clusters.simps [simp del] fat32_find_clusters.simps [simp del] fat32_read_clusters.simps [simp del]

definition fat32_read_file :: "'d port_bus \<Rightarrow> fat32_info \<Rightarrow> bytes \<Rightarrow> ('d, bytes) io" where
  "fat32_read_file bus i name =
     io_bind (fat32_find_entry bus i (f32_root_cluster i) name) (\<lambda>entry.
       if de_is_dir entry then io_err ''FAT32: file not found in root directory''
       else if de_size entry = 0 then io_ret []
       else fat32_read_clusters (unat (de_size entry) + fat32_fuel) bus i (unat (de_size entry))
              (de_start_cluster entry) [])"

section \<open>Chains on the disk\<close>

text \<open>The link of a cluster in the table on the disk, and chains that end.\<close>

definition fat32_fat_lba :: "fat32_info \<Rightarrow> u32 \<Rightarrow> u32" where
  "fat32_fat_lba i c = fat32_first_fat_sector i + c * 4 div 512"

definition fat32_link :: "(u32 \<Rightarrow> bytes) \<Rightarrow> fat32_info \<Rightarrow> u32 \<Rightarrow> u32 option outcome" where
  "fat32_link disk i c =
     (let raw = fat32_raw_entry c (disk (fat32_fat_lba i c))
      in if raw = 0 then Err ''FAT32: cluster chain hit a free (0) entry unexpectedly''
         else if 0x0FFFFFF8 \<le> raw then Ok None else Ok (Some raw))"

fun fat32_linked :: "(u32 \<Rightarrow> bytes) \<Rightarrow> fat32_info \<Rightarrow> u32 list \<Rightarrow> bool" where
  "fat32_linked disk i [] \<longleftrightarrow> False"
| "fat32_linked disk i [c] \<longleftrightarrow> fat32_link disk i c = Ok None"
| "fat32_linked disk i (c # c' # cs) \<longleftrightarrow> fat32_link disk i c = Ok (Some c') \<and> fat32_linked disk i (c' # cs)"

text \<open>A cluster whose table entry and sectors are below 2^28.\<close>

definition fat32_addressable :: "fat32_info \<Rightarrow> u32 \<Rightarrow> bool" where
  "fat32_addressable i c \<longleftrightarrow> unat (fat32_fat_lba i c) < 2 ^ 28
     \<and> (\<forall>lba \<in> set (fat32_cluster_sectors i c). unat lba < 2 ^ 28)"

definition fat32_chain_lbas :: "fat32_info \<Rightarrow> u32 list \<Rightarrow> u32 list" where
  "fat32_chain_lbas i cs = concat (map (fat32_cluster_sectors i) cs)"

lemma fat32_chain_lbas_Cons [simp]: "fat32_chain_lbas i (c # cs) = fat32_cluster_sectors i c @ fat32_chain_lbas i cs"
  by (simp add: fat32_chain_lbas_def)

lemma dir_slots_append: "dir_slots D (xs @ ys) = dir_slots D xs @ dir_slots D ys"
  by (induction xs) simp_all

text \<open>The search through a list of slots, without the place of the entry.\<close>

definition slot_search :: "bytes \<Rightarrow> slot list \<Rightarrow> lfn_state \<Rightarrow> dir_entry outcome" where
  "slot_search name fl lfn = omap (snd \<circ> snd) (flat_find ''FAT32: file not found in root directory'' name fl lfn)"

context ata_disk
begin

lemma reads_next32:
  assumes "ready d" "fat32_addressable i c"
  shows "reads (fat32_next_cluster bus i c) d (fat32_link (sects d) i c)"
  unfolding fat32_next_cluster_def fat32_link_def Let_def fat32_fat_lba_def [symmetric]
  using assms by (intro reads_bind [OF reads_sector]) (auto simp: fat32_addressable_def)

lemma reads_find_sectors32:
  "ready d \<Longrightarrow> \<forall>lba \<in> set lbas. unat lba < 2 ^ 28 \<Longrightarrow>
   \<exists>r. reads (fat32_find_sectors bus name lbas lfn) d (Ok r)
     \<and> (\<forall>rest. slot_search name (dir_slots (sects d) lbas @ rest) lfn =
         (case r of Scan_Return x \<Rightarrow> x | Scan_More lfn' \<Rightarrow> slot_search name rest lfn'))"
proof (induction lbas arbitrary: d lfn)
  case Nil
  then show ?case by (intro exI [of _ "Scan_More lfn"]) (auto simp: reads_def)
next
  case (Cons lba lbas)
  let ?nf = "''FAT32: file not found in root directory''"
  let ?r = "find_in_sector ?nf name 0 (chunks 32 (sects d lba)) lfn"
  have eq: "flat_find ?nf name (dir_slots (sects d) (lba # lbas) @ rest) lfn =
      (case ?r of Scan_Return r \<Rightarrow> omap (\<lambda>(off, e). (lba, off, e)) r
       | Scan_More lfn' \<Rightarrow> flat_find ?nf name (dir_slots (sects d) lbas @ rest) lfn')" for rest
    unfolding dir_slots_simps append_assoc sector_locs [OF Cons.prems(1)] by (rule flat_find_sector) simp
  obtain d1 where d1: "read_sector bus lba d = (Ok (sects d lba), d1)" "ready d1" "sects d1 = sects d"
    using read_law [OF Cons.prems(1)] Cons.prems(2) by auto
  show ?case
  proof (cases ?r)
    case (Scan_Return r)
    have "omap (snd \<circ> snd) (omap (\<lambda>(off, e). (lba, off, e)) r) = omap snd r" by (cases r) auto
    then show ?thesis
      using Scan_Return d1 eq
      by (intro exI [of _ "Scan_Return (omap snd r)"]) (auto simp: reads_def io_bind_def slot_search_def)
  next
    case (Scan_More lfn')
    obtain r where "reads (fat32_find_sectors bus name lbas lfn') d1 (Ok r)"
        "\<forall>rest. slot_search name (dir_slots (sects d1) lbas @ rest) lfn' =
         (case r of Scan_Return x \<Rightarrow> x | Scan_More lfn' \<Rightarrow> slot_search name rest lfn')"
      using Cons.IH [OF d1(2), of lfn'] Cons.prems(2) by auto
    then show ?thesis
      using Scan_More d1 eq by (intro exI [of _ r]) (auto simp: reads_def io_bind_def slot_search_def)
  qed
qed

lemma reads_find_clusters32:
  "ready d \<Longrightarrow> fat32_linked (sects d) i cs \<Longrightarrow> \<forall>c \<in> set cs. fat32_addressable i c \<Longrightarrow> length cs \<le> n \<Longrightarrow>
   reads (fat32_find_clusters n bus i name (hd cs) lfn) d (slot_search name (dir_slots (sects d) (fat32_chain_lbas i cs)) lfn)"
proof (induction cs arbitrary: n d lfn)
  case (Cons c cs)
  let ?rest = "dir_slots (sects d) (fat32_chain_lbas i cs)"
  have n: "n \<noteq> 0" using Cons.prems(4) by auto
  have ad: "fat32_addressable i c" using Cons.prems(3) by simp
  obtain r d1 where r: "fat32_find_sectors bus name (fat32_cluster_sectors i c) lfn d = (Ok r, d1)" "ready d1" "sects d1 = sects d"
      "slot_search name (dir_slots (sects d) (fat32_cluster_sectors i c) @ ?rest) lfn =
        (case r of Scan_Return x \<Rightarrow> x | Scan_More lfn' \<Rightarrow> slot_search name ?rest lfn')"
    using reads_find_sectors32 [OF Cons.prems(1), of "fat32_cluster_sectors i c" name lfn] ad
    by (auto simp: reads_def fat32_addressable_def)
  obtain d2 where d2: "fat32_next_cluster bus i c d1 = (fat32_link (sects d) i c, d2)" "ready d2" "sects d2 = sects d"
    using reads_next32 [OF r(2) ad] r(3) by (auto simp: reads_def)
  show ?case
  proof (cases r)
    case (Scan_Return x)
    then show ?thesis
      using n r by (simp add: reads_def fat32_find_clusters.simps [of n] io_bind_def dir_slots_append)
  next
    case (Scan_More lfn')
    show ?thesis
    proof (cases cs)
      case Nil
      then have "fat32_link (sects d) i c = Ok None" using Cons.prems(2) by simp
      then show ?thesis
        using n r d2 Scan_More Nil
        by (simp add: reads_def fat32_find_clusters.simps [of n] io_bind_def dir_slots_append slot_search_def
            fat32_chain_lbas_def)
    next
      case (Cons c' cs')
      then have l: "fat32_link (sects d) i c = Ok (Some c')" "fat32_linked (sects d2) i cs"
        using Cons.prems(2) d2(3) by simp_all
      have "reads (fat32_find_clusters (n - 1) bus i name (hd cs) lfn') d2
          (slot_search name (dir_slots (sects d2) (fat32_chain_lbas i cs)) lfn')"
        using Cons.prems(3,4) by (intro Cons.IH [OF d2(2) l(2)]) auto
      then show ?thesis
        using n r d2 Scan_More l(1) Cons
        by (auto simp: reads_def fat32_find_clusters.simps [of n] io_bind_def dir_slots_append)
    qed
  qed
qed simp

lemma reads_read_clusters32:
  "ready d \<Longrightarrow> fat32_linked (sects d) i cs \<Longrightarrow> \<forall>c \<in> set cs. fat32_addressable i c \<Longrightarrow> length cs \<le> n \<Longrightarrow> length acc < m \<Longrightarrow>
   reads (fat32_read_clusters n bus i m (hd cs) acc) d
     (Ok (acc @ take (m - length acc) (concat (map (sects d) (fat32_chain_lbas i cs)))))"
proof (induction cs arbitrary: n d acc)
  case (Cons c cs)
  let ?rest = "concat (map (sects d) (fat32_chain_lbas i cs))" and ?cb = "concat (map (sects d) (fat32_cluster_sectors i c))"
  have n: "n \<noteq> 0" using Cons.prems(4) by auto
  have ad: "fat32_addressable i c" using Cons.prems(3) by simp
  have cb: "length ?cb = 512 * length (fat32_cluster_sectors i c)"
    by (simp add: length_concat comp_def sector_size [OF Cons.prems(1)] sum_list_triv)
  let ?r = "if m \<le> length acc + 512 * length (fat32_cluster_sectors i c)
    then Scan_Return (acc @ take (m - length acc) ?cb) else Scan_More (acc @ ?cb)"
  obtain d1 where r: "read_sectors_upto bus m (fat32_cluster_sectors i c) acc d = (Ok ?r, d1)" "ready d1" "sects d1 = sects d"
    using reads_sectors_upto [OF Cons.prems(1) _ Cons.prems(5), of "fat32_cluster_sectors i c"] ad
    by (auto simp: reads_def fat32_addressable_def)
  obtain d2 where d2: "fat32_next_cluster bus i c d1 = (fat32_link (sects d) i c, d2)" "ready d2" "sects d2 = sects d"
    using reads_next32 [OF r(2) ad] r(3) by (auto simp: reads_def)
  show ?case
  proof (cases "m \<le> length acc + length ?cb")
    case True
    then show ?thesis
      using n r cb by (simp add: reads_def fat32_read_clusters.simps [of n] io_bind_def)
  next
    case False
    show ?thesis
    proof (cases cs)
      case Nil
      then have "fat32_link (sects d) i c = Ok None" using Cons.prems(2) by simp
      then show ?thesis
        using n r d2 False Nil cb
        by (simp add: reads_def fat32_read_clusters.simps [of n] io_bind_def fat32_chain_lbas_def)
    next
      case (Cons c' cs')
      then have l: "fat32_link (sects d) i c = Ok (Some c')" "fat32_linked (sects d2) i cs"
        using Cons.prems(2) d2(3) by simp_all
      have "reads (fat32_read_clusters (n - 1) bus i m (hd cs) (acc @ ?cb)) d2
          (Ok ((acc @ ?cb) @ take (m - length (acc @ ?cb)) (concat (map (sects d2) (fat32_chain_lbas i cs)))))"
        using Cons.prems(3,4) False by (intro Cons.IH [OF d2(2) l(2)]) auto
      then show ?thesis
        using n r d2 False l(1) Cons cb
        by (auto simp: reads_def fat32_read_clusters.simps [of n] io_bind_def)
    qed
  qed
qed simp

end

section \<open>Property\<close>

text \<open>
  C23: Reading a FAT32 file. When the root directory is a chain of addressable clusters that
  ends, the search finds what a search through all its slots in chain order finds; for a file whose
  cluster chain ends as well, \<^verbatim>\<open>read_file\<close> returns the first \<open>size\<close> bytes of the chain (nothing for an
  empty file), a directory and a name without entry are errors, and no sector changes.
\<close>

theorem fat32_read_file_correct:
  assumes "ata_disk bus sects ready" "ready d"
    "fat32_linked (sects d) i rcs" "hd rcs = f32_root_cluster i" "\<forall>c \<in> set rcs. fat32_addressable i c" "length rcs \<le> fat32_fuel"
    "\<And>e. slot_search name (dir_slots (sects d) (fat32_chain_lbas i rcs)) lfn_default = Ok e \<Longrightarrow> \<not> de_is_dir e \<Longrightarrow> de_size e \<noteq> 0 \<Longrightarrow>
       fat32_linked (sects d) i cs \<and> hd cs = de_start_cluster e \<and> (\<forall>c \<in> set cs. fat32_addressable i c) \<and> length cs \<le> fat32_fuel"
  shows "\<exists>d'. fat32_read_file bus i name d =
    (obind (slot_search name (dir_slots (sects d) (fat32_chain_lbas i rcs)) lfn_default) (\<lambda>e.
       if de_is_dir e then Err ''FAT32: file not found in root directory''
       else if de_size e = 0 then Ok []
       else Ok (take (unat (de_size e)) (concat (map (sects d) (fat32_chain_lbas i cs))))), d') \<and> sects d' = sects d"
proof -
  note r = ata_disk.reads_def [OF assms(1)]
  let ?s = "slot_search name (dir_slots (sects d) (fat32_chain_lbas i rcs)) lfn_default"
  obtain d1 where d1: "fat32_find_entry bus i (f32_root_cluster i) name d = (?s, d1)" "ready d1" "sects d1 = sects d"
    using ata_disk.reads_find_clusters32 [OF assms(1-3,5,6), of name lfn_default] assms(4)
    by (auto simp: r fat32_find_entry_def)
  show ?thesis
  proof (cases ?s)
    case (Ok e)
    note run = fat32_read_file_def io_bind_def
    consider "de_is_dir e" | "\<not> de_is_dir e" "de_size e = 0" | "\<not> de_is_dir e" "de_size e \<noteq> 0" by blast
    then show ?thesis
    proof cases
      case 3
      let ?n = "unat (de_size e)"
      have cs: "fat32_linked (sects d1) i cs" "hd cs = de_start_cluster e" "\<forall>c \<in> set cs. fat32_addressable i c" "length cs \<le> ?n + fat32_fuel"
        using assms(7) [OF Ok 3] d1(3) by auto
      have "length ([] :: bytes) < ?n" using 3(2) by (simp add: word_unat_eq_iff)
      from ata_disk.reads_read_clusters32 [OF assms(1) d1(2) cs(1,3,4) this]
      show ?thesis using Ok 3 d1 cs(2) by (auto simp: run r)
    qed (use Ok d1 in \<open>auto simp: run\<close>)
  qed (use d1 in \<open>auto simp: fat32_read_file_def io_bind_def\<close>)
qed

definition fat32_demo :: fat32_info where
  "fat32_demo = \<lparr>f32_sectors_per_cluster = 1, f32_reserved_sector_count = 1, f32_num_fats = 1, f32_fat_size = 1,
     f32_root_cluster = 2, f32_partition_start_lba = 0\<rparr>"

definition fat32_demo_drive :: pio_drive where
  "fat32_demo_drive = blank_drive\<lparr>pio_store := (\<lambda>lba.
     if lba = 1 then replicate 8 0 @ [0xFF, 0xFF, 0xFF, 0x0F, 0xFF, 0xFF, 0xFF, 0x0F] @ replicate 496 0
     else if lba = 2 then build_dir_entry (0x41 # replicate 10 0x20) 0x20 3 5 0 0 @ replicate 480 0
     else if lba = 3 then [1, 2, 3, 4, 5] @ replicate 507 0
     else replicate 512 0)\<rparr>"

lemma fat32_demo_chains:
  "fat32_linked (pio_store fat32_demo_drive) fat32_demo [2]" "fat32_linked (pio_store fat32_demo_drive) fat32_demo [3]"
  "fat32_addressable fat32_demo 2" "fat32_addressable fat32_demo 3"
  "fat32_chain_lbas fat32_demo [2] = [2]" "fat32_chain_lbas fat32_demo [3] = [3]"
  by (simp_all add: fat32_link_def fat32_fat_lba_def fat32_raw_entry_def fat32_first_fat_sector_def fat32_demo_def
      fat32_demo_drive_def nth_append le32_def be32_def fat32_addressable_def fat32_cluster_sectors_def fat32_cluster_to_lba_def
      fat32_first_data_sector_def fat32_chain_lbas_def Let_def)

lemma fat32_demo_entry:
  "slot_search [0x41] (dir_slots (pio_store fat32_demo_drive) [2]) lfn_default =
     Ok \<lparr>de_name = [0x41], de_is_dir = False, de_size = 5, de_start_cluster = 3, de_fat_time = 0, de_fat_date = 0\<rparr>"
proof -
  have ne: "name_entries [0x41] (0x41 # replicate 10 0x20) []"
    by (simp add: name_entries_def to_short_name_def split_once_dot_def overwrite_def to_ascii_uppercase_def flip: replicate_add)
  let ?e = "build_dir_entry (0x41 # replicate 10 0x20) 0x20 3 5 0 0"
  have l: "length ?e = 32" by (simp add: build_dir_entry_def)
  have m: "fst (short_entry_if_matches ?e lfn_default [0x41]) =
      Some \<lparr>de_name = [0x41], de_is_dir = False, de_size = 5, de_start_cluster = 3, de_fat_time = 0, de_fat_date = 0\<rparr>"
    using match_new_entry [OF ne, of "0x20" lfn_default 3 5 0 0] by (simp add: shown_name_def to_ascii_uppercase_def lfn_default_def)
  have "chunks 32 (pio_store fat32_demo_drive 2) = ?e # chunks 32 (replicate 480 0)"
    using chunks_append [OF l] by (simp add: fat32_demo_drive_def)
  then have "sector_slots (pio_store fat32_demo_drive) 2 = ((2, 0), ?e) # zip (map (\<lambda>k. (2, k * 32)) [1..<16]) (chunks 32 (replicate 480 0))"
    by (simp add: sector_slots_def upt_conv_Cons)
  then show ?thesis
    using m build_dir_entry_fields [of "0x41 # replicate 10 0x20" "0x20" 3 5 0 0]
    by (auto simp: slot_search_def split: prod.splits)
qed

theorem fat32_read_file_correct_witness:
  "fst (fat32_read_file pio_bus fat32_demo [0x41] fat32_demo_drive) = Ok [1, 2, 3, 4, 5]"
proof -
  have rdy: "pio_ready fat32_demo_drive"
    using blank_drive_ready by (simp add: pio_ready_def fat32_demo_drive_def build_dir_entry_def)
  have "\<exists>d'. fat32_read_file pio_bus fat32_demo [0x41] fat32_demo_drive =
    (obind (slot_search [0x41] (dir_slots (pio_store fat32_demo_drive) (fat32_chain_lbas fat32_demo [2])) lfn_default) (\<lambda>e.
       if de_is_dir e then Err ''FAT32: file not found in root directory''
       else if de_size e = 0 then Ok []
       else Ok (take (unat (de_size e)) (concat (map (pio_store fat32_demo_drive) (fat32_chain_lbas fat32_demo [3]))))), d')
     \<and> pio_store d' = pio_store fat32_demo_drive"
    using fat32_demo_chains fat32_demo_entry
    by (intro fat32_read_file_correct [OF pio.ata_disk_axioms rdy]) (auto simp: fat32_demo_def fat32_fuel_def)
  then show ?thesis
    using fat32_demo_chains fat32_demo_entry by (auto simp: fat32_demo_drive_def)
qed

end
