(* ===== verification/Vga_Buffer.thy ===== *)
theory Vga_Buffer
  imports Prelude
begin

text \<open>
  Model of \<^verbatim>\<open>vga_buffer.rs\<close>: the 80 by 25 text screen written on its last row. The video memory is
  a list of rows of cells; the volatile reads and writes are list accesses. A position outside the
  screen would be a panic of the source, and the invariant \<open>writer_ok\<close> keeps every access inside.
\<close>

section \<open>Definitions\<close>

datatype color = Black | Blue | Green | Cyan | Red | Magenta | Brown | LightGray | DarkGray | LightBlue
  | LightGreen | LightCyan | LightRed | Pink | Yellow | White

definition color_u8 :: "color \<Rightarrow> u8" where
  "color_u8 c = (case c of Black \<Rightarrow> 0 | Blue \<Rightarrow> 1 | Green \<Rightarrow> 2 | Cyan \<Rightarrow> 3 | Red \<Rightarrow> 4 | Magenta \<Rightarrow> 5 | Brown \<Rightarrow> 6
     | LightGray \<Rightarrow> 7 | DarkGray \<Rightarrow> 8 | LightBlue \<Rightarrow> 9 | LightGreen \<Rightarrow> 10 | LightCyan \<Rightarrow> 11 | LightRed \<Rightarrow> 12
     | Pink \<Rightarrow> 13 | Yellow \<Rightarrow> 14 | White \<Rightarrow> 15)"

definition color_code_new :: "color \<Rightarrow> color \<Rightarrow> u8" where
  "color_code_new foreground background = push_bit 4 (color_u8 background) OR color_u8 foreground"

record screen_char =
  ascii_character :: u8
  color_code :: u8

definition BUFFER_HEIGHT :: nat where "BUFFER_HEIGHT = 25"
definition BUFFER_WIDTH :: nat where "BUFFER_WIDTH = 80"

type_synonym screen = "screen_char list list"

record writer =
  column_position :: nat
  wr_color_code :: u8
  buffer :: screen

definition put_char :: "nat \<Rightarrow> nat \<Rightarrow> screen_char \<Rightarrow> screen \<Rightarrow> screen" where
  "put_char row col c b = b[row := (b ! row)[col := c]]"

definition copy_row :: "nat \<Rightarrow> screen \<Rightarrow> screen" where
  "copy_row row b = fold (\<lambda>col b. put_char (row - 1) col (b ! row ! col) b) [0..<BUFFER_WIDTH] b"

definition clear_row :: "nat \<Rightarrow> writer \<Rightarrow> writer" where
  "clear_row row w =
     (let blank = \<lparr>ascii_character = 0x20, color_code = wr_color_code w\<rparr>
      in w\<lparr>buffer := fold (\<lambda>col. put_char row col blank) [0..<BUFFER_WIDTH] (buffer w)\<rparr>)"

definition new_line :: "writer \<Rightarrow> writer" where
  "new_line w =
     (let w' = clear_row (BUFFER_HEIGHT - 1) (w\<lparr>buffer := fold copy_row [1..<BUFFER_HEIGHT] (buffer w)\<rparr>)
      in w'\<lparr>column_position := 0\<rparr>)"

definition write_byte :: "u8 \<Rightarrow> writer \<Rightarrow> writer" where
  "write_byte byte w =
     (if byte = 0x0A then new_line w
      else
        let w' = (if BUFFER_WIDTH \<le> column_position w then new_line w else w);
            row = BUFFER_HEIGHT - 1;
            col = column_position w'
        in w'\<lparr>buffer := put_char row col \<lparr>ascii_character = byte, color_code = wr_color_code w'\<rparr> (buffer w'),
              column_position := col + 1\<rparr>)"

definition write_string :: "bytes \<Rightarrow> writer \<Rightarrow> writer" where
  "write_string s w =
     fold (\<lambda>byte. if 0x20 \<le> byte \<and> byte \<le> 0x7E \<or> byte = 0x0A then write_byte byte else write_byte 0xFE) s w"

definition clear_screen :: "writer \<Rightarrow> writer" where
  "clear_screen w = (fold clear_row [0..<BUFFER_HEIGHT] w)\<lparr>column_position := 0\<rparr>"

definition backspace :: "writer \<Rightarrow> writer" where
  "backspace w =
     (if 0 < column_position w
      then let col = column_position w - 1
           in w\<lparr>column_position := col,
                buffer := put_char (BUFFER_HEIGHT - 1) col
                  \<lparr>ascii_character = 0x20, color_code = wr_color_code w\<rparr> (buffer w)\<rparr>
      else w)"

definition cursor_left :: "writer \<Rightarrow> writer" where
  "cursor_left w = (if 0 < column_position w then w\<lparr>column_position := column_position w - 1\<rparr> else w)"

definition cursor_right :: "writer \<Rightarrow> writer" where
  "cursor_right w =
     (if column_position w < BUFFER_WIDTH then w\<lparr>column_position := column_position w + 1\<rparr> else w)"

section \<open>The invariant and the meaning of the loops\<close>

definition cell :: "writer \<Rightarrow> u8 \<Rightarrow> screen_char" where
  "cell w byte = \<lparr>ascii_character = byte, color_code = wr_color_code w\<rparr>"

definition writer_ok :: "writer \<Rightarrow> bool" where
  "writer_ok w \<longleftrightarrow> column_position w \<le> 80 \<and> length (buffer w) = 25 \<and> (\<forall>r \<in> set (buffer w). length r = 80)"

lemma writer_ok_row: "writer_ok w \<Longrightarrow> length (buffer w) = 25" "writer_ok w \<Longrightarrow> row < 25 \<Longrightarrow> length (buffer w ! row) = 80"
  by (simp_all add: writer_ok_def)

lemma fold_put_row:
  "row < length b \<Longrightarrow> n \<le> length (b ! row) \<Longrightarrow>
   fold (\<lambda>col. put_char row col c) [0..<n] b = b[row := replicate n c @ drop n (b ! row)]"
proof (induction n)
  case (Suc n)
  then have "drop n (b ! row) = b ! row ! n # drop (Suc n) (b ! row)" by (simp add: Cons_nth_drop_Suc)
  then show ?case
    using Suc by (simp add: put_char_def list_update_append replicate_append_same [symmetric] del: replicate_append_same)
qed simp

lemma fold_copy_row:
  "row < length b \<Longrightarrow> prev < length b \<Longrightarrow> prev \<noteq> row \<Longrightarrow> n \<le> length (b ! prev) \<Longrightarrow> n \<le> length (b ! row) \<Longrightarrow>
   fold (\<lambda>col b. put_char prev col (b ! row ! col) b) [0..<n] b = b[prev := take n (b ! row) @ drop n (b ! prev)]"
proof (induction n)
  case (Suc n)
  then have "drop n (b ! prev) = b ! prev ! n # drop (Suc n) (b ! prev)" by (simp add: Cons_nth_drop_Suc)
  then show ?case
    using Suc by (simp add: put_char_def list_update_append take_Suc_conv_app_nth)
qed simp

lemma copy_row_eq:
  assumes "writer_ok w" "0 < row" "row < 25"
  shows "copy_row row (buffer w) = (buffer w)[row - 1 := buffer w ! row]"
  using assms unfolding copy_row_def by (subst fold_copy_row) (auto simp: writer_ok_row BUFFER_WIDTH_def)

lemma fold_shift:
  "(\<And>b row. length b = m \<Longrightarrow> \<forall>r \<in> set b. P r \<Longrightarrow> 0 < row \<Longrightarrow> row < m \<Longrightarrow> f row b = b[row - 1 := b ! row]) \<Longrightarrow>
   length b = m \<Longrightarrow> \<forall>r \<in> set b. P r \<Longrightarrow> k < m \<Longrightarrow> fold f [1..<Suc k] b = take k (tl b) @ drop k b"
proof (induction k)
  case 0
  then show ?case by simp
next
  case (Suc k)
  let ?b = "take k (tl b) @ drop k b"
  have len: "length ?b = m" using Suc.prems by simp
  have lt: "length (take k (tl b)) = k" using Suc.prems by simp
  have d: "drop k b = b ! k # b ! Suc k # drop (Suc (Suc k)) b" "drop (Suc k) b = b ! Suc k # drop (Suc (Suc k)) b"
    using Suc.prems by (simp_all add: Cons_nth_drop_Suc)
  have "\<forall>r \<in> set ?b. P r"
    using Suc.prems(3) by (auto dest!: in_set_takeD in_set_dropD) (metis list.set_sel(2) tl_Nil)
  then have "f (Suc k) ?b = ?b[k := ?b ! Suc k]" using Suc.prems(1) [OF len] Suc.prems(4) by simp
  also have "\<dots> = take k (tl b) @ b ! Suc k # b ! Suc k # drop (Suc (Suc k)) b"
    unfolding d(1) list_update_append nth_append lt by simp
  also have "\<dots> = take (Suc k) (tl b) @ drop (Suc k) b"
    using Suc.prems d(2) by (simp add: take_Suc_conv_app_nth nth_tl)
  finally show ?case using Suc by simp
qed

lemma new_line_eq:
  assumes "writer_ok w"
  shows "new_line w = w\<lparr>buffer := tl (buffer w) @ [replicate 80 (cell w 0x20)], column_position := 0\<rparr>"
proof -
  have l: "length (buffer w) = 25" "\<forall>r \<in> set (buffer w). length r = 80" using assms by (simp_all add: writer_ok_def)
  have "fold copy_row [1..<Suc 24] (buffer w) = take 24 (tl (buffer w)) @ drop 24 (buffer w)"
  proof (rule fold_shift [where m = 25 and P = "\<lambda>r. length r = 80"])
    fix b :: screen and row :: nat
    assume "length b = 25" "\<forall>r \<in> set b. length r = 80" "0 < row" "row < 25"
    then show "copy_row row b = b[row - 1 := b ! row]"
      using copy_row_eq [of "w\<lparr>buffer := b, column_position := 0\<rparr>" row] by (simp add: writer_ok_def)
  qed (use l in auto)
  moreover have "drop 24 (buffer w) = [buffer w ! 24]"
    using l(1) Cons_nth_drop_Suc [of 24 "buffer w"] by simp
  ultimately have b: "fold copy_row [1..<25] (buffer w) = tl (buffer w) @ [buffer w ! 24]" using l by simp
  have "length (buffer w ! 24) = 80" using l by simp
  then show ?thesis
    using l b fold_put_row [of 24 "tl (buffer w) @ [buffer w ! 24]" 80 "cell w 0x20"]
    by (simp add: new_line_def clear_row_def BUFFER_HEIGHT_def BUFFER_WIDTH_def cell_def nth_append list_update_append Let_def
        del: upt_rec_numeral)
qed

text \<open>The operations that stay on the last row.\<close>

definition with_row :: "writer \<Rightarrow> screen_char list \<Rightarrow> nat \<Rightarrow> writer" where
  "with_row w r c = w\<lparr>buffer := (buffer w)[24 := r], column_position := c\<rparr>"

definition printable :: "u8 \<Rightarrow> bool" where
  "printable b \<longleftrightarrow> 0x20 \<le> b \<and> b \<le> 0x7E"

lemma printable_not_newline: "printable b \<Longrightarrow> b \<noteq> 0x0A"
  by (auto simp: printable_def)

lemma with_row_simps [simp]:
  "column_position (with_row w r c) = c" "wr_color_code (with_row w r c) = wr_color_code w"
  "with_row (with_row w r c) r' c' = with_row w r' c'" "cell (with_row w r c) = cell w"
  "length (buffer (with_row w r c)) = length (buffer w)" "i \<noteq> 24 \<Longrightarrow> buffer (with_row w r c) ! i = buffer w ! i"
  by (auto simp: with_row_def cell_def fun_eq_iff)

lemma with_row_buffer [simp]: "writer_ok w \<Longrightarrow> buffer (with_row w r c) ! 24 = r"
  by (simp add: with_row_def writer_ok_row)

lemma with_row_same: "with_row w (buffer w ! 24) (column_position w) = w"
  by (simp add: with_row_def)

lemma writer_ok_with_row: "writer_ok w \<Longrightarrow> length r = 80 \<Longrightarrow> c \<le> 80 \<Longrightarrow> writer_ok (with_row w r c)"
  by (auto simp: with_row_def writer_ok_def dest: set_update_subset_insert [THEN subsetD])

lemma write_byte_in_row:
  "writer_ok w \<Longrightarrow> byte \<noteq> 0x0A \<Longrightarrow> column_position w < 80 \<Longrightarrow>
   write_byte byte w = with_row w ((buffer w ! 24)[column_position w := cell w byte]) (column_position w + 1)"
  by (simp add: write_byte_def with_row_def put_char_def cell_def BUFFER_WIDTH_def BUFFER_HEIGHT_def Let_def)

lemma backspace_in_row:
  "0 < column_position w \<Longrightarrow>
   backspace w = with_row w ((buffer w ! 24)[column_position w - 1 := cell w 0x20]) (column_position w - 1)"
  by (simp add: backspace_def with_row_def put_char_def cell_def BUFFER_HEIGHT_def Let_def)

lemma write_string_append: "write_string (s @ t) w = write_string t (write_string s w)"
  by (simp add: write_string_def)

lemma write_string_in_row:
  "writer_ok w \<Longrightarrow> list_all printable s \<Longrightarrow> buffer w ! 24 = pre @ rest \<Longrightarrow> column_position w = length pre \<Longrightarrow>
   length pre + length s \<le> 80 \<Longrightarrow>
   write_string s w = with_row w (pre @ map (cell w) s @ drop (length s) rest) (length pre + length s)"
proof (induction s arbitrary: w pre rest)
  case Nil
  then show ?case using with_row_same [of w] by (simp add: write_string_def)
next
  case (Cons b s)
  have l: "length (pre @ rest) = 80" using Cons.prems(1,3) writer_ok_row(2) [of w 24] by simp
  then obtain r rest' where r: "rest = r # rest'" using Cons.prems(5) by (cases rest) auto
  let ?w = "with_row w (pre @ cell w b # rest') (length pre + 1)"
  have b: "printable b" "b \<noteq> 0x0A" using Cons.prems(2) printable_not_newline by auto
  have "write_byte b w = ?w"
    using write_byte_in_row [OF Cons.prems(1) b(2)] Cons.prems r by simp
  then have "write_string (b # s) w = write_string s ?w"
    using b(1) by (simp add: write_string_def printable_def)
  also have "\<dots> = with_row ?w ((pre @ [cell w b]) @ map (cell ?w) s @ drop (length s) rest') (length (pre @ [cell w b]) + length s)"
    using Cons.prems l r by (intro Cons.IH) (auto intro: writer_ok_with_row)
  finally show ?case using r by simp
qed

lemma backspaces_in_row:
  "writer_ok w \<Longrightarrow> buffer w ! 24 = pre @ mid @ post \<Longrightarrow> column_position w = length pre + length mid \<Longrightarrow>
   (backspace ^^ length mid) w = with_row w (pre @ replicate (length mid) (cell w 0x20) @ post) (length pre)"
proof (induction mid arbitrary: w post rule: rev_induct)
  case Nil
  then show ?case using with_row_same [of w] by simp
next
  case (snoc m mid)
  let ?w = "with_row w (pre @ mid @ cell w 0x20 # post) (length pre + length mid)"
  have "backspace w = ?w"
    using backspace_in_row [of w] snoc.prems by (simp add: list_update_append)
  moreover have "length (pre @ (mid @ [m]) @ post) = 80" using snoc.prems writer_ok_row(2) [of w 24] by simp
  then have "writer_ok ?w" using snoc.prems by (intro writer_ok_with_row) auto
  ultimately show ?case
    using snoc.IH [of ?w "cell w 0x20 # post"] snoc.prems
    by (simp add: funpow_swap1 replicate_append_same [symmetric] del: funpow.simps(2) replicate_append_same)
      (simp add: funpow_swap1)
qed

lemma cursor_right_times:
  "column_position w + n \<le> 80 \<Longrightarrow> (cursor_right ^^ n) w = w\<lparr>column_position := column_position w + n\<rparr>"
  by (induction n) (auto simp: cursor_right_def BUFFER_WIDTH_def)

lemma cursor_left_times:
  "n \<le> column_position w \<Longrightarrow> (cursor_left ^^ n) w = w\<lparr>column_position := column_position w - n\<rparr>"
  by (induction n) (auto simp: cursor_left_def)

section \<open>The screen as a terminal\<close>

text \<open>
  An unbounded terminal: the completed rows and the cells of the line being written. The screen
  shows the last 24 completed rows and the current line, padded with blanks.
\<close>

type_synonym terminal = "screen \<times> screen_char list"

definition term_newline :: "screen_char \<Rightarrow> terminal \<Rightarrow> terminal" where
  "term_newline blank t = (case t of (rows, cur) \<Rightarrow> (rows @ [cur @ replicate (80 - length cur) blank], []))"

definition term_put :: "u8 \<Rightarrow> u8 \<Rightarrow> terminal \<Rightarrow> terminal" where
  "term_put color byte t =
     (let blank = \<lparr>ascii_character = 0x20, color_code = color\<rparr>
      in if byte = 0x0A then term_newline blank t
         else let (rows, cur) = (if length (snd t) = 80 then term_newline blank t else t)
              in (rows, cur @ [\<lparr>ascii_character = byte, color_code = color\<rparr>]))"

definition terminal_shows :: "writer \<Rightarrow> terminal \<Rightarrow> bool" where
  "terminal_shows w t \<longleftrightarrow>
     24 \<le> length (fst t) \<and> (\<forall>r \<in> set (fst t). length r = 80) \<and> length (snd t) \<le> 80
     \<and> column_position w = length (snd t)
     \<and> buffer w = drop (length (fst t) - 24) (fst t) @ [snd t @ replicate (80 - length (snd t)) (cell w 0x20)]"

text \<open>The byte \<open>write_string\<close> shows for a byte of the text.\<close>

definition shown_byte :: "u8 \<Rightarrow> u8" where
  "shown_byte b = (if printable b \<or> b = 0x0A then b else 0xFE)"

lemma terminal_shows_ok: "terminal_shows w t \<Longrightarrow> writer_ok w"
  by (auto simp: terminal_shows_def writer_ok_def dest: in_set_dropD)

lemma terminal_newline:
  assumes "terminal_shows w t"
  shows "terminal_shows (new_line w) (term_newline (cell w 0x20) t)"
proof -
  obtain rows cur where t: "t = (rows, cur)" by (cases t)
  have "tl (buffer w) = drop (length rows - 23) (rows @ [cur @ replicate (80 - length cur) (cell w 0x20)])"
  proof -
    have "drop (length rows - 24) rows \<noteq> []" "Suc (length rows - 24) = length rows - 23"
      using assms t by (auto simp: terminal_shows_def)
    then show ?thesis using assms t by (simp add: terminal_shows_def tl_append2 tl_drop drop_Suc [symmetric])
  qed
  then show ?thesis
    using assms t new_line_eq [OF terminal_shows_ok [OF assms]]
    by (auto simp: terminal_shows_def term_newline_def cell_def)
qed

lemma terminal_write_byte:
  assumes "terminal_shows w t"
  shows "terminal_shows (write_byte byte w) (term_put (wr_color_code w) byte t)" "wr_color_code (write_byte byte w) = wr_color_code w"
proof -
  have in_row: "terminal_shows (write_byte byte v) (fst u, snd u @ [cell v byte])"
    if "terminal_shows v u" "byte \<noteq> 0x0A" "length (snd u) < 80" for v u
  proof -
    have ok: "writer_ok v" by (rule terminal_shows_ok [OF that(1)])
    have row: "buffer v ! 24 = snd u @ replicate (80 - length (snd u)) (cell v 0x20)" and c: "column_position v = length (snd u)"
      using that(1) by (simp_all add: terminal_shows_def nth_append)
    have "replicate (80 - length (snd u)) (cell v 0x20) = cell v 0x20 # replicate (80 - length (snd u) - 1) (cell v 0x20)"
      using that(3) by (metis Suc_diff_1 replicate_Suc zero_less_diff)
    then show ?thesis
      using write_byte_in_row [OF ok that(2)] that row c
      by (simp add: terminal_shows_def with_row_def list_update_append cell_def) 
  qed
  have nl: "wr_color_code (new_line w) = wr_color_code w" "cell (new_line w) = cell w"
    using new_line_eq [OF terminal_shows_ok [OF assms]] by (simp_all add: cell_def fun_eq_iff)
  show "wr_color_code (write_byte byte w) = wr_color_code w"
    using nl by (simp add: write_byte_def Let_def)
  have "length (snd t) \<le> 80" using assms by (simp add: terminal_shows_def)
  then consider "byte = 0x0A" | "byte \<noteq> 0x0A" "length (snd t) < 80" | "byte \<noteq> 0x0A" "length (snd t) = 80"
    by (metis nat_less_le)
  then show "terminal_shows (write_byte byte w) (term_put (wr_color_code w) byte t)"
  proof cases
    case 1
    then show ?thesis using terminal_newline [OF assms] by (simp add: write_byte_def term_put_def cell_def)
  next
    case 2
    then show ?thesis using in_row [OF assms 2] by (simp add: term_put_def cell_def split_beta)
  next
    case 3
    have c: "column_position w = 80" "column_position (new_line w) = 0"
      using assms 3 new_line_eq [OF terminal_shows_ok [OF assms]] by (simp_all add: terminal_shows_def)
    then have "write_byte byte w = write_byte byte (new_line w)"
      using 3(1) by (simp add: write_byte_def BUFFER_WIDTH_def Let_def)
    moreover have "length (snd (term_newline (cell w 0x20) t)) < 80" by (simp add: term_newline_def split_beta)
    ultimately show ?thesis
      using in_row [OF terminal_newline [OF assms] 3(1)] 3 nl by (simp add: term_put_def cell_def split_beta Let_def)
  qed
qed

lemma terminal_write_string:
  "terminal_shows w t \<Longrightarrow> terminal_shows (write_string s w) (fold (term_put (wr_color_code w)) (map shown_byte s) t)
     \<and> wr_color_code (write_string s w) = wr_color_code w"
proof (induction s arbitrary: w t)
  case (Cons b s)
  have "write_string (b # s) w = write_string s (write_byte (shown_byte b) w)"
    by (simp add: write_string_def shown_byte_def printable_def)
  then show ?case using Cons.IH [OF terminal_write_byte(1) [OF Cons.prems]] terminal_write_byte(2) [OF Cons.prems] by simp
qed (simp add: write_string_def)

lemma clear_row_eq:
  "writer_ok w \<Longrightarrow> row < 25 \<Longrightarrow> clear_row row w = w\<lparr>buffer := (buffer w)[row := replicate 80 (cell w 0x20)]\<rparr>"
  using fold_put_row [of row "buffer w" 80 "cell w 0x20"]
  by (simp add: clear_row_def BUFFER_WIDTH_def cell_def writer_ok_row Let_def)

lemma clear_rows:
  "writer_ok w \<Longrightarrow> n \<le> 25 \<Longrightarrow>
   fold clear_row [0..<n] w = w\<lparr>buffer := replicate n (replicate 80 (cell w 0x20)) @ drop n (buffer w)\<rparr>"
proof (induction n)
  case (Suc n)
  let ?w = "w\<lparr>buffer := replicate n (replicate 80 (cell w 0x20)) @ drop n (buffer w)\<rparr>"
  have "writer_ok ?w" using Suc.prems by (auto simp: writer_ok_def dest: in_set_dropD)
  moreover have "drop n (buffer w) = buffer w ! n # drop (Suc n) (buffer w)"
    using Suc.prems by (simp add: Cons_nth_drop_Suc writer_ok_row)
  ultimately show ?case
    using Suc clear_row_eq [of ?w n]
    by (simp add: list_update_append cell_def replicate_append_same [symmetric] del: replicate_append_same)
qed simp

lemma terminal_clear_screen:
  assumes "writer_ok w"
  shows "terminal_shows (clear_screen w) (replicate 24 (replicate 80 (cell w 0x20)), [])"
proof -
  have "replicate 25 x = replicate 24 x @ [x]" for x :: "screen_char list"
    using replicate_append_same [of 24 x] replicate_Suc [of 24 x] by (simp add: numeral_eq_Suc)
  then show ?thesis
    using clear_rows [OF assms, of 25] writer_ok_row(1) [OF assms]
    by (simp add: clear_screen_def BUFFER_HEIGHT_def terminal_shows_def cell_def del: upt_rec_numeral)
qed

section \<open>Properties\<close>

text \<open>
  C24: The text screen refines an unbounded terminal. When the screen shows a terminal's last 24
  completed rows and its current line, it does so again after any text is printed: a character is
  appended, a newline or a full line completes the row (padded with blanks) and scrolls, every byte
  that is neither printable nor a newline shows as the block 0xFE; and clearing the screen
  gives the empty terminal from any state in which the cursor and the rows have their sizes.
\<close>

theorem screen_refines_terminal:
  "(terminal_shows w t \<longrightarrow>
      terminal_shows (write_string s w) (fold (term_put (wr_color_code w)) (map shown_byte s) t))
   \<and> (writer_ok w \<longrightarrow> terminal_shows (clear_screen w) (replicate 24 (replicate 80 (cell w 0x20)), []))"
  using terminal_write_string terminal_clear_screen by blast

definition blank_writer :: writer where
  "blank_writer = \<lparr>column_position = 0, wr_color_code = color_code_new LightCyan Black,
     buffer = replicate 25 (replicate 80 \<lparr>ascii_character = 0x20, color_code = color_code_new LightCyan Black\<rparr>)\<rparr>"

lemma blank_writer_ok: "writer_ok blank_writer"
  by (simp add: blank_writer_def writer_ok_def)

theorem screen_refines_terminal_witness:
  "\<exists>rows. terminal_shows (write_string [0x41, 0x0A, 0x42, 0x07] (clear_screen blank_writer))
     (rows, [\<lparr>ascii_character = 0x42, color_code = 0x0B\<rparr>, \<lparr>ascii_character = 0xFE, color_code = 0x0B\<rparr>])"
proof -
  let ?w = "clear_screen blank_writer"
  have s: "terminal_shows ?w (replicate 24 (replicate 80 (cell blank_writer 0x20)), [])"
    using screen_refines_terminal [of ?w] screen_refines_terminal [of blank_writer] blank_writer_ok by blast
  have c: "wr_color_code ?w = 0x0B"
    using clear_rows [OF blank_writer_ok, of 25]
    by (simp add: clear_screen_def BUFFER_HEIGHT_def blank_writer_def color_code_new_def color_u8_def del: upt_rec_numeral)
  have "terminal_shows (write_string [0x41, 0x0A, 0x42, 0x07] ?w)
      (fold (term_put (wr_color_code ?w)) (map shown_byte [0x41, 0x0A, 0x42, 0x07]) (replicate 24 (replicate 80 (cell blank_writer 0x20)), []))"
    using screen_refines_terminal s by blast
  then show ?thesis
    by (simp add: c shown_byte_def printable_def term_put_def term_newline_def) blast
qed

end
