(* ===== verification/Keyboard.thy ===== *)
theory Keyboard
  imports Vga_Buffer
begin

text \<open>
  Model of \<^verbatim>\<open>keyboard.rs\<close>: the PS/2 set 1 decoder with its line editor and history. Lines are byte
  lists, as only single-byte characters are produced. The shell is a parameter: what it prints for
  a line is a list of outputs. \<^verbatim>\<open>String::insert\<close>, \<^verbatim>\<open>String::remove\<close> and indexing the
  history panic out of range.
\<close>

section \<open>Definitions\<close>

record keyboard_driver =
  last_scancode :: u8
  pending_extended :: bool
  shift_held :: bool
  line_buffer :: bytes
  cursor_pos :: nat
  history :: "bytes list"
  history_index :: "nat option"

definition keyboard_new :: keyboard_driver where
  "keyboard_new = \<lparr>last_scancode = 0, pending_extended = False, shift_held = False, line_buffer = [], cursor_pos = 0,
     history = [], history_index = None\<rparr>"

text \<open>The arms of the match: scancode, character, character with Shift held.\<close>

definition key_table :: "(u8 \<times> u8 \<times> u8) list" where
  "key_table =
     [(0x02, 0x31, 0x31), (0x03, 0x32, 0x32), (0x04, 0x33, 0x33), (0x05, 0x34, 0x34),
      (0x06, 0x35, 0x35), (0x07, 0x36, 0x36), (0x08, 0x37, 0x37), (0x09, 0x38, 0x38),
      (0x0A, 0x39, 0x39), (0x0B, 0x30, 0x30), (0x0C, 0x2D, 0x5F), (0x10, 0x71, 0x51),
      (0x11, 0x77, 0x57), (0x12, 0x65, 0x45), (0x13, 0x72, 0x52), (0x14, 0x74, 0x54),
      (0x15, 0x79, 0x59), (0x16, 0x75, 0x55), (0x17, 0x69, 0x49), (0x18, 0x6F, 0x4F),
      (0x19, 0x70, 0x50), (0x1E, 0x61, 0x41), (0x1F, 0x73, 0x53), (0x20, 0x64, 0x44),
      (0x21, 0x66, 0x46), (0x22, 0x67, 0x47), (0x23, 0x68, 0x48), (0x24, 0x6A, 0x4A),
      (0x25, 0x6B, 0x4B), (0x26, 0x6C, 0x4C), (0x29, 0x60, 0x7E), (0x2C, 0x7A, 0x5A),
      (0x2D, 0x78, 0x58), (0x2E, 0x63, 0x43), (0x2F, 0x76, 0x56), (0x30, 0x62, 0x42),
      (0x31, 0x6E, 0x4E), (0x32, 0x6D, 0x4D), (0x33, 0x2C, 0x3C), (0x34, 0x2E, 0x3E),
      (0x35, 0x2F, 0x3F), (0x39, 0x20, 0x20), (0x1C, 0x0A, 0x0A)]"

definition scancode_to_char :: "keyboard_driver \<Rightarrow> u8 \<Rightarrow> u8 option" where
  "scancode_to_char kb scancode =
     map_option (\<lambda>(plain, shifted). if shift_held kb then shifted else plain) (map_of key_table scancode)"

text \<open>Both recalls tell whether the line changed.\<close>

definition recall_older :: "keyboard_driver \<Rightarrow> (bool \<times> keyboard_driver) outcome" where
  "recall_older kb =
     (if history kb = [] \<or> history_index kb = Some 0 then Ok (False, kb)
      else
        let new_index = (case history_index kb of None \<Rightarrow> length (history kb) - 1 | Some i \<Rightarrow> i - 1)
        in obind (idx (history kb) new_index) (\<lambda>line.
           Ok (True, kb\<lparr>history_index := Some new_index, line_buffer := line, cursor_pos := length line\<rparr>)))"

definition recall_newer :: "keyboard_driver \<Rightarrow> bool \<times> keyboard_driver" where
  "recall_newer kb =
     (case history_index kb of
        None \<Rightarrow> (False, kb)
      | Some i \<Rightarrow>
          if i + 1 < length (history kb)
          then (True, kb\<lparr>history_index := Some (i + 1), line_buffer := history kb ! (i + 1),
                  cursor_pos := length (history kb ! (i + 1))\<rparr>)
          else (True, kb\<lparr>history_index := None, line_buffer := [], cursor_pos := 0\<rparr>))"

text \<open>A loop \<^verbatim>\<open>for _ in a..b\<close> runs \<open>b - a\<close> times.\<close>

definition redraw_line :: "keyboard_driver \<Rightarrow> nat \<Rightarrow> nat \<Rightarrow> writer \<Rightarrow> writer" where
  "redraw_line kb old_len old_cursor w =
     (cursor_left ^^ (length (line_buffer kb) - cursor_pos kb))
       (write_string (line_buffer kb)
         ((backspace ^^ old_len) ((cursor_right ^^ (old_len - old_cursor)) w)))"

definition insert_char :: "u8 \<Rightarrow> keyboard_driver \<times> writer \<Rightarrow> (keyboard_driver \<times> writer) outcome" where
  "insert_char ch s =
     (case s of (kb, w) \<Rightarrow>
        if length (line_buffer kb) < cursor_pos kb then Panic
        else
          let old_len = length (line_buffer kb);
              old_cursor = cursor_pos kb;
              kb' = kb\<lparr>line_buffer := take (cursor_pos kb) (line_buffer kb) @ ch # drop (cursor_pos kb) (line_buffer kb),
                       cursor_pos := cursor_pos kb + 1\<rparr>
          in Ok (kb', redraw_line kb' old_len old_cursor w))"

definition backspace_char :: "keyboard_driver \<times> writer \<Rightarrow> (keyboard_driver \<times> writer) outcome" where
  "backspace_char s =
     (case s of (kb, w) \<Rightarrow>
        if cursor_pos kb = 0 then Ok (kb, w)
        else if length (line_buffer kb) \<le> cursor_pos kb - 1 then Panic
        else
          let old_len = length (line_buffer kb);
              old_cursor = cursor_pos kb;
              kb' = kb\<lparr>line_buffer := take (cursor_pos kb - 1) (line_buffer kb) @ drop (cursor_pos kb) (line_buffer kb),
                       cursor_pos := cursor_pos kb - 1\<rparr>
          in Ok (kb', redraw_line kb' old_len old_cursor w))"

text \<open>What a shell command does to the screen.\<close>

datatype console_out = Out_Print bytes | Out_Clear

definition run_output :: "console_out \<Rightarrow> writer \<Rightarrow> writer" where
  "run_output out w = (case out of Out_Print s \<Rightarrow> write_string s w | Out_Clear \<Rightarrow> clear_screen w)"

definition is_blank_line :: "bytes \<Rightarrow> bool" where
  "is_blank_line line \<longleftrightarrow> list_all (\<lambda>b. b = 0x20 \<or> 0x09 \<le> b \<and> b \<le> 0x0D) line"

definition prompt :: bytes where
  "prompt = map (of_nat \<circ> of_char) ''AgentOS> ''"

definition extended_key :: "u8 \<Rightarrow> keyboard_driver \<times> writer \<Rightarrow> (keyboard_driver \<times> writer) outcome" where
  "extended_key scancode s =
     (case s of (kb, w) \<Rightarrow>
        if scancode = 0x48 \<or> scancode = 0x50
        then let old_len = length (line_buffer kb); old_cursor = cursor_pos kb
             in obind (if scancode = 0x48 then recall_older kb else Ok (recall_newer kb)) (\<lambda>(changed, kb').
                Ok (kb', if changed then redraw_line kb' old_len old_cursor w else w))
        else if scancode = 0x4B \<and> 0 < cursor_pos kb then Ok (kb\<lparr>cursor_pos := cursor_pos kb - 1\<rparr>, cursor_left w)
        else if scancode = 0x4D \<and> cursor_pos kb < length (line_buffer kb)
        then Ok (kb\<lparr>cursor_pos := cursor_pos kb + 1\<rparr>, cursor_right w)
        else Ok (kb, w))"

definition enter_key :: "(bytes \<Rightarrow> console_out list) \<Rightarrow> keyboard_driver \<times> writer \<Rightarrow> keyboard_driver \<times> writer" where
  "enter_key shell s =
     (case s of (kb, w) \<Rightarrow>
        let line = line_buffer kb;
            kb' = kb\<lparr>line_buffer := [], cursor_pos := 0, history_index := None,
                     history := (if is_blank_line line then history kb else history kb @ [line])\<rparr>
        in (kb', write_string prompt (fold run_output (shell line) (write_string [0x0A] w))))"

definition handle_scancode :: "(bytes \<Rightarrow> console_out list) \<Rightarrow> u8 \<Rightarrow> keyboard_driver \<times> writer \<Rightarrow> (keyboard_driver \<times> writer) outcome" where
  "handle_scancode shell scancode s =
     (case s of (kb, w) \<Rightarrow>
        if scancode = 0xE0 then Ok (kb\<lparr>pending_extended := True\<rparr>, w)
        else
          let is_extended = pending_extended kb;
              kb = kb\<lparr>pending_extended := False\<rparr>
          in
          if scancode = 0x2A \<or> scancode = 0x36 then Ok (kb\<lparr>shift_held := True\<rparr>, w)
          else if scancode = 0xAA \<or> scancode = 0xB6 then Ok (kb\<lparr>shift_held := False\<rparr>, w)
          else
            let is_new_press = (scancode \<noteq> last_scancode kb \<and> scancode AND 0x80 = 0);
                kb = kb\<lparr>last_scancode := scancode\<rparr>
            in
            if \<not> is_new_press then Ok (kb, w)
            else if is_extended then extended_key scancode (kb, w)
            else if scancode = 0x0E then backspace_char (kb\<lparr>history_index := None\<rparr>, w)
            else case scancode_to_char kb scancode of
                   None \<Rightarrow> Ok (kb, w)
                 | Some ch \<Rightarrow>
                     if ch = 0x0A then Ok (enter_key shell (kb, w))
                     else insert_char ch (kb\<lparr>history_index := None\<rparr>, w))"

fun handle_scancodes :: "(bytes \<Rightarrow> console_out list) \<Rightarrow> bytes \<Rightarrow> keyboard_driver \<times> writer \<Rightarrow> (keyboard_driver \<times> writer) outcome" where
  "handle_scancodes shell [] s = Ok s"
| "handle_scancodes shell (c # cs) s = obind (handle_scancode shell c s) (handle_scancodes shell cs)"

section \<open>The line editor never panics\<close>

definition kb_ok :: "keyboard_driver \<Rightarrow> bool" where
  "kb_ok kb \<longleftrightarrow> cursor_pos kb \<le> length (line_buffer kb) \<and> list_all printable (line_buffer kb)
     \<and> list_all (list_all printable) (history kb)
     \<and> (case history_index kb of None \<Rightarrow> True | Some i \<Rightarrow> i < length (history kb))"

lemma key_table_chars:
  "map_of key_table c = Some (p, s) \<Longrightarrow> c AND 0x80 = 0 \<and> (printable p \<and> printable s \<or> p = 0x0A \<and> s = 0x0A \<and> c = 0x1C)"
proof -
  assume "map_of key_table c = Some (p, s)"
  then have "(c, p, s) \<in> set key_table" by (rule map_of_SomeD)
  moreover have "list_all (\<lambda>(c, p, s). c AND 0x80 = 0 \<and> (printable p \<and> printable s \<or> p = 0x0A \<and> s = 0x0A \<and> c = 0x1C)) key_table"
    by (simp add: key_table_def printable_def)
  ultimately show ?thesis by (auto simp: list_all_iff)
qed

lemma scancode_to_char_cases:
  "scancode_to_char kb c = Some ch \<Longrightarrow> printable ch \<or> ch = 0x0A \<and> c = 0x1C"
  using key_table_chars [of c] by (auto simp: scancode_to_char_def split: prod.splits if_splits)

lemma kb_ok_updates [simp]:
  "kb_ok (kb\<lparr>pending_extended := b\<rparr>) = kb_ok kb" "kb_ok (kb\<lparr>shift_held := b\<rparr>) = kb_ok kb"
  "kb_ok (kb\<lparr>last_scancode := c\<rparr>) = kb_ok kb"
  by (simp_all add: kb_ok_def split: option.split)

lemma kb_ok_cursor: "kb_ok kb \<Longrightarrow> n \<le> length (line_buffer kb) \<Longrightarrow> kb_ok (kb\<lparr>cursor_pos := n\<rparr>)"
  by (simp add: kb_ok_def split: option.splits)

lemma kb_ok_cursor_le: "kb_ok kb \<Longrightarrow> cursor_pos kb \<le> length (line_buffer kb)"
  by (simp add: kb_ok_def)

lemma kb_ok_history_None: "kb_ok kb \<Longrightarrow> kb_ok (kb\<lparr>history_index := None\<rparr>)"
  by (simp add: kb_ok_def)

lemma recall_ok:
  assumes "kb_ok kb"
  shows "\<exists>ch kb'. recall_older kb = Ok (ch, kb') \<and> kb_ok kb' \<and> (\<not> ch \<longrightarrow> kb' = kb)"
    "kb_ok (snd (recall_newer kb)) \<and> (\<not> fst (recall_newer kb) \<longrightarrow> snd (recall_newer kb) = kb)"
proof -
  show "\<exists>ch kb'. recall_older kb = Ok (ch, kb') \<and> kb_ok kb' \<and> (\<not> ch \<longrightarrow> kb' = kb)"
  proof (cases "history kb = [] \<or> history_index kb = Some 0")
    case False
    define k where "k = (case history_index kb of None \<Rightarrow> length (history kb) - 1 | Some i \<Rightarrow> i - 1)"
    have "k < length (history kb)" using False assms by (auto simp: k_def kb_ok_def split: option.splits)
    then show ?thesis
      using False assms by (auto simp: recall_older_def k_def [symmetric] idx_def kb_ok_def list_all_length)
  qed (use assms in \<open>auto simp: recall_older_def\<close>)
  show "kb_ok (snd (recall_newer kb)) \<and> (\<not> fst (recall_newer kb) \<longrightarrow> snd (recall_newer kb) = kb)"
    using assms by (auto simp: recall_newer_def kb_ok_def list_all_length split: option.splits)
qed

lemma insert_char_ok:
  "kb_ok kb \<Longrightarrow> printable ch \<Longrightarrow> history_index kb = None \<Longrightarrow>
   \<exists>kb' w'. insert_char ch (kb, w) = Ok (kb', w') \<and> kb_ok kb'"
  by (auto simp: insert_char_def kb_ok_def list_all_iff Let_def dest: in_set_takeD in_set_dropD)

lemma backspace_char_ok:
  "kb_ok kb \<Longrightarrow> history_index kb = None \<Longrightarrow> \<exists>kb' w'. backspace_char (kb, w) = Ok (kb', w') \<and> kb_ok kb'"
  by (auto simp: backspace_char_def kb_ok_def list_all_iff Let_def dest: in_set_takeD in_set_dropD)

lemma enter_key_ok: "kb_ok kb \<Longrightarrow> kb_ok (fst (enter_key shell (kb, w)))"
  by (simp add: enter_key_def kb_ok_def Let_def)

lemma extended_key_ok:
  assumes "kb_ok kb"
  shows "\<exists>kb' w'. extended_key c (kb, w) = Ok (kb', w') \<and> kb_ok kb'"
  using recall_ok [OF assms] assms kb_ok_cursor_le [OF assms]
  by (cases "recall_newer kb") (auto simp: extended_key_def split_beta Let_def intro!: kb_ok_cursor)

lemma handle_scancode_press:
  assumes "c \<notin> {0xE0, 0x2A, 0x36, 0xAA, 0xB6}" "c \<noteq> last_scancode kb" "c AND 0x80 = 0"
    "kb1 = kb\<lparr>pending_extended := False, last_scancode := c\<rparr>"
  shows "handle_scancode shell c (kb, w) =
       (if pending_extended kb then extended_key c (kb1, w)
        else if c = 0x0E then backspace_char (kb1\<lparr>history_index := None\<rparr>, w)
        else case scancode_to_char kb1 c of None \<Rightarrow> Ok (kb1, w)
          | Some ch \<Rightarrow> if ch = 0x0A then Ok (enter_key shell (kb1, w)) else insert_char ch (kb1\<lparr>history_index := None\<rparr>, w))"
  using assms by (simp add: handle_scancode_def Let_def split: option.split)

lemma handle_scancode_ok:
  assumes "kb_ok kb"
  shows "\<exists>kb' w'. handle_scancode shell c (kb, w) = Ok (kb', w') \<and> kb_ok kb'"
proof -
  define kb1 where "kb1 = kb\<lparr>pending_extended := False, last_scancode := c\<rparr>"
  have ok: "kb_ok kb1" "kb_ok (kb1\<lparr>history_index := None\<rparr>)" using assms kb_ok_history_None by (simp_all add: kb1_def)
  consider "c \<in> {0xE0, 0x2A, 0x36, 0xAA, 0xB6}"
    | "c \<notin> {0xE0, 0x2A, 0x36, 0xAA, 0xB6}" "\<not> (c \<noteq> last_scancode kb \<and> c AND 0x80 = 0)"
    | "c \<notin> {0xE0, 0x2A, 0x36, 0xAA, 0xB6}" "c \<noteq> last_scancode kb" "c AND 0x80 = 0" by blast
  then show ?thesis
  proof cases
    case 3
    note h = handle_scancode_press [OF 3 kb1_def, of shell w]
    show ?thesis
      unfolding h
      using extended_key_ok [OF ok(1), of c w] backspace_char_ok [OF ok(2), of w] enter_key_ok [OF ok(1), of shell w] ok
        insert_char_ok [OF ok(2), of _ w] scancode_to_char_cases [of kb1 c]
      by (cases "enter_key shell (kb1, w)") (auto split: option.split)
  qed (use assms in \<open>auto simp: handle_scancode_def Let_def\<close>)
qed

section \<open>Screen and line buffer\<close>

text \<open>
  The last row shows \<open>pre\<close> (the prompt), then the line, then blanks, and the screen cursor is at
  the position of the line cursor.
\<close>

definition line_row :: "screen_char list \<Rightarrow> writer \<Rightarrow> bytes \<Rightarrow> screen_char list" where
  "line_row pre w line = pre @ map (cell w) line @ replicate (80 - length pre - length line) (cell w 0x20)"

definition shows_line :: "screen_char list \<Rightarrow> keyboard_driver \<Rightarrow> writer \<Rightarrow> bool" where
  "shows_line pre kb w \<longleftrightarrow> writer_ok w \<and> length pre + length (line_buffer kb) \<le> 80
     \<and> buffer w ! 24 = line_row pre w (line_buffer kb) \<and> column_position w = length pre + cursor_pos kb"

lemma length_line_row: "length pre + length line \<le> 80 \<Longrightarrow> length (line_row pre w line) = 80"
  by (simp add: line_row_def)

lemma line_row_with_row: "line_row pre (with_row w r c) line = line_row pre w line"
  by (simp add: line_row_def)

lemma redraw_line_row:
  assumes "writer_ok w" "buffer w ! 24 = line_row pre w old" "column_position w = length pre + oc" "oc \<le> length old"
    "length pre + length old \<le> 80" "length pre + length (line_buffer kb) \<le> 80" "kb_ok kb"
  shows "redraw_line kb (length old) oc w = with_row w (line_row pre w (line_buffer kb)) (length pre + cursor_pos kb)"
proof -
  let ?n = "80 - length pre" and ?l = "line_buffer kb" and ?b = "cell w 0x20"
  define w1 where "w1 = w\<lparr>column_position := length pre + length old\<rparr>"
  have w1: "(cursor_right ^^ (length old - oc)) w = w1" "writer_ok w1" "cell w1 = cell w"
    using cursor_right_times [of w "length old - oc"] assms by (auto simp: w1_def writer_ok_def cell_def fun_eq_iff)
  have "buffer w1 ! 24 = pre @ map (cell w) old @ replicate (?n - length old) ?b"
    "column_position w1 = length pre + length (map (cell w) old)"
    using assms(2) by (simp_all add: w1_def line_row_def)
  from backspaces_in_row [OF w1(2) this]
  have "(backspace ^^ length old) w1 = with_row w1 (pre @ replicate (length old) ?b @ replicate (?n - length old) ?b) (length pre)"
    by (simp add: w1(3))
  also have "replicate (length old) ?b @ replicate (?n - length old) ?b = replicate ?n ?b"
    using assms(5) by (simp flip: replicate_add)
  finally have bs: "(backspace ^^ length old) w1 = with_row w (pre @ replicate ?n ?b) (length pre)"
    by (simp add: w1_def with_row_def)
  let ?w2 = "with_row w (pre @ replicate ?n ?b) (length pre)"
  have "writer_ok ?w2" using assms(1,5) by (intro writer_ok_with_row) auto
  then have "write_string ?l ?w2 = with_row w (line_row pre w ?l) (length pre + length ?l)"
    using write_string_in_row [of ?w2 ?l pre "replicate ?n ?b"] assms(1,6,7)
    by (simp add: kb_ok_def line_row_def)
  moreover have "(cursor_left ^^ (length ?l - cursor_pos kb)) (with_row w r (length pre + length ?l)) = with_row w r (length pre + cursor_pos kb)" for r
    using cursor_left_times [of "length ?l - cursor_pos kb" "with_row w r (length pre + length ?l)"] kb_ok_cursor_le [OF assms(7)]
    by (simp add: with_row_def)
  ultimately show ?thesis unfolding redraw_line_def w1(1) bs by simp
qed

lemma shows_line_with_row:
  "writer_ok w \<Longrightarrow> kb_ok kb \<Longrightarrow> length pre + length (line_buffer kb) \<le> 80 \<Longrightarrow>
   shows_line pre kb (with_row w (line_row pre w (line_buffer kb)) (length pre + cursor_pos kb))
   \<and> take 24 (buffer (with_row w (line_row pre w (line_buffer kb)) (length pre + cursor_pos kb))) = take 24 (buffer w)"
  using kb_ok_cursor_le [of kb] writer_ok_with_row [of w "line_row pre w (line_buffer kb)" "length pre + cursor_pos kb"]
  by (simp add: shows_line_def length_line_row line_row_with_row) (simp add: with_row_def)

lemma redraw_shows:
  assumes "shows_line pre kb w" "kb_ok kb" "kb_ok kb'" "length pre + length (line_buffer kb') \<le> 80"
  shows "shows_line pre kb' (redraw_line kb' (length (line_buffer kb)) (cursor_pos kb) w)
    \<and> take 24 (buffer (redraw_line kb' (length (line_buffer kb)) (cursor_pos kb) w)) = take 24 (buffer w)"
proof -
  have "redraw_line kb' (length (line_buffer kb)) (cursor_pos kb) w
      = with_row w (line_row pre w (line_buffer kb')) (length pre + cursor_pos kb')"
    using assms kb_ok_cursor_le [OF assms(2)] by (intro redraw_line_row) (auto simp: shows_line_def)
  then show ?thesis using shows_line_with_row [of w kb' pre] assms by (simp add: shows_line_def)
qed

lemma shows_line_cong:
  "shows_line pre kb w \<Longrightarrow> line_buffer kb' = line_buffer kb \<Longrightarrow> cursor_pos kb' = cursor_pos kb \<Longrightarrow> shows_line pre kb' w"
  by (simp add: shows_line_def)

text \<open>
  The terminal after a command: the rows that were on the screen, then on a new row what the shell
  printed (only what it printed after its last clearing), then the prompt.
\<close>

definition term_output :: "u8 \<Rightarrow> console_out \<Rightarrow> terminal \<Rightarrow> terminal" where
  "term_output color out t =
     (case out of
        Out_Print s \<Rightarrow> fold (term_put color) (map shown_byte s) t
      | Out_Clear \<Rightarrow> (replicate 24 (replicate 80 \<lparr>ascii_character = 0x20, color_code = color\<rparr>), []))"

definition after_enter :: "(bytes \<Rightarrow> console_out list) \<Rightarrow> bytes \<Rightarrow> writer \<Rightarrow> terminal" where
  "after_enter shell line w =
     fold (term_put (wr_color_code w)) prompt (fold (term_output (wr_color_code w)) (shell line) (tl (buffer w), []))"

lemma shown_prompt: "map shown_byte prompt = prompt"
  by (simp add: prompt_def shown_byte_def printable_def)

lemma wr_color_clear [simp]: "wr_color_code (clear_screen w) = wr_color_code w"
proof -
  have "wr_color_code (fold clear_row rows v) = wr_color_code v" for rows v
    by (induction rows arbitrary: v) (simp_all add: clear_row_def Let_def)
  then show ?thesis by (simp add: clear_screen_def)
qed

lemma run_output_terminal:
  assumes "terminal_shows w t"
  shows "terminal_shows (run_output out w) (term_output (wr_color_code w) out t)" "wr_color_code (run_output out w) = wr_color_code w"
  using terminal_write_string [OF assms] terminal_clear_screen [OF terminal_shows_ok [OF assms]]
  by (auto simp: run_output_def term_output_def cell_def split: console_out.split)

lemma run_outputs_terminal:
  "terminal_shows w t \<Longrightarrow> terminal_shows (fold run_output outs w) (fold (term_output (wr_color_code w)) outs t)
     \<and> wr_color_code (fold run_output outs w) = wr_color_code w"
proof (induction outs arbitrary: w t)
  case (Cons out outs)
  then show ?case using run_output_terminal [of w t out] by fastforce
qed simp

lemma terminal_shows_line:
  assumes "terminal_shows w (rows, cur)" "line_buffer kb = []" "cursor_pos kb = 0"
  shows "shows_line cur kb w"
  using assms terminal_shows_ok [OF assms(1)]
  by (simp add: shows_line_def terminal_shows_def line_row_def nth_append)

lemma new_line_terminal:
  assumes "writer_ok w"
  shows "terminal_shows (write_string [0x0A] w) (tl (buffer w), [])" "wr_color_code (write_string [0x0A] w) = wr_color_code w"
proof -
  have nl: "write_string [0x0A] w = new_line w" by (simp add: write_string_def write_byte_def)
  have "set (tl (buffer w)) \<subseteq> set (buffer w)" by (cases "buffer w") auto
  then show "terminal_shows (write_string [0x0A] w) (tl (buffer w), [])" "wr_color_code (write_string [0x0A] w) = wr_color_code w"
    using new_line_eq [OF assms] assms unfolding nl by (auto simp: terminal_shows_def writer_ok_def cell_def)
qed

lemma extended_key_shows:
  assumes "kb_ok kb" "shows_line pre kb w" "extended_key c (kb, w) = Ok (kb', w')" "length pre + length (line_buffer kb') \<le> 80"
  shows "shows_line pre kb' w' \<and> take 24 (buffer w') = take 24 (buffer w)"
proof -
  have up: ?thesis if "w' = (if changed then redraw_line kb' (length (line_buffer kb)) (cursor_pos kb) w else w)"
      "kb_ok kb'" "\<not> changed \<longrightarrow> kb' = kb" for changed
    using redraw_shows [OF assms(2,1) that(2) assms(4)] assms(2) that by (cases changed) auto
  consider "c = 0x48" | "c = 0x50" | "c \<noteq> 0x48" "c \<noteq> 0x50" by blast
  then show ?thesis
  proof cases
    case 1
    then obtain changed where "recall_older kb = Ok (changed, kb')"
        "w' = (if changed then redraw_line kb' (length (line_buffer kb)) (cursor_pos kb) w else w)"
      using assms(3) by (auto simp: extended_key_def Let_def)
    then show ?thesis using up recall_ok(1) [OF assms(1)] by auto
  next
    case 2
    then have "kb' = snd (recall_newer kb)"
        "w' = (if fst (recall_newer kb) then redraw_line kb' (length (line_buffer kb)) (cursor_pos kb) w else w)"
      using assms(3) by (auto simp: extended_key_def Let_def split: prod.splits)
    then show ?thesis using up [of "fst (recall_newer kb)"] recall_ok(2) [OF assms(1)] by simp
  next
    case 3
    have c: "column_position w = length pre + cursor_pos kb" "length pre + length (line_buffer kb) \<le> 80"
      using assms(2) by (simp_all add: shows_line_def)
    show ?thesis
      using 3 assms(2,3) c
      by (auto simp: extended_key_def shows_line_def cursor_left_def cursor_right_def BUFFER_WIDTH_def writer_ok_def
          line_row_def cell_def split: if_splits)
  qed
qed

lemma enter_key_shows:
  assumes "writer_ok w" "enter_key shell (kb, w) = (kb', w')"
  shows "terminal_shows w' (after_enter shell (line_buffer kb) w)" "shows_line (snd (after_enter shell (line_buffer kb) w)) kb' w'"
proof -
  define w1 where "w1 = fold run_output (shell (line_buffer kb)) (write_string [0x0A] w)"
  have "terminal_shows w1 (fold (term_output (wr_color_code w)) (shell (line_buffer kb)) (tl (buffer w), []))" "wr_color_code w1 = wr_color_code w"
    using run_outputs_terminal [OF new_line_terminal(1) [OF assms(1)]] new_line_terminal(2) [OF assms(1)] by (simp_all add: w1_def)
  moreover have kb': "w' = write_string prompt w1" "line_buffer kb' = []" "cursor_pos kb' = 0"
    using assms(2) by (auto simp: enter_key_def Let_def w1_def)
  ultimately show s: "terminal_shows w' (after_enter shell (line_buffer kb) w)"
    using terminal_write_string [of w1 _ prompt] by (simp add: after_enter_def shown_prompt)
  then show "shows_line (snd (after_enter shell (line_buffer kb) w)) kb' w'"
    using terminal_shows_line [of w' "fst (after_enter shell (line_buffer kb) w)" _ kb'] kb'(2,3) by simp
qed

section \<open>Typing\<close>

text \<open>The scancodes of pressing and releasing the key of a character, with Shift around it where needed.\<close>

definition keys_for :: "u8 \<Rightarrow> bytes" where
  "keys_for ch =
     (case find (\<lambda>(c, plain, shifted). plain = ch) key_table of
        Some (c, _) \<Rightarrow> [c, c OR 0x80]
      | None \<Rightarrow>
          (case find (\<lambda>(c, plain, shifted). shifted = ch) key_table of
             Some (c, _) \<Rightarrow> [0x2A, c, c OR 0x80, 0xAA]
           | None \<Rightarrow> []))"

definition typable :: "u8 \<Rightarrow> bool" where
  "typable ch \<longleftrightarrow> ch \<noteq> 0x0A \<and> list_ex (\<lambda>(c, plain, shifted). plain = ch \<or> shifted = ch) key_table"

text \<open>No key is down.\<close>

definition idle :: "keyboard_driver \<Rightarrow> bool" where
  "idle kb \<longleftrightarrow> \<not> pending_extended kb \<and> \<not> shift_held kb \<and> (last_scancode kb = 0 \<or> last_scancode kb AND 0x80 \<noteq> 0)"

lemma key_table_codes:
  assumes "(c, p, s) \<in> set key_table"
  shows "map_of key_table c = Some (p, s)" "c \<notin> {0x00, 0x0E, 0xE0, 0x2A, 0x36, 0xAA, 0xB6}" "c AND 0x80 = 0"
    "c OR 0x80 \<notin> {0xE0, 0x2A, 0x36, 0xAA, 0xB6}" "(c OR 0x80) AND 0x80 \<noteq> 0"
proof -
  have "distinct (map fst key_table)" by (simp add: key_table_def)
  then show "map_of key_table c = Some (p, s)" using assms by (rule map_of_is_SomeI)
  have "list_all (\<lambda>(c, p, s). c \<notin> {0x00, 0x0E, 0xE0, 0x2A, 0x36, 0xAA, 0xB6} \<and> c AND 0x80 = 0
      \<and> c OR 0x80 \<notin> {0xE0, 0x2A, 0x36, 0xAA, 0xB6} \<and> (c OR 0x80) AND 0x80 \<noteq> 0) key_table"
    by (simp add: key_table_def)
  then show "c \<notin> {0x00, 0x0E, 0xE0, 0x2A, 0x36, 0xAA, 0xB6}" "c AND 0x80 = 0"
    "c OR 0x80 \<notin> {0xE0, 0x2A, 0x36, 0xAA, 0xB6}" "(c OR 0x80) AND 0x80 \<noteq> 0"
    using assms by (fastforce simp: list_all_iff)+
qed

lemma enter_char: "map_of key_table 0x1C = Some (0x0A, 0x0A)"
  by (rule key_table_codes(1)) (simp add: key_table_def)

text \<open>Pressing and releasing one key of the table.\<close>

lemma press_key:
  assumes "(c, p, s) \<in> set key_table" "\<not> pending_extended kb" "last_scancode kb = 0 \<or> last_scancode kb AND 0x80 \<noteq> 0"
    "kb_ok kb" "cursor_pos kb = length (line_buffer kb)" "ch = (if shift_held kb then s else p)" "ch \<noteq> 0x0A"
  shows "\<exists>kb' w'. handle_scancodes shell [c, c OR 0x80] (kb, w) = Ok (kb', w') \<and> kb_ok kb' \<and> \<not> pending_extended kb'
    \<and> last_scancode kb' AND 0x80 \<noteq> 0 \<and> shift_held kb' = shift_held kb \<and> history kb' = history kb
    \<and> line_buffer kb' = line_buffer kb @ [ch] \<and> cursor_pos kb' = length (line_buffer kb')"
proof -
  note k = key_table_codes [OF assms(1)]
  define kb1 where "kb1 = kb\<lparr>pending_extended := False, last_scancode := c\<rparr>"
  have new: "c \<noteq> last_scancode kb" using assms(3) k(2,3) by auto
  have spec: "c \<notin> {0xE0, 0x2A, 0x36, 0xAA, 0xB6}" "c \<noteq> 0x0E" using k(2) by auto
  have "scancode_to_char kb1 c = Some ch"
    using k(1) assms(6) by (simp add: scancode_to_char_def kb1_def)
  moreover have "printable ch" using scancode_to_char_cases [OF calculation] assms(7) by auto
  ultimately have h: "handle_scancode shell c (kb, w) = insert_char ch (kb1\<lparr>history_index := None\<rparr>, w)"
    using handle_scancode_press [OF spec(1) new k(3) kb1_def, of shell w] assms(2,7) spec(2) by simp
  define kb2 where "kb2 = kb1\<lparr>history_index := None, line_buffer := line_buffer kb @ [ch], cursor_pos := length (line_buffer kb) + 1\<rparr>"
  have "\<exists>w1. insert_char ch (kb1\<lparr>history_index := None\<rparr>, w) = Ok (kb2, w1)"
    using assms(5) by (simp add: insert_char_def kb1_def kb2_def Let_def)
  then obtain w1 where i: "insert_char ch (kb1\<lparr>history_index := None\<rparr>, w) = Ok (kb2, w1)" by blast
  have "handle_scancode shell (c OR 0x80) (kb2, w1) = Ok (kb2\<lparr>pending_extended := False, last_scancode := c OR 0x80\<rparr>, w1)"
    using k(4,5) by (auto simp: handle_scancode_def Let_def)
  moreover have "kb_ok kb2"
    using assms(4) \<open>printable ch\<close> by (simp add: kb_ok_def kb2_def kb1_def)
  moreover have "shift_held kb2 = shift_held kb" "history kb2 = history kb" "line_buffer kb2 = line_buffer kb @ [ch]"
    "cursor_pos kb2 = length (line_buffer kb2)" by (simp_all add: kb2_def kb1_def)
  ultimately show ?thesis
    using h i k(5)
    by (intro exI [of _ "kb2\<lparr>pending_extended := False, last_scancode := c OR 0x80\<rparr>"] exI [of _ w1]) simp
qed

lemma handle_scancodes_append:
  "handle_scancodes shell (cs @ cs') s = obind (handle_scancodes shell cs s) (handle_scancodes shell cs')"
proof (induction cs arbitrary: s)
  case (Cons c cs)
  then have "handle_scancodes shell (cs @ cs') = (\<lambda>s. obind (handle_scancodes shell cs s) (handle_scancodes shell cs'))"
    by (simp add: fun_eq_iff)
  then show ?case by (simp add: obind_assoc)
qed simp

lemma find_Some_mem: "find P xs = Some x \<Longrightarrow> x \<in> set xs \<and> P x"
  by (auto simp: find_Some_iff)

lemma type_char:
  assumes "idle kb" "typable ch" "kb_ok kb" "cursor_pos kb = length (line_buffer kb)"
  shows "\<exists>kb' w'. handle_scancodes shell (keys_for ch) (kb, w) = Ok (kb', w') \<and> idle kb' \<and> kb_ok kb' \<and> history kb' = history kb
    \<and> line_buffer kb' = line_buffer kb @ [ch] \<and> cursor_pos kb' = length (line_buffer kb')"
proof (cases "find (\<lambda>(c, plain, shifted). plain = ch) key_table")
  case (Some x)
  obtain c p s where x: "x = (c, p, s)" by (cases x)
  have m: "(c, p, s) \<in> set key_table" "p = ch" using find_Some_mem [OF Some] x by auto
  have "keys_for ch = [c, c OR 0x80]" using Some x by (simp add: keys_for_def)
  then show ?thesis
    using press_key [OF m(1), of kb ch shell w] assms m(2) by (auto simp: idle_def typable_def)
next
  case None
  then have "\<exists>x. find (\<lambda>(c, plain, shifted). shifted = ch) key_table = Some x"
    using assms(2) by (cases "find (\<lambda>(c, plain, shifted). shifted = ch) key_table")
      (auto simp: typable_def find_None_iff list_ex_iff)
  then obtain c p s where f: "find (\<lambda>(c, plain, shifted). shifted = ch) key_table = Some (c, p, s)" by auto
  then have m: "(c, p, s) \<in> set key_table" "s = ch" using find_Some_mem by fastforce+
  have keys: "keys_for ch = [0x2A] @ [c, c OR 0x80] @ [0xAA]" using None f by (simp add: keys_for_def)
  have sh: "handle_scancodes shell [0x2A] (kb, w) = Ok (kb\<lparr>pending_extended := False, shift_held := True\<rparr>, w)"
    "handle_scancodes shell [0xAA] (kb', w') = Ok (kb'\<lparr>pending_extended := False, shift_held := False\<rparr>, w')" for kb' w'
    by (simp_all add: handle_scancode_def Let_def)
  let ?kb = "kb\<lparr>pending_extended := False, shift_held := True\<rparr>"
  obtain kb' w' where "handle_scancodes shell [c, c OR 0x80] (?kb, w) = Ok (kb', w')" "kb_ok kb'"
      "last_scancode kb' AND 0x80 \<noteq> 0" "history kb' = history kb" "line_buffer kb' = line_buffer kb @ [ch]"
      "cursor_pos kb' = length (line_buffer kb')"
    using press_key [OF m(1), of ?kb ch shell w] assms m(2) by (auto simp: idle_def typable_def)
  then show ?thesis
    unfolding keys handle_scancodes_append sh(1) obind.simps using sh(2) by (auto simp: idle_def handle_scancodes_append)
qed

lemma type_text:
  "idle kb \<Longrightarrow> list_all typable msg \<Longrightarrow> kb_ok kb \<Longrightarrow> cursor_pos kb = length (line_buffer kb) \<Longrightarrow>
   \<exists>kb' w'. handle_scancodes shell (concat (map keys_for msg)) (kb, w) = Ok (kb', w') \<and> idle kb' \<and> kb_ok kb'
    \<and> history kb' = history kb \<and> line_buffer kb' = line_buffer kb @ msg \<and> cursor_pos kb' = length (line_buffer kb')"
proof (induction msg arbitrary: kb w)
  case (Cons ch msg)
  obtain kb1 w1 where 1: "handle_scancodes shell (keys_for ch) (kb, w) = Ok (kb1, w1)" "idle kb1" "kb_ok kb1" "history kb1 = history kb"
      "line_buffer kb1 = line_buffer kb @ [ch]" "cursor_pos kb1 = length (line_buffer kb1)"
    using type_char [of kb ch shell w] Cons.prems by auto
  then show ?case using Cons.IH [of kb1 w1] Cons.prems by (auto simp: handle_scancodes_append)
qed auto

section \<open>Properties\<close>

text \<open>
  C4: What is on the screen is what is being edited. When the last row shows the prompt, the line
  buffer and blanks with the cursors in step, then after any scancode but a new Enter it still does, and nothing
  above it has changed: typing and erasing in the middle of the line, cursor keys, history, Shift
  and key repetition included, as long as prompt and line fit on the row. After Enter the terminal shows the rows
  that were there, exactly what the shell prints for the entered line, and the prompt, behind which the empty
  new line is edited; the entered line is in the history unless it is blank.
\<close>

theorem console_in_sync:
  assumes "kb_ok kb" "shows_line pre kb w" "handle_scancode shell c (kb, w) = Ok (kb', w')"
    "length pre + length (line_buffer kb') \<le> 80"
  shows "if c = 0x1C \<and> last_scancode kb \<noteq> 0x1C \<and> \<not> pending_extended kb
     then terminal_shows w' (after_enter shell (line_buffer kb) w) \<and> shows_line (snd (after_enter shell (line_buffer kb) w)) kb' w'
       \<and> line_buffer kb' = [] \<and> history kb' = (if is_blank_line (line_buffer kb) then history kb else history kb @ [line_buffer kb])
     else shows_line pre kb' w' \<and> take 24 (buffer w') = take 24 (buffer w)"
proof -
  define kb1 where "kb1 = kb\<lparr>pending_extended := False, last_scancode := c\<rparr>"
  have kb1: "kb_ok kb1" "line_buffer kb1 = line_buffer kb" "cursor_pos kb1 = cursor_pos kb" "history_index kb1 = history_index kb"
      "history kb1 = history kb"
    using assms(1) by (simp_all add: kb1_def)
  have sh: "shows_line pre kb1 w" using assms(2) by (simp add: shows_line_def kb1(2,3))
  have ok': "kb_ok kb'" using handle_scancode_ok [OF assms(1), of shell c w] assms(3) by auto
  let ?goal = "shows_line pre kb' w' \<and> take 24 (buffer w') = take 24 (buffer w)"
  have redrawn: ?goal if "w' = redraw_line kb' (length (line_buffer kb)) (cursor_pos kb) w"
    using redraw_shows [OF assms(2,1) ok' assms(4)] that by simp
  have same: ?goal if "w' = w" "line_buffer kb' = line_buffer kb" "cursor_pos kb' = cursor_pos kb"
    using shows_line_cong [OF assms(2)] that by simp
  have enter: "scancode_to_char kb1 0x1C = Some 0x0A"
    using enter_char by (simp add: scancode_to_char_def)
  consider "c \<in> {0xE0, 0x2A, 0x36, 0xAA, 0xB6}" | "c \<notin> {0xE0, 0x2A, 0x36, 0xAA, 0xB6}" "\<not> (c \<noteq> last_scancode kb \<and> c AND 0x80 = 0)"
    | "c \<notin> {0xE0, 0x2A, 0x36, 0xAA, 0xB6}" "c \<noteq> last_scancode kb" "c AND 0x80 = 0" by blast
  then show ?thesis
  proof cases
    case 3
    note h = handle_scancode_press [OF 3 kb1_def, of shell w, unfolded assms(3), symmetric]
    consider "pending_extended kb" | "\<not> pending_extended kb" "c = 0x0E"
      | "\<not> pending_extended kb" "c \<noteq> 0x0E" "scancode_to_char kb1 c = None"
      | ch where "\<not> pending_extended kb" "c \<noteq> 0x0E" "scancode_to_char kb1 c = Some ch" "ch \<noteq> 0x0A"
      | "\<not> pending_extended kb" "c \<noteq> 0x0E" "scancode_to_char kb1 c = Some 0x0A" by (cases "scancode_to_char kb1 c") blast+
    then show ?thesis
    proof cases
      case 1
      then have x: "extended_key c (kb1, w) = Ok (kb', w')" using h by simp
      from extended_key_shows [OF kb1(1) sh x assms(4)] 1 show ?thesis by simp
    next
      case 2
      then have "backspace_char (kb1\<lparr>history_index := None\<rparr>, w) = Ok (kb', w')" using h by simp
      then have ?goal
        using redrawn same kb1 by (auto simp: backspace_char_def Let_def split: if_splits)
      then show ?thesis using 2 by simp
    next
      case (4 ch)
      then have "insert_char ch (kb1\<lparr>history_index := None\<rparr>, w) = Ok (kb', w')" using h by simp
      then have ?goal using redrawn kb1 by (auto simp: insert_char_def Let_def split: if_splits)
      then show ?thesis using 4 enter by auto
    next
      case 5
      have c: "c = 0x1C" using scancode_to_char_cases [OF 5(3)] by (auto simp: printable_def)
      have e: "enter_key shell (kb1, w) = (kb', w')" using h 5 by simp
      then have "line_buffer kb' = []" "history kb' = (if is_blank_line (line_buffer kb) then history kb else history kb @ [line_buffer kb])"
        using kb1 by (auto simp: enter_key_def Let_def)
      then show ?thesis
        using enter_key_shows [OF _ e] assms(2) c 3(2) 5(1) kb1(2) by (auto simp: shows_line_def)
    qed (use h same kb1 enter in auto)
  qed (use assms(3) same in \<open>auto simp: handle_scancode_def Let_def\<close>)
qed

text \<open>
  The driver never panics: from a consistent state every sequence of scancodes is handled and
  leaves the cursor inside the line, only printable characters in the line and in the history, and
  a history position that exists.
\<close>

theorem keyboard_never_panics:
  assumes "kb_ok kb"
  shows "\<exists>kb' w'. handle_scancodes shell cs (kb, w) = Ok (kb', w') \<and> kb_ok kb'"
  using assms
proof (induction cs arbitrary: kb w)
  case (Cons c cs)
  obtain kb1 w1 where "handle_scancode shell c (kb, w) = Ok (kb1, w1)" "kb_ok kb1"
    using handle_scancode_ok [OF Cons.prems] by blast
  then show ?case using Cons.IH [of kb1 w1] by simp
qed auto

lemma keyboard_new_ok: "kb_ok keyboard_new" "idle keyboard_new"
  by (simp_all add: kb_ok_def idle_def keyboard_new_def)

theorem keyboard_never_panics_witness:
  "\<exists>kb' w'. handle_scancodes (\<lambda>_. []) [0xE0, 0x48, 0x0E, 0x1E, 0xE0, 0x4B, 0x1C] (keyboard_new, blank_writer) = Ok (kb', w') \<and> kb_ok kb'"
  by (rule keyboard_never_panics [OF keyboard_new_ok(1)])

text \<open>
  What is typed is what runs. From a state in which no key is down and the line is empty,
  pressing the keys of a text, with Shift where a character needs it, and then Enter hands exactly that text to the
  shell, whose output appears on a new line followed by the prompt; the text is added to the history
  unless it is blank, and the line is empty again. All letters, digits and the characters
  \<^verbatim>\<open>- _ ` ~ , < . > / ?\<close> and space can be typed.
\<close>

theorem typed_text_runs:
  assumes "kb_ok kb" "idle kb" "line_buffer kb = []" "cursor_pos kb = 0" "list_all typable msg"
  shows "\<exists>kb' w1. handle_scancodes shell (concat (map keys_for msg) @ [0x1C]) (kb, w)
       = Ok (kb', write_string prompt (fold run_output (shell msg) (write_string [0x0A] w1)))
     \<and> line_buffer kb' = [] \<and> history kb' = (if is_blank_line msg then history kb else history kb @ [msg])"
proof -
  obtain kb1 w1 where 1: "handle_scancodes shell (concat (map keys_for msg)) (kb, w) = Ok (kb1, w1)" "idle kb1" "kb_ok kb1"
      "history kb1 = history kb" "line_buffer kb1 = msg"
    using type_text [OF assms(2,5,1), of shell w] assms(3,4) by auto
  define kb2 where "kb2 = kb1\<lparr>pending_extended := False, last_scancode := 0x1C\<rparr>"
  have "scancode_to_char kb2 0x1C = Some 0x0A" using enter_char by (simp add: scancode_to_char_def)
  moreover have "0x1C \<noteq> last_scancode kb1" "\<not> pending_extended kb1" using 1(2) by (auto simp: idle_def)
  ultimately have "handle_scancode shell 0x1C (kb1, w1) = Ok (enter_key shell (kb2, w1))"
    using handle_scancode_press [of "0x1C" kb1 kb2 shell w1] by (simp add: kb2_def)
  then show ?thesis using 1 by (auto simp: handle_scancodes_append enter_key_def kb2_def Let_def)
qed

theorem typed_text_runs_witness:
  defines "msg \<equiv> map (of_nat \<circ> (of_char :: char \<Rightarrow> nat)) ''cat A~1.txt''"
  shows "\<exists>kb' w1. handle_scancodes (\<lambda>line. [Out_Print line]) (concat (map keys_for msg) @ [0x1C]) (keyboard_new, blank_writer)
       = Ok (kb', write_string prompt (write_string msg (write_string [0x0A] w1))) \<and> history kb' = [msg]"
proof -
  have "list_all typable msg" "\<not> is_blank_line msg"
    by (simp_all add: msg_def typable_def key_table_def is_blank_line_def)
  then show ?thesis
    using typed_text_runs [OF keyboard_new_ok, of msg "\<lambda>line. [Out_Print line]" blank_writer]
    by (auto simp: keyboard_new_def run_output_def)
qed

text \<open>
  The limit of the redrawing is real. With the prompt, a line of 72 characters does not fit on
  the row any more; it is shown across two rows, but the next character typed at its end makes
  the driver print the whole line once more, as only the part on the last row can be erased: the
  screen then shows the first 71 characters twice.
\<close>

theorem long_line_shown_twice:
  assumes "kb_ok kb" "writer_ok w" "length (line_buffer kb) = 72" "cursor_pos kb = 72" "printable ch"
    "buffer w ! 23 = map (cell w) (prompt @ take 71 (line_buffer kb))"
    "buffer w ! 24 = cell w (line_buffer kb ! 71) # replicate 79 (cell w 0x20)" "column_position w = 1"
  shows "\<exists>kb' w'. insert_char ch (kb, w) = Ok (kb', w')
     \<and> buffer w' ! 23 = map (cell w) (prompt @ take 71 (line_buffer kb))
     \<and> take 73 (buffer w' ! 24) = map (cell w) (line_buffer kb @ [ch])"
proof -
  have stuck: "(backspace ^^ n) v = v" if "column_position v = 0" for n v
    using that by (induction n) (simp_all add: backspace_def)
  let ?line = "line_buffer kb @ [ch]"
  let ?v = "with_row w (replicate 80 (cell w 0x20)) 0"
  have v: "writer_ok ?v" "column_position ?v = 0" "buffer ?v ! 24 = replicate 80 (cell w 0x20)"
    using assms(2) by (auto intro: writer_ok_with_row)
  have "backspace w = ?v" using backspace_in_row [of w] assms(7,8) by (simp add: numeral_eq_Suc)
  moreover have "(72 :: nat) = Suc 71" by simp
  ultimately have bs: "(backspace ^^ 72) w = ?v" using stuck [OF v(2), of 71] by (simp only: funpow_Suc_right comp_def)
  have "list_all printable ?line" using assms(1,5) by (simp add: kb_ok_def)
  then have "write_string ?line ?v = with_row ?v (map (cell ?v) ?line @ drop 73 (replicate 80 (cell w 0x20))) 73"
    using write_string_in_row [of ?v ?line "[]" "replicate 80 (cell w 0x20)"] v assms(3) by simp
  then have "write_string ?line ?v = with_row w (map (cell w) ?line @ replicate 7 (cell w 0x20)) 73" by simp
  then show ?thesis
    using bs assms(2-4,6) by (simp add: insert_char_def redraw_line_def Let_def writer_ok_row)
qed

theorem long_line_shown_twice_witness:
  defines "kb \<equiv> keyboard_new\<lparr>line_buffer := replicate 72 0x61, cursor_pos := 72\<rparr>"
    and "w \<equiv> \<lparr>column_position = 1, wr_color_code = 0x0B,
      buffer = replicate 23 (replicate 80 \<lparr>ascii_character = 0x20, color_code = 0x0B\<rparr>)
        @ [map (\<lambda>b. \<lparr>ascii_character = b, color_code = 0x0B\<rparr>) (prompt @ replicate 71 0x61),
           \<lparr>ascii_character = 0x61, color_code = 0x0B\<rparr> # replicate 79 \<lparr>ascii_character = 0x20, color_code = 0x0B\<rparr>]\<rparr>"
  shows "\<exists>kb' w'. insert_char 0x62 (kb, w) = Ok (kb', w') \<and> take 73 (buffer w' ! 24) = map (cell w) (replicate 72 0x61 @ [0x62])"
proof -
  have c: "cell w = (\<lambda>b. \<lparr>ascii_character = b, color_code = 0x0B\<rparr>)" by (simp add: w_def cell_def fun_eq_iff)
  have "kb_ok kb" by (simp add: kb_def keyboard_new_def kb_ok_def list_all_iff printable_def)
  moreover have "writer_ok w" by (auto simp: w_def writer_ok_def prompt_def)
  moreover have "buffer w ! 23 = map (cell w) (prompt @ take 71 (line_buffer kb))"
    "buffer w ! 24 = cell w (line_buffer kb ! 71) # replicate 79 (cell w 0x20)"
    unfolding c by (simp_all add: w_def kb_def nth_append)
  moreover have "column_position w = 1" "length (line_buffer kb) = 72" "cursor_pos kb = 72" "line_buffer kb = replicate 72 0x61" "printable 0x62"
    by (simp_all add: w_def kb_def printable_def)
  ultimately show ?thesis using long_line_shown_twice [of kb w "0x62"] by metis
qed

theorem console_in_sync_witness:
  defines "w \<equiv> write_string prompt (clear_screen blank_writer)"
  shows "\<exists>pre kb' w' kb'' w''. handle_scancode (\<lambda>line. [Out_Print line]) 0x1E (keyboard_new, w) = Ok (kb', w') \<and> line_buffer kb' = [0x61]
     \<and> shows_line pre kb' w'
     \<and> handle_scancode (\<lambda>line. [Out_Print line]) 0x1C (kb', w') = Ok (kb'', w'')
     \<and> snd (after_enter (\<lambda>line. [Out_Print line]) [0x61] w') = map (cell w') (0x61 # prompt)
     \<and> shows_line (map (cell w') (0x61 # prompt)) kb'' w''"
proof -
  let ?sh = "\<lambda>line. [Out_Print line]"
  have "terminal_shows (clear_screen blank_writer) (replicate 24 (replicate 80 (cell blank_writer 0x20)), [])"
    by (rule terminal_clear_screen [OF blank_writer_ok])
  from terminal_write_string [OF this, of prompt]
  obtain rows cur where t: "terminal_shows w (rows, cur)" "length cur = 9"
    by (simp add: w_def shown_byte_def printable_def prompt_def term_put_def) fastforce
  have sh: "shows_line cur keyboard_new w" using terminal_shows_line [OF t(1)] by (simp add: keyboard_new_def)
  have "(0x1E, 0x61, 0x41) \<in> set key_table" by (simp add: key_table_def)
  then have "map_of key_table 0x1E = Some (0x61, 0x41)" by (rule key_table_codes(1))
  then have "\<exists>kb' w'. handle_scancode ?sh 0x1E (keyboard_new, w) = Ok (kb', w') \<and> line_buffer kb' = [0x61]
      \<and> last_scancode kb' = 0x1E \<and> \<not> pending_extended kb'"
    by (simp add: handle_scancode_def keyboard_new_def scancode_to_char_def insert_char_def Let_def)
  then obtain kb' w' where h: "handle_scancode ?sh 0x1E (keyboard_new, w) = Ok (kb', w')" "line_buffer kb' = [0x61]"
      "last_scancode kb' = 0x1E" "\<not> pending_extended kb'" by blast
  have "length cur + length (line_buffer kb') \<le> 80" using t(2) h(2) by simp
  from console_in_sync [OF keyboard_new_ok(1) sh h(1) this] have s': "shows_line cur kb' w'" by simp
  have ok': "kb_ok kb'" using handle_scancode_ok [OF keyboard_new_ok(1), of ?sh "0x1E" w] h(1) by auto
  obtain kb'' w'' where e: "handle_scancode ?sh 0x1C (kb', w') = Ok (kb'', w'')" using handle_scancode_ok [OF ok'] by blast
  have pre: "snd (after_enter ?sh [0x61] w') = map (cell w') (0x61 # prompt)"
    by (simp add: after_enter_def term_output_def prompt_def shown_byte_def printable_def term_put_def cell_def)
  have "line_buffer kb'' = []"
    using e h(3,4) by (auto simp: handle_scancode_def scancode_to_char_def Let_def enter_key_def enter_char)
  then have "length cur + length (line_buffer kb'') \<le> 80" using t(2) by simp
  from console_in_sync [OF ok' s' e this] have "shows_line (snd (after_enter ?sh [0x61] w')) kb'' w''" using h(2-4) by simp
  then have "shows_line (map (cell w') (0x61 # prompt)) kb'' w''" unfolding pre .
  then show ?thesis using h(1,2) s' e pre by blast
qed

end
