(* ===== verification/Kv_Allocator.thy ===== *)
theory Kv_Allocator
  imports Prelude
begin

text \<open>
  Model of \<^verbatim>\<open>memory/kv_allocator.rs\<close>: 128 slots, block ids are the slot index plus one, the
  lowest free slot is taken first. The contract the system calls rely on is the locale
  \<open>block_store\<close>: an abstract map from live block ids to their owners. Exhaustion of the kernel
  heap by \<^verbatim>\<open>vec![0u8; KV_CACHE_PAGE_SIZE]\<close> (an abort of the allocator) and the address the heap
  hands out are not modelled; the page is the list of its bytes.
\<close>

section \<open>Definitions\<close>

abbreviation (input) KV_CACHE_PAGE_SIZE :: nat where "KV_CACHE_PAGE_SIZE \<equiv> 4096"

datatype kv_cache_location = Vram | SystemRam | PagedDisk

record kv_cache_block =
  kv_id :: u32
  kv_pid :: u32
  token_capacity :: u64
  kv_location :: kv_cache_location
  kv_data :: bytes

definition kv_size_bytes :: "kv_cache_block \<Rightarrow> nat" where
  "kv_size_bytes b = length (kv_data b)"

record kv_cache_memory_manager =
  kv_blocks :: "kv_cache_block option list"
  allocated_count :: u64

definition kv_new :: kv_cache_memory_manager where
  "kv_new = \<lparr>kv_blocks = replicate 128 None, allocated_count = 0\<rparr>"

definition allocate_kv_block ::
  "kv_cache_memory_manager \<Rightarrow> u32 \<Rightarrow> u64 \<Rightarrow> u32 option \<times> kv_cache_memory_manager" where
  "allocate_kv_block m pid tokens =
     (case position Option.is_none (kv_blocks m) of
        None \<Rightarrow> (None, m)
      | Some i \<Rightarrow>
          let block_id = of_nat i + 1;
              data = replicate KV_CACHE_PAGE_SIZE 0
          in (Some block_id,
              m\<lparr>kv_blocks := (kv_blocks m)[i := Some \<lparr>kv_id = block_id, kv_pid = pid,
                   token_capacity = tokens, kv_location = SystemRam, kv_data = data\<rparr>],
                allocated_count := allocated_count m + 1\<rparr>))"

definition free_kv_block ::
  "kv_cache_memory_manager \<Rightarrow> u32 \<Rightarrow> u32 option \<times> kv_cache_memory_manager" where
  "free_kv_block m block_id =
     (if block_id < 1 then (None, m)
      else let i = unat (block_id - 1) in
        if i < length (kv_blocks m) then
          (case kv_blocks m ! i of
             Some block \<Rightarrow> (Some (kv_pid block),
               m\<lparr>kv_blocks := (kv_blocks m)[i := None], allocated_count := allocated_count m - 1\<rparr>)
           | None \<Rightarrow> (None, m))
        else (None, m))"

definition get_allocated_count :: "kv_cache_memory_manager \<Rightarrow> u64" where
  "get_allocated_count m = allocated_count m"

text \<open>\<^verbatim>\<open>for_each_block\<close>: the blocks the closure is called with, in order.\<close>

definition for_each_block :: "kv_cache_memory_manager \<Rightarrow> kv_cache_block list" where
  "for_each_block m = flatten (kv_blocks m)"

section \<open>The contract of a block store\<close>

text \<open>
  The state is seen through the map from live block ids to their owners. Allocation takes the
  least unused positive id, and fails only when all \<open>capacity\<close> ids are in use.
\<close>

locale block_store =
  fixes inv :: "'s \<Rightarrow> bool"
    and owner :: "'s \<Rightarrow> u32 \<Rightarrow> u32 option"
    and capacity :: nat
    and alloc :: "'s \<Rightarrow> u32 \<Rightarrow> u64 \<Rightarrow> u32 option \<times> 's"
    and free :: "'s \<Rightarrow> u32 \<Rightarrow> u32 option \<times> 's"
  assumes alloc_inv: "inv s \<Longrightarrow> inv (snd (alloc s p n))"
    and free_inv: "inv s \<Longrightarrow> inv (snd (free s b))"
    and owner_range: "inv s \<Longrightarrow> owner s b = Some p \<Longrightarrow> 0 < unat b \<and> unat b \<le> capacity"
    and alloc_Some: "inv s \<Longrightarrow> fst (alloc s p n) = Some b \<Longrightarrow>
       0 < unat b \<and> unat b \<le> capacity \<and> owner s b = None
       \<and> (\<forall>c. 0 < unat c \<and> unat c < unat b \<longrightarrow> owner s c \<noteq> None)
       \<and> owner (snd (alloc s p n)) = (owner s)(b \<mapsto> p)"
    and alloc_None: "inv s \<Longrightarrow> fst (alloc s p n) = None \<Longrightarrow>
       snd (alloc s p n) = s \<and> (\<forall>c. 0 < unat c \<and> unat c \<le> capacity \<longrightarrow> owner s c \<noteq> None)"
    and free_result: "inv s \<Longrightarrow> fst (free s b) = owner s b"
    and free_owner: "inv s \<Longrightarrow> owner (snd (free s b)) = (owner s)(b := None)"
begin

lemma free_fresh:
  "inv s \<Longrightarrow> fst (alloc s p n) = Some b \<Longrightarrow> s' = snd (alloc s p n) \<Longrightarrow>
   fst (free s' b) = Some p \<and> owner (snd (free s' b)) = owner s"
  using alloc_Some [of s p n b] alloc_inv [of s p n]
  by (auto simp: free_result free_owner fun_upd_idem)

lemma no_double_free: "inv s \<Longrightarrow> fst (free (snd (free s b)) b) = None"
  by (simp add: free_result free_owner free_inv)

lemma others_untouched:
  "inv s \<Longrightarrow> fst (alloc s p n) = Some b \<Longrightarrow> c \<noteq> b \<Longrightarrow> owner (snd (alloc s p n)) c = owner s c"
  using alloc_Some [of s p n b] by simp

lemma alloc_fails_iff:
  "inv s \<Longrightarrow> fst (alloc s p n) = None \<longleftrightarrow> (\<forall>c. 0 < unat c \<and> unat c \<le> capacity \<longrightarrow> owner s c \<noteq> None)"
  using alloc_None [of s p n] alloc_Some [of s p n] by (cases "fst (alloc s p n)") auto

end

section \<open>The manager implements the contract\<close>

definition kv_owner :: "kv_cache_memory_manager \<Rightarrow> u32 \<Rightarrow> u32 option" where
  "kv_owner m b = (if b \<noteq> 0 \<and> unat b - 1 < length (kv_blocks m)
     then map_option kv_pid (kv_blocks m ! (unat b - 1)) else None)"

definition kv_inv :: "kv_cache_memory_manager \<Rightarrow> bool" where
  "kv_inv m \<longleftrightarrow> length (kv_blocks m) = 128
     \<and> allocated_count m = of_nat (length (filter (\<lambda>s. s \<noteq> None) (kv_blocks m)))
     \<and> (\<forall>i<128. \<forall>b. kv_blocks m ! i = Some b \<longrightarrow> kv_id b = of_nat i + 1 \<and> kv_size_bytes b = KV_CACHE_PAGE_SIZE)"

lemma unat_pred: "b \<noteq> 0 \<Longrightarrow> unat (b - 1 :: u32) = unat b - 1"
  by (simp add: unat_minus_one)

lemma slot_of_id: "i < 128 \<Longrightarrow> 0 < unat b \<Longrightarrow> unat b - 1 = i \<Longrightarrow> b = (of_nat i + 1 :: u32)"
  by (simp add: word_unat_eq_iff unat_slot_id)

lemma unat_pos: "(b :: u32) \<noteq> 0 \<longleftrightarrow> 0 < unat b"
  by (simp add: unat_gt_0)

lemma kv_owner_update:
  assumes "length (kv_blocks m) = 128" and "i < 128"
  shows "kv_owner (m\<lparr>kv_blocks := (kv_blocks m)[i := x], allocated_count := c\<rparr>)
       = (kv_owner m)(of_nat i + 1 := map_option kv_pid x)"
proof
  fix b :: u32
  have id: "unat (of_nat i + 1 :: u32) = Suc i" using assms(2) by (rule unat_slot_id)
  then have nz: "of_nat i + 1 \<noteq> (0 :: u32)" by (metis unat_0 nat.distinct(1))
  show "kv_owner (m\<lparr>kv_blocks := (kv_blocks m)[i := x], allocated_count := c\<rparr>) b
      = ((kv_owner m)(of_nat i + 1 := map_option kv_pid x)) b"
  proof (cases "b = of_nat i + 1")
    case True
    then show ?thesis using id nz assms by (simp add: kv_owner_def)
  next
    case False
    then have "unat b \<noteq> 0 \<Longrightarrow> unat b - 1 \<noteq> i" using slot_of_id [OF assms(2), of b] by auto
    then show ?thesis using False assms by (auto simp: kv_owner_def unat_pos)
  qed
qed

lemma kv_inv_alloc:
  assumes inv: "kv_inv m"
  shows "kv_inv (snd (allocate_kv_block m p n))"
proof (cases "position Option.is_none (kv_blocks m)")
  case None
  then show ?thesis using inv by (simp add: allocate_kv_block_def)
next
  case (Some i)
  from position_SomeD [OF this]
  have i: "i < length (kv_blocks m)" "kv_blocks m ! i = None" by (auto simp: Option.is_none_def)
  show ?thesis
    using inv Some i count_update [OF i(1), of "\<lambda>s. s \<noteq> None"]
    by (auto simp: allocate_kv_block_def kv_inv_def Let_def nth_list_update kv_size_bytes_def)
qed

lemma kv_inv_free:
  assumes inv: "kv_inv m"
  shows "kv_inv (snd (free_kv_block m b))"
proof (cases "b \<noteq> 0 \<and> unat (b - 1) < 128 \<and> kv_blocks m ! unat (b - 1) \<noteq> None")
  case True
  let ?i = "unat (b - 1)"
  from True obtain x where i: "?i < length (kv_blocks m)" and x: "kv_blocks m ! ?i = Some x"
    using inv by (auto simp: kv_inv_def)
  have "length (filter (\<lambda>s. s \<noteq> None) (kv_blocks m))
      = Suc (length (filter (\<lambda>s. s \<noteq> None) ((kv_blocks m)[?i := None])))"
    using count_update [OF i, of "\<lambda>s. s \<noteq> None" None] x by simp
  then show ?thesis
    using inv i x True by (auto simp: free_kv_block_def kv_inv_def Let_def nth_list_update)
next
  case False
  then show ?thesis
    using inv by (auto simp: free_kv_block_def Let_def kv_inv_def word_less_1 split: option.splits)
qed

interpretation kv: block_store kv_inv kv_owner 128 allocate_kv_block free_kv_block
proof
  fix m p n b
  assume inv: "kv_inv m"
  have len: "length (kv_blocks m) = 128" using inv by (simp add: kv_inv_def)
  show "kv_inv (snd (allocate_kv_block m p n))" by (rule kv_inv_alloc [OF inv])
  show "kv_inv (snd (free_kv_block m b))" by (rule kv_inv_free [OF inv])
  show "0 < unat b \<and> unat b \<le> 128" if "kv_owner m b = Some q" for q
    using that len by (auto simp: kv_owner_def unat_pos split: if_splits)
  have live: "kv_owner m c \<noteq> None \<longleftrightarrow> 0 < unat c \<and> unat c \<le> 128 \<and> kv_blocks m ! (unat c - 1) \<noteq> None" for c
    using len by (auto simp: kv_owner_def unat_pos)
  show "0 < unat b \<and> unat b \<le> 128 \<and> kv_owner m b = None
       \<and> (\<forall>c. 0 < unat c \<and> unat c < unat b \<longrightarrow> kv_owner m c \<noteq> None)
       \<and> kv_owner (snd (allocate_kv_block m p n)) = (kv_owner m)(b \<mapsto> p)"
    if "fst (allocate_kv_block m p n) = Some b"
  proof -
    from that obtain i where i: "position Option.is_none (kv_blocks m) = Some i"
      and b: "b = of_nat i + 1"
      by (auto simp: allocate_kv_block_def Let_def split: option.splits)
    from position_SomeD [OF i] len
    have i': "i < 128" "kv_blocks m ! i = None" "\<forall>j<i. kv_blocks m ! j \<noteq> None"
      by (auto simp: Option.is_none_def)
    have ub: "unat b = Suc i" unfolding b by (rule unat_slot_id [OF i'(1)])
    have "kv_owner (snd (allocate_kv_block m p n)) = (kv_owner m)(b \<mapsto> p)"
      using kv_owner_update [OF len i'(1)] by (simp add: allocate_kv_block_def i Let_def b)
    moreover have "kv_owner m b = None" using live [of b] i' ub by simp
    ultimately show ?thesis using live i' ub by auto
  qed
  show "snd (allocate_kv_block m p n) = m
      \<and> (\<forall>c. 0 < unat c \<and> unat c \<le> 128 \<longrightarrow> kv_owner m c \<noteq> None)"
    if none: "fst (allocate_kv_block m p n) = None"
  proof -
    have "position Option.is_none (kv_blocks m) = None"
      using none by (auto simp: allocate_kv_block_def Let_def split: option.splits)
    then have "\<forall>j<128. kv_blocks m ! j \<noteq> None"
      using len by (auto simp: position_None_iff Option.is_none_def all_set_conv_all_nth)
    then have "\<forall>c. 0 < unat c \<and> unat c \<le> 128 \<longrightarrow> kv_owner m c \<noteq> None" unfolding live by auto
    then show ?thesis
      using none by (auto simp: allocate_kv_block_def Let_def split: option.splits)
  qed
  show "fst (free_kv_block m b) = kv_owner m b"
    by (auto simp: free_kv_block_def kv_owner_def Let_def word_less_1 unat_pred split: option.splits)
  show "kv_owner (snd (free_kv_block m b)) = (kv_owner m)(b := None)"
  proof (cases "kv_owner m b")
    case None
    then have "snd (free_kv_block m b) = m"
      by (auto simp: free_kv_block_def kv_owner_def Let_def word_less_1 unat_pred split: option.splits if_splits)
    then show ?thesis using None by (simp add: fun_upd_idem)
  next
    case (Some q)
    then have nz: "b \<noteq> 0" and i: "unat b - 1 < 128" and "kv_blocks m ! (unat b - 1) \<noteq> None"
      using len by (auto simp: kv_owner_def split: if_splits)
    moreover have "b = of_nat (unat b - 1) + 1"
      by (rule slot_of_id) (use nz i in \<open>simp_all add: unat_gt_0\<close>)
    ultimately show ?thesis
      using kv_owner_update [OF len i, where x = None] len
      by (auto simp: free_kv_block_def Let_def word_less_1 unat_pred)
  qed
qed

section \<open>Sequences of operations\<close>

datatype kv_op = KvAlloc u32 u64 | KvFree u32

primrec kv_step :: "kv_op \<Rightarrow> kv_cache_memory_manager \<Rightarrow> u32 option \<times> kv_cache_memory_manager" where
  "kv_step (KvAlloc p n) m = allocate_kv_block m p n"
| "kv_step (KvFree b) m = free_kv_block m b"

text \<open>The abstract store: a finite map of owners, the least positive unused id is handed out.\<close>

definition spec_alloc :: "(u32 \<Rightarrow> u32 option) \<Rightarrow> u32 \<Rightarrow> u32 option \<times> (u32 \<Rightarrow> u32 option)" where
  "spec_alloc f p = (case find (\<lambda>i. f (of_nat i) = None) [1..<129] of
     None \<Rightarrow> (None, f) | Some i \<Rightarrow> (Some (of_nat i), f(of_nat i \<mapsto> p)))"

primrec spec_step :: "kv_op \<Rightarrow> (u32 \<Rightarrow> u32 option) \<Rightarrow> u32 option \<times> (u32 \<Rightarrow> u32 option)" where
  "spec_step (KvAlloc p n) f = spec_alloc f p"
| "spec_step (KvFree b) f = (f b, f(b := None))"

fun kv_run :: "kv_op list \<Rightarrow> kv_cache_memory_manager \<Rightarrow> u32 option list \<times> kv_cache_memory_manager" where
  "kv_run [] m = ([], m)"
| "kv_run (op # ops) m =
     (let (r, m') = kv_step op m; (rs, m'') = kv_run ops m' in (r # rs, m''))"

fun spec_run :: "kv_op list \<Rightarrow> (u32 \<Rightarrow> u32 option) \<Rightarrow> u32 option list \<times> (u32 \<Rightarrow> u32 option)" where
  "spec_run [] f = ([], f)"
| "spec_run (op # ops) f =
     (let (r, f') = spec_step op f; (rs, f'') = spec_run ops f' in (r # rs, f''))"

lemma kv_inv_new: "kv_inv kv_new"
  by (simp add: kv_inv_def kv_new_def)

lemma kv_owner_new: "kv_owner kv_new = Map.empty"
  by (rule ext) (simp add: kv_owner_def kv_new_def)

lemma kv_step_inv: "kv_inv m \<Longrightarrow> kv_inv (snd (kv_step op m))"
  by (cases op) (simp_all add: kv.alloc_inv kv.free_inv)

lemma find_least_id:
  assumes "0 < unat b" and "unat b \<le> 128" and "f b = None"
    and "\<forall>c :: u32. 0 < unat c \<and> unat c < unat b \<longrightarrow> f c \<noteq> None"
  shows "find (\<lambda>i. f (of_nat i) = None) [1..<129] = Some (unat b)"
proof -
  have u: "unat (of_nat i :: u32) = i" if "i < 129" for i using that by (simp add: unat_of_nat)
  have "f (of_nat (1 + j)) \<noteq> None" if "j < unat b - 1" for j
    using assms(2,4) u [of "1 + j"] that by (simp del: of_nat_add of_nat_Suc)
  then show ?thesis
    unfolding find_Some_iff using assms(1-3)
    by (intro exI [of _ "unat b - 1"]) (auto simp: nth_upt)
qed

lemma find_no_id:
  assumes "\<forall>c :: u32. 0 < unat c \<and> unat c \<le> 128 \<longrightarrow> f c \<noteq> None"
  shows "find (\<lambda>i. f (of_nat i) = None) [1..<129] = None"
proof -
  have "unat (of_nat i :: u32) = i" if "i < 129" for i using that by (simp add: unat_of_nat)
  then show ?thesis using assms by (auto simp: find_None_iff)
qed

lemma kv_step_refines:
  assumes inv: "kv_inv m"
  shows "spec_step op (kv_owner m) = (fst (kv_step op m), kv_owner (snd (kv_step op m)))"
proof (cases op)
  case (KvAlloc p n)
  show ?thesis
  proof (cases "fst (allocate_kv_block m p n)")
    case None
    note n = kv.alloc_None [OF inv None]
    then show ?thesis
      using find_no_id [of "kv_owner m"] None by (simp add: KvAlloc spec_alloc_def)
  next
    case (Some b)
    note s = kv.alloc_Some [OF inv Some]
    then show ?thesis
      using find_least_id [of b "kv_owner m"] Some by (simp add: KvAlloc spec_alloc_def)
  qed
next
  case (KvFree b)
  then show ?thesis using inv by (simp add: kv.free_result kv.free_owner)
qed

lemma kv_run_refines:
  "kv_inv m \<Longrightarrow> spec_run ops (kv_owner m) = (fst (kv_run ops m), kv_owner (snd (kv_run ops m)))
     \<and> kv_inv (snd (kv_run ops m))"
proof (induction ops arbitrary: m)
  case (Cons op ops)
  then show ?case
    using kv_step_refines [OF Cons.prems, of op] Cons.IH [OF kv_step_inv [OF Cons.prems]]
    by (simp add: Let_def split_def)
qed simp

section \<open>Properties\<close>

text \<open>
  C21: from boot, any sequence of allocations and frees (any pids, token counts and block ids,
  double frees and the id zero included) returns exactly what the abstract store returns that
  hands out the least unused id from 1 to 128 and forgets an id on free, and the slots represent
  the abstract owners afterwards.
\<close>

theorem kv_manager_refines_map:
  "spec_run ops Map.empty = (fst (kv_run ops kv_new), kv_owner (snd (kv_run ops kv_new)))"
  using kv_run_refines [OF kv_inv_new, of ops] by (simp add: kv_owner_new)

text \<open>
  In every state reached from boot the counter equals the number of live blocks, every live
  block sits in the slot its id names and owns a page of 4096 bytes.
\<close>

theorem kv_manager_invariant:
  "let m = snd (kv_run ops kv_new) in
     length (kv_blocks m) = 128
     \<and> get_allocated_count m = of_nat (length (for_each_block m))
     \<and> length (for_each_block m) \<le> 128
     \<and> list_all (\<lambda>b. kv_blocks m ! (unat (kv_id b) - 1) = Some b
          \<and> kv_size_bytes b = KV_CACHE_PAGE_SIZE) (for_each_block m)"
proof -
  define m where "m = snd (kv_run ops kv_new)"
  have inv: "kv_inv m" using kv_run_refines [OF kv_inv_new] by (simp add: m_def)
  have "kv_blocks m ! (unat (kv_id b) - 1) = Some b \<and> kv_size_bytes b = 4096"
    if "b \<in> set (for_each_block m)" for b
  proof -
    from that have "Some b \<in> set (kv_blocks m)" by (simp add: for_each_block_def)
    then obtain i where "i < 128" "kv_blocks m ! i = Some b"
      using inv by (auto simp: kv_inv_def in_set_conv_nth)
    then show ?thesis using inv by (auto simp: kv_inv_def unat_slot_id)
  qed
  moreover have "length (filter (\<lambda>s. s \<noteq> None) (kv_blocks m)) \<le> 128"
    using inv length_filter_le [of "\<lambda>s. s \<noteq> None" "kv_blocks m"] by (simp add: kv_inv_def)
  ultimately show ?thesis
    using inv unfolding m_def [symmetric]
    by (simp add: Let_def list_all_iff kv_inv_def get_allocated_count_def for_each_block_def length_flatten)
qed

end
