(* ===== verification/Paging.thy ===== *)
theory Paging
  imports Prelude
begin

text \<open>
  Model of \<^verbatim>\<open>memory/frame_allocator.rs\<close>, \<^verbatim>\<open>memory/heap.rs\<close>, \<^verbatim>\<open>memory/user_page.rs\<close> and
  \<^verbatim>\<open>memory/paging.rs\<close>. The page tables belong to the \<^verbatim>\<open>x86_64\<close> crate: the model has them as a
  record of operations on an unknown mapper state, and the theorems name what they rely on, which is
  the documented behaviour of \<^verbatim>\<open>map_to\<close>, \<^verbatim>\<open>translate\<close> and \<^verbatim>\<open>VirtAddr::try_new\<close>. Frames are the
  addresses of their first byte; addresses of the memory map are below 2^52, where \<^verbatim>\<open>PhysAddr::new\<close> does not
  panic. Handing the mapped range to the heap allocator (another crate) is not modelled.
\<close>

section \<open>Definitions: the frame allocator\<close>

record memory_region =
  mr_start :: u64
  mr_end :: u64
  mr_usable :: bool

record boot_info_frame_allocator =
  memory_regions :: "memory_region list"
  next_frame :: nat

definition frame_allocator_init :: "memory_region list \<Rightarrow> boot_info_frame_allocator" where
  "frame_allocator_init regions = \<lparr>memory_regions = regions, next_frame = 0\<rparr>"

text \<open>\<^verbatim>\<open>Iterator::step_by\<close>: the first element and every \<open>k\<close>-th after it.\<close>

definition step_by :: "nat \<Rightarrow> 'a list \<Rightarrow> 'a list" where
  "step_by k xs = map (\<lambda>i. xs ! (i * k)) [0..<(length xs + k - 1) div k]"

definition region_addresses :: "memory_region \<Rightarrow> nat list" where
  "region_addresses r = [unat (mr_start r)..<unat (mr_end r)]"

definition usable_frames :: "boot_info_frame_allocator \<Rightarrow> nat list" where
  "usable_frames a =
     map (\<lambda>addr. addr div 4096 * 4096)
       (step_by 4096 (concat (map region_addresses (filter mr_usable (memory_regions a)))))"

definition allocate_frame :: "boot_info_frame_allocator \<Rightarrow> nat option \<times> boot_info_frame_allocator" where
  "allocate_frame a =
     ((if next_frame a < length (usable_frames a) then Some (usable_frames a ! next_frame a) else None),
      a\<lparr>next_frame := next_frame a + 1\<rparr>)"

section \<open>Definitions: mapping pages\<close>

definition PRESENT :: u64 where "PRESENT = 0x1"
definition WRITABLE :: u64 where "WRITABLE = 0x2"
definition USER_ACCESSIBLE :: u64 where "USER_ACCESSIBLE = 0x4"

text \<open>
  The page tables: mapping a page to a frame (which may take frames for tables), the flags of the
  page an address is in, if it is mapped, and which numbers are canonical addresses.
\<close>

record 'm page_tables =
  map_to :: "u64 \<Rightarrow> nat \<Rightarrow> u64 \<Rightarrow> 'm \<times> boot_info_frame_allocator \<Rightarrow> unit outcome \<times> 'm \<times> boot_info_frame_allocator"
  translate :: "'m \<Rightarrow> u64 \<Rightarrow> u64 option"
  try_new :: "u64 \<Rightarrow> bool"

definition HEAP_START :: u64 where "HEAP_START = 0x444444440000"
definition HEAP_SIZE :: u64 where "HEAP_SIZE = 1024 * 1024"
definition USER_TEST_PAGE_ADDR :: u64 where "USER_TEST_PAGE_ADDR = 0x555555550000"
definition USER_DISK_PROGRAM_PAGE_ADDR :: u64 where "USER_DISK_PROGRAM_PAGE_ADDR = 0x666666660000"
definition USER_DISK_PROGRAM_STACK_ADDR :: u64 where "USER_DISK_PROGRAM_STACK_ADDR = 0x777777770000"
definition USER_DISK_PROGRAM_DATA_ADDR :: u64 where "USER_DISK_PROGRAM_DATA_ADDR = 0x333333330000"

definition map_page :: "'m page_tables \<Rightarrow> u64 \<Rightarrow> u64 \<Rightarrow> ('m \<times> boot_info_frame_allocator, unit) io" where
  "map_page pt flags page s =
     (case s of (m, a) \<Rightarrow> case allocate_frame a of
        (None, a') \<Rightarrow> (Err ''FrameAllocationFailed'', (m, a'))
      | (Some frame, a') \<Rightarrow> map_to pt page frame flags (m, a'))"

fun map_pages :: "'m page_tables \<Rightarrow> u64 \<Rightarrow> u64 list \<Rightarrow> ('m \<times> boot_info_frame_allocator, unit) io" where
  "map_pages pt flags [] = io_ret ()"
| "map_pages pt flags (page # pages) = io_bind (map_page pt flags page) (\<lambda>_. map_pages pt flags pages)"

definition heap_pages :: "u64 list" where
  "heap_pages =
     (let first = HEAP_START div 4096; last_page = (HEAP_START + HEAP_SIZE - 1) div 4096
      in map (\<lambda>n. of_nat n * 4096) [unat first..<Suc (unat last_page)])"

definition init_heap :: "'m page_tables \<Rightarrow> ('m \<times> boot_info_frame_allocator, unit) io" where
  "init_heap pt = map_pages pt (PRESENT OR WRITABLE) heap_pages"

definition map_user_page_at :: "'m page_tables \<Rightarrow> u64 \<Rightarrow> ('m \<times> boot_info_frame_allocator, unit) io" where
  "map_user_page_at pt addr = map_page pt (PRESENT OR WRITABLE OR USER_ACCESSIBLE) (addr div 4096 * 4096)"

definition map_user_test_page :: "'m page_tables \<Rightarrow> ('m \<times> boot_info_frame_allocator, unit) io" where
  "map_user_test_page pt = map_user_page_at pt USER_TEST_PAGE_ADDR"

section \<open>Definitions: checking pointers\<close>

definition pointer_has_flags :: "'m page_tables \<Rightarrow> 'm \<Rightarrow> u64 \<Rightarrow> u64 \<Rightarrow> bool" where
  "pointer_has_flags pt m addr required \<longleftrightarrow>
     (if addr = 0 then False
      else if \<not> try_new pt addr then False
      else case translate pt m addr of None \<Rightarrow> False | Some flags \<Rightarrow> flags AND required = required)"

definition range_has_flags :: "'m page_tables \<Rightarrow> 'm \<Rightarrow> u64 \<Rightarrow> u64 \<Rightarrow> u64 \<Rightarrow> bool" where
  "range_has_flags pt m addr len_bytes required \<longleftrightarrow>
     (if len_bytes = 0 then True
      else if 2 ^ 64 \<le> unat addr + unat (len_bytes - 1) then False
      else
        let last_byte = addr + (len_bytes - 1);
            first_page = addr div 4096;
            last_page = last_byte div 4096
        in list_all (\<lambda>page. pointer_has_flags pt m (of_nat page * 4096) required)
             [unat first_page..<Suc (unat last_page)])"

definition range_is_mapped :: "'m page_tables \<Rightarrow> 'm \<Rightarrow> u64 \<Rightarrow> u64 \<Rightarrow> bool" where
  "range_is_mapped pt m addr len_bytes = range_has_flags pt m addr len_bytes PRESENT"

definition range_is_user_accessible :: "'m page_tables \<Rightarrow> 'm \<Rightarrow> u64 \<Rightarrow> u64 \<Rightarrow> bool" where
  "range_is_user_accessible pt m addr len_bytes = range_has_flags pt m addr len_bytes (PRESENT OR USER_ACCESSIBLE)"

section \<open>Ranges\<close>

text \<open>Flags and canonicity are the same on a whole page.\<close>

definition page_uniform :: "'m page_tables \<Rightarrow> bool" where
  "page_uniform pt \<longleftrightarrow> (\<forall>a b. a div 4096 = b div 4096 \<longrightarrow> try_new pt a = try_new pt b)
     \<and> (\<forall>m a b. a div 4096 = b div 4096 \<longrightarrow> translate pt m a = translate pt m b)"

text \<open>An address that is not on the first page of memory and is mapped with the required flags.\<close>

definition accessible :: "'m page_tables \<Rightarrow> 'm \<Rightarrow> u64 \<Rightarrow> u64 \<Rightarrow> bool" where
  "accessible pt m required a \<longleftrightarrow> 4096 \<le> unat a \<and> try_new pt a
     \<and> (\<exists>flags. translate pt m a = Some flags \<and> flags AND required = required)"

lemma unat_page: "unat (a div 4096 * 4096 :: u64) = unat a div 4096 * 4096"
proof -
  have "unat a div 4096 * 4096 \<le> unat a" by simp
  moreover have "unat a < 2 ^ 64" by simp
  ultimately have "unat a div 4096 * 4096 < 2 ^ 64" by (rule le_less_trans)
  then show ?thesis by (simp add: unat_word_ariths unat_div)
qed

lemma page_of_page: "(a div 4096 * 4096 :: u64) div 4096 = a div 4096"
  by (simp add: word_unat_eq_iff unat_page unat_div)

lemma pointer_has_flags_page:
  assumes "page_uniform pt"
  shows "pointer_has_flags pt m (a div 4096 * 4096) required \<longleftrightarrow> accessible pt m required a"
proof -
  have "a div 4096 * 4096 = 0 \<longleftrightarrow> unat a < 4096"
    by (simp add: word_unat_eq_iff unat_page div_eq_0_iff)
  moreover have "try_new pt (a div 4096 * 4096) = try_new pt a" "translate pt m (a div 4096 * 4096) = translate pt m a"
    using assms page_of_page [of a] unfolding page_uniform_def by blast+
  ultimately show ?thesis
    by (auto simp: pointer_has_flags_def accessible_def split: option.splits)
qed

lemma pages_image:
  assumes "0 < (n :: nat)"
  shows "{a div 4096..<Suc ((a + (n - 1)) div 4096)} = (\<lambda>k. (a + k) div 4096) ` {..<n}"
proof
  show "(\<lambda>k. (a + k) div 4096) ` {..<n} \<subseteq> {a div 4096..<Suc ((a + (n - 1)) div 4096)}"
    by (auto simp: less_Suc_eq_le intro!: div_le_mono)
  show "{a div 4096..<Suc ((a + (n - 1)) div 4096)} \<subseteq> (\<lambda>k. (a + k) div 4096) ` {..<n}"
  proof
    fix p
    assume p: "p \<in> {a div 4096..<Suc ((a + (n - 1)) div 4096)}"
    show "p \<in> (\<lambda>k. (a + k) div 4096) ` {..<n}"
    proof (cases "p = a div 4096")
      case False
      then have "a < p * 4096" using p by auto
      moreover have "p * 4096 \<le> a + (n - 1)" using p by (simp add: less_Suc_eq_le less_eq_div_iff_mult_less_eq)
      ultimately have "p = (a + (p * 4096 - a)) div 4096" "p * 4096 - a < n" using assms by auto
      then show ?thesis by blast
    qed (use assms in \<open>auto intro!: image_eqI [of _ _ 0]\<close>)
  qed
qed

lemma range_has_flags_eq:
  assumes "page_uniform pt" "len_bytes \<noteq> 0"
  shows "range_has_flags pt m addr len_bytes required \<longleftrightarrow>
     unat addr + unat len_bytes \<le> 2 ^ 64 \<and> (\<forall>k<unat len_bytes. accessible pt m required (addr + of_nat k))"
proof (cases "unat addr + unat (len_bytes - 1) < 2 ^ 64")
  case False
  have "unat (len_bytes - 1) < unat len_bytes" using assms(2) by (simp add: measure_unat)
  then show ?thesis using False assms(2) by (simp add: range_has_flags_def)
next
  case True
  have l1: "unat (len_bytes - 1) = unat len_bytes - 1" and pos: "0 < unat len_bytes"
    using assms(2) by (simp_all add: unat_minus_one unat_gt_0)
  have last: "unat (addr + (len_bytes - 1)) = unat addr + (unat len_bytes - 1)"
    using True by (simp add: unat_word_ariths l1)
  have u: "unat (addr + of_nat k) = unat addr + k" if "k < unat len_bytes" for k
    using that True l1 by (simp add: unat_word_ariths unat_of_nat)
  let ?P = "\<lambda>page. pointer_has_flags pt m (of_nat page * 4096) required"
  have acc: "accessible pt m required (addr + of_nat k) \<longleftrightarrow> ?P ((unat addr + k) div 4096)" if "k < unat len_bytes" for k
  proof -
    have "(addr + of_nat k) div 4096 = of_nat ((unat addr + k) div 4096)"
      using u [OF that] unat_u64_less [of "addr + of_nat k"] by (simp add: word_unat_eq_iff unat_div unat_of_nat)
    then show ?thesis using pointer_has_flags_page [OF assms(1), of m "addr + of_nat k" required] by simp
  qed
  have pages: "{unat addr div 4096..<Suc ((unat addr + (unat len_bytes - 1)) div 4096)}
      = (\<lambda>k. (unat addr + k) div 4096) ` {..<unat len_bytes}"
    by (rule pages_image [OF pos])
  have "range_has_flags pt m addr len_bytes required \<longleftrightarrow>
      (\<forall>page \<in> {unat addr div 4096..<Suc ((unat addr + (unat len_bytes - 1)) div 4096)}. ?P page)"
    using assms(2) True last by (simp add: range_has_flags_def list_all_iff unat_div Let_def del: upt_Suc)
  also have "\<dots> \<longleftrightarrow> (\<forall>k<unat len_bytes. ?P ((unat addr + k) div 4096))" unfolding pages by auto
  finally show ?thesis using acc True l1 pos by auto
qed

section \<open>Frames\<close>

lemma ceil_exact: "0 < (k :: nat) \<Longrightarrow> (n * k + k - 1) div k = n"
  by (rule div_nat_eqI) (auto simp: algebra_simps)

lemma step_by_append:
  assumes "0 < k" "k dvd length xs"
  shows "step_by k (xs @ ys) = step_by k xs @ step_by k ys"
proof -
  obtain n where n: "length xs = n * k" using assms(2) by (metis dvdE mult.commute)
  have e: "(n * k + k - 1) div k = n" by (rule ceil_exact [OF assms(1)])
  have "n * k + length ys + k - 1 = (length ys + k - 1) + n * k" using assms(1) by simp
  then have "(n * k + length ys + k - 1) div k = n + (length ys + k - 1) div k"
    using assms(1) by (simp only: div_mult_self1)
  then have u: "[0..<(length (xs @ ys) + k - 1) div k] = [0..<n] @ map (\<lambda>i. n + i) [0..<(length ys + k - 1) div k]"
    using upt_add_eq_append [of 0 n "(length ys + k - 1) div k"] n by (simp add: map_add_upt add.commute)
  have "i * k < n * k" if "i < n" for i using that assms(1) by simp
  then show ?thesis
    unfolding step_by_def u using n e by (auto simp: nth_append distrib_right)
qed

lemma step_by_upt:
  assumes "0 < k" "a \<le> b" "k dvd b - a"
  shows "step_by k [a..<b] = map (\<lambda>i. a + i * k) [0..<(b - a) div k]"
proof -
  obtain n where n: "b - a = n * k" using assms(3) by (metis dvdE mult.commute)
  have "(n * k + k - 1) div k = n" by (rule ceil_exact [OF assms(1)])
  moreover have "i * k < n * k" if "i < n" for i using that assms(1) by simp
  moreover have "b = a + n * k" using n assms(2) by simp
  ultimately show ?thesis using assms(1) by (auto simp: step_by_def)
qed

text \<open>A region made of whole pages, and the first addresses of its pages.\<close>

definition page_aligned :: "memory_region \<Rightarrow> bool" where
  "page_aligned r \<longleftrightarrow> mr_start r \<le> mr_end r \<and> 4096 dvd unat (mr_start r) \<and> 4096 dvd unat (mr_end r)"

definition region_frames :: "memory_region \<Rightarrow> nat list" where
  "region_frames r = map (\<lambda>i. unat (mr_start r) + i * 4096) [0..<(unat (mr_end r) - unat (mr_start r)) div 4096]"

lemma region_frames_mem:
  assumes "page_aligned r"
  shows "f \<in> set (region_frames r) \<longleftrightarrow> 4096 dvd f \<and> f \<in> set (region_addresses r)"
proof -
  obtain s e where s: "unat (mr_start r) = s * 4096" "unat (mr_end r) = e * 4096" "s \<le> e"
    using assms by (auto simp: page_aligned_def word_le_nat_alt elim!: dvdE)
  show ?thesis
  proof
    assume "f \<in> set (region_frames r)"
    then obtain i where "f = s * 4096 + i * 4096" "i < e - s" by (auto simp: region_frames_def s)
    then show "4096 dvd f \<and> f \<in> set (region_addresses r)" by (auto simp: region_addresses_def s)
  next
    assume "4096 dvd f \<and> f \<in> set (region_addresses r)"
    then obtain g where "f = g * 4096" "s \<le> g" "g < e" by (auto simp: region_addresses_def s elim!: dvdE)
    then show "f \<in> set (region_frames r)"
      by (auto simp: region_frames_def s intro!: image_eqI [of _ _ "g - s"])
  qed
qed

lemma step_by_regions:
  "\<forall>r \<in> set rs. page_aligned r \<Longrightarrow> step_by 4096 (concat (map region_addresses rs)) = concat (map region_frames rs)"
proof (induction rs)
  case Nil
  then show ?case by (simp add: step_by_def)
next
  case (Cons r rs)
  have r: "page_aligned r" using Cons.prems by simp
  then have d: "4096 dvd length (region_addresses r)" by (auto simp: page_aligned_def region_addresses_def word_le_nat_alt)
  have "step_by 4096 (region_addresses r) = region_frames r"
    using r unfolding region_addresses_def region_frames_def
    by (intro step_by_upt) (auto simp: page_aligned_def word_le_nat_alt)
  then show ?case using Cons step_by_append [OF _ d] by simp
qed

lemma usable_frames_eq:
  assumes "\<forall>r \<in> set (memory_regions a). mr_usable r \<longrightarrow> page_aligned r"
  shows "usable_frames a = concat (map region_frames (filter mr_usable (memory_regions a)))"
proof -
  have "\<forall>r \<in> set (filter mr_usable (memory_regions a)). page_aligned r" using assms by simp
  from step_by_regions [OF this] show ?thesis
    unfolding usable_frames_def using assms region_frames_mem by (auto intro!: map_idI simp: dvd_div_mult_self)
qed

lemma distinct_region_frames: "distinct (region_frames r)"
  by (auto simp: region_frames_def distinct_map inj_on_def)

lemma distinct_frames:
  "\<forall>r \<in> set rs. page_aligned r \<Longrightarrow> distinct (concat (map region_addresses rs)) \<Longrightarrow> distinct (concat (map region_frames rs))"
proof (induction rs)
  case (Cons r rs)
  then show ?case using region_frames_mem by (auto simp: distinct_region_frames) blast
qed simp

fun allocate_frames :: "nat \<Rightarrow> boot_info_frame_allocator \<Rightarrow> nat option list" where
  "allocate_frames 0 a = []"
| "allocate_frames (Suc n) a = (case allocate_frame a of (f, a') \<Rightarrow> f # allocate_frames n a')"

lemma allocate_frames_eq:
  "allocate_frames n a = map (\<lambda>i. if i < length (usable_frames a) then Some (usable_frames a ! i) else None)
     [next_frame a..<next_frame a + n]"
proof (induction n arbitrary: a)
  case (Suc n)
  have "usable_frames (a\<lparr>next_frame := k\<rparr>) = usable_frames a" for k by (simp add: usable_frames_def)
  then show ?case
    using Suc [of "a\<lparr>next_frame := Suc (next_frame a)\<rparr>"] by (simp add: allocate_frame_def upt_conv_Cons del: upt_Suc)
qed simp

section \<open>Mapped pages\<close>

text \<open>What \<^verbatim>\<open>map_to\<close> promises: on success the page has the given flags and nothing else has changed.\<close>

definition map_law :: "'m page_tables \<Rightarrow> bool" where
  "map_law pt \<longleftrightarrow> (\<forall>page frame flags m a m' a'. map_to pt page frame flags (m, a) = (Ok (), (m', a')) \<longrightarrow>
     (\<forall>x. translate pt m' x = (if x div 4096 = page div 4096 then Some flags else translate pt m x)))"

lemma map_page_translate:
  assumes "map_law pt" "map_page pt flags page (m, a) = (Ok (), (m', a'))"
  shows "translate pt m' x = (if x div 4096 = page div 4096 then Some flags else translate pt m x)"
proof -
  obtain f a1 where f: "allocate_frame a = (f, a1)" by (cases "allocate_frame a")
  then obtain frame where "f = Some frame" using assms(2) by (cases f) (auto simp: map_page_def)
  then have "map_to pt page frame flags (m, a1) = (Ok (), (m', a'))" using assms(2) f by (simp add: map_page_def)
  then show ?thesis using assms(1) unfolding map_law_def by blast
qed

lemma map_pages_translate:
  "map_law pt \<Longrightarrow> map_pages pt flags pages (m, a) = (Ok (), (m', a')) \<Longrightarrow>
   translate pt m' x = (if \<exists>page \<in> set pages. x div 4096 = page div 4096 then Some flags else translate pt m x)"
proof (induction pages arbitrary: m a)
  case (Cons page pages)
  obtain m1 a1 where "map_page pt flags page (m, a) = (Ok (), (m1, a1))" "map_pages pt flags pages (m1, a1) = (Ok (), (m', a'))"
    using Cons.prems(2) by (auto simp: io_bind_eq_Ok)
  then show ?case using Cons.IH [OF Cons.prems(1)] map_page_translate [OF Cons.prems(1)] by simp
qed simp

definition in_heap :: "u64 \<Rightarrow> bool" where
  "in_heap x \<longleftrightarrow> HEAP_START \<le> x \<and> x < HEAP_START + HEAP_SIZE"

lemma in_heap_pages: "(\<exists>page \<in> set heap_pages. x div 4096 = page div 4096) \<longleftrightarrow> in_heap x"
proof -
  have h: "unat (HEAP_START div 4096) = 0x444444440" "unat ((HEAP_START + HEAP_SIZE - 1) div 4096) = 0x44444453F"
    by (simp_all add: HEAP_START_def HEAP_SIZE_def)
  have p: "(of_nat n * 4096 :: u64) div 4096 = of_nat n" if "n < 0x444444540" for n
    using that by (simp add: word_unat_eq_iff unat_div unat_word_ariths unat_of_nat)
  have hp: "set heap_pages = (\<lambda>n. of_nat n * 4096) ` {0x444444440..<0x444444540}"
    unfolding heap_pages_def Let_def h set_map set_upt by (simp add: numeral_eq_Suc [symmetric])
  have "(\<exists>page \<in> set heap_pages. x div 4096 = page div 4096) \<longleftrightarrow> (\<exists>n \<in> {0x444444440..<0x444444540}. x div 4096 = of_nat n)"
    by (auto simp: hp p)
  also have "\<dots> \<longleftrightarrow> 0x444444440 \<le> unat x div 4096 \<and> unat x div 4096 < 0x444444540"
  proof
    assume "\<exists>n \<in> {0x444444440..<0x444444540}. x div 4096 = of_nat n"
    then obtain n where n: "n \<in> {0x444444440..<0x444444540}" "x div 4096 = of_nat n" by blast
    have "unat x div 4096 = unat (x div 4096)" by (simp add: unat_div)
    also have "\<dots> = n" unfolding n(2) using n(1) by (simp add: unat_of_nat)
    finally have "unat x div 4096 = n" .
    then show "0x444444440 \<le> unat x div 4096 \<and> unat x div 4096 < 0x444444540" using n(1) by simp
  next
    assume a: "0x444444440 \<le> unat x div 4096 \<and> unat x div 4096 < 0x444444540"
    have u: "unat (x div 4096) = unat x div 4096" by (simp add: unat_div)
    have "x div 4096 = of_nat (unat (x div 4096))" by simp
    then have "x div 4096 = of_nat (unat x div 4096)" by (simp only: u)
    then show "\<exists>n \<in> {0x444444440..<0x444444540}. x div 4096 = of_nat n" using a by auto
  qed
  also have "\<dots> \<longleftrightarrow> in_heap x"
    by (simp add: in_heap_def HEAP_START_def HEAP_SIZE_def word_le_nat_alt word_less_nat_alt less_eq_div_iff_mult_less_eq
        div_less_iff_less_mult)
  finally show ?thesis .
qed

definition user_page_addrs :: "u64 list" where
  "user_page_addrs = [USER_TEST_PAGE_ADDR, USER_DISK_PROGRAM_PAGE_ADDR, USER_DISK_PROGRAM_STACK_ADDR, USER_DISK_PROGRAM_DATA_ADDR]"

lemma user_pages_outside_heap:
  "u \<in> set user_page_addrs \<Longrightarrow> in_heap x \<Longrightarrow> x div 4096 \<noteq> u div 4096"
proof
  assume u: "u \<in> set user_page_addrs" and x: "in_heap x" "x div 4096 = u div 4096"
  have "unat u div 4096 \<in> {0x555555550, 0x666666660, 0x777777770, 0x333333330}"
    using u by (auto simp: user_page_addrs_def USER_TEST_PAGE_ADDR_def USER_DISK_PROGRAM_PAGE_ADDR_def
        USER_DISK_PROGRAM_STACK_ADDR_def USER_DISK_PROGRAM_DATA_ADDR_def)
  moreover have "unat x div 4096 = unat u div 4096" using arg_cong [OF x(2), of unat] by (simp add: unat_div)
  moreover have "0x444444440 \<le> unat x div 4096" "unat x div 4096 < 0x444444540"
    using x(1) by (simp_all add: in_heap_def HEAP_START_def HEAP_SIZE_def word_le_nat_alt word_less_nat_alt
        less_eq_div_iff_mult_less_eq div_less_iff_less_mult)
  ultimately show False by auto
qed

section \<open>Properties\<close>

text \<open>
  C6: The pointer check of the system calls is exact. For a non-empty range of any length
  \<^verbatim>\<open>range_is_user_accessible\<close> accepts exactly when the range does not run past the end of the address space
  and every byte of it is outside the first page, at a canonical address and on a page that is
  present and user accessible; \<^verbatim>\<open>range_is_mapped\<close> likewise without the latter. An empty
  range is always accepted. The page tables treat the addresses of a page alike.
\<close>

theorem range_check_exact:
  assumes "page_uniform pt"
  shows "(len_bytes = 0 \<longrightarrow> range_is_user_accessible pt m addr len_bytes \<and> range_is_mapped pt m addr len_bytes)
    \<and> (len_bytes \<noteq> 0 \<longrightarrow>
        (range_is_user_accessible pt m addr len_bytes \<longleftrightarrow> unat addr + unat len_bytes \<le> 2 ^ 64
           \<and> (\<forall>k<unat len_bytes. accessible pt m (PRESENT OR USER_ACCESSIBLE) (addr + of_nat k)))
        \<and> (range_is_mapped pt m addr len_bytes \<longleftrightarrow> unat addr + unat len_bytes \<le> 2 ^ 64
           \<and> (\<forall>k<unat len_bytes. accessible pt m PRESENT (addr + of_nat k))))"
  using range_has_flags_eq [OF assms]
  by (simp add: range_is_user_accessible_def range_is_mapped_def) (simp add: range_has_flags_def)

text \<open>
  C25: Physical memory is handed out once. When the usable regions consist of whole pages and no
  address is listed twice, repeated allocation yields the pages of the usable regions, each exactly
  once and nothing else, in the order of the memory map, and then fails for good.
\<close>

theorem frames_handed_out_once:
  fixes regions :: "memory_region list"
  assumes "\<forall>r \<in> set regions. mr_usable r \<longrightarrow> page_aligned r"
    "distinct (concat (map region_addresses (filter mr_usable regions)))"
  defines "a \<equiv> frame_allocator_init regions"
  shows "allocate_frames n a = map Some (take n (usable_frames a)) @ replicate (n - length (usable_frames a)) None
    \<and> distinct (usable_frames a)
    \<and> set (usable_frames a) = {f. 4096 dvd f \<and> (\<exists>r \<in> set regions. mr_usable r \<and> unat (mr_start r) \<le> f \<and> f < unat (mr_end r))}"
proof -
  have reg: "memory_regions a = regions" "next_frame a = 0" by (simp_all add: a_def frame_allocator_init_def)
  have eq: "usable_frames a = concat (map region_frames (filter mr_usable regions))"
    using usable_frames_eq [of a] assms(1) reg by simp
  have al: "\<forall>r \<in> set (filter mr_usable regions). page_aligned r" using assms(1) by simp
  have "allocate_frames n a = map Some (take n fs) @ replicate (n - length fs) None" if "fs = usable_frames a" for fs
    unfolding allocate_frames_eq reg that [symmetric]
    by (rule nth_equalityI) (auto simp: nth_append min_def)
  moreover have "set (usable_frames a) = {f. 4096 dvd f \<and> (\<exists>r \<in> set regions. mr_usable r \<and> unat (mr_start r) \<le> f \<and> f < unat (mr_end r))}"
    using region_frames_mem assms(1) by (auto simp: eq region_addresses_def)
  ultimately show ?thesis using distinct_frames [OF al assms(2)] eq by simp
qed

theorem frames_handed_out_once_witness:
  defines "regions \<equiv> [\<lparr>mr_start = 0, mr_end = 0x1000, mr_usable = False\<rparr>, \<lparr>mr_start = 0x1000, mr_end = 0x3000, mr_usable = True\<rparr>,
      \<lparr>mr_start = 0x8000, mr_end = 0x9000, mr_usable = True\<rparr>]"
  shows "allocate_frames 4 (frame_allocator_init regions) = [Some 0x1000, Some 0x2000, Some 0x8000, None]"
proof -
  let ?a = "frame_allocator_init regions"
  have al: "\<forall>r \<in> set regions. mr_usable r \<longrightarrow> page_aligned r" by (simp add: regions_def page_aligned_def)
  have d: "distinct (concat (map region_addresses (filter mr_usable regions)))"
    unfolding regions_def filter.simps memory_region.simps if_True if_False list.map concat.simps distinct_append region_addresses_def
    by (simp only: distinct_upt set_upt set_append) auto
  have "[0..<2] = [0, 1 :: nat]" by (simp add: numeral_2_eq_2)
  then have "usable_frames ?a = [0x1000, 0x2000, 0x8000]"
    using usable_frames_eq [of ?a] al by (simp add: frame_allocator_init_def regions_def region_frames_def)
  then show ?thesis using frames_handed_out_once [OF al d, of 4] by simp
qed

text \<open>
  C26: The kernel heap stays private. After \<^verbatim>\<open>init_heap\<close> and the mapping of any of the user
  pages have succeeded, in this order, every heap address is mapped and not user accessible,
  and every address of the user page is user accessible.
\<close>

theorem heap_stays_private:
  assumes "map_law pt" "init_heap pt (m, a) = (Ok (), (m1, a1))" "u \<in> set user_page_addrs"
    "map_user_page_at pt u (m1, a1) = (Ok (), (m2, a2))"
  shows "(in_heap x \<longrightarrow> translate pt m2 x = Some (PRESENT OR WRITABLE) \<and> \<not> accessible pt m2 (PRESENT OR USER_ACCESSIBLE) x)
    \<and> (x div 4096 = u div 4096 \<longrightarrow> translate pt m2 x = Some (PRESENT OR WRITABLE OR USER_ACCESSIBLE))"
proof -
  have m1: "translate pt m1 x = (if in_heap x then Some (PRESENT OR WRITABLE) else translate pt m x)" for x
    using map_pages_translate [OF assms(1), of "PRESENT OR WRITABLE" heap_pages m a m1 a1 x] assms(2) in_heap_pages
    by (simp add: init_heap_def)
  have m2: "translate pt m2 x = (if x div 4096 = u div 4096 then Some (PRESENT OR WRITABLE OR USER_ACCESSIBLE) else translate pt m1 x)" for x
    using map_page_translate [OF assms(1), of _ "u div 4096 * 4096"] assms(4) page_of_page by (simp add: map_user_page_at_def)
  have "(PRESENT OR WRITABLE) AND (PRESENT OR USER_ACCESSIBLE) \<noteq> PRESENT OR USER_ACCESSIBLE"
    by (simp add: PRESENT_def WRITABLE_def USER_ACCESSIBLE_def)
  then show ?thesis
    using m1 m2 user_pages_outside_heap [OF assms(3), of x] by (auto simp: accessible_def)
qed

text \<open>Page tables as a map from page numbers to flags.\<close>

definition map_tables :: "(u64 \<rightharpoonup> u64) page_tables" where
  "map_tables = \<lparr>
     map_to = (\<lambda>page frame flags (m, a). if m (page div 4096) = None then (Ok (), (m(page div 4096 \<mapsto> flags), a))
       else (Err ''PageAlreadyMapped'', (m, a))),
     translate = (\<lambda>m x. m (x div 4096)),
     try_new = (\<lambda>x. x < 0x800000000000 \<or> 0xFFFF800000000000 \<le> x)\<rparr>"

lemma map_tables_law: "map_law map_tables"
  by (auto simp: map_law_def map_tables_def split: if_splits)

lemma map_tables_uniform: "page_uniform map_tables"
proof -
  have "x < 0x800000000000 \<longleftrightarrow> unat (x div 4096) < 0x800000000" "0xFFFF800000000000 \<le> x \<longleftrightarrow> 0xFFFF800000000 \<le> unat (x div 4096)" for x :: u64
    by (simp_all add: word_less_nat_alt word_le_nat_alt unat_div div_less_iff_less_mult less_eq_div_iff_mult_less_eq)
  then show ?thesis by (auto simp: page_uniform_def map_tables_def)
qed

lemma map_tables_pages:
  "distinct (map (\<lambda>p. p div 4096) pages) \<Longrightarrow> \<forall>p \<in> set pages. m (p div 4096) = None \<Longrightarrow>
   next_frame a + length pages \<le> length (usable_frames a) \<Longrightarrow>
   \<exists>m'. map_pages map_tables flags pages (m, a) = (Ok (), (m', a\<lparr>next_frame := next_frame a + length pages\<rparr>))
     \<and> (\<forall>x. x \<notin> (\<lambda>p. p div 4096) ` set pages \<longrightarrow> m' x = m x)"
proof (induction pages arbitrary: m a)
  case (Cons p pages)
  define m1 where "m1 = m(p div 4096 \<mapsto> flags)"
  define a1 where "a1 = a\<lparr>next_frame := Suc (next_frame a)\<rparr>"
  have run: "map_page map_tables flags p (m, a) = (Ok (), (m1, a1))"
    using Cons.prems by (simp add: map_page_def allocate_frame_def map_tables_def m1_def a1_def)
  have free: "\<forall>q \<in> set pages. m1 (q div 4096) = None" using Cons.prems by (auto simp: m1_def image_iff)
  have "usable_frames a1 = usable_frames a" by (simp add: usable_frames_def a1_def)
  then have le: "next_frame a1 + length pages \<le> length (usable_frames a1)" using Cons.prems by (simp add: a1_def)
  obtain m' where m': "map_pages map_tables flags pages (m1, a1) = (Ok (), (m', a1\<lparr>next_frame := next_frame a1 + length pages\<rparr>))"
      "\<forall>x. x \<notin> (\<lambda>p. p div 4096) ` set pages \<longrightarrow> m' x = m1 x"
    using Cons.IH [OF _ free le] Cons.prems(1) by auto
  have "map_pages map_tables flags (p # pages) (m, a) = (Ok (), (m', a\<lparr>next_frame := next_frame a + length (p # pages)\<rparr>))"
    using run m'(1) by (simp add: io_bind_def) (simp add: a1_def)
  moreover have "\<forall>x. x \<notin> (\<lambda>p. p div 4096) ` set (p # pages) \<longrightarrow> m' x = m x" using m'(2) by (simp add: m1_def)
  ultimately show ?case by blast
qed simp

definition demo_regions :: "memory_region list" where
  "demo_regions = [\<lparr>mr_start = 0x100000, mr_end = 0x300000, mr_usable = True\<rparr>]"

lemma demo_heap:
  "\<exists>m1 a1 m2 a2. init_heap map_tables (Map.empty, frame_allocator_init demo_regions) = (Ok (), (m1, a1))
     \<and> map_user_page_at map_tables USER_TEST_PAGE_ADDR (m1, a1) = (Ok (), (m2, a2))"
proof -
  let ?a = "frame_allocator_init demo_regions"
  have "length (usable_frames ?a) = 512" "next_frame ?a = 0"
    using usable_frames_eq [of ?a] by (simp_all add: frame_allocator_init_def demo_regions_def page_aligned_def region_frames_def del: upt_rec_numeral)
  moreover have len: "length heap_pages = 256" by (simp add: heap_pages_def HEAP_START_def HEAP_SIZE_def Let_def del: upt_Suc upt_rec_numeral)
  moreover have "distinct (map (\<lambda>p. p div 4096) heap_pages)"
  proof -
    have "(of_nat n * 4096 :: u64) div 4096 = of_nat n" if "n < 0x444444540" for n
      using that by (simp add: word_unat_eq_iff unat_div unat_word_ariths unat_of_nat)
    moreover have "(of_nat n :: u64) = of_nat k \<longleftrightarrow> n = k" if "n < 0x444444540" "k < 0x444444540" for n k :: nat
      using that by (simp add: word_unat_eq_iff unat_of_nat)
    ultimately show ?thesis
      by (auto simp: heap_pages_def HEAP_START_def HEAP_SIZE_def Let_def distinct_map inj_on_def simp del: upt_Suc upt_rec_numeral)
  qed
  ultimately obtain m1 where m1: "init_heap map_tables (Map.empty, ?a) = (Ok (), (m1, ?a\<lparr>next_frame := 256\<rparr>))"
      "\<forall>x. x \<notin> (\<lambda>p. p div 4096) ` set heap_pages \<longrightarrow> m1 x = None"
    using map_tables_pages [of heap_pages Map.empty ?a "PRESENT OR WRITABLE"] by (auto simp: init_heap_def)
  have "\<not> in_heap USER_TEST_PAGE_ADDR" by (simp add: in_heap_def USER_TEST_PAGE_ADDR_def HEAP_START_def HEAP_SIZE_def)
  then have "USER_TEST_PAGE_ADDR div 4096 \<notin> (\<lambda>p. p div 4096) ` set heap_pages"
    using in_heap_pages [of USER_TEST_PAGE_ADDR] by auto
  then have "m1 (USER_TEST_PAGE_ADDR div 4096) = None" using m1(2) by blast
  moreover have "usable_frames (?a\<lparr>next_frame := 256\<rparr>) = usable_frames ?a" by (simp add: usable_frames_def)
  ultimately have "\<exists>m2 a2. map_user_page_at map_tables USER_TEST_PAGE_ADDR (m1, ?a\<lparr>next_frame := 256\<rparr>) = (Ok (), (m2, a2))"
    using \<open>length (usable_frames ?a) = 512\<close>
    by (simp add: map_user_page_at_def map_page_def allocate_frame_def map_tables_def page_of_page)
  then show ?thesis using m1(1) by blast
qed

theorem heap_stays_private_witness:
  "\<exists>m2. translate map_tables m2 0x444444440010 = Some (PRESENT OR WRITABLE)
     \<and> translate map_tables m2 0x555555550FFF = Some (PRESENT OR WRITABLE OR USER_ACCESSIBLE)"
proof -
  obtain m1 a1 m2 a2 where r: "init_heap map_tables (Map.empty, frame_allocator_init demo_regions) = (Ok (), (m1, a1))"
      "map_user_page_at map_tables USER_TEST_PAGE_ADDR (m1, a1) = (Ok (), (m2, a2))"
    using demo_heap by blast
  have u: "USER_TEST_PAGE_ADDR \<in> set user_page_addrs" by (simp add: user_page_addrs_def)
  note h = heap_stays_private [OF map_tables_law r(1) u r(2)]
  have "in_heap 0x444444440010" by (simp add: in_heap_def HEAP_START_def HEAP_SIZE_def)
  moreover have "0x555555550FFF div 4096 = USER_TEST_PAGE_ADDR div 4096" by (simp add: USER_TEST_PAGE_ADDR_def)
  ultimately show ?thesis using h [of "0x444444440010"] h [of "0x555555550FFF"] by blast
qed

theorem range_check_exact_witness:
  "range_is_user_accessible map_tables [0x10 \<mapsto> 7, 0x11 \<mapsto> 7] 0x10FF0 0x20
   \<and> \<not> range_is_user_accessible map_tables [0x10 \<mapsto> 7, 0x11 \<mapsto> 3] 0x10FF0 0x20
   \<and> \<not> range_is_mapped map_tables [0x10 \<mapsto> 7] 0xFFFFFFFFFFFFFFF0 0x20"
proof -
  have pg: "(0x10FF0 + of_nat k :: u64) div 4096 \<in> {0x10, 0x11}" if "k < 0x20" for k
  proof -
    have "(69616 + k) div 4096 = 16 \<or> (69616 + k) div 4096 = 17" using that by linarith
    moreover have "unat ((0x10FF0 + of_nat k :: u64) div 4096) = (69616 + k) div 4096"
      using that by (simp add: unat_div unat_word_ariths unat_of_nat)
    ultimately show ?thesis by (auto simp: word_unat_eq_iff)
  qed
  have lo: "4096 \<le> unat (0x10FF0 + of_nat k :: u64)" "(0x10FF0 + of_nat k :: u64) < 0x800000000000" if "k < 0x20" for k
    using that by (simp_all add: unat_word_ariths unat_of_nat word_less_nat_alt)
  have "\<forall>k<unat (0x20 :: u64). accessible map_tables [0x10 \<mapsto> 7, 0x11 \<mapsto> 7] (PRESENT OR USER_ACCESSIBLE) (0x10FF0 + of_nat k)"
    using pg lo by (fastforce simp: accessible_def map_tables_def PRESENT_def USER_ACCESSIBLE_def)
  moreover have "\<not> accessible map_tables [0x10 \<mapsto> 7, 0x11 \<mapsto> 3] (PRESENT OR USER_ACCESSIBLE) (0x10FF0 + of_nat 0x10)"
    by (simp add: accessible_def map_tables_def PRESENT_def USER_ACCESSIBLE_def)
  then have "\<not> (\<forall>k<unat (0x20 :: u64). accessible map_tables [0x10 \<mapsto> 7, 0x11 \<mapsto> 3] (PRESENT OR USER_ACCESSIBLE) (0x10FF0 + of_nat k))"
    by (intro notI) (drule spec [of _ 16], simp)
  ultimately show ?thesis
    using range_check_exact [OF map_tables_uniform, of "0x20" _ "0x10FF0"]
      range_check_exact [OF map_tables_uniform, of "0x20" _ "0xFFFFFFFFFFFFFFF0"] by simp
qed

end
