(* ===== verification/Tensor_Engine.thy ===== *)
theory Tensor_Engine
  imports Prelude
begin

text \<open>
  Model of \<^verbatim>\<open>tensor_engine.rs\<close>. The arithmetic of \<^verbatim>\<open>f32\<close> is a parameter: a record of the operations the
  source uses on an arbitrary type. Lengths and dimensions are 64-bit words that wrap, slices and
  array accesses panic out of range.
\<close>

section \<open>Definitions\<close>

record 'f f32_ops =
  f_zero :: 'f
  f_add :: "'f \<Rightarrow> 'f \<Rightarrow> 'f"
  f_mul :: "'f \<Rightarrow> 'f \<Rightarrow> 'f"
  f_positive :: "'f \<Rightarrow> bool"
  f_of_bits :: "u32 \<Rightarrow> 'f"
  f_to_bits :: "'f \<Rightarrow> u32"

function dot_by_four :: "'f f32_ops \<Rightarrow> 'f list \<Rightarrow> 'f list \<Rightarrow> nat \<Rightarrow> nat \<Rightarrow> 'f \<Rightarrow> nat \<times> 'f" where
  "dot_by_four ops w x len i acc =
     (if i + 4 \<le> len
      then dot_by_four ops w x len (i + 4)
             (f_add ops acc
               (f_add ops (f_add ops (f_add ops (f_mul ops (w ! i) (x ! i)) (f_mul ops (w ! (i + 1)) (x ! (i + 1))))
                 (f_mul ops (w ! (i + 2)) (x ! (i + 2)))) (f_mul ops (w ! (i + 3)) (x ! (i + 3)))))
      else (i, acc))"
  by pat_completeness auto
termination
  by (relation "measure (\<lambda>(ops, w, x, len, i, acc). len - i)") auto

function dot_rest :: "'f f32_ops \<Rightarrow> 'f list \<Rightarrow> 'f list \<Rightarrow> nat \<Rightarrow> nat \<Rightarrow> 'f \<Rightarrow> 'f" where
  "dot_rest ops w x len i acc =
     (if i < len then dot_rest ops w x len (i + 1) (f_add ops acc (f_mul ops (w ! i) (x ! i))) else acc)"
  by pat_completeness auto
termination
  by (relation "measure (\<lambda>(ops, w, x, len, i, acc). len - i)") auto

declare dot_by_four.simps [simp del] dot_rest.simps [simp del]

definition dot_product :: "'f f32_ops \<Rightarrow> 'f list \<Rightarrow> 'f list \<Rightarrow> 'f" where
  "dot_product ops w x =
     (let len = min (length w) (length x);
          (i, acc) = dot_by_four ops w x len 0 (f_zero ops)
      in dot_rest ops w x len i acc)"

definition relu :: "'f f32_ops \<Rightarrow> 'f \<Rightarrow> 'f" where
  "relu ops val = (if f_positive ops val then val else f_zero ops)"

fun matmul_rows :: "'f f32_ops \<Rightarrow> 'f list \<Rightarrow> 'f list \<Rightarrow> 'f list \<Rightarrow> u64 \<Rightarrow> nat list \<Rightarrow> 'f list \<Rightarrow> 'f list outcome" where
  "matmul_rows ops weights inputs bias in_dim [] outputs = Ok outputs"
| "matmul_rows ops weights inputs bias in_dim (row # rows) outputs =
     (let row_start = of_nat row * in_dim
      in obind (slice weights (unat row_start) (unat (row_start + in_dim))) (\<lambda>row_weights.
         let dot = dot_product ops row_weights inputs;
             b = (if row < length bias then bias ! row else f_zero ops)
         in if row < length outputs
            then matmul_rows ops weights inputs bias in_dim rows (outputs[row := relu ops (f_add ops dot b)])
            else Panic))"

definition matmul_layer :: "'f f32_ops \<Rightarrow> 'f list \<Rightarrow> 'f list \<Rightarrow> 'f list \<Rightarrow> 'f list \<Rightarrow> u64 \<Rightarrow> u64 \<Rightarrow> 'f list outcome" where
  "matmul_layer ops weights inputs bias outputs in_dim out_dim =
     matmul_rows ops weights inputs bias in_dim [0..<unat out_dim] outputs"

section \<open>The dot product\<close>

text \<open>
  The sum the source forms, without any law of the arithmetic: four products at a time are added from left to right
  and then to the sum, the last up to three products one by one. Where addition is associative,
  as in exact arithmetic, this is the sum of all products.
\<close>

fun blocked_sum :: "'f f32_ops \<Rightarrow> 'f \<Rightarrow> 'f list \<Rightarrow> 'f" where
  "blocked_sum ops acc (a # b # c # d # ps) =
     blocked_sum ops (f_add ops acc (f_add ops (f_add ops (f_add ops a b) c) d)) ps"
| "blocked_sum ops acc ps = foldl (f_add ops) acc ps"

definition exact_add :: "'f f32_ops \<Rightarrow> bool" where
  "exact_add ops \<longleftrightarrow> (\<forall>a b c. f_add ops (f_add ops a b) c = f_add ops a (f_add ops b c))"

lemma blocked_sum_exact: "exact_add ops \<Longrightarrow> blocked_sum ops acc ps = foldl (f_add ops) acc ps"
  by (induction ops acc ps rule: blocked_sum.induct) (auto simp: exact_add_def)

lemma blocked_sum_short: "length ps < 4 \<Longrightarrow> blocked_sum ops acc ps = foldl (f_add ops) acc ps"
  by (cases "(ops, acc, ps)" rule: blocked_sum.cases) auto

definition products :: "'f f32_ops \<Rightarrow> 'f list \<Rightarrow> 'f list \<Rightarrow> 'f list" where
  "products ops w x = map2 (f_mul ops) w x"

lemma nth_products: "i < min (length w) (length x) \<Longrightarrow> products ops w x ! i = f_mul ops (w ! i) (x ! i)"
  by (simp add: products_def)

lemma dot_rest_eq:
  "len = min (length w) (length x) \<Longrightarrow> i \<le> len \<Longrightarrow>
   dot_rest ops w x len i acc = foldl (f_add ops) acc (drop i (products ops w x))"
proof (induction ops w x len i acc rule: dot_rest.induct)
  case (1 ops w x len i acc)
  have l: "length (products ops w x) = len" using 1 by (simp add: products_def)
  show ?case
  proof (cases "i < len")
    case True
    then have "drop i (products ops w x) = f_mul ops (w ! i) (x ! i) # drop (Suc i) (products ops w x)"
      using l 1 nth_products [of i w x ops] Cons_nth_drop_Suc [of i "products ops w x"] by simp
    then show ?thesis using 1 True by (subst dot_rest.simps) simp
  next
    case False
    then have "drop i (products ops w x) = []" using l by simp
    then show ?thesis using False by (subst dot_rest.simps) simp
  qed
qed

lemma dot_by_four_eq:
  "len = min (length w) (length x) \<Longrightarrow> i \<le> len \<Longrightarrow>
   (case dot_by_four ops w x len i acc of (j, acc') \<Rightarrow> dot_rest ops w x len j acc')
     = blocked_sum ops acc (drop i (products ops w x))"
proof (induction ops w x len i acc rule: dot_by_four.induct)
  case (1 ops w x len i acc)
  let ?p = "products ops w x"
  have l: "length ?p = len" using 1 by (simp add: products_def)
  show ?case
  proof (cases "i + 4 \<le> len")
    case True
    have "drop i ?p = ?p ! i # ?p ! (i + 1) # ?p ! (i + 2) # ?p ! (i + 3) # drop (i + 4) ?p"
      using True l by (simp add: Cons_nth_drop_Suc add.assoc flip: add_2_eq_Suc' add_Suc_right)
        (simp add: Cons_nth_drop_Suc eval_nat_numeral)
    moreover have "?p ! i = f_mul ops (w ! i) (x ! i)" "?p ! (i + 1) = f_mul ops (w ! (i + 1)) (x ! (i + 1))"
      "?p ! (i + 2) = f_mul ops (w ! (i + 2)) (x ! (i + 2))" "?p ! (i + 3) = f_mul ops (w ! (i + 3)) (x ! (i + 3))"
      using True 1(2) nth_products [of _ w x ops] by simp_all
    ultimately show ?thesis using 1(1) [OF True 1(2)] True by (subst dot_by_four.simps) simp
  next
    case False
    then have "dot_by_four ops w x len i acc = (i, acc)" by (subst dot_by_four.simps) simp
    then show ?thesis using dot_rest_eq [OF 1(2,3)] blocked_sum_short [of "drop i ?p"] False l by simp
  qed
qed

lemma dot_product_eq: "dot_product ops w x = blocked_sum ops (f_zero ops) (products ops w x)"
  using dot_by_four_eq [OF refl, of 0 w x ops "f_zero ops"] by (simp add: dot_product_def Let_def)

section \<open>The layer\<close>

lemma matmul_rows_eq:
  "\<forall>row \<in> set rows. row < length outputs \<and> row * unat in_dim + unat in_dim \<le> length weights \<Longrightarrow> length weights < 2 ^ 64 \<Longrightarrow>
   distinct rows \<Longrightarrow>
   \<exists>outs. matmul_rows ops weights inputs bias in_dim rows outputs = Ok outs \<and> length outs = length outputs
     \<and> (\<forall>r<length outputs. outs ! r = (if r \<in> set rows
          then relu ops (f_add ops (dot_product ops (take (unat in_dim) (drop (r * unat in_dim) weights)) inputs)
                 (if r < length bias then bias ! r else f_zero ops))
          else outputs ! r))"
proof (induction rows arbitrary: outputs)
  case (Cons row rows)
  let ?n = "unat in_dim"
  have b: "row < length outputs" "row * ?n + ?n \<le> length weights" using Cons.prems by auto
  have "row * ?n < 2 ^ 64" "row * ?n + ?n < 2 ^ 64" using b(2) Cons.prems(2) by linarith+
  then have u: "unat (of_nat row * in_dim) = row * ?n" "unat (of_nat row * in_dim + in_dim) = row * ?n + ?n"
    by (simp_all add: unat_word_ariths unat_of_nat mod_mult_left_eq mod_add_left_eq)
  have sl: "slice weights (row * ?n) (row * ?n + ?n) = Ok (take ?n (drop (row * ?n) weights))"
    using b(2) by (simp add: slice_def sub_def)
  let ?v = "relu ops (f_add ops (dot_product ops (take ?n (drop (row * ?n) weights)) inputs)
     (if row < length bias then bias ! row else f_zero ops))"
  have "matmul_rows ops weights inputs bias in_dim (row # rows) outputs
      = matmul_rows ops weights inputs bias in_dim rows (outputs[row := ?v])"
    using b(1) by (simp add: u sl Let_def)
  then show ?case
    using Cons.IH [of "outputs[row := ?v]"] Cons.prems b(1) by (auto simp: nth_list_update)
qed auto

lemma matmul_layer_eq:
  assumes "unat out_dim * unat in_dim \<le> length weights" "unat out_dim \<le> length outputs" "length weights < 2 ^ 64"
  shows "\<exists>outs. matmul_layer ops weights inputs bias outputs in_dim out_dim = Ok outs \<and> length outs = length outputs
     \<and> (\<forall>r<length outputs. outs ! r = (if r < unat out_dim
          then relu ops (f_add ops (dot_product ops (take (unat in_dim) (drop (r * unat in_dim) weights)) inputs)
                 (if r < length bias then bias ! r else f_zero ops))
          else outputs ! r))"
proof -
  have "row * unat in_dim + unat in_dim \<le> length weights" if "row < unat out_dim" for row
  proof -
    have "(row + 1) * unat in_dim \<le> unat out_dim * unat in_dim" using that by (intro mult_right_mono) auto
    then show ?thesis using assms(1) by simp
  qed
  then show ?thesis
    using matmul_rows_eq [of "[0..<unat out_dim]" outputs in_dim weights ops inputs bias] assms(2,3)
    by (simp add: matmul_layer_def)
qed

text \<open>The first row that does not fit ends the computation; no product of indices wraps before it.\<close>

lemma matmul_rows_panic:
  assumes "length weights < 2 ^ 63" and "\<not> (out * unat in_dim \<le> length weights \<and> out \<le> length outs)"
  shows "\<lbrakk>k \<le> out; k \<le> length outs; length outputs = length outs; k * unat in_dim \<le> length weights\<rbrakk>
     \<Longrightarrow> matmul_rows ops weights inputs bias in_dim [k..<out] outputs = Panic"
proof (induction "out - k" arbitrary: k outputs)
  case 0
  then show ?case using assms(2) by (cases "k = out") auto
next
  case (Suc m)
  let ?n = "unat in_dim"
  have k: "[k..<out] = k # [Suc k..<out]" using Suc.hyps(2) by (simp add: upt_conv_Cons)
  have "k * ?n + ?n < 2 ^ 64"
  proof (cases k)
    case (Suc j)
    then have "?n \<le> k * ?n" by simp
    moreover have "(2 :: nat) ^ 63 + 2 ^ 63 = 2 ^ 64" by simp
    ultimately show ?thesis using Suc.prems(4) assms(1) by linarith
  qed (use unsigned_less [of in_dim] in simp)
  then have u: "unat (of_nat k * in_dim) = k * ?n" "unat (of_nat k * in_dim + in_dim) = k * ?n + ?n"
    by (simp_all add: unat_word_ariths unat_of_nat mod_mult_left_eq mod_add_left_eq)
  show ?case
  proof (cases "k * ?n + ?n \<le> length weights \<and> k < length outs")
    case True
    have "matmul_rows ops weights inputs bias in_dim [Suc k..<out] (outputs[k := v]) = Panic" for v
      by (rule Suc.hyps(1)) (use Suc.hyps(2) Suc.prems True in auto)
    then show ?thesis unfolding k using u True Suc.prems by (simp add: slice_def Let_def)
  next
    case False
    then show ?thesis unfolding k using u Suc.prems by (auto simp: slice_def Let_def)
  qed
qed

section \<open>Properties\<close>

text \<open>
  C27: The layer computes ReLU(W x + b), for any arithmetic. When the weights hold \<open>out_dim\<close> rows of \<open>in_dim\<close> numbers and
  there is room for \<open>out_dim\<close> outputs, no access is out of range, each of the first \<open>out_dim\<close>
  outputs is the rectified sum of its row's dot product and its bias (0 where there is none), and
  the other outputs keep their value; in every other case the computation panics, even where the product of the dimensions
  overflows. The dot product is the sum of the products of the common prefix in blocks of four,
  which is the plain sum from left to right where addition is associative.
\<close>

theorem matmul_layer_correct:
  assumes "length weights < 2 ^ 63"
  shows "matmul_layer ops weights inputs bias outputs in_dim out_dim =
       (if unat out_dim * unat in_dim \<le> length weights \<and> unat out_dim \<le> length outputs
        then Ok (map (\<lambda>r. if r < unat out_dim
               then relu ops (f_add ops (blocked_sum ops (f_zero ops)
                        (map2 (f_mul ops) (take (unat in_dim) (drop (r * unat in_dim) weights)) inputs))
                      (if r < length bias then bias ! r else f_zero ops))
               else outputs ! r) [0..<length outputs])
        else Panic)
     \<and> (exact_add ops \<longrightarrow> dot_product ops w x = foldl (f_add ops) (f_zero ops) (map2 (f_mul ops) w x))"
proof (intro conjI impI)
  show "matmul_layer ops weights inputs bias outputs in_dim out_dim =
       (if unat out_dim * unat in_dim \<le> length weights \<and> unat out_dim \<le> length outputs
        then Ok (map (\<lambda>r. if r < unat out_dim
               then relu ops (f_add ops (blocked_sum ops (f_zero ops)
                        (map2 (f_mul ops) (take (unat in_dim) (drop (r * unat in_dim) weights)) inputs))
                      (if r < length bias then bias ! r else f_zero ops))
               else outputs ! r) [0..<length outputs])
        else Panic)"
  proof (cases "unat out_dim * unat in_dim \<le> length weights \<and> unat out_dim \<le> length outputs")
    case True
    then obtain outs where o: "matmul_layer ops weights inputs bias outputs in_dim out_dim = Ok outs" "length outs = length outputs"
      "\<forall>r<length outputs. outs ! r = (if r < unat out_dim
          then relu ops (f_add ops (dot_product ops (take (unat in_dim) (drop (r * unat in_dim) weights)) inputs)
                 (if r < length bias then bias ! r else f_zero ops))
          else outputs ! r)"
      using matmul_layer_eq [of out_dim in_dim weights outputs ops inputs bias] assms by auto
    show ?thesis unfolding o(1) using True o(2,3) by (auto intro!: nth_equalityI simp: dot_product_eq products_def)
  next
    case False
    then have "matmul_layer ops weights inputs bias outputs in_dim out_dim = Panic"
      using matmul_rows_panic [OF assms False, of 0 outputs] by (simp add: matmul_layer_def)
    then show ?thesis using False by auto
  qed
  show "dot_product ops w x = foldl (f_add ops) (f_zero ops) (map2 (f_mul ops) w x)" if "exact_add ops"
    unfolding dot_product_eq products_def blocked_sum_exact [OF that] ..
qed

definition int_ops :: "int f32_ops" where
  "int_ops = \<lparr>f_zero = 0, f_add = (+), f_mul = (*), f_positive = (\<lambda>v. 0 < v), f_of_bits = sint, f_to_bits = of_int\<rparr>"

theorem matmul_layer_correct_witness:
  "matmul_layer int_ops [1, 2, 3, 4, 5, -1, -1, -1, -1, -1] [1, 1, 1, 1, 2] [10] [7, 7, 7] 5 2 = Ok [30, 0, 7]
   \<and> matmul_layer int_ops [1, 2, 3] [1] [] [7, 7] 2 2 = Panic
   \<and> dot_product int_ops [1, 2, 3, 4, 5] [1, 1, 1, 1, 2] = 20"
proof -
  have e: "exact_add int_ops" by (simp add: exact_add_def int_ops_def)
  show ?thesis
    using matmul_layer_correct [of "[1, 2, 3, 4, 5, -1, -1, -1, -1, -1]" int_ops "[1, 1, 1, 1, 2]" "[10]" "[7, 7, 7]" 5 2
        "[1, 2, 3, 4, 5]" "[1, 1, 1, 1, 2]"]
      matmul_layer_correct [of "[1, 2, 3]" int_ops "[1]" "[]" "[7, 7]" 2 2 "[]" "[]"] e
    by (simp add: int_ops_def relu_def upt_rec)
qed

end
