(* ===== verification/Syscall.thy ===== *)
theory Syscall
  imports Kv_Allocator Agent_Scheduler Machine Paging Tensor_Engine
begin

text \<open>
  Model of \<^verbatim>\<open>syscall.rs\<close>: the five system calls on the process table, the block store and the memory
  of the machine. Memory is a function from addresses to bytes; a pointer argument is read only after
  the check of \<open>Paging\<close> has accepted it. The four slices of the tensor call are memory: every row of the layer
  reads them as the rows before have left them, which matters because nothing forbids that the outputs
  overlap the other slices. Printing is left out.
\<close>

section \<open>Definitions\<close>

record 'm kernel =
  ks_scheduler :: native_agent_scheduler
  ks_kv :: kv_cache_memory_manager
  ks_mem :: mem
  ks_mapper :: 'm

definition SYS_SERIAL_PRINT :: u64 where "SYS_SERIAL_PRINT = 1"
definition SYS_AGENT_SPAWN :: u64 where "SYS_AGENT_SPAWN = 2"
definition SYS_KV_ALLOC :: u64 where "SYS_KV_ALLOC = 3"
definition SYS_TENSOR_EVAL :: u64 where "SYS_TENSOR_EVAL = 4"
definition SYS_KV_FREE :: u64 where "SYS_KV_FREE = 5"

record tensor_eval_args =
  ta_weights :: u64
  ta_weights_len :: u64
  ta_inputs :: u64
  ta_inputs_len :: u64
  ta_bias :: u64
  ta_bias_len :: u64
  ta_outputs :: u64
  ta_outputs_len :: u64
  ta_in_dim :: u64
  ta_out_dim :: u64

definition read_args :: "mem \<Rightarrow> u64 \<Rightarrow> tensor_eval_args" where
  "read_args mem a = \<lparr>ta_weights = read_u64 mem a, ta_weights_len = read_u64 mem (a + 8),
     ta_inputs = read_u64 mem (a + 16), ta_inputs_len = read_u64 mem (a + 24),
     ta_bias = read_u64 mem (a + 32), ta_bias_len = read_u64 mem (a + 40),
     ta_outputs = read_u64 mem (a + 48), ta_outputs_len = read_u64 mem (a + 56),
     ta_in_dim = read_u64 mem (a + 64), ta_out_dim = read_u64 mem (a + 72)\<rparr>"

definition read_u32 :: "mem \<Rightarrow> u64 \<Rightarrow> u32" where
  "read_u32 mem a = (let bs = load_mem mem a 4 in le32 (bs ! 0) (bs ! 1) (bs ! 2) (bs ! 3))"

definition read_f32s :: "'f f32_ops \<Rightarrow> mem \<Rightarrow> u64 \<Rightarrow> u64 \<Rightarrow> 'f list" where
  "read_f32s ops mem ptr len = map (\<lambda>k. f_of_bits ops (read_u32 mem (ptr + of_nat (4 * k)))) [0..<unat len]"

definition saturating_mul :: "u64 \<Rightarrow> u64 \<Rightarrow> u64" where
  "saturating_mul a b = (if unat a * unat b < 2 ^ 64 then a * b else - 1)"

definition pointer_is_mapped_checked :: "'m page_tables \<Rightarrow> 'm \<Rightarrow> u64 \<Rightarrow> u64 \<Rightarrow> bool \<Rightarrow> bool" where
  "pointer_is_mapped_checked pt m ptr len_bytes require_user_accessible \<longleftrightarrow>
     (if len_bytes = 0 then True
      else if require_user_accessible then range_is_user_accessible pt m ptr len_bytes
      else range_is_mapped pt m ptr len_bytes)"

text \<open>
  \<^verbatim>\<open>matmul_layer\<close> on slices in memory. A row reads the slices and then stores its output.
\<close>

fun matmul_in_memory :: "'f f32_ops \<Rightarrow> tensor_eval_args \<Rightarrow> nat list \<Rightarrow> mem \<Rightarrow> mem outcome" where
  "matmul_in_memory ops args [] mem = Ok mem"
| "matmul_in_memory ops args (row # rows) mem =
     obind (matmul_rows ops
              (read_f32s ops mem (ta_weights args) (ta_weights_len args))
              (read_f32s ops mem (ta_inputs args) (ta_inputs_len args))
              (read_f32s ops mem (ta_bias args) (ta_bias_len args))
              (ta_in_dim args) [row]
              (read_f32s ops mem (ta_outputs args) (ta_outputs_len args))) (\<lambda>outs.
     matmul_in_memory ops args rows
       (store_mem mem (ta_outputs args + of_nat (4 * row)) (le_bytes32 (f_to_bits ops (outs ! row)))))"

definition tensor_eval :: "'f f32_ops \<Rightarrow> 'm page_tables \<Rightarrow> 'm \<Rightarrow> u64 \<Rightarrow> bool \<Rightarrow> mem \<Rightarrow> (u64 \<times> mem) outcome" where
  "tensor_eval ops pt m arg1 caller_is_ring3 mem =
     (if \<not> pointer_is_mapped_checked pt m arg1 80 caller_is_ring3 then Ok (- 1, mem)
      else
        let args = read_args mem arg1 in
        if \<not> pointer_is_mapped_checked pt m (ta_weights args) (saturating_mul (ta_weights_len args) 4) caller_is_ring3
           \<or> \<not> pointer_is_mapped_checked pt m (ta_inputs args) (saturating_mul (ta_inputs_len args) 4) caller_is_ring3
           \<or> \<not> pointer_is_mapped_checked pt m (ta_bias args) (saturating_mul (ta_bias_len args) 4) caller_is_ring3
           \<or> \<not> pointer_is_mapped_checked pt m (ta_outputs args) (saturating_mul (ta_outputs_len args) 4) caller_is_ring3
        then Ok (- 1, mem)
        else if ta_weights_len args < saturating_mul (ta_out_dim args) (ta_in_dim args)
             \<or> ta_outputs_len args < ta_out_dim args
        then Ok (- 1, mem)
        else
          obind (matmul_in_memory ops args [0..<unat (ta_out_dim args)] mem) (\<lambda>mem'. Ok (0, mem')))"

definition dispatch_syscall :: "'f f32_ops \<Rightarrow> 'm page_tables \<Rightarrow> u64 \<Rightarrow> u64 \<Rightarrow> u64 \<Rightarrow> u64 \<Rightarrow> bool \<Rightarrow> ('m kernel, u64) io" where
  "dispatch_syscall ops pt sys_nr arg1 arg2 arg3 caller_is_ring3 s =
     (if sys_nr = SYS_SERIAL_PRINT then (Ok 0, s)
      else if sys_nr = SYS_AGENT_SPAWN
      then (case spawn (ks_scheduler s) ''userspace-agent-sys'' Normal arg1 of
              (Some p, sched) \<Rightarrow> (Ok (ucast p), s\<lparr>ks_scheduler := sched\<rparr>)
            | (None, sched) \<Rightarrow> (Ok 0, s\<lparr>ks_scheduler := sched\<rparr>))
      else if sys_nr = SYS_KV_ALLOC
      then (case allocate_kv_block (ks_kv s) (ucast arg1) arg2 of
              (Some b, kv) \<Rightarrow> (Ok (ucast b),
                 s\<lparr>ks_kv := kv, ks_scheduler := set_kv_block_id (ks_scheduler s) (ucast arg1) b\<rparr>)
            | (None, kv) \<Rightarrow> (Ok 0, s\<lparr>ks_kv := kv\<rparr>))
      else if sys_nr = SYS_KV_FREE
      then (case free_kv_block (ks_kv s) (ucast arg1) of
              (Some owner, kv) \<Rightarrow> (Ok 1,
                 s\<lparr>ks_kv := kv, ks_scheduler := clear_kv_block_id_if_matches (ks_scheduler s) owner (ucast arg1)\<rparr>)
            | (None, kv) \<Rightarrow> (Ok 0, s\<lparr>ks_kv := kv\<rparr>))
      else if sys_nr = SYS_TENSOR_EVAL
      then (case tensor_eval ops pt (ks_mapper s) arg1 caller_is_ring3 (ks_mem s) of
              Ok (r, mem) \<Rightarrow> (Ok r, s\<lparr>ks_mem := mem\<rparr>)
            | Err e \<Rightarrow> (Err e, s)
            | Panic \<Rightarrow> (Panic, s)
            | Diverge \<Rightarrow> (Diverge, s))
      else (Ok (- 1), s))"

section \<open>Reading checked memory\<close>

text \<open>The flags a caller's pointers need.\<close>

definition needed_flags :: "bool \<Rightarrow> u64" where
  "needed_flags ring3 = (if ring3 then PRESENT OR USER_ACCESSIBLE else PRESENT)"

lemma unat_max_u64: "unat (- 1 :: u64) = 2 ^ 64 - 1"
  by (simp add: unsigned_minus_1_eq_mask mask_eq_exp_minus_1)

lemma checked_range:
  assumes "page_uniform pt" "pointer_is_mapped_checked pt m ptr len ring3" "len \<noteq> 0"
  shows "unat ptr + unat len \<le> 2 ^ 64" "k < unat len \<Longrightarrow> accessible pt m (needed_flags ring3) (ptr + of_nat k)"
  using assms range_has_flags_eq [OF assms(1,3), of m ptr]
  by (auto simp: pointer_is_mapped_checked_def range_is_user_accessible_def range_is_mapped_def needed_flags_def split: if_splits)

text \<open>A checked slice of \<open>n\<close> numbers really has \<open>4 * n\<close> bytes: a saturated length is never accepted.\<close>

lemma checked_slice:
  assumes "page_uniform pt" "pointer_is_mapped_checked pt m ptr (saturating_mul n 4) ring3" "n \<noteq> 0"
  shows "unat ptr + unat n * 4 \<le> 2 ^ 64" "k < unat n * 4 \<Longrightarrow> accessible pt m (needed_flags ring3) (ptr + of_nat k)"
proof -
  have small: "unat n * 4 < 2 ^ 64"
  proof (rule ccontr)
    assume "\<not> unat n * 4 < 2 ^ 64"
    then have s: "saturating_mul n 4 = - 1" by (simp add: saturating_mul_def)
    have nz: "saturating_mul n 4 \<noteq> 0" by (simp add: s)
    have "unat ptr + unat (- 1 :: u64) \<le> 2 ^ 64" using checked_range(1) [OF assms(1,2) nz] by (simp only: s)
    moreover have "accessible pt m (needed_flags ring3) (ptr + of_nat 0)"
      by (rule checked_range(2) [OF assms(1,2) nz]) (unfold s unat_max_u64, simp)
    then have "4096 \<le> unat ptr" by (simp add: accessible_def)
    ultimately show False unfolding unat_max_u64 by linarith
  qed
  then have len: "saturating_mul n 4 \<noteq> 0" "unat (saturating_mul n 4) = unat n * 4"
    using assms(3) by (auto simp: saturating_mul_def unat_word_ariths word_unat_eq_iff)
  show "unat ptr + unat n * 4 \<le> 2 ^ 64" "k < unat n * 4 \<Longrightarrow> accessible pt m (needed_flags ring3) (ptr + of_nat k)"
    using checked_range [OF assms(1,2) len(1)] len(2) by simp_all
qed

text \<open>Two memories that a caller with the given rights cannot tell apart.\<close>

definition same_view :: "'m page_tables \<Rightarrow> 'm \<Rightarrow> bool \<Rightarrow> mem \<Rightarrow> mem \<Rightarrow> bool" where
  "same_view pt m ring3 mem mem' \<longleftrightarrow> (\<forall>x. accessible pt m (needed_flags ring3) x \<longrightarrow> mem x = mem' x)"

lemma load_mem_cong:
  "(\<And>k. k < n \<Longrightarrow> mem (a + of_nat k) = mem' (a + of_nat k)) \<Longrightarrow> load_mem mem a n = load_mem mem' a n"
  by (auto simp: load_mem_def simp del: upt_Suc upt_rec_numeral)

lemma read_u64_cong: "(\<And>k. k < 8 \<Longrightarrow> mem (a + of_nat k) = mem' (a + of_nat k)) \<Longrightarrow> read_u64 mem a = read_u64 mem' a"
proof -
  assume "\<And>k. k < 8 \<Longrightarrow> mem (a + of_nat k) = mem' (a + of_nat k)"
  then have "load_mem mem a 8 = load_mem mem' a 8" by (rule load_mem_cong)
  then show ?thesis by (simp only: read_u64_def)
qed

lemma read_u32_cong: "(\<And>k. k < 4 \<Longrightarrow> mem (a + of_nat k) = mem' (a + of_nat k)) \<Longrightarrow> read_u32 mem a = read_u32 mem' a"
proof -
  assume "\<And>k. k < 4 \<Longrightarrow> mem (a + of_nat k) = mem' (a + of_nat k)"
  then have "load_mem mem a 4 = load_mem mem' a 4" by (rule load_mem_cong)
  then show ?thesis by (simp only: read_u32_def)
qed

lemma read_args_same:
  assumes "page_uniform pt" "same_view pt m ring3 mem mem'" "pointer_is_mapped_checked pt m arg1 80 ring3"
  shows "read_args mem arg1 = read_args mem' arg1"
proof -
  have "read_u64 mem (arg1 + of_nat j) = read_u64 mem' (arg1 + of_nat j)" if "j + 8 \<le> 80" for j
  proof (rule read_u64_cong)
    fix k :: nat
    assume "k < 8"
    then have "accessible pt m (needed_flags ring3) (arg1 + of_nat (j + k))"
      using that by (intro checked_range(2) [OF assms(1,3)]) simp_all
    then show "mem (arg1 + of_nat j + of_nat k) = mem' (arg1 + of_nat j + of_nat k)"
      using assms(2) by (simp add: same_view_def add.assoc)
  qed
  from this [of 0] this [of 8] this [of 16] this [of 24] this [of 32] this [of 40] this [of 48] this [of 56]
    this [of 64] this [of 72]
  show ?thesis by (simp add: read_args_def)
qed

lemma read_f32s_same:
  assumes "page_uniform pt" "same_view pt m ring3 mem mem'" "pointer_is_mapped_checked pt m ptr (saturating_mul n 4) ring3"
  shows "read_f32s ops mem ptr n = read_f32s ops mem' ptr n"
proof -
  have "read_u32 mem (ptr + of_nat (4 * j)) = read_u32 mem' (ptr + of_nat (4 * j))" if "j < unat n" for j
  proof (rule read_u32_cong)
    fix k :: nat
    assume "k < 4"
    then have "accessible pt m (needed_flags ring3) (ptr + of_nat (4 * j + k))"
      using that by (intro checked_slice(2) [OF assms(1,3)]) auto
    then show "mem (ptr + of_nat (4 * j) + of_nat k) = mem' (ptr + of_nat (4 * j) + of_nat k)"
      using assms(2) by (simp add: same_view_def add.assoc)
  qed
  then show ?thesis by (simp add: read_f32s_def)
qed

lemma length_row_bytes: "length (concat (map (\<lambda>v. le_bytes32 (g v)) vs)) = 4 * length vs"
  by (induction vs) simp_all

text \<open>Which checks a request has to pass, and what an accepted one computes.\<close>

definition request_ok :: "'m page_tables \<Rightarrow> 'm \<Rightarrow> bool \<Rightarrow> mem \<Rightarrow> u64 \<Rightarrow> bool" where
  "request_ok pt m ring3 mem arg1 \<longleftrightarrow> pointer_is_mapped_checked pt m arg1 80 ring3 \<and> (let args = read_args mem arg1 in
     pointer_is_mapped_checked pt m (ta_weights args) (saturating_mul (ta_weights_len args) 4) ring3
     \<and> pointer_is_mapped_checked pt m (ta_inputs args) (saturating_mul (ta_inputs_len args) 4) ring3
     \<and> pointer_is_mapped_checked pt m (ta_bias args) (saturating_mul (ta_bias_len args) 4) ring3
     \<and> pointer_is_mapped_checked pt m (ta_outputs args) (saturating_mul (ta_outputs_len args) 4) ring3
     \<and> unat (ta_out_dim args) * unat (ta_in_dim args) \<le> unat (ta_weights_len args)
     \<and> ta_out_dim args \<le> ta_outputs_len args)"

definition row_value :: "'f f32_ops \<Rightarrow> tensor_eval_args \<Rightarrow> mem \<Rightarrow> nat \<Rightarrow> 'f" where
  "row_value ops args mem r = relu ops (f_add ops
     (dot_product ops (take (unat (ta_in_dim args)) (drop (r * unat (ta_in_dim args))
        (read_f32s ops mem (ta_weights args) (ta_weights_len args))))
       (read_f32s ops mem (ta_inputs args) (ta_inputs_len args)))
     (if r < unat (ta_bias_len args) then read_f32s ops mem (ta_bias args) (ta_bias_len args) ! r else f_zero ops))"

definition store_row :: "'f f32_ops \<Rightarrow> tensor_eval_args \<Rightarrow> nat \<Rightarrow> mem \<Rightarrow> mem" where
  "store_row ops args r mem =
     store_mem mem (ta_outputs args + of_nat (4 * r)) (le_bytes32 (f_to_bits ops (row_value ops args mem r)))"

text \<open>The outputs share no byte with the slices that are read.\<close>

definition outputs_apart :: "tensor_eval_args \<Rightarrow> bool" where
  "outputs_apart args \<longleftrightarrow> (\<forall>k < 4 * unat (ta_out_dim args).
     (\<forall>j < 4 * unat (ta_weights_len args). ta_weights args + of_nat j \<noteq> ta_outputs args + of_nat k)
     \<and> (\<forall>j < 4 * unat (ta_inputs_len args). ta_inputs args + of_nat j \<noteq> ta_outputs args + of_nat k)
     \<and> (\<forall>j < 4 * unat (ta_bias_len args). ta_bias args + of_nat j \<noteq> ta_outputs args + of_nat k))"

lemma checked_len:
  assumes "page_uniform pt" "pointer_is_mapped_checked pt m ptr (saturating_mul n 4) ring3"
  shows "unat n \<le> 2 ^ 62"
  using checked_slice(1) [OF assms] by (cases "n = 0") simp_all

text \<open>With a checked length the product of the dimensions cannot hide behind saturation.\<close>

lemma dims_checked:
  "unat wl \<le> 2 ^ 62 \<Longrightarrow> wl < saturating_mul od idim \<longleftrightarrow> unat wl < unat od * unat idim" for wl :: u64
  by (auto simp: saturating_mul_def word_less_nat_alt unat_word_ariths unat_max_u64)

lemma matmul_in_memory_eq:
  assumes "unat (ta_out_dim a) * unat (ta_in_dim a) \<le> unat (ta_weights_len a)" and "unat (ta_out_dim a) \<le> unat (ta_outputs_len a)"
  shows "\<forall>r \<in> set rows. r < unat (ta_out_dim a) \<Longrightarrow> matmul_in_memory ops a rows mem = Ok (fold (store_row ops a) rows mem)"
proof (induction rows arbitrary: mem)
  case (Cons r rows)
  let ?W = "read_f32s ops mem (ta_weights a) (ta_weights_len a)" and ?I = "read_f32s ops mem (ta_inputs a) (ta_inputs_len a)"
    and ?B = "read_f32s ops mem (ta_bias a) (ta_bias_len a)" and ?O = "read_f32s ops mem (ta_outputs a) (ta_outputs_len a)"
  have len: "length ?W = unat (ta_weights_len a)" "length ?O = unat (ta_outputs_len a)" "length ?B = unat (ta_bias_len a)"
    by (simp_all add: read_f32s_def)
  have r: "r < unat (ta_out_dim a)" using Cons.prems by simp
  then have "(r + 1) * unat (ta_in_dim a) \<le> unat (ta_out_dim a) * unat (ta_in_dim a)" by (intro mult_right_mono) auto
  then have "r * unat (ta_in_dim a) + unat (ta_in_dim a) \<le> length ?W" "r < length ?O" "length ?W < 2 ^ 64"
    using assms r len by simp_all
  then obtain outs where "matmul_rows ops ?W ?I ?B (ta_in_dim a) [r] ?O = Ok outs" "outs ! r = row_value ops a mem r"
    using matmul_rows_eq [of "[r]" ?O "ta_in_dim a" ?W ops ?I ?B] len by (auto simp: row_value_def)
  then show ?case using Cons.IH Cons.prems by (simp add: store_row_def)
qed simp

lemma tensor_eval_eq:
  assumes "page_uniform pt"
  shows "tensor_eval ops pt m arg1 ring3 mem =
     (if request_ok pt m ring3 mem arg1
      then Ok (0, fold (store_row ops (read_args mem arg1)) [0..<unat (ta_out_dim (read_args mem arg1))] mem)
      else Ok (- 1, mem))"
proof -
  define a where "a = read_args mem arg1"
  have dims: "ta_weights_len a < saturating_mul (ta_out_dim a) (ta_in_dim a)
      \<longleftrightarrow> unat (ta_weights_len a) < unat (ta_out_dim a) * unat (ta_in_dim a)"
    if "pointer_is_mapped_checked pt m (ta_weights a) (saturating_mul (ta_weights_len a) 4) ring3"
    by (rule dims_checked [OF checked_len [OF assms that]])
  show ?thesis
  proof (cases "request_ok pt m ring3 mem arg1")
    case False
    then show ?thesis
      using dims unfolding tensor_eval_def request_ok_def a_def [symmetric] Let_def not_less [symmetric] by auto
  next
    case True
    then have "matmul_in_memory ops a [0..<unat (ta_out_dim a)] mem = Ok (fold (store_row ops a) [0..<unat (ta_out_dim a)] mem)"
      by (intro matmul_in_memory_eq) (simp_all add: request_ok_def a_def Let_def word_le_nat_alt)
    then show ?thesis
      using True dims unfolding tensor_eval_def request_ok_def a_def [symmetric] Let_def by (simp add: not_less)
  qed
qed

text \<open>Where the outputs are apart from the rest, the rows are those of the memory before the call.\<close>

lemma store_mem_append:
  assumes "length bs + length bs' \<le> 2 ^ 64"
  shows "store_mem (store_mem m d bs) (d + of_nat (length bs)) bs' = store_mem m d (bs @ bs')"
proof
  fix x
  define k where "k = unat (x - d)"
  have k: "k < 2 ^ 64" unfolding k_def using unsigned_less [of "x - d"] by simp
  have w: "x - (d + of_nat (length bs)) = of_nat k - of_nat (length bs)" by (simp add: k_def)
  show "store_mem (store_mem m d bs) (d + of_nat (length bs)) bs' x = store_mem m d (bs @ bs') x"
  proof (cases "length bs \<le> k")
    case True
    then have "of_nat k - of_nat (length bs) = (of_nat (k - length bs) :: u64)" by (simp add: of_nat_diff)
    then have "unat (x - (d + of_nat (length bs))) = k - length bs" using w k by (simp add: unat_of_nat)
    then show ?thesis using True by (auto simp: store_mem_def nth_append simp flip: k_def)
  next
    case False
    have "length bs' \<le> unat (x - (d + of_nat (length bs)))"
    proof (cases "bs' = []")
      case ne: False
      have l: "length bs < 2 ^ 64" using assms ne by (cases bs') simp_all
      then have "(of_nat (2 ^ 64 - (length bs - k)) :: u64) = of_nat (2 ^ 64) - of_nat (length bs - k)" by (intro of_nat_diff) simp
      then have "x - (d + of_nat (length bs)) = (of_nat (2 ^ 64 - (length bs - k)) :: u64)" using False w by (simp add: of_nat_diff)
      moreover have "unat (of_nat n :: u64) = n" if "n < 2 ^ 64" for n using that by (simp add: unat_of_nat)
      then have "unat (of_nat (2 ^ 64 - (length bs - k)) :: u64) = 2 ^ 64 - (length bs - k)" using False by (meson diff_less not_le zero_less_diff zero_less_numeral zero_less_power)
      ultimately have "unat (x - (d + of_nat (length bs))) = 2 ^ 64 - (length bs - k)" by (simp only:)
      then show ?thesis using assms by simp
    qed simp
    then show ?thesis using False by (auto simp: store_mem_def nth_append not_less simp flip: k_def)
  qed
qed

lemma store_mem_outside: "(\<And>k. k < length bs \<Longrightarrow> x \<noteq> d + of_nat k) \<Longrightarrow> store_mem mem d bs x = mem x"
proof -
  assume a: "\<And>k. k < length bs \<Longrightarrow> x \<noteq> d + of_nat k"
  have "x = d + of_nat (unat (x - d))" by simp
  then have "\<not> unat (x - d) < length bs" using a by blast
  then show ?thesis by (simp add: store_mem_def)
qed

lemma read_f32s_store:
  assumes "\<And>k j. k < length bs \<Longrightarrow> j < 4 * unat n \<Longrightarrow> p + of_nat j \<noteq> d + of_nat k"
  shows "read_f32s ops (store_mem mem d bs) p n = read_f32s ops mem p n"
proof -
  have "read_u32 (store_mem mem d bs) (p + of_nat (4 * i)) = read_u32 mem (p + of_nat (4 * i))" if "i < unat n" for i
  proof (rule read_u32_cong)
    fix k :: nat
    assume "k < 4"
    then have "store_mem mem d bs (p + of_nat (4 * i + k)) = mem (p + of_nat (4 * i + k))"
      using assms [of _ "4 * i + k"] that by (intro store_mem_outside) simp
    then show "store_mem mem d bs (p + of_nat (4 * i) + of_nat k) = mem (p + of_nat (4 * i) + of_nat k)" by (simp add: add.assoc)
  qed
  then show ?thesis by (simp add: read_f32s_def)
qed

lemma rows_apart:
  assumes "outputs_apart a" and "unat (ta_out_dim a) \<le> 2 ^ 62"
  shows "n \<le> unat (ta_out_dim a) \<Longrightarrow> fold (store_row ops a) [0..<n] mem
     = store_mem mem (ta_outputs a) (concat (map (\<lambda>r. le_bytes32 (f_to_bits ops (row_value ops a mem r))) [0..<n]))"
proof (induction n)
  case (Suc n)
  let ?bs = "\<lambda>n. concat (map (\<lambda>r. le_bytes32 (f_to_bits ops (row_value ops a mem r))) [0..<n])"
  have len: "length (?bs n) = 4 * n" by (simp add: length_row_bytes)
  have k: "k < 4 * unat (ta_out_dim a)" if "k < length (?bs n)" for k using that Suc.prems len by simp
  have "read_f32s ops (store_mem mem (ta_outputs a) (?bs n)) p l = read_f32s ops mem p l"
    if "(p, l) \<in> {(ta_weights a, ta_weights_len a), (ta_inputs a, ta_inputs_len a), (ta_bias a, ta_bias_len a)}" for p l
  proof (rule read_f32s_store)
    fix i j
    assume "i < length (?bs n)" and j: "j < 4 * unat l"
    from k [OF this(1)] assms(1) have i: "(\<forall>j < 4 * unat (ta_weights_len a). ta_weights a + of_nat j \<noteq> ta_outputs a + of_nat i)
      \<and> (\<forall>j < 4 * unat (ta_inputs_len a). ta_inputs a + of_nat j \<noteq> ta_outputs a + of_nat i)
      \<and> (\<forall>j < 4 * unat (ta_bias_len a). ta_bias a + of_nat j \<noteq> ta_outputs a + of_nat i)"
      unfolding outputs_apart_def by blast
    show "p + of_nat j \<noteq> ta_outputs a + of_nat i" using that i j by (elim insertE) auto
  qed
  then have "row_value ops a (store_mem mem (ta_outputs a) (?bs n)) n = row_value ops a mem n"
    by (simp add: row_value_def)
  moreover have "store_mem (store_mem mem (ta_outputs a) (?bs n)) (ta_outputs a + of_nat (4 * n)) bs = store_mem mem (ta_outputs a) (?bs n @ bs)"
    if "length bs = 4" for bs
    using store_mem_append [of "?bs n" bs mem "ta_outputs a"] that Suc.prems assms(2) unfolding len by simp
  ultimately show ?case using Suc by (simp add: store_row_def)
qed (simp add: store_mem_def)

section \<open>What a request can see and touch\<close>

lemma request_ok_same:
  assumes "page_uniform pt" "same_view pt m ring3 mem mem'"
  shows "request_ok pt m ring3 mem arg1 = request_ok pt m ring3 mem' arg1"
  using read_args_same [OF assms] by (auto simp: request_ok_def Let_def)

lemma store_mem_same_view:
  "same_view pt m ring3 mem mem' \<Longrightarrow> same_view pt m ring3 (store_mem mem d bs) (store_mem mem' d bs)"
  by (simp add: same_view_def store_mem_def)

lemma store_row_same:
  assumes "page_uniform pt" and ok: "request_ok pt m ring3 mem0 arg1" and "r < unat (ta_out_dim (read_args mem0 arg1))"
  defines "a \<equiv> read_args mem0 arg1"
  shows "same_view pt m ring3 mem mem' \<Longrightarrow> same_view pt m ring3 (store_row ops a r mem) (store_row ops a r mem')"
    and "\<not> accessible pt m (needed_flags ring3) x \<Longrightarrow> store_row ops a r mem x = mem x"
proof -
  have c: "pointer_is_mapped_checked pt m (ta_weights a) (saturating_mul (ta_weights_len a) 4) ring3"
    "pointer_is_mapped_checked pt m (ta_inputs a) (saturating_mul (ta_inputs_len a) 4) ring3"
    "pointer_is_mapped_checked pt m (ta_bias a) (saturating_mul (ta_bias_len a) 4) ring3"
    and out: "pointer_is_mapped_checked pt m (ta_outputs a) (saturating_mul (ta_outputs_len a) 4) ring3" "ta_out_dim a \<le> ta_outputs_len a"
    using ok by (simp_all add: request_ok_def a_def Let_def)
  show "same_view pt m ring3 (store_row ops a r mem) (store_row ops a r mem')" if v: "same_view pt m ring3 mem mem'"
    using store_mem_same_view [OF v] c [THEN read_f32s_same [OF assms(1) v, where ops = ops]] by (simp add: store_row_def row_value_def)
  show "store_row ops a r mem x = mem x" if n: "\<not> accessible pt m (needed_flags ring3) x"
  proof -
    have "\<not> unat (x - (ta_outputs a + of_nat (4 * r))) < 4"
    proof
      assume k: "unat (x - (ta_outputs a + of_nat (4 * r))) < 4"
      have r: "r < unat (ta_outputs_len a)" using assms(3) out(2) by (simp add: a_def word_le_nat_alt)
      then have "accessible pt m (needed_flags ring3) (ta_outputs a + of_nat (4 * r + unat (x - (ta_outputs a + of_nat (4 * r)))))"
        using k by (intro checked_slice(2) [OF assms(1) out(1)]) auto
      then show False using n by simp
    qed
    then show ?thesis by (simp add: store_row_def store_mem_def)
  qed
qed

lemma store_rows_same:
  assumes "page_uniform pt" and ok: "request_ok pt m ring3 mem0 arg1"
  shows "\<lbrakk>\<forall>r \<in> set rows. r < unat (ta_out_dim (read_args mem0 arg1)); same_view pt m ring3 mem mem'\<rbrakk> \<Longrightarrow>
      same_view pt m ring3 (fold (store_row ops (read_args mem0 arg1)) rows mem) (fold (store_row ops (read_args mem0 arg1)) rows mem')
      \<and> (\<forall>x. \<not> accessible pt m (needed_flags ring3) x \<longrightarrow> fold (store_row ops (read_args mem0 arg1)) rows mem x = mem x)"
proof (induction rows arbitrary: mem mem')
  case (Cons r rows)
  then have r: "r < unat (ta_out_dim (read_args mem0 arg1))" by simp
  show ?case
    using Cons.IH [OF _ store_row_same(1) [OF assms r Cons.prems(2), of ops]] Cons.prems(1)
      store_row_same(2) [OF assms r, where mem = mem and ops = ops]
    by simp
qed simp

lemma tensor_eval_same:
  assumes "page_uniform pt" "same_view pt m ring3 mem mem'"
  shows "\<exists>r mem1 mem2. tensor_eval ops pt m arg1 ring3 mem = Ok (r, mem1) \<and> tensor_eval ops pt m arg1 ring3 mem' = Ok (r, mem2)
    \<and> same_view pt m ring3 mem1 mem2 \<and> (\<forall>x. \<not> accessible pt m (needed_flags ring3) x \<longrightarrow> mem1 x = mem x)"
proof (cases "request_ok pt m ring3 mem arg1")
  case True
  have args: "read_args mem' arg1 = read_args mem arg1"
    using read_args_same [OF assms] True by (simp add: request_ok_def)
  show ?thesis
    unfolding tensor_eval_eq [OF assms(1)] request_ok_same [OF assms, symmetric] args
    using True store_rows_same [OF assms(1) True _ assms(2), of "[0..<unat (ta_out_dim (read_args mem arg1))]" ops] by simp
next
  case False
  then show ?thesis
    unfolding tensor_eval_eq [OF assms(1)] request_ok_same [OF assms, symmetric] using assms(2) by simp
qed

text \<open>The calls other than the tensor one work on the tables alone.\<close>

lemmas sys_numbers = SYS_SERIAL_PRINT_def SYS_AGENT_SPAWN_def SYS_KV_ALLOC_def SYS_KV_FREE_def SYS_TENSOR_EVAL_def

definition table_call :: "u64 \<Rightarrow> u64 \<Rightarrow> u64 \<Rightarrow> native_agent_scheduler \<times> kv_cache_memory_manager
    \<Rightarrow> u64 \<times> native_agent_scheduler \<times> kv_cache_memory_manager" where
  "table_call sys_nr arg1 arg2 = (\<lambda>(sched, kv).
     if sys_nr = SYS_SERIAL_PRINT then (0, sched, kv)
     else if sys_nr = SYS_AGENT_SPAWN then
       (case fst (spawn sched ''userspace-agent-sys'' Normal arg1) of None \<Rightarrow> 0 | Some p \<Rightarrow> ucast p,
        snd (spawn sched ''userspace-agent-sys'' Normal arg1), kv)
     else if sys_nr = SYS_KV_ALLOC then
       (case allocate_kv_block kv (ucast arg1) arg2 of
          (Some b, kv') \<Rightarrow> (ucast b, set_kv_block_id sched (ucast arg1) b, kv') | (None, kv') \<Rightarrow> (0, sched, kv'))
     else if sys_nr = SYS_KV_FREE then
       (case free_kv_block kv (ucast arg1) of
          (Some i, kv') \<Rightarrow> (1, clear_kv_block_id_if_matches sched i (ucast arg1), kv') | (None, kv') \<Rightarrow> (0, sched, kv'))
     else (- 1, sched, kv))"

lemma dispatch_other:
  assumes "sys_nr \<noteq> SYS_TENSOR_EVAL" "table_call sys_nr arg1 arg2 (ks_scheduler s, ks_kv s) = (r, sched, kv)"
  shows "dispatch_syscall ops pt sys_nr arg1 arg2 arg3 ring3 s = (Ok r, s\<lparr>ks_kv := kv, ks_scheduler := sched\<rparr>)"
  using assms by (auto simp: dispatch_syscall_def table_call_def split: if_splits prod.splits option.splits)

lemma dispatch_tensor:
  "tensor_eval ops pt (ks_mapper s) arg1 ring3 (ks_mem s) = Ok (r, mem) \<Longrightarrow>
   dispatch_syscall ops pt SYS_TENSOR_EVAL arg1 arg2 arg3 ring3 s = (Ok r, s\<lparr>ks_mem := mem\<rparr>)"
  by (simp add: dispatch_syscall_def sys_numbers)

section \<open>The kernel's tables\<close>

text \<open>
  The block a process remembers is a live block of that process; process table and block
  store are well formed.
\<close>

definition kernel_inv :: "'m kernel \<Rightarrow> bool" where
  "kernel_inv s \<longleftrightarrow> sched_inv (ks_scheduler s) \<and> kv_inv (ks_kv s)
     \<and> (\<forall>j p b. process_of (ks_scheduler s) j = Some p \<and> kv_block_id p = Some b \<longrightarrow> kv_owner (ks_kv s) b = Some j)"

lemma kernel_inv_update:
  assumes "kernel_inv s" "sched_inv sched" "kv_inv kv"
    "\<And>j p b. process_of sched j = Some p \<Longrightarrow> kv_block_id p = Some b \<Longrightarrow> kv_owner kv b = Some j"
  shows "kernel_inv (s\<lparr>ks_kv := kv, ks_scheduler := sched\<rparr>)"
  using assms by (auto simp: kernel_inv_def)

lemma kernel_inv_spawn:
  assumes "kernel_inv s"
  shows "kernel_inv (s\<lparr>ks_scheduler := snd (spawn (ks_scheduler s) nm pr q)\<rparr>)"
proof (cases "fst (spawn (ks_scheduler s) nm pr q)")
  case None
  then have "snd (spawn (ks_scheduler s) nm pr q) = ks_scheduler s"
    by (auto simp: spawn_def Let_def split: option.splits if_splits)
  then show ?thesis using assms by simp
next
  case (Some new)
  have inv: "sched_inv (ks_scheduler s)" using assms by (simp add: kernel_inv_def)
  note sp = process_of_spawn [OF inv Some]
  have "sched_inv (snd (spawn (ks_scheduler s) nm pr q))" using sched_inv_step [OF inv, of "OpSpawn nm pr q"] by simp
  then show ?thesis
    using assms sp by (auto simp: kernel_inv_def pcb_new_def split: if_splits)
qed

lemma kernel_inv_alloc:
  assumes "kernel_inv s" "allocate_kv_block (ks_kv s) i n = (Some b, kv)"
  shows "kernel_inv (s\<lparr>ks_kv := kv, ks_scheduler := set_kv_block_id (ks_scheduler s) i b\<rparr>)"
proof (rule kernel_inv_update [OF assms(1)])
  have inv: "sched_inv (ks_scheduler s)" "kv_inv (ks_kv s)" using assms(1) by (simp_all add: kernel_inv_def)
  have al: "kv_owner (ks_kv s) b = None" "kv_owner kv = (kv_owner (ks_kv s))(b \<mapsto> i)"
    using kv.alloc_Some [OF inv(2), of i n b] assms(2) by simp_all
  show "sched_inv (set_kv_block_id (ks_scheduler s) i b)" using sched_inv_step [OF inv(1), of "OpSetKv i b"] by simp
  show "kv_inv kv" using kv.alloc_inv [OF inv(2), of i n] assms(2) by simp
  show "kv_owner kv c = Some j" if "process_of (set_kv_block_id (ks_scheduler s) i b) j = Some p" "kv_block_id p = Some c" for j p c
    using that al assms(1) by (cases "j = i") (auto simp: process_of_updates kernel_inv_def)
qed

lemma kernel_inv_free:
  assumes "kernel_inv s" "free_kv_block (ks_kv s) b = (Some i, kv)"
  shows "kernel_inv (s\<lparr>ks_kv := kv, ks_scheduler := clear_kv_block_id_if_matches (ks_scheduler s) i b\<rparr>)"
proof (rule kernel_inv_update [OF assms(1)])
  have inv: "sched_inv (ks_scheduler s)" "kv_inv (ks_kv s)" using assms(1) by (simp_all add: kernel_inv_def)
  have fr: "kv_owner (ks_kv s) b = Some i" "kv_owner kv = (kv_owner (ks_kv s))(b := None)"
    using kv.free_result [OF inv(2), of b] kv.free_owner [OF inv(2), of b] assms(2) by simp_all
  show "sched_inv (clear_kv_block_id_if_matches (ks_scheduler s) i b)" using sched_inv_step [OF inv(1), of "OpClearKv i b"] by simp
  show "kv_inv kv" using kv.free_inv [OF inv(2), of b] assms(2) by simp
  show "kv_owner kv c = Some j" if c: "process_of (clear_kv_block_id_if_matches (ks_scheduler s) i b) j = Some p" "kv_block_id p = Some c" for j p c
  proof -
    obtain q where q: "process_of (ks_scheduler s) j = Some q" "kv_block_id q = Some c" "j = i \<longrightarrow> c \<noteq> b"
      using c process_of_clear [OF inv(1), of i b j] by (auto split: if_splits dest: arg_cong [of _ p kv_block_id])
    then have "kv_owner (ks_kv s) c = Some j" using assms(1) by (simp add: kernel_inv_def)
    then show ?thesis using fr q(3) by auto
  qed
qed

lemma spawn_None: "fst (spawn s nm pr q) = None \<Longrightarrow> snd (spawn s nm pr q) = s"
  by (auto simp: spawn_def Let_def split: option.splits)

lemma kernel_inv_table_call:
  assumes "kernel_inv s" "table_call sys_nr arg1 arg2 (ks_scheduler s, ks_kv s) = (r, sched, kv)"
  shows "kernel_inv (s\<lparr>ks_kv := kv, ks_scheduler := sched\<rparr>)"
proof -
  have kv: "kv_inv (ks_kv s)" using assms(1) by (simp add: kernel_inv_def)
  have none: "kv' = ks_kv s" if "allocate_kv_block (ks_kv s) i n = (None, kv')" for i n kv'
    using kv.alloc_None [OF kv, of i n] that by simp
  have fnone: "kv' = ks_kv s" if "free_kv_block (ks_kv s) b = (None, kv')" for b kv'
    using that by (auto simp: free_kv_block_def Let_def split: if_splits option.splits)
  consider "sys_nr = SYS_AGENT_SPAWN" | "sys_nr = SYS_KV_ALLOC" | "sys_nr = SYS_KV_FREE"
    | "sys_nr \<notin> {SYS_AGENT_SPAWN, SYS_KV_ALLOC, SYS_KV_FREE}" by blast
  then show ?thesis
  proof cases
    case 1
    then show ?thesis using assms kernel_inv_spawn [OF assms(1), of "''userspace-agent-sys''" Normal arg1]
      by (auto simp: table_call_def sys_numbers)
  next
    case 2
    obtain o' kv' where al: "allocate_kv_block (ks_kv s) (ucast arg1) arg2 = (o', kv')" by fastforce
    show ?thesis
      using assms al 2 none [of "ucast arg1" arg2] kernel_inv_alloc [OF assms(1), of "ucast arg1" arg2]
      by (cases o') (auto simp: table_call_def sys_numbers)
  next
    case 3
    obtain o' kv' where al: "free_kv_block (ks_kv s) (ucast arg1) = (o', kv')" by fastforce
    show ?thesis
      using assms al 3 fnone [of "ucast arg1"] kernel_inv_free [OF assms(1), of "ucast arg1"]
      by (cases o') (auto simp: table_call_def sys_numbers)
  next
    case 4
    then show ?thesis using assms by (auto simp: table_call_def split: if_splits)
  qed
qed

lemma kernel_inv_dispatch:
  assumes "page_uniform pt" "kernel_inv s"
  shows "kernel_inv (snd (dispatch_syscall ops pt sys_nr arg1 arg2 arg3 ring3 s))"
proof (cases "sys_nr = SYS_TENSOR_EVAL")
  case True
  obtain r mem where "tensor_eval ops pt (ks_mapper s) arg1 ring3 (ks_mem s) = Ok (r, mem)"
    using tensor_eval_eq [OF assms(1), of ops "ks_mapper s" arg1 ring3 "ks_mem s"] by (metis (full_types))
  from dispatch_tensor [OF this] show ?thesis using assms(2) by (simp add: True kernel_inv_def)
next
  case False
  obtain r sched kv where t: "table_call sys_nr arg1 arg2 (ks_scheduler s, ks_kv s) = (r, sched, kv)" by (rule prod_cases3)
  show ?thesis
    using dispatch_other [OF False t, where ops = ops and pt = pt] kernel_inv_table_call [OF assms(2) t] by simp
qed

section \<open>Properties\<close>

text \<open>
  C1: Ring-3 isolation. A system call made from ring 3, with any number and any arguments, always
  returns; what it returns and what it leaves in the tables and in user-accessible memory depend
  on user-accessible memory only (two kernels that differ elsewhere in memory behave alike), and no byte
  outside user-accessible memory changes. The page tables treat the addresses of a page alike.
\<close>

theorem syscall_isolation:
  assumes "page_uniform pt" "same_view pt (ks_mapper s) True (ks_mem s) mem'"
  shows "\<exists>r s1 mem1. dispatch_syscall ops pt sys_nr arg1 arg2 arg3 True s = (Ok r, s1)
     \<and> dispatch_syscall ops pt sys_nr arg1 arg2 arg3 True (s\<lparr>ks_mem := mem'\<rparr>) = (Ok r, s1\<lparr>ks_mem := mem1\<rparr>)
     \<and> same_view pt (ks_mapper s) True (ks_mem s1) mem1 \<and> ks_mapper s1 = ks_mapper s
     \<and> (\<forall>x. \<not> accessible pt (ks_mapper s) (PRESENT OR USER_ACCESSIBLE) x \<longrightarrow> ks_mem s1 x = ks_mem s x)"
proof (cases "sys_nr = SYS_TENSOR_EVAL")
  case True
  obtain r mem1 mem2 where t: "tensor_eval ops pt (ks_mapper s) arg1 True (ks_mem s) = Ok (r, mem1)"
      "tensor_eval ops pt (ks_mapper s) arg1 True mem' = Ok (r, mem2)" "same_view pt (ks_mapper s) True mem1 mem2"
      "\<forall>x. \<not> accessible pt (ks_mapper s) (PRESENT OR USER_ACCESSIBLE) x \<longrightarrow> mem1 x = ks_mem s x"
    using tensor_eval_same [OF assms, of ops arg1] by (auto simp: needed_flags_def)
  show ?thesis
    by (rule exI [of _ r], rule exI [of _ "s\<lparr>ks_mem := mem1\<rparr>"], rule exI [of _ mem2])
      (use t dispatch_tensor [OF t(1)] dispatch_tensor [of ops pt "s\<lparr>ks_mem := mem'\<rparr>" arg1 True r mem2] in \<open>simp add: True\<close>)
next
  case False
  obtain r sched kv where c: "table_call sys_nr arg1 arg2 (ks_scheduler s, ks_kv s) = (r, sched, kv)" by (rule prod_cases3)
  have "table_call sys_nr arg1 arg2 (ks_scheduler (s\<lparr>ks_mem := mem'\<rparr>), ks_kv (s\<lparr>ks_mem := mem'\<rparr>)) = (r, sched, kv)"
    using c by simp
  from dispatch_other [OF False this, of ops pt arg3 True]
  have "dispatch_syscall ops pt sys_nr arg1 arg2 arg3 True (s\<lparr>ks_mem := mem'\<rparr>)
      = (Ok r, s\<lparr>ks_kv := kv, ks_scheduler := sched\<rparr>\<lparr>ks_mem := mem'\<rparr>)" by (cases s) simp
  moreover have "dispatch_syscall ops pt sys_nr arg1 arg2 arg3 True s = (Ok r, s\<lparr>ks_kv := kv, ks_scheduler := sched\<rparr>)"
    by (rule dispatch_other [OF False c])
  ultimately show ?thesis
    using assms(2) by (auto intro!: exI [of _ "s\<lparr>ks_kv := kv, ks_scheduler := sched\<rparr>"] exI [of _ mem'])
qed

text \<open>
  C15: The tensor call. With any argument pointer and for callers of either ring, \<^verbatim>\<open>SYS_TENSOR_EVAL\<close>
  returns \<^verbatim>\<open>u64::MAX\<close> and changes nothing unless the request and its four slices lie in memory
  the caller may use and the dimensions fit the slices (as unbounded products); otherwise it returns 0 and
  has stored the rows \<open>relu (w \<cdot> x + b)\<close> one after the other, each computed from the memory that the rows before it
  left. When the outputs share no byte with the other slices, this is: the first \<open>out_dim\<close> words at the output pointer are the
  rows for the memory before the call, and no other byte changes.
\<close>

theorem tensor_syscall_correct:
  fixes ops :: "'f f32_ops" and pt :: "'m page_tables" and s :: "'m kernel" and arg1 :: u64
  assumes "page_uniform pt"
  defines "args \<equiv> read_args (ks_mem s) arg1"
  shows "dispatch_syscall ops pt SYS_TENSOR_EVAL arg1 arg2 arg3 ring3 s =
       (if request_ok pt (ks_mapper s) ring3 (ks_mem s) arg1
        then (Ok 0, s\<lparr>ks_mem := fold (store_row ops args) [0..<unat (ta_out_dim args)] (ks_mem s)\<rparr>)
        else (Ok (- 1), s))
     \<and> (request_ok pt (ks_mapper s) ring3 (ks_mem s) arg1 \<and> outputs_apart args \<longrightarrow>
        fold (store_row ops args) [0..<unat (ta_out_dim args)] (ks_mem s)
          = store_mem (ks_mem s) (ta_outputs args)
              (concat (map (\<lambda>r. le_bytes32 (f_to_bits ops (row_value ops args (ks_mem s) r))) [0..<unat (ta_out_dim args)])))"
proof (intro conjI impI)
  show "dispatch_syscall ops pt SYS_TENSOR_EVAL arg1 arg2 arg3 ring3 s =
       (if request_ok pt (ks_mapper s) ring3 (ks_mem s) arg1
        then (Ok 0, s\<lparr>ks_mem := fold (store_row ops args) [0..<unat (ta_out_dim args)] (ks_mem s)\<rparr>)
        else (Ok (- 1), s))"
    unfolding args_def by (simp add: dispatch_tensor [OF tensor_eval_eq [OF assms(1), THEN trans]])
  assume r: "request_ok pt (ks_mapper s) ring3 (ks_mem s) arg1 \<and> outputs_apart args"
  then have "pointer_is_mapped_checked pt (ks_mapper s) (ta_outputs args) (saturating_mul (ta_outputs_len args) 4) ring3"
    "unat (ta_out_dim args) \<le> unat (ta_outputs_len args)"
    by (simp_all add: request_ok_def args_def Let_def word_le_nat_alt)
  then have "unat (ta_out_dim args) \<le> 2 ^ 62" using checked_len [OF assms(1)] by fastforce
  then show "fold (store_row ops args) [0..<unat (ta_out_dim args)] (ks_mem s)
          = store_mem (ks_mem s) (ta_outputs args)
              (concat (map (\<lambda>r. le_bytes32 (f_to_bits ops (row_value ops args (ks_mem s) r))) [0..<unat (ta_out_dim args)]))"
    using rows_apart r by blast
qed

fun run_syscalls :: "'f f32_ops \<Rightarrow> 'm page_tables \<Rightarrow> (u64 \<times> u64 \<times> u64 \<times> u64 \<times> bool) list \<Rightarrow> 'm kernel \<Rightarrow> 'm kernel" where
  "run_syscalls ops pt [] s = s"
| "run_syscalls ops pt ((nr, a1, a2, a3, ring3) # calls) s =
     run_syscalls ops pt calls (snd (dispatch_syscall ops pt nr a1 a2 a3 ring3 s))"

lemma run_syscalls_inv: "page_uniform pt \<Longrightarrow> kernel_inv s \<Longrightarrow> kernel_inv (run_syscalls ops pt calls s)"
  by (induction ops pt calls s rule: run_syscalls.induct) (simp_all add: kernel_inv_dispatch)

text \<open>
  C14: The tables stay consistent. Any sequence of system calls from callers of either ring keeps the
  process table and the block store well formed and keeps every block id recorded in a process
  a live block of that very process: freeing a block, by whatever caller, clears the owner's record, and
  reusing its id never leaves an old owner with it.
\<close>

theorem syscalls_keep_tables:
  fixes ops :: "'f f32_ops" and calls :: "(u64 \<times> u64 \<times> u64 \<times> u64 \<times> bool) list"
  assumes "page_uniform pt" "kernel_inv s"
  defines "s' \<equiv> run_syscalls ops pt calls s"
  shows "kernel_inv s'
    \<and> (process_of (ks_scheduler s') i = Some p \<and> kv_block_id p = Some b
       \<and> process_of (ks_scheduler s') j = Some q \<and> kv_block_id q = Some b \<longrightarrow> i = j)"
proof -
  have "kernel_inv s'" unfolding s'_def by (rule run_syscalls_inv [OF assms(1,2)])
  moreover from this have "kv_owner (ks_kv s') b = Some i \<and> kv_owner (ks_kv s') b = Some j"
    if "process_of (ks_scheduler s') i = Some p \<and> kv_block_id p = Some b
       \<and> process_of (ks_scheduler s') j = Some q \<and> kv_block_id q = Some b"
    using that by (auto simp: kernel_inv_def)
  ultimately show ?thesis by fastforce
qed

text \<open>A kernel at boot, with one user page.\<close>

definition boot_kernel :: "(u64 \<rightharpoonup> u64) kernel" where
  "boot_kernel = \<lparr>ks_scheduler = sched_new, ks_kv = kv_new, ks_mem = (\<lambda>a. 0), ks_mapper = [0x10 \<mapsto> 7]\<rparr>"

lemma boot_kernel_inv: "kernel_inv boot_kernel"
proof -
  have "process_of sched_new j = None" for j
    by (auto simp: process_of_def for_each_process_def sched_new_def find_None_iff)
  then show ?thesis by (simp add: kernel_inv_def boot_kernel_def sched_inv_new kv_inv_new)
qed

theorem syscalls_keep_tables_witness:
  "kernel_inv (run_syscalls int_ops map_tables [(2, 0, 0, 0, True), (3, 1, 0, 0, True), (5, 1, 0, 0, True)] boot_kernel)"
  using syscalls_keep_tables [OF map_tables_uniform boot_kernel_inv] by blast

theorem syscall_isolation_witness:
  "\<exists>r s1 mem1. dispatch_syscall int_ops map_tables SYS_TENSOR_EVAL 0x10000 0 0 True boot_kernel = (Ok r, s1)
     \<and> dispatch_syscall int_ops map_tables SYS_TENSOR_EVAL 0x10000 0 0 True (boot_kernel\<lparr>ks_mem := (\<lambda>a. 0)(0x20000 := 1)\<rparr>)
         = (Ok r, s1\<lparr>ks_mem := mem1\<rparr>)"
proof -
  have "\<not> accessible map_tables (ks_mapper boot_kernel) (PRESENT OR USER_ACCESSIBLE) 0x20000"
    by (simp add: accessible_def map_tables_def boot_kernel_def)
  then have "same_view map_tables (ks_mapper boot_kernel) True (ks_mem boot_kernel) ((\<lambda>a. 0)(0x20000 := 1))"
    by (auto simp: same_view_def needed_flags_def boot_kernel_def)
  from syscall_isolation [OF map_tables_uniform this, of int_ops SYS_TENSOR_EVAL "0x10000" 0 0] show ?thesis by blast
qed

text \<open>A request for one row: the weights 2 and 3, the inputs 5 and 7, the bias 1.\<close>

definition layer_request :: mem where
  "layer_request = (\<lambda>a. 0)(0x10000 := 0x80, 0x10002 := 1, 0x10008 := 2, 0x10010 := 0x88, 0x10012 := 1, 0x10018 := 2,
     0x10020 := 0x90, 0x10022 := 1, 0x10028 := 1, 0x10030 := 0xA0, 0x10032 := 1, 0x10038 := 1, 0x10040 := 2, 0x10048 := 1,
     0x10080 := 2, 0x10084 := 3, 0x10088 := 5, 0x1008C := 7, 0x10090 := 1)"

lemma user_page_checked:
  assumes "off + n \<le> 4096" "0 < n"
  shows "pointer_is_mapped_checked map_tables [0x10 \<mapsto> 7] (0x10000 + of_nat off) (of_nat n) True"
proof -
  have n: "(of_nat n :: u64) \<noteq> 0" "unat (of_nat n :: u64) = n" "unat (0x10000 + of_nat off :: u64) = 0x10000 + off"
    using assms by (simp_all add: word_unat_eq_iff unat_of_nat unat_word_ariths)
  have "accessible map_tables [0x10 \<mapsto> 7] (PRESENT OR USER_ACCESSIBLE) (0x10000 + of_nat off + of_nat k)" if "k < n" for k
  proof -
    have "(0x10000 + of_nat off + of_nat k :: u64) div 4096 = 0x10"
      using that assms by (simp add: word_unat_eq_iff unat_div unat_word_ariths unat_of_nat)
    moreover have "4096 \<le> unat (0x10000 + of_nat off + of_nat k :: u64)" "(0x10000 + of_nat off + of_nat k :: u64) < 0x800000000000"
      using that assms by (simp_all add: unat_word_ariths unat_of_nat word_less_nat_alt)
    ultimately show ?thesis by (simp add: accessible_def map_tables_def PRESENT_def USER_ACCESSIBLE_def)
  qed
  then show ?thesis
    using range_has_flags_eq [OF map_tables_uniform n(1), of "[0x10 \<mapsto> 7]" "0x10000 + of_nat off" "PRESENT OR USER_ACCESSIBLE"] n assms
    by (simp add: pointer_is_mapped_checked_def range_is_user_accessible_def)
qed

lemma layer_request_args:
  "read_args layer_request 0x10000 = \<lparr>ta_weights = 0x10080, ta_weights_len = 2, ta_inputs = 0x10088, ta_inputs_len = 2,
     ta_bias = 0x10090, ta_bias_len = 1, ta_outputs = 0x100A0, ta_outputs_len = 1, ta_in_dim = 2, ta_out_dim = 1\<rparr>"
  by (simp add: read_args_def read_u64_def load_mem_def le64_def le32_def be32_def layer_request_def upt_rec)

lemma layer_request_ok: "request_ok map_tables [0x10 \<mapsto> 7] True layer_request 0x10000"
  using user_page_checked [of 0 80] user_page_checked [of "0x80" 8] user_page_checked [of "0x88" 8] user_page_checked [of "0x90" 4]
    user_page_checked [of "0xA0" 4]
  by (simp add: request_ok_def layer_request_args saturating_mul_def)

lemma layer_request_row: "row_value int_ops (read_args layer_request 0x10000) layer_request 0 = 32"
  unfolding layer_request_args
  by (simp add: row_value_def dot_product_eq products_def read_f32s_def read_u32_def load_mem_def le32_def be32_def upt_rec
      relu_def int_ops_def layer_request_def)

theorem tensor_syscall_correct_witness:
  "dispatch_syscall int_ops map_tables SYS_TENSOR_EVAL 0x20000 0 0 True boot_kernel = (Ok (- 1), boot_kernel)
   \<and> dispatch_syscall int_ops map_tables SYS_TENSOR_EVAL 0x10000 0 0 True (boot_kernel\<lparr>ks_mem := layer_request\<rparr>)
       = (Ok 0, boot_kernel\<lparr>ks_mem := store_mem layer_request 0x100A0 [32, 0, 0, 0]\<rparr>)"
proof -
  have "\<not> accessible map_tables (ks_mapper boot_kernel) (needed_flags True) (0x20000 + of_nat 0)"
    by (simp add: accessible_def map_tables_def boot_kernel_def)
  then have "\<not> pointer_is_mapped_checked map_tables (ks_mapper boot_kernel) 0x20000 80 True"
    using checked_range(2) [OF map_tables_uniform, of "ks_mapper boot_kernel" "0x20000" 80 True 0] by auto
  then have no: "\<not> request_ok map_tables (ks_mapper boot_kernel) True (ks_mem boot_kernel) 0x20000" by (simp add: request_ok_def)
  have yes: "request_ok map_tables (ks_mapper boot_kernel) True layer_request 0x10000"
    using layer_request_ok by (simp add: boot_kernel_def)
  have "store_row int_ops (read_args layer_request 0x10000) 0 layer_request = store_mem layer_request 0x100A0 [32, 0, 0, 0]"
    unfolding store_row_def layer_request_row by (simp add: layer_request_args int_ops_def le_bytes32_def)
  moreover have "unat (ta_out_dim (read_args layer_request 0x10000)) = 1" by (simp add: layer_request_args)
  ultimately show ?thesis
    using tensor_syscall_correct [OF map_tables_uniform, of int_ops "0x20000" 0 0 True boot_kernel]
      tensor_syscall_correct [OF map_tables_uniform, of int_ops "0x10000" 0 0 True "boot_kernel\<lparr>ks_mem := layer_request\<rparr>"] yes no
    by simp
qed

end
