(* ===== verification/Gguf_Loader.thy ===== *)
theory Gguf_Loader
  imports Tensor_Engine Paging
begin

text \<open>
  Model of \<^verbatim>\<open>gguf_loader.rs\<close>: the parsers of the model header and of the tensor table, the conversion
  of half-precision numbers and the decoders of the block-quantised formats. The operations on
  \<^verbatim>\<open>f32\<close> are a parameter, extended by subtraction and the conversion of small integers. Blocks are
  arrays of a fixed length, so their indices are in range by construction. A length prefix is a
  32-bit number, sums of it with small constants do not overflow 64 bits and are natural numbers
  here. Whether the global allocator can serve a request of a size is a parameter (\<open>can_allocate\<close>) of the function that
  allocates for a number found in a file; requests for at most a multiple of the input's length are taken to
  succeed. Printing is not modelled.
\<close>

section \<open>Definitions: parsers\<close>

definition GGUF_MAGIC :: u32 where "GGUF_MAGIC = 0x46554747"

datatype gguf_gtype = GF32 | GF16 | Q4_0 | Q4_1 | Q8_0 | Q2_K | Q3_K | Q4_K | Q5_K | Q6_K | Q8_K

definition from_u32 :: "u32 \<Rightarrow> gguf_gtype outcome" where
  "from_u32 raw =
     (if raw = 0 then Ok GF32 else if raw = 1 then Ok GF16 else if raw = 2 then Ok Q4_0
      else if raw = 3 then Ok Q4_1 else if raw = 8 then Ok Q8_0 else if raw = 10 then Ok Q2_K
      else if raw = 11 then Ok Q3_K else if raw = 12 then Ok Q4_K else if raw = 13 then Ok Q5_K
      else if raw = 14 then Ok Q6_K else if raw = 15 then Ok Q8_K
      else Err ''GGUF: unknown tensor gtype'')"

record gguf_tensor_info =
  ti_name :: bytes
  ti_dim0 :: u64
  ti_dim1 :: u64
  ti_gtype :: gguf_gtype
  ti_offset :: u64

text \<open>\<^verbatim>\<open>core::str::from_utf8\<close>: the well-formed byte sequences of the Unicode standard.\<close>

definition utf8_tail :: "u8 \<Rightarrow> bool" where
  "utf8_tail b \<longleftrightarrow> 0x80 \<le> b \<and> b \<le> 0xBF"

fun valid_utf8 :: "bytes \<Rightarrow> bool" where
  "valid_utf8 [] = True"
| "valid_utf8 (a # bs) =
     (if a < 0x80 then valid_utf8 bs
      else if 0xC2 \<le> a \<and> a \<le> 0xDF
      then (case bs of b # cs \<Rightarrow> utf8_tail b \<and> valid_utf8 cs | [] \<Rightarrow> False)
      else if 0xE0 \<le> a \<and> a \<le> 0xEF
      then (case bs of b # c # ds \<Rightarrow> utf8_tail b \<and> (a = 0xE0 \<longrightarrow> 0xA0 \<le> b) \<and> (a = 0xED \<longrightarrow> b \<le> 0x9F)
              \<and> utf8_tail c \<and> valid_utf8 ds | _ \<Rightarrow> False)
      else if 0xF0 \<le> a \<and> a \<le> 0xF4
      then (case bs of b # c # d # es \<Rightarrow> utf8_tail b \<and> (a = 0xF0 \<longrightarrow> 0x90 \<le> b) \<and> (a = 0xF4 \<longrightarrow> b \<le> 0x8F)
              \<and> utf8_tail c \<and> utf8_tail d \<and> valid_utf8 es | _ \<Rightarrow> False)
      else False)"

definition u32_at :: "bytes \<Rightarrow> nat \<Rightarrow> u32 outcome" where
  "u32_at bytes p = obind (idx bytes p) (\<lambda>a. obind (idx bytes (p + 1)) (\<lambda>b.
     obind (idx bytes (p + 2)) (\<lambda>c. obind (idx bytes (p + 3)) (\<lambda>d. Ok (le32 a b c d)))))"

definition parse_tensor_info :: "bytes \<Rightarrow> (gguf_tensor_info \<times> nat) outcome" where
  "parse_tensor_info bytes =
     (if length bytes < 4 then Err ''GGUF: tensor-info buffer too small for name length''
      else obind (u32_at bytes 0) (\<lambda>name_len.
        let fields_start = 4 + unat name_len in
        if length bytes < fields_start + 16 then Err ''GGUF: tensor-info buffer too small for name + fields''
        else obind (slice bytes 4 fields_start) (\<lambda>name.
          if \<not> valid_utf8 name then Err ''GGUF: tensor name is not valid UTF-8''
          else
            obind (u32_at bytes fields_start) (\<lambda>dim0.
            obind (u32_at bytes (fields_start + 4)) (\<lambda>dim1.
            obind (u32_at bytes (fields_start + 8)) (\<lambda>raw.
            obind (from_u32 raw) (\<lambda>gtype.
            obind (u32_at bytes (fields_start + 12)) (\<lambda>offset.
            Ok (\<lparr>ti_name = name, ti_dim0 = ucast dim0, ti_dim1 = ucast dim1, ti_gtype = gtype, ti_offset = ucast offset\<rparr>,
                fields_start + 16)))))))))"

fun parse_many_loop :: "bytes \<Rightarrow> nat \<Rightarrow> nat \<Rightarrow> gguf_tensor_info list \<Rightarrow> (gguf_tensor_info list \<times> nat) outcome" where
  "parse_many_loop bytes 0 offset infos = Ok (infos, offset)"
| "parse_many_loop bytes (Suc n) offset infos =
     (if length bytes < offset then Err ''GGUF: tensor-info offset past end of buffer''
      else obind (parse_tensor_info (drop offset bytes)) (\<lambda>(info, consumed).
        parse_many_loop bytes n (offset + consumed) (infos @ [info])))"

text \<open>
  An entry takes 56 bytes of memory. \<^verbatim>\<open>Vec::with_capacity\<close> asks for all of them at once (for none it does not ask); it
  panics above \<^verbatim>\<open>isize::MAX\<close> bytes and when the allocator fails.
\<close>

definition with_capacity :: "(nat \<Rightarrow> bool) \<Rightarrow> nat \<Rightarrow> unit outcome" where
  "with_capacity can_allocate count =
     (if count = 0 \<or> count * 56 < 2 ^ 63 \<and> can_allocate (count * 56) then Ok () else Panic)"

definition parse_many :: "(nat \<Rightarrow> bool) \<Rightarrow> bytes \<Rightarrow> nat \<Rightarrow> (gguf_tensor_info list \<times> nat) outcome" where
  "parse_many can_allocate bytes count =
     obind (with_capacity can_allocate count) (\<lambda>_. parse_many_loop bytes count 0 [])"

record gguf_model_loader =
  gl_magic :: u32
  gl_version :: u32
  gl_tensor_count :: u64
  gl_kv_count :: u64
  gl_architecture :: string
  gl_context_length :: u64
  gl_embedding_length :: u64

definition parse_header :: "bytes \<Rightarrow> gguf_model_loader outcome" where
  "parse_header bytes =
     (if length bytes < 24 then Err ''Header buffer too small''
      else obind (u32_at bytes 0) (\<lambda>magic.
        if magic \<noteq> GGUF_MAGIC then Err ''Invalid GGUF Magic Header (expected 'GGUF')''
        else obind (u32_at bytes 4) (\<lambda>version.
          Ok \<lparr>gl_magic = magic, gl_version = version, gl_tensor_count = le64 (sub bytes 8 8),
              gl_kv_count = le64 (sub bytes 16 8), gl_architecture = ''llama'', gl_context_length = 4096,
              gl_embedding_length = 2048\<rparr>)))"

section \<open>Definitions: numbers and blocks\<close>

record 'f f32_arith = "'f f32_ops" +
  f_sub :: "'f \<Rightarrow> 'f \<Rightarrow> 'f"
  f_of_int :: "int \<Rightarrow> 'f"

text \<open>
  The normalisation loop. A 32-bit number whose tenth bit has not appeared after 32 shifts is
  zero, and the loop does not end on it.
\<close>

fun f16_normalize :: "nat \<Rightarrow> u32 \<Rightarrow> u32 \<Rightarrow> (u32 \<times> u32) outcome" where
  "f16_normalize 0 m e = Diverge"
| "f16_normalize (Suc n) m e = (if m AND 0x400 = 0 then f16_normalize n (push_bit 1 m) (e - 1) else Ok (m, e))"

definition f16_to_f32_bits :: "u16 \<Rightarrow> u32 outcome" where
  "f16_to_f32_bits bits =
     (let sign = ucast (bits AND 0x8000) :: u32;
          exp16 = drop_bit 10 bits AND 0x1F;
          mant16 = ucast (bits AND 0x3FF) :: u32
      in obind (if exp16 = 0 then
                  (if mant16 = 0 then Ok (0, 0)
                   else obind (f16_normalize 32 mant16 (- 14)) (\<lambda>(m, e). Ok (e + 127, push_bit 13 (m AND 0x3FF))))
                else if exp16 = 0x1F then Ok (0xFF, push_bit 13 mant16)
                else Ok (ucast exp16 + (127 - 15), push_bit 13 mant16)) (\<lambda>(exp32, mant32).
         Ok (push_bit 16 sign OR push_bit 23 exp32 OR mant32)))"

definition f16_to_f32 :: "('f, 'z) f32_arith_scheme \<Rightarrow> u16 \<Rightarrow> 'f outcome" where
  "f16_to_f32 ops bits = omap (f_of_bits ops) (f16_to_f32_bits bits)"

definition get_scale_min_k4 :: "nat \<Rightarrow> bytes \<Rightarrow> u8 \<times> u8" where
  "get_scale_min_k4 j q =
     (if j < 4 then (q ! j AND 63, q ! (j + 4) AND 63)
      else ((q ! (j + 4) AND 0x0F) OR push_bit 4 (drop_bit 6 (q ! (j - 4))),
            drop_bit 4 (q ! (j + 4)) OR push_bit 4 (drop_bit 6 (q ! j))))"

definition as_chunks :: "nat \<Rightarrow> 'a list \<Rightarrow> 'a list list" where
  "as_chunks n xs = map (\<lambda>k. sub xs (k * n) n) [0..<length xs div n]"

fun omap_list :: "('a \<Rightarrow> 'b outcome) \<Rightarrow> 'a list \<Rightarrow> 'b list outcome" where
  "omap_list f [] = Ok []"
| "omap_list f (x # xs) = obind (f x) (\<lambda>y. obind (omap_list f xs) (\<lambda>ys. Ok (y # ys)))"

text \<open>The blocks of a fixed size, decoded one after the other.\<close>

definition decode_blocks :: "nat \<Rightarrow> (bytes \<Rightarrow> 'f list outcome) \<Rightarrow> bytes \<Rightarrow> 'f list outcome" where
  "decode_blocks n f bytes = omap concat (omap_list f (as_chunks n bytes))"

text \<open>The half-precision number at an offset of a block; writes to an array in program order.\<close>

definition half_at :: "('f, 'z) f32_arith_scheme \<Rightarrow> bytes \<Rightarrow> nat \<Rightarrow> 'f outcome" where
  "half_at ops block k = f16_to_f32 ops (le16 (block ! k) (block ! (k + 1)))"

definition write_all :: "(nat \<times> 'a) list \<Rightarrow> 'a list \<Rightarrow> 'a list" where
  "write_all ws xs = fold (\<lambda>(p, v) ys. ys[p := v]) ws xs"

section \<open>Definitions: decoders\<close>

definition decode_f32_le :: "('f, 'z) f32_arith_scheme \<Rightarrow> bytes \<Rightarrow> 'f list outcome" where
  "decode_f32_le ops = decode_blocks 4 (\<lambda>c. Ok [f_of_bits ops (le32 (c ! 0) (c ! 1) (c ! 2) (c ! 3))])"

definition decode_f16_le :: "('f, 'z) f32_arith_scheme \<Rightarrow> bytes \<Rightarrow> 'f list outcome" where
  "decode_f16_le ops = decode_blocks 2 (\<lambda>c. obind (half_at ops c 0) (\<lambda>v. Ok [v]))"

definition decode_q8_0 :: "('f, 'z) f32_arith_scheme \<Rightarrow> bytes \<Rightarrow> 'f list outcome" where
  "decode_q8_0 ops = decode_blocks 34 (\<lambda>block. obind (half_at ops block 0) (\<lambda>scale.
     Ok (map (\<lambda>byte. f_mul ops (f_of_int ops (sint byte)) scale) (sub block 2 32))))"

definition q4_0_writes :: "('f, 'z) f32_arith_scheme \<Rightarrow> 'f \<Rightarrow> bytes \<Rightarrow> nat \<Rightarrow> (nat \<times> 'f) list" where
  "q4_0_writes ops scale qs j =
     (let low = uint (qs ! j AND 0x0F) - 8; high = uint (drop_bit 4 (qs ! j)) - 8
      in [(j, f_mul ops (f_of_int ops low) scale), (j + 16, f_mul ops (f_of_int ops high) scale)])"

definition decode_q4_0 :: "('f, 'z) f32_arith_scheme \<Rightarrow> bytes \<Rightarrow> 'f list outcome" where
  "decode_q4_0 ops = decode_blocks 18 (\<lambda>block. obind (half_at ops block 0) (\<lambda>scale.
     Ok (write_all (concat (map (q4_0_writes ops scale (sub block 2 16)) [0..<16])) (replicate 32 (f_zero ops)))))"

definition q4_1_writes :: "('f, 'z) f32_arith_scheme \<Rightarrow> 'f \<Rightarrow> 'f \<Rightarrow> bytes \<Rightarrow> nat \<Rightarrow> (nat \<times> 'f) list" where
  "q4_1_writes ops scale mn qs j =
     (let low = qs ! j AND 0x0F; high = drop_bit 4 (qs ! j)
      in [(j, f_add ops (f_mul ops (f_of_int ops (uint low)) scale) mn),
          (j + 16, f_add ops (f_mul ops (f_of_int ops (uint high)) scale) mn)])"

definition decode_q4_1 :: "('f, 'z) f32_arith_scheme \<Rightarrow> bytes \<Rightarrow> 'f list outcome" where
  "decode_q4_1 ops = decode_blocks 20 (\<lambda>block. obind (half_at ops block 0) (\<lambda>scale. obind (half_at ops block 2) (\<lambda>mn.
     Ok (write_all (concat (map (q4_1_writes ops scale mn (sub block 4 16)) [0..<16])) (replicate 32 (f_zero ops))))))"

fun q4_k_chunks :: "('f, 'z) f32_arith_scheme \<Rightarrow> 'f \<Rightarrow> 'f \<Rightarrow> bytes \<Rightarrow> bytes \<Rightarrow> nat list \<Rightarrow> nat \<Rightarrow> 'f list" where
  "q4_k_chunks ops d dmin scales qs [] q_offset = []"
| "q4_k_chunks ops d dmin scales qs (i # rest) q_offset =
     (let (sc1, m1) = get_scale_min_k4 i scales;
          (sc2, m2) = get_scale_min_k4 (i + 1) scales;
          d1 = f_mul ops d (f_of_int ops (uint sc1));
          dm1 = f_mul ops dmin (f_of_int ops (uint m1));
          d2 = f_mul ops d (f_of_int ops (uint sc2));
          dm2 = f_mul ops dmin (f_of_int ops (uint m2));
          chunk = sub qs q_offset 32
      in map (\<lambda>byte. f_sub ops (f_mul ops d1 (f_of_int ops (uint (byte AND 0x0F)))) dm1) chunk
         @ map (\<lambda>byte. f_sub ops (f_mul ops d2 (f_of_int ops (uint (drop_bit 4 byte)))) dm2) chunk
         @ q4_k_chunks ops d dmin scales qs rest (q_offset + 32))"

definition decode_q4_k :: "('f, 'z) f32_arith_scheme \<Rightarrow> bytes \<Rightarrow> 'f list outcome" where
  "decode_q4_k ops = decode_blocks 144 (\<lambda>block. obind (half_at ops block 0) (\<lambda>d. obind (half_at ops block 2) (\<lambda>dmin.
     Ok (q4_k_chunks ops d dmin (sub block 4 12) (sub block 16 128) [0, 2, 4, 6] 0))))"

fun q5_k_chunks :: "('f, 'z) f32_arith_scheme \<Rightarrow> 'f \<Rightarrow> 'f \<Rightarrow> bytes \<Rightarrow> bytes \<Rightarrow> bytes \<Rightarrow> nat \<Rightarrow> nat \<Rightarrow> u8 \<Rightarrow> u8 \<Rightarrow> nat \<Rightarrow> 'f list" where
  "q5_k_chunks ops d dmin scales qh qs 0 i u1 u2 q_offset = []"
| "q5_k_chunks ops d dmin scales qh qs (Suc n) i u1 u2 q_offset =
     (let (sc1, m1) = get_scale_min_k4 i scales;
          (sc2, m2) = get_scale_min_k4 (i + 1) scales;
          d1 = f_mul ops d (f_of_int ops (uint sc1));
          dm1 = f_mul ops dmin (f_of_int ops (uint m1));
          d2 = f_mul ops d (f_of_int ops (uint sc2));
          dm2 = f_mul ops dmin (f_of_int ops (uint m2))
      in map (\<lambda>l. let low = uint (qs ! (q_offset + l) AND 0x0F) + (if qh ! l AND u1 \<noteq> 0 then 16 else 0)
                  in f_sub ops (f_mul ops d1 (f_of_int ops low)) dm1) [0..<32]
         @ map (\<lambda>l. let high = uint (drop_bit 4 (qs ! (q_offset + l))) + (if qh ! l AND u2 \<noteq> 0 then 16 else 0)
                  in f_sub ops (f_mul ops d2 (f_of_int ops high)) dm2) [0..<32]
         @ q5_k_chunks ops d dmin scales qh qs n (i + 2) (push_bit 2 u1) (push_bit 2 u2) (q_offset + 32))"

definition decode_q5_k :: "('f, 'z) f32_arith_scheme \<Rightarrow> bytes \<Rightarrow> 'f list outcome" where
  "decode_q5_k ops = decode_blocks 176 (\<lambda>block. obind (half_at ops block 0) (\<lambda>d. obind (half_at ops block 2) (\<lambda>dmin.
     Ok (q5_k_chunks ops d dmin (sub block 4 12) (sub block 16 32) (sub block 48 128) 4 0 1 2 0))))"

definition q6_k_writes :: "('f, 'z) f32_arith_scheme \<Rightarrow> 'f \<Rightarrow> bytes \<Rightarrow> bytes \<Rightarrow> bytes \<Rightarrow> nat \<Rightarrow> nat \<Rightarrow> (nat \<times> 'f) list" where
  "q6_k_writes ops d ql_all qh_all scales half l =
     (let ql = sub ql_all (half * 64) 64; qh = sub qh_all (half * 32) 32; sc = sub scales (half * 8) 8;
          i = l div 16;
          q1 = ((ql ! l AND 0x0F) OR push_bit 4 (qh ! l AND 3)) - 32;
          q2 = ((ql ! (l + 32) AND 0x0F) OR push_bit 4 (drop_bit 2 (qh ! l) AND 3)) - 32;
          q3 = (drop_bit 4 (ql ! l) OR push_bit 4 (drop_bit 4 (qh ! l) AND 3)) - 32;
          q4 = (drop_bit 4 (ql ! (l + 32)) OR push_bit 4 (drop_bit 6 (qh ! l) AND 3)) - 32;
          val = (\<lambda>s q. f_mul ops (f_mul ops d (f_of_int ops (sint s))) (f_of_int ops (sint q)))
      in [(half * 128 + l, val (sc ! i) q1), (half * 128 + (l + 32), val (sc ! (i + 2)) q2),
          (half * 128 + (l + 64), val (sc ! (i + 4)) q3), (half * 128 + (l + 96), val (sc ! (i + 6)) q4)])"

definition decode_q6_k :: "('f, 'z) f32_arith_scheme \<Rightarrow> bytes \<Rightarrow> 'f list outcome" where
  "decode_q6_k ops = decode_blocks 210 (\<lambda>block. obind (half_at ops block 208) (\<lambda>d.
     Ok (write_all (concat (map (\<lambda>half. concat (map
           (q6_k_writes ops d (sub block 0 128) (sub block 128 64) (sub block 192 16) half) [0..<32])) [0..<2]))
         (replicate 256 (f_zero ops)))))"

definition decode_q8_k :: "('f, 'z) f32_arith_scheme \<Rightarrow> bytes \<Rightarrow> 'f list outcome" where
  "decode_q8_k ops = decode_blocks 292 (\<lambda>block.
     let d = f_of_bits ops (le32 (block ! 0) (block ! 1) (block ! 2) (block ! 3))
     in Ok (map (\<lambda>q. f_mul ops d (f_of_int ops (sint q))) (sub block 4 256)))"

definition q2_k_run :: "('f, 'z) f32_arith_scheme \<Rightarrow> 'f \<Rightarrow> 'f \<Rightarrow> bytes \<Rightarrow> u8 \<Rightarrow> nat \<Rightarrow> nat \<Rightarrow> 'f list" where
  "q2_k_run ops d dmin qs sc base shift =
     (let dl = f_mul ops d (f_of_int ops (uint (sc AND 0x0F)));
          ml = f_mul ops dmin (f_of_int ops (uint (drop_bit 4 sc)))
      in map (\<lambda>l. let q_bits = drop_bit shift (qs ! (base + l)) AND 3
                  in f_sub ops (f_mul ops dl (f_of_int ops (uint q_bits))) ml) [0..<16])"

fun q2_k_inner :: "('f, 'z) f32_arith_scheme \<Rightarrow> 'f \<Rightarrow> 'f \<Rightarrow> bytes \<Rightarrow> bytes \<Rightarrow> nat \<Rightarrow> nat list \<Rightarrow> nat \<Rightarrow> 'f list \<times> nat" where
  "q2_k_inner ops d dmin scales qs q_offset [] i = ([], i)"
| "q2_k_inner ops d dmin scales qs q_offset (j # js) i =
     (let shift = j * 2;
          first_run = q2_k_run ops d dmin qs (scales ! i) q_offset shift;
          second_run = q2_k_run ops d dmin qs (scales ! (i + 1)) (q_offset + 16) shift;
          (rest, i') = q2_k_inner ops d dmin scales qs q_offset js (i + 1 + 1)
      in (first_run @ second_run @ rest, i'))"

fun q2_k_outer :: "('f, 'z) f32_arith_scheme \<Rightarrow> 'f \<Rightarrow> 'f \<Rightarrow> bytes \<Rightarrow> bytes \<Rightarrow> nat \<Rightarrow> nat \<Rightarrow> nat \<Rightarrow> 'f list" where
  "q2_k_outer ops d dmin scales qs 0 q_offset i = []"
| "q2_k_outer ops d dmin scales qs (Suc n) q_offset i =
     (let (vals, i') = q2_k_inner ops d dmin scales qs q_offset [0, 1, 2, 3] i
      in vals @ q2_k_outer ops d dmin scales qs n (q_offset + 32) i')"

definition decode_q2_k :: "('f, 'z) f32_arith_scheme \<Rightarrow> bytes \<Rightarrow> 'f list outcome" where
  "decode_q2_k ops = decode_blocks 84 (\<lambda>block. obind (half_at ops block 80) (\<lambda>d. obind (half_at ops block 82) (\<lambda>dmin.
     Ok (q2_k_outer ops d dmin (sub block 0 16) (sub block 16 64) 2 0 0))))"

definition q3_k_scales :: "bytes \<Rightarrow> bytes" where
  "q3_k_scales raw =
     write_all (concat (map (\<lambda>j.
       let a_lo = raw ! j AND 0x0F; a_hi = drop_bit 4 (raw ! j);
           b_lo = raw ! (4 + j) AND 0x0F; b_hi = drop_bit 4 (raw ! (4 + j));
           byte8 = raw ! (8 + j)
       in [(j, a_lo OR push_bit 4 (byte8 AND 0x03)),
           (4 + j, b_lo OR push_bit 4 (drop_bit 2 byte8 AND 0x03)),
           (8 + j, a_hi OR push_bit 4 (drop_bit 4 byte8 AND 0x03)),
           (12 + j, b_hi OR push_bit 4 (drop_bit 6 byte8 AND 0x03))]) [0..<4])) (replicate 16 0)"

definition q3_k_run :: "('f, 'z) f32_arith_scheme \<Rightarrow> 'f \<Rightarrow> bytes \<Rightarrow> bytes \<Rightarrow> u8 \<Rightarrow> nat \<Rightarrow> nat \<Rightarrow> nat \<Rightarrow> u8 \<Rightarrow> 'f list" where
  "q3_k_run ops d hmask qs sc q_offset h_base shift m =
     (let dl = f_mul ops d (f_of_int ops (uint sc - 32))
      in map (\<lambda>l. let q_bits = drop_bit shift (qs ! (q_offset + h_base + l)) AND 3;
                      hm_bit = (hmask ! (h_base + l) AND m \<noteq> 0);
                      val = uint q_bits - (if hm_bit then 0 else 4)
                  in f_mul ops dl (f_of_int ops val)) [0..<16])"

fun q3_k_inner :: "('f, 'z) f32_arith_scheme \<Rightarrow> 'f \<Rightarrow> bytes \<Rightarrow> bytes \<Rightarrow> bytes \<Rightarrow> nat \<Rightarrow> nat list \<Rightarrow> nat \<Rightarrow> u8 \<Rightarrow> 'f list \<times> nat \<times> u8" where
  "q3_k_inner ops d hmask qs scales q_offset [] i m = ([], i, m)"
| "q3_k_inner ops d hmask qs scales q_offset (j # js) i m =
     (let shift = j * 2;
          first_run = q3_k_run ops d hmask qs (scales ! i) q_offset 0 shift m;
          second_run = q3_k_run ops d hmask qs (scales ! (i + 1)) q_offset 16 shift m;
          (rest, i', m') = q3_k_inner ops d hmask qs scales q_offset js (i + 1 + 1) (push_bit 1 m)
      in (first_run @ second_run @ rest, i', m'))"

fun q3_k_outer :: "('f, 'z) f32_arith_scheme \<Rightarrow> 'f \<Rightarrow> bytes \<Rightarrow> bytes \<Rightarrow> bytes \<Rightarrow> nat \<Rightarrow> nat \<Rightarrow> nat \<Rightarrow> u8 \<Rightarrow> 'f list" where
  "q3_k_outer ops d hmask qs scales 0 q_offset i m = []"
| "q3_k_outer ops d hmask qs scales (Suc n) q_offset i m =
     (let (vals, i', m') = q3_k_inner ops d hmask qs scales q_offset [0, 1, 2, 3] i m
      in vals @ q3_k_outer ops d hmask qs scales n (q_offset + 32) i' m')"

definition decode_q3_k :: "('f, 'z) f32_arith_scheme \<Rightarrow> bytes \<Rightarrow> 'f list outcome" where
  "decode_q3_k ops = decode_blocks 110 (\<lambda>block. obind (half_at ops block 108) (\<lambda>d.
     Ok (q3_k_outer ops d (sub block 0 32) (sub block 32 64) (q3_k_scales (sub block 96 12)) 2 0 0 1)))"

primrec decode_tensor :: "('f, 'z) f32_arith_scheme \<Rightarrow> bytes \<Rightarrow> gguf_gtype \<Rightarrow> 'f list outcome" where
  "decode_tensor ops bytes GF32 = decode_f32_le ops bytes"
| "decode_tensor ops bytes GF16 = decode_f16_le ops bytes"
| "decode_tensor ops bytes Q8_0 = decode_q8_0 ops bytes"
| "decode_tensor ops bytes Q4_0 = decode_q4_0 ops bytes"
| "decode_tensor ops bytes Q4_1 = decode_q4_1 ops bytes"
| "decode_tensor ops bytes Q2_K = decode_q2_k ops bytes"
| "decode_tensor ops bytes Q3_K = decode_q3_k ops bytes"
| "decode_tensor ops bytes Q4_K = decode_q4_k ops bytes"
| "decode_tensor ops bytes Q5_K = decode_q5_k ops bytes"
| "decode_tensor ops bytes Q6_K = decode_q6_k ops bytes"
| "decode_tensor ops bytes Q8_K = decode_q8_k ops bytes"

definition execute_gguf_layer_pass :: "'f f32_ops \<Rightarrow> 'f list \<Rightarrow> 'f list \<Rightarrow> 'f list \<Rightarrow> u64 \<Rightarrow> u64 \<Rightarrow> 'f list outcome" where
  "execute_gguf_layer_pass ops weights inputs outputs in_dim out_dim =
     (let weights_needed = min (unat out_dim * unat in_dim) (2 ^ 64 - 1) in
      if length weights < weights_needed \<or> length outputs < unat out_dim
      then Err ''GGUF layer pass: in_dim/out_dim inconsistent with weights/outputs length''
      else matmul_layer ops weights inputs (replicate 16 (f_zero ops)) outputs in_dim out_dim)"

section \<open>Half precision\<close>

lemma and_0x400: "unat (m :: u32) < 0x800 \<Longrightarrow> m AND 0x400 = 0 \<longleftrightarrow> unat m < 0x400"
proof -
  assume a: "unat m < 0x800"
  have "m AND 0x400 = 0 \<longleftrightarrow> \<not> bit m 10" using and_exp_eq_0_iff_not_bit [of m 10] by simp
  also have "bit m 10 = odd (unat m div 2 ^ 10)"
  proof -
    have "bit (unat m) 10 = bit m 10" by (simp add: bit_unsigned_iff)
    then show ?thesis by (simp add: bit_iff_odd)
  qed
  also have "\<not> odd (unat m div 2 ^ 10) \<longleftrightarrow> unat m < 0x400"
  proof
    assume "\<not> odd (unat m div 2 ^ 10)"
    moreover have "unat m div 2 ^ 10 < 2" using a by (simp add: div_less_iff_less_mult)
    ultimately have "unat m div 2 ^ 10 = 0" using less_2_cases by force
    then show "unat m < 0x400" by simp
  qed simp
  finally show ?thesis .
qed

lemma f16_normalize_ok:
  "0 < unat m \<Longrightarrow> unat m < 0x800 \<Longrightarrow> 0x400 \<le> unat m * 2 ^ n \<Longrightarrow>
   \<exists>j m'. f16_normalize (Suc n) m e = Ok (m', e - of_nat j) \<and> unat m' = unat m * 2 ^ j
     \<and> 0x400 \<le> unat m' \<and> unat m' < 0x800 \<and> j \<le> n"
proof (induction n arbitrary: m e)
  case 0
  then show ?case using and_0x400 [of m] by (intro exI [of _ 0] exI [of _ m]) simp
next
  case (Suc n)
  show ?case
  proof (cases "unat m < 0x400")
    case True
    have u: "unat (push_bit 1 m) = 2 * unat m" using True by (simp add: push_bit_eq_mult unat_word_ariths)
    obtain j m' where "f16_normalize (Suc n) (push_bit 1 m) (e - 1) = Ok (m', e - 1 - of_nat j)" "unat m' = unat (push_bit 1 m) * 2 ^ j"
        "0x400 \<le> unat m'" "unat m' < 0x800" "j \<le> n"
      using Suc.IH [of "push_bit 1 m" "e - 1"] Suc.prems True u by auto
    then show ?thesis
      using True and_0x400 [of m] u Suc.prems(2) by (intro exI [of _ "Suc j"] exI [of _ m']) (simp add: algebra_simps)
  next
    case False
    then show ?thesis using and_0x400 [of m] Suc.prems(2) by (intro exI [of _ 0] exI [of _ m]) simp
  qed
qed

text \<open>
  Finite numbers in units of the last place: \<open>2 ^ -24\<close> in half precision, \<open>2 ^ -149\<close> in single precision.
\<close>

definition f16_units :: "u16 \<Rightarrow> int" where
  "f16_units b = (let e = unat (drop_bit 10 b) mod 32; m = int (unat b mod 2 ^ 10)
     in (if bit b 15 then - 1 else 1) * (if e = 0 then m else (2 ^ 10 + m) * 2 ^ (e - 1)))"

definition f32_units :: "u32 \<Rightarrow> int" where
  "f32_units w = (let e = unat (drop_bit 23 w) mod 256; m = int (unat w mod 2 ^ 23)
     in (if bit w 31 then - 1 else 1) * (if e = 0 then m else (2 ^ 23 + m) * 2 ^ (e - 1)))"

lemma small_take_bit: "unat (x :: 'a::len word) < 2 ^ n \<Longrightarrow> take_bit n x = x"
  by (simp add: word_unat_eq_iff unat_take_bit)

lemma single_fields:
  fixes e m :: u32 and bits :: u16
  assumes "unat e < 256" "unat m < 2 ^ 23"
  defines "w \<equiv> push_bit 16 (ucast (bits AND 0x8000)) OR push_bit 23 e OR m"
  shows "bit w 31 = bit bits 15" "unat (drop_bit 23 w) mod 256 = unat e" "unat w mod 2 ^ 23 = unat m"
proof -
  have e: "take_bit 8 e = e" and m: "take_bit 23 m = m" using small_take_bit [of e 8] small_take_bit [of m 23] assms(1,2) by simp_all
  have hi: "\<not> bit e n" if "8 \<le> n" for n using that by (subst e [symmetric]) (simp add: bit_take_bit_iff)
  have mhi: "\<not> bit m n" if "23 \<le> n" for n using that by (subst m [symmetric]) (simp add: bit_take_bit_iff)
  have s: "bit (bits AND 0x8000) n \<longleftrightarrow> n = 15 \<and> bit bits 15" for n
  proof -
    have "bit (2 ^ 15 :: u16) n \<longleftrightarrow> n = 15" unfolding bit_exp_iff by auto
    then have "bit (0x8000 :: u16) n \<longleftrightarrow> n = 15" by simp
    then show ?thesis unfolding bit_and_iff by blast
  qed
  have sg: "bit (push_bit 16 (ucast (bits AND 0x8000)) :: u32) n \<longleftrightarrow> n = 31 \<and> bit bits 15" for n
    by (auto simp: bit_push_bit_iff bit_ucast_iff s)
  show "bit w 31 = bit bits 15" unfolding w_def bit_or_iff sg using hi [of 8] mhi [of 31] by (simp add: bit_push_bit_iff)
  have "take_bit 8 (drop_bit 23 w) = e"
  proof (rule bit_eqI)
    fix n
    show "bit (take_bit 8 (drop_bit 23 w)) n = bit e n"
      unfolding w_def bit_take_bit_iff bit_drop_bit_eq o_def bit_or_iff sg using hi [of n] mhi [of "23 + n"]
      by (cases "n < 8") (simp_all add: bit_push_bit_iff not_less)
  qed
  then show "unat (drop_bit 23 w) mod 256 = unat e" using unat_take_bit [of 8 "drop_bit 23 w"] by simp
  have "take_bit 23 w = m"
  proof (rule bit_eqI)
    fix n
    show "bit (take_bit 23 w) n = bit m n"
      unfolding w_def bit_take_bit_iff bit_or_iff sg using mhi [of n] by (cases "n < 23") (auto simp: bit_push_bit_iff not_less)
  qed
  then show "unat w mod 2 ^ 23 = unat m" using unat_take_bit [of 23 w] by simp
qed

lemma half_fields:
  fixes bits :: u16
  shows "unat (drop_bit 10 bits AND 0x1F) = unat (drop_bit 10 bits) mod 32"
    "unat (ucast (bits AND 0x3FF) :: u32) = unat bits mod 2 ^ 10"
proof -
  show "unat (drop_bit 10 bits AND 0x1F) = unat (drop_bit 10 bits) mod 32"
    using unat_and_mask [of "drop_bit 10 bits" 5] by (simp add: mask_numeral)
  have "unat (ucast (bits AND 0x3FF) :: u32) = unat (bits AND 0x3FF)" by (simp add: unat_ucast_up)
  then show "unat (ucast (bits AND 0x3FF) :: u32) = unat bits mod 2 ^ 10"
    using unat_and_mask [of bits 10] by (simp add: mask_numeral)
qed

text \<open>The conversion in terms of the fields: never a loop without end, and the value is exact.\<close>

lemma f16_to_f32_bits_ok:
  "\<exists>e m. f16_to_f32_bits bits = Ok (push_bit 16 (ucast (bits AND 0x8000)) OR push_bit 23 e OR m)
     \<and> unat e < 256 \<and> unat m < 2 ^ 23
     \<and> (let e16 = unat (drop_bit 10 bits) mod 32; m16 = unat bits mod 2 ^ 10 in
        if e16 = 31 then unat e = 255 \<and> unat m = m16 * 2 ^ 13
        else if e16 = 0 \<and> m16 = 0 then unat e = 0 \<and> unat m = 0
        else 0 < unat e \<and> int (2 ^ 23 + unat m) * 2 ^ (unat e - 1)
               = (if e16 = 0 then int m16 else int (2 ^ 10 + m16) * 2 ^ (e16 - 1)) * 2 ^ 125)"
proof -
  define e16 where "e16 = drop_bit 10 bits AND 0x1F"
  define m16 where "m16 = (ucast (bits AND 0x3FF) :: u32)"
  have f: "unat e16 = unat (drop_bit 10 bits) mod 32" "unat m16 = unat bits mod 2 ^ 10"
    unfolding e16_def m16_def by (rule half_fields)+
  have m: "unat m16 < 0x400" using f(2) by simp
  have p: "unat (push_bit 13 m16) = unat m16 * 2 ^ 13" using m by (simp add: push_bit_eq_mult unat_word_ariths)
  consider "unat e16 = 31" | "unat e16 = 0" "unat m16 = 0" | "unat e16 = 0" "0 < unat m16" | "0 < unat e16" "unat e16 < 31"
    using f(1) mod_less_divisor [of 32 "unat (drop_bit 10 bits)"] by linarith
  then show ?thesis
  proof cases
    case 1
    then have "f16_to_f32_bits bits = Ok (push_bit 16 (ucast (bits AND 0x8000)) OR push_bit 23 0xFF OR push_bit 13 m16)"
      unfolding f16_to_f32_bits_def e16_def [symmetric] m16_def [symmetric] Let_def by (auto simp: word_unat_eq_iff)
    then show ?thesis by (intro exI [of _ "0xFF"] exI [of _ "push_bit 13 m16"]) (use 1 p m f in \<open>simp add: Let_def\<close>)
  next
    case 2
    then have "f16_to_f32_bits bits = Ok (push_bit 16 (ucast (bits AND 0x8000)) OR push_bit 23 0 OR 0)"
      unfolding f16_to_f32_bits_def e16_def [symmetric] m16_def [symmetric] Let_def by (auto simp: word_unat_eq_iff)
    then show ?thesis by (intro exI [of _ 0]) (use 2 f in \<open>simp add: Let_def\<close>)
  next
    case 3
    obtain j m' where n: "f16_normalize (Suc 31) m16 (- 14) = Ok (m', - 14 - of_nat j)" "unat m' = unat m16 * 2 ^ j"
        "0x400 \<le> unat m'" "unat m' < 0x800"
      using f16_normalize_ok [of m16 31 "- 14"] 3 m by auto
    have "j \<le> 10"
    proof (rule ccontr)
      assume "\<not> j \<le> 10"
      then have "(2 :: nat) ^ 11 \<le> 2 ^ j" by (intro power_increasing) simp_all
      moreover have "2 ^ j \<le> unat m16 * 2 ^ j" using 3(2) by simp
      ultimately show False using n(2,4) by simp
    qed
    have "(- 14 - of_nat j + 127 :: u32) = of_nat (113 - j)" using \<open>j \<le> 10\<close> by (simp add: of_nat_diff)
    then have e: "unat (- 14 - of_nat j + 127 :: u32) = 113 - j" using unat_of_nat [where 'a = 32, of "113 - j"] by simp
    have "unat (m' AND 0x3FF) = unat m' mod 1024" using unat_and_mask [of m' 10] by (simp add: mask_numeral)
    then have m3: "unat (m' AND 0x3FF) = unat m' - 1024" using n(3,4) by (simp add: mod_if)
    then have p3: "unat (push_bit 13 (m' AND 0x3FF)) = (unat m' - 1024) * 2 ^ 13"
      using n(4) by (simp add: push_bit_eq_mult unat_word_ariths)
    have "int (2 ^ 23 + (unat m' - 1024) * 2 ^ 13) * 2 ^ (112 - j) = int (unat m') * (2 ^ 13 * 2 ^ (112 - j))"
      using n(3) by (simp add: of_nat_diff algebra_simps)
    also have "\<dots> = int (unat m16) * (2 ^ j * (2 ^ 13 * 2 ^ (112 - j)))" using n(2) by simp
    also have "(2 :: int) ^ j * (2 ^ 13 * 2 ^ (112 - j)) = 2 ^ (j + (13 + (112 - j)))" by (simp only: power_add)
    also have "j + (13 + (112 - j)) = 125" using \<open>j \<le> 10\<close> by simp
    finally have val: "int (2 ^ 23 + (unat m' - 1024) * 2 ^ 13) * 2 ^ (112 - j) = int (unat m16) * 2 ^ 125" .
    have "f16_to_f32_bits bits = Ok (push_bit 16 (ucast (bits AND 0x8000)) OR push_bit 23 (- 14 - of_nat j + 127) OR push_bit 13 (m' AND 0x3FF))"
      using 3 n(1) unfolding f16_to_f32_bits_def e16_def [symmetric] m16_def [symmetric] Let_def
      by (auto simp: word_unat_eq_iff numeral_eq_Suc simp del: f16_normalize.simps)
    then show ?thesis
      by (intro exI [of _ "- 14 - of_nat j + 127"] exI [of _ "push_bit 13 (m' AND 0x3FF)"] conjI)
        (use 3 e p3 val n(3,4) f \<open>j \<le> 10\<close> in \<open>simp_all add: Let_def\<close>)
  next
    case 4
    have e: "unat (ucast e16 + (127 - 15) :: u32) = unat e16 + 112" using 4 by (simp add: unat_word_ariths unat_ucast_up)
    have "f16_to_f32_bits bits = Ok (push_bit 16 (ucast (bits AND 0x8000)) OR push_bit 23 (ucast e16 + (127 - 15)) OR push_bit 13 m16)"
      using 4 unfolding f16_to_f32_bits_def e16_def [symmetric] m16_def [symmetric] Let_def by (auto simp: word_unat_eq_iff)
    moreover have "int (2 ^ 23 + unat m16 * 2 ^ 13) * 2 ^ (unat e16 + 111) = int (2 ^ 10 + unat m16) * 2 ^ (unat e16 - 1) * 2 ^ 125"
    proof -
      have "unat e16 + 111 = (unat e16 - 1) + 112" using 4 by simp
      then have "(2 :: int) ^ (unat e16 + 111) = 2 ^ (unat e16 - 1) * 2 ^ 112" by (simp only: power_add)
      then show ?thesis by (simp add: algebra_simps)
    qed
    moreover have "unat e16 + 112 - 1 = unat e16 + 111" "unat e16 \<noteq> 31" "unat e16 \<noteq> 0" using 4 by simp_all
    ultimately show ?thesis
      unfolding Let_def f [symmetric]
      by (intro exI [of _ "ucast e16 + (127 - 15)"] exI [of _ "push_bit 13 m16"] conjI)
        (use 4 m in \<open>simp_all only: e p if_False simp_thms, simp_all\<close>)
  qed
qed

lemma f16_to_f32_exact_bits:
  "\<exists>w. f16_to_f32_bits bits = Ok w \<and> bit w 31 = bit bits 15
     \<and> (if unat (drop_bit 10 bits) mod 32 = 31
        then unat (drop_bit 23 w) mod 256 = 255 \<and> unat w mod 2 ^ 23 = unat bits mod 2 ^ 10 * 2 ^ 13
        else f32_units w = f16_units bits * 2 ^ 125)"
proof -
  obtain e m where w: "f16_to_f32_bits bits = Ok (push_bit 16 (ucast (bits AND 0x8000)) OR push_bit 23 e OR m)"
      "unat e < 256" "unat m < 2 ^ 23"
    and v: "let e16 = unat (drop_bit 10 bits) mod 32; m16 = unat bits mod 2 ^ 10 in
        if e16 = 31 then unat e = 255 \<and> unat m = m16 * 2 ^ 13
        else if e16 = 0 \<and> m16 = 0 then unat e = 0 \<and> unat m = 0
        else 0 < unat e \<and> int (2 ^ 23 + unat m) * 2 ^ (unat e - 1)
               = (if e16 = 0 then int m16 else int (2 ^ 10 + m16) * 2 ^ (e16 - 1)) * 2 ^ 125"
    using f16_to_f32_bits_ok [of bits] by blast
  note f = single_fields [OF w(2,3), of bits]
  show ?thesis
  proof (rule exI, intro conjI)
    show "f16_to_f32_bits bits = Ok (push_bit 16 (ucast (bits AND 0x8000)) OR push_bit 23 e OR m)" by (rule w(1))
    show "bit (push_bit 16 (ucast (bits AND 0x8000)) OR push_bit 23 e OR m) 31 = bit bits 15" by (rule f(1))
    show "if unat (drop_bit 10 bits) mod 32 = 31
        then unat (drop_bit 23 (push_bit 16 (ucast (bits AND 0x8000)) OR push_bit 23 e OR m)) mod 256 = 255
          \<and> unat (push_bit 16 (ucast (bits AND 0x8000)) OR push_bit 23 e OR m) mod 2 ^ 23 = unat bits mod 2 ^ 10 * 2 ^ 13
        else f32_units (push_bit 16 (ucast (bits AND 0x8000)) OR push_bit 23 e OR m) = f16_units bits * 2 ^ 125"
      unfolding f32_units_def f16_units_def f Let_def
      by (cases "unat (drop_bit 10 bits) mod 32 = 31"; cases "unat (drop_bit 10 bits) mod 32 = 0 \<and> unat bits mod 2 ^ 10 = 0")
        (use v in \<open>auto simp: Let_def split: if_splits\<close>)
  qed
qed

lemma f16_to_f32_Ok: "\<exists>v. f16_to_f32 ops bits = Ok v"
  using f16_to_f32_exact_bits [of bits] by (auto simp: f16_to_f32_def)

end
