(* ===== verification/Gguf_Decode.thy ===== *)
theory Gguf_Decode
  imports Gguf_Loader
begin

text \<open>
  What the loader of \<open>Gguf_Loader\<close> computes: for each tensor format a closed form of value number \<open>i\<close> of a block,
  and that the loops of the decoders compute it; the packing of scales; parsing of
  model files that were written in the format.
\<close>

section \<open>The layout of the formats\<close>

primrec block_bytes :: "gguf_gtype \<Rightarrow> nat" where
  "block_bytes GF32 = 4" | "block_bytes GF16 = 2" | "block_bytes Q4_0 = 18" | "block_bytes Q4_1 = 20" | "block_bytes Q8_0 = 34"
| "block_bytes Q2_K = 84" | "block_bytes Q3_K = 110" | "block_bytes Q4_K = 144" | "block_bytes Q5_K = 176"
| "block_bytes Q6_K = 210" | "block_bytes Q8_K = 292"

primrec block_values :: "gguf_gtype \<Rightarrow> nat" where
  "block_values GF32 = 1" | "block_values GF16 = 1" | "block_values Q4_0 = 32" | "block_values Q4_1 = 32" | "block_values Q8_0 = 32"
| "block_values Q2_K = 256" | "block_values Q3_K = 256" | "block_values Q4_K = 256" | "block_values Q5_K = 256"
| "block_values Q6_K = 256" | "block_values Q8_K = 256"

primrec the_ok :: "'a outcome \<Rightarrow> 'a" where
  "the_ok (Ok a) = a"

definition half_value :: "('f, 'z) f32_arith_scheme \<Rightarrow> bytes \<Rightarrow> nat \<Rightarrow> 'f" where
  "half_value ops b k = the_ok (half_at ops b k)"

text \<open>Nibble \<open>h\<close> (0 low, 1 high) and two-bit field \<open>j\<close> of a byte.\<close>

definition nibble :: "u8 \<Rightarrow> nat \<Rightarrow> int" where
  "nibble b h = uint (drop_bit (4 * h) b AND 0x0F)"

definition pair_bits :: "u8 \<Rightarrow> nat \<Rightarrow> int" where
  "pair_bits b j = uint (drop_bit (2 * j) b AND 3)"

text \<open>The 6-bit scale of sub-block \<open>k\<close> of Q3_K: low four bits from a nibble of the first eight bytes, two from the last four.\<close>

definition q3_scale :: "bytes \<Rightarrow> nat \<Rightarrow> int" where
  "q3_scale raw k = nibble (raw ! (k mod 8)) (k div 8) + 16 * pair_bits (raw ! (8 + k mod 4)) (k div 4)"

text \<open>Value number \<open>i\<close> of a block.\<close>

primrec gguf_value :: "('f, 'z) f32_arith_scheme \<Rightarrow> gguf_gtype \<Rightarrow> bytes \<Rightarrow> nat \<Rightarrow> 'f" where
  "gguf_value ops GF32 b i = f_of_bits ops (le32 (b ! 0) (b ! 1) (b ! 2) (b ! 3))"
| "gguf_value ops GF16 b i = half_value ops b 0"
| "gguf_value ops Q8_0 b i = f_mul ops (f_of_int ops (sint (b ! (2 + i)))) (half_value ops b 0)"
| "gguf_value ops Q4_0 b i = f_mul ops (f_of_int ops (nibble (b ! (2 + i mod 16)) (i div 16) - 8)) (half_value ops b 0)"
| "gguf_value ops Q4_1 b i =
     f_add ops (f_mul ops (f_of_int ops (nibble (b ! (4 + i mod 16)) (i div 16))) (half_value ops b 0)) (half_value ops b 2)"
| "gguf_value ops Q4_K b i =
     (let s = i div 32; (sc, m) = get_scale_min_k4 s (sub b 4 12)
      in f_sub ops (f_mul ops (f_mul ops (half_value ops b 0) (f_of_int ops (uint sc)))
                      (f_of_int ops (nibble (b ! (16 + 32 * (s div 2) + i mod 32)) (s mod 2))))
           (f_mul ops (half_value ops b 2) (f_of_int ops (uint m))))"
| "gguf_value ops Q5_K b i =
     (let s = i div 32; (sc, m) = get_scale_min_k4 s (sub b 4 12)
      in f_sub ops (f_mul ops (f_mul ops (half_value ops b 0) (f_of_int ops (uint sc)))
                      (f_of_int ops (nibble (b ! (48 + 32 * (s div 2) + i mod 32)) (s mod 2)
                          + (if bit (b ! (16 + i mod 32)) s then 16 else 0))))
           (f_mul ops (half_value ops b 2) (f_of_int ops (uint m))))"
| "gguf_value ops Q6_K b i =
     (let h = i div 128; g = i mod 128 div 32; l = i mod 32
      in f_mul ops (f_mul ops (half_value ops b 208) (f_of_int ops (sint (b ! (192 + 8 * h + 2 * g + l div 16)))))
           (f_of_int ops (nibble (b ! (64 * h + 32 * (g mod 2) + l)) (g div 2) + 16 * pair_bits (b ! (128 + 32 * h + l)) g - 32)))"
| "gguf_value ops Q8_K b i =
     f_mul ops (f_of_bits ops (le32 (b ! 0) (b ! 1) (b ! 2) (b ! 3))) (f_of_int ops (sint (b ! (4 + i))))"
| "gguf_value ops Q2_K b i =
     (let h = i div 128; g = i mod 128 div 32; l = i mod 32; sc = b ! (i div 16)
      in f_sub ops (f_mul ops (f_mul ops (half_value ops b 80) (f_of_int ops (nibble sc 0)))
                      (f_of_int ops (pair_bits (b ! (16 + 32 * h + l)) g)))
           (f_mul ops (half_value ops b 82) (f_of_int ops (nibble sc 1))))"
| "gguf_value ops Q3_K b i =
     (let h = i div 128; g = i mod 128 div 32; l = i mod 32
      in f_mul ops (f_mul ops (half_value ops b 108) (f_of_int ops (q3_scale (sub b 96 12) (i div 16) - 32)))
           (f_of_int ops (pair_bits (b ! (32 + 32 * h + l)) g - (if bit (b ! l) (4 * h + g) then 0 else 4))))"

section \<open>Blocks and loops\<close>

lemma half_at_Ok: "half_at ops b k = Ok (half_value ops b k)"
  using f16_to_f32_Ok [of ops "le16 (b ! k) (b ! (k + 1))"] by (auto simp: half_value_def half_at_def)

lemma omap_list_Ok: "(\<And>x. x \<in> set xs \<Longrightarrow> f x = Ok (g x)) \<Longrightarrow> omap_list f xs = Ok (map g xs)"
  by (induction xs) simp_all

lemma chunk_length: "x \<in> set (as_chunks n xs) \<Longrightarrow> length x = n"
proof -
  assume "x \<in> set (as_chunks n xs)"
  then obtain k where k: "k < length xs div n" "x = sub xs (k * n) n" by (auto simp: as_chunks_def)
  then have "Suc k * n \<le> length xs" by (metis Suc_leI div_times_less_eq_dividend mult_le_mono1 order_trans)
  then show ?thesis using k(2) by (simp add: length_sub)
qed

lemma concat_rows: "concat (map (\<lambda>k. map (h k) [0..<n]) [0..<m]) = map (\<lambda>i. h (i div n) (i mod n)) [0..<m * n]"
proof (induction m)
  case (Suc m)
  have "map (\<lambda>i. h (i div n) (i mod n)) [m * n..<m * n + n] = map (h m) [0..<n]"
    by (rule nth_equalityI) simp_all
  moreover have "[0..<Suc m * n] = [0..<m * n] @ [m * n..<m * n + n]"
    using upt_add_eq_append [of 0 "m * n" n] by (simp add: add.commute)
  ultimately show ?case using Suc by simp
qed simp

lemma decode_blocks_eq:
  assumes "\<And>b. length b = n \<Longrightarrow> f b = Ok (map (v b) [0..<k])"
  shows "decode_blocks n f bytes = Ok (map (\<lambda>i. v (sub bytes (i div k * n) n) (i mod k)) [0..<length bytes div n * k])"
proof -
  have "omap_list f (as_chunks n bytes) = Ok (map (\<lambda>b. map (v b) [0..<k]) (as_chunks n bytes))"
    by (rule omap_list_Ok) (rule assms, erule chunk_length)
  then show ?thesis
    using concat_rows [of "\<lambda>j. v (sub bytes (j * n) n)" k "length bytes div n"]
    by (simp add: decode_blocks_def as_chunks_def o_def)
qed

lemma nth_write_all:
  "\<forall>(p, v) \<in> set ws. v = f p \<Longrightarrow> i < length xs \<Longrightarrow> write_all ws xs ! i = (if i \<in> fst ` set ws then f i else xs ! i)"
  unfolding write_all_def
proof (induction ws arbitrary: xs)
  case (Cons w ws)
  then show ?case by (cases w) (auto simp: nth_list_update)
qed simp

lemma length_write_all [simp]: "length (write_all ws xs) = length xs"
  unfolding write_all_def by (induction ws arbitrary: xs) (auto split: prod.splits)

lemma write_all_eq:
  assumes "\<forall>(p, v) \<in> set ws. v = f p" "\<forall>i<n. i \<in> fst ` set ws" "length xs = n"
  shows "write_all ws xs = map f [0..<n]"
  by (rule nth_equalityI) (use assms nth_write_all [OF assms(1)] in auto)

lemma map_sub: "k + n \<le> length b \<Longrightarrow> map f (sub b k n) = map (\<lambda>i. f (b ! (k + i))) [0..<n]"
  by (rule nth_equalityI) (simp_all add: length_sub nth_sub)

section \<open>Fields of bytes\<close>

lemma nibble_fields [simp]: "uint (x AND 0x0F) = nibble x 0" "uint (drop_bit 4 x) = nibble x 1" for x :: u8
proof -
  have "unat (drop_bit 4 x) < 2 ^ 4" using unat_u8_less [of x] by (simp add: unat_drop_bit div_less_iff_less_mult)
  then have "take_bit 4 (drop_bit 4 x) = drop_bit 4 x" by (rule small_take_bit)
  then have "drop_bit 4 x AND 0x0F = drop_bit 4 x" by (simp add: take_bit_eq_mask mask_numeral)
  then show "uint (drop_bit 4 x) = nibble x 1" by (simp add: nibble_def)
qed (simp add: nibble_def)

lemma nibble_range: "0 \<le> nibble x h" "nibble x h < 16"
proof -
  have "unat (drop_bit (4 * h) x AND 0x0F) < 16" using unat_and_mask [of "drop_bit (4 * h) x" 4] by (simp add: mask_numeral)
  then show "nibble x h < 16" unfolding nibble_def uint_nat by linarith
  show "0 \<le> nibble x h" unfolding nibble_def by (rule unsigned_greater_eq)
qed

lemma pair_bits_range: "0 \<le> pair_bits x j" "pair_bits x j < 4"
proof -
  have "unat (drop_bit (2 * j) x AND 3) < 4" using unat_and_mask [of "drop_bit (2 * j) x" 2] by (simp add: mask_numeral)
  then show "pair_bits x j < 4" unfolding pair_bits_def uint_nat by linarith
  show "0 \<le> pair_bits x j" unfolding pair_bits_def by (rule unsigned_greater_eq)
qed

text \<open>A nibble with two bits above it.\<close>

lemma six_bits:
  fixes a c :: u8
  assumes "uint a < 16" "uint c < 4"
  shows "uint (a OR push_bit 4 c) = uint a + 16 * uint c"
proof -
  have "unat a < 16" using assms(1) unfolding uint_nat by linarith
  then have "unat a < 2 ^ 4" by simp
  then have "take_bit 4 a = a" by (rule small_take_bit)
  then have "\<not> bit a n" if "4 \<le> n" for n using that bit_take_bit_iff [of 4 a n] by simp
  then have "a AND push_bit 4 c = 0" by (intro bit_eqI) (auto simp: bit_and_iff bit_push_bit_iff)
  then have "a OR push_bit 4 c = a + push_bit 4 c" by (rule disjunctive_add_eq_or [symmetric])
  moreover have "push_bit 4 c = 16 * c" by (simp add: push_bit_eq_mult mult.commute)
  ultimately show ?thesis using assms by (simp add: uint_word_ariths)
qed

lemma sint_recentred: "uint (w :: u8) < 64 \<Longrightarrow> sint (w - 32) = uint w - 32"
proof -
  assume a: "uint w < 64"
  have "w - 32 = word_of_int (uint w - 32)" by simp
  then have "sint (w - 32) = signed_take_bit 7 (uint w - 32)" by (simp only: sint_sbintrunc') simp
  also have "\<dots> = uint w - 32" using a by (intro signed_take_bit_int_eq_self) simp_all
  finally show ?thesis .
qed

lemma q6_value:
  "uint (a :: u8) = nibble x h \<Longrightarrow> sint ((a OR push_bit 4 (drop_bit (2 * j) y AND 3)) - 32) = nibble x h + 16 * pair_bits y j - 32"
  using sint_recentred [of "a OR push_bit 4 (drop_bit (2 * j) y AND 3)"] six_bits [of a "drop_bit (2 * j) y AND 3"]
    nibble_range [of x h] pair_bits_range [of y j] by (simp add: pair_bits_def)

lemma single_bit [simp]:
  "x AND 1 = 0 \<longleftrightarrow> \<not> bit x 0" "x AND 2 = 0 \<longleftrightarrow> \<not> bit x 1" "x AND 4 = 0 \<longleftrightarrow> \<not> bit x 2" "x AND 8 = 0 \<longleftrightarrow> \<not> bit x 3"
  "x AND 16 = 0 \<longleftrightarrow> \<not> bit x 4" "x AND 32 = 0 \<longleftrightarrow> \<not> bit x 5" "x AND 64 = 0 \<longleftrightarrow> \<not> bit x 6" "x AND 128 = 0 \<longleftrightarrow> \<not> bit x 7"
  for x :: u8
  using and_exp_eq_0_iff_not_bit [of x 0] and_exp_eq_0_iff_not_bit [of x 1] and_exp_eq_0_iff_not_bit [of x 2]
    and_exp_eq_0_iff_not_bit [of x 3] and_exp_eq_0_iff_not_bit [of x 4] and_exp_eq_0_iff_not_bit [of x 5]
    and_exp_eq_0_iff_not_bit [of x 6] and_exp_eq_0_iff_not_bit [of x 7]
  by simp_all

section \<open>Each decoder computes its layout\<close>

lemma map_rows: "map f [0..<m * n] = concat (map (\<lambda>k. map (\<lambda>l. f (k * n + l)) [0..<n]) [0..<m])"
  unfolding concat_rows by simp

lemma half_index [simp]: "y < 16 \<Longrightarrow> (y + 16) div 16 = Suc 0" "y < 16 \<Longrightarrow> (y + 16) mod 16 = (y :: nat)"
  by simp_all

lemma row_index [simp]: "l < n \<Longrightarrow> (k * n + l) div n = k" "l < n \<Longrightarrow> (k * n + l) mod n = (l :: nat)"
  by simp_all

lemma upt_8: "[0..<8] = [0, 1, 2, 3, 4, 5, 6, 7 :: nat]" and upt_16: "[0..<16] = [0, 1, 2, 3, 4, 5, 6, 7, 8, 9, 10, 11, 12, 13, 14, 15 :: nat]"
  by (simp_all add: upt_rec)

lemma write_halves:
  assumes "\<And>j. j < 16 \<Longrightarrow> w j = [(j, f j), (j + 16, f (j + 16))]" "length xs = 32"
  shows "write_all (concat (map w [0..<16])) xs = map f [0..<32]"
proof (rule write_all_eq [OF _ _ assms(2)])
  have w: "set (concat (map w [0..<16])) = (\<Union>j<16. {(j, f j), (j + 16, f (j + 16))})"
    using assms(1) by (auto simp: atLeast0LessThan simp del: upt_rec_numeral upt_Suc)
  show "\<forall>(p, v) \<in> set (concat (map w [0..<16])). v = f p" unfolding w by auto
  show "\<forall>i<32. i \<in> fst ` set (concat (map w [0..<16]))"
  proof (intro allI impI)
    fix i :: nat
    assume "i < 32"
    then have "i < 16 \<or> (i - 16 < 16 \<and> i = i - 16 + 16)" by linarith
    then show "i \<in> fst ` set (concat (map w [0..<16]))" unfolding w by (force simp: image_UN)
  qed
qed

lemma quarter_index:
  assumes "l < 32" "g < 4"
  shows "(h * 128 + (l + 32 * g)) div 128 = h" "(h * 128 + (l + 32 * g)) mod 128 div 32 = g" "(h * 128 + (l + 32 * g)) mod 32 = (l :: nat)"
proof -
  have x: "l + 32 * g < 128" using assms by simp
  then show "(h * 128 + (l + 32 * g)) div 128 = h" by simp
  have "(h * 128 + (l + 32 * g)) mod 128 = l + 32 * g" using x by simp
  then show "(h * 128 + (l + 32 * g)) mod 128 div 32 = g" using assms by simp
  have "h * 128 + (l + 32 * g) = l + 32 * (4 * h + g)" by simp
  then show "(h * 128 + (l + 32 * g)) mod 32 = l" using assms(1) by (simp only: mod_mult_self2 mod_less)
qed

lemma quarter_split: "i = i div 128 * 128 + (i mod 32 + 32 * (i mod 128 div 32))" for i :: nat
proof -
  have "i mod 128 mod 32 = i mod 32" by (simp add: mod_mod_cancel)
  then have "i mod 128 = i mod 32 + 32 * (i mod 128 div 32)" by (metis add.commute mult_div_mod_eq)
  then show ?thesis by (metis div_mult_mod_eq)
qed

lemma write_quarters:
  assumes "\<And>h l. h < 2 \<Longrightarrow> l < 32 \<Longrightarrow> w h l = [(h * 128 + l, f (h * 128 + l)), (h * 128 + (l + 32), f (h * 128 + (l + 32))),
      (h * 128 + (l + 64), f (h * 128 + (l + 64))), (h * 128 + (l + 96), f (h * 128 + (l + 96)))]" "length xs = 256"
  shows "write_all (concat (map (\<lambda>h. concat (map (w h) [0..<32])) [0..<2])) xs = map f [0..<256]"
proof (rule write_all_eq [OF _ _ assms(2)])
  have w: "set (concat (map (\<lambda>h. concat (map (w h) [0..<32])) [0..<2]))
      = (\<Union>h<2. \<Union>l<32. \<Union>g<4. {(h * 128 + (l + 32 * g), f (h * 128 + (l + 32 * g)))})"
  proof -
    have "set (w h l) = (\<Union>g<4. {(h * 128 + (l + 32 * g), f (h * 128 + (l + 32 * g)))})" if "h < 2" "l < 32" for h l
      using assms(1) [OF that] by (auto simp: lessThan_nat_numeral lessThan_Suc)
    then show ?thesis by (simp add: atLeast0LessThan del: upt_rec_numeral upt_Suc)
  qed
  show "\<forall>(p, v) \<in> set (concat (map (\<lambda>h. concat (map (w h) [0..<32])) [0..<2])). v = f p" unfolding w by auto
  show "\<forall>i<256. i \<in> fst ` set (concat (map (\<lambda>h. concat (map (w h) [0..<32])) [0..<2]))"
  proof (intro allI impI)
    fix i :: nat
    assume "i < 256"
    then have "i div 128 < 2" "i mod 32 < 32" "i mod 128 div 32 < 4" by (simp_all add: div_less_iff_less_mult)
    moreover have "i = i div 128 * 128 + (i mod 32 + 32 * (i mod 128 div 32))" by (rule quarter_split)
    ultimately show "i \<in> fst ` set (concat (map (\<lambda>h. concat (map (w h) [0..<32])) [0..<2]))" unfolding w by (force simp: image_UN)
  qed
qed

lemma q4_0_block:
  assumes "length b = 18"
  shows "write_all (concat (map (q4_0_writes ops (half_value ops b 0) (sub b 2 16)) [0..<16])) (replicate 32 z)
    = map (gguf_value ops Q4_0 b) [0..<32]"
  by (rule write_halves) (use assms in \<open>simp_all add: q4_0_writes_def nth_sub\<close>)

lemma q4_1_block:
  assumes "length b = 20"
  shows "write_all (concat (map (q4_1_writes ops (half_value ops b 0) (half_value ops b 2) (sub b 4 16)) [0..<16])) (replicate 32 z)
    = map (gguf_value ops Q4_1 b) [0..<32]"
  by (rule write_halves) (use assms in \<open>simp_all add: q4_1_writes_def nth_sub\<close>)

lemma q6_k_at:
  assumes "l < 32" "g < 4"
  shows "gguf_value ops Q6_K b (h * 128 + (l + 32 * g)) =
    f_mul ops (f_mul ops (half_value ops b 208) (f_of_int ops (sint (b ! (192 + 8 * h + 2 * g + l div 16)))))
      (f_of_int ops (nibble (b ! (64 * h + 32 * (g mod 2) + l)) (g div 2) + 16 * pair_bits (b ! (128 + 32 * h + l)) g - 32))"
  unfolding gguf_value.simps Let_def quarter_index [OF assms] ..

lemma q6_k_block:
  assumes "length b = 210"
  shows "write_all (concat (map (\<lambda>half. concat (map
           (q6_k_writes ops (half_value ops b 208) (sub b 0 128) (sub b 128 64) (sub b 192 16) half) [0..<32])) [0..<2])) (replicate 256 z)
    = map (gguf_value ops Q6_K b) [0..<256]"
proof (rule write_quarters)
  fix h l :: nat
  assume h: "h < 2" "l < 32"
  have b: "l div 16 < 2" using h(2) by (simp add: div_less_iff_less_mult)
  have q: "sub (sub b 0 128) (h * 64) 64 ! l = b ! (64 * h + l)" "sub (sub b 0 128) (h * 64) 64 ! (l + 32) = b ! (64 * h + 32 + l)"
      "sub (sub b 128 64) (h * 32) 32 ! l = b ! (128 + 32 * h + l)"
      "\<And>k. k \<le> 6 \<Longrightarrow> sub (sub b 192 16) (h * 8) 8 ! (l div 16 + k) = b ! (192 + 8 * h + k + l div 16)"
    using h b assms by (simp_all add: nth_sub length_sub ac_simps)
  have v: "sint (((x AND 0x0F) OR push_bit 4 (drop_bit (2 * j) y AND 3)) - 32) = nibble x 0 + 16 * pair_bits y j - 32"
      "sint ((drop_bit 4 x OR push_bit 4 (drop_bit (2 * j) y AND 3)) - 32) = nibble x 1 + 16 * pair_bits y j - 32" for x y :: u8 and j
    by (rule q6_value, simp)+
  show "q6_k_writes ops (half_value ops b 208) (sub b 0 128) (sub b 128 64) (sub b 192 16) h l =
      [(h * 128 + l, gguf_value ops Q6_K b (h * 128 + l)), (h * 128 + (l + 32), gguf_value ops Q6_K b (h * 128 + (l + 32))),
       (h * 128 + (l + 64), gguf_value ops Q6_K b (h * 128 + (l + 64))), (h * 128 + (l + 96), gguf_value ops Q6_K b (h * 128 + (l + 96)))]"
    using q6_k_at [OF h(2), of 0 ops b h] q6_k_at [OF h(2), of 1 ops b h] q6_k_at [OF h(2), of 2 ops b h] q6_k_at [OF h(2), of 3 ops b h]
      q(4) [of 0] q(4) [of 2] q(4) [of 4] q(4) [of 6] v [of "b ! (64 * h + l)" 0 "b ! (128 + 32 * h + l)"] v [of "b ! (64 * h + 32 + l)" 1 "b ! (128 + 32 * h + l)"]
      v [of "b ! (64 * h + l)" 2 "b ! (128 + 32 * h + l)"] v [of "b ! (64 * h + 32 + l)" 3 "b ! (128 + 32 * h + l)"]
    unfolding q6_k_writes_def Let_def q(1-3) by (simp del: gguf_value.simps)
qed simp

lemma q4_k_block:
  assumes "length b = 144"
  shows "q4_k_chunks ops d dmin (sub b 4 12) (sub b 16 128) [0, 2, 4, 6] 0
    = map (\<lambda>i. let s = i div 32; (sc, m) = get_scale_min_k4 s (sub b 4 12)
      in f_sub ops (f_mul ops (f_mul ops d (f_of_int ops (uint sc)))
                      (f_of_int ops (nibble (b ! (16 + 32 * (s div 2) + i mod 32)) (s mod 2))))
           (f_mul ops dmin (f_of_int ops (uint m)))) [0..<8 * 32]"
proof -
  have m: "map f (sub (sub b 16 128) k 32) = map (\<lambda>i. f (b ! (16 + k + i))) [0..<32]" if "k \<le> 96" for f :: "u8 \<Rightarrow> 'a" and k
    using that assms by (intro nth_equalityI) (simp_all add: length_sub nth_sub ac_simps)
  show ?thesis
    unfolding map_rows [of _ 8 32] upt_8
    by (simp add: m split_def Let_def del: upt_rec_numeral upt_Suc cong: map_cong) (simp flip: numeral_2_eq_2)
qed

lemma q5_k_block:
  assumes "length b = 176"
  shows "q5_k_chunks ops d dmin (sub b 4 12) (sub b 16 32) (sub b 48 128) 4 0 1 2 0
    = map (\<lambda>i. let s = i div 32; (sc, m) = get_scale_min_k4 s (sub b 4 12)
      in f_sub ops (f_mul ops (f_mul ops d (f_of_int ops (uint sc)))
                      (f_of_int ops (nibble (b ! (48 + 32 * (s div 2) + i mod 32)) (s mod 2) + (if bit (b ! (16 + i mod 32)) s then 16 else 0))))
           (f_mul ops dmin (f_of_int ops (uint m)))) [0..<8 * 32]"
proof -
  have n: "sub b 48 128 ! j = b ! (48 + j)" if "j < 128" for j using that assms by (simp add: nth_sub)
  have n': "sub b 16 32 ! l = b ! (16 + l)" if "l < 32" for l using that assms by (simp add: nth_sub)
  have four: "q5_k_chunks ops d dmin scales qh qs 4 = q5_k_chunks ops d dmin scales qh qs (Suc (Suc (Suc (Suc 0))))" for scales qh qs
    by (simp add: numeral_eq_Suc)
  show ?thesis
    unfolding map_rows [of _ 8 32] upt_8 four
    by (simp add: n n' split_def Let_def del: upt_rec_numeral upt_Suc cong: map_cong) (simp flip: numeral_2_eq_2)
qed

text \<open>The sixteen runs of sixteen values of Q2_K and Q3_K.\<close>

lemma run_base: "k < 16 \<Longrightarrow> k div 8 \<le> 1 \<and> k mod 2 \<le> (1 :: nat)"
proof
  assume "k < 16"
  then have "k div 8 < 2" by (simp add: div_less_iff_less_mult)
  then show "k div 8 \<le> 1" by simp
qed simp

lemma run_index:
  "i div 128 = i div 16 div 8" "i mod 128 div 32 = i div 16 mod 8 div 2" "i mod 32 = 16 * (i div 16 mod 2) + i mod (16 :: nat)"
  "4 * (k div 8) + k mod 8 div 2 = k div (2 :: nat)"
proof -
  show "i div 128 = i div 16 div 8" by (simp flip: div_mult2_eq)
  show "i mod 32 = 16 * (i div 16 mod 2) + i mod 16" using mod_mult2_eq [of i 16 2] by simp
  have "i mod 128 = 16 * (i div 16 mod 8) + i mod 16" using mod_mult2_eq [of i 16 8] by simp
  then have "i mod 128 div 32 = (16 * (i div 16 mod 8) + i mod 16) div 16 div 2"
    using div_mult2_eq [of "16 * (i div 16 mod 8) + i mod 16" 16 2] by simp
  then show "i mod 128 div 32 = i div 16 mod 8 div 2" by simp
  show "4 * (k div 8) + k mod 8 div 2 = k div 2" by presburger
qed

lemma q2_k_block:
  assumes "length b = 84"
  shows "q2_k_outer ops d dmin (sub b 0 16) (sub b 16 64) 2 0 0
    = map (\<lambda>i. f_sub ops (f_mul ops (f_mul ops d (f_of_int ops (nibble (b ! (i div 16)) 0)))
                      (f_of_int ops (pair_bits (b ! (16 + (32 * (i div 16 div 8) + 16 * (i div 16 mod 2) + i mod 16))) (i div 16 mod 8 div 2))))
           (f_mul ops dmin (f_of_int ops (nibble (b ! (i div 16)) 1)))) [0..<16 * 16]" (is "_ = map ?v _")
proof -
  have run: "q2_k_run ops d dmin (sub b 16 64) sc base (j * 2) = map (\<lambda>l. f_sub ops (f_mul ops (f_mul ops d (f_of_int ops (nibble sc 0)))
      (f_of_int ops (pair_bits (b ! (16 + (base + l))) j))) (f_mul ops dmin (f_of_int ops (nibble sc 1)))) [0..<16]"
    if "base \<le> 48" for sc base j
    using that assms unfolding q2_k_run_def Let_def
    by (intro map_cong refl) (simp add: nth_sub pair_bits_def mult.commute)
  have s: "sub b 0 16 ! j = b ! j" if "j < 16" for j using that assms by (simp add: nth_sub)
  have two: "q2_k_outer ops d dmin scales qs 2 = q2_k_outer ops d dmin scales qs (Suc (Suc 0))" for scales qs
    by (simp add: numeral_eq_Suc)
  have row: "q2_k_run ops d dmin (sub b 16 64) (b ! k) (32 * (k div 8) + 16 * (k mod 2)) (k mod 8 div 2 * 2) = map (\<lambda>l. ?v (k * 16 + l)) [0..<16]"
    if "k < 16" for k
  proof (rule trans [OF run])
    show "32 * (k div 8) + 16 * (k mod 2) \<le> 48" using run_base [OF that] by simp
  qed (intro map_cong refl, simp only: atLeastLessThan_iff set_upt row_index)
  have "q2_k_outer ops d dmin (sub b 0 16) (sub b 16 64) 2 0 0 = concat (map (\<lambda>k.
      q2_k_run ops d dmin (sub b 16 64) (b ! k) (32 * (k div 8) + 16 * (k mod 2)) (k mod 8 div 2 * 2)) [0..<16])"
    unfolding upt_16 two by (simp add: s) (simp flip: numeral_2_eq_2)
  also have "\<dots> = map ?v [0..<16 * 16]"
    unfolding map_rows [of _ 16 16] by (intro arg_cong [of _ _ concat] map_cong refl row) simp
  finally show ?thesis .
qed

lemma q3_k_scales_eq:
  assumes "length raw = 12" "k < 16"
  shows "uint (q3_k_scales raw ! k) = q3_scale raw k"
proof -
  have s: "uint ((x AND 0x0F) OR push_bit 4 (drop_bit (2 * j) y AND 3)) = nibble x 0 + 16 * pair_bits y j"
      "uint (drop_bit 4 x OR push_bit 4 (drop_bit (2 * j) y AND 3)) = nibble x 1 + 16 * pair_bits y j" for x y :: u8 and j
    using six_bits [of "x AND 0x0F" "drop_bit (2 * j) y AND 3"] six_bits [of "drop_bit 4 x" "drop_bit (2 * j) y AND 3"]
      nibble_range [of x] pair_bits_range [of y j] by (simp_all add: pair_bits_def)
  have u: "[0..<4] = [0, 1, 2, 3 :: nat]" by (simp add: upt_rec)
  have "k \<in> set [0, 1, 2, 3, 4, 5, 6, 7, 8, 9, 10, 11, 12, 13, 14, 15 :: nat]" using assms(2) unfolding upt_16 [symmetric] by simp
  then show ?thesis
    using s [of _ 0, simplified] s [of _ 1, simplified] s [of _ 2, simplified] s [of _ 3, simplified]
    by (auto simp: q3_k_scales_def u Let_def write_all_def q3_scale_def)
qed

lemma q3_k_block:
  assumes "length b = 110"
  shows "q3_k_outer ops d (sub b 0 32) (sub b 32 64) (q3_k_scales (sub b 96 12)) 2 0 0 1
    = map (\<lambda>i. f_mul ops (f_mul ops d (f_of_int ops (q3_scale (sub b 96 12) (i div 16) - 32)))
           (f_of_int ops (pair_bits (b ! (32 + (32 * (i div 16 div 8) + 16 * (i div 16 mod 2) + i mod 16))) (i div 16 mod 8 div 2)
              - (if bit (b ! (16 * (i div 16 mod 2) + i mod 16)) (i div 16 div 2) then 0 else 4)))) [0..<16 * 16]" (is "_ = map ?v _")
proof -
  define sc where "sc = q3_k_scales (sub b 96 12)"
  have run: "q3_k_run ops d (sub b 0 32) (sub b 32 64) s qo hb (j * 2) (push_bit n 1) =
      map (\<lambda>l. f_mul ops (f_mul ops d (f_of_int ops (uint s - 32)))
        (f_of_int ops (pair_bits (b ! (32 + (qo + hb + l))) j - (if bit (b ! (hb + l)) n then 0 else 4)))) [0..<16]"
    if "qo \<le> 32" "hb \<le> 16" for s qo hb j n
    using that assms unfolding q3_k_run_def Let_def
    by (intro map_cong refl) (simp add: nth_sub pair_bits_def push_bit_of_1 and_exp_eq_0_iff_not_bit ac_simps)
  have two: "q3_k_outer ops d hm qs s 2 = q3_k_outer ops d hm qs s (Suc (Suc 0))" for hm qs s
    by (simp add: numeral_eq_Suc)
  have u: "uint (sc ! k) = q3_scale (sub b 96 12) k" if "k < 16" for k
    unfolding sc_def by (rule q3_k_scales_eq [OF _ that]) (simp add: assms length_sub)
  have row: "q3_k_run ops d (sub b 0 32) (sub b 32 64) (sc ! k) (32 * (k div 8)) (16 * (k mod 2)) (k mod 8 div 2 * 2) (push_bit (k div 2) 1)
      = map (\<lambda>l. ?v (k * 16 + l)) [0..<16]" if "k < 16" for k
  proof (rule trans [OF run])
    show "32 * (k div 8) \<le> 32" "16 * (k mod 2) \<le> 16" using run_base [OF that] by simp_all
  qed (intro map_cong refl, simp only: atLeastLessThan_iff set_upt row_index u [OF that])
  have "q3_k_outer ops d (sub b 0 32) (sub b 32 64) sc 2 0 0 1 = concat (map (\<lambda>k.
      q3_k_run ops d (sub b 0 32) (sub b 32 64) (sc ! k) (32 * (k div 8)) (16 * (k mod 2)) (k mod 8 div 2 * 2) (push_bit (k div 2) 1)) [0..<16])"
    unfolding upt_16 two by simp (simp flip: numeral_2_eq_2)
  also have "\<dots> = map ?v [0..<16 * 16]"
    unfolding map_rows [of _ 16 16] by (intro arg_cong [of _ _ concat] map_cong refl row) simp
  finally show ?thesis unfolding sc_def .
qed

lemma decode_tensor_eq:
  "decode_tensor ops bytes g = Ok (map (\<lambda>i. gguf_value ops g (sub bytes (i div block_values g * block_bytes g) (block_bytes g)) (i mod block_values g))
     [0..<length bytes div block_bytes g * block_values g])"
proof (cases g)
  case GF32
  show ?thesis unfolding GF32 decode_tensor.simps decode_f32_le_def block_values.simps block_bytes.simps by (rule decode_blocks_eq) simp
next
  case GF16
  show ?thesis unfolding GF16 decode_tensor.simps decode_f16_le_def block_values.simps block_bytes.simps
    by (rule decode_blocks_eq) (simp add: half_at_Ok)
next
  case Q8_0
  show ?thesis unfolding Q8_0 decode_tensor.simps decode_q8_0_def block_values.simps block_bytes.simps
    by (rule decode_blocks_eq) (simp add: half_at_Ok map_sub del: upt_rec_numeral)
next
  case Q4_0
  show ?thesis unfolding Q4_0 decode_tensor.simps decode_q4_0_def block_values.simps block_bytes.simps
    by (rule decode_blocks_eq) (simp add: half_at_Ok q4_0_block del: upt_rec_numeral gguf_value.simps)
next
  case Q4_1
  show ?thesis unfolding Q4_1 decode_tensor.simps decode_q4_1_def block_values.simps block_bytes.simps
    by (rule decode_blocks_eq) (simp add: half_at_Ok q4_1_block del: upt_rec_numeral gguf_value.simps)
next
  case Q4_K
  show ?thesis unfolding Q4_K decode_tensor.simps decode_q4_k_def block_values.simps block_bytes.simps
    by (rule decode_blocks_eq) (simp add: half_at_Ok q4_k_block del: upt_rec_numeral q4_k_chunks.simps)
next
  case Q5_K
  show ?thesis unfolding Q5_K decode_tensor.simps decode_q5_k_def block_values.simps block_bytes.simps
    by (rule decode_blocks_eq) (simp add: half_at_Ok q5_k_block del: upt_rec_numeral q5_k_chunks.simps)
next
  case Q6_K
  show ?thesis unfolding Q6_K decode_tensor.simps decode_q6_k_def block_values.simps block_bytes.simps
    by (rule decode_blocks_eq) (simp add: half_at_Ok q6_k_block del: upt_rec_numeral gguf_value.simps)
next
  case Q8_K
  show ?thesis unfolding Q8_K decode_tensor.simps decode_q8_k_def block_values.simps block_bytes.simps
    by (rule decode_blocks_eq) (simp add: map_sub del: upt_rec_numeral)
next
  case Q2_K
  show ?thesis unfolding Q2_K decode_tensor.simps decode_q2_k_def block_values.simps block_bytes.simps
    by (rule decode_blocks_eq) (simp add: half_at_Ok q2_k_block run_index(1-3) add.assoc Let_def del: upt_rec_numeral q2_k_outer.simps)
next
  case Q3_K
  show ?thesis unfolding Q3_K decode_tensor.simps decode_q3_k_def block_values.simps block_bytes.simps
    by (rule decode_blocks_eq)
      (simp add: half_at_Ok q3_k_block run_index(1-3) run_index(4) add.assoc Let_def del: upt_rec_numeral q3_k_outer.simps)
qed

section \<open>Packed scales\<close>

text \<open>Sixteen 6-bit numbers in twelve bytes, the layout that \<open>get_scale_min_k4\<close> reads.\<close>

definition pack_k4 :: "bytes \<Rightarrow> bytes \<Rightarrow> bytes" where
  "pack_k4 sc m = map (\<lambda>j. sc ! j OR push_bit 6 (drop_bit 4 (sc ! (j + 4)))) [0..<4]
     @ map (\<lambda>j. m ! j OR push_bit 6 (drop_bit 4 (m ! (j + 4)))) [0..<4]
     @ map (\<lambda>j. (sc ! (j + 4) AND 0x0F) OR push_bit 4 (m ! (j + 4) AND 0x0F)) [0..<4]"

lemma six_bit_word: "(x :: u8) < 64 \<Longrightarrow> bit x n \<Longrightarrow> n < 6"
proof (rule ccontr)
  assume x: "x < 64" "bit x n" "\<not> n < 6"
  have "take_bit 6 x = x" using x(1) by (intro small_take_bit) (simp add: word_less_nat_alt)
  then show False using x bit_take_bit_iff [of 6 x n] by simp
qed

lemma bit_63: "bit (63 :: u8) n \<longleftrightarrow> n < 6" and bit_15: "bit (0x0F :: u8) n \<longleftrightarrow> n < 4"
  using bit_mask_iff [where 'a = "8 word", of 6 n] bit_mask_iff [where 'a = "8 word", of 4 n] by (auto simp: mask_numeral)

lemmas packed_bits = bit_or_iff bit_and_iff bit_push_bit_iff bit_drop_bit_eq bit_63 bit_15

lemma u8_bit_eqI: "(\<And>n. n \<in> {0, 1, 2, 3, 4, 5, 6, 7} \<Longrightarrow> bit x n = bit y n) \<Longrightarrow> x = y" for x y :: u8
proof (rule bit_eqI)
  fix n :: nat
  assume a: "\<And>n. n \<in> {0, 1, 2, 3, 4, 5, 6, 7} \<Longrightarrow> bit x n = bit y n" and n: "possible_bit TYPE(8 word) n"
  have "{..<8 :: nat} = {0, 1, 2, 3, 4, 5, 6, 7}" by (auto simp: lessThan_nat_numeral lessThan_Suc)
  moreover have "n \<in> {..<8}" using n by simp
  ultimately show "bit x n = bit y n" using a by blast
qed

lemma upt_4: "[0..<4] = [0, 1, 2, 3 :: nat]"
  by (simp add: upt_rec)

lemma k4_unpack_pack:
  assumes "length sc = 8" "length m = 8" "\<forall>x \<in> set sc \<union> set m. x < 64" "j < 8"
  shows "get_scale_min_k4 j (pack_k4 sc m) = (sc ! j, m ! j)"
proof -
  have h: "bit (sc ! i) n = False" "bit (m ! i) n = False" if "i < 8" "6 \<le> n" for i n
    using assms that six_bit_word [of "sc ! i" n] six_bit_word [of "m ! i" n] by auto
  have "j = 0 \<or> j = 1 \<or> j = 2 \<or> j = 3 \<or> j = 4 \<or> j = 5 \<or> j = 6 \<or> j = 7" using assms(4) by linarith
  then show ?thesis
    by (elim disjE) (simp_all add: get_scale_min_k4_def pack_k4_def upt_4, (intro conjI u8_bit_eqI; auto simp: packed_bits h)+)
qed

lemma k4_pack_unpack:
  assumes "length q = 12"
  shows "pack_k4 (map (\<lambda>j. fst (get_scale_min_k4 j q)) [0..<8]) (map (\<lambda>j. snd (get_scale_min_k4 j q)) [0..<8]) = q"
proof -
  obtain a b c d e f g h i j k l where q: "q = [a, b, c, d, e, f, g, h, i, j, k, l]"
    using assms by (auto simp: length_Suc_conv numeral_eq_Suc)
  show ?thesis
    unfolding q by (simp add: pack_k4_def upt_4 upt_8 get_scale_min_k4_def) (intro conjI u8_bit_eqI; auto simp: packed_bits)
qed

lemma u8_less_64I: "\<not> bit x 6 \<Longrightarrow> \<not> bit x 7 \<Longrightarrow> x < 64" for x :: u8
proof -
  assume "\<not> bit x 6" "\<not> bit x 7"
  then have "take_bit 6 x = x" by (intro u8_bit_eqI) (auto simp: bit_take_bit_iff)
  then show ?thesis using unat_take_bit [of 6 x] by (simp add: word_less_nat_alt)
qed

lemma k4_range: "fst (get_scale_min_k4 j q) < 64" "snd (get_scale_min_k4 j q) < 64"
proof -
  have b: "\<not> bit w 8" "\<not> bit w 9" "\<not> bit w 10" "\<not> bit w 11" for w :: u8
    using bit_imp_le_length [of w] by force+
  show "fst (get_scale_min_k4 j q) < 64" "snd (get_scale_min_k4 j q) < 64"
    by (rule u8_less_64I; simp add: get_scale_min_k4_def packed_bits b)+
qed

section \<open>Parsing\<close>

primrec gtype_code :: "gguf_gtype \<Rightarrow> u32" where
  "gtype_code GF32 = 0" | "gtype_code GF16 = 1" | "gtype_code Q4_0 = 2" | "gtype_code Q4_1 = 3" | "gtype_code Q8_0 = 8"
| "gtype_code Q2_K = 10" | "gtype_code Q3_K = 11" | "gtype_code Q4_K = 12" | "gtype_code Q5_K = 13" | "gtype_code Q6_K = 14"
| "gtype_code Q8_K = 15"

definition tensor_info_bytes :: "gguf_tensor_info \<Rightarrow> bytes" where
  "tensor_info_bytes t = le_bytes32 (of_nat (length (ti_name t))) @ ti_name t @ le_bytes32 (ucast (ti_dim0 t))
     @ le_bytes32 (ucast (ti_dim1 t)) @ le_bytes32 (gtype_code (ti_gtype t)) @ le_bytes32 (ucast (ti_offset t))"

definition tensor_info_ok :: "gguf_tensor_info \<Rightarrow> bool" where
  "tensor_info_ok t \<longleftrightarrow> valid_utf8 (ti_name t) \<and> length (ti_name t) < 2 ^ 32 \<and> unat (ti_dim0 t) < 2 ^ 32
     \<and> unat (ti_dim1 t) < 2 ^ 32 \<and> unat (ti_offset t) < 2 ^ 32"

lemma from_u32_code: "from_u32 (gtype_code g) = Ok g"
  by (cases g) (simp_all add: from_u32_def)

lemma u32_at_le: "p + 4 \<le> length bytes \<Longrightarrow> sub bytes p 4 = le_bytes32 v \<Longrightarrow> u32_at bytes p = Ok v"
proof -
  assume p: "p + 4 \<le> length bytes" and v: "sub bytes p 4 = le_bytes32 v"
  have "bytes ! (p + i) = le_bytes32 v ! i" if "i < 4" for i using that p nth_sub [of i 4 p bytes] v by simp
  from this [of 0] this [of 1] this [of 2] this [of 3] show ?thesis
    using p by (simp add: u32_at_def le_bytes32_def)
qed

lemma u32_at_eq: "p + 4 \<le> length bytes \<Longrightarrow> u32_at bytes p = Ok (le32 (bytes ! p) (bytes ! (p + 1)) (bytes ! (p + 2)) (bytes ! (p + 3)))"
  by (simp add: u32_at_def)

lemma narrow_widen: "unat (w :: u64) < 2 ^ 32 \<Longrightarrow> ucast (ucast w :: u32) = w"
  by (simp add: word_unat_eq_iff unat_ucast_mod)

lemma parse_tensor_info_ok:
  assumes "tensor_info_ok t"
  shows "parse_tensor_info (tensor_info_bytes t @ rest) = Ok (t, length (tensor_info_bytes t))"
proof -
  let ?b = "tensor_info_bytes t @ rest" and ?n = "length (ti_name t)"
  have n: "unat (of_nat ?n :: u32) = ?n" using assms by (simp add: tensor_info_ok_def unat_of_nat)
  have len: "length (tensor_info_bytes t) = ?n + 20" by (simp add: tensor_info_bytes_def)
  have at: "u32_at ?b 0 = Ok (of_nat ?n)" "u32_at ?b (4 + ?n) = Ok (ucast (ti_dim0 t))" "u32_at ?b (8 + ?n) = Ok (ucast (ti_dim1 t))"
      "u32_at ?b (12 + ?n) = Ok (gtype_code (ti_gtype t))" "u32_at ?b (16 + ?n) = Ok (ucast (ti_offset t))"
    by (rule u32_at_le; simp add: tensor_info_bytes_def sub_all)+
  have name: "sub ?b 4 ?n = ti_name t" by (simp add: tensor_info_bytes_def sub_all)
  show ?thesis
    using assms name unfolding parse_tensor_info_def
    by (simp add: at n len from_u32_code tensor_info_ok_def narrow_widen Let_def)
qed

lemma parse_many_loop_ok:
  "\<forall>t \<in> set ts. tensor_info_ok t \<Longrightarrow> drop off bytes = concat (map tensor_info_bytes ts) @ rest \<Longrightarrow> off \<le> length bytes \<Longrightarrow>
   parse_many_loop bytes (length ts) off infos = Ok (infos @ ts, off + length (concat (map tensor_info_bytes ts)))"
proof (induction ts arbitrary: off infos)
  case (Cons t ts)
  have "parse_tensor_info (drop off bytes) = Ok (t, length (tensor_info_bytes t))"
    using parse_tensor_info_ok [of t "concat (map tensor_info_bytes ts) @ rest"] Cons.prems by simp
  moreover have "drop (off + length (tensor_info_bytes t)) bytes = concat (map tensor_info_bytes ts) @ rest"
  proof -
    have "drop (off + length (tensor_info_bytes t)) bytes = drop (length (tensor_info_bytes t)) (drop off bytes)" by (simp add: add.commute)
    then show ?thesis unfolding Cons.prems(2) by simp
  qed
  moreover have "off + length (tensor_info_bytes t) \<le> length bytes"
    using arg_cong [OF Cons.prems(2), of length] Cons.prems(3) by simp
  ultimately show ?case
    using Cons.IH [of "off + length (tensor_info_bytes t)" "infos @ [t]"] Cons.prems by (simp add: not_less)
qed simp

lemma parse_tensor_info_returns: "returns (parse_tensor_info bytes)"
  by (simp add: parse_tensor_info_def Let_def u32_at_eq returns_obind from_u32_def not_less)

lemma parse_tensor_info_consumed: "parse_tensor_info bytes = Ok (t, n) \<Longrightarrow> n \<le> length bytes \<and> 20 \<le> n"
  by (auto simp: parse_tensor_info_def Let_def obind_eq_Ok split: if_splits)

lemma parse_many_loop_returns: "returns (parse_many_loop bytes n off infos)"
proof (induction n arbitrary: off infos)
  case (Suc n)
  then show ?case using parse_tensor_info_returns [of "drop off bytes"] by (simp add: returns_obind split: prod.splits)
qed simp

lemma parse_many_loop_consumed:
  "parse_many_loop bytes n off infos = Ok (ts, m) \<Longrightarrow> off \<le> length bytes \<Longrightarrow>
   length ts = length infos + n \<and> off + 20 * n \<le> m \<and> m \<le> length bytes"
proof (induction n arbitrary: off infos)
  case (Suc n)
  then obtain info c where p: "parse_tensor_info (drop off bytes) = Ok (info, c)"
      "parse_many_loop bytes n (off + c) (infos @ [info]) = Ok (ts, m)"
    by (auto simp: obind_eq_Ok split: if_splits)
  have "c \<le> length (drop off bytes)" "20 \<le> c" using parse_tensor_info_consumed [OF p(1)] by simp_all
  moreover from this have "off + c \<le> length bytes" using Suc.prems(2) by simp
  ultimately show ?case using Suc.IH [OF p(2)] by simp
qed simp

lemma with_capacity_cases: "with_capacity can_allocate count = Ok () \<or> with_capacity can_allocate count = Panic"
  by (simp add: with_capacity_def)

definition header_bytes :: "u32 \<Rightarrow> u64 \<Rightarrow> u64 \<Rightarrow> bytes" where
  "header_bytes version tensors kvs = le_bytes32 GGUF_MAGIC @ le_bytes32 version @ le_bytes64 tensors @ le_bytes64 kvs"

lemma parse_header_ok:
  "parse_header (header_bytes v n k @ rest) = Ok \<lparr>gl_magic = GGUF_MAGIC, gl_version = v, gl_tensor_count = n, gl_kv_count = k,
     gl_architecture = ''llama'', gl_context_length = 4096, gl_embedding_length = 2048\<rparr>"
proof -
  have at: "u32_at (header_bytes v n k @ rest) 0 = Ok GGUF_MAGIC" "u32_at (header_bytes v n k @ rest) 4 = Ok v"
    by (rule u32_at_le; simp add: header_bytes_def sub_all)+
  have "sub (header_bytes v n k @ rest) 8 8 = le_bytes64 n" "sub (header_bytes v n k @ rest) 16 8 = le_bytes64 k"
    "length (header_bytes v n k) = 24"
    by (simp_all add: header_bytes_def sub_all)
  then show ?thesis by (simp add: parse_header_def at)
qed

section \<open>Properties\<close>

text \<open>
  C30: Every tensor format is decoded to its layout. For each of the eleven formats and any byte string,
  \<^verbatim>\<open>decode_tensor\<close> returns the values of all complete blocks in order, and value \<open>i\<close> of a block is
  the closed form \<open>gguf_value\<close>: which nibble, bit pair or high bit it is made of, which sub-block
  scale and minimum apply. The running offsets, scale indices and shifting masks of the loops are gone from it.
\<close>

theorem decode_tensor_correct:
  "decode_tensor ops bytes g = Ok (map (\<lambda>i. gguf_value ops g (sub bytes (i div block_values g * block_bytes g) (block_bytes g)) (i mod block_values g))
     [0..<length bytes div block_bytes g * block_values g])"
  by (rule decode_tensor_eq)

text \<open>
  The half-precision conversion is exact and always ends: for every one of the 65536 bit patterns
  the result has the same sign; a finite number keeps its value (subnormal numbers included), infinity
  and the NaNs keep exponent and fraction.
\<close>

theorem f16_to_f32_exact:
  "\<exists>w. f16_to_f32_bits bits = Ok w \<and> bit w 31 = bit bits 15
     \<and> (if unat (drop_bit 10 bits) mod 32 = 31
        then unat (drop_bit 23 w) mod 256 = 255 \<and> unat w mod 2 ^ 23 = unat bits mod 2 ^ 10 * 2 ^ 13
        else f32_units w = f16_units bits * 2 ^ 125)"
  by (rule f16_to_f32_exact_bits)

text \<open>
  The packed scales of Q4_K and Q5_K: unpacking yields 6-bit numbers, recovers any eight scales
  and eight minima packed into twelve bytes, and no bit of the twelve bytes is lost.
\<close>

theorem k4_scales_bounds:
  assumes "length sc = 8" "length m = 8" "\<forall>x \<in> set sc \<union> set m. x < 64" "j < 8" "length q = 12"
  shows "get_scale_min_k4 j (pack_k4 sc m) = (sc ! j, m ! j)
    \<and> fst (get_scale_min_k4 j q) < 64 \<and> snd (get_scale_min_k4 j q) < 64
    \<and> pack_k4 (map (\<lambda>j. fst (get_scale_min_k4 j q)) [0..<8]) (map (\<lambda>j. snd (get_scale_min_k4 j q)) [0..<8]) = q"
  using k4_unpack_pack [OF assms(1-4)] k4_range [of j q] k4_pack_unpack [OF assms(5)] by blast

theorem k4_scales_bounds_witness:
  "get_scale_min_k4 5 (pack_k4 [7, 14, 21, 28, 35, 42, 49, 56] [56, 49, 42, 35, 28, 21, 14, 7]) = (42, 21)
   \<and> snd (get_scale_min_k4 5 (replicate 12 0xFF)) < 64"
  using k4_scales_bounds [of "[7, 14, 21, 28, 35, 42, 49, 56]" "[56, 49, 42, 35, 28, 21, 14, 7]" 5 "replicate 12 0xFF"] by simp

text \<open>
  C32: A model file is read back: after the 24 bytes of a header with the magic number, any list of tensor
  entries (names in UTF-8, 32-bit fields) whose table can be allocated is parsed to the same list, and the returned length is where the
  entries end, whatever follows.
\<close>

theorem gguf_roundtrip:
  fixes v :: u32 and k :: u64 and rest :: bytes
  assumes "\<forall>t \<in> set ts. tensor_info_ok t" "length ts * 56 < 2 ^ 63" "ts = [] \<or> can_allocate (length ts * 56)"
  defines "file \<equiv> header_bytes v (of_nat (length ts)) k @ concat (map tensor_info_bytes ts) @ rest"
  shows "parse_header file = Ok \<lparr>gl_magic = GGUF_MAGIC, gl_version = v, gl_tensor_count = of_nat (length ts), gl_kv_count = k,
       gl_architecture = ''llama'', gl_context_length = 4096, gl_embedding_length = 2048\<rparr>
    \<and> parse_many can_allocate (drop 24 file) (length ts) = Ok (ts, length (concat (map tensor_info_bytes ts)))"
proof -
  have "drop 24 file = concat (map tensor_info_bytes ts) @ rest" by (simp add: file_def header_bytes_def)
  then show ?thesis
    using parse_header_ok parse_many_loop_ok [OF assms(1), of 0 "drop 24 file" rest "[]"] assms(2,3)
    by (simp add: file_def parse_many_def with_capacity_def)
qed

text \<open>
  C31: What untrusted input can do to the parsers. The parsers of the header and of one entry neither panic nor loop on any
  input, and an accepted entry lies within the buffer. The parser of the entry list never loops, panics exactly if there are
  entries and their table cannot be allocated, and otherwise reports an error or returns as
  many entries as asked for, which lie within the buffer. As the table is allocated before any entry is looked at, every count from 18725
  on panics, whatever the buffer holds, if no allocation can exceed the kernel heap.
\<close>

theorem gguf_parsers_safe:
  "returns (parse_header bytes) \<and> returns (parse_tensor_info bytes)
   \<and> (parse_tensor_info bytes = Ok (t, n) \<longrightarrow> 20 \<le> n \<and> n \<le> length bytes)
   \<and> parse_many can_allocate bytes count \<noteq> Diverge
   \<and> (parse_many can_allocate bytes count = Panic \<longleftrightarrow> count \<noteq> 0 \<and> (2 ^ 63 \<le> count * 56 \<or> \<not> can_allocate (count * 56)))
   \<and> (parse_many can_allocate bytes count = Ok (ts, m) \<longrightarrow> length ts = count \<and> 20 * count \<le> m \<and> m \<le> length bytes)
   \<and> ((\<forall>k. can_allocate k \<longrightarrow> k \<le> unat HEAP_SIZE) \<and> 18725 \<le> count \<longrightarrow> parse_many can_allocate bytes count = Panic)"
proof (intro conjI)
  show "returns (parse_header bytes)" by (simp add: parse_header_def u32_at_eq returns_obind not_less)
  show "returns (parse_tensor_info bytes)" by (rule parse_tensor_info_returns)
  show "parse_tensor_info bytes = Ok (t, n) \<longrightarrow> 20 \<le> n \<and> n \<le> length bytes" using parse_tensor_info_consumed by blast
  have r: "returns (parse_many_loop bytes count 0 [])" by (rule parse_many_loop_returns)
  show "parse_many can_allocate bytes count \<noteq> Diverge"
    using r with_capacity_cases [of can_allocate count] by (cases "parse_many_loop bytes count 0 []") (auto simp: parse_many_def)
  show panic: "parse_many can_allocate bytes count = Panic \<longleftrightarrow> count \<noteq> 0 \<and> (2 ^ 63 \<le> count * 56 \<or> \<not> can_allocate (count * 56))"
    using r by (cases "parse_many_loop bytes count 0 []") (auto simp: parse_many_def with_capacity_def not_le)
  show "parse_many can_allocate bytes count = Ok (ts, m) \<longrightarrow> length ts = count \<and> 20 * count \<le> m \<and> m \<le> length bytes"
    using parse_many_loop_consumed [of bytes count 0 "[]" ts m] by (auto simp: parse_many_def obind_eq_Ok)
  show "(\<forall>k. can_allocate k \<longrightarrow> k \<le> unat HEAP_SIZE) \<and> 18725 \<le> count \<longrightarrow> parse_many can_allocate bytes count = Panic"
    unfolding panic by (auto simp: HEAP_SIZE_def)
qed

theorem gguf_parsers_safe_witness:
  "is_err (parse_many (\<lambda>k. k \<le> 0x100000) [1, 2, 3] 18724) \<and> parse_many (\<lambda>k. k \<le> 0x100000) [] 18725 = Panic"
proof -
  have "\<forall>k. k \<le> 0x100000 \<longrightarrow> k \<le> unat HEAP_SIZE" by (simp add: HEAP_SIZE_def)
  then have "parse_many (\<lambda>k. k \<le> 0x100000) [] 18725 = Panic"
    using gguf_parsers_safe [of "[]" undefined 0 "\<lambda>k. k \<le> 0x100000" 18725] by simp
  moreover have "is_err (parse_many (\<lambda>k. k \<le> 0x100000) [1, 2, 3] 18724)"
    using gguf_parsers_safe [of "[1, 2, 3]" undefined 0 "\<lambda>k. k \<le> 0x100000" 18724]
    by (cases "parse_many (\<lambda>k. k \<le> 0x100000) [1, 2, 3] 18724") force+
  ultimately show ?thesis by blast
qed

definition demo_info :: gguf_tensor_info where
  "demo_info = \<lparr>ti_name = [0x77, 0xC3, 0xA9], ti_dim0 = 2, ti_dim1 = 3, ti_gtype = Q6_K, ti_offset = 64\<rparr>"

theorem gguf_roundtrip_witness:
  "parse_many (\<lambda>k. k \<le> 0x100000) (concat (map tensor_info_bytes [demo_info, demo_info]) @ [9, 9]) 2 = Ok ([demo_info, demo_info], 46)"
proof -
  have "tensor_info_ok demo_info" by (simp add: tensor_info_ok_def demo_info_def utf8_tail_def)
  then have "\<forall>t \<in> set [demo_info, demo_info]. tensor_info_ok t" by simp
  note r = gguf_roundtrip [OF this, where can_allocate = "\<lambda>k. k \<le> 0x100000" and v = 3 and k = 0 and rest = "[9, 9]"]
  have "drop 24 (header_bytes v n k @ xs) = xs" for v n k xs by (simp add: header_bytes_def)
  moreover have "length (concat (map tensor_info_bytes [demo_info, demo_info])) = 46" by (simp add: tensor_info_bytes_def demo_info_def)
  moreover have "length [demo_info, demo_info] = 2" "length [demo_info, demo_info] * 56 < 2 ^ 63" "[demo_info, demo_info] = [] \<or> length [demo_info, demo_info] * 56 \<le> 0x100000" by simp_all
  ultimately show ?thesis using r by (simp only: simp_thms)
qed

text \<open>
  The layer pass is total: for slices of a real address space it reports an error exactly when the
  dimensions do not fit the slices as unbounded products, and otherwise computes the rows with zero bias.
\<close>

theorem layer_pass_total:
  assumes "length weights < 2 ^ 63"
  shows "if unat out_dim * unat in_dim \<le> length weights \<and> unat out_dim \<le> length outputs
     then \<exists>outs. execute_gguf_layer_pass ops weights inputs outputs in_dim out_dim = Ok outs \<and> length outs = length outputs
       \<and> (\<forall>r<length outputs. outs ! r = (if r < unat out_dim
            then relu ops (f_add ops (dot_product ops (take (unat in_dim) (drop (r * unat in_dim) weights)) inputs) (f_zero ops))
            else outputs ! r))
     else is_err (execute_gguf_layer_pass ops weights inputs outputs in_dim out_dim)"
proof (cases "unat out_dim * unat in_dim \<le> length weights \<and> unat out_dim \<le> length outputs")
  case True
  then have "execute_gguf_layer_pass ops weights inputs outputs in_dim out_dim
      = matmul_layer ops weights inputs (replicate 16 (f_zero ops)) outputs in_dim out_dim"
    by (simp add: execute_gguf_layer_pass_def Let_def)
  moreover have "length weights < 2 ^ 64" using assms by simp
  moreover have "(if r < length (replicate 16 (f_zero ops)) then replicate 16 (f_zero ops) ! r else f_zero ops) = f_zero ops" for r
    by simp
  ultimately show ?thesis
    using matmul_layer_eq [of out_dim in_dim weights outputs ops inputs "replicate 16 (f_zero ops)"] True
    by (simp only: if_True simp_thms)
next
  case False
  then show ?thesis using assms by (auto simp: execute_gguf_layer_pass_def Let_def)
qed

theorem layer_pass_total_witness:
  "is_err (execute_gguf_layer_pass int_ops [1, 2, 3] [1] [0, 0] 0x100000000 0x100000000)"
  using layer_pass_total [of "[1, 2, 3]" "0x100000000" "0x100000000" "[0, 0]" int_ops "[1]"] by simp

end
