(* ===== verification/E1000_Frames.thy ===== *)
theory E1000_Frames
  imports Tcp Udp Dns
begin

text \<open>
  The frames of the e1000 driver (\<^verbatim>\<open>net/e1000.rs\<close>): the requests it builds and the conditions under
  which a received frame counts as the answer. A received frame may be padded at the end, as Ethernet
  requires for short frames; its real length is in the IPv4 header.
\<close>

section \<open>Definitions: requests\<close>

definition SRC_IP :: bytes where "SRC_IP = [10, 0, 2, 15]"

definition arp_request :: "bytes \<Rightarrow> bytes \<Rightarrow> bytes" where
  "arp_request src_mac target_ip =
     replicate 6 0xFF @ src_mac @ [0x08, 0x06] @ [0x00, 0x01] @ [0x08, 0x00] @ [6] @ [4] @ [0x00, 0x01]
       @ src_mac @ [10, 0, 2, 15] @ replicate 6 0x00 @ target_ip"

definition PING_IDENTIFIER :: u16 where "PING_IDENTIFIER = 0xABCD"
definition PING_SEQUENCE :: u16 where "PING_SEQUENCE = 1"

definition ping_payload :: bytes where
  "ping_payload = map (\<lambda>c. of_nat (of_char c)) ''AgentOS real ping''"

definition ping_frame :: "bytes \<Rightarrow> bytes \<Rightarrow> bytes \<Rightarrow> bytes" where
  "ping_frame dest_mac src_mac target_ip =
     (let icmp_message = build_icmp_echo False PING_IDENTIFIER PING_SEQUENCE ping_payload;
          ipv4_header = build_ipv4_header 1 64 IP_PROTOCOL_ICMP SRC_IP target_ip (length icmp_message);
          eth_header = build_ethernet_header dest_mac src_mac ETHERTYPE_IPV4
      in eth_header @ ipv4_header @ icmp_message)"

definition build_tcp_frame :: "bytes \<Rightarrow> bytes \<Rightarrow> bytes \<Rightarrow> bytes \<Rightarrow> bytes \<Rightarrow> bytes \<Rightarrow> bytes" where
  "build_tcp_frame dest_mac src_mac src_ip dest_ip tcp_header payload =
     (let ipv4_header = build_ipv4_header 1 64 IP_PROTOCOL_TCP src_ip dest_ip (length tcp_header + length payload);
          eth_header = build_ethernet_header dest_mac src_mac ETHERTYPE_IPV4
      in eth_header @ ipv4_header @ tcp_header @ payload)"

definition dns_frame :: "bytes \<Rightarrow> bytes \<Rightarrow> bytes \<Rightarrow> bytes \<Rightarrow> bytes" where
  "dns_frame dest_mac src_mac target_ip query =
     (let udp_header = build_udp_header SRC_IP target_ip 45678 53 query;
          ipv4_header = build_ipv4_header 1 64 IP_PROTOCOL_UDP SRC_IP target_ip (length udp_header + length query);
          eth_header = build_ethernet_header dest_mac src_mac ETHERTYPE_IPV4
      in eth_header @ ipv4_header @ udp_header @ query)"

section \<open>Definitions: recognising answers\<close>

text \<open>\<^verbatim>\<open>Result::ok\<close>.\<close>

primrec result_ok :: "'a outcome \<Rightarrow> 'a option outcome" where
  "result_ok (Ok a) = Ok (Some a)"
| "result_ok (Err e) = Ok None"
| "result_ok Panic = Panic"
| "result_ok Diverge = Diverge"

text \<open>The checks of \<^verbatim>\<open>receive_test_frame\<close> and of \<^verbatim>\<open>arp_resolve\<close>.\<close>

definition is_arp_reply :: "bytes \<Rightarrow> bool" where
  "is_arp_reply data \<longleftrightarrow> 28 \<le> length data \<and> data ! 12 = 0x08 \<and> data ! 13 = 0x06
     \<and> data ! 20 = 0x00 \<and> data ! 21 = 0x02 \<and> sub data 22 6 = sub data 6 6"

definition is_matching_reply :: "bytes \<Rightarrow> bytes \<Rightarrow> bool" where
  "is_matching_reply data target_ip \<longleftrightarrow> 32 \<le> length data \<and> data ! 12 = 0x08 \<and> data ! 13 = 0x06
     \<and> data ! 20 = 0x00 \<and> data ! 21 = 0x02 \<and> sub data 22 6 = sub data 6 6 \<and> sub data 28 4 = target_ip"

text \<open>
  The common part of the checks on IPv4 answers: the frame is longer than \<open>start\<close> bytes, carries the
  given protocol, has a valid header checksum and comes from the target.
\<close>

definition is_our_reply :: "bytes \<Rightarrow> nat \<Rightarrow> u8 \<Rightarrow> bytes \<Rightarrow> bool" where
  "is_our_reply data start protocol target_ip \<longleftrightarrow> start < length data \<and> data ! 12 = 0x08 \<and> data ! 13 = 0x00
     \<and> data ! (ETHERNET_HEADER_LEN + 9) = protocol
     \<and> checksum_is_valid (sub data ETHERNET_HEADER_LEN IPV4_HEADER_LEN)
     \<and> sub data (ETHERNET_HEADER_LEN + 12) 4 = target_ip"

definition ip_payload_end :: "bytes \<Rightarrow> nat" where
  "ip_payload_end data =
     (let ip_total_len = unat (be16 (data ! (ETHERNET_HEADER_LEN + 2)) (data ! (ETHERNET_HEADER_LEN + 3)));
          real_len = ip_total_len - IPV4_HEADER_LEN
      in min (ETHERNET_HEADER_LEN + IPV4_HEADER_LEN + real_len) (length data))"

definition ping_reply_matches :: "bytes \<Rightarrow> bytes \<Rightarrow> bool outcome" where
  "ping_reply_matches data target_ip =
     (let icmp_start = ETHERNET_HEADER_LEN + IPV4_HEADER_LEN
      in if is_our_reply data icmp_start IP_PROTOCOL_ICMP target_ip
         then obind (slice data icmp_start (length data)) (\<lambda>message.
              obind (result_ok (parse_icmp_echo message)) (\<lambda>r.
                Ok (case r of None \<Rightarrow> False
                    | Some info \<Rightarrow> echo_is_reply info \<and> echo_identifier info = PING_IDENTIFIER
                        \<and> echo_sequence info = PING_SEQUENCE)))
         else Ok False)"

definition parse_reply_frame :: "bytes \<Rightarrow> bytes \<Rightarrow> bytes \<Rightarrow> (tcp_segment_info \<times> bytes) option outcome" where
  "parse_reply_frame data target_ip src_ip =
     (let tcp_start = ETHERNET_HEADER_LEN + IPV4_HEADER_LEN
      in if \<not> is_our_reply data tcp_start IP_PROTOCOL_TCP target_ip then Ok None
         else let tcp_end = ip_payload_end data
         in obind (slice data tcp_start tcp_end) (\<lambda>segment.
            obind (result_ok (parse_tcp_segment target_ip src_ip segment)) (\<lambda>r.
              case r of None \<Rightarrow> Ok None
              | Some info \<Rightarrow>
                  let payload_start = tcp_start + tcp_header_len info
                  in if payload_start \<le> tcp_end
                     then obind (slice data payload_start tcp_end) (\<lambda>payload. Ok (Some (info, payload)))
                     else Ok (Some (info, [])))))"

definition is_matching_rst :: "tcp_segment_info \<Rightarrow> u16 \<Rightarrow> u16 \<Rightarrow> bool" where
  "is_matching_rst info expected_source_port expected_dest_port \<longleftrightarrow>
     tcp_flags info AND TCP_FLAG_RST \<noteq> 0 \<and> tcp_source_port info = expected_source_port
     \<and> tcp_dest_port info = expected_dest_port"

definition is_syn_ack :: "tcp_segment_info \<Rightarrow> u16 \<Rightarrow> u16 \<Rightarrow> u32 \<Rightarrow> bool" where
  "is_syn_ack info target_port src_port initial_seq \<longleftrightarrow>
     tcp_flags info = TCP_FLAG_SYN OR TCP_FLAG_ACK \<and> tcp_source_port info = target_port
     \<and> tcp_dest_port info = src_port \<and> tcp_ack_num info = initial_seq + 1"

text \<open>The answer to a DNS query: QR bit, number of answers and the first A record.\<close>

definition DNS_TRANSACTION_ID :: u16 where "DNS_TRANSACTION_ID = 0x1234"

definition dns_reply :: "bytes \<Rightarrow> bytes \<Rightarrow> bytes \<Rightarrow> (bool \<times> u16 \<times> bytes option) option outcome" where
  "dns_reply data target_ip query =
     (let udp_start = ETHERNET_HEADER_LEN + IPV4_HEADER_LEN; dns_start = udp_start + UDP_HEADER_LEN
      in if \<not> is_our_reply data dns_start IP_PROTOCOL_UDP target_ip then Ok None
         else let udp_end = ip_payload_end data
         in obind (slice data udp_start udp_end) (\<lambda>datagram.
            obind (result_ok (parse_udp_datagram target_ip SRC_IP datagram)) (\<lambda>r.
              case r of None \<Rightarrow> Ok None
              | Some info \<Rightarrow>
                  if udp_dest_port info = 45678 \<and> udp_source_port info = 53 \<and> dns_start + 8 \<le> udp_end
                    \<and> sub data dns_start 2 = be_bytes16 DNS_TRANSACTION_ID
                  then let qr_bit_set = data ! (dns_start + 2) AND 0x80 \<noteq> 0;
                           answer_count = be16 (data ! (dns_start + 6)) (data ! (dns_start + 7))
                       in if answer_count = 0 then Ok (Some (qr_bit_set, answer_count, None))
                          else obind (slice data dns_start udp_end) (\<lambda>message.
                               obind (result_ok (parse_first_a_record message (length query - DNS_HEADER_LEN)))
                                 (\<lambda>record. Ok (Some (qr_bit_set, answer_count, record))))
                  else Ok None)))"

section \<open>Frames on the wire\<close>

text \<open>An Ethernet frame with an IPv4 packet, as any host on the network would build it.\<close>

definition ip_frame :: "bytes \<Rightarrow> bytes \<Rightarrow> u8 \<Rightarrow> bytes \<Rightarrow> bytes \<Rightarrow> bytes \<Rightarrow> bytes" where
  "ip_frame dest_mac src_mac protocol src dst body =
     build_ethernet_header dest_mac src_mac 0x0800 @ build_ipv4_header 1 64 protocol src dst (length body) @ body"

lemma build_ipv4_header_bytes:
  assumes "length src = 4" and "length dst = 4"
  shows "\<exists>c0 c1. build_ipv4_header i t p src dst n =
     [0x45, 0] @ be_bytes16 (of_nat (20 + n)) @ be_bytes16 i @ [0, 0, t, p, c0, c1] @ src @ dst"
  unfolding build_ipv4_header_eq ipv4_blank_def overwrite_def
  by (simp add: be_bytes16_def)

lemma ip_frame_fields:
  assumes "length dm = 6" and "length sm = 6" and "length src = 4" and "length dst = 4"
  shows "length (ip_frame dm sm p src dst body) = 34 + length body"
    and "(ip_frame dm sm p src dst body @ pad) ! 12 = 8" and "(ip_frame dm sm p src dst body @ pad) ! 13 = 0"
    and "(ip_frame dm sm p src dst body @ pad) ! 23 = p"
    and "be16 ((ip_frame dm sm p src dst body @ pad) ! 16) ((ip_frame dm sm p src dst body @ pad) ! 17) = of_nat (20 + length body)"
    and "checksum_is_valid (sub (ip_frame dm sm p src dst body @ pad) 14 20)"
    and "sub (ip_frame dm sm p src dst body @ pad) 26 4 = src"
    and "sub (ip_frame dm sm p src dst body @ pad) 34 (length body) = body"
proof -
  obtain c0 c1 where h: "build_ipv4_header 1 64 p src dst (length body) =
     [0x45, 0] @ be_bytes16 (of_nat (20 + length body)) @ be_bytes16 1 @ [0, 0, 64, p, c0, c1] @ src @ dst"
    using build_ipv4_header_bytes [OF assms(3,4)] by metis
  note eq = ip_frame_def build_ethernet_header_eq [OF assms(1,2)] h
  show "length (ip_frame dm sm p src dst body) = 34 + length body"
    "(ip_frame dm sm p src dst body @ pad) ! 12 = 8" "(ip_frame dm sm p src dst body @ pad) ! 13 = 0"
    "(ip_frame dm sm p src dst body @ pad) ! 23 = p"
    "be16 ((ip_frame dm sm p src dst body @ pad) ! 16) ((ip_frame dm sm p src dst body @ pad) ! 17) = of_nat (20 + length body)"
    "sub (ip_frame dm sm p src dst body @ pad) 26 4 = src"
    "sub (ip_frame dm sm p src dst body @ pad) 34 (length body) = body"
    unfolding eq using assms by (simp_all add: nth_append be_bytes16_def sub_def)
  have "sub (ip_frame dm sm p src dst body @ pad) 14 20 = build_ipv4_header 1 64 p src dst (length body)"
    unfolding eq using assms by (simp add: be_bytes16_def sub_def)
  then show "checksum_is_valid (sub (ip_frame dm sm p src dst body @ pad) 14 20)"
    using build_ipv4_header_checksum [OF assms(3,4)] by (simp add: checksum_is_valid_def)
qed

lemma ip_frame_is_our_reply:
  assumes "length dm = 6" "length sm = 6" "length src = 4" "length dst = 4" and "start < 34 + length body"
  shows "is_our_reply (ip_frame dm sm p src dst body @ pad) start p src"
  using ip_frame_fields [OF assms(1-4)] assms(5) by (simp add: is_our_reply_def)

lemma ip_frame_payload_end:
  assumes "length dm = 6" "length sm = 6" "length src = 4" "length dst = 4" and "length body \<le> 65515"
  shows "ip_payload_end (ip_frame dm sm p src dst body @ pad) = 34 + length body"
proof -
  have "unat (of_nat (20 + length body) :: u16) = 20 + length body"
    using assms(5) by (subst unat_of_nat) simp
  then show ?thesis
    using ip_frame_fields [OF assms(1-4), of p body] by (simp add: ip_payload_end_def Let_def)
qed

lemma build_tcp_frame_eq:
  "build_tcp_frame dm sm src dst h p = ip_frame dm sm 6 src dst (h @ p)"
  by (simp add: build_tcp_frame_def ip_frame_def Let_def)

lemma ping_frame_eq:
  "ping_frame dm sm ip = ip_frame dm sm 1 SRC_IP ip (build_icmp_echo False PING_IDENTIFIER PING_SEQUENCE ping_payload)"
  by (simp add: ping_frame_def ip_frame_def Let_def)

lemma dns_frame_eq:
  "dns_frame dm sm ip q = ip_frame dm sm 17 SRC_IP ip (build_udp_header SRC_IP ip 45678 53 q @ q)"
  by (simp add: dns_frame_def ip_frame_def Let_def)

lemma length_SRC_IP [simp]: "length SRC_IP = 4"
  by (simp add: SRC_IP_def)

lemma length_arp_request [simp]: "length m = 6 \<Longrightarrow> length ip = 4 \<Longrightarrow> length (arp_request m ip) = 42"
  by (simp add: arp_request_def)

lemma sub_sub: "a + n \<le> m \<Longrightarrow> sub (sub xs b m) a n = sub xs (b + a) n"
  by (simp add: sub_def drop_take min_def add.commute)

section \<open>TCP answers\<close>

lemma parse_reply_frame_built:
  assumes "length dm = 6" "length sm = 6" "length src = 4" "length dst = 4" "length p \<le> 65495"
  shows "parse_reply_frame (build_tcp_frame dm sm src dst (build_tcp_header src dst sp dp seq ack fl win p) p @ pad) src dst
    = Ok (Some (\<lparr>tcp_source_port = sp, tcp_dest_port = dp, tcp_seq_num = seq, tcp_ack_num = ack,
        tcp_flags = fl, tcp_window = win, tcp_header_len = 20\<rparr>, p))"
proof -
  let ?h = "build_tcp_header src dst sp dp seq ack fl win p"
  let ?f = "ip_frame dm sm 6 src dst (?h @ p) @ pad"
  have fend: "ip_payload_end ?f = 34 + length (?h @ p)" using ip_frame_payload_end [OF assms(1-4), of "?h @ p" 6 pad] assms(5) by simp
  have len: "length ?f = 34 + length (?h @ p) + length pad" using ip_frame_fields(1) [OF assms(1-4)] by simp
  have seg: "sub ?f 34 (20 + length p) = ?h @ p" using ip_frame_fields(8) [OF assms(1-4), of 6 "?h @ p" pad] by simp
  have "sub ?f 54 (length p) = sub (sub ?f 34 (20 + length p)) 20 (length p)"
    using sub_sub [of 20 "length p" "20 + length p" ?f 34] by simp
  then have pay: "sub ?f 54 (length p) = p" by (simp add: seg sub_all)
  have ours: "is_our_reply ?f 34 6 src" by (rule ip_frame_is_our_reply [OF assms(1-4)]) simp
  have "length p \<le> 131040" using assms(5) by simp
  then show ?thesis
    unfolding build_tcp_frame_eq parse_reply_frame_def
    using parse_built_tcp [OF assms(3,4), of p] fend len ours by (simp add: seg pay)
qed

lemma result_ok_returns: "returns m \<Longrightarrow> \<exists>r. result_ok m = Ok r"
  by (cases m) auto

lemma payload_end_bounds: "34 < length data \<Longrightarrow> 34 \<le> ip_payload_end data \<and> ip_payload_end data \<le> length data"
  by (simp add: ip_payload_end_def Let_def)

lemma parse_reply_frame_total: "\<exists>r. parse_reply_frame data target_ip src_ip = Ok r"
proof (cases "is_our_reply data 34 6 target_ip")
  case True
  then have b: "34 \<le> ip_payload_end data" "ip_payload_end data \<le> length data"
    using payload_end_bounds [of data] by (auto simp: is_our_reply_def)
  let ?seg = "sub data 34 (ip_payload_end data - 34)"
  obtain r where r: "result_ok (parse_tcp_segment target_ip src_ip ?seg) = Ok r"
    using result_ok_returns [OF parse_tcp_segment_returns] by blast
  then show ?thesis using True b by (cases r) (auto simp: parse_reply_frame_def Let_def)
qed (simp add: parse_reply_frame_def)

lemma parse_tcp_segment_checks:
  "parse_tcp_segment src dst seg = Ok info \<Longrightarrow>
   20 \<le> length seg \<and> tcp_checksum_is_valid src dst seg \<and> tcp_header_len info = 4 * unat (drop_bit 4 (seg ! 12))"
  by (auto simp: parse_tcp_segment_def Let_def split: if_splits)

lemma result_ok_Some: "result_ok m = Ok (Some a) \<longleftrightarrow> m = Ok a"
  by (cases m) auto

lemma parse_reply_frame_sound:
  assumes "parse_reply_frame data target_ip src_ip = Ok (Some (info, payload))"
  defines "seg \<equiv> sub data 34 (ip_payload_end data - 34)"
  shows "is_our_reply data 34 6 target_ip" and "parse_tcp_segment target_ip src_ip seg = Ok info"
    and "payload = drop (tcp_header_len info) seg"
proof -
  show ours: "is_our_reply data 34 6 target_ip"
    using assms(1) by (auto simp: parse_reply_frame_def Let_def split: if_splits)
  then have b: "34 \<le> ip_payload_end data" "ip_payload_end data \<le> length data"
    using payload_end_bounds [of data] by (auto simp: is_our_reply_def)
  show p: "parse_tcp_segment target_ip src_ip seg = Ok info"
    using assms(1) ours b
    by (auto simp: parse_reply_frame_def seg_def result_ok_Some Let_def split: option.splits if_splits)
  have drop: "sub data (34 + k) (ip_payload_end data - (34 + k)) = drop k seg" if "34 + k \<le> ip_payload_end data" for k
    using that by (simp add: seg_def sub_def drop_take add.commute)
  show "payload = drop (tcp_header_len info) seg"
    using assms(1) ours b p drop [of "tcp_header_len info"]
    by (auto simp: parse_reply_frame_def seg_def result_ok_Some Let_def split: option.splits if_splits)
qed

section \<open>ARP and ping answers\<close>

text \<open>The reply a host at \<open>ip\<close> with the address \<open>mac\<close> gives to a request from \<open>our_mac\<close>.\<close>

definition arp_reply :: "bytes \<Rightarrow> bytes \<Rightarrow> bytes \<Rightarrow> bytes" where
  "arp_reply our_mac mac ip =
     our_mac @ mac @ [0x08, 0x06, 0x00, 0x01, 0x08, 0x00, 6, 4, 0x00, 0x02] @ mac @ ip @ our_mac @ SRC_IP"

lemma arp_reply_matches:
  assumes "length our_mac = 6" "length mac = 6" "length ip = 4"
  shows "is_matching_reply (arp_reply our_mac mac ip @ pad) ip" and "sub (arp_reply our_mac mac ip @ pad) 22 6 = mac"
  using assms by (simp_all add: is_matching_reply_def arp_reply_def nth_append sub_def SRC_IP_def)

lemma wsum_zeros: "wsum (replicate n 0) = 0"
  by (induction n rule: induct_nat_012) (simp_all add: be16_def)

lemma wsum_append_zeros: "wsum (m @ replicate n 0) = wsum m"
proof (induction m rule: wsum.induct)
  case (2 a)
  then show ?case by (cases n) (simp_all add: wsum_zeros unat_be16)
qed (simp_all add: wsum_zeros)

lemma checksum_zero_padding:
  "length m + n \<le> 131072 \<Longrightarrow> checksum_is_valid (m @ replicate n 0) = checksum_is_valid m"
  by (simp add: checksum_is_valid_def internet_checksum_eq_0 wsum_append_zeros)

lemma parse_icmp_echo_padding:
  assumes "parse_icmp_echo m = Ok info" and "length m + n \<le> 131072"
  shows "parse_icmp_echo (m @ replicate n 0) = Ok info"
proof -
  have "8 \<le> length m" "checksum_is_valid m" using assms(1) by (auto simp: parse_icmp_echo_def split: if_splits)
  moreover have "idx (m @ z) k = idx m k" if "k < 8" for k z
    using that \<open>8 \<le> length m\<close> by (simp add: idx_def nth_append)
  ultimately have "parse_icmp_echo (m @ replicate n 0) = parse_icmp_echo m"
    using checksum_zero_padding [OF assms(2)] by (simp add: parse_icmp_echo_def del: idx_Ok)
  then show ?thesis using assms(1) by simp
qed

lemma ping_reply_accepted:
  assumes "length dm = 6" "length sm = 6" "length ip = 4" and "length data + n \<le> 131064"
  shows "ping_reply_matches (ip_frame dm sm 1 ip SRC_IP (build_icmp_echo r i s data) @ replicate n 0) ip
     = Ok (r \<and> i = PING_IDENTIFIER \<and> s = PING_SEQUENCE)"
proof -
  let ?m = "build_icmp_echo r i s data"
  let ?f = "ip_frame dm sm 1 ip SRC_IP ?m @ replicate n 0"
  have lm: "length ?m = 8 + length data" by (simp add: build_icmp_echo_bytes)
  have len: "length ?f = 34 + length ?m + n" using ip_frame_fields(1) [OF assms(1-3) length_SRC_IP] by simp
  have ours: "is_our_reply ?f 34 1 ip" by (rule ip_frame_is_our_reply [OF assms(1-3) length_SRC_IP]) (simp add: lm)
  have drop: "drop 34 (ip_frame dm sm 1 ip SRC_IP ?m) = ?m"
    using assms(1-3) by (simp add: ip_frame_def build_ethernet_header_eq build_ipv4_header_eq ipv4_blank_shape)
  have tail: "sub ?f 34 (length ?f - 34) = ?m @ replicate n 0"
    using len drop ip_frame_fields(1) [OF assms(1-3) length_SRC_IP, of 1 ?m] by (simp add: sub_def)
  have "parse_icmp_echo (?m @ replicate n 0) = Ok \<lparr>echo_is_reply = r, echo_identifier = i, echo_sequence = s\<rparr>"
    using parse_icmp_echo_padding [OF parse_built_icmp, of data r i s n] assms(4) lm by simp
  then show ?thesis using ours tail len by (simp add: ping_reply_matches_def)
qed

lemma ping_reply_matches_total: "\<exists>b. ping_reply_matches data ip = Ok b"
proof (cases "is_our_reply data 34 1 ip")
  case True
  then have "34 \<le> length data" by (simp add: is_our_reply_def)
  moreover obtain r where "result_ok (parse_icmp_echo (sub data 34 (length data - 34))) = Ok r"
    using result_ok_returns [OF parse_icmp_echo_returns] by blast
  ultimately show ?thesis using True by (simp add: ping_reply_matches_def)
next
  case False
  then have "ping_reply_matches data ip = Ok False" by (simp add: ping_reply_matches_def)
  then show ?thesis by blast
qed

section \<open>DNS answers\<close>

lemma dns_reply_total: "\<exists>r. dns_reply data ip query = Ok r"
proof (cases "is_our_reply data 42 17 ip")
  case True
  then have b: "34 \<le> ip_payload_end data" "ip_payload_end data \<le> length data"
    using payload_end_bounds [of data] by (auto simp: is_our_reply_def)
  obtain r where r: "result_ok (parse_udp_datagram ip SRC_IP (sub data 34 (ip_payload_end data - 34))) = Ok r"
    using result_ok_returns [OF parse_udp_datagram_returns] by blast
  have "returns (parse_first_a_record m q)" for m q
    by (auto simp: parse_first_a_record_def returns_obind find_first_record_rdata_total)
  then obtain a where a: "result_ok (parse_first_a_record (sub data 42 (ip_payload_end data - 42)) (length query - 12)) = Ok a"
    using result_ok_returns by blast
  show ?thesis
    using True b r a by (cases r) (auto simp: dns_reply_def Let_def)
qed (simp add: dns_reply_def)

lemma dns_reply_built:
  assumes "length dm = 6" "length sm = 6" "length ip = 4" and "length (hdr @ rest) \<le> 65507"
    and "length hdr = 12" and "sub hdr 0 2 = be_bytes16 DNS_TRANSACTION_ID"
  defines "msg \<equiv> hdr @ rest"
  shows "dns_reply (ip_frame dm sm 17 ip SRC_IP (build_udp_header ip SRC_IP 53 45678 msg @ msg) @ pad) ip query
    = Ok (Some (hdr ! 2 AND 0x80 \<noteq> 0, be16 (hdr ! 6) (hdr ! 7),
        if be16 (hdr ! 6) (hdr ! 7) = 0 then None
        else (case parse_first_a_record msg (length query - 12) of Ok a \<Rightarrow> Some a | _ \<Rightarrow> None)))"
proof -
  let ?b = "build_udp_header ip SRC_IP 53 45678 msg @ msg"
  let ?f = "ip_frame dm sm 17 ip SRC_IP ?b @ pad"
  note len4 = assms(1-3) length_SRC_IP
  have lb: "length ?b = 8 + length msg" by (simp add: build_udp_header_bytes)
  have lm: "12 \<le> length msg" "length msg \<le> 65507" using assms(4,5) by (simp_all add: msg_def)
  have fend: "ip_payload_end ?f = 42 + length msg" using ip_frame_payload_end [OF len4, of ?b 17 pad] lb lm by simp
  have len: "length ?f = 42 + length msg + length pad" using ip_frame_fields(1) [OF len4] lb by simp
  have seg: "sub ?f 34 (8 + length msg) = ?b" using ip_frame_fields(8) [OF len4, of 17 ?b pad] lb by simp
  have "sub ?f 42 (length msg) = sub (sub ?f 34 (8 + length msg)) 8 (length msg)"
    using sub_sub [of 8 "length msg" "8 + length msg" ?f 34] by simp
  then have body: "sub ?f 42 (length msg) = msg" unfolding seg by (simp add: build_udp_header_bytes sub_all)
  have byte: "?f ! (42 + k) = hdr ! k" if "k < 12" for k
  proof -
    have "?f ! (42 + k) = sub ?f 42 (length msg) ! k" by (rule nth_sub [symmetric]) (use that lm len in simp_all)
    then show ?thesis unfolding body using that assms(5) by (simp add: msg_def nth_append)
  qed
  have tid: "sub ?f 42 2 = be_bytes16 DNS_TRANSACTION_ID"
    using sub_sub [of 0 2 "length msg" ?f 42] lm body assms(5,6) by (simp add: msg_def)
  have ours: "is_our_reply ?f 42 17 ip" by (rule ip_frame_is_our_reply [OF len4]) (use lb lm in linarith)
  have dg: "parse_udp_datagram ip SRC_IP ?b = Ok \<lparr>udp_source_port = 53, udp_dest_port = 45678, udp_length = of_nat (8 + length msg)\<rparr>"
    using parse_built_udp [OF assms(3) length_SRC_IP, of msg] lm by simp
  have "returns (parse_first_a_record msg (length query - 12))"
    by (auto simp: parse_first_a_record_def returns_obind find_first_record_rdata_total)
  then show ?thesis
    using ours fend len tid dg byte [of 2] byte [of 6] byte [of 7] lm
    by (cases "parse_first_a_record msg (length query - 12)") (auto simp: dns_reply_def seg body)
qed

end
