(* ===== verification/Pci.thy ===== *)
theory Pci
  imports Ata
begin

text \<open>
  Model of \<^verbatim>\<open>pci.rs\<close>: configuration space through the ports 0xCF8 and 0xCFC and the scan of bus 0.
  The ports are the parameter of the disk driver extended by 32-bit accesses. What a host bridge
  does with them is the locale \<open>config_mechanism\<close>: an address write selects a register, the data
  port reads it, and a 16-bit write changes the writable bits of its low half only. The locale is
  interpreted on the model of a bridge that keeps the selected address.
\<close>

section \<open>Definitions: configuration access\<close>

record 'd io_ports = "'d port_bus" +
  port_read32 :: "u16 \<Rightarrow> 'd \<Rightarrow> u32 \<times> 'd"
  port_write32 :: "u16 \<Rightarrow> u32 \<Rightarrow> 'd \<Rightarrow> 'd"

definition CONFIG_ADDRESS :: u16 where "CONFIG_ADDRESS = 0xCF8"
definition CONFIG_DATA :: u16 where "CONFIG_DATA = 0xCFC"

definition config_address :: "u8 \<Rightarrow> u8 \<Rightarrow> u8 \<Rightarrow> u8 \<Rightarrow> u32" where
  "config_address bus device func offset =
     push_bit 31 1 OR push_bit 16 (ucast bus) OR push_bit 11 (ucast device) OR push_bit 8 (ucast func)
       OR (ucast offset AND 0xFC)"

definition read_config_dword :: "('d, 'z) io_ports_scheme \<Rightarrow> u8 \<Rightarrow> u8 \<Rightarrow> u8 \<Rightarrow> u8 \<Rightarrow> 'd \<Rightarrow> u32 \<times> 'd" where
  "read_config_dword hw bus device func offset d =
     port_read32 hw CONFIG_DATA (port_write32 hw CONFIG_ADDRESS (config_address bus device func offset) d)"

definition read_config_word :: "('d, 'z) io_ports_scheme \<Rightarrow> u8 \<Rightarrow> u8 \<Rightarrow> u8 \<Rightarrow> u8 \<Rightarrow> 'd \<Rightarrow> u16 \<times> 'd" where
  "read_config_word hw bus device func offset d =
     port_read16 hw CONFIG_DATA (port_write32 hw CONFIG_ADDRESS (config_address bus device func offset) d)"

definition write_config_word :: "('d, 'z) io_ports_scheme \<Rightarrow> u8 \<Rightarrow> u8 \<Rightarrow> u8 \<Rightarrow> u8 \<Rightarrow> u16 \<Rightarrow> 'd \<Rightarrow> 'd" where
  "write_config_word hw bus device func offset v d =
     port_write16 hw CONFIG_DATA v (port_write32 hw CONFIG_ADDRESS (config_address bus device func offset) d)"

section \<open>Definitions: devices\<close>

record pci_device =
  pci_bus :: u8
  pci_dev :: u8
  pci_function :: u8
  vendor_id :: u16
  device_id :: u16
  pci_class :: u8
  pci_subclass :: u8
  prog_if :: u8

definition PCI_COMMAND_OFFSET :: u8 where "PCI_COMMAND_OFFSET = 0x04"
definition PCI_COMMAND_BUS_MASTER :: u16 where "PCI_COMMAND_BUS_MASTER = push_bit 2 1"

definition read_bar0 :: "('d, 'z) io_ports_scheme \<Rightarrow> pci_device \<Rightarrow> 'd \<Rightarrow> u32 \<times> 'd" where
  "read_bar0 hw dev = read_config_dword hw (pci_bus dev) (pci_dev dev) (pci_function dev) 0x10"

definition enable_bus_mastering :: "('d, 'z) io_ports_scheme \<Rightarrow> pci_device \<Rightarrow> 'd \<Rightarrow> 'd" where
  "enable_bus_mastering hw dev d =
     (let (command, d1) = read_config_word hw (pci_bus dev) (pci_dev dev) (pci_function dev) PCI_COMMAND_OFFSET d
      in write_config_word hw (pci_bus dev) (pci_dev dev) (pci_function dev) PCI_COMMAND_OFFSET
           (command OR PCI_COMMAND_BUS_MASTER) d1)"

definition class_name :: "u8 \<Rightarrow> string" where
  "class_name c =
     (if c = 0x00 then ''Unclassified'' else if c = 0x01 then ''Mass Storage''
      else if c = 0x02 then ''Network'' else if c = 0x03 then ''Display''
      else if c = 0x04 then ''Multimedia'' else if c = 0x06 then ''Bridge''
      else if c = 0x0C then ''Serial Bus'' else ''Other'')"

text \<open>The body of the scan for one function of one device, on the list found so far.\<close>

definition scan_function ::
    "('d, 'z) io_ports_scheme \<Rightarrow> u8 \<Rightarrow> u8 \<Rightarrow> pci_device list \<times> 'd \<Rightarrow> pci_device list \<times> 'd" where
  "scan_function hw device func s =
     (case s of (found, d) \<Rightarrow>
        let (id_word, d1) = read_config_dword hw 0 device func 0x00 d;
            vendor = (ucast (id_word AND 0xFFFF) :: u16)
        in if vendor = 0xFFFF then (found, d1)
           else let (class_word, d2) = read_config_dword hw 0 device func 0x08 d1
                in (found @ [\<lparr>pci_bus = 0, pci_dev = device, pci_function = func, vendor_id = vendor,
                       device_id = ucast (drop_bit 16 id_word),
                       pci_class = ucast (drop_bit 24 class_word AND 0xFF),
                       pci_subclass = ucast (drop_bit 16 class_word AND 0xFF),
                       prog_if = ucast (drop_bit 8 class_word AND 0xFF)\<rparr>], d2))"

definition scan_bus0 :: "('d, 'z) io_ports_scheme \<Rightarrow> 'd \<Rightarrow> pci_device list \<times> 'd" where
  "scan_bus0 hw d =
     fold (\<lambda>device. fold (scan_function hw device) (map of_nat [0..<8])) (map of_nat [0..<32]) ([], d)"

section \<open>The address of a register\<close>

lemma nat_or_low: "y < 2 ^ k \<Longrightarrow> (2 ^ k * m) OR y = 2 ^ k * m + (y :: nat)"
proof -
  assume y: "y < 2 ^ k"
  have "\<not> bit (2 ^ k * m) n \<or> \<not> bit y n" for n
  proof -
    have "bit (push_bit k m) n \<Longrightarrow> k \<le> n" by (simp add: bit_push_bit_iff)
    moreover have "bit (take_bit k y) n \<Longrightarrow> n < k" by (simp add: bit_take_bit_iff)
    moreover have "take_bit k y = y" using y by (simp add: take_bit_nat_eq_self)
    ultimately show ?thesis by (metis push_bit_eq_mult mult.commute leD)
  qed
  then show ?thesis by (rule disjunctive_add [symmetric])
qed

lemma unat_or_low:
  "unat y < 2 ^ k \<Longrightarrow> 2 ^ k dvd unat x \<Longrightarrow> unat (x OR y :: 'a::len word) = unat x + unat y"
  by (auto simp: unsigned_or_eq nat_or_low elim!: dvdE)

lemma unat_push_bit: "unat x * 2 ^ k < 2 ^ LENGTH('a) \<Longrightarrow> unat (push_bit k (x :: 'a::len word)) = unat x * 2 ^ k"
  unfolding unsigned_push_bit_eq by (simp add: take_bit_eq_mod push_bit_eq_mult)

lemma u8_quarter: "unat (offset :: u8) div 4 < 64"
  by (rule less_mult_imp_div_less) simp

lemma unat_and_fc: "unat (ucast (offset :: u8) AND 0xFC :: u32) = unat offset div 4 * 4"
proof -
  have fc: "(0xFC :: u32) = push_bit 2 (mask 6)" by (simp add: mask_eq_exp_minus_1)
  have "ucast offset AND 0xFC = push_bit 2 (drop_bit 2 (ucast offset :: u32))"
    unfolding fc by (rule bit_word_eqI) (use bit_imp_le_length [of offset] in \<open>fastforce simp: bit_simps dest!: le_Suc_ex\<close>)
  moreover have "unat (drop_bit 2 (ucast offset :: u32)) = unat offset div 4"
    by (simp add: unat_drop_bit unat_ucast_up)
  moreover have "unat offset div 4 * 4 < 2 ^ 32" using u8_quarter [of offset] by simp
  ultimately show ?thesis by (simp add: unat_push_bit)
qed

lemma unat_config_address:
  assumes "unat device < 32" and "unat func < 8"
  shows "unat (config_address bus device func offset) =
     2 ^ 31 + unat bus * 2 ^ 16 + unat device * 2 ^ 11 + unat func * 2 ^ 8 + unat offset div 4 * 4"
proof -
  let ?b = "push_bit 16 (ucast bus) :: u32" and ?d = "push_bit 11 (ucast device) :: u32"
  let ?f = "push_bit 8 (ucast func) :: u32" and ?o = "ucast offset AND 0xFC :: u32"
  have b: "unat ?b = unat bus * 2 ^ 16" using less_trans [OF unat_u8_less [of bus], of 65536] by (subst unat_push_bit) (simp_all add: unat_ucast_up)
  have d: "unat ?d = unat device * 2 ^ 11" using assms(1) by (subst unat_push_bit) (simp_all add: unat_ucast_up)
  have f: "unat ?f = unat func * 2 ^ 8" using assms(2) by (subst unat_push_bit) (simp_all add: unat_ucast_up)
  have o: "unat ?o < 2 ^ 8" using u8_quarter [of offset] unfolding unat_and_fc by simp
  have e: "unat (push_bit 31 1 :: u32) = 2 ^ 31" by simp
  have fo: "unat (?f OR ?o) = unat func * 2 ^ 8 + unat ?o" using o f unat_or_low [of ?o 8 ?f] by simp
  have dfo: "unat (?d OR (?f OR ?o)) = unat device * 2 ^ 11 + unat (?f OR ?o)"
    using unat_or_low [of "?f OR ?o" 11 ?d] fo d o assms(2) by simp
  have bdfo: "unat (?b OR (?d OR (?f OR ?o))) = unat bus * 2 ^ 16 + unat (?d OR (?f OR ?o))"
    using unat_or_low [of "?d OR (?f OR ?o)" 16 ?b] dfo fo b o assms by simp
  have "unat bus \<le> 255" using unat_u8_less [of bus] by linarith
  then have "unat (push_bit 31 1 OR (?b OR (?d OR (?f OR ?o)))) = 2 ^ 31 + unat (?b OR (?d OR (?f OR ?o)))"
    using unat_or_low [of "?b OR (?d OR (?f OR ?o))" 31 "push_bit 31 1"] bdfo dfo fo o e assms by simp
  then show ?thesis by (simp add: config_address_def or.assoc bdfo dfo fo unat_and_fc del: push_bit_of_1)
qed

section \<open>Host bridges\<close>

text \<open>
  \<open>conf d bus device func reg\<close> is the 32-bit register \<open>reg\<close> of a function, \<open>writable\<close> its writable
  bits in the low half.
\<close>

definition select_word :: "nat \<Rightarrow> nat \<Rightarrow> nat \<Rightarrow> nat \<Rightarrow> u32" where
  "select_word bus device func reg = of_nat (2 ^ 31 + bus * 2 ^ 16 + device * 2 ^ 11 + func * 2 ^ 8 + reg * 4)"

lemma config_address_select:
  assumes "unat device < 32" and "unat func < 8"
  shows "config_address bus device func offset = select_word (unat bus) (unat device) (unat func) (unat offset div 4)"
  unfolding select_word_def unat_config_address [OF assms, symmetric] by simp

locale config_mechanism =
  fixes hw :: "('d, 'z) io_ports_scheme"
    and conf :: "'d \<Rightarrow> nat \<Rightarrow> nat \<Rightarrow> nat \<Rightarrow> nat \<Rightarrow> u32"
    and writable :: "nat \<Rightarrow> nat \<Rightarrow> nat \<Rightarrow> nat \<Rightarrow> u16"
  assumes read32: "b < 256 \<Longrightarrow> dv < 32 \<Longrightarrow> fn < 8 \<Longrightarrow> r < 64 \<Longrightarrow>
      \<exists>d'. port_read32 hw 0xCFC (port_write32 hw 0xCF8 (select_word b dv fn r) d) = (conf d b dv fn r, d') \<and> conf d' = conf d"
    and read16: "b < 256 \<Longrightarrow> dv < 32 \<Longrightarrow> fn < 8 \<Longrightarrow> r < 64 \<Longrightarrow>
      \<exists>d'. port_read16 hw 0xCFC (port_write32 hw 0xCF8 (select_word b dv fn r) d) = (ucast (conf d b dv fn r), d') \<and> conf d' = conf d"
    and write16: "b < 256 \<Longrightarrow> dv < 32 \<Longrightarrow> fn < 8 \<Longrightarrow> r < 64 \<Longrightarrow>
      conf (port_write16 hw 0xCFC v (port_write32 hw 0xCF8 (select_word b dv fn r) d)) b' dv' fn' r' =
        (if (b', dv', fn', r') = (b, dv, fn, r)
         then (conf d b dv fn r AND NOT (ucast (writable b dv fn r))) OR ucast (v AND writable b dv fn r)
         else conf d b' dv' fn' r')"
begin

lemma read_config_dword_law:
  assumes "unat device < 32" and "unat func < 8"
  shows "\<exists>d'. read_config_dword hw bus device func offset d =
      (conf d (unat bus) (unat device) (unat func) (unat offset div 4), d') \<and> conf d' = conf d"
  using read32 [of "unat bus" "unat device" "unat func" "unat offset div 4" d] assms u8_quarter [of offset]
  by (simp add: read_config_dword_def config_address_select CONFIG_ADDRESS_def CONFIG_DATA_def)

lemma read_config_word_law:
  assumes "unat device < 32" and "unat func < 8"
  shows "\<exists>d'. read_config_word hw bus device func offset d =
      (ucast (conf d (unat bus) (unat device) (unat func) (unat offset div 4)), d') \<and> conf d' = conf d"
  using read16 [of "unat bus" "unat device" "unat func" "unat offset div 4" d] assms u8_quarter [of offset]
  by (simp add: read_config_word_def config_address_select CONFIG_ADDRESS_def CONFIG_DATA_def)

end

text \<open>What a scan has to find: the function at a slot, read from its registers 0 and 2.\<close>

definition present :: "(nat \<Rightarrow> nat \<Rightarrow> nat \<Rightarrow> nat \<Rightarrow> u32) \<Rightarrow> nat \<Rightarrow> nat \<Rightarrow> bool" where
  "present c dv fn \<longleftrightarrow> (ucast (c 0 dv fn 0) :: u16) \<noteq> 0xFFFF"

definition pci_function_at :: "(nat \<Rightarrow> nat \<Rightarrow> nat \<Rightarrow> nat \<Rightarrow> u32) \<Rightarrow> nat \<Rightarrow> nat \<Rightarrow> pci_device" where
  "pci_function_at c dv fn =
     \<lparr>pci_bus = 0, pci_dev = of_nat dv, pci_function = of_nat fn, vendor_id = ucast (c 0 dv fn 0),
      device_id = ucast (drop_bit 16 (c 0 dv fn 0)), pci_class = ucast (drop_bit 24 (c 0 dv fn 2)),
      pci_subclass = ucast (drop_bit 16 (c 0 dv fn 2)), prog_if = ucast (drop_bit 8 (c 0 dv fn 2))\<rparr>"

definition slots :: "(nat \<times> nat) list" where
  "slots = concat (map (\<lambda>dv. map (\<lambda>fn. (dv, fn)) [0..<8]) [0..<32])"

lemma ucast_and_mask8: "(ucast (x AND 0xFF :: u32) :: u8) = ucast x"
proof -
  have m: "(0xFF :: u32) = mask 8" by (simp add: mask_eq_exp_minus_1)
  show ?thesis unfolding m by (rule bit_word_eqI) (simp add: bit_simps)
qed

lemma ucast_and_mask16: "(ucast (x AND 0xFFFF :: u32) :: u16) = ucast x"
proof -
  have m: "(0xFFFF :: u32) = mask 16" by (simp add: mask_eq_exp_minus_1)
  show ?thesis unfolding m by (rule bit_word_eqI) (simp add: bit_simps)
qed

lemma set_bit2_masked:
  assumes "bit (w :: u16) 2"
  shows "(x AND NOT (ucast w)) OR ucast ((ucast x OR 4) AND w) = x OR (4 :: u32)"
proof -
  have "bit (2 ^ 2 :: u16) n \<longleftrightarrow> n = 2" "bit (2 ^ 2 :: u32) n \<longleftrightarrow> n = 2" "bit (2 ^ 2 :: int) n \<longleftrightarrow> n = 2" for n
    unfolding bit_exp_iff by auto
  then have four: "bit (4 :: u16) n \<longleftrightarrow> n = 2" "bit (4 :: u32) n \<longleftrightarrow> n = 2" "bit (4 :: int) n \<longleftrightarrow> n = 2" for n by simp_all
  show ?thesis
    by (rule bit_word_eqI) (use assms bit_imp_le_length [of w] in \<open>auto simp: bit_simps four\<close>)
qed

context config_mechanism
begin

lemma scan_function_law:
  assumes "dv < 32" and "fn < 8"
  shows "\<exists>d'. scan_function hw (of_nat dv) (of_nat fn) (found, d) =
     (found @ (if present (conf d) dv fn then [pci_function_at (conf d) dv fn] else []), d') \<and> conf d' = conf d"
proof -
  have u: "unat (of_nat dv :: u8) = dv" "unat (of_nat fn :: u8) = fn" using assms by (simp_all add: unat_of_nat)
  obtain d1 where d1: "read_config_dword hw 0 (of_nat dv) (of_nat fn) 0 d = (conf d 0 dv fn 0, d1)" "conf d1 = conf d"
    using read_config_dword_law [of "of_nat dv" "of_nat fn" 0 0 d] assms u by auto
  obtain d2 where d2: "read_config_dword hw 0 (of_nat dv) (of_nat fn) 8 d1 = (conf d 0 dv fn 2, d2)" "conf d2 = conf d"
    using read_config_dword_law [of "of_nat dv" "of_nat fn" 0 8 d1] assms u d1(2) by auto
  show ?thesis
    using d1 d2 by (auto simp: scan_function_def Let_def present_def pci_function_at_def ucast_and_mask8 ucast_and_mask16)
qed

lemma scan_functions_law:
  assumes "dv < 32" and "\<forall>fn \<in> set fns. fn < 8"
  shows "\<exists>d'. fold (scan_function hw (of_nat dv)) (map of_nat fns) (found, d) =
     (found @ map (pci_function_at (conf d) dv) (filter (present (conf d) dv) fns), d') \<and> conf d' = conf d"
  using assms(2)
proof (induction fns arbitrary: found d)
  case (Cons fn fns)
  obtain d1 where d1: "scan_function hw (of_nat dv) (of_nat fn) (found, d) =
     (found @ (if present (conf d) dv fn then [pci_function_at (conf d) dv fn] else []), d1)" "conf d1 = conf d"
    using scan_function_law [OF assms(1)] Cons.prems by fastforce
  then show ?case
    using Cons.IH [of "found @ (if present (conf d) dv fn then [pci_function_at (conf d) dv fn] else [])" d1] Cons.prems
    by auto
qed simp

lemma scan_devices_law:
  assumes "\<forall>dv \<in> set dvs. dv < 32"
  shows "\<exists>d'. fold (\<lambda>device. fold (scan_function hw device) (map of_nat [0..<8])) (map of_nat dvs) (found, d) =
     (found @ concat (map (\<lambda>dv. map (pci_function_at (conf d) dv) (filter (present (conf d) dv) [0..<8])) dvs), d')
     \<and> conf d' = conf d"
  using assms
proof (induction dvs arbitrary: found d)
  case (Cons dv dvs)
  obtain d1 where d1: "fold (scan_function hw (of_nat dv)) (map of_nat [0..<8]) (found, d) =
     (found @ map (pci_function_at (conf d) dv) (filter (present (conf d) dv) [0..<8]), d1)" "conf d1 = conf d"
    using scan_functions_law [of dv "[0..<8]" found d] Cons.prems by fastforce
  show ?case
    using Cons.IH [of "found @ map (pci_function_at (conf d) dv) (filter (present (conf d) dv) [0..<8])" d1] Cons.prems d1
    by (auto simp del: upt_rec_numeral)
qed simp

lemma scan_bus0_law:
  "\<exists>d'. scan_bus0 hw d = (map (\<lambda>(dv, fn). pci_function_at (conf d) dv fn)
      (filter (\<lambda>(dv, fn). present (conf d) dv fn) slots), d') \<and> conf d' = conf d"
  using scan_devices_law [of "[0..<32]" "[]" d]
  by (simp add: scan_bus0_def slots_def map_concat filter_concat filter_map comp_def del: upt_rec_numeral)

lemma enable_bus_mastering_law:
  assumes "unat (pci_dev dev) < 32" and "unat (pci_function dev) < 8"
  defines "addr \<equiv> (unat (pci_bus dev), unat (pci_dev dev), unat (pci_function dev), 1)"
  assumes "bit (writable (unat (pci_bus dev)) (unat (pci_dev dev)) (unat (pci_function dev)) 1) 2"
  shows "conf (enable_bus_mastering hw dev d) b dv fn r =
     (if (b, dv, fn, r) = addr then conf d b dv fn r OR 4 else conf d b dv fn r)"
proof -
  let ?old = "conf d (unat (pci_bus dev)) (unat (pci_dev dev)) (unat (pci_function dev)) 1"
  let ?w = "writable (unat (pci_bus dev)) (unat (pci_dev dev)) (unat (pci_function dev)) 1"
  obtain d1 where d1: "read_config_word hw (pci_bus dev) (pci_dev dev) (pci_function dev) 4 d = (ucast ?old, d1)"
      "conf d1 = conf d"
    using read_config_word_law [OF assms(1,2), of "pci_bus dev" 4 d] by auto
  have "(?old AND NOT (ucast ?w)) OR ucast ((ucast ?old OR 4) AND ?w) = ?old OR (4 :: u32)"
    by (rule set_bit2_masked [OF assms(4)])
  then show ?thesis
    using d1 write16 [of "unat (pci_bus dev)" "unat (pci_dev dev)" "unat (pci_function dev)" 1 "ucast ?old OR 4" d1 b dv fn r] assms(1,2)
    by (auto simp: enable_bus_mastering_def write_config_word_def config_address_select CONFIG_ADDRESS_def CONFIG_DATA_def
        PCI_COMMAND_OFFSET_def PCI_COMMAND_BUS_MASTER_def addr_def)
qed

end

section \<open>Devices behind a bridge\<close>

text \<open>
  A device behind a host bridge: accesses to the configuration ports leave the rest of its state, \<open>others\<close>,
  alone. Then a driver that looks for its device reads its base address and enables bus mastering
  without disturbing it.
\<close>

definition with_master :: "(nat \<Rightarrow> nat \<Rightarrow> nat \<Rightarrow> nat \<Rightarrow> u32) \<Rightarrow> nat \<Rightarrow> nat \<Rightarrow> nat \<Rightarrow> nat \<Rightarrow> nat \<Rightarrow> nat \<Rightarrow> u32" where
  "with_master c dv fn b dv' fn' r = (if (b, dv', fn', r) = (0, dv, fn, 1) then c b dv' fn' r OR 4 else c b dv' fn' r)"

definition first_match :: "(pci_device \<Rightarrow> bool) \<Rightarrow> (nat \<Rightarrow> nat \<Rightarrow> nat \<Rightarrow> nat \<Rightarrow> u32) \<Rightarrow> pci_device option" where
  "first_match P c = find P (map (\<lambda>(dv, fn). pci_function_at c dv fn) (filter (\<lambda>(dv, fn). present c dv fn) slots))"

lemma with_master_same: "r \<noteq> 1 \<Longrightarrow> with_master c dv fn b dv' fn' r = c b dv' fn' r"
  by (simp add: with_master_def)

lemma with_master_present [simp]:
  "pci_function_at (with_master c dv fn) = pci_function_at c" "present (with_master c dv fn) = present c"
  "first_match P (with_master c dv fn) = first_match P c"
proof -
  show *: "pci_function_at (with_master c dv fn) = pci_function_at c" "present (with_master c dv fn) = present c"
    by (intro ext; simp add: pci_function_at_def present_def with_master_same)+
  show "first_match P (with_master c dv fn) = first_match P c" by (simp add: first_match_def *)
qed

locale config_device = config_mechanism hw conf writable
  for hw :: "('d, 'z) io_ports_scheme" and conf and writable +
  fixes others :: "'d \<Rightarrow> 'r"
  assumes others_write32: "others (port_write32 hw 0xCF8 v d) = others d"
    and others_read32: "others (snd (port_read32 hw 0xCFC d)) = others d"
    and others_read16: "others (snd (port_read16 hw 0xCFC d)) = others d"
    and others_write16: "others (port_write16 hw 0xCFC w d) = others d"
begin

lemma others_config [simp]:
  "others (snd (read_config_dword hw bus dev fn off d)) = others d"
  "others (snd (read_config_word hw bus dev fn off d)) = others d"
  "others (write_config_word hw bus dev fn off v d) = others d"
  by (simp_all add: read_config_dword_def read_config_word_def write_config_word_def CONFIG_ADDRESS_def CONFIG_DATA_def
      others_write32 others_read32 others_read16 others_write16)

lemma others_scan_function: "others (snd (scan_function hw dev fn s)) = others (snd s)"
proof -
  obtain found d where s: "s = (found, d)" by (cases s)
  obtain v d1 where d1: "read_config_dword hw 0 dev fn 0 d = (v, d1)" by fastforce
  obtain w d2 where d2: "read_config_dword hw 0 dev fn 8 d1 = (w, d2)" by fastforce
  show ?thesis
    using others_config(1) [of 0 dev fn 0 d] others_config(1) [of 0 dev fn 8 d1]
    by (auto simp: scan_function_def s d1 d2 Let_def)
qed

lemma others_fold:
  assumes "\<And>x s. others (snd (f x s)) = others (snd s)"
  shows "others (snd (fold f xs s)) = others (snd s)"
  by (induction xs arbitrary: s) (simp_all add: assms)

lemma others_scan_bus0: "others (snd (scan_bus0 hw d)) = others d"
  unfolding scan_bus0_def by (simp add: others_fold others_scan_function)

text \<open>Looking for a device and reading its base address.\<close>

lemma find_device_law:
  assumes "first_match P (conf d) = Some (pci_function_at (conf d) dv fn)" and "dv < 32" and "fn < 8"
  obtains devs d1 d2 where "scan_bus0 hw d = (devs, d1)" and "find P devs = Some (pci_function_at (conf d) dv fn)"
    and "read_bar0 hw (pci_function_at (conf d) dv fn) d1 = (conf d 0 dv fn 4, d2)" and "conf d2 = conf d" and "others d2 = others d"
proof -
  let ?dev = "pci_function_at (conf d) dv fn"
  obtain d1 where d1: "scan_bus0 hw d = (map (\<lambda>(dv, fn). pci_function_at (conf d) dv fn)
      (filter (\<lambda>(dv, fn). present (conf d) dv fn) slots), d1)" "conf d1 = conf d"
    using scan_bus0_law by blast
  have u: "unat (pci_dev ?dev) = dv" "unat (pci_function ?dev) = fn" "unat (pci_bus ?dev) = 0"
    using assms(2,3) by (simp_all add: pci_function_at_def unat_of_nat)
  obtain d2 where d2: "read_bar0 hw ?dev d1 = (conf d 0 dv fn 4, d2)" "conf d2 = conf d"
    using read_config_dword_law [of "pci_dev ?dev" "pci_function ?dev" "pci_bus ?dev" "0x10" d1] u assms(2,3) d1(2)
    by (auto simp: read_bar0_def)
  have "others d1 = others d" using others_scan_bus0 [of d] d1(1) by simp
  moreover have "others d2 = others d1"
    using others_config(1) [of "pci_bus ?dev" "pci_dev ?dev" "pci_function ?dev" "0x10" d1] d2(1)
    by (simp add: read_bar0_def del: others_config)
  ultimately show ?thesis using that [OF d1(1) _ d2(1)] assms(1) d2(2) by (simp add: first_match_def)
qed

lemma enable_device_law:
  assumes "dv < 32" and "fn < 8" and "bit (writable 0 dv fn 1) 2"
  shows "conf (enable_bus_mastering hw (pci_function_at c dv fn) d) = with_master (conf d) dv fn"
    and "others (enable_bus_mastering hw (pci_function_at c dv fn) d) = others d"
proof -
  let ?dev = "pci_function_at c dv fn"
  have u: "unat (pci_dev ?dev) = dv" "unat (pci_function ?dev) = fn" "unat (pci_bus ?dev) = 0"
    using assms(1,2) by (simp_all add: pci_function_at_def unat_of_nat)
  show "conf (enable_bus_mastering hw ?dev d) = with_master (conf d) dv fn"
    using enable_bus_mastering_law [of ?dev d] u assms by (intro ext) (simp add: with_master_def)
  obtain w d1 where d1: "read_config_word hw (pci_bus ?dev) (pci_dev ?dev) (pci_function ?dev) PCI_COMMAND_OFFSET d = (w, d1)" by fastforce
  then show "others (enable_bus_mastering hw ?dev d) = others d"
    using others_config(2) [of "pci_bus ?dev" "pci_dev ?dev" "pci_function ?dev" PCI_COMMAND_OFFSET d]
    by (simp add: enable_bus_mastering_def Let_def others_config(3) del: others_config(1,2))
qed

end

section \<open>A host bridge\<close>

text \<open>
  A bridge that follows mechanism 1: it keeps the last address written, and the data port accesses
  the register it selects while the enable bit is set. Only the command register is writable here.
\<close>

record host_bridge =
  hb_addr :: u32
  hb_conf :: "nat \<Rightarrow> nat \<Rightarrow> nat \<Rightarrow> nat \<Rightarrow> u32"

definition hb_decode :: "u32 \<Rightarrow> nat \<times> nat \<times> nat \<times> nat" where
  "hb_decode a = (let n = unat a in (n div 2 ^ 16 mod 2 ^ 8, n div 2 ^ 11 mod 32, n div 2 ^ 8 mod 8, n div 4 mod 64))"

definition hb_reg :: "host_bridge \<Rightarrow> u32" where
  "hb_reg s = (case hb_decode (hb_addr s) of (b, dv, fn, r) \<Rightarrow> hb_conf s b dv fn r)"

definition hb_writable :: "nat \<Rightarrow> nat \<Rightarrow> nat \<Rightarrow> nat \<Rightarrow> u16" where
  "hb_writable b dv fn r = (if r = 1 then 0x0547 else 0)"

definition bridge_ports :: "host_bridge io_ports" where
  "bridge_ports =
     \<lparr>port_read8 = (\<lambda>p s. (0, s)), port_write8 = (\<lambda>p v s. s),
      port_read16 = (\<lambda>p s. (if p = 0xCFC then ucast (hb_reg s) else 0xFFFF, s)),
      port_write16 = (\<lambda>p v s. if p = 0xCFC then
         (case hb_decode (hb_addr s) of (b, dv, fn, r) \<Rightarrow>
            s\<lparr>hb_conf := (\<lambda>b' dv' fn' r'. if (b', dv', fn', r') = (b, dv, fn, r)
               then (hb_conf s b dv fn r AND NOT (ucast (hb_writable b dv fn r))) OR ucast (v AND hb_writable b dv fn r)
               else hb_conf s b' dv' fn' r')\<rparr>) else s),
      port_read32 = (\<lambda>p s. (if p = 0xCFC then hb_reg s else 0xFFFFFFFF, s)),
      port_write32 = (\<lambda>p v s. if p = 0xCF8 then s\<lparr>hb_addr := v\<rparr> else s)\<rparr>"

lemma field_of: "n = (q * m + r) * k + lo \<Longrightarrow> r < m \<Longrightarrow> lo < k \<Longrightarrow> n div k mod m = (r :: nat)"
  by simp

lemma hb_decode_select:
  assumes "b < 256" "dv < 32" "fn < 8" "r < 64"
  shows "hb_decode (select_word b dv fn r) = (b, dv, fn, r)"
proof -
  let ?n = "2 ^ 31 + b * 2 ^ 16 + dv * 2 ^ 11 + fn * 2 ^ 8 + r * 4"
  have u: "unat (select_word b dv fn r) = ?n"
    using assms unfolding select_word_def by (subst unat_of_nat) simp
  have "?n div 4 mod 64 = r"
    using assms by (intro field_of [where q = "2 ^ 23 + b * 2 ^ 8 + dv * 2 ^ 3 + fn" and lo = 0]) simp_all
  moreover have "?n div 2 ^ 8 mod 8 = fn"
    using assms by (intro field_of [where q = "2 ^ 20 + b * 2 ^ 5 + dv" and lo = "r * 4"]) simp_all
  moreover have "?n div 2 ^ 11 mod 32 = dv"
    using assms by (intro field_of [where q = "2 ^ 15 + b" and lo = "fn * 2 ^ 8 + r * 4"]) simp_all
  moreover have "?n div 2 ^ 16 mod 2 ^ 8 = b"
    using assms by (intro field_of [where q = "2 ^ 7" and lo = "dv * 2 ^ 11 + fn * 2 ^ 8 + r * 4"]) simp_all
  ultimately show ?thesis by (simp add: hb_decode_def Let_def u)
qed

interpretation bridge: config_mechanism bridge_ports hb_conf hb_writable
  by unfold_locales (auto simp: bridge_ports_def hb_reg_def hb_decode_select)

section \<open>Properties\<close>

text \<open>
  On every host bridge that implements configuration mechanism 1, the scan returns exactly the
  functions of bus 0 that answer (vendor id other than 0xFFFF), each once and in the order of their
  slots, with the identifiers and the class of their registers, and it changes no register.
\<close>

theorem scan_bus0_exact:
  assumes "config_mechanism hw conf writable"
  shows "\<exists>d'. scan_bus0 hw d = (map (\<lambda>(dv, fn). pci_function_at (conf d) dv fn)
      (filter (\<lambda>(dv, fn). present (conf d) dv fn) slots), d') \<and> conf d' = conf d"
  using config_mechanism.scan_bus0_law [OF assms] by simp

definition one_nic :: host_bridge where
  "one_nic = \<lparr>hb_addr = 0, hb_conf = (\<lambda>b dv fn r. if (b, dv, fn) = (0, 3, 0)
      then (if r = 0 then 0x100E8086 else if r = 1 then 0x02300003 else if r = 2 then 0x02000003 else 0xFEBC0000)
      else 0xFFFFFFFF)\<rparr>"

lemma one_nic_slots: "filter (\<lambda>(dv, fn). present (hb_conf one_nic) dv fn) slots = [(3, 0)]"
  by (simp add: slots_def present_def one_nic_def) code_simp

theorem scan_bus0_exact_witness:
  "fst (scan_bus0 bridge_ports one_nic) =
     [\<lparr>pci_bus = 0, pci_dev = 3, pci_function = 0, vendor_id = 0x8086, device_id = 0x100E,
       pci_class = 2, pci_subclass = 0, prog_if = 0\<rparr>]"
  using scan_bus0_exact [OF bridge.config_mechanism_axioms, of one_nic]
  by (auto simp: one_nic_slots) (simp add: pci_function_at_def one_nic_def)

text \<open>
  Enabling bus mastering sets bit 2 of the command register of the device, if that bit is
  writable, and changes nothing else in the configuration space of any function; the status register in
  the upper half of the same double word in particular keeps its value.
\<close>

theorem enable_bus_mastering_exact:
  assumes "config_mechanism hw conf writable" and "unat (pci_dev dev) < 32" and "unat (pci_function dev) < 8"
    and "bit (writable (unat (pci_bus dev)) (unat (pci_dev dev)) (unat (pci_function dev)) 1) 2"
  shows "conf (enable_bus_mastering hw dev d) b dv fn r =
     (if (b, dv, fn, r) = (unat (pci_bus dev), unat (pci_dev dev), unat (pci_function dev), 1)
      then conf d b dv fn r OR 4 else conf d b dv fn r)"
  using config_mechanism.enable_bus_mastering_law [OF assms] by simp

theorem enable_bus_mastering_exact_witness:
  "hb_conf (enable_bus_mastering bridge_ports (pci_function_at (hb_conf one_nic) 3 0) one_nic) 0 3 0 1 = 0x02300007
   \<and> hb_conf (enable_bus_mastering bridge_ports (pci_function_at (hb_conf one_nic) 3 0) one_nic) 0 3 0 4 = 0xFEBC0000"
proof -
  have w: "bit (hb_writable 0 3 0 1) 2" by (simp add: hb_writable_def bit_numeral_simps)
  show ?thesis
    using enable_bus_mastering_exact [OF bridge.config_mechanism_axioms, of "pci_function_at (hb_conf one_nic) 3 0" one_nic] w
    by (simp add: pci_function_at_def one_nic_def)
qed

end
