(* ===== verification/Dma.thy ===== *)
theory Dma
  imports Pci Paging Machine
begin

text \<open>
  What the network drivers share. The hardware is a parameter: the ports, a register window, the memory
  shared with the device (volatile loads and stores at virtual addresses), the timer tick counter and \<^verbatim>\<open>hlt\<close>.
  The state is the global frame allocator together with the unknown state of the hardware, so that the device may
  change memory between any two accesses. Beside the waiting loop of the drivers the theory has the lemmas on
  memory by pages and on the frames the allocator grants.
\<close>

section \<open>Definitions: hardware access\<close>

record 'd nic_hw = "'d io_ports" +
  mmio_read :: "u64 \<Rightarrow> 'd \<Rightarrow> u32 \<times> 'd"
  mmio_write :: "u64 \<Rightarrow> u32 \<Rightarrow> 'd \<Rightarrow> 'd"
  vol_load :: "u64 \<Rightarrow> nat \<Rightarrow> 'd \<Rightarrow> bytes \<times> 'd"
  vol_store :: "u64 \<Rightarrow> bytes \<Rightarrow> 'd \<Rightarrow> 'd"
  timer_ticks :: "'d \<Rightarrow> u64"
  cpu_hlt :: "'d \<Rightarrow> 'd"
  phys_mem_offset :: u64

type_synonym 'd nic_state = "boot_info_frame_allocator \<times> 'd"

definition dev_get :: "('d \<Rightarrow> 'a \<times> 'd) \<Rightarrow> ('d nic_state, 'a) io" where
  "dev_get f s = (case s of (a, d) \<Rightarrow> case f d of (x, d') \<Rightarrow> (Ok x, (a, d')))"

definition dev_do :: "('d \<Rightarrow> 'd) \<Rightarrow> ('d nic_state, unit) io" where
  "dev_do f s = (case s of (a, d) \<Rightarrow> (Ok (), (a, f d)))"

text \<open>The global \<^verbatim>\<open>allocate_frame\<close>: the physical address of a fresh frame, or a panic.\<close>

definition global_allocate_frame :: "('d nic_state, u64) io" where
  "global_allocate_frame s =
     (case s of (a, d) \<Rightarrow> case allocate_frame a of
        (None, a') \<Rightarrow> (Panic, (a', d))
      | (Some f, a') \<Rightarrow> (Ok (of_nat f), (a', d)))"

section \<open>Definitions: waiting\<close>

text \<open>
  The polling loops. A turn either leaves the loop, goes round at once, or holds: then the loop
  ends if more than 90 ticks have passed since its start, and otherwise halts until the next
  interrupt. A loop that is never ended by its turn or by the timer has no result.
\<close>

datatype ('x, 'r) turn = Leave 'r | Continue 'x | Hold 'x

partial_function (option) timed_loop ::
    "('d, 'z) nic_hw_scheme \<Rightarrow> ('x \<Rightarrow> ('d nic_state, ('x, 'r) turn) io) \<Rightarrow> u64 \<Rightarrow> 'x \<Rightarrow> 'd nic_state
     \<Rightarrow> ('r option outcome \<times> 'd nic_state) option" where
  "timed_loop hw body start x s =
     (case body x s of
        (Ok t, s1) \<Rightarrow> (case t of
            Leave r \<Rightarrow> Some (Ok (Some r), s1)
          | Continue x' \<Rightarrow> timed_loop hw body start x' s1
          | Hold x' \<Rightarrow> (case s1 of (a, d) \<Rightarrow>
              if 90 < timer_ticks hw d - start then Some (Ok None, s1)
              else timed_loop hw body start x' (a, cpu_hlt hw d)))
      | (Err e, s1) \<Rightarrow> Some (Err e, s1)
      | (Panic, s1) \<Rightarrow> Some (Panic, s1)
      | (Diverge, s1) \<Rightarrow> Some (Diverge, s1))"

definition wait_loop ::
    "('d, 'z) nic_hw_scheme \<Rightarrow> ('x \<Rightarrow> ('d nic_state, ('x, 'r) turn) io) \<Rightarrow> 'x \<Rightarrow> ('d nic_state, 'r option) io" where
  "wait_loop hw body x s =
     (case timed_loop hw body (timer_ticks hw (snd s)) x s of None \<Rightarrow> (Diverge, s) | Some r \<Rightarrow> r)"

section \<open>Running the computations\<close>

lemma dev_do_bind [simp]: "io_bind (dev_do f) g (a, d) = g () (a, f d)"
  by (simp add: io_bind_def dev_do_def)

lemma dev_get_bind [simp]: "io_bind (dev_get f) g (a, d) = g (fst (f d)) (a, snd (f d))"
  by (simp add: io_bind_def dev_get_def split: prod.split)

lemma dev_do_apply: "dev_do f (a, d) = (Ok (), (a, f d))"
  by (simp add: dev_do_def)

lemma io_bind_step: "m s = (Ok x, s') \<Longrightarrow> io_bind m f s = f x s'"
  by (simp add: io_bind_def)

lemma timed_loop_leave:
  "body x s = (Ok (Leave r), s1) \<Longrightarrow> timed_loop hw body start x s = Some (Ok (Some r), s1)"
  by (subst timed_loop.simps) simp

lemma timed_loop_continue:
  "body x s = (Ok (Continue x'), s1) \<Longrightarrow> timed_loop hw body start x s = timed_loop hw body start x' s1"
  by (subst timed_loop.simps) simp

lemma timed_loop_hold:
  "body x s = (Ok (Hold x'), (a, d)) \<Longrightarrow> timed_loop hw body start x s =
     (if 90 < timer_ticks hw d - start then Some (Ok None, (a, d)) else timed_loop hw body start x' (a, cpu_hlt hw d))"
  by (subst timed_loop.simps) simp

section \<open>Memory by pages\<close>

definition page_no :: "u64 \<Rightarrow> u64" where
  "page_no x = drop_bit 12 x"

definition page_base :: "u64 \<Rightarrow> bool" where
  "page_base f \<longleftrightarrow> 4096 dvd unat f"

lemma page_offset:
  assumes "page_base f" and "k < 4096"
  shows "unat (f + of_nat k) = unat f + k" and "page_no (f + of_nat k) = page_no f"
proof -
  obtain q where q: "unat f = 4096 * q" using assms(1) by (auto simp: page_base_def)
  have "4096 * q < 4096 * 2 ^ 52" using unat_u64_less [of f] q by simp
  then have "q + 1 \<le> 2 ^ 52" by simp
  then have "4096 * (q + 1) \<le> 4096 * 2 ^ 52" by (rule mult_le_mono2)
  then have "4096 * q + k < 2 ^ 64" using assms(2) by simp
  then show u: "unat (f + of_nat k) = unat f + k"
    using assms(2) q by (simp add: unat_word_ariths unat_of_nat)
  have "unat (page_no (f + of_nat k)) = unat (page_no f)"
    using u q assms(2) by (simp add: page_no_def unat_drop_bit)
  then show "page_no (f + of_nat k) = page_no f" by (simp add: word_unat_eq_iff)
qed

lemma in_block:
  assumes "unat (x - a) < n"
  obtains k where "k < n" and "x = a + of_nat k"
  using assms that [of "unat (x - a)"] by simp

lemma store_other_page:
  assumes "page_base f" and "i + length bs \<le> 4096" and "page_no x \<noteq> page_no f"
  shows "store_mem m (f + of_nat i) bs x = m x"
proof (rule ccontr)
  assume "store_mem m (f + of_nat i) bs x \<noteq> m x"
  then have "unat (x - (f + of_nat i)) < length bs" by (auto simp: store_mem_def split: if_splits)
  then obtain k where k: "k < length bs" "x = f + of_nat i + of_nat k" by (rule in_block)
  then have "x = f + of_nat (i + k)" by (simp add: add.assoc)
  then show False using page_offset(2) [OF assms(1), of "i + k"] assms k by (simp add: add.assoc)
qed

lemma load_other_page:
  assumes "page_base f" and "page_base g" and "page_no f \<noteq> page_no g" and "i + length bs \<le> 4096" and "j + n \<le> 4096"
  shows "load_mem (store_mem m (f + of_nat i) bs) (g + of_nat j) n = load_mem m (g + of_nat j) n"
proof (rule nth_equalityI)
  fix k assume "k < length (load_mem (store_mem m (f + of_nat i) bs) (g + of_nat j) n)"
  then have k: "k < n" by simp
  have "g + of_nat j + of_nat k = g + of_nat (j + k)" by (simp add: add.assoc)
  then have "page_no (g + of_nat j + of_nat k) \<noteq> page_no f" using page_offset(2) [OF assms(2), of "j + k"] assms(3,5) k by (simp add: add.assoc)
  then show "load_mem (store_mem m (f + of_nat i) bs) (g + of_nat j) n ! k = load_mem m (g + of_nat j) n ! k"
    using k store_other_page [OF assms(1,4)] by simp
qed simp

lemma load_same_page:
  assumes "page_base f" and "i + length bs \<le> 4096" and "j + n \<le> 4096" and "i + length bs \<le> j \<or> j + n \<le> i"
  shows "load_mem (store_mem m (f + of_nat i) bs) (f + of_nat j) n = load_mem m (f + of_nat j) n"
proof (rule nth_equalityI)
  fix k assume "k < length (load_mem (store_mem m (f + of_nat i) bs) (f + of_nat j) n)"
  then have k: "k < n" by simp
  have "\<not> unat (f + of_nat j + of_nat k - (f + of_nat i)) < length bs"
  proof
    assume "unat (f + of_nat j + of_nat k - (f + of_nat i)) < length bs"
    then obtain l where l: "l < length bs" "f + of_nat j + of_nat k = f + of_nat i + of_nat l" by (rule in_block)
    then have "f + of_nat (j + k) = f + of_nat (i + l)" by (simp add: add.assoc)
    then have "unat f + (j + k) = unat f + (i + l)"
      using page_offset(1) [OF assms(1), of "j + k"] page_offset(1) [OF assms(1), of "i + l"] assms k l(1) by (metis less_le_trans add_less_cancel_left)
    then show False using assms(4) k l(1) by linarith
  qed
  then show "load_mem (store_mem m (f + of_nat i) bs) (f + of_nat j) n ! k = load_mem m (f + of_nat j) n ! k"
    using k by (simp add: store_mem_def)
qed simp

lemma load_mem_1 [simp]: "load_mem m x (Suc 0) = [m x]"
  by (simp add: load_mem_def)

section \<open>Frames of the allocator\<close>

definition has_frames :: "boot_info_frame_allocator \<Rightarrow> nat \<Rightarrow> bool" where
  "has_frames a n \<longleftrightarrow> distinct (usable_frames a) \<and> (\<forall>f \<in> set (usable_frames a). 4096 dvd f \<and> f < 2 ^ 52)
     \<and> next_frame a + n \<le> length (usable_frames a)"

definition granted :: "boot_info_frame_allocator \<Rightarrow> nat \<Rightarrow> u64" where
  "granted a k = of_nat (usable_frames a ! (next_frame a + k))"

lemma usable_frames_next [simp]: "usable_frames (a\<lparr>next_frame := n\<rparr>) = usable_frames a"
  by (simp add: usable_frames_def)

lemma global_allocate_frame_bind:
  assumes "has_frames a (Suc n)"
  shows "io_bind global_allocate_frame g (a, d) = g (granted a 0) (a\<lparr>next_frame := Suc (next_frame a)\<rparr>, d)"
  using assms by (simp add: io_bind_def global_allocate_frame_def allocate_frame_def has_frames_def granted_def)

lemma has_frames_next: "has_frames a (k + n) \<Longrightarrow> has_frames (a\<lparr>next_frame := next_frame a + k\<rparr>) n"
  by (simp add: has_frames_def)

lemma granted_page:
  assumes "has_frames a n" and "k < n"
  shows "page_base (granted a k)" and "unat (granted a k) = usable_frames a ! (next_frame a + k)"
proof -
  have m: "usable_frames a ! (next_frame a + k) \<in> set (usable_frames a)" using assms by (simp add: has_frames_def)
  then have "usable_frames a ! (next_frame a + k) < 2 ^ 52" using assms(1) by (auto simp: has_frames_def)
  then show u: "unat (granted a k) = usable_frames a ! (next_frame a + k)"
    unfolding granted_def by (simp add: unat_of_nat)
  show "page_base (granted a k)" using m u assms(1) by (auto simp: page_base_def has_frames_def)
qed

lemma granted_distinct:
  assumes "has_frames a n" and "j < n" and "k < n" and "j \<noteq> k"
  shows "page_no (granted a j) \<noteq> page_no (granted a k)"
proof
  assume "page_no (granted a j) = page_no (granted a k)"
  then have "unat (granted a j) div 4096 = unat (granted a k) div 4096"
    by (simp add: page_no_def word_unat_eq_iff unat_drop_bit)
  moreover have "4096 dvd unat (granted a j)" "4096 dvd unat (granted a k)"
    using granted_page(1) [OF assms(1)] assms(2,3) by (auto simp: page_base_def)
  ultimately have "unat (granted a j) = unat (granted a k)" by (metis dvd_mult_div_cancel)
  then show False
    using assms granted_page(2) [OF assms(1)] by (simp add: has_frames_def nth_eq_iff_index_eq)
qed

lemma allocate_four:
  fixes g :: "u64 \<Rightarrow> u64 \<Rightarrow> u64 \<Rightarrow> u64 \<Rightarrow> ('d nic_state, 'r) io"
  assumes "has_frames a (4 + n)"
  shows "io_bind global_allocate_frame (\<lambda>f0. io_bind global_allocate_frame (\<lambda>f1. io_bind global_allocate_frame (\<lambda>f2.
       io_bind global_allocate_frame (\<lambda>f3. g f0 f1 f2 f3)))) (a, d)
     = g (granted a 0) (granted a 1) (granted a 2) (granted a 3) (a\<lparr>next_frame := next_frame a + 4\<rparr>, d)"
proof -
  have b: "io_bind global_allocate_frame h (a\<lparr>next_frame := next_frame a + k\<rparr>, d)
      = h (granted a k) (a\<lparr>next_frame := next_frame a + Suc k\<rparr>, d)"
    if "k < 4" for k and h :: "u64 \<Rightarrow> ('d nic_state, 'r) io"
  proof -
    have "has_frames (a\<lparr>next_frame := next_frame a + k\<rparr>) (Suc 0)" using assms that by (simp add: has_frames_def)
    then show ?thesis by (simp add: global_allocate_frame_bind granted_def)
  qed
  show ?thesis
    using b [of 0] b [of 1] b [of 2] b [of 3] by (simp add: numeral_eq_Suc)
qed

end
