(* ===== verification/E1000.thy ===== *)
theory E1000
  imports E1000_Frames Dma
begin

text \<open>
  Model of the driver functions of \<^verbatim>\<open>net/e1000.rs\<close> on the hardware of \<open>Dma\<close>. Diagnostic output is left out;
  register reads made for it are kept.
\<close>

section \<open>Definitions: registers and descriptors\<close>

definition E1000_VENDOR_ID :: u16 where "E1000_VENDOR_ID = 0x8086"
definition E1000_DEVICE_ID :: u16 where "E1000_DEVICE_ID = 0x100e"

definition REG_CTRL :: u64 where "REG_CTRL = 0x0000"
definition REG_STATUS :: u64 where "REG_STATUS = 0x0008"
definition REG_RAL0 :: u64 where "REG_RAL0 = 0x5400"
definition REG_RAH0 :: u64 where "REG_RAH0 = 0x5404"
definition REG_TCTL :: u64 where "REG_TCTL = 0x0400"
definition REG_TDBAL :: u64 where "REG_TDBAL = 0x3800"
definition REG_TDBAH :: u64 where "REG_TDBAH = 0x3804"
definition REG_TDLEN :: u64 where "REG_TDLEN = 0x3808"
definition REG_TDH :: u64 where "REG_TDH = 0x3810"
definition REG_TDT :: u64 where "REG_TDT = 0x3818"
definition REG_TIPG :: u64 where "REG_TIPG = 0x0410"
definition REG_RDBAL :: u64 where "REG_RDBAL = 0x2800"
definition REG_RDBAH :: u64 where "REG_RDBAH = 0x2804"
definition REG_RDLEN :: u64 where "REG_RDLEN = 0x2808"
definition REG_RDH :: u64 where "REG_RDH = 0x2810"
definition REG_RDT :: u64 where "REG_RDT = 0x2818"
definition REG_RCTL :: u64 where "REG_RCTL = 0x0100"

definition CTRL_SLU :: u32 where "CTRL_SLU = push_bit 6 1"
definition TCTL_EN :: u32 where "TCTL_EN = push_bit 1 1"
definition TCTL_PSP :: u32 where "TCTL_PSP = push_bit 3 1"
definition TCTL_CT_DEFAULT :: u32 where "TCTL_CT_DEFAULT = push_bit 4 0x0F"
definition TCTL_COLD_FULL_DUPLEX :: u32 where "TCTL_COLD_FULL_DUPLEX = push_bit 12 0x40"
definition TIPG_DEFAULT :: u32 where "TIPG_DEFAULT = 0x0060200A"
definition RCTL_EN :: u32 where "RCTL_EN = push_bit 1 1"
definition RCTL_BAM :: u32 where "RCTL_BAM = push_bit 15 1"
definition RCTL_SECRC :: u32 where "RCTL_SECRC = push_bit 26 1"

definition TXD_CMD_EOP :: u8 where "TXD_CMD_EOP = 0x01"
definition TXD_CMD_IFCS :: u8 where "TXD_CMD_IFCS = 0x02"
definition TXD_CMD_RS :: u8 where "TXD_CMD_RS = 0x08"
definition TXD_STATUS_DD :: u8 where "TXD_STATUS_DD = 0x01"
definition RXD_STAT_DD :: u8 where "RXD_STAT_DD = 0x01"
definition RXD_STAT_EOP :: u8 where "RXD_STAT_EOP = 0x02"

definition NUM_TX_DESCRIPTORS :: nat where "NUM_TX_DESCRIPTORS = 8"
definition NUM_RX_DESCRIPTORS :: nat where "NUM_RX_DESCRIPTORS = 8"

lemmas e1000_registers = REG_CTRL_def REG_STATUS_def REG_RAL0_def REG_RAH0_def REG_TCTL_def REG_TDBAL_def
  REG_TDBAH_def REG_TDLEN_def REG_TDH_def REG_TDT_def REG_TIPG_def REG_RDBAL_def REG_RDBAH_def REG_RDLEN_def
  REG_RDH_def REG_RDT_def REG_RCTL_def

record tx_descriptor =
  tx_addr :: u64
  tx_length :: u16
  tx_cso :: u8
  tx_cmd :: u8
  tx_status :: u8
  tx_css :: u8
  tx_special :: u16

record rx_descriptor =
  rx_addr :: u64
  rx_length :: u16
  rx_checksum :: u16
  rx_status :: u8
  rx_errors :: u8
  rx_special :: u16

text \<open>The packed layout of the descriptors.\<close>

definition tx_bytes :: "tx_descriptor \<Rightarrow> bytes" where
  "tx_bytes x = le_bytes64 (tx_addr x) @ le_bytes16 (tx_length x) @ [tx_cso x, tx_cmd x, tx_status x, tx_css x]
     @ le_bytes16 (tx_special x)"

definition rx_bytes :: "rx_descriptor \<Rightarrow> bytes" where
  "rx_bytes x = le_bytes64 (rx_addr x) @ le_bytes16 (rx_length x) @ le_bytes16 (rx_checksum x)
     @ [rx_status x, rx_errors x] @ le_bytes16 (rx_special x)"

definition empty_tx :: tx_descriptor where
  "empty_tx = \<lparr>tx_addr = 0, tx_length = 0, tx_cso = 0, tx_cmd = 0, tx_status = 0, tx_css = 0, tx_special = 0\<rparr>"

definition empty_rx :: rx_descriptor where
  "empty_rx = \<lparr>rx_addr = 0, rx_length = 0, rx_checksum = 0, rx_status = 0, rx_errors = 0, rx_special = 0\<rparr>"

definition read_reg :: "('d, 'z) nic_hw_scheme \<Rightarrow> u64 \<Rightarrow> u64 \<Rightarrow> ('d nic_state, u32) io" where
  "read_reg hw mmio_base offset = dev_get (mmio_read hw (mmio_base + offset))"

definition write_reg :: "('d, 'z) nic_hw_scheme \<Rightarrow> u64 \<Rightarrow> u64 \<Rightarrow> u32 \<Rightarrow> ('d nic_state, unit) io" where
  "write_reg hw mmio_base offset v = dev_do (mmio_write hw (mmio_base + offset) v)"

definition find_e1000 :: "('d, 'z) nic_hw_scheme \<Rightarrow> ('d nic_state, pci_device option) io" where
  "find_e1000 hw = io_bind (dev_get (scan_bus0 hw)) (\<lambda>devs.
     io_ret (find (\<lambda>d. vendor_id d = E1000_VENDOR_ID \<and> device_id d = E1000_DEVICE_ID) devs))"

definition find_mmio_base :: "('d, 'z) nic_hw_scheme \<Rightarrow> ('d nic_state, pci_device \<times> u64) io" where
  "find_mmio_base hw = io_bind (find_e1000 hw) (\<lambda>r. case r of
     None \<Rightarrow> io_err ''no e1000 NIC found on bus 0''
   | Some dev \<Rightarrow> io_bind (dev_get (read_bar0 hw dev)) (\<lambda>bar0.
       if bar0 AND 1 = 1 then io_err ''e1000 BAR0 is I/O-space - not supported yet''
       else let phys_base = ucast (bar0 AND 0xFFFFFFF0) in io_ret (dev, phys_mem_offset hw + phys_base)))"

definition read_mac :: "('d, 'z) nic_hw_scheme \<Rightarrow> u64 \<Rightarrow> ('d nic_state, bytes) io" where
  "read_mac hw mmio_base =
     io_bind (read_reg hw mmio_base REG_RAL0) (\<lambda>ral0. io_bind (read_reg hw mmio_base REG_RAH0) (\<lambda>rah0.
       io_ret [ucast (ral0 AND 0xFF), ucast (drop_bit 8 ral0 AND 0xFF), ucast (drop_bit 16 ral0 AND 0xFF),
               ucast (drop_bit 24 ral0 AND 0xFF), ucast (rah0 AND 0xFF), ucast (drop_bit 8 rah0 AND 0xFF)]))"

text \<open>The common opening of all functions: find the card, enable its bus mastering, read its address.\<close>

definition bring_up :: "('d, 'z) nic_hw_scheme \<Rightarrow> ('d nic_state, u64 \<times> bytes) io" where
  "bring_up hw = io_bind (find_mmio_base hw) (\<lambda>(dev, mmio_base).
     io_bind (dev_do (enable_bus_mastering hw dev)) (\<lambda>_.
     io_bind (read_mac hw mmio_base) (\<lambda>src_mac. io_ret (mmio_base, src_mac))))"

section \<open>Definitions: descriptor rings\<close>

definition store_rx :: "('d, 'z) nic_hw_scheme \<Rightarrow> u64 \<Rightarrow> nat \<Rightarrow> rx_descriptor \<Rightarrow> 'd \<Rightarrow> 'd" where
  "store_rx hw ring i x = vol_store hw (phys_mem_offset hw + ring + of_nat (16 * i)) (rx_bytes x)"

definition store_tx :: "('d, 'z) nic_hw_scheme \<Rightarrow> u64 \<Rightarrow> nat \<Rightarrow> tx_descriptor \<Rightarrow> 'd \<Rightarrow> 'd" where
  "store_tx hw ring i x = vol_store hw (phys_mem_offset hw + ring + of_nat (16 * i)) (tx_bytes x)"

text \<open>
  Arming the receive ring with \<open>slots\<close> buffers of 256 bytes in one frame; every function but
  \<^verbatim>\<open>tcp_echo_test\<close> arms a single descriptor.
\<close>

definition RX_SLOT_STRIDE :: u64 where "RX_SLOT_STRIDE = 256"
definition TX_SLOT_STRIDE :: u64 where "TX_SLOT_STRIDE = 256"

definition arm_rx :: "('d, 'z) nic_hw_scheme \<Rightarrow> u64 \<Rightarrow> u64 \<Rightarrow> u64 \<Rightarrow> nat \<Rightarrow> ('d nic_state, unit) io" where
  "arm_rx hw mmio_base ring buf n_slots =
     io_bind (dev_do (fold (\<lambda>i. store_rx hw ring i empty_rx) [0..<NUM_RX_DESCRIPTORS])) (\<lambda>_.
     io_bind (dev_do (fold (\<lambda>i. store_rx hw ring i (empty_rx\<lparr>rx_addr := buf + of_nat i * RX_SLOT_STRIDE\<rparr>)) [0..<n_slots])) (\<lambda>_.
     io_bind (write_reg hw mmio_base REG_RDBAL (ucast (ring AND 0xFFFFFFFF))) (\<lambda>_.
     io_bind (write_reg hw mmio_base REG_RDBAH (ucast (drop_bit 32 ring))) (\<lambda>_.
     io_bind (write_reg hw mmio_base REG_RDLEN (of_nat (NUM_RX_DESCRIPTORS * 16))) (\<lambda>_.
     io_bind (write_reg hw mmio_base REG_RDH 0) (\<lambda>_.
     io_bind (write_reg hw mmio_base REG_RDT (of_nat n_slots)) (\<lambda>_.
     write_reg hw mmio_base REG_RCTL (RCTL_EN OR RCTL_BAM OR RCTL_SECRC))))))))"

definition clear_tx :: "('d, 'z) nic_hw_scheme \<Rightarrow> u64 \<Rightarrow> ('d nic_state, unit) io" where
  "clear_tx hw ring = dev_do (fold (\<lambda>i. store_tx hw ring i empty_tx) [0..<NUM_TX_DESCRIPTORS])"

definition tx_request :: "u64 \<Rightarrow> bytes \<Rightarrow> tx_descriptor" where
  "tx_request buf frame = empty_tx\<lparr>tx_addr := buf, tx_length := of_nat (length frame),
     tx_cmd := TXD_CMD_EOP OR TXD_CMD_IFCS OR TXD_CMD_RS\<rparr>"

definition program_tx :: "('d, 'z) nic_hw_scheme \<Rightarrow> u64 \<Rightarrow> u64 \<Rightarrow> ('d nic_state, unit) io" where
  "program_tx hw mmio_base ring =
     io_bind (read_reg hw mmio_base REG_CTRL) (\<lambda>ctrl.
     io_bind (write_reg hw mmio_base REG_CTRL (ctrl OR CTRL_SLU)) (\<lambda>_.
     io_bind (write_reg hw mmio_base REG_TDBAL (ucast (ring AND 0xFFFFFFFF))) (\<lambda>_.
     io_bind (write_reg hw mmio_base REG_TDBAH (ucast (drop_bit 32 ring))) (\<lambda>_.
     io_bind (write_reg hw mmio_base REG_TDLEN (of_nat (NUM_TX_DESCRIPTORS * 16))) (\<lambda>_.
     io_bind (write_reg hw mmio_base REG_TDH 0) (\<lambda>_.
     io_bind (write_reg hw mmio_base REG_TDT 0) (\<lambda>_.
     io_bind (write_reg hw mmio_base REG_TIPG TIPG_DEFAULT) (\<lambda>_.
     write_reg hw mmio_base REG_TCTL (TCTL_EN OR TCTL_PSP OR TCTL_CT_DEFAULT OR TCTL_COLD_FULL_DUPLEX)))))))))"

section \<open>Definitions: waiting\<close>

section \<open>Definitions: waiting for the card\<close>

definition tx_turn :: "('d, 'z) nic_hw_scheme \<Rightarrow> u64 \<Rightarrow> nat \<Rightarrow> unit \<Rightarrow> ('d nic_state, (unit, unit) turn) io" where
  "tx_turn hw ring slot u =
     io_bind (dev_get (vol_load hw (phys_mem_offset hw + ring + of_nat (16 * slot) + 12) 1)) (\<lambda>status.
       io_ret (if status ! 0 AND TXD_STATUS_DD \<noteq> 0 then Leave () else Hold ()))"

text \<open>Waiting for the transmit descriptor; \<open>None\<close> is the time-out.\<close>

definition wait_tx :: "('d, 'z) nic_hw_scheme \<Rightarrow> u64 \<Rightarrow> nat \<Rightarrow> string \<Rightarrow> ('d nic_state, unit) io" where
  "wait_tx hw ring slot e =
     io_bind (wait_loop hw (tx_turn hw ring slot) ()) (\<lambda>r. case r of None \<Rightarrow> io_err e | Some _ \<Rightarrow> io_ret ())"

text \<open>What is in a receive slot: nothing yet, or the received bytes.\<close>

definition poll_rx :: "('d, 'z) nic_hw_scheme \<Rightarrow> u64 \<Rightarrow> u64 \<Rightarrow> nat \<Rightarrow> ('d nic_state, bytes option) io" where
  "poll_rx hw ring buf slot =
     io_bind (dev_get (vol_load hw (phys_mem_offset hw + ring + of_nat (16 * slot) + 12) 1)) (\<lambda>status.
       if status ! 0 AND RXD_STAT_DD = 0 then io_ret None
       else io_bind (dev_get (vol_load hw (phys_mem_offset hw + ring + of_nat (16 * slot) + 8) 2)) (\<lambda>len.
            io_bind (dev_get (vol_load hw (phys_mem_offset hw + buf + of_nat slot * RX_SLOT_STRIDE)
                (unat (le16 (len ! 0) (len ! 1))))) (\<lambda>data. io_ret (Some data))))"

definition rx_turn :: "('d, 'z) nic_hw_scheme \<Rightarrow> u64 \<Rightarrow> u64 \<Rightarrow> u64 \<Rightarrow> (bytes \<Rightarrow> 'r option outcome)
    \<Rightarrow> unit \<Rightarrow> ('d nic_state, (unit, 'r) turn) io" where
  "rx_turn hw mmio_base ring buf accept u =
     io_bind (poll_rx hw ring buf 0) (\<lambda>r. case r of
        None \<Rightarrow> io_ret (Hold ())
      | Some data \<Rightarrow> io_bind (io_lift (accept data)) (\<lambda>a. case a of
          Some x \<Rightarrow> io_ret (Leave x)
        | None \<Rightarrow> io_bind (dev_do (store_rx hw ring 0 (empty_rx\<lparr>rx_addr := buf\<rparr>))) (\<lambda>_.
            io_bind (write_reg hw mmio_base REG_RDT 1) (\<lambda>_. io_ret (Hold ())))))"

text \<open>Sending one frame through a new transmit ring, and waiting for an answer \<open>accept\<close> takes.\<close>

definition send_single :: "('d, 'z) nic_hw_scheme \<Rightarrow> u64 \<Rightarrow> u64 \<Rightarrow> u64 \<Rightarrow> bytes \<Rightarrow> ('d nic_state, unit) io" where
  "send_single hw mmio_base ring buf frame =
     io_bind (dev_do (vol_store hw (phys_mem_offset hw + buf) frame)) (\<lambda>_.
     io_bind (clear_tx hw ring) (\<lambda>_.
     io_bind (dev_do (store_tx hw ring 0 (tx_request buf frame))) (\<lambda>_.
     io_bind (program_tx hw mmio_base ring) (\<lambda>_.
     write_reg hw mmio_base REG_TDT 1))))"

definition exchange :: "('d, 'z) nic_hw_scheme \<Rightarrow> u64 \<Rightarrow> bytes \<Rightarrow> string \<Rightarrow> (bytes \<Rightarrow> 'r option outcome)
    \<Rightarrow> ('d nic_state, 'r option) io" where
  "exchange hw mmio_base frame tx_error accept =
     io_bind global_allocate_frame (\<lambda>rx_ring. io_bind global_allocate_frame (\<lambda>rx_buf.
     io_bind global_allocate_frame (\<lambda>tx_ring. io_bind global_allocate_frame (\<lambda>tx_buf.
     io_bind (arm_rx hw mmio_base rx_ring rx_buf 1) (\<lambda>_.
     io_bind (send_single hw mmio_base tx_ring tx_buf frame) (\<lambda>_.
     io_bind (wait_tx hw tx_ring 0 tx_error) (\<lambda>_.
     wait_loop hw (rx_turn hw mmio_base rx_ring rx_buf accept) ())))))))"

section \<open>Definitions: test frames and address resolution\<close>

definition send_test_frame :: "('d, 'z) nic_hw_scheme \<Rightarrow> ('d nic_state, unit) io" where
  "send_test_frame hw =
     io_bind (bring_up hw) (\<lambda>(mmio_base, src_mac).
     io_bind global_allocate_frame (\<lambda>ring. io_bind global_allocate_frame (\<lambda>buf.
     io_bind (send_single hw mmio_base ring buf (arp_request src_mac [10, 0, 2, 2])) (\<lambda>_.
     io_bind (wait_loop hw (tx_turn hw ring 0) ()) (\<lambda>r. case r of
        Some _ \<Rightarrow> io_ret ()
      | None \<Rightarrow> io_bind (read_reg hw mmio_base REG_TDH) (\<lambda>_. io_bind (read_reg hw mmio_base REG_TDT) (\<lambda>_.
          io_err ''e1000 TX: timed out waiting for descriptor DD - hardware dequeued it (TDH advanced) but never confirmed the send; see module doc's \"TX DD-bit mystery, resolved\" section (this path should be unreachable since Fase 44's bus-mastering fix - a real regression if it fires)'')))))))"

text \<open>
  \<^verbatim>\<open>receive_test_frame\<close> prints the source address of whatever it receives, which panics on a
  frame shorter than 12 bytes.
\<close>

definition test_frame_seen :: "bytes \<Rightarrow> unit option outcome" where
  "test_frame_seen data = obind (slice data 6 12) (\<lambda>src_mac. Ok (Some ()))"

definition test_turn :: "('d, 'z) nic_hw_scheme \<Rightarrow> u64 \<Rightarrow> u64 \<Rightarrow> unit \<Rightarrow> ('d nic_state, (unit, unit) turn) io" where
  "test_turn hw ring buf u =
     io_bind (poll_rx hw ring buf 0) (\<lambda>r. case r of
        None \<Rightarrow> io_ret (Hold ())
      | Some data \<Rightarrow> io_bind (io_lift (test_frame_seen data)) (\<lambda>_. io_ret (Leave ())))"

definition receive_test_frame :: "('d, 'z) nic_hw_scheme \<Rightarrow> ('d nic_state, unit) io" where
  "receive_test_frame hw =
     io_bind (find_mmio_base hw) (\<lambda>(dev, mmio_base).
     io_bind (dev_do (enable_bus_mastering hw dev)) (\<lambda>_.
     io_bind global_allocate_frame (\<lambda>ring. io_bind global_allocate_frame (\<lambda>buf.
     io_bind (arm_rx hw mmio_base ring buf 1) (\<lambda>_.
     io_bind (\<lambda>s. case send_test_frame hw s of (r, s') \<Rightarrow> (result_ok r, s')) (\<lambda>tx_result.
     io_bind (wait_loop hw (test_turn hw ring buf) ()) (\<lambda>r. case r of
        Some _ \<Rightarrow> io_ret ()
      | None \<Rightarrow> io_bind (read_reg hw mmio_base REG_RDH) (\<lambda>_. io_bind (read_reg hw mmio_base REG_RDT) (\<lambda>_.
          io_err ''e1000 RX: timed out waiting for a received frame - either SLIRP didn't reply, or something in this ring's own setup is wrong; see rx timeout diagnostic above'')))))))))"

definition arp_accept :: "bytes \<Rightarrow> bytes \<Rightarrow> bytes option outcome" where
  "arp_accept target_ip data =
     (if is_matching_reply data target_ip then obind (slice data 22 28) (\<lambda>mac. Ok (Some mac)) else Ok None)"

definition arp_resolve :: "('d, 'z) nic_hw_scheme \<Rightarrow> bytes \<Rightarrow> ('d nic_state, bytes) io" where
  "arp_resolve hw target_ip =
     io_bind (bring_up hw) (\<lambda>(mmio_base, src_mac).
     io_bind (exchange hw mmio_base (arp_request src_mac target_ip)
        ''arp_resolve: TX timed out waiting for descriptor DD'' (arp_accept target_ip)) (\<lambda>r. case r of
        Some mac \<Rightarrow> io_ret mac
      | None \<Rightarrow> io_bind (read_reg hw mmio_base REG_RDH) (\<lambda>_. io_bind (read_reg hw mmio_base REG_RDT) (\<lambda>_.
          io_err ''arp_resolve: timed out waiting for a matching ARP reply''))))"

definition ping_accept :: "bytes \<Rightarrow> bytes \<Rightarrow> unit option outcome" where
  "ping_accept target_ip data =
     obind (ping_reply_matches data target_ip) (\<lambda>b. Ok (if b then Some () else None))"

definition ping :: "('d, 'z) nic_hw_scheme \<Rightarrow> bytes \<Rightarrow> ('d nic_state, unit) io" where
  "ping hw target_ip =
     io_bind (arp_resolve hw target_ip) (\<lambda>dest_mac.
     io_bind (bring_up hw) (\<lambda>(mmio_base, src_mac).
     io_bind (exchange hw mmio_base (ping_frame dest_mac src_mac target_ip)
        ''ping: TX timed out waiting for descriptor DD'' (ping_accept target_ip)) (\<lambda>r. case r of
        Some _ \<Rightarrow> io_ret ()
      | None \<Rightarrow> io_err ''ping: timed out waiting for a genuine ICMP echo reply'')))"

section \<open>Definitions: TCP\<close>

definition SYN_SRC_PORT :: u16 where "SYN_SRC_PORT = 54321"
definition SYN_INITIAL_SEQ :: u32 where "SYN_INITIAL_SEQ = 0x10000000"

definition syn_frame :: "bytes \<Rightarrow> bytes \<Rightarrow> bytes \<Rightarrow> u16 \<Rightarrow> u16 \<Rightarrow> u32 \<Rightarrow> bytes" where
  "syn_frame dest_mac src_mac target_ip target_port src_port initial_seq =
     build_tcp_frame dest_mac src_mac SRC_IP target_ip
       (build_tcp_header SRC_IP target_ip src_port target_port initial_seq 0 TCP_FLAG_SYN 65535 []) []"

definition syn_accept :: "bytes \<Rightarrow> u16 \<Rightarrow> bytes \<Rightarrow> tcp_segment_info option outcome" where
  "syn_accept target_ip target_port data =
     obind (parse_reply_frame data target_ip SRC_IP) (\<lambda>r. case r of
        None \<Rightarrow> Ok None
      | Some (info, _) \<Rightarrow>
          if is_syn_ack info target_port SYN_SRC_PORT SYN_INITIAL_SEQ then Ok (Some info)
          else if is_matching_rst info target_port SYN_SRC_PORT
          then Err ''tcp_syn_test: connection reset (RST) by peer'' else Ok None)"

definition tcp_syn_test :: "('d, 'z) nic_hw_scheme \<Rightarrow> bytes \<Rightarrow> u16 \<Rightarrow> ('d nic_state, tcp_segment_info) io" where
  "tcp_syn_test hw target_ip target_port =
     io_bind (arp_resolve hw target_ip) (\<lambda>dest_mac.
     io_bind (bring_up hw) (\<lambda>(mmio_base, src_mac).
     io_bind (exchange hw mmio_base (syn_frame dest_mac src_mac target_ip target_port SYN_SRC_PORT SYN_INITIAL_SEQ)
        ''tcp_syn_test: TX timed out waiting for descriptor DD'' (syn_accept target_ip target_port)) (\<lambda>r. case r of
        Some info \<Rightarrow> io_ret info
      | None \<Rightarrow> io_err ''tcp_syn_test: timed out waiting for a genuine SYN-ACK reply'')))"

text \<open>
  \<^verbatim>\<open>tcp_echo_test\<close>: one connection from the handshake to its close, over a receive ring with seven
  armed slots that are used in order, and one transmit slot per segment.
\<close>

definition NUM_RX_SLOTS :: nat where "NUM_RX_SLOTS = 7"

definition send_and_wait :: "('d, 'z) nic_hw_scheme \<Rightarrow> u64 \<Rightarrow> u64 \<Rightarrow> u64 \<Rightarrow> nat \<Rightarrow> bytes \<Rightarrow> ('d nic_state, unit) io" where
  "send_and_wait hw mmio_base tx_ring tx_buf slot frame =
     io_bind (dev_do (vol_store hw (phys_mem_offset hw + tx_buf + of_nat slot * TX_SLOT_STRIDE) frame)) (\<lambda>_.
     io_bind (dev_do (store_tx hw tx_ring slot (tx_request (tx_buf + of_nat slot * TX_SLOT_STRIDE) frame))) (\<lambda>_.
     io_bind (write_reg hw mmio_base REG_TDT (of_nat (slot + 1))) (\<lambda>_.
     wait_tx hw tx_ring slot ''tcp_echo_test: TX timed out waiting for descriptor DD'')))"

text \<open>Phase 1: the first frame decides, as a SYN-ACK (with the peer's sequence number), a reset or neither.\<close>

datatype syn_result = Syn_Ack u32 | Reset | Other_frame

definition syn_result_of :: "bytes \<Rightarrow> u16 \<Rightarrow> u16 \<Rightarrow> u32 \<Rightarrow> bytes \<Rightarrow> syn_result outcome" where
  "syn_result_of target_ip target_port src_port initial_seq data =
     obind (parse_reply_frame data target_ip SRC_IP) (\<lambda>r. Ok (case r of
        None \<Rightarrow> Other_frame
      | Some (info, _) \<Rightarrow>
          if is_syn_ack info target_port src_port initial_seq then Syn_Ack (tcp_seq_num info)
          else if is_matching_rst info target_port src_port then Reset else Other_frame))"

definition syn_turn :: "('d, 'z) nic_hw_scheme \<Rightarrow> u64 \<Rightarrow> u64 \<Rightarrow> bytes \<Rightarrow> u16 \<Rightarrow> u16 \<Rightarrow> u32 \<Rightarrow> unit
    \<Rightarrow> ('d nic_state, (unit, syn_result) turn) io" where
  "syn_turn hw ring buf target_ip target_port src_port initial_seq u =
     io_bind (poll_rx hw ring buf 0) (\<lambda>r. case r of
        None \<Rightarrow> io_ret (Hold ())
      | Some data \<Rightarrow> io_bind (io_lift (syn_result_of target_ip target_port src_port initial_seq data)) (\<lambda>x. io_ret (Leave x)))"

text \<open>Phase 4: the echo, and the peer's sequence number after it.\<close>

definition echo_of :: "bytes \<Rightarrow> u16 \<Rightarrow> u16 \<Rightarrow> u32 \<Rightarrow> bytes \<Rightarrow> (bytes \<times> u32) option outcome" where
  "echo_of target_ip target_port src_port expected_ack data =
     obind (parse_reply_frame data target_ip SRC_IP) (\<lambda>r. Ok (case r of
        None \<Rightarrow> None
      | Some (info, echoed) \<Rightarrow>
          if tcp_source_port info = target_port \<and> tcp_dest_port info = src_port
            \<and> tcp_ack_num info = expected_ack \<and> echoed \<noteq> []
          then Some (echoed, tcp_seq_num info + of_nat (length echoed)) else None))"

definition echo_turn :: "('d, 'z) nic_hw_scheme \<Rightarrow> u64 \<Rightarrow> u64 \<Rightarrow> (bytes \<Rightarrow> (bytes \<times> u32) option outcome) \<Rightarrow> nat
    \<Rightarrow> ('d nic_state, (nat, (bytes \<times> u32 \<times> nat) option) turn) io" where
  "echo_turn hw ring buf accept slot =
     (if NUM_RX_SLOTS \<le> slot then io_ret (Leave None)
      else io_bind (poll_rx hw ring buf slot) (\<lambda>r. case r of
        None \<Rightarrow> io_ret (Hold slot)
      | Some data \<Rightarrow> io_bind (io_lift (accept data)) (\<lambda>a. case a of
          Some (echoed, seq) \<Rightarrow> io_ret (Leave (Some (echoed, seq, slot + 1)))
        | None \<Rightarrow> io_ret (Continue (slot + 1)))))"

text \<open>Phase 6: the peer's FIN, by its sequence number, acknowledged with the last segment.\<close>

definition fin_of :: "bytes \<Rightarrow> u16 \<Rightarrow> u16 \<Rightarrow> bytes \<Rightarrow> u32 option outcome" where
  "fin_of target_ip target_port src_port data =
     obind (parse_reply_frame data target_ip SRC_IP) (\<lambda>r. Ok (case r of
        None \<Rightarrow> None
      | Some (info, _) \<Rightarrow>
          if tcp_source_port info = target_port \<and> tcp_dest_port info = src_port \<and> tcp_flags info AND TCP_FLAG_FIN \<noteq> 0
          then Some (tcp_seq_num info) else None))"

definition close_turn :: "('d, 'z) nic_hw_scheme \<Rightarrow> u64 \<Rightarrow> u64 \<Rightarrow> (bytes \<Rightarrow> u32 option outcome)
    \<Rightarrow> (u32 \<Rightarrow> ('d nic_state, unit) io) \<Rightarrow> nat \<Rightarrow> ('d nic_state, (nat, bool) turn) io" where
  "close_turn hw ring buf accept answer slot =
     (if NUM_RX_SLOTS \<le> slot then io_ret (Leave False)
      else io_bind (poll_rx hw ring buf slot) (\<lambda>r. case r of
        None \<Rightarrow> io_ret (Hold slot)
      | Some data \<Rightarrow> io_bind (io_lift (accept data)) (\<lambda>a. case a of
          Some seq \<Rightarrow> io_bind (answer seq) (\<lambda>_. io_ret (Leave True))
        | None \<Rightarrow> io_ret (Continue (slot + 1)))))"

definition tcp_echo_test ::
    "('d, 'z) nic_hw_scheme \<Rightarrow> bytes \<Rightarrow> u16 \<Rightarrow> u16 \<Rightarrow> u32 \<Rightarrow> bytes \<Rightarrow> ('d nic_state, bytes) io" where
  "tcp_echo_test hw target_ip target_port src_port initial_seq payload =
     io_bind (arp_resolve hw target_ip) (\<lambda>dest_mac.
     io_bind (bring_up hw) (\<lambda>(mmio_base, src_mac).
     let segment = (\<lambda>seq ack flags data. build_tcp_frame dest_mac src_mac SRC_IP target_ip
           (build_tcp_header SRC_IP target_ip src_port target_port seq ack flags 65535 data) data)
     in
     io_bind global_allocate_frame (\<lambda>rx_ring. io_bind global_allocate_frame (\<lambda>rx_buf.
     io_bind global_allocate_frame (\<lambda>tx_ring. io_bind global_allocate_frame (\<lambda>tx_buf.
     io_bind (arm_rx hw mmio_base rx_ring rx_buf NUM_RX_SLOTS) (\<lambda>_.
     io_bind (clear_tx hw tx_ring) (\<lambda>_.
     io_bind (program_tx hw mmio_base tx_ring) (\<lambda>_.
     let send = send_and_wait hw mmio_base tx_ring tx_buf in
     io_bind (send 0 (segment initial_seq 0 TCP_FLAG_SYN [])) (\<lambda>_.
     io_bind (wait_loop hw (syn_turn hw rx_ring rx_buf target_ip target_port src_port initial_seq) ()) (\<lambda>r.
     case r of
       Some Reset \<Rightarrow> io_err ''tcp_echo_test: connection reset (RST) by peer''
     | Some (Syn_Ack peer_isn) \<Rightarrow>
         io_bind (send 1 (segment (initial_seq + 1) (peer_isn + 1) TCP_FLAG_ACK [])) (\<lambda>_.
         io_bind (send 2 (segment (initial_seq + 1) (peer_isn + 1) (TCP_FLAG_PSH OR TCP_FLAG_ACK) payload)) (\<lambda>_.
         let expected_ack = initial_seq + 1 + of_nat (length payload) in
         io_bind (wait_loop hw (echo_turn hw rx_ring rx_buf (echo_of target_ip target_port src_port expected_ack)) 1) (\<lambda>r.
         case r of
           Some (Some (echoed, peer_seq_after_echo, slot)) \<Rightarrow>
             io_bind (send 3 (segment expected_ack peer_seq_after_echo (TCP_FLAG_FIN OR TCP_FLAG_ACK) [])) (\<lambda>_.
             io_bind (wait_loop hw (close_turn hw rx_ring rx_buf (fin_of target_ip target_port src_port)
                 (\<lambda>seq. send 4 (segment (expected_ack + 1) (seq + 1) TCP_FLAG_ACK []))) slot) (\<lambda>_.
             io_ret echoed))
         | _ \<Rightarrow> io_err ''tcp_echo_test: timed out waiting for the real echoed data'')))
     | _ \<Rightarrow> io_err ''tcp_echo_test: timed out waiting for a genuine SYN-ACK reply'')))))))))))"

section \<open>Definitions: name resolution\<close>

text \<open>The result of \<^verbatim>\<open>dns_query_test\<close>: reply received, QR bit, number of answers, first A record.\<close>

definition dns_query_test :: "('d, 'z) nic_hw_scheme \<Rightarrow> bytes \<Rightarrow> bytes
    \<Rightarrow> ('d nic_state, bool \<times> bool \<times> u16 \<times> bytes option) io" where
  "dns_query_test hw target_ip hostname =
     io_bind (io_lift (build_query DNS_TRANSACTION_ID hostname DNS_TYPE_A)) (\<lambda>query.
     io_bind (arp_resolve hw target_ip) (\<lambda>dest_mac.
     io_bind (bring_up hw) (\<lambda>(mmio_base, src_mac).
     io_bind (exchange hw mmio_base (dns_frame dest_mac src_mac target_ip query)
        ''dns_query_test: TX timed out waiting for descriptor DD'' (\<lambda>data. dns_reply data target_ip query)) (\<lambda>r.
       io_ret (case r of None \<Rightarrow> (False, False, 0, None)
                | Some (qr_bit_set, answer_count, parsed) \<Rightarrow> (True, qr_bit_set, answer_count, parsed))))))"

definition resolve_hostname :: "('d, 'z) nic_hw_scheme \<Rightarrow> bytes \<Rightarrow> bytes \<Rightarrow> ('d nic_state, bytes) io" where
  "resolve_hostname hw hostname dns_server =
     io_bind (dns_query_test hw dns_server hostname) (\<lambda>(reply_received, qr_bit_set, answer_count, parsed).
       if \<not> reply_received \<or> \<not> qr_bit_set then io_err ''resolve_hostname: no valid DNS reply received''
       else case parsed of None \<Rightarrow> io_err ''resolve_hostname: reply contained no parseable A record''
            | Some a \<Rightarrow> io_ret a)"

end
