(* ===== verification/E1000_Link.thy ===== *)
theory E1000_Link
  imports E1000
begin

text \<open>
  The driver on a network card. The card is modelled as far as the driver relies on it: the two
  descriptor rings with their head and tail registers, transmission when the tail is written, reception
  into the armed descriptors, write-back of the status bits, all of it only while bus mastering is
  enabled. What answers on the network is an arbitrary function of the frames sent so far.
\<close>

section \<open>The network card\<close>

record nic_dev =
  nd_mem :: mem
  nd_regs :: "u64 \<Rightarrow> u32"
  nd_bridge :: host_bridge
  nd_ticks :: u64
  nd_sent :: "bytes list"
  nd_inbox :: "bytes list"

text \<open>Where the card sits, where physical memory is mapped, and the network it is connected to.\<close>

record nic_env =
  ne_device :: nat
  ne_function :: nat
  ne_offset :: u64
  ne_peer :: "bytes list \<Rightarrow> bytes \<Rightarrow> bytes list"

definition nic_conf :: "nic_env \<Rightarrow> nic_dev \<Rightarrow> nat \<Rightarrow> u32" where
  "nic_conf e d r = hb_conf (nd_bridge d) 0 (ne_device e) (ne_function e) r"

definition nic_bar :: "nic_env \<Rightarrow> nic_dev \<Rightarrow> u64" where
  "nic_bar e d = ucast (nic_conf e d 4 AND 0xFFFFFFF0)"

definition nic_master :: "nic_env \<Rightarrow> nic_dev \<Rightarrow> bool" where
  "nic_master e d \<longleftrightarrow> nic_conf e d 1 AND 4 \<noteq> 0"

definition reg64 :: "nic_dev \<Rightarrow> u64 \<Rightarrow> u64 \<Rightarrow> u64" where
  "reg64 d lo hi = ucast (nd_regs d lo) OR push_bit 32 (ucast (nd_regs d hi))"

definition set_reg :: "u64 \<Rightarrow> u32 \<Rightarrow> nic_dev \<Rightarrow> nic_dev" where
  "set_reg r v d = d\<lparr>nd_regs := (nd_regs d)(r := v)\<rparr>"

definition nic_tx_one :: "nic_env \<Rightarrow> nic_dev \<Rightarrow> nic_dev" where
  "nic_tx_one e d =
     (let p = reg64 d REG_TDBAL REG_TDBAH + 16 * ucast (nd_regs d REG_TDH);
          b = load_mem (nd_mem d) p 16;
          frame = load_mem (nd_mem d) (le64 (take 8 b)) (unat (le16 (b ! 8) (b ! 9)));
          m = (if b ! 11 AND 8 \<noteq> 0 then store_mem (nd_mem d) (p + 12) [b ! 12 OR 1] else nd_mem d)
      in set_reg REG_TDH ((nd_regs d REG_TDH + 1) mod drop_bit 4 (nd_regs d REG_TDLEN))
           (d\<lparr>nd_mem := m, nd_sent := nd_sent d @ [frame], nd_inbox := nd_inbox d @ ne_peer e (nd_sent d) frame\<rparr>))"

text \<open>The transmitter runs until head and tail meet, at most once round the ring.\<close>

fun nic_tx_run :: "nat \<Rightarrow> nic_env \<Rightarrow> nic_dev \<Rightarrow> nic_dev" where
  "nic_tx_run 0 e d = d"
| "nic_tx_run (Suc n) e d = (if nd_regs d REG_TDH = nd_regs d REG_TDT then d else nic_tx_run n e (nic_tx_one e d))"

definition nic_transmit :: "nic_env \<Rightarrow> nic_dev \<Rightarrow> nic_dev" where
  "nic_transmit e d =
     (if nd_regs d REG_TCTL AND TCTL_EN \<noteq> 0 \<and> nic_master e d
      then nic_tx_run (unat (drop_bit 4 (nd_regs d REG_TDLEN))) e d else d)"

text \<open>One frame from the network: written to the next armed descriptor, or lost.\<close>

definition nic_store_frame :: "nic_dev \<Rightarrow> bytes \<Rightarrow> nic_dev" where
  "nic_store_frame d frame =
     (let p = reg64 d REG_RDBAL REG_RDBAH + 16 * ucast (nd_regs d REG_RDH);
          m1 = store_mem (nd_mem d) (le64 (load_mem (nd_mem d) p 8)) frame;
          m2 = store_mem m1 (p + 8) (le_bytes16 (of_nat (length frame)));
          m3 = store_mem m2 (p + 12) [RXD_STAT_DD OR RXD_STAT_EOP]
      in set_reg REG_RDH ((nd_regs d REG_RDH + 1) mod drop_bit 4 (nd_regs d REG_RDLEN)) (d\<lparr>nd_mem := m3\<rparr>))"

definition nic_receive :: "nic_env \<Rightarrow> nic_dev \<Rightarrow> nic_dev" where
  "nic_receive e d =
     (case nd_inbox d of [] \<Rightarrow> d
      | frame # rest \<Rightarrow>
          (let d' = d\<lparr>nd_inbox := rest\<rparr>
           in if nd_regs d REG_RCTL AND RCTL_EN \<noteq> 0 \<and> nic_master e d \<and> nd_regs d REG_RDH \<noteq> nd_regs d REG_RDT
                \<and> length frame \<le> 2048
              then nic_store_frame d' frame else d'))"

definition e1000_hw :: "nic_env \<Rightarrow> nic_dev nic_hw" where
  "e1000_hw e =
     \<lparr>port_read8 = (\<lambda>p d. (0, d)), port_write8 = (\<lambda>p v d. d),
      port_read16 = (\<lambda>p d. (fst (port_read16 bridge_ports p (nd_bridge d)), d)),
      port_write16 = (\<lambda>p v d. d\<lparr>nd_bridge := port_write16 bridge_ports p v (nd_bridge d)\<rparr>),
      port_read32 = (\<lambda>p d. (fst (port_read32 bridge_ports p (nd_bridge d)), d)),
      port_write32 = (\<lambda>p v d. d\<lparr>nd_bridge := port_write32 bridge_ports p v (nd_bridge d)\<rparr>),
      mmio_read = (\<lambda>a d. (nd_regs d (a - ne_offset e - nic_bar e d), d)),
      mmio_write = (\<lambda>a v d. let r = a - ne_offset e - nic_bar e d; d' = set_reg r v d
         in if r = REG_TDT \<or> r = REG_TCTL then nic_transmit e d' else d'),
      vol_load = (\<lambda>a n d. (load_mem (nd_mem d) (a - ne_offset e) n, d)),
      vol_store = (\<lambda>a bs d. d\<lparr>nd_mem := store_mem (nd_mem d) (a - ne_offset e) bs\<rparr>),
      timer_ticks = nd_ticks,
      cpu_hlt = (\<lambda>d. (nic_receive e d)\<lparr>nd_ticks := nd_ticks d + 1\<rparr>),
      phys_mem_offset = ne_offset e\<rparr>"

section \<open>Accesses to the card\<close>

lemma regs_distinct:
  "distinct [REG_CTRL, REG_TCTL, REG_TDBAL, REG_TDBAH, REG_TDLEN, REG_TDH, REG_TDT, REG_TIPG, REG_RDBAL, REG_RDBAH,
     REG_RDLEN, REG_RDH, REG_RDT, REG_RCTL, REG_RAL0, REG_RAH0]"
  by (simp add: e1000_registers)

lemma regs_distinct_rev:
  "distinct [REG_RAH0, REG_RAL0, REG_RCTL, REG_RDT, REG_RDH, REG_RDLEN, REG_RDBAH, REG_RDBAL, REG_TIPG, REG_TDT,
     REG_TDH, REG_TDLEN, REG_TDBAH, REG_TDBAL, REG_TCTL, REG_CTRL]"
  using regs_distinct by (simp add: e1000_registers)

lemmas reg_neq [simp] = regs_distinct [simplified] regs_distinct_rev [simplified]

lemma e1000_hw_simps [simp]:
  "phys_mem_offset (e1000_hw e) = ne_offset e" "timer_ticks (e1000_hw e) = nd_ticks"
  "vol_load (e1000_hw e) a n d = (load_mem (nd_mem d) (a - ne_offset e) n, d)"
  "vol_store (e1000_hw e) a bs d = d\<lparr>nd_mem := store_mem (nd_mem d) (a - ne_offset e) bs\<rparr>"
  "cpu_hlt (e1000_hw e) d = (nic_receive e d)\<lparr>nd_ticks := nd_ticks d + 1\<rparr>"
  by (simp_all add: e1000_hw_def)

lemma nic_conf_update [simp]:
  "nic_conf e (d\<lparr>nd_mem := m\<rparr>) = nic_conf e d" "nic_conf e (d\<lparr>nd_regs := rs\<rparr>) = nic_conf e d"
  "nic_conf e (d\<lparr>nd_ticks := t\<rparr>) = nic_conf e d" "nic_conf e (d\<lparr>nd_sent := x\<rparr>) = nic_conf e d"
  "nic_conf e (d\<lparr>nd_inbox := x\<rparr>) = nic_conf e d" "nic_conf e (set_reg r v d) = nic_conf e d"
  by (auto simp: nic_conf_def set_reg_def)

lemma nic_conf_cong: "nd_bridge d' = nd_bridge d \<Longrightarrow> nic_conf e d' = nic_conf e d"
  by (auto simp: nic_conf_def)

lemma nic_bar_conf: "nic_conf e d' = nic_conf e d \<Longrightarrow> nic_bar e d' = nic_bar e d"
  and nic_master_conf: "nic_conf e d' = nic_conf e d \<Longrightarrow> nic_master e d' = nic_master e d"
  by (simp_all add: nic_bar_def nic_master_def)

lemma set_reg_fields [simp]:
  "nd_mem (set_reg r v d) = nd_mem d" "nd_bridge (set_reg r v d) = nd_bridge d" "nd_ticks (set_reg r v d) = nd_ticks d"
  "nd_sent (set_reg r v d) = nd_sent d" "nd_inbox (set_reg r v d) = nd_inbox d"
  "nd_regs (set_reg r v d) = (nd_regs d)(r := v)"
  by (simp_all add: set_reg_def)

lemma mmio_write_plain:
  assumes "r \<noteq> REG_TDT" and "r \<noteq> REG_TCTL"
  shows "mmio_write (e1000_hw e) (ne_offset e + nic_bar e d + r) v d = set_reg r v d"
  using assms by (simp add: e1000_hw_def Let_def)

lemma mmio_write_tx:
  assumes "r = REG_TDT \<or> r = REG_TCTL"
  shows "mmio_write (e1000_hw e) (ne_offset e + nic_bar e d + r) v d = nic_transmit e (set_reg r v d)"
  using assms by (auto simp: e1000_hw_def Let_def)

lemma mmio_read_eq: "mmio_read (e1000_hw e) (ne_offset e + nic_bar e d + r) d = (nd_regs d r, d)"
  by (simp add: e1000_hw_def)

lemma nic_transmit_idle: "nd_regs d REG_TDH = nd_regs d REG_TDT \<Longrightarrow> nic_transmit e d = d"
  by (cases "unat (drop_bit 4 (nd_regs d REG_TDLEN))") (simp_all add: nic_transmit_def)

section \<open>Rings in memory\<close>

lemma length_tx_bytes [simp]: "length (tx_bytes x) = 16"
  and length_rx_bytes [simp]: "length (rx_bytes y) = 16"
  by (simp_all add: tx_bytes_def rx_bytes_def)

definition ring_fill :: "u64 \<Rightarrow> (nat \<Rightarrow> bytes) \<Rightarrow> nat \<Rightarrow> mem \<Rightarrow> mem" where
  "ring_fill ring f n = fold (\<lambda>i m. store_mem m (ring + of_nat (16 * i)) (f i)) [0..<n]"

lemma ring_fill_Suc: "ring_fill ring f (Suc n) m = store_mem (ring_fill ring f n m) (ring + of_nat (16 * n)) (f n)"
  by (simp add: ring_fill_def)

lemma ring_fill_0 [simp]: "ring_fill ring f 0 m = m"
  by (simp add: ring_fill_def)

lemma ring_fill_other:
  assumes "page_base ring" and "n \<le> 256" and "\<And>i. length (f i) = 16" and "page_no x \<noteq> page_no ring"
  shows "ring_fill ring f n m x = m x"
  using assms(2) by (induction n) (simp_all add: ring_fill_Suc store_other_page assms(1,3,4) del: of_nat_mult)

lemma ring_fill_slot:
  assumes "page_base ring" and "n \<le> 256" and "\<And>i. length (f i) = 16" and "j < 256"
  shows "load_mem (ring_fill ring f n m) (ring + of_nat (16 * j)) 16 =
     (if j < n then f j else load_mem m (ring + of_nat (16 * j)) 16)"
  using assms(2)
proof (induction n)
  case (Suc n)
  show ?case
  proof (cases "j = n")
    case True
    then show ?thesis by (simp add: ring_fill_Suc load_store_same assms(3) del: of_nat_mult)
  next
    case False
    then have "16 * n + 16 \<le> 16 * j \<or> 16 * j + 16 \<le> 16 * n" by linarith
    then have "load_mem (ring_fill ring f (Suc n) m) (ring + of_nat (16 * j)) 16
        = load_mem (ring_fill ring f n m) (ring + of_nat (16 * j)) 16"
      unfolding ring_fill_Suc
      by (intro load_same_page) (use Suc.prems assms in \<open>simp_all add: assms(3)\<close>)
    then show ?thesis using Suc False by (simp del: of_nat_mult)
  qed
qed simp

lemma store_tx_eq:
  "store_tx (e1000_hw e) ring i x d = d\<lparr>nd_mem := store_mem (nd_mem d) (ring + of_nat (16 * i)) (tx_bytes x)\<rparr>"
  by (simp add: store_tx_def algebra_simps)

lemma store_rx_eq:
  "store_rx (e1000_hw e) ring i y d = d\<lparr>nd_mem := store_mem (nd_mem d) (ring + of_nat (16 * i)) (rx_bytes y)\<rparr>"
  by (simp add: store_rx_def algebra_simps)

lemma fold_store_rx:
  "fold (\<lambda>i. store_rx (e1000_hw e) ring i (f i)) xs d =
     d\<lparr>nd_mem := fold (\<lambda>i m. store_mem m (ring + of_nat (16 * i)) (rx_bytes (f i))) xs (nd_mem d)\<rparr>"
  by (induction xs arbitrary: d) (simp_all add: store_rx_def algebra_simps)

lemma fold_store_tx:
  "fold (\<lambda>i. store_tx (e1000_hw e) ring i (f i)) xs d =
     d\<lparr>nd_mem := fold (\<lambda>i m. store_mem m (ring + of_nat (16 * i)) (tx_bytes (f i))) xs (nd_mem d)\<rparr>"
  by (induction xs arbitrary: d) (simp_all add: store_tx_def algebra_simps)

lemma reg64_eq:
  assumes "nd_regs d lo = ucast (x AND 0xFFFFFFFF)" and "nd_regs d hi = ucast (drop_bit 32 x)"
  shows "reg64 d lo hi = x"
proof -
  have m: "(0xFFFFFFFF :: u64) = mask 32" by (simp add: mask_eq_exp_minus_1)
  have "ucast (ucast (x AND 0xFFFFFFFF) :: u32) OR push_bit 32 (ucast (ucast (drop_bit 32 x) :: u32)) = x"
    unfolding m by (rule bit_word_eqI) (auto simp: bit_simps dest!: le_Suc_ex)
  then show ?thesis using assms by (simp add: reg64_def)
qed

lemma nic_bar_update [simp]:
  "nic_bar e (d\<lparr>nd_mem := m\<rparr>) = nic_bar e d" "nic_bar e (set_reg r v d) = nic_bar e d"
  "nic_master e (d\<lparr>nd_mem := m\<rparr>) = nic_master e d" "nic_master e (set_reg r v d) = nic_master e d"
  by (simp_all add: nic_bar_def nic_master_def)

lemma write_reg_plain:
  assumes "base = ne_offset e + nic_bar e d" and "r \<noteq> REG_TDT" and "r \<noteq> REG_TCTL"
  shows "write_reg (e1000_hw e) base r v (a, d) = (Ok (), (a, set_reg r v d))"
  using assms by (simp add: write_reg_def dev_do_apply mmio_write_plain)

lemma write_reg_tx:
  assumes "base = ne_offset e + nic_bar e d" and "r = REG_TDT \<or> r = REG_TCTL"
  shows "write_reg (e1000_hw e) base r v (a, d) = (Ok (), (a, nic_transmit e (set_reg r v d)))"
  using assms by (simp add: write_reg_def dev_do_apply mmio_write_tx)

lemma read_reg_eq:
  assumes "base = ne_offset e + nic_bar e d"
  shows "read_reg (e1000_hw e) base r (a, d) = (Ok (nd_regs d r), (a, d))"
  using assms by (simp add: read_reg_def dev_get_def mmio_read_eq)

lemmas run_regs = io_bind_step [where m = "write_reg hw base r v" for hw base r v, OF write_reg_plain]
  io_bind_step [where m = "write_reg hw base r v" for hw base r v, OF write_reg_tx]
  io_bind_step [where m = "read_reg hw base r" for hw base r, OF read_reg_eq] write_reg_plain write_reg_tx

definition rx_ring_regs :: "u64 \<Rightarrow> nat \<Rightarrow> nic_dev \<Rightarrow> nic_dev" where
  "rx_ring_regs ring n d =
     set_reg REG_RCTL (RCTL_EN OR RCTL_BAM OR RCTL_SECRC) (set_reg REG_RDT (of_nat n) (set_reg REG_RDH 0
       (set_reg REG_RDLEN 128 (set_reg REG_RDBAH (ucast (drop_bit 32 ring)) (set_reg REG_RDBAL (ucast (ring AND 0xFFFFFFFF)) d)))))"

definition rx_ring_mem :: "u64 \<Rightarrow> u64 \<Rightarrow> nat \<Rightarrow> mem \<Rightarrow> mem" where
  "rx_ring_mem ring buf n m =
     ring_fill ring (\<lambda>i. rx_bytes (empty_rx\<lparr>rx_addr := buf + of_nat i * 256\<rparr>)) n
       (ring_fill ring (\<lambda>i. rx_bytes empty_rx) 8 m)"

lemma arm_rx_eq:
  assumes "base = ne_offset e + nic_bar e d"
  shows "arm_rx (e1000_hw e) base ring buf n (a, d) =
     (Ok (), (a, rx_ring_regs ring n (d\<lparr>nd_mem := rx_ring_mem ring buf n (nd_mem d)\<rparr>)))"
  unfolding arm_rx_def NUM_RX_DESCRIPTORS_def RX_SLOT_STRIDE_def
  by (simp add: fold_store_rx run_regs assms rx_ring_regs_def rx_ring_mem_def ring_fill_def e1000_registers)

definition tx_ring_regs :: "u64 \<Rightarrow> nic_dev \<Rightarrow> nic_dev" where
  "tx_ring_regs ring d =
     set_reg REG_TCTL (TCTL_EN OR TCTL_PSP OR TCTL_CT_DEFAULT OR TCTL_COLD_FULL_DUPLEX) (set_reg REG_TIPG TIPG_DEFAULT
       (set_reg REG_TDT 0 (set_reg REG_TDH 0 (set_reg REG_TDLEN 128 (set_reg REG_TDBAH (ucast (drop_bit 32 ring))
          (set_reg REG_TDBAL (ucast (ring AND 0xFFFFFFFF)) (set_reg REG_CTRL (nd_regs d REG_CTRL OR CTRL_SLU) d)))))))"

lemma program_tx_eq:
  assumes "base = ne_offset e + nic_bar e d"
  shows "program_tx (e1000_hw e) base ring (a, d) = (Ok (), (a, tx_ring_regs ring d))"
  unfolding program_tx_def NUM_TX_DESCRIPTORS_def
  by (simp add: run_regs assms tx_ring_regs_def e1000_registers nic_transmit_idle)

section \<open>Sending a frame\<close>

lemma le_bytes64_roundtrip [simp]: "le64 (le_bytes64 x @ ys) = x"
proof -
  have "le64 (le_bytes64 x @ ys) = le64 (le_bytes64 x)"
    unfolding le64_def by (simp add: nth_append)
  then show ?thesis by simp
qed

lemma tx_bytes_fields:
  "le64 (take 8 (tx_bytes x)) = tx_addr x" "le16 (tx_bytes x ! 8) (tx_bytes x ! 9) = tx_length x"
  "tx_bytes x ! 11 = tx_cmd x" "tx_bytes x ! 12 = tx_status x"
proof -
  have "le_bytes64 (tx_addr x) = [le_bytes64 (tx_addr x) ! 0, le_bytes64 (tx_addr x) ! 1, le_bytes64 (tx_addr x) ! 2,
      le_bytes64 (tx_addr x) ! 3, le_bytes64 (tx_addr x) ! 4, le_bytes64 (tx_addr x) ! 5, le_bytes64 (tx_addr x) ! 6, le_bytes64 (tx_addr x) ! 7]"
    by (rule nth_equalityI) (auto simp: less_Suc_eq numeral_eq_Suc)
  then show "le16 (tx_bytes x ! 8) (tx_bytes x ! 9) = tx_length x" "tx_bytes x ! 11 = tx_cmd x" "tx_bytes x ! 12 = tx_status x"
    by (simp_all add: tx_bytes_def nth_append le_bytes16_def le16_def)
  show "le64 (take 8 (tx_bytes x)) = tx_addr x" by (simp add: tx_bytes_def)
qed

lemma slot_offset:
  assumes "k < 8"
  shows "16 * ucast (of_nat k :: u32) = (of_nat (16 * k) :: u64)"
proof -
  have "unat (of_nat k :: u32) = k" using assms by (simp add: unat_of_nat)
  then have "ucast (of_nat k :: u32) = (of_nat k :: u64)"
    using assms by (simp add: word_unat_eq_iff unat_ucast_up unat_of_nat)
  then show ?thesis by simp
qed

lemma slot_next:
  assumes "k < 7"
  shows "(of_nat k + 1) mod (8 :: u32) = of_nat (Suc k)" and "of_nat k \<noteq> (of_nat (Suc k) :: u32)"
proof -
  have u: "unat (of_nat k + 1 :: u32) = Suc k" using assms by (simp add: unat_word_ariths unat_of_nat)
  have uk: "unat (of_nat k :: u32) = k" "unat (of_nat (Suc k) :: u32) = Suc k" using assms by (simp_all add: unat_of_nat del: of_nat_Suc)
  have "unat (8 :: u32) = 8" by simp
  then have "unat ((of_nat k + 1) mod (8 :: u32)) = unat (of_nat (Suc k) :: u32)"
    unfolding unat_mod_distrib u uk using assms by simp
  then show "(of_nat k + 1) mod (8 :: u32) = of_nat (Suc k)" unfolding word_unat_eq_iff .
  show "of_nat k \<noteq> (of_nat (Suc k) :: u32)" using uk by (metis n_not_Suc_n)
qed

definition tx_slot_ready :: "u64 \<Rightarrow> nat \<Rightarrow> u64 \<Rightarrow> bytes \<Rightarrow> nic_dev \<Rightarrow> bool" where
  "tx_slot_ready ring k buf frame d \<longleftrightarrow>
     k < 7 \<and> reg64 d REG_TDBAL REG_TDBAH = ring \<and> nd_regs d REG_TDH = of_nat k \<and> nd_regs d REG_TDLEN = 128
     \<and> load_mem (nd_mem d) (ring + of_nat (16 * k)) 16 = tx_bytes (tx_request buf frame)
     \<and> load_mem (nd_mem d) buf (length frame) = frame \<and> length frame < 65536"

definition transmitted :: "nic_env \<Rightarrow> u64 \<Rightarrow> nat \<Rightarrow> bytes \<Rightarrow> nic_dev \<Rightarrow> nic_dev" where
  "transmitted e ring k frame d =
     set_reg REG_TDH (of_nat (Suc k))
       (d\<lparr>nd_mem := store_mem (nd_mem d) (ring + of_nat (16 * k + 12)) [1], nd_sent := nd_sent d @ [frame],
          nd_inbox := nd_inbox d @ ne_peer e (nd_sent d) frame\<rparr>)"

lemma nic_tx_one_eq:
  assumes "tx_slot_ready ring k buf frame d"
  shows "nic_tx_one e d = transmitted e ring k frame d"
proof -
  note r = assms [unfolded tx_slot_ready_def]
  let ?p = "ring + of_nat (16 * k)"
  have p: "reg64 d REG_TDBAL REG_TDBAH + 16 * ucast (nd_regs d REG_TDH) = ?p" using r slot_offset [of k] by simp
  have len: "unat (tx_length (tx_request buf frame)) = length frame" using r by (simp add: tx_request_def unat_of_nat)
  have addr: "tx_addr (tx_request buf frame) = buf" by (simp add: tx_request_def)
  have cmd: "tx_cmd (tx_request buf frame) AND 8 \<noteq> 0" "tx_status (tx_request buf frame) = 0"
    by (simp_all add: tx_request_def TXD_CMD_EOP_def TXD_CMD_IFCS_def TXD_CMD_RS_def empty_tx_def)
  have regs: "(nd_regs d REG_TDH + 1) mod drop_bit 4 (nd_regs d REG_TDLEN) = of_nat (Suc k)"
    using r slot_next(1) [of k] by (simp add: drop_bit_eq_div)
  have b: "load_mem (nd_mem d) ?p 16 = tx_bytes (tx_request buf frame)" using r by blast
  have f: "load_mem (nd_mem d) buf (length frame) = frame" using r by blast
  have q: "?p + 12 = ring + of_nat (16 * k + 12)" by (simp add: add.assoc)
  show ?thesis
    unfolding nic_tx_one_def p Let_def b tx_bytes_fields len addr f regs transmitted_def q using cmd by simp
qed

lemma transmitted_regs: "nd_regs (transmitted e ring k frame d) = (nd_regs d)(REG_TDH := of_nat (Suc k))"
  by (simp add: transmitted_def)

lemma nic_transmit_one:
  assumes "tx_slot_ready ring k buf frame d" and "nd_regs d REG_TDT = of_nat (Suc k)"
    and "nd_regs d REG_TCTL AND TCTL_EN \<noteq> 0" and "nic_master e d"
  shows "nic_transmit e d = transmitted e ring k frame d"
proof -
  have k: "k < 7" "nd_regs d REG_TDH = of_nat k" "nd_regs d REG_TDLEN = 128" using assms(1) by (auto simp: tx_slot_ready_def)
  have u: "unat (drop_bit 4 (nd_regs d REG_TDLEN)) = Suc (Suc 6)" using k by (simp add: unat_drop_bit)
  have "nd_regs (transmitted e ring k frame d) REG_TDH = nd_regs (transmitted e ring k frame d) REG_TDT"
    using assms(2) by (simp add: transmitted_regs e1000_registers)
  then have "nic_tx_run (Suc (Suc n)) e d = transmitted e ring k frame d" for n
    using assms(2) k(2) slot_next(2) [OF k(1)] nic_tx_one_eq [OF assms(1), of e] by simp
  from this [of 6] show ?thesis using assms(3,4) unfolding nic_transmit_def u by (simp del: nic_tx_run.simps)
qed

definition tx_regs :: "u64 set" where
  "tx_regs = {REG_CTRL, REG_TDBAL, REG_TDBAH, REG_TDLEN, REG_TDH, REG_TDT, REG_TIPG, REG_TCTL}"

lemma tx_enabled: "(TCTL_EN OR TCTL_PSP OR TCTL_CT_DEFAULT OR TCTL_COLD_FULL_DUPLEX) AND TCTL_EN \<noteq> 0"
  by (simp add: TCTL_EN_def TCTL_PSP_def TCTL_CT_DEFAULT_def TCTL_COLD_FULL_DUPLEX_def)

lemma tx_ring_regs_facts:
  "nd_mem (tx_ring_regs ring d) = nd_mem d" "nd_bridge (tx_ring_regs ring d) = nd_bridge d"
  "nd_ticks (tx_ring_regs ring d) = nd_ticks d" "nd_sent (tx_ring_regs ring d) = nd_sent d"
  "nd_inbox (tx_ring_regs ring d) = nd_inbox d" "reg64 (tx_ring_regs ring d) REG_TDBAL REG_TDBAH = ring"
  "nd_regs (tx_ring_regs ring d) REG_TDH = 0" "nd_regs (tx_ring_regs ring d) REG_TDLEN = 128"
  "nd_regs (tx_ring_regs ring d) REG_TDT = 0" "nd_regs (tx_ring_regs ring d) REG_TCTL AND TCTL_EN \<noteq> 0"
  "r \<notin> tx_regs \<Longrightarrow> nd_regs (tx_ring_regs ring d) r = nd_regs d r"
  "nic_bar e (tx_ring_regs ring d) = nic_bar e d" "nic_master e (tx_ring_regs ring d) = nic_master e d"
  using tx_enabled by (simp_all add: tx_ring_regs_def tx_regs_def) (simp_all add: reg64_eq e1000_registers)

lemma reg64_set_reg: "r \<noteq> lo \<Longrightarrow> r \<noteq> hi \<Longrightarrow> reg64 (set_reg r v d) lo hi = reg64 d lo hi"
  by (simp add: reg64_def)

text \<open>The memory when a single request is handed to the card.\<close>

definition tx_single_mem :: "u64 \<Rightarrow> u64 \<Rightarrow> bytes \<Rightarrow> mem \<Rightarrow> mem" where
  "tx_single_mem ring buf frame m =
     store_mem (ring_fill ring (\<lambda>i. tx_bytes empty_tx) 8 (store_mem m buf frame)) ring (tx_bytes (tx_request buf frame))"

lemma load_store_page0:
  assumes "page_base f" "page_base g" "page_no f \<noteq> page_no g" "length bs \<le> 4096" "n \<le> 4096"
  shows "load_mem (store_mem m f bs) g n = load_mem m g n"
  using load_other_page [OF assms(1-3), of 0 bs 0 n m] assms(4,5) by simp

lemma tx_single_mem_facts:
  assumes "page_base ring" "page_base buf" "page_no ring \<noteq> page_no buf" "length frame \<le> 4096"
  shows "load_mem (tx_single_mem ring buf frame m) ring 16 = tx_bytes (tx_request buf frame)"
    and "load_mem (tx_single_mem ring buf frame m) buf (length frame) = frame"
    and "page_no x \<noteq> page_no ring \<Longrightarrow> page_no x \<noteq> page_no buf \<Longrightarrow> tx_single_mem ring buf frame m x = m x"
proof -
  show "load_mem (tx_single_mem ring buf frame m) ring 16 = tx_bytes (tx_request buf frame)"
    by (simp add: tx_single_mem_def load_store_same)
  have fill: "ring_fill ring (\<lambda>i. tx_bytes empty_tx) 8 m' y = m' y" if "page_no y \<noteq> page_no ring" for m' y
    using ring_fill_other [OF assms(1), of 8 "\<lambda>i. tx_bytes empty_tx" y m'] that by simp
  have "load_mem (ring_fill ring (\<lambda>i. tx_bytes empty_tx) 8 (store_mem m buf frame)) buf (length frame)
      = load_mem (store_mem m buf frame) buf (length frame)"
    by (rule nth_equalityI) (use fill page_offset(2) [OF assms(2)] assms(3,4) in simp_all)
  then show "load_mem (tx_single_mem ring buf frame m) buf (length frame) = frame"
    using assms load_store_page0 [OF assms(1-3), of "tx_bytes (tx_request buf frame)" "length frame"]
    by (simp add: tx_single_mem_def load_store_same)
  assume x: "page_no x \<noteq> page_no ring" "page_no x \<noteq> page_no buf"
  then show "tx_single_mem ring buf frame m x = m x"
    using store_other_page [OF assms(1), of 0 "tx_bytes (tx_request buf frame)" x]
      store_other_page [OF assms(2), of 0 frame x] fill assms(4)
    by (simp add: tx_single_mem_def)
qed

lemma send_single_eq:
  assumes "base = ne_offset e + nic_bar e d" and "nic_master e d"
    and "page_base ring" "page_base buf" "page_no ring \<noteq> page_no buf" "length frame \<le> 4096"
  shows "send_single (e1000_hw e) base ring buf frame (a, d) = (Ok (), (a, transmitted e ring 0 frame
     (set_reg REG_TDT 1 (tx_ring_regs ring (d\<lparr>nd_mem := tx_single_mem ring buf frame (nd_mem d)\<rparr>)))))"
proof -
  let ?d = "tx_ring_regs ring (d\<lparr>nd_mem := tx_single_mem ring buf frame (nd_mem d)\<rparr>)"
  have ready: "tx_slot_ready ring 0 buf frame (set_reg REG_TDT 1 ?d)"
    using tx_single_mem_facts(1,2) [OF assms(3-6), of "nd_mem d"] assms(6)
    by (simp add: tx_slot_ready_def tx_ring_regs_facts reg64_set_reg)
  have "nic_transmit e (set_reg REG_TDT 1 ?d) = transmitted e ring 0 frame (set_reg REG_TDT 1 ?d)"
    by (rule nic_transmit_one [OF ready])
      (use assms(2) tx_ring_regs_facts(10) in \<open>simp_all add: tx_ring_regs_facts(13)\<close>)
  moreover have "d\<lparr>nd_mem := store_mem (fold (\<lambda>i m. store_mem m (ring + of_nat (16 * i)) (tx_bytes empty_tx)) [0..<8]
      (store_mem (nd_mem d) buf frame)) ring (tx_bytes (tx_request buf frame))\<rparr> = d\<lparr>nd_mem := tx_single_mem ring buf frame (nd_mem d)\<rparr>"
    by (simp add: tx_single_mem_def ring_fill_def)
  ultimately show ?thesis
    unfolding send_single_def clear_tx_def NUM_TX_DESCRIPTORS_def
    using assms(1) by (simp add: fold_store_tx store_tx_eq io_bind_step [where m = "program_tx hw base r" for hw base r, OF program_tx_eq] write_reg_tx tx_ring_regs_facts)
qed

lemma transmitted_facts:
  "nd_bridge (transmitted e ring k frame d) = nd_bridge d" "nd_ticks (transmitted e ring k frame d) = nd_ticks d"
  "nd_sent (transmitted e ring k frame d) = nd_sent d @ [frame]"
  "nd_inbox (transmitted e ring k frame d) = nd_inbox d @ ne_peer e (nd_sent d) frame"
  "nd_mem (transmitted e ring k frame d) = store_mem (nd_mem d) (ring + of_nat (16 * k + 12)) [1]"
  by (simp_all add: transmitted_def)

section \<open>Waiting and receiving\<close>

lemma wait_tx_done:
  assumes "nd_mem d (ring + of_nat (16 * k + 12)) AND 1 \<noteq> 0"
  shows "wait_tx (e1000_hw e) ring k msg (a, d) = (Ok (), (a, d))"
proof -
  have "ne_offset e + ring + of_nat (16 * k) + 12 - ne_offset e = ring + of_nat (16 * k + 12)" by simp
  then have "tx_turn (e1000_hw e) ring k () (a, d) = (Ok (Leave ()), (a, d))"
    unfolding tx_turn_def using assms by (simp add: TXD_STATUS_DD_def)
  then show ?thesis
    by (simp add: wait_tx_def wait_loop_def timed_loop.simps io_bind_def)
qed

text \<open>What the driver finds in a receive slot.\<close>

definition rx_slot :: "mem \<Rightarrow> u64 \<Rightarrow> u64 \<Rightarrow> nat \<Rightarrow> bytes option" where
  "rx_slot m ring buf k =
     (if m (ring + of_nat (16 * k + 12)) AND 1 = 0 then None
      else Some (load_mem m (buf + of_nat (256 * k))
        (unat (le16 (m (ring + of_nat (16 * k + 8))) (m (ring + of_nat (16 * k + 9)))))))"

lemma poll_rx_eq: "poll_rx (e1000_hw e) ring buf k (a, d) = (Ok (rx_slot (nd_mem d) ring buf k), (a, d))"
proof -
  have "ne_offset e + ring + of_nat (16 * k) + c - ne_offset e = ring + (of_nat (16 * k) + c)" for c by simp
  moreover have "ne_offset e + buf + of_nat k * 256 - ne_offset e = buf + of_nat (256 * k)" by simp
  moreover have "load_mem m x 2 ! 0 = m x" "load_mem m x 2 ! 1 = m (x + 1)" for m x by simp_all
  ultimately show ?thesis
    unfolding poll_rx_def rx_slot_def
    by (simp add: RXD_STAT_DD_def RX_SLOT_STRIDE_def add.assoc mult.commute del: nth_load_mem)
qed

definition rx_open :: "nic_env \<Rightarrow> u64 \<Rightarrow> u64 \<Rightarrow> nat \<Rightarrow> nat \<Rightarrow> nic_dev \<Rightarrow> bool" where
  "rx_open e ring buf k n d \<longleftrightarrow>
     page_base ring \<and> page_base buf \<and> page_no ring \<noteq> page_no buf \<and> nic_master e d
     \<and> reg64 d REG_RDBAL REG_RDBAH = ring \<and> nd_regs d REG_RDLEN = 128 \<and> nd_regs d REG_RDH = of_nat k
     \<and> nd_regs d REG_RDT = of_nat n \<and> nd_regs d REG_RCTL AND RCTL_EN \<noteq> 0 \<and> k \<le> n \<and> n \<le> 7
     \<and> (\<forall>i<n. k \<le> i \<longrightarrow> load_mem (nd_mem d) (ring + of_nat (16 * i)) 16 = rx_bytes (empty_rx\<lparr>rx_addr := buf + of_nat (256 * i)\<rparr>))"

lemma rx_bytes_addr: "le64 (take 8 (rx_bytes x)) = rx_addr x"
  by (simp add: rx_bytes_def)

lemma rx_empty_status: "rx_bytes (empty_rx\<lparr>rx_addr := b\<rparr>) ! 12 = 0"
proof -
  have "le_bytes64 b = [le_bytes64 b ! 0, le_bytes64 b ! 1, le_bytes64 b ! 2, le_bytes64 b ! 3,
      le_bytes64 b ! 4, le_bytes64 b ! 5, le_bytes64 b ! 6, le_bytes64 b ! 7]"
    by (rule nth_equalityI) (auto simp: less_Suc_eq numeral_eq_Suc)
  then show ?thesis by (simp add: rx_bytes_def empty_rx_def le_bytes16_def nth_append)
qed

lemma take_load_mem: "n \<le> k \<Longrightarrow> take n (load_mem m x k) = load_mem m x n"
  by (simp add: load_mem_def take_map)

lemma rx_open_slot:
  assumes "rx_open e ring buf k n d" and "k \<le> i" and "i < n"
  shows "rx_slot (nd_mem d) ring buf i = None"
    and "le64 (load_mem (nd_mem d) (ring + of_nat (16 * i)) 8) = buf + of_nat (256 * i)"
proof -
  have l: "load_mem (nd_mem d) (ring + of_nat (16 * i)) 16 = rx_bytes (empty_rx\<lparr>rx_addr := buf + of_nat (256 * i)\<rparr>)"
    using assms by (simp add: rx_open_def del: of_nat_mult)
  have "load_mem (nd_mem d) (ring + of_nat (16 * i)) 16 ! 12 = nd_mem d (ring + of_nat (16 * i) + of_nat 12)"
    by (rule nth_load_mem) simp
  then have "nd_mem d (ring + of_nat (16 * i + 12)) = 0" unfolding l rx_empty_status by (simp add: add.assoc)
  then show "rx_slot (nd_mem d) ring buf i = None" by (simp add: rx_slot_def)
  have "load_mem (nd_mem d) (ring + of_nat (16 * i)) 8 = take 8 (rx_bytes (empty_rx\<lparr>rx_addr := buf + of_nat (256 * i)\<rparr>))"
    unfolding l [symmetric] by (simp add: take_load_mem)
  then show "le64 (load_mem (nd_mem d) (ring + of_nat (16 * i)) 8) = buf + of_nat (256 * i)"
    by (simp add: rx_bytes_addr del: of_nat_mult)
qed

text \<open>A frame that arrives while slots are open fills the first of them and nothing else.\<close>

definition rx_stored :: "u64 \<Rightarrow> u64 \<Rightarrow> nat \<Rightarrow> bytes \<Rightarrow> mem \<Rightarrow> mem" where
  "rx_stored ring buf k frame m =
     store_mem (store_mem (store_mem m (buf + of_nat (256 * k)) frame)
       (ring + of_nat (16 * k + 8)) (le_bytes16 (of_nat (length frame)))) (ring + of_nat (16 * k + 12)) [3]"

lemma nic_store_frame_eq:
  assumes "rx_open e ring buf k n d" and "k < n"
  shows "nic_store_frame d frame = set_reg REG_RDH (of_nat (Suc k)) (d\<lparr>nd_mem := rx_stored ring buf k frame (nd_mem d)\<rparr>)"
proof -
  note o = assms(1) [unfolded rx_open_def]
  have k: "k < 7" using o assms(2) by simp
  have p: "reg64 d REG_RDBAL REG_RDBAH + 16 * ucast (nd_regs d REG_RDH) = ring + of_nat (16 * k)"
    using o slot_offset [of k] k by simp
  have regs: "(nd_regs d REG_RDH + 1) mod drop_bit 4 (nd_regs d REG_RDLEN) = of_nat (Suc k)"
    using o slot_next(1) [OF k] by (simp add: drop_bit_eq_div)
  have q: "ring + of_nat (16 * k) + 8 = ring + of_nat (16 * k + 8)" "ring + of_nat (16 * k) + 12 = ring + of_nat (16 * k + 12)"
    by (simp_all add: add.assoc)
  show ?thesis
    unfolding nic_store_frame_def p Let_def rx_open_slot(2) [OF assms(1) order_refl assms(2)] regs q rx_stored_def
    by (simp add: RXD_STAT_DD_def RXD_STAT_EOP_def)
qed

lemma rx_stored_other:
  assumes "page_base ring" "page_base buf" "k < 7" "256 * k + length frame \<le> 4096"
    and "page_no x \<noteq> page_no ring" "page_no x \<noteq> page_no buf"
  shows "rx_stored ring buf k frame m x = m x"
  unfolding rx_stored_def using assms by (simp add: store_other_page del: of_nat_mult of_nat_add)

lemma rx_stored_slot:
  assumes "page_base ring" "page_base buf" "page_no ring \<noteq> page_no buf" "k < 7" "256 * k + length frame \<le> 4096"
  shows "rx_slot (rx_stored ring buf k frame m) ring buf k = Some frame"
proof -
  define m1 where "m1 = store_mem m (buf + of_nat (256 * k)) frame"
  define m2 where "m2 = store_mem m1 (ring + of_nat (16 * k + 8)) (le_bytes16 (of_nat (length frame)))"
  have m3: "rx_stored ring buf k frame m = store_mem m2 (ring + of_nat (16 * k + 12)) [3]"
    by (simp add: rx_stored_def m1_def m2_def)
  have "load_mem (store_mem m2 (ring + of_nat (16 * k + 12)) [3]) (ring + of_nat (16 * k + 8)) 2 = load_mem m2 (ring + of_nat (16 * k + 8)) 2"
    by (rule load_same_page [OF assms(1)]) (use assms(4) in simp_all)
  also have "\<dots> = le_bytes16 (of_nat (length frame))"
    unfolding m2_def by (rule load_store_same) simp_all
  finally have l: "load_mem (rx_stored ring buf k frame m) (ring + of_nat (16 * k + 8)) 2 = le_bytes16 (of_nat (length frame))"
    unfolding m3 .
  have st: "rx_stored ring buf k frame m (ring + of_nat (16 * k + 12)) = 3" unfolding m3 by (simp add: store_mem_def)
  have "load_mem (rx_stored ring buf k frame m) (buf + of_nat (256 * k)) (length frame)
     = load_mem m2 (buf + of_nat (256 * k)) (length frame)"
    unfolding m3 by (rule load_other_page [OF assms(1-3)]) (use assms(4,5) in simp_all)
  also have "\<dots> = load_mem m1 (buf + of_nat (256 * k)) (length frame)"
    unfolding m2_def by (rule load_other_page [OF assms(1-3)]) (use assms(4,5) in simp_all)
  also have "\<dots> = frame" unfolding m1_def by (rule load_store_same) (use assms(5) in simp_all)
  finally have f: "load_mem (rx_stored ring buf k frame m) (buf + of_nat (256 * k)) (length frame) = frame" .
  have "load_mem (rx_stored ring buf k frame m) (ring + of_nat (16 * k + 8)) 2
      = [rx_stored ring buf k frame m (ring + of_nat (16 * k + 8)), rx_stored ring buf k frame m (ring + of_nat (16 * k + 9))]"
    by (simp add: load_mem_def upt_rec add.assoc)
  then have "le16 (rx_stored ring buf k frame m (ring + of_nat (16 * k + 8))) (rx_stored ring buf k frame m (ring + of_nat (16 * k + 9)))
      = of_nat (length frame)"
    using l by (simp add: le_bytes16_def le16_def del: of_nat_mult of_nat_add)
      (metis be16_of_bytes be_bytes16_def nth_Cons_0 nth_Cons_Suc)
  moreover have "unat (of_nat (length frame) :: u16) = length frame" using assms(5) by (simp add: unat_of_nat)
  ultimately show ?thesis using st f by (simp add: rx_slot_def del: of_nat_mult of_nat_add)
qed

lemma rx_stored_descriptor:
  assumes "page_base ring" "page_base buf" "page_no ring \<noteq> page_no buf" "k < 7" "256 * k + length frame \<le> 4096" "k < i" "i < 8"
  shows "load_mem (rx_stored ring buf k frame m) (ring + of_nat (16 * i)) 16 = load_mem m (ring + of_nat (16 * i)) 16"
proof -
  have "load_mem (store_mem m (buf + of_nat (256 * k)) frame) (ring + of_nat (16 * i)) 16 = load_mem m (ring + of_nat (16 * i)) 16"
    by (rule load_other_page [OF assms(2,1)]) (use assms in simp_all)
  then show ?thesis
    unfolding rx_stored_def using assms(4,6,7)
    by (subst load_same_page [OF assms(1)]; (simp del: of_nat_mult of_nat_add)?)
      (subst load_same_page [OF assms(1)]; (simp del: of_nat_mult of_nat_add)?)
qed

lemma nic_receive_open:
  assumes "rx_open e ring buf k n d" and "k < n" and "nd_inbox d = frame # rest"
    and "length frame \<le> 2048" and "256 * k + length frame \<le> 4096"
  defines "d' \<equiv> nic_receive e d"
  shows "rx_open e ring buf (Suc k) n d'" and "rx_slot (nd_mem d') ring buf k = Some frame" and "nd_inbox d' = rest"
    and "nd_sent d' = nd_sent d" and "nd_bridge d' = nd_bridge d"
    and "r \<noteq> REG_RDH \<Longrightarrow> nd_regs d' r = nd_regs d r" and "nd_mem d' = rx_stored ring buf k frame (nd_mem d)"
proof -
  note o = assms(1) [unfolded rx_open_def]
  have k: "k < 7" using o assms(2) by simp
  have ne: "nd_regs d REG_RDH \<noteq> nd_regs d REG_RDT"
  proof -
    have "unat (of_nat k :: u32) = k" "unat (of_nat n :: u32) = n" using o k by (simp_all add: unat_of_nat)
    then show ?thesis using o assms(2) by (metis less_irrefl)
  qed
  have "rx_open e ring buf k n (d\<lparr>nd_inbox := rest\<rparr>)"
    using o by (simp add: rx_open_def reg64_def nic_master_def)
  then have eq: "d' = set_reg REG_RDH (of_nat (Suc k)) (d\<lparr>nd_inbox := rest, nd_mem := rx_stored ring buf k frame (nd_mem d)\<rparr>)"
    unfolding d'_def using o ne assms(2-4) nic_store_frame_eq [of e ring buf k n "d\<lparr>nd_inbox := rest\<rparr>" frame]
    by (simp add: nic_receive_def Let_def)
  then show m: "nd_mem d' = rx_stored ring buf k frame (nd_mem d)" by simp
  show "rx_slot (nd_mem d') ring buf k = Some frame"
    unfolding m by (rule rx_stored_slot) (use o k assms(5) in auto)
  show "nd_inbox d' = rest" "nd_sent d' = nd_sent d" "nd_bridge d' = nd_bridge d" by (simp_all add: eq)
  show "r \<noteq> REG_RDH \<Longrightarrow> nd_regs d' r = nd_regs d r" by (simp add: eq)
  have "load_mem (nd_mem d') (ring + of_nat (16 * i)) 16 = load_mem (nd_mem d) (ring + of_nat (16 * i)) 16" if "Suc k \<le> i" "i < n" for i
    unfolding m by (rule rx_stored_descriptor) (use o k assms(5) that in auto)
  moreover have "nic_master e d' = nic_master e d" by (rule nic_master_conf) (simp add: eq nic_conf_def)
  ultimately show "rx_open e ring buf (Suc k) n d'"
    using o assms(2) by (simp add: rx_open_def reg64_def del: of_nat_mult) (simp add: eq)
qed

lemma rx_enabled: "(RCTL_EN OR RCTL_BAM OR RCTL_SECRC) AND RCTL_EN \<noteq> 0"
  by (simp add: RCTL_EN_def RCTL_BAM_def RCTL_SECRC_def)

lemma rx_ring_regs_facts:
  "nd_mem (rx_ring_regs ring n d) = nd_mem d" "nd_bridge (rx_ring_regs ring n d) = nd_bridge d"
  "nd_ticks (rx_ring_regs ring n d) = nd_ticks d" "nd_sent (rx_ring_regs ring n d) = nd_sent d"
  "nd_inbox (rx_ring_regs ring n d) = nd_inbox d" "reg64 (rx_ring_regs ring n d) REG_RDBAL REG_RDBAH = ring"
  "nd_regs (rx_ring_regs ring n d) REG_RDH = 0" "nd_regs (rx_ring_regs ring n d) REG_RDLEN = 128"
  "nd_regs (rx_ring_regs ring n d) REG_RDT = of_nat n" "nd_regs (rx_ring_regs ring n d) REG_RCTL AND RCTL_EN \<noteq> 0"
  "nd_regs (rx_ring_regs ring n d) REG_RAL0 = nd_regs d REG_RAL0" "nd_regs (rx_ring_regs ring n d) REG_RAH0 = nd_regs d REG_RAH0"
  "nic_bar e (rx_ring_regs ring n d) = nic_bar e d" "nic_master e (rx_ring_regs ring n d) = nic_master e d"
  using rx_enabled by (simp_all add: rx_ring_regs_def) (simp add: reg64_eq)

lemma armed_open:
  assumes "page_base ring" "page_base buf" "page_no ring \<noteq> page_no buf" "nic_master e d" "n \<le> 7"
  shows "rx_open e ring buf 0 n (rx_ring_regs ring n (d\<lparr>nd_mem := rx_ring_mem ring buf n (nd_mem d)\<rparr>))"
proof -
  have "load_mem (rx_ring_mem ring buf n (nd_mem d)) (ring + of_nat (16 * i)) 16
      = rx_bytes (empty_rx\<lparr>rx_addr := buf + of_nat (256 * i)\<rparr>)" if "i < n" for i
    unfolding rx_ring_mem_def using that assms(5)
    by (subst ring_fill_slot [OF assms(1)]) (simp_all add: mult.commute)
  then show ?thesis using assms by (simp add: rx_open_def rx_ring_regs_facts del: of_nat_mult)
qed

lemma rx_open_cong:
  assumes "rx_open e ring buf k n d" and "nd_bridge d' = nd_bridge d"
    and "\<And>r. r \<in> {REG_RDBAL, REG_RDBAH, REG_RDLEN, REG_RDH, REG_RDT, REG_RCTL} \<Longrightarrow> nd_regs d' r = nd_regs d r"
    and "\<And>x. page_no x = page_no ring \<Longrightarrow> nd_mem d' x = nd_mem d x"
  shows "rx_open e ring buf k n d'"
proof -
  have "load_mem (nd_mem d') (ring + of_nat (16 * i)) 16 = load_mem (nd_mem d) (ring + of_nat (16 * i)) 16" if "i < 8" for i
  proof (rule nth_equalityI)
    fix j assume "j < length (load_mem (nd_mem d') (ring + of_nat (16 * i)) 16)"
    then have j: "j < 16" by simp
    have "page_no (ring + of_nat (16 * i + j)) = page_no ring"
      using assms(1) that j by (intro page_offset(2)) (auto simp: rx_open_def)
    then have "page_no (ring + of_nat (16 * i) + of_nat j) = page_no ring" by (simp add: add.assoc)
    then show "load_mem (nd_mem d') (ring + of_nat (16 * i)) 16 ! j = load_mem (nd_mem d) (ring + of_nat (16 * i)) 16 ! j"
      using assms(4) j by (simp del: of_nat_mult)
  qed simp
  moreover have "nic_master e d' = nic_master e d" by (rule nic_master_conf [OF nic_conf_cong [OF assms(2)]])
  ultimately show ?thesis
    using assms(1,3) by (simp add: rx_open_def reg64_def del: of_nat_mult)
qed

text \<open>The state in which the driver starts to wait for an answer.\<close>

lemma exchange_started:
  assumes base: "base = ne_offset e + nic_bar e d" and master: "nic_master e d" and fr: "has_frames a (4 + n)"
    and frame: "length frame \<le> 4096"
  obtains d' where "exchange (e1000_hw e) base frame msg accept (a, d) =
       wait_loop (e1000_hw e) (rx_turn (e1000_hw e) base (granted a 0) (granted a 1) accept) ()
         (a\<lparr>next_frame := next_frame a + 4\<rparr>, d')"
    and "rx_open e (granted a 0) (granted a 1) 0 1 d'" and "nd_sent d' = nd_sent d @ [frame]"
    and "nd_inbox d' = nd_inbox d @ ne_peer e (nd_sent d) frame" and "nd_bridge d' = nd_bridge d"
    and "nd_regs d' REG_RAL0 = nd_regs d REG_RAL0" and "nd_regs d' REG_RAH0 = nd_regs d REG_RAH0"
proof -
  let ?rr = "granted a 0" and ?rb = "granted a 1" and ?tr = "granted a 2" and ?tb = "granted a 3"
  let ?a = "a\<lparr>next_frame := next_frame a + 4\<rparr>"
  have pb: "page_base ?rr" "page_base ?rb" "page_base ?tr" "page_base ?tb" using granted_page(1) [OF fr] by simp_all
  note nd = granted_distinct [OF fr]
  define d1 where "d1 = rx_ring_regs ?rr 1 (d\<lparr>nd_mem := rx_ring_mem ?rr ?rb 1 (nd_mem d)\<rparr>)"
  have arm: "arm_rx (e1000_hw e) base ?rr ?rb 1 (?a, d) = (Ok (), (?a, d1))" unfolding d1_def by (rule arm_rx_eq [OF base])
  define d2 where "d2 = transmitted e ?tr 0 frame
     (set_reg REG_TDT 1 (tx_ring_regs ?tr (d1\<lparr>nd_mem := tx_single_mem ?tr ?tb frame (nd_mem d1)\<rparr>)))"
  have b1: "base = ne_offset e + nic_bar e d1" "nic_master e d1" using base master by (simp_all add: d1_def rx_ring_regs_facts)
  have send: "send_single (e1000_hw e) base ?tr ?tb frame (?a, d1) = (Ok (), (?a, d2))"
    unfolding d2_def by (rule send_single_eq [OF b1]) (use pb nd frame in simp_all)
  have tx: "wait_tx (e1000_hw e) ?tr 0 msg (?a, d2) = (Ok (), (?a, d2))"
    by (rule wait_tx_done) (simp add: d2_def transmitted_facts store_mem_def)
  have open1: "rx_open e ?rr ?rb 0 1 d1" unfolding d1_def by (rule armed_open) (use pb nd master in simp_all)
  have mem: "nd_mem d2 x = nd_mem d1 x" if "page_no x = page_no ?rr" for x
    using that nd [of 0 2] nd [of 0 3] store_other_page [OF pb(3), of 12 "[1]" x] tx_single_mem_facts(3) [OF pb(3,4) _ frame, of x] nd [of 2 3]
    by (simp add: d2_def transmitted_facts tx_ring_regs_facts)
  have "rx_open e ?rr ?rb 0 1 d2"
    by (rule rx_open_cong [OF open1])
      (use mem in \<open>auto simp: d2_def transmitted_facts transmitted_regs tx_ring_regs_facts tx_regs_def\<close>)
  moreover have "exchange (e1000_hw e) base frame msg accept (a, d) =
       wait_loop (e1000_hw e) (rx_turn (e1000_hw e) base ?rr ?rb accept) () (?a, d2)"
    unfolding exchange_def allocate_four [OF fr] using arm send tx by (simp add: io_bind_def)
  ultimately show ?thesis
    by (intro that [of d2])
      (simp_all add: d2_def d1_def transmitted_facts transmitted_regs tx_ring_regs_facts rx_ring_regs_facts tx_regs_def)
qed

lemma exchange_answered:
  assumes base: "base = ne_offset e + nic_bar e d" and master: "nic_master e d" and fr: "has_frames a (4 + n)"
    and frame: "length frame \<le> 4096" and inbox: "nd_inbox d = []"
    and peer: "ne_peer e (nd_sent d) frame = reply # rest" and len: "length reply \<le> 2048"
    and acc: "accept reply = Ok (Some r)"
  shows "\<exists>d'. exchange (e1000_hw e) base frame msg accept (a, d) = (Ok (Some r), (a\<lparr>next_frame := next_frame a + 4\<rparr>, d'))
     \<and> nd_sent d' = nd_sent d @ [frame] \<and> nd_inbox d' = rest \<and> nd_bridge d' = nd_bridge d
     \<and> nd_regs d' REG_RAL0 = nd_regs d REG_RAL0 \<and> nd_regs d' REG_RAH0 = nd_regs d REG_RAH0"
proof -
  let ?rr = "granted a 0" and ?rb = "granted a 1" and ?a = "a\<lparr>next_frame := next_frame a + 4\<rparr>"
  obtain d1 where d1: "exchange (e1000_hw e) base frame msg accept (a, d) =
       wait_loop (e1000_hw e) (rx_turn (e1000_hw e) base ?rr ?rb accept) () (?a, d1)"
    and op: "rx_open e ?rr ?rb 0 1 d1" and s1: "nd_sent d1 = nd_sent d @ [frame]" "nd_inbox d1 = reply # rest"
      "nd_bridge d1 = nd_bridge d" "nd_regs d1 REG_RAL0 = nd_regs d REG_RAL0" "nd_regs d1 REG_RAH0 = nd_regs d REG_RAH0"
    using exchange_started [OF base master fr frame] inbox peer by auto
  let ?body = "rx_turn (e1000_hw e) base ?rr ?rb accept"
  let ?d2 = "cpu_hlt (e1000_hw e) d1"
  have hold: "?body () (?a, d1) = (Ok (Hold ()), (?a, d1))"
    using rx_open_slot(1) [OF op, of 0] by (simp add: rx_turn_def io_bind_def poll_rx_eq)
  note rcv = nic_receive_open [OF op _ s1(2) len]
  have "rx_slot (nd_mem ?d2) ?rr ?rb 0 = Some reply" using rcv(2) len by simp
  then have leave: "?body () (?a, ?d2) = (Ok (Leave r), (?a, ?d2))"
    using acc by (simp add: rx_turn_def io_bind_def poll_rx_eq)
  have "timed_loop (e1000_hw e) ?body (nd_ticks d1) () (?a, d1) = Some (Ok (Some r), (?a, ?d2))"
    using timed_loop_hold [where body = ?body and hw = "e1000_hw e" and start = "nd_ticks d1", OF hold]
      timed_loop_leave [where body = ?body and hw = "e1000_hw e" and start = "nd_ticks d1", OF leave] by simp
  then have "exchange (e1000_hw e) base frame msg accept (a, d) = (Ok (Some r), (?a, ?d2))"
    unfolding d1 by (simp add: wait_loop_def)
  then show ?thesis using rcv(3-6) s1 len by auto
qed

section \<open>Bringing the card up\<close>

interpretation nic_pci: config_device "e1000_hw e" "\<lambda>d. hb_conf (nd_bridge d)" hb_writable
    "\<lambda>d. (nd_mem d, nd_regs d, nd_ticks d, nd_sent d, nd_inbox d)" for e
  by unfold_locales (auto simp: e1000_hw_def bridge_ports_def hb_reg_def hb_decode_select)

lemma only_bridge:
  fixes d :: nic_dev
  shows "(nd_mem d', nd_regs d', nd_ticks d', nd_sent d', nd_inbox d') = (nd_mem d, nd_regs d, nd_ticks d, nd_sent d, nd_inbox d)
     \<Longrightarrow> d' = d\<lparr>nd_bridge := nd_bridge d'\<rparr>"
  by (cases d; cases d') simp

text \<open>The card is the first e1000 on the bus, with a memory BAR.\<close>

definition nic_found :: "nic_env \<Rightarrow> nic_dev \<Rightarrow> bool" where
  "nic_found e d \<longleftrightarrow> ne_device e < 32 \<and> ne_function e < 8 \<and> nic_conf e d 4 AND 1 = 0
     \<and> first_match (\<lambda>x. vendor_id x = E1000_VENDOR_ID \<and> device_id x = E1000_DEVICE_ID) (hb_conf (nd_bridge d))
       = Some (pci_function_at (hb_conf (nd_bridge d)) (ne_device e) (ne_function e))"

definition nic_mac :: "nic_dev \<Rightarrow> bytes" where
  "nic_mac d = (let ral0 = nd_regs d REG_RAL0; rah0 = nd_regs d REG_RAH0 in
     [ucast ral0, ucast (drop_bit 8 ral0), ucast (drop_bit 16 ral0), ucast (drop_bit 24 ral0), ucast rah0, ucast (drop_bit 8 rah0)])"

lemma length_nic_mac [simp]: "length (nic_mac d) = 6"
  by (simp add: nic_mac_def Let_def)

lemma find_mmio_base_run:
  assumes "nic_found e d"
  obtains b where "find_mmio_base (e1000_hw e) (a, d) =
      (Ok (pci_function_at (hb_conf (nd_bridge d)) (ne_device e) (ne_function e), ne_offset e + nic_bar e d), (a, d\<lparr>nd_bridge := b\<rparr>))"
    and "hb_conf b = hb_conf (nd_bridge d)"
proof -
  let ?c = "hb_conf (nd_bridge d)" let ?dev = "pci_function_at ?c (ne_device e) (ne_function e)"
  note f = assms [unfolded nic_found_def]
  obtain devs d1 d2 where r: "scan_bus0 (e1000_hw e) d = (devs, d1)"
      "find (\<lambda>x. vendor_id x = E1000_VENDOR_ID \<and> device_id x = E1000_DEVICE_ID) devs = Some ?dev"
      "read_bar0 (e1000_hw e) ?dev d1 = (?c 0 (ne_device e) (ne_function e) 4, d2)" "hb_conf (nd_bridge d2) = ?c"
      "(nd_mem d2, nd_regs d2, nd_ticks d2, nd_sent d2, nd_inbox d2) = (nd_mem d, nd_regs d, nd_ticks d, nd_sent d, nd_inbox d)"
    by (rule nic_pci.find_device_law [of _ d "ne_device e" "ne_function e" e]) (use f in auto)
  have "find_mmio_base (e1000_hw e) (a, d) = (Ok (?dev, ne_offset e + nic_bar e d), (a, d2))"
    unfolding find_mmio_base_def find_e1000_def io_bind_assoc
    using f r(1-3) by (simp add: nic_bar_def nic_conf_def)
  then show ?thesis using that [of "nd_bridge d2"] r(4) only_bridge [OF r(5)] by metis
qed

lemma bring_up_run:
  assumes "nic_found e d"
  obtains b where "bring_up (e1000_hw e) (a, d) = (Ok (ne_offset e + nic_bar e d, nic_mac d), (a, d\<lparr>nd_bridge := b\<rparr>))"
    and "nic_master e (d\<lparr>nd_bridge := b\<rparr>)" and "nic_bar e (d\<lparr>nd_bridge := b\<rparr>) = nic_bar e d"
    and "nic_found e (d\<lparr>nd_bridge := b\<rparr>)"
proof -
  let ?c = "hb_conf (nd_bridge d)" let ?dev = "pci_function_at ?c (ne_device e) (ne_function e)"
  note f = assms [unfolded nic_found_def]
  obtain b1 where b1: "find_mmio_base (e1000_hw e) (a, d) = (Ok (?dev, ne_offset e + nic_bar e d), (a, d\<lparr>nd_bridge := b1\<rparr>))"
      "hb_conf b1 = ?c"
    using find_mmio_base_run [OF assms] by metis
  let ?d = "enable_bus_mastering (e1000_hw e) ?dev (d\<lparr>nd_bridge := b1\<rparr>)"
  have w: "bit (hb_writable 0 (ne_device e) (ne_function e) 1) 2" by (simp add: hb_writable_def)
  have c: "hb_conf (nd_bridge ?d) = with_master ?c (ne_device e) (ne_function e)"
    using nic_pci.enable_device_law(1) [of "ne_device e" "ne_function e" e ?c "d\<lparr>nd_bridge := b1\<rparr>"] f w b1(2) by simp
  have d: "?d = d\<lparr>nd_bridge := nd_bridge ?d\<rparr>"
    by (rule only_bridge) (use nic_pci.enable_device_law(2) [of "ne_device e" "ne_function e" e ?c "d\<lparr>nd_bridge := b1\<rparr>"] f w in simp)
  define b where "b = nd_bridge ?d"
  have b: "?d = d\<lparr>nd_bridge := b\<rparr>" "hb_conf b = with_master ?c (ne_device e) (ne_function e)"
    unfolding b_def by (fact d, fact c)
  have bar: "nic_bar e (d\<lparr>nd_bridge := b\<rparr>) = nic_bar e d" by (simp add: nic_bar_def nic_conf_def b(2) with_master_same)
  have "nic_found e (d\<lparr>nd_bridge := b\<rparr>)" using f by (simp add: nic_found_def nic_conf_def b(2) with_master_same)
  moreover have "nic_master e (d\<lparr>nd_bridge := b\<rparr>)"
    by (simp add: nic_master_def nic_conf_def b(2) with_master_def and.commute [of _ 4] bit.conj_disj_distrib)
  moreover have "bring_up (e1000_hw e) (a, d) = (Ok (ne_offset e + nic_bar e d, nic_mac d), (a, d\<lparr>nd_bridge := b\<rparr>))"
    unfolding bring_up_def io_bind_step [where m = "find_mmio_base (e1000_hw e)", OF b1(1)]
    using b(1) bar by (simp add: read_mac_def io_bind_assoc run_regs nic_mac_def Let_def ucast_and_mask8)
  ultimately show ?thesis using that bar by blast
qed

end
