(* ===== verification/E1000_Net.thy ===== *)
theory E1000_Net
  imports E1000_Link
begin

text \<open>
  The protocol functions of \<^verbatim>\<open>net/e1000.rs\<close> end to end: on the card of \<open>E1000_Link\<close>, with a peer that
  answers as the protocols prescribe, address resolution, ping, the TCP handshake and name resolution
  return what the peer said, and exactly the frames of the protocol have been sent.
\<close>

section \<open>The functions on a connected card\<close>

definition link_ready :: "nic_env \<Rightarrow> boot_info_frame_allocator \<Rightarrow> nat \<Rightarrow> nic_dev \<Rightarrow> bool" where
  "link_ready e a n d \<longleftrightarrow> nic_found e d \<and> nd_inbox d = [] \<and> has_frames a n"

lemma nic_mac_cong: "nd_regs d' REG_RAL0 = nd_regs d REG_RAL0 \<Longrightarrow> nd_regs d' REG_RAH0 = nd_regs d REG_RAH0 \<Longrightarrow> nic_mac d' = nic_mac d"
  by (simp add: nic_mac_def)

lemma nic_found_cong: "nd_bridge d' = nd_bridge d \<Longrightarrow> nic_found e d' = nic_found e d"
  by (simp add: nic_found_def nic_conf_def)

text \<open>Bringing the card up and making one round trip with it.\<close>

lemma round_trip:
  assumes ready: "link_ready e a (4 + n) d" and frame: "length frame \<le> 4096"
    and peer: "ne_peer e (nd_sent d) frame = [reply]" and len: "length reply \<le> 2048"
    and acc: "accept reply = Ok (Some r)"
  obtains base d1 a' d' where "bring_up (e1000_hw e) (a, d) = (Ok (base, nic_mac d), (a, d1))"
    and "exchange (e1000_hw e) base frame msg accept (a, d1) = (Ok (Some r), (a', d'))"
    and "link_ready e a' n d'" and "nd_sent d' = nd_sent d @ [frame]" and "nic_mac d' = nic_mac d"
proof -
  have f: "nic_found e d" "nd_inbox d = []" and fr: "has_frames a (4 + n)" using ready by (auto simp: link_ready_def)
  let ?base = "ne_offset e + nic_bar e d"
  obtain b where b: "bring_up (e1000_hw e) (a, d) = (Ok (?base, nic_mac d), (a, d\<lparr>nd_bridge := b\<rparr>))"
      "nic_master e (d\<lparr>nd_bridge := b\<rparr>)" "nic_bar e (d\<lparr>nd_bridge := b\<rparr>) = nic_bar e d" "nic_found e (d\<lparr>nd_bridge := b\<rparr>)"
    using bring_up_run [OF f(1)] by metis
  let ?d = "d\<lparr>nd_bridge := b\<rparr>" and ?a = "a\<lparr>next_frame := next_frame a + 4\<rparr>"
  obtain d' where d': "exchange (e1000_hw e) ?base frame msg accept (a, ?d) = (Ok (Some r), (?a, d'))"
      "nd_sent d' = nd_sent d @ [frame]" "nd_inbox d' = []" "nd_bridge d' = nd_bridge ?d"
      "nd_regs d' REG_RAL0 = nd_regs d REG_RAL0" "nd_regs d' REG_RAH0 = nd_regs d REG_RAH0"
    using exchange_answered [of ?base e ?d a n frame reply "[]" accept r msg] b(2,3) fr frame f(2) peer len acc by auto
  have "link_ready e ?a n d'"
    using b(4) d'(3) nic_found_cong [OF d'(4), of e] has_frames_next [of a 4 n] fr by (simp add: link_ready_def)
  then show ?thesis using that b(1) d'(1,2) nic_mac_cong [OF d'(5,6)] by blast
qed

lemma arp_resolve_answered:
  assumes "link_ready e a (4 + n) d" and "length ip = 4" and "length mac = 6" and "length pad \<le> 2006"
    and "ne_peer e (nd_sent d) (arp_request (nic_mac d) ip) = [arp_reply (nic_mac d) mac ip @ pad]"
  obtains a' d' where "arp_resolve (e1000_hw e) ip (a, d) = (Ok mac, (a', d'))"
    and "link_ready e a' n d'" and "nd_sent d' = nd_sent d @ [arp_request (nic_mac d) ip]" and "nic_mac d' = nic_mac d"
proof -
  let ?r = "arp_reply (nic_mac d) mac ip @ pad"
  have l: "length ?r \<le> 2048" "28 \<le> length ?r" "length (arp_request (nic_mac d) ip) \<le> 4096"
    using assms(2-4) by (simp_all add: arp_reply_def)
  have acc: "arp_accept ip ?r = Ok (Some mac)"
    using arp_reply_matches [of "nic_mac d" mac ip pad] assms(2,3) l(2) by (simp add: arp_accept_def)
  obtain base d1 a' d' where r: "bring_up (e1000_hw e) (a, d) = (Ok (base, nic_mac d), (a, d1))"
    "exchange (e1000_hw e) base (arp_request (nic_mac d) ip) ''arp_resolve: TX timed out waiting for descriptor DD'' (arp_accept ip) (a, d1)
       = (Ok (Some mac), (a', d'))"
    "link_ready e a' n d'" "nd_sent d' = nd_sent d @ [arp_request (nic_mac d) ip]" "nic_mac d' = nic_mac d"
    using round_trip [where accept = "arp_accept ip", OF assms(1) l(3) assms(5) l(1) acc] by metis
  have "arp_resolve (e1000_hw e) ip (a, d) = (Ok mac, (a', d'))"
    unfolding arp_resolve_def using r(1,2) by (simp add: io_bind_def)
  then show ?thesis using that r(3-5) by blast
qed

text \<open>A request that needs the address of its destination first.\<close>

lemma resolved_round_trip:
  assumes ready: "link_ready e a (8 + n) d" and ip: "length ip = 4" "length mac = 6" "length pad \<le> 2006"
    and arp: "ne_peer e (nd_sent d) (arp_request (nic_mac d) ip) = [arp_reply (nic_mac d) mac ip @ pad]"
    and frame: "length frame \<le> 4096"
    and peer: "ne_peer e (nd_sent d @ [arp_request (nic_mac d) ip]) frame = [reply]" and len: "length reply \<le> 2048"
    and acc: "accept reply = Ok (Some r)"
  obtains a1 d1 base d2 a' d' where "arp_resolve (e1000_hw e) ip (a, d) = (Ok mac, (a1, d1))"
    and "bring_up (e1000_hw e) (a1, d1) = (Ok (base, nic_mac d), (a1, d2))"
    and "exchange (e1000_hw e) base frame msg accept (a1, d2) = (Ok (Some r), (a', d'))"
    and "link_ready e a' n d'" and "nd_sent d' = nd_sent d @ [arp_request (nic_mac d) ip, frame]" and "nic_mac d' = nic_mac d"
proof -
  have "link_ready e a (4 + (4 + n)) d" using ready by (simp add: numeral_eq_Suc)
  from arp_resolve_answered [OF this ip arp]
  obtain a1 d1 where s1: "arp_resolve (e1000_hw e) ip (a, d) = (Ok mac, (a1, d1))" "link_ready e a1 (4 + n) d1"
    "nd_sent d1 = nd_sent d @ [arp_request (nic_mac d) ip]" "nic_mac d1 = nic_mac d" .
  from round_trip [where accept = accept and msg = msg, OF s1(2) frame peer [folded s1(3)] len acc]
  obtain base d2 a' d' where "bring_up (e1000_hw e) (a1, d1) = (Ok (base, nic_mac d1), (a1, d2))"
    "exchange (e1000_hw e) base frame msg accept (a1, d2) = (Ok (Some r), (a', d'))"
    "link_ready e a' n d'" "nd_sent d' = nd_sent d1 @ [frame]" "nic_mac d' = nic_mac d1" .
  then show ?thesis using that s1 by simp
qed

lemma length_ip_frame: "length dm = 6 \<Longrightarrow> length sm = 6 \<Longrightarrow> length src = 4 \<Longrightarrow> length dst = 4 \<Longrightarrow>
    length (ip_frame dm sm p src dst body) = 34 + length body"
  by (rule ip_frame_fields(1))

text \<open>
  C10: \<^verbatim>\<open>ping\<close> from the PCI scan to the echo reply. If the host at the address answers the ARP
  request with its hardware address and the echo request with an echo reply (with any data that fits and
  any zero padding of the frame), then \<^verbatim>\<open>ping\<close> succeeds; exactly the ARP request and the echo request
  for that hardware address have been sent, and the card is ready for the next function.
\<close>

theorem ping_answered:
  assumes ready: "link_ready e a (8 + n) d" and ip: "length ip = 4" "length mac = 6" "length pad \<le> 2006"
    and arp: "ne_peer e (nd_sent d) (arp_request (nic_mac d) ip) = [arp_reply (nic_mac d) mac ip @ pad]"
    and peer: "ne_peer e (nd_sent d @ [arp_request (nic_mac d) ip]) (ping_frame mac (nic_mac d) ip) =
      [ip_frame (nic_mac d) mac 1 ip SRC_IP (build_icmp_echo True PING_IDENTIFIER PING_SEQUENCE data) @ replicate k 0]"
    and len: "length data + k \<le> 2006"
  shows "\<exists>a' d'. ping (e1000_hw e) ip (a, d) = (Ok (), (a', d')) \<and> link_ready e a' n d'
     \<and> nd_sent d' = nd_sent d @ [arp_request (nic_mac d) ip, ping_frame mac (nic_mac d) ip]"
proof -
  let ?reply = "ip_frame (nic_mac d) mac 1 ip SRC_IP (build_icmp_echo True PING_IDENTIFIER PING_SEQUENCE data) @ replicate k 0"
  have lens: "length (ping_frame mac (nic_mac d) ip) \<le> 4096" "length ?reply \<le> 2048"
    using ip len by (simp_all add: ping_frame_eq length_ip_frame build_icmp_echo_bytes ping_payload_def)
  have acc: "ping_accept ip ?reply = Ok (Some ())"
    using ping_reply_accepted [of "nic_mac d" mac ip data k True PING_IDENTIFIER PING_SEQUENCE] ip len by (simp add: ping_accept_def)
  from resolved_round_trip [where accept = "ping_accept ip" and msg = "''ping: TX timed out waiting for descriptor DD''",
      OF ready ip arp lens(1) peer lens(2) acc]
  obtain a1 d1 base d2 a' d' where "arp_resolve (e1000_hw e) ip (a, d) = (Ok mac, (a1, d1))"
    "bring_up (e1000_hw e) (a1, d1) = (Ok (base, nic_mac d), (a1, d2))"
    "exchange (e1000_hw e) base (ping_frame mac (nic_mac d) ip) ''ping: TX timed out waiting for descriptor DD'' (ping_accept ip) (a1, d2)
       = (Ok (Some ()), (a', d'))"
    "link_ready e a' n d'" "nd_sent d' = nd_sent d @ [arp_request (nic_mac d) ip, ping_frame mac (nic_mac d) ip]" .
  then show ?thesis by (auto simp: ping_def io_bind_def)
qed



lemma build_query_ok:
  "valid_hostname h \<Longrightarrow> build_query tid h 1 = Ok (query_header tid @ wire_name (split_dot h) Root @ [0, 1, 0, 1])"
  using encode_qname_spec [of h "query_header tid"] by (auto simp: build_query_eq be_bytes16_def)

text \<open>
  C8: \<^verbatim>\<open>resolve_hostname\<close> from the PCI scan to the address. For a valid host name, if the name server
  answers the ARP request and the query with a reply that carries the transaction identifier, the QR bit and an
  answer section of well-formed records, the first A record of which has four bytes, then the result
  is this address; exactly the ARP request and the query for the name have been sent.
\<close>

theorem resolve_hostname_answered:
  fixes h :: bytes
  defines "query \<equiv> query_header DNS_TRANSACTION_ID @ wire_name (split_dot h) Root @ [0, 1, 0, 1]"
  assumes ready: "link_ready e a (8 + n) d" and ip: "length ip = 4" "length mac = 6" "length pad \<le> 2006"
    and name: "valid_hostname h"
    and arp: "ne_peer e (nd_sent d) (arp_request (nic_mac d) ip) = [arp_reply (nic_mac d) mac ip @ pad]"
    and peer: "ne_peer e (nd_sent d @ [arp_request (nic_mac d) ip]) (dns_frame mac (nic_mac d) ip query) =
      [ip_frame (nic_mac d) mac 17 ip SRC_IP (build_udp_header ip SRC_IP 53 45678 msg @ msg) @ pad']"
    and msg: "msg = hdr @ drop 12 query @ concat (map wire_answer rs) @ post"
    and hdr: "length hdr = 12" "sub hdr 0 2 = be_bytes16 DNS_TRANSACTION_ID" "hdr ! 2 AND 0x80 \<noteq> 0"
      "be16 (hdr ! 6) (hdr ! 7) = of_nat k"
    and rs: "0 < k" "k < 65536" "k \<le> length rs" "list_all valid_answer rs"
    and rec: "first_rdata 1 (take k rs) = Some addr" "length addr = 4"
    and len: "length msg + length pad' \<le> 2006"
  shows "\<exists>a' d'. resolve_hostname (e1000_hw e) h ip (a, d) = (Ok addr, (a', d')) \<and> link_ready e a' n d'
     \<and> nd_sent d' = nd_sent d @ [arp_request (nic_mac d) ip, dns_frame mac (nic_mac d) ip query]"
proof -
  let ?f = "dns_frame mac (nic_mac d) ip query"
  let ?reply = "ip_frame (nic_mac d) mac 17 ip SRC_IP (build_udp_header ip SRC_IP 53 45678 msg @ msg) @ pad'"
  have ql: "length query \<le> 271" using name by (simp add: query_def valid_hostname_def)
  have lens: "length ?f \<le> 4096" "length ?reply \<le> 2048"
    using ip len ql by (simp_all add: dns_frame_eq length_ip_frame build_udp_header_bytes)
  have "unat (of_nat k :: u16) = k" using rs(2) by (simp add: unat_of_nat)
  then have nz: "of_nat k \<noteq> (0 :: u16)" using rs(1) by (metis unat_0 less_irrefl)
  have q: "length query - 12 = length (drop 12 query)" by simp
  have "parse_first_a_record msg (length query - 12) = Ok addr"
    unfolding parse_first_a_record_def msg q
    using find_first_record_rdata_wire [OF hdr(1,4) rs, of "drop 12 query" post 1] rec by simp
  then have acc: "dns_reply ?reply ip query = Ok (Some (True, of_nat k, Some addr))"
    using dns_reply_built [OF _ ip(2,1) _ hdr(1,2), of "nic_mac d" "drop 12 query @ concat (map wire_answer rs) @ post" pad' query]
      hdr(3,4) nz len by (simp add: msg)
  from resolved_round_trip [where accept = "\<lambda>data. dns_reply data ip query" and msg = "''dns_query_test: TX timed out waiting for descriptor DD''",
      OF ready ip arp lens(1) peer lens(2) acc]
  obtain a1 d1 base d2 a' d' where "arp_resolve (e1000_hw e) ip (a, d) = (Ok mac, (a1, d1))"
    "bring_up (e1000_hw e) (a1, d1) = (Ok (base, nic_mac d), (a1, d2))"
    "exchange (e1000_hw e) base ?f ''dns_query_test: TX timed out waiting for descriptor DD'' (\<lambda>data. dns_reply data ip query) (a1, d2)
       = (Ok (Some (True, of_nat k, Some addr)), (a', d'))"
    "link_ready e a' n d'" "nd_sent d' = nd_sent d @ [arp_request (nic_mac d) ip, ?f]" .
  moreover have "build_query DNS_TRANSACTION_ID h 1 = Ok query" unfolding query_def by (rule build_query_ok [OF name])
  ultimately show ?thesis by (auto simp: resolve_hostname_def dns_query_test_def io_bind_def)
qed

section \<open>Waiting in vain\<close>

lemma loop_times_out:
  assumes hold: "\<And>d. P d \<Longrightarrow> body () (a, d) = (Ok (Hold ()), (a, d))" and keep: "\<And>d. P d \<Longrightarrow> P (cpu_hlt (e1000_hw e) d)"
    and "P d" and "nd_ticks d = start + of_nat t" and "t \<le> 91"
  shows "\<exists>d'. timed_loop (e1000_hw e) body start () (a, d) = Some (Ok None, (a, d')) \<and> nd_bridge d' = nd_bridge d"
  using assms(3-5)
proof (induction "91 - t" arbitrary: t d)
  case 0
  then have "t = 91" by simp
  then have "90 < nd_ticks d - start" using 0 by (simp add: word_less_nat_alt unat_of_nat)
  then show ?case using timed_loop_hold [of body "()" "(a, d)" "()" a d "e1000_hw e" start, OF hold [OF 0(2)]] by auto
next
  case (Suc k)
  have "unat (of_nat t :: u64) = t" using Suc.prems(3) by (simp add: unat_of_nat)
  then have "\<not> 90 < nd_ticks d - start" using Suc by (simp add: word_less_nat_alt)
  then have "timed_loop (e1000_hw e) body start () (a, d) = timed_loop (e1000_hw e) body start () (a, cpu_hlt (e1000_hw e) d)"
    using timed_loop_hold [of body "()" "(a, d)" "()" a d "e1000_hw e" start, OF hold [OF Suc.prems(1)]] by simp
  moreover have "nd_ticks (cpu_hlt (e1000_hw e) d) = start + of_nat (Suc t)" using Suc.prems(2) by simp
  moreover have "nd_bridge (cpu_hlt (e1000_hw e) d) = nd_bridge d"
    by (simp add: nic_receive_def nic_store_frame_def Let_def split: list.splits)
  ultimately show ?case using Suc.hyps(1) [of "Suc t" "cpu_hlt (e1000_hw e) d"] keep [OF Suc.prems(1)] Suc.hyps(2) Suc.prems(3) by simp
qed

text \<open>
  Once the single descriptor has been used, head and tail are equal and the card accepts nothing more;
  writing the same tail again does not change that.
\<close>

definition rx_closed :: "u64 \<Rightarrow> u64 \<Rightarrow> nic_dev \<Rightarrow> bool" where
  "rx_closed ring buf d \<longleftrightarrow> rx_slot (nd_mem d) ring buf 0 = None \<and> nd_regs d REG_RDH = nd_regs d REG_RDT"

lemma rx_closed_hlt: "rx_closed ring buf d \<Longrightarrow> rx_closed ring buf (cpu_hlt (e1000_hw e) d)"
  by (simp add: rx_closed_def nic_receive_def split: list.splits)

lemma rx_closed_hold: "rx_closed ring buf d \<Longrightarrow> rx_turn hw' base ring buf accept () (a, d) = (Ok (Hold ()), (a, d))" if "hw' = e1000_hw e"
  using that by (simp add: rx_closed_def rx_turn_def io_bind_def poll_rx_eq)

lemma exchange_other_first:
  assumes base: "base = ne_offset e + nic_bar e d" and master: "nic_master e d" and fr: "has_frames a (4 + n)"
    and frame: "length frame \<le> 4096" and inbox: "nd_inbox d = []"
    and peer: "ne_peer e (nd_sent d) frame = other # rest" and len: "length other \<le> 2048"
    and acc: "accept other = Ok None"
  shows "\<exists>a' d'. exchange (e1000_hw e) base frame msg accept (a, d) = (Ok None, (a', d')) \<and> nd_bridge d' = nd_bridge d"
proof -
  let ?rr = "granted a 0" and ?rb = "granted a 1" and ?a = "a\<lparr>next_frame := next_frame a + 4\<rparr>"
  obtain d1 where d1: "exchange (e1000_hw e) base frame msg accept (a, d) =
       wait_loop (e1000_hw e) (rx_turn (e1000_hw e) base ?rr ?rb accept) () (?a, d1)"
    and op: "rx_open e ?rr ?rb 0 1 d1" and s1: "nd_inbox d1 = other # rest" "nd_bridge d1 = nd_bridge d"
    using exchange_started [where msg = msg and accept = accept, OF base master fr frame] inbox peer by (metis append_Nil)
  let ?body = "rx_turn (e1000_hw e) base ?rr ?rb accept" and ?hw = "e1000_hw e"
  let ?d2 = "cpu_hlt ?hw d1"
  have hold: "?body () (?a, d1) = (Ok (Hold ()), (?a, d1))"
    using rx_open_slot(1) [OF op, of 0] by (simp add: rx_turn_def io_bind_def poll_rx_eq)
  note rcv = nic_receive_open [OF op _ s1(1) len]
  have slot: "rx_slot (nd_mem ?d2) ?rr ?rb 0 = Some other" and op2: "rx_open e ?rr ?rb 1 1 (nic_receive e d1)" using rcv(1,2) len by simp_all
  have b2: "nd_bridge ?d2 = nd_bridge d" using rcv(5) len s1(2) by simp
  then have base2: "base = ne_offset e + nic_bar e ?d2" using base nic_bar_conf [OF nic_conf_cong, of ?d2 d e] by simp
  define d3 where "d3 = set_reg REG_RDT 1 (?d2\<lparr>nd_mem := store_mem (nd_mem ?d2) ?rr (rx_bytes (empty_rx\<lparr>rx_addr := ?rb\<rparr>))\<rparr>)"
  have again: "?body () (?a, ?d2) = (Ok (Hold ()), (?a, d3))"
    using acc slot base2 unfolding d3_def
    by (simp add: rx_turn_def io_bind_def poll_rx_eq dev_do_apply store_rx_eq write_reg_plain del: e1000_hw_simps(5))
  have "load_mem (nd_mem d3) ?rr 16 = rx_bytes (empty_rx\<lparr>rx_addr := ?rb\<rparr>)" unfolding d3_def by (simp add: load_store_same)
  moreover have "load_mem (nd_mem d3) ?rr 16 ! 12 = nd_mem d3 (?rr + of_nat 12)" by (rule nth_load_mem) simp
  ultimately have "nd_mem d3 (?rr + 12) = 0" using rx_empty_status [of ?rb] by simp
  then have closed: "rx_closed ?rr ?rb d3"
    using op2 by (simp add: rx_closed_def rx_slot_def d3_def rx_open_def)
  have t3: "nd_ticks d3 = nd_ticks d1 + of_nat 1" "nd_bridge d3 = nd_bridge d" using b2 by (simp_all add: d3_def)
  have "timed_loop ?hw ?body (nd_ticks d1) () (?a, d1) = timed_loop ?hw ?body (nd_ticks d1) () (?a, ?d2)"
    using timed_loop_hold [where body = ?body and hw = ?hw and start = "nd_ticks d1", OF hold] by simp
  also have "\<dots> = timed_loop ?hw ?body (nd_ticks d1) () (?a, cpu_hlt ?hw d3)"
    using timed_loop_hold [where body = ?body and hw = ?hw and start = "nd_ticks d1", OF again] t3 by simp
  also have "\<dots> = timed_loop ?hw ?body (nd_ticks d1) () (?a, d3)"
    using timed_loop_hold [where body = ?body and hw = ?hw and start = "nd_ticks d1", OF rx_closed_hold [OF refl closed]] t3 by simp
  finally have "timed_loop ?hw ?body (nd_ticks d1) () (?a, d1) = timed_loop ?hw ?body (nd_ticks d1) () (?a, d3)" .
  moreover obtain d4 where "timed_loop ?hw ?body (nd_ticks d1) () (?a, d3) = Some (Ok None, (?a, d4))" "nd_bridge d4 = nd_bridge d3"
    using loop_times_out [where P = "rx_closed ?rr ?rb" and body = ?body, OF rx_closed_hold [OF refl] rx_closed_hlt closed t3(1)] by auto
  ultimately show ?thesis unfolding d1 wait_loop_def using t3(2) by simp
qed

text \<open>
  C34: Address resolution does not survive an unrelated frame. If any other frame arrives before the
  answer, \<^verbatim>\<open>arp_resolve\<close> times out whatever arrives afterwards, the right answer included:
  the descriptor is armed again, but writing the value 1 to the tail register, which it already has, while the
  head is 1 as well leaves the ring without a free descriptor.
\<close>

theorem arp_second_frame_lost:
  assumes ready: "link_ready e a (4 + n) d" and ip: "length ip = 4"
    and peer: "ne_peer e (nd_sent d) (arp_request (nic_mac d) ip) = other # rest" and len: "length other \<le> 2048"
    and other: "\<not> is_matching_reply other ip"
  shows "fst (arp_resolve (e1000_hw e) ip (a, d)) = Err ''arp_resolve: timed out waiting for a matching ARP reply''"
proof -
  have f: "nic_found e d" "nd_inbox d = []" and fr: "has_frames a (4 + n)" using ready by (auto simp: link_ready_def)
  let ?base = "ne_offset e + nic_bar e d"
  obtain b where b: "bring_up (e1000_hw e) (a, d) = (Ok (?base, nic_mac d), (a, d\<lparr>nd_bridge := b\<rparr>))"
      "nic_master e (d\<lparr>nd_bridge := b\<rparr>)" "nic_bar e (d\<lparr>nd_bridge := b\<rparr>) = nic_bar e d"
    using bring_up_run [OF f(1)] by metis
  let ?d = "d\<lparr>nd_bridge := b\<rparr>" and ?msg = "''arp_resolve: TX timed out waiting for descriptor DD''"
  have acc: "arp_accept ip other = Ok None" using other by (simp add: arp_accept_def)
  obtain a' d' where x: "exchange (e1000_hw e) ?base (arp_request (nic_mac d) ip) ?msg (arp_accept ip) (a, ?d) = (Ok None, (a', d'))"
    and bd: "nd_bridge d' = nd_bridge ?d"
    using exchange_other_first [where msg = ?msg and accept = "arp_accept ip", of ?base e ?d a n "arp_request (nic_mac d) ip" other rest]
      b(2,3) fr ip f(2) peer len acc by auto
  have "?base = ne_offset e + nic_bar e d'" using nic_bar_conf [OF nic_conf_cong [OF bd]] b(3) by simp
  then show ?thesis
    unfolding arp_resolve_def using b(1) x by (simp add: io_bind_def read_reg_eq)
qed

section \<open>A network to try it on\<close>

text \<open>The card of a virtual machine: device 3, its registers at 0xFEBC0000, the address 52:54:00:12:34:56.\<close>

definition demo_env :: "(bytes list \<Rightarrow> bytes \<Rightarrow> bytes list) \<Rightarrow> nic_env" where
  "demo_env peer = \<lparr>ne_device = 3, ne_function = 0, ne_offset = 0x18000000000, ne_peer = peer\<rparr>"

definition demo_dev :: nic_dev where
  "demo_dev = \<lparr>nd_mem = (\<lambda>_. 0), nd_regs = (\<lambda>r. if r = REG_RAL0 then 0x12005452 else if r = REG_RAH0 then 0x80005634 else 0),
     nd_bridge = one_nic, nd_ticks = 0, nd_sent = [], nd_inbox = []\<rparr>"

definition demo_alloc :: boot_info_frame_allocator where
  "demo_alloc = frame_allocator_init [\<lparr>mr_start = 0x100000, mr_end = 0x108000, mr_usable = True\<rparr>]"

definition our_mac :: bytes where "our_mac = [0x52, 0x54, 0x00, 0x12, 0x34, 0x56]"
definition host_mac :: bytes where "host_mac = [0x52, 0x55, 0x0A, 0x00, 0x02, 0x02]"
definition host_ip :: bytes where "host_ip = [10, 0, 2, 2]"

text \<open>A host that answers the first frame with its address and the following ones with the given frames.\<close>

definition host :: "bytes list list \<Rightarrow> bytes list \<Rightarrow> bytes \<Rightarrow> bytes list" where
  "host answers hist frame = (if hist = [] then [arp_reply our_mac host_mac host_ip] else answers ! (length hist - 1))"

lemma demo_mac [simp]: "nic_mac demo_dev = our_mac"
  by (simp add: nic_mac_def demo_dev_def our_mac_def REG_RAL0_def REG_RAH0_def)

lemma demo_ready: "link_ready (demo_env peer) demo_alloc 8 demo_dev"
proof -
  have al: "page_aligned \<lparr>mr_start = 0x100000, mr_end = 0x108000, mr_usable = True\<rparr>" by (simp add: page_aligned_def)
  have "usable_frames demo_alloc = map (\<lambda>i. 0x100000 + i * 4096) [0..<8]"
    using usable_frames_eq [of demo_alloc] al
    by (simp add: demo_alloc_def frame_allocator_init_def region_frames_def del: upt_rec_numeral)
  then have "has_frames demo_alloc 8"
    by (auto simp: has_frames_def demo_alloc_def frame_allocator_init_def distinct_map inj_on_def dvd_add simp del: upt_rec_numeral)
  moreover have "nic_found (demo_env peer) demo_dev"
    unfolding nic_found_def demo_dev_def nic_dev.simps first_match_def one_nic_slots
    by (simp add: demo_env_def nic_conf_def pci_function_at_def one_nic_def E1000_VENDOR_ID_def E1000_DEVICE_ID_def)
  ultimately show ?thesis by (simp add: link_ready_def demo_dev_def)
qed

lemma demo_sent [simp]: "nd_sent demo_dev = []" "ne_peer (demo_env peer) = peer" by (simp_all add: demo_dev_def demo_env_def)

lemma demo_lengths [simp]: "length our_mac = 6" "length host_mac = 6" "length host_ip = 4"
  by (simp_all add: our_mac_def host_mac_def host_ip_def)

definition echo_reply_frame :: "bytes \<Rightarrow> bytes" where
  "echo_reply_frame data = ip_frame our_mac host_mac 1 host_ip SRC_IP (build_icmp_echo True PING_IDENTIFIER PING_SEQUENCE data) @ replicate 5 0"

theorem ping_answered_witness:
  "\<exists>s. ping (e1000_hw (demo_env (host [[echo_reply_frame [1, 2, 3]]]))) host_ip (demo_alloc, demo_dev) = (Ok (), s)"
  using ping_answered [of "demo_env (host [[echo_reply_frame [1, 2, 3]]])" demo_alloc 0 demo_dev host_ip host_mac "[]" "[1, 2, 3]" 5]
    demo_ready by (auto simp: host_def echo_reply_frame_def)



theorem arp_second_frame_lost_witness:
  "fst (arp_resolve (e1000_hw (demo_env (\<lambda>hist frame. [[1, 2, 3], arp_reply our_mac host_mac host_ip]))) host_ip (demo_alloc, demo_dev))
   = Err ''arp_resolve: timed out waiting for a matching ARP reply''"
  using arp_second_frame_lost [of "demo_env (\<lambda>hist frame. [[1, 2, 3], arp_reply our_mac host_mac host_ip])" demo_alloc 4 demo_dev host_ip
      "[1, 2, 3]" "[arp_reply our_mac host_mac host_ip]"] demo_ready
  by (auto simp: is_matching_reply_def)

definition demo_query :: bytes where
  "demo_query = query_header DNS_TRANSACTION_ID @ wire_name [[0x61], [0x62, 0x63]] Root @ [0, 1, 0, 1]"

definition demo_answers :: "answer list" where
  "demo_answers = [\<lparr>a_labels = [], a_end = Pointer 0xC0 12, a_type = 5, a_class = 1, a_ttl = 60, a_rdata = [1, 0x62, 0]\<rparr>,
     \<lparr>a_labels = [[0x62]], a_end = Root, a_type = 1, a_class = 1, a_ttl = 60, a_rdata = [93, 184, 216, 34]\<rparr>]"

definition demo_reply :: bytes where
  "demo_reply = (be_bytes16 DNS_TRANSACTION_ID @ [0x81, 0x80, 0, 1, 0, 2, 0, 0, 0, 0]) @ drop 12 demo_query @ concat (map wire_answer demo_answers) @ []"

definition demo_answer_frame :: bytes where
  "demo_answer_frame = ip_frame our_mac host_mac 17 host_ip SRC_IP (build_udp_header host_ip SRC_IP 53 45678 demo_reply @ demo_reply) @ [9]"

theorem resolve_hostname_answered_witness:
  "\<exists>s. resolve_hostname (e1000_hw (demo_env (host [[demo_answer_frame]]))) [0x61, 0x2E, 0x62, 0x63] host_ip (demo_alloc, demo_dev)
     = (Ok [93, 184, 216, 34], s)"
proof -
  let ?h = "[0x61, 0x2E, 0x62, 0x63]" and ?hdr = "be_bytes16 DNS_TRANSACTION_ID @ [0x81, 0x80, 0, 1, 0, 2, 0, 0, 0, 0]"
  have v: "valid_hostname ?h" by (simp add: valid_hostname_def valid_label_def)
  have q: "query_header DNS_TRANSACTION_ID @ wire_name (split_dot ?h) Root @ [0, 1, 0, 1] = demo_query" by (simp add: demo_query_def)
  have rs: "list_all valid_answer demo_answers" "first_rdata 1 (take 2 demo_answers) = Some [93, 184, 216, 34]" "length demo_answers = 2"
    by (simp_all add: demo_answers_def valid_answer_def valid_label_def first_rdata_def)
  have hdr: "length ?hdr = 12" "sub ?hdr 0 2 = be_bytes16 DNS_TRANSACTION_ID" "?hdr ! 2 AND 0x80 \<noteq> 0" "be16 (?hdr ! 6) (?hdr ! 7) = of_nat 2"
    by (simp_all add: be_bytes16_def be16_def sub_def)
  have l: "length demo_reply + length [9 :: u8] \<le> 2006"
    by (simp add: demo_reply_def demo_query_def demo_answers_def wire_answer_def be_bytes16_def)
  have f: "ne_peer (demo_env (host [[demo_answer_frame]])) (nd_sent demo_dev @ [arp_request our_mac host_ip]) x = [demo_answer_frame]" for x
    by (simp add: host_def)
  have a: "ne_peer (demo_env (host [[demo_answer_frame]])) (nd_sent demo_dev) x = [arp_reply our_mac host_mac host_ip @ []]" for x
    by (simp add: host_def)
  show ?thesis
    using resolve_hostname_answered [of "demo_env (host [[demo_answer_frame]])" demo_alloc 0 demo_dev host_ip host_mac "[]" ?h demo_reply "[9]"
        ?hdr demo_answers "[]" 2 "[93, 184, 216, 34]", unfolded demo_mac q] demo_ready v rs hdr l f a
    unfolding demo_answer_frame_def demo_reply_def by auto
qed

end
