(* ===== verification/E1000_Echo.thy ===== *)
theory E1000_Echo
  imports E1000_Net
begin

text \<open>
  \<^verbatim>\<open>tcp_echo_test\<close> on the card: a TCP connection from the handshake over one data segment and its echo
  to the close, with the sequence numbers of both sides.
\<close>

section \<open>Several transmit slots\<close>

definition tx_open :: "nic_env \<Rightarrow> u64 \<Rightarrow> u64 \<Rightarrow> nat \<Rightarrow> nic_dev \<Rightarrow> bool" where
  "tx_open e ring buf k d \<longleftrightarrow> page_base ring \<and> page_base buf \<and> page_no ring \<noteq> page_no buf \<and> nic_master e d
     \<and> reg64 d REG_TDBAL REG_TDBAH = ring \<and> nd_regs d REG_TDH = of_nat k \<and> nd_regs d REG_TDLEN = 128
     \<and> nd_regs d REG_TCTL AND TCTL_EN \<noteq> 0"

definition sent_step :: "nic_env \<Rightarrow> u64 \<Rightarrow> u64 \<Rightarrow> bytes \<Rightarrow> nic_dev \<Rightarrow> nic_dev \<Rightarrow> bool" where
  "sent_step e ring buf frame d d' \<longleftrightarrow>
     nd_sent d' = nd_sent d @ [frame] \<and> nd_inbox d' = nd_inbox d @ ne_peer e (nd_sent d) frame
     \<and> nd_ticks d' = nd_ticks d \<and> nd_bridge d' = nd_bridge d
     \<and> (\<forall>r. r \<noteq> REG_TDH \<and> r \<noteq> REG_TDT \<longrightarrow> nd_regs d' r = nd_regs d r)
     \<and> (\<forall>x. page_no x \<noteq> page_no ring \<and> page_no x \<noteq> page_no buf \<longrightarrow> nd_mem d' x = nd_mem d x)"

lemma send_and_wait_run:
  assumes op: "tx_open e ring buf k d" and base: "base = ne_offset e + nic_bar e d" and k: "k < 7"
    and len: "256 * k + length frame \<le> 4096"
  obtains d' where "send_and_wait (e1000_hw e) base ring buf k frame (a, d) = (Ok (), (a, d'))"
    and "tx_open e ring buf (Suc k) d'" and "sent_step e ring buf frame d d'"
proof -
  note o = op [unfolded tx_open_def]
  let ?b = "buf + of_nat (256 * k)"
  define m where "m = store_mem (store_mem (nd_mem d) ?b frame) (ring + of_nat (16 * k)) (tx_bytes (tx_request ?b frame))"
  define d1 where "d1 = set_reg REG_TDT (of_nat (Suc k)) (d\<lparr>nd_mem := m\<rparr>)"
  have desc: "load_mem m (ring + of_nat (16 * k)) 16 = tx_bytes (tx_request ?b frame)"
    unfolding m_def by (rule load_store_same) simp_all
  have "load_mem m ?b (length frame) = load_mem (store_mem (nd_mem d) ?b frame) ?b (length frame)"
    unfolding m_def by (rule load_other_page) (use o k len in simp_all)
  then have dat: "load_mem m ?b (length frame) = frame" using len by (simp add: load_store_same del: of_nat_mult)
  have ready: "tx_slot_ready ring k ?b frame d1"
    using o k len desc dat by (simp add: tx_slot_ready_def d1_def reg64_set_reg reg64_def del: of_nat_mult)
  have tx: "nic_transmit e d1 = transmitted e ring k frame d1"
    by (rule nic_transmit_one [OF ready]) (use o in \<open>simp_all add: d1_def del: of_nat_Suc\<close>)
  let ?d' = "transmitted e ring k frame d1"
  have w: "wait_tx (e1000_hw e) ring k msg (a, ?d') = (Ok (), (a, ?d'))" for msg
    by (rule wait_tx_done) (simp add: transmitted_facts store_mem_def del: of_nat_mult of_nat_add)
  have e1: "set_reg REG_TDT (1 + of_nat k) (d\<lparr>nd_mem := store_mem (store_mem (nd_mem d) (buf + 256 * of_nat k) frame)
      (ring + 16 * of_nat k) (tx_bytes (tx_request (buf + 256 * of_nat k) frame))\<rparr>) = d1"
    by (simp add: d1_def m_def)
  have "send_and_wait (e1000_hw e) base ring buf k frame (a, d) = (Ok (), (a, ?d'))"
    unfolding send_and_wait_def TX_SLOT_STRIDE_def using base tx w
    by (simp add: store_tx_eq run_regs e1 mult.commute [of _ 256])
  moreover have "tx_open e ring buf (Suc k) ?d'"
    using o by (simp add: tx_open_def transmitted_def d1_def reg64_def nic_master_def nic_conf_def)
  moreover have "nd_mem ?d' x = nd_mem d x" if "page_no x \<noteq> page_no ring" "page_no x \<noteq> page_no buf" for x
    using that o k len
    by (simp add: transmitted_facts d1_def m_def store_other_page del: of_nat_mult of_nat_add)
  then have "sent_step e ring buf frame d ?d'"
    by (simp add: sent_step_def transmitted_facts transmitted_regs) (simp add: d1_def)
  ultimately show ?thesis by (rule that)
qed

section \<open>Several receive slots\<close>

definition got_step :: "u64 \<Rightarrow> u64 \<Rightarrow> nic_dev \<Rightarrow> nic_dev \<Rightarrow> bool" where
  "got_step ring buf d d' \<longleftrightarrow>
     nd_sent d' = nd_sent d \<and> nd_bridge d' = nd_bridge d
     \<and> (\<forall>r. r \<noteq> REG_RDH \<longrightarrow> nd_regs d' r = nd_regs d r)
     \<and> (\<forall>x. page_no x \<noteq> page_no ring \<and> page_no x \<noteq> page_no buf \<longrightarrow> nd_mem d' x = nd_mem d x)"

lemma got_step_trans: "got_step ring buf d1 d2 \<Longrightarrow> got_step ring buf d2 d3 \<Longrightarrow> got_step ring buf d1 d3"
  by (simp add: got_step_def)

lemma hlt_fills_slot:
  assumes "rx_open e ring buf k 7 d" and "k < 7" and "nd_inbox d = f # fs" and "length f \<le> 2048"
  defines "d' \<equiv> cpu_hlt (e1000_hw e) d"
  shows "rx_open e ring buf (Suc k) 7 d'" and "rx_slot (nd_mem d') ring buf k = Some f" and "nd_inbox d' = fs"
    and "nd_ticks d' = nd_ticks d + 1" and "got_step ring buf d d'"
proof -
  have l: "256 * k + length f \<le> 4096" using assms(2,4) by linarith
  note r = nic_receive_open [OF assms(1-4) l]
  have pb: "page_base ring" "page_base buf" using assms(1) by (simp_all add: rx_open_def)
  show "rx_open e ring buf (Suc k) 7 d'"
    using r(1) by (simp add: d'_def rx_open_def reg64_def nic_master_def)
  show "rx_slot (nd_mem d') ring buf k = Some f" "nd_inbox d' = fs" "nd_ticks d' = nd_ticks d + 1"
    using r(2,3) by (simp_all add: d'_def)
  show "got_step ring buf d d'"
    using r(4-7) rx_stored_other [OF pb assms(2) l] by (simp add: got_step_def d'_def)
qed

text \<open>A loop over the slots passes the frames its body does not take.\<close>

lemma slot_wait:
  assumes "body k (a, d) = (Ok (Hold k), (a, d))" and "nd_ticks d = start + of_nat t" and "t < 80"
  shows "timed_loop (e1000_hw e) body start k (a, d) = timed_loop (e1000_hw e) body start k (a, cpu_hlt (e1000_hw e) d)"
proof -
  have "unat (of_nat t :: u64) = t" using assms(3) by (simp add: unat_of_nat)
  then have "\<not> 90 < nd_ticks d - start" using assms(2,3) by (simp add: word_less_nat_alt)
  then show ?thesis
    using timed_loop_hold [where hw = "e1000_hw e" and start = start and body = body, OF assms(1)] by simp
qed

lemma slots_skip:
  assumes hold: "\<And>j d. j < 7 \<Longrightarrow> rx_slot (nd_mem d) ring buf j = None \<Longrightarrow> body j (a, d) = (Ok (Hold j), (a, d))"
    and skip: "\<And>j d m. j < 7 \<Longrightarrow> rx_slot (nd_mem d) ring buf j = Some m \<Longrightarrow> m \<in> set mid \<Longrightarrow> body j (a, d) = (Ok (Continue (Suc j)), (a, d))"
    and "rx_open e ring buf k 7 d" and "nd_inbox d = mid @ f # fs" and "\<forall>m \<in> set (mid @ [f]). length m \<le> 2048"
    and "k + length mid < 7" and "nd_ticks d = start + of_nat t" and "t + length mid < 80"
  shows "\<exists>d'. timed_loop (e1000_hw e) body start k (a, d) = timed_loop (e1000_hw e) body start (k + length mid) (a, d')
     \<and> rx_open e ring buf (Suc (k + length mid)) 7 d' \<and> rx_slot (nd_mem d') ring buf (k + length mid) = Some f
     \<and> nd_inbox d' = fs \<and> got_step ring buf d d'"
  using skip assms(3-8)
proof (induction mid arbitrary: k t d)
  case (Cons m mid)
  have k: "k < 7" using Cons.prems(5) by simp
  let ?d = "cpu_hlt (e1000_hw e) d"
  have h: "timed_loop (e1000_hw e) body start k (a, d) = timed_loop (e1000_hw e) body start k (a, ?d)"
    by (rule slot_wait [where body = body, OF hold [OF k rx_open_slot(1) [OF Cons.prems(2) order_refl k]] Cons.prems(6)]) (use Cons.prems(7) in simp)
  have i: "nd_inbox d = m # mid @ f # fs" "length m \<le> 2048" using Cons.prems by simp_all
  note fill = hlt_fills_slot [OF Cons.prems(2) k i]
  have "timed_loop (e1000_hw e) body start k (a, ?d) = timed_loop (e1000_hw e) body start (Suc k) (a, ?d)"
    by (rule timed_loop_continue, rule Cons.prems(1) [OF k fill(2)]) simp
  moreover have "\<exists>d'. timed_loop (e1000_hw e) body start (Suc k) (a, ?d) = timed_loop (e1000_hw e) body start (Suc k + length mid) (a, d')
     \<and> rx_open e ring buf (Suc (Suc k + length mid)) 7 d' \<and> rx_slot (nd_mem d') ring buf (Suc k + length mid) = Some f
     \<and> nd_inbox d' = fs \<and> got_step ring buf ?d d'"
    by (rule Cons.IH [where t = "Suc t"]) (use Cons.prems fill in \<open>auto simp del: e1000_hw_simps\<close>)
  ultimately show ?case using h got_step_trans [OF fill(5)] by (auto simp del: e1000_hw_simps)
next
  case Nil
  have k: "k < 7" using Nil.prems(5) by simp
  have "timed_loop (e1000_hw e) body start k (a, d) = timed_loop (e1000_hw e) body start k (a, cpu_hlt (e1000_hw e) d)"
    by (rule slot_wait [where body = body, OF hold [OF k rx_open_slot(1) [OF Nil.prems(2) order_refl k]] Nil.prems(6)]) (use Nil.prems(7) in simp)
  then show ?case using hlt_fills_slot [OF Nil.prems(2) k, of f fs] Nil.prems by (auto simp del: e1000_hw_simps)
qed

section \<open>A connection\<close>

text \<open>
  The state between two phases: the next receive slot is \<open>k\<close>, the next transmit slot is \<open>j\<close>, and no
  frame is on its way.
\<close>

record conn_pages =
  cp_rx_ring :: u64
  cp_rx_buf :: u64
  cp_tx_ring :: u64
  cp_tx_buf :: u64

definition conn :: "nic_env \<Rightarrow> conn_pages \<Rightarrow> u64 \<Rightarrow> nat \<Rightarrow> nat \<Rightarrow> nic_dev \<Rightarrow> bool" where
  "conn e p base k j d \<longleftrightarrow> rx_open e (cp_rx_ring p) (cp_rx_buf p) k 7 d \<and> tx_open e (cp_tx_ring p) (cp_tx_buf p) j d
     \<and> base = ne_offset e + nic_bar e d
     \<and> page_no (cp_rx_ring p) \<noteq> page_no (cp_tx_ring p) \<and> page_no (cp_rx_ring p) \<noteq> page_no (cp_tx_buf p)"

lemma conn_send:
  assumes c: "conn e p base k j d" and j: "j < 7" and len: "length frame \<le> 2048"
  obtains d' where "send_and_wait (e1000_hw e) base (cp_tx_ring p) (cp_tx_buf p) j frame (a, d) = (Ok (), (a, d'))"
    and "conn e p base k (Suc j) d'" and "nd_sent d' = nd_sent d @ [frame]"
    and "nd_inbox d' = nd_inbox d @ ne_peer e (nd_sent d) frame" and "nd_bridge d' = nd_bridge d"
    and "nd_regs d' REG_RAL0 = nd_regs d REG_RAL0" and "nd_regs d' REG_RAH0 = nd_regs d REG_RAH0"
proof -
  note c' = c [unfolded conn_def]
  have l: "256 * j + length frame \<le> 4096" using j len by linarith
  from c' have op: "tx_open e (cp_tx_ring p) (cp_tx_buf p) j d" and base: "base = ne_offset e + nic_bar e d" by auto
  from send_and_wait_run [OF op base j l]
  obtain d' where d': "send_and_wait (e1000_hw e) base (cp_tx_ring p) (cp_tx_buf p) j frame (a, d) = (Ok (), (a, d'))"
    "tx_open e (cp_tx_ring p) (cp_tx_buf p) (Suc j) d'" "sent_step e (cp_tx_ring p) (cp_tx_buf p) frame d d'" .
  note st = d'(3) [unfolded sent_step_def]
  have "rx_open e (cp_rx_ring p) (cp_rx_buf p) k 7 d'"
    by (rule rx_open_cong [of _ _ _ _ _ d]) (use c' st in auto)
  moreover have "nic_bar e d' = nic_bar e d" using nic_bar_conf [OF nic_conf_cong] st by blast
  ultimately have "conn e p base k (Suc j) d'" using c' d'(2) by (simp add: conn_def)
  then show ?thesis using that d'(1) st by auto
qed

lemma conn_got:
  assumes c: "conn e p base k j d" and g: "got_step (cp_rx_ring p) (cp_rx_buf p) d d'"
    and r: "rx_open e (cp_rx_ring p) (cp_rx_buf p) k' 7 d'"
  shows "conn e p base k' j d'"
proof -
  note c' = c [unfolded conn_def] and g' = g [unfolded got_step_def]
  have "nic_conf e d' = nic_conf e d" using g' nic_conf_cong by blast
  then have "nic_master e d' = nic_master e d" "nic_bar e d' = nic_bar e d" by (rule nic_master_conf, rule nic_bar_conf)
  then show ?thesis using c' g' r by (simp add: conn_def tx_open_def reg64_def)
qed

text \<open>Received frames leave everything as it is but the receive slots.\<close>

definition quiet_step :: "nic_dev \<Rightarrow> nic_dev \<Rightarrow> bool" where
  "quiet_step d d' \<longleftrightarrow> nd_sent d' = nd_sent d \<and> nd_bridge d' = nd_bridge d
     \<and> nd_regs d' REG_RAL0 = nd_regs d REG_RAL0 \<and> nd_regs d' REG_RAH0 = nd_regs d REG_RAH0"

lemma got_quiet: "got_step ring buf d d' \<Longrightarrow> quiet_step d d'"
  by (simp add: got_step_def quiet_step_def)

lemma syn_phase:
  assumes c: "conn e p base 0 j d" and i: "nd_inbox d = [f]" "length f \<le> 2048"
    and x: "syn_result_of ip port src_port iss f = Ok x"
  obtains d' where "wait_loop (e1000_hw e) (syn_turn (e1000_hw e) (cp_rx_ring p) (cp_rx_buf p) ip port src_port iss) () (a, d) = (Ok (Some x), (a, d'))"
    and "conn e p base 1 j d'" and "nd_inbox d' = []" and "quiet_step d d'"
proof -
  let ?body = "syn_turn (e1000_hw e) (cp_rx_ring p) (cp_rx_buf p) ip port src_port iss"
  let ?d = "cpu_hlt (e1000_hw e) d"
  have op: "rx_open e (cp_rx_ring p) (cp_rx_buf p) 0 7 d" using c by (simp add: conn_def)
  have "?body () (a, d) = (Ok (Hold ()), (a, d))"
    using rx_open_slot(1) [OF op, of 0] by (simp add: syn_turn_def io_bind_def poll_rx_eq)
  from slot_wait [where body = ?body and start = "nd_ticks d" and t = 0 and e = e, OF this]
  have "timed_loop (e1000_hw e) ?body (nd_ticks d) () (a, d) = timed_loop (e1000_hw e) ?body (nd_ticks d) () (a, ?d)" by simp
  moreover have "?body () (a, ?d) = (Ok (Leave x), (a, ?d))"
    using hlt_fills_slot(2) [OF op _ i] x by (simp add: syn_turn_def io_bind_def poll_rx_eq del: e1000_hw_simps(5))
  then have "timed_loop (e1000_hw e) ?body (nd_ticks d) () (a, ?d) = Some (Ok (Some x), (a, ?d))"
    by (rule timed_loop_leave)
  ultimately have "wait_loop (e1000_hw e) ?body () (a, d) = (Ok (Some x), (a, ?d))"
    by (simp add: wait_loop_def del: e1000_hw_simps(5))
  then show ?thesis
    using that conn_got [OF c hlt_fills_slot(5) [OF op _ i] hlt_fills_slot(1) [OF op _ i]] hlt_fills_slot(3) [OF op _ i]
      got_quiet [OF hlt_fills_slot(5) [OF op _ i]] by simp
qed

lemma echo_phase:
  assumes c: "conn e p base k j d" and i: "nd_inbox d = mid @ [f]" "\<forall>m \<in> set (mid @ [f]). length m \<le> 2048" "k + length mid < 7"
    and x: "\<forall>m \<in> set mid. accept m = Ok None" "accept f = Ok (Some (echoed, seq))"
  obtains d' where "wait_loop (e1000_hw e) (echo_turn (e1000_hw e) (cp_rx_ring p) (cp_rx_buf p) accept) k (a, d)
      = (Ok (Some (Some (echoed, seq, Suc (k + length mid)))), (a, d'))"
    and "conn e p base (Suc (k + length mid)) j d'" and "nd_inbox d' = []" and "quiet_step d d'"
proof -
  let ?body = "echo_turn (e1000_hw e) (cp_rx_ring p) (cp_rx_buf p) accept"
  have op: "rx_open e (cp_rx_ring p) (cp_rx_buf p) k 7 d" using c by (simp add: conn_def)
  have "\<exists>d'. timed_loop (e1000_hw e) ?body (nd_ticks d) k (a, d) = timed_loop (e1000_hw e) ?body (nd_ticks d) (k + length mid) (a, d')
     \<and> rx_open e (cp_rx_ring p) (cp_rx_buf p) (Suc (k + length mid)) 7 d' \<and> rx_slot (nd_mem d') (cp_rx_ring p) (cp_rx_buf p) (k + length mid) = Some f
     \<and> nd_inbox d' = [] \<and> got_step (cp_rx_ring p) (cp_rx_buf p) d d'"
    by (rule slots_skip [where t = 0])
      (use i op x(1) in \<open>simp_all add: echo_turn_def NUM_RX_SLOTS_def io_bind_def poll_rx_eq\<close>)
  then obtain d' where d': "timed_loop (e1000_hw e) ?body (nd_ticks d) k (a, d) = timed_loop (e1000_hw e) ?body (nd_ticks d) (k + length mid) (a, d')"
     "rx_open e (cp_rx_ring p) (cp_rx_buf p) (Suc (k + length mid)) 7 d'" "rx_slot (nd_mem d') (cp_rx_ring p) (cp_rx_buf p) (k + length mid) = Some f"
     "nd_inbox d' = []" "got_step (cp_rx_ring p) (cp_rx_buf p) d d'" by blast
  have "?body (k + length mid) (a, d') = (Ok (Leave (Some (echoed, seq, Suc (k + length mid)))), (a, d'))"
    using d'(3) x(2) i(3) by (simp add: echo_turn_def NUM_RX_SLOTS_def io_bind_def poll_rx_eq)
  then have "wait_loop (e1000_hw e) ?body k (a, d) = (Ok (Some (Some (echoed, seq, Suc (k + length mid)))), (a, d'))"
    using timed_loop_leave [where body = ?body and hw = "e1000_hw e" and start = "nd_ticks d"] d'(1) by (simp add: wait_loop_def)
  then show ?thesis using that conn_got [OF c d'(5,2)] d'(4) got_quiet [OF d'(5)] by blast
qed

lemma close_phase:
  assumes c: "conn e p base k j d" and i: "nd_inbox d = mid @ [f]" "\<forall>m \<in> set (mid @ [f]). length m \<le> 2048" "k + length mid < 7"
    and x: "\<forall>m \<in> set mid. accept m = Ok None" "accept f = Ok (Some seq)"
  obtains d' where "\<And>s'. answer seq (a, d') = (Ok (), s') \<Longrightarrow>
      wait_loop (e1000_hw e) (close_turn (e1000_hw e) (cp_rx_ring p) (cp_rx_buf p) accept answer) k (a, d) = (Ok (Some True), s')"
    and "conn e p base (Suc (k + length mid)) j d'" and "nd_inbox d' = []" and "quiet_step d d'"
proof -
  let ?body = "close_turn (e1000_hw e) (cp_rx_ring p) (cp_rx_buf p) accept answer"
  have op: "rx_open e (cp_rx_ring p) (cp_rx_buf p) k 7 d" using c by (simp add: conn_def)
  have "\<exists>d'. timed_loop (e1000_hw e) ?body (nd_ticks d) k (a, d) = timed_loop (e1000_hw e) ?body (nd_ticks d) (k + length mid) (a, d')
     \<and> rx_open e (cp_rx_ring p) (cp_rx_buf p) (Suc (k + length mid)) 7 d' \<and> rx_slot (nd_mem d') (cp_rx_ring p) (cp_rx_buf p) (k + length mid) = Some f
     \<and> nd_inbox d' = [] \<and> got_step (cp_rx_ring p) (cp_rx_buf p) d d'"
    by (rule slots_skip [where t = 0])
      (use i op x(1) in \<open>simp_all add: close_turn_def NUM_RX_SLOTS_def io_bind_def poll_rx_eq\<close>)
  then obtain d' where d': "timed_loop (e1000_hw e) ?body (nd_ticks d) k (a, d) = timed_loop (e1000_hw e) ?body (nd_ticks d) (k + length mid) (a, d')"
     "rx_open e (cp_rx_ring p) (cp_rx_buf p) (Suc (k + length mid)) 7 d'" "rx_slot (nd_mem d') (cp_rx_ring p) (cp_rx_buf p) (k + length mid) = Some f"
     "nd_inbox d' = []" "got_step (cp_rx_ring p) (cp_rx_buf p) d d'" by blast
  have "wait_loop (e1000_hw e) ?body k (a, d) = (Ok (Some True), s')" if "answer seq (a, d') = (Ok (), s')" for s'
  proof -
    have "?body (k + length mid) (a, d') = (Ok (Leave True), s')"
      using d'(3) x(2) i(3) that by (simp add: close_turn_def NUM_RX_SLOTS_def io_bind_def poll_rx_eq)
    then show ?thesis
      using timed_loop_leave [where body = ?body and hw = "e1000_hw e" and start = "nd_ticks d"] d'(1) by (simp add: wait_loop_def)
  qed
  then show ?thesis using that conn_got [OF c d'(5,2)] d'(4) got_quiet [OF d'(5)] by blast
qed

lemma conn_start:
  assumes base: "base = ne_offset e + nic_bar e d" and master: "nic_master e d" and fr: "has_frames a (4 + n)"
  defines "p \<equiv> \<lparr>cp_rx_ring = granted a 0, cp_rx_buf = granted a 1, cp_tx_ring = granted a 2, cp_tx_buf = granted a 3\<rparr>"
  obtains d1 d2 d' where "arm_rx (e1000_hw e) base (granted a 0) (granted a 1) NUM_RX_SLOTS (a', d) = (Ok (), (a', d1))"
    and "clear_tx (e1000_hw e) (granted a 2) (a', d1) = (Ok (), (a', d2))"
    and "program_tx (e1000_hw e) base (granted a 2) (a', d2) = (Ok (), (a', d'))"
    and "conn e p base 0 0 d'" and "nd_inbox d' = nd_inbox d" and "quiet_step d d'"
proof -
  let ?rr = "granted a 0" and ?rb = "granted a 1" and ?tr = "granted a 2" and ?tb = "granted a 3"
  have pb: "page_base ?rr" "page_base ?rb" "page_base ?tr" "page_base ?tb" using granted_page(1) [OF fr] by simp_all
  note nd = granted_distinct [OF fr]
  define d1 where "d1 = rx_ring_regs ?rr 7 (d\<lparr>nd_mem := rx_ring_mem ?rr ?rb 7 (nd_mem d)\<rparr>)"
  have arm: "arm_rx (e1000_hw e) base ?rr ?rb NUM_RX_SLOTS (a', d) = (Ok (), (a', d1))"
    unfolding d1_def NUM_RX_SLOTS_def by (rule arm_rx_eq [OF base])
  define d2 where "d2 = d1\<lparr>nd_mem := ring_fill ?tr (\<lambda>i. tx_bytes empty_tx) 8 (nd_mem d1)\<rparr>"
  have clear: "clear_tx (e1000_hw e) ?tr (a', d1) = (Ok (), (a', d2))"
    by (simp add: clear_tx_def NUM_TX_DESCRIPTORS_def dev_do_apply fold_store_tx d2_def ring_fill_def)
  have b2: "base = ne_offset e + nic_bar e d2" using base by (simp add: d1_def d2_def rx_ring_regs_facts)
  let ?d' = "tx_ring_regs ?tr d2"
  have "rx_open e ?rr ?rb 0 7 d1" unfolding d1_def by (rule armed_open) (use pb nd master in simp_all)
  then have "rx_open e ?rr ?rb 0 7 ?d'"
    by (rule rx_open_cong)
      (use ring_fill_other [OF pb(3), of 8 "\<lambda>i. tx_bytes empty_tx"] nd [of 0 2] in \<open>auto simp: d2_def tx_ring_regs_facts tx_regs_def\<close>)
  moreover have "tx_open e ?tr ?tb 0 ?d'"
    using pb nd [of 2 3] master by (simp add: tx_open_def tx_ring_regs_facts d2_def d1_def rx_ring_regs_facts)
  ultimately have "conn e p base 0 0 ?d'"
    using b2 nd [of 0 2] nd [of 0 3] by (simp add: conn_def p_def tx_ring_regs_facts)
  moreover have "quiet_step d ?d'" "nd_inbox ?d' = nd_inbox d"
    by (simp_all add: quiet_step_def tx_ring_regs_facts tx_regs_def d2_def d1_def rx_ring_regs_facts)
  ultimately show ?thesis using that arm clear program_tx_eq [OF b2, of ?tr a'] by blast
qed

text \<open>Segments of the two sides.\<close>

definition our_segment :: "bytes \<Rightarrow> bytes \<Rightarrow> bytes \<Rightarrow> u16 \<Rightarrow> u16 \<Rightarrow> u32 \<Rightarrow> u32 \<Rightarrow> u8 \<Rightarrow> bytes \<Rightarrow> bytes" where
  "our_segment mac our ip port sp seq ack fl data =
     build_tcp_frame mac our SRC_IP ip (build_tcp_header SRC_IP ip sp port seq ack fl 65535 data) data"

definition peer_segment :: "bytes \<Rightarrow> bytes \<Rightarrow> bytes \<Rightarrow> u16 \<Rightarrow> u16 \<Rightarrow> u32 \<Rightarrow> u32 \<Rightarrow> u8 \<Rightarrow> bytes \<Rightarrow> bytes" where
  "peer_segment our mac ip port sp seq ack fl data =
     build_tcp_frame our mac ip SRC_IP (build_tcp_header ip SRC_IP port sp seq ack fl 65535 data) data"

lemma parse_peer_segment:
  assumes "length our = 6" "length mac = 6" "length ip = 4" "length data \<le> 65495"
  shows "parse_reply_frame (peer_segment our mac ip port sp seq ack fl data @ pad) ip SRC_IP
    = Ok (Some (\<lparr>tcp_source_port = port, tcp_dest_port = sp, tcp_seq_num = seq, tcp_ack_num = ack,
        tcp_flags = fl, tcp_window = 65535, tcp_header_len = 20\<rparr>, data))"
  unfolding peer_segment_def by (rule parse_reply_frame_built) (use assms in simp_all)

lemma length_segments:
  "length our = 6 \<Longrightarrow> length mac = 6 \<Longrightarrow> length ip = 4 \<Longrightarrow> length (our_segment mac our ip port sp seq ack fl data) = 54 + length data"
  "length our = 6 \<Longrightarrow> length mac = 6 \<Longrightarrow> length ip = 4 \<Longrightarrow> length (peer_segment our mac ip port sp seq ack fl data) = 54 + length data"
  by (simp_all add: our_segment_def peer_segment_def build_tcp_frame_eq length_ip_frame)

text \<open>
  The dialogue: our five segments, and what the peer sends in answer to each. \<open>mid1\<close> and \<open>mid2\<close> are
  frames that come before the echo and before the FIN, for example bare acknowledgements.
\<close>

record echo_talk =
  et_isn :: u32
  et_mid1 :: "bytes list"
  et_seq :: u32
  et_flags :: u8
  et_echo :: bytes
  et_mid2 :: "bytes list"
  et_fin_seq :: u32
  et_fin_ack :: u32
  et_fin_flags :: u8
  et_pad :: bytes

record endpoint =
  ep_our :: bytes
  ep_mac :: bytes
  ep_ip :: bytes
  ep_port :: u16
  ep_src_port :: u16
  ep_iss :: u32
  ep_payload :: bytes

definition our_seg :: "endpoint \<Rightarrow> u32 \<Rightarrow> u32 \<Rightarrow> u8 \<Rightarrow> bytes \<Rightarrow> bytes" where
  "our_seg p = our_segment (ep_mac p) (ep_our p) (ep_ip p) (ep_port p) (ep_src_port p)"

definition peer_seg :: "endpoint \<Rightarrow> u32 \<Rightarrow> u32 \<Rightarrow> u8 \<Rightarrow> bytes \<Rightarrow> bytes" where
  "peer_seg p = peer_segment (ep_our p) (ep_mac p) (ep_ip p) (ep_port p) (ep_src_port p)"

definition data_end :: "endpoint \<Rightarrow> u32" where
  "data_end p = ep_iss p + 1 + of_nat (length (ep_payload p))"

definition our_frames :: "endpoint \<Rightarrow> echo_talk \<Rightarrow> bytes list" where
  "our_frames p t =
     [our_seg p (ep_iss p) 0 0x02 [],
      our_seg p (ep_iss p + 1) (et_isn t + 1) 0x10 [],
      our_seg p (ep_iss p + 1) (et_isn t + 1) 0x18 (ep_payload p),
      our_seg p (data_end p) (et_seq t + of_nat (length (et_echo t))) 0x11 [],
      our_seg p (data_end p + 1) (et_fin_seq t + 1) 0x10 []]"

definition their_frames :: "endpoint \<Rightarrow> echo_talk \<Rightarrow> bytes list list" where
  "their_frames p t =
     [[peer_seg p (et_isn t) (ep_iss p + 1) 0x12 [] @ et_pad t],
      [],
      et_mid1 t @ [peer_seg p (et_seq t) (data_end p) (et_flags t) (et_echo t) @ et_pad t],
      et_mid2 t @ [peer_seg p (et_fin_seq t) (et_fin_ack t) (et_fin_flags t) [] @ et_pad t],
      []]"

definition talks :: "nic_env \<Rightarrow> bytes list \<Rightarrow> endpoint \<Rightarrow> echo_talk \<Rightarrow> bool" where
  "talks e hist p t \<longleftrightarrow> (\<forall>i<5. ne_peer e (hist @ take i (our_frames p t)) (our_frames p t ! i) = their_frames p t ! i)"

definition talk_ok :: "endpoint \<Rightarrow> echo_talk \<Rightarrow> bool" where
  "talk_ok p t \<longleftrightarrow> length (ep_mac p) = 6 \<and> length (ep_our p) = 6 \<and> length (ep_ip p) = 4 \<and> length (ep_payload p) \<le> 1460
     \<and> et_echo t \<noteq> [] \<and> length (et_echo t) \<le> 1460 \<and> length (et_pad t) \<le> 64 \<and> et_fin_flags t AND 0x01 \<noteq> 0
     \<and> length (et_mid1 t) + length (et_mid2 t) \<le> 4 \<and> (\<forall>m \<in> set (et_mid1 t @ et_mid2 t). length m \<le> 2048)
     \<and> (\<forall>m \<in> set (et_mid1 t). echo_of (ep_ip p) (ep_port p) (ep_src_port p) (data_end p) m = Ok None)
     \<and> (\<forall>m \<in> set (et_mid2 t). fin_of (ep_ip p) (ep_port p) (ep_src_port p) m = Ok None)"

lemma all_less_5: "(\<forall>i<5. P i) \<longleftrightarrow> P 0 \<and> P 1 \<and> P 2 \<and> P 3 \<and> P (4 :: nat)"
  by (auto simp: numeral_eq_Suc less_Suc_eq)

lemma talks_unfold:
  assumes "talks e hist p t"
  shows "ne_peer e hist (our_frames p t ! 0) = their_frames p t ! 0"
    and "ne_peer e (hist @ [our_frames p t ! 0]) (our_frames p t ! 1) = their_frames p t ! 1"
    and "ne_peer e (hist @ [our_frames p t ! 0, our_frames p t ! 1]) (our_frames p t ! 2) = their_frames p t ! 2"
    and "ne_peer e (hist @ [our_frames p t ! 0, our_frames p t ! 1, our_frames p t ! 2]) (our_frames p t ! 3) = their_frames p t ! 3"
    and "ne_peer e (hist @ [our_frames p t ! 0, our_frames p t ! 1, our_frames p t ! 2, our_frames p t ! 3]) (our_frames p t ! 4) = their_frames p t ! 4"
  using assms unfolding talks_def all_less_5 by (simp_all add: our_frames_def)

lemma peer_seg_answers:
  assumes "talk_ok p t"
  shows "syn_result_of (ep_ip p) (ep_port p) (ep_src_port p) (ep_iss p) (peer_seg p (et_isn t) (ep_iss p + 1) 0x12 [] @ et_pad t)
      = Ok (Syn_Ack (et_isn t))"
    and "echo_of (ep_ip p) (ep_port p) (ep_src_port p) (data_end p)
        (peer_seg p (et_seq t) (data_end p) (et_flags t) (et_echo t) @ et_pad t)
      = Ok (Some (et_echo t, et_seq t + of_nat (length (et_echo t))))"
    and "fin_of (ep_ip p) (ep_port p) (ep_src_port p) (peer_seg p (et_fin_seq t) (et_fin_ack t) (et_fin_flags t) [] @ et_pad t)
      = Ok (Some (et_fin_seq t))"
  using assms
  by (simp_all add: talk_ok_def peer_seg_def syn_result_of_def echo_of_def fin_of_def parse_peer_segment is_syn_ack_def)

lemma our_seg_short:
  assumes "talk_ok p t" and "i < 5"
  shows "length (our_frames p t ! i) \<le> 2048"
proof -
  have "\<forall>i<5. length (our_frames p t ! i) \<le> 2048"
    unfolding all_less_5 using assms(1) by (simp add: our_frames_def our_seg_def length_segments talk_ok_def)
  then show ?thesis using assms(2) by blast
qed

lemma peer_seg_short:
  assumes "talk_ok p t" and "length data \<le> 1460"
  shows "length (peer_seg p seq ack fl data @ et_pad t) \<le> 2048"
  using assms by (simp add: peer_seg_def length_segments talk_ok_def)

lemma conversation:
  assumes c: "conn e q base 0 0 d" and i: "nd_inbox d = []" and ok: "talk_ok p t" and talk: "talks e (nd_sent d) p t"
  defines "send \<equiv> send_and_wait (e1000_hw e) base (cp_tx_ring q) (cp_tx_buf q)"
    and "rr \<equiv> cp_rx_ring q" and "rb \<equiv> cp_rx_buf q" and "f \<equiv> (!) (our_frames p t)"
  obtains d1 d2 d3 d4 d5 d6 d' slot where "send 0 (f 0) (a, d) = (Ok (), (a, d1))"
    and "wait_loop (e1000_hw e) (syn_turn (e1000_hw e) rr rb (ep_ip p) (ep_port p) (ep_src_port p) (ep_iss p)) () (a, d1)
      = (Ok (Some (Syn_Ack (et_isn t))), (a, d2))"
    and "send 1 (f 1) (a, d2) = (Ok (), (a, d3))" and "send 2 (f 2) (a, d3) = (Ok (), (a, d4))"
    and "wait_loop (e1000_hw e) (echo_turn (e1000_hw e) rr rb (echo_of (ep_ip p) (ep_port p) (ep_src_port p) (data_end p))) 1 (a, d4)
      = (Ok (Some (Some (et_echo t, et_seq t + of_nat (length (et_echo t)), slot))), (a, d5))"
    and "send 3 (f 3) (a, d5) = (Ok (), (a, d6))"
    and "wait_loop (e1000_hw e) (close_turn (e1000_hw e) rr rb (fin_of (ep_ip p) (ep_port p) (ep_src_port p))
        (\<lambda>seq. send 4 (our_seg p (data_end p + 1) (seq + 1) 0x10 []))) slot (a, d6) = (Ok (Some True), (a, d'))"
    and "nd_sent d' = nd_sent d @ our_frames p t" and "nd_inbox d' = []" and "nd_bridge d' = nd_bridge d" and "nic_mac d' = nic_mac d"
proof -
  note tk = talks_unfold [OF talk] and ans = peer_seg_answers [OF ok]
  note short = our_seg_short [OF ok] and pshort = peer_seg_short [OF ok]
  have th: "their_frames p t ! 0 = [peer_seg p (et_isn t) (ep_iss p + 1) 0x12 [] @ et_pad t]" "their_frames p t ! 1 = []"
    "their_frames p t ! 2 = et_mid1 t @ [peer_seg p (et_seq t) (data_end p) (et_flags t) (et_echo t) @ et_pad t]"
    "their_frames p t ! 3 = et_mid2 t @ [peer_seg p (et_fin_seq t) (et_fin_ack t) (et_fin_flags t) [] @ et_pad t]"
    "their_frames p t ! 4 = []"
    by (simp_all add: their_frames_def)
  have m: "length (et_mid1 t) + length (et_mid2 t) \<le> 4" "\<forall>m \<in> set (et_mid1 t). length m \<le> 2048" "\<forall>m \<in> set (et_mid2 t). length m \<le> 2048"
    "length (et_echo t) \<le> 1460" using ok by (auto simp: talk_ok_def)
  from conn_send [OF c, where frame = "f 0" and a = a] short [of 0]
  obtain d1 where d1: "send 0 (f 0) (a, d) = (Ok (), (a, d1))" "conn e q base 0 1 d1" "nd_sent d1 = nd_sent d @ [f 0]"
    "nd_inbox d1 = their_frames p t ! 0" "quiet_step (d\<lparr>nd_sent := nd_sent d1\<rparr>) d1"
    using i tk(1) by (auto simp: send_def f_def quiet_step_def)
  from syn_phase [OF d1(2) d1(4) [unfolded th] _ ans(1), of a]
  obtain d2 where d2: "wait_loop (e1000_hw e) (syn_turn (e1000_hw e) rr rb (ep_ip p) (ep_port p) (ep_src_port p) (ep_iss p)) () (a, d1)
      = (Ok (Some (Syn_Ack (et_isn t))), (a, d2))" "conn e q base 1 1 d2" "nd_inbox d2 = []" "quiet_step d1 d2"
    using pshort [of "[]"] by (auto simp: rr_def rb_def)
  have h2: "nd_sent d2 = nd_sent d @ [f 0]" using d2(4) d1(3) by (simp add: quiet_step_def)
  from conn_send [OF d2(2), where frame = "f 1" and a = a] short [of 1]
  obtain d3 where d3: "send 1 (f 1) (a, d2) = (Ok (), (a, d3))" "conn e q base 1 2 d3" "nd_sent d3 = nd_sent d @ [f 0, f 1]"
    "nd_inbox d3 = []" "quiet_step (d2\<lparr>nd_sent := nd_sent d3\<rparr>) d3"
    using d2(3) tk(2) th(2) h2 by (auto simp: send_def f_def quiet_step_def numeral_2_eq_2)
  from conn_send [OF d3(2), where frame = "f 2" and a = a] short [of 2]
  obtain d4 where d4: "send 2 (f 2) (a, d3) = (Ok (), (a, d4))" "conn e q base 1 3 d4" "nd_sent d4 = nd_sent d @ [f 0, f 1, f 2]"
    "nd_inbox d4 = their_frames p t ! 2" "quiet_step (d3\<lparr>nd_sent := nd_sent d4\<rparr>) d4"
    using d3(3,4) tk(3) by (auto simp: send_def f_def quiet_step_def numeral_3_eq_3)
  from echo_phase [where accept = "echo_of (ep_ip p) (ep_port p) (ep_src_port p) (data_end p)" and a = a, OF d4(2) d4(4) [unfolded th] _ _ _ ans(2)]
  obtain d5 where d5: "wait_loop (e1000_hw e) (echo_turn (e1000_hw e) rr rb (echo_of (ep_ip p) (ep_port p) (ep_src_port p) (data_end p))) 1 (a, d4)
      = (Ok (Some (Some (et_echo t, et_seq t + of_nat (length (et_echo t)), Suc (1 + length (et_mid1 t))))), (a, d5))"
    "conn e q base (Suc (1 + length (et_mid1 t))) 3 d5" "nd_inbox d5 = []" "quiet_step d4 d5"
    using pshort [OF m(4)] m ok by (auto simp: rr_def rb_def talk_ok_def)
  have h5: "nd_sent d5 = nd_sent d @ [f 0, f 1, f 2]" using d5(4) d4(3) by (simp add: quiet_step_def)
  from conn_send [OF d5(2), where frame = "f 3" and a = a] short [of 3]
  obtain d6 where d6: "send 3 (f 3) (a, d5) = (Ok (), (a, d6))" "conn e q base (Suc (1 + length (et_mid1 t))) 4 d6"
    "nd_sent d6 = nd_sent d @ [f 0, f 1, f 2, f 3]" "nd_inbox d6 = their_frames p t ! 3" "quiet_step (d5\<lparr>nd_sent := nd_sent d6\<rparr>) d6"
    using d5(3) tk(4) h5 by (auto simp: send_def f_def quiet_step_def eval_nat_numeral)
  let ?answer = "\<lambda>seq. send 4 (our_seg p (data_end p + 1) (seq + 1) 0x10 [])"
  from close_phase [where accept = "fin_of (ep_ip p) (ep_port p) (ep_src_port p)" and a = a and answer = ?answer,
      OF d6(2) d6(4) [unfolded th] _ _ _ ans(3)]
  obtain d7 where d7: "\<And>s'. ?answer (et_fin_seq t) (a, d7) = (Ok (), s') \<Longrightarrow>
      wait_loop (e1000_hw e) (close_turn (e1000_hw e) rr rb (fin_of (ep_ip p) (ep_port p) (ep_src_port p)) ?answer)
        (Suc (1 + length (et_mid1 t))) (a, d6) = (Ok (Some True), s')"
    "conn e q base (Suc (Suc (1 + length (et_mid1 t)) + length (et_mid2 t))) 4 d7" "nd_inbox d7 = []" "quiet_step d6 d7"
    using pshort [of "[]"] m ok by (auto simp: rr_def rb_def talk_ok_def)
  have h7: "nd_sent d7 = nd_sent d @ [f 0, f 1, f 2, f 3]" using d7(4) d6(3) by (simp add: quiet_step_def)
  have f4: "f 4 = our_seg p (data_end p + 1) (et_fin_seq t + 1) 0x10 []" by (simp add: f_def our_frames_def)
  from conn_send [OF d7(2), where frame = "f 4" and a = a] short [of 4]
  obtain d' where d': "send 4 (f 4) (a, d7) = (Ok (), (a, d'))" "nd_sent d' = nd_sent d @ [f 0, f 1, f 2, f 3, f 4]"
    "nd_inbox d' = []" "quiet_step (d7\<lparr>nd_sent := nd_sent d'\<rparr>) d'"
    using d7(3) tk(5) th(5) h7 by (auto simp: send_def f_def quiet_step_def)
  have fs: "[f 0, f 1, f 2, f 3, f 4] = our_frames p t" by (simp add: f_def our_frames_def)
  have "nd_bridge d' = nd_bridge d" "nic_mac d' = nic_mac d"
    using d'(4) d7(4) d6(5) d5(4) d4(5) d3(5) d2(4) d1(5) by (simp_all add: quiet_step_def nic_mac_def)
  then show ?thesis
    using that [OF d1(1) d2(1) d3(1) d4(1) d5(1) d6(1) d7(1) _ d'(3)] d'(1,2) fs f4 by simp
qed

text \<open>
  C7: \<^verbatim>\<open>tcp_echo_test\<close> from the PCI scan to the closed connection. If the host answers the ARP request, accepts the
  connection, answers the data segment with a segment that acknowledges it and carries any non-empty data,
  and the FIN with a FIN of its own, with up to four unrelated frames in between, then the result is
  the data of the answer. The frames sent are exactly the ARP request, the SYN, the acknowledgement, the data segment,
  the FIN and the last acknowledgement, with the sequence and acknowledgement numbers TCP prescribes, which wrap at 32 bits.
\<close>

theorem tcp_echo_test_answered:
  assumes ready: "link_ready e a (8 + n) d" and our: "ep_our p = nic_mac d" and pad: "length pad \<le> 2006"
    and arp: "ne_peer e (nd_sent d) (arp_request (nic_mac d) (ep_ip p)) = [arp_reply (nic_mac d) (ep_mac p) (ep_ip p) @ pad]"
    and ok: "talk_ok p t" and talk: "talks e (nd_sent d @ [arp_request (nic_mac d) (ep_ip p)]) p t"
  shows "\<exists>a' d'. tcp_echo_test (e1000_hw e) (ep_ip p) (ep_port p) (ep_src_port p) (ep_iss p) (ep_payload p) (a, d) = (Ok (et_echo t), (a', d'))
     \<and> link_ready e a' n d' \<and> nd_sent d' = nd_sent d @ [arp_request (nic_mac d) (ep_ip p)] @ our_frames p t"
proof -
  let ?hw = "e1000_hw e" and ?h = "nd_sent d @ [arp_request (nic_mac d) (ep_ip p)]"
  have lens: "length (ep_ip p) = 4" "length (ep_mac p) = 6" using ok by (simp_all add: talk_ok_def)
  have "link_ready e a (4 + (4 + n)) d" using ready by (simp add: numeral_eq_Suc)
  from arp_resolve_answered [OF this lens pad arp]
  obtain a1 d1 where s1: "arp_resolve ?hw (ep_ip p) (a, d) = (Ok (ep_mac p), (a1, d1))" "link_ready e a1 (4 + n) d1"
    "nd_sent d1 = ?h" "nic_mac d1 = nic_mac d" .
  have f1: "nic_found e d1" "nd_inbox d1 = []" and fr: "has_frames a1 (4 + n)" using s1(2) by (auto simp: link_ready_def)
  let ?base = "ne_offset e + nic_bar e d1" and ?a = "a1\<lparr>next_frame := next_frame a1 + 4\<rparr>"
  obtain b where b: "bring_up ?hw (a1, d1) = (Ok (?base, nic_mac d), (a1, d1\<lparr>nd_bridge := b\<rparr>))"
      "nic_master e (d1\<lparr>nd_bridge := b\<rparr>)" "nic_bar e (d1\<lparr>nd_bridge := b\<rparr>) = nic_bar e d1" "nic_found e (d1\<lparr>nd_bridge := b\<rparr>)"
    using bring_up_run [OF f1(1)] s1(4) by metis
  have base: "?base = ne_offset e + nic_bar e (d1\<lparr>nd_bridge := b\<rparr>)" using b(3) by simp
  from conn_start [OF base b(2) fr, of ?a]
  obtain da db d2 where st: "arm_rx ?hw ?base (granted a1 0) (granted a1 1) NUM_RX_SLOTS (?a, d1\<lparr>nd_bridge := b\<rparr>) = (Ok (), (?a, da))"
    "clear_tx ?hw (granted a1 2) (?a, da) = (Ok (), (?a, db))" "program_tx ?hw ?base (granted a1 2) (?a, db) = (Ok (), (?a, d2))"
    and c: "conn e \<lparr>cp_rx_ring = granted a1 0, cp_rx_buf = granted a1 1, cp_tx_ring = granted a1 2, cp_tx_buf = granted a1 3\<rparr> ?base 0 0 d2"
    and q: "nd_inbox d2 = nd_inbox (d1\<lparr>nd_bridge := b\<rparr>)" "quiet_step (d1\<lparr>nd_bridge := b\<rparr>) d2" .
  have i2: "nd_inbox d2 = []" and h2: "nd_sent d2 = ?h" and n2: "nic_found e d2"
    using q f1(2) s1(3) nic_found_cong [of d2 "d1\<lparr>nd_bridge := b\<rparr>" e] b(4) by (simp_all add: quiet_step_def)
  have "talks e (nd_sent d2) p t" using talk h2 by simp
  from conversation [OF c i2 ok this, where a = ?a, unfolded conn_pages.simps h2]
  obtain e1 e2 e3 e4 e5 e6 d' slot where run: "send_and_wait ?hw ?base (granted a1 2) (granted a1 3) 0 (our_frames p t ! 0) (?a, d2) = (Ok (), (?a, e1))"
    "wait_loop ?hw (syn_turn ?hw (granted a1 0) (granted a1 1) (ep_ip p) (ep_port p) (ep_src_port p) (ep_iss p)) () (?a, e1)
      = (Ok (Some (Syn_Ack (et_isn t))), (?a, e2))"
    "send_and_wait ?hw ?base (granted a1 2) (granted a1 3) 1 (our_frames p t ! 1) (?a, e2) = (Ok (), (?a, e3))"
    "send_and_wait ?hw ?base (granted a1 2) (granted a1 3) 2 (our_frames p t ! 2) (?a, e3) = (Ok (), (?a, e4))"
    "wait_loop ?hw (echo_turn ?hw (granted a1 0) (granted a1 1) (echo_of (ep_ip p) (ep_port p) (ep_src_port p) (data_end p))) 1 (?a, e4)
      = (Ok (Some (Some (et_echo t, et_seq t + of_nat (length (et_echo t)), slot))), (?a, e5))"
    "send_and_wait ?hw ?base (granted a1 2) (granted a1 3) 3 (our_frames p t ! 3) (?a, e5) = (Ok (), (?a, e6))"
    "wait_loop ?hw (close_turn ?hw (granted a1 0) (granted a1 1) (fin_of (ep_ip p) (ep_port p) (ep_src_port p))
        (\<lambda>seq. send_and_wait ?hw ?base (granted a1 2) (granted a1 3) 4 (our_seg p (data_end p + 1) (seq + 1) 0x10 []))) slot (?a, e6)
      = (Ok (Some True), (?a, d'))"
    and fin: "nd_sent d' = ?h @ our_frames p t" "nd_inbox d' = []" "nd_bridge d' = nd_bridge d2" "nic_mac d' = nic_mac d2" .
  have "tcp_echo_test ?hw (ep_ip p) (ep_port p) (ep_src_port p) (ep_iss p) (ep_payload p) (a, d) = (Ok (et_echo t), (?a, d'))"
    unfolding tcp_echo_test_def io_bind_step [where m = "arp_resolve ?hw (ep_ip p)", OF s1(1)] io_bind_step [where m = "bring_up ?hw", OF b(1)]
      prod.case Let_def allocate_four [OF fr]
    using st run our
    by (simp add: io_bind_def our_frames_def our_seg_def our_segment_def data_end_def)
  moreover have "link_ready e ?a n d'"
    using n2 nic_found_cong [OF fin(3), of e] fin(2) has_frames_next [of a1 4 n] fr by (simp add: link_ready_def)
  ultimately show ?thesis using fin(1) by auto
qed

definition demo_endpoint :: endpoint where
  "demo_endpoint = \<lparr>ep_our = our_mac, ep_mac = host_mac, ep_ip = host_ip, ep_port = 7, ep_src_port = 54321,
     ep_iss = 0xFFFFFFFE, ep_payload = [1, 2, 3]\<rparr>"

definition demo_talk :: echo_talk where
  "demo_talk = \<lparr>et_isn = 100, et_mid1 = [[1, 2]], et_seq = 101, et_flags = 0x18, et_echo = [1, 2, 3], et_mid2 = [],
     et_fin_seq = 104, et_fin_ack = 3, et_fin_flags = 0x11, et_pad = [0]\<rparr>"

theorem tcp_echo_test_answered_witness:
  "\<exists>s. tcp_echo_test (e1000_hw (demo_env (host (their_frames demo_endpoint demo_talk)))) host_ip 7 54321 0xFFFFFFFE [1, 2, 3]
     (demo_alloc, demo_dev) = (Ok [1, 2, 3], s)"
proof -
  let ?e = "demo_env (host (their_frames demo_endpoint demo_talk))"
  have ok: "talk_ok demo_endpoint demo_talk"
    by (simp add: talk_ok_def demo_endpoint_def demo_talk_def echo_of_def parse_reply_frame_def is_our_reply_def)
  have t: "talks ?e [arp_request our_mac host_ip] demo_endpoint demo_talk"
    unfolding talks_def all_less_5 by (simp add: host_def our_frames_def their_frames_def)
  show ?thesis
    using tcp_echo_test_answered [of ?e demo_alloc 0 demo_dev demo_endpoint "[]" demo_talk] demo_ready ok t
    by (auto simp: demo_endpoint_def demo_talk_def host_def)
qed

end
