(* ===== verification/Timing.thy ===== *)
theory Timing
  imports Dma
begin

text \<open>
  Time. A clock (locale \<open>ticking\<close>) advances by at most one tick per halt, and only finitely many other interrupts wake the processor
  between two ticks; interrupts are enabled, so a tick may also come during any access to the card or its memory. Everything
  else about the hardware is arbitrary. In the locale, every waiting loop of a driver ends.
\<close>

section \<open>Clocks\<close>

text \<open>
  The clock runs by at most \<open>n\<close> ticks from one state to the other. \<open>quiet\<close> bounds the interrupts that are
  still to come before the next tick.
\<close>

definition drift :: "('d, 'z) nic_hw_scheme \<Rightarrow> ('d \<Rightarrow> nat) \<Rightarrow> nat \<Rightarrow> 'd \<Rightarrow> 'd \<Rightarrow> bool" where
  "drift hw quiet n d d' \<longleftrightarrow>
     (\<exists>k \<le> n. timer_ticks hw d' = timer_ticks hw d + of_nat k \<and> (k = 0 \<longrightarrow> quiet d' \<le> quiet d))"

lemma drift_still: "timer_ticks hw d' = timer_ticks hw d \<Longrightarrow> quiet d' = quiet d \<Longrightarrow> drift hw quiet n d d'"
  by (auto simp: drift_def intro!: exI [of _ 0])

lemma drift_mono: "drift hw quiet n d d' \<Longrightarrow> n \<le> m \<Longrightarrow> drift hw quiet m d d'"
  unfolding drift_def by (meson order_trans)

lemma drift_trans: "drift hw quiet n d d' \<Longrightarrow> drift hw quiet m d' d'' \<Longrightarrow> drift hw quiet (n + m) d d''"
proof -
  assume "drift hw quiet n d d'" "drift hw quiet m d' d''"
  then obtain i j where "i \<le> n" "timer_ticks hw d' = timer_ticks hw d + of_nat i" "i = 0 \<longrightarrow> quiet d' \<le> quiet d"
    "j \<le> m" "timer_ticks hw d'' = timer_ticks hw d' + of_nat j" "j = 0 \<longrightarrow> quiet d'' \<le> quiet d'"
    unfolding drift_def by blast
  then show ?thesis unfolding drift_def by (intro exI [of _ "i + j"]) auto
qed

locale ticking =
  fixes hw :: "('d, 'z) nic_hw_scheme" and quiet :: "'d \<Rightarrow> nat"
  assumes mmio_read_time: "drift hw quiet 1 d (snd (mmio_read hw x d))"
    and mmio_write_time: "drift hw quiet 1 d (mmio_write hw x v d)"
    and load_time: "drift hw quiet 1 d (snd (vol_load hw x n d))"
    and store_time: "drift hw quiet 1 d (vol_store hw x bs d)"
    and hlt_time: "timer_ticks hw (cpu_hlt hw d) = timer_ticks hw d + 1
       \<or> timer_ticks hw (cpu_hlt hw d) = timer_ticks hw d \<and> quiet (cpu_hlt hw d) < quiet d"

text \<open>
  \<open>safe\<close> computations do not run forever and panic only when physical memory is used up; during \<open>calm\<close> ones at most \<open>n\<close>
  ticks come.
\<close>

definition out_of_frames :: "boot_info_frame_allocator \<Rightarrow> bool" where
  "out_of_frames a \<longleftrightarrow> length (usable_frames a) < next_frame a"

definition safe :: "('d nic_state, 'r) io \<Rightarrow> bool" where
  "safe m \<longleftrightarrow> (\<forall>s. fst (m s) \<noteq> Diverge \<and> (fst (m s) = Panic \<longrightarrow> out_of_frames (fst (snd (m s)))))"

definition calm :: "('d, 'z) nic_hw_scheme \<Rightarrow> ('d \<Rightarrow> nat) \<Rightarrow> nat \<Rightarrow> ('d nic_state, 'r) io \<Rightarrow> bool" where
  "calm hw quiet n m \<longleftrightarrow> (\<forall>s. drift hw quiet n (snd s) (snd (snd (m s))))"

definition ends :: "('d nic_state, 'r) io \<Rightarrow> bool" where
  "ends m \<longleftrightarrow> (\<forall>s. fst (m s) \<noteq> Diverge)"

lemma safe_ends: "safe m \<Longrightarrow> ends m"
  by (simp add: safe_def ends_def)

lemma ends_bind: "ends m \<Longrightarrow> (\<And>x. ends (f x)) \<Longrightarrow> ends (io_bind m f)"
  unfolding ends_def io_bind_def by (auto simp del: split_paired_All split: outcome.splits)

text \<open>Total decisions on received bytes.\<close>

definition decides :: "'r outcome \<Rightarrow> bool" where
  "decides r \<longleftrightarrow> r \<noteq> Panic \<and> r \<noteq> Diverge"

lemma decides_obind: "decides m \<Longrightarrow> (\<And>x. decides (f x)) \<Longrightarrow> decides (obind m f)"
  by (cases m) (auto simp: decides_def)

lemma decides_intros [simp]: "decides (Ok x)" "decides (Err e)"
  by (simp_all add: decides_def)

lemma safe_bind: "safe m \<Longrightarrow> (\<And>x. safe (f x)) \<Longrightarrow> safe (io_bind m f)"
  unfolding safe_def io_bind_def by (auto simp del: split_paired_All split: outcome.splits)

lemma safe_match: "safe m \<Longrightarrow> safe (io_match m)"
  unfolding safe_def io_match_def by (auto simp del: split_paired_All split: prod.splits outcome.splits)
     (metis fst_conv snd_conv)+

lemma safe_simple [simp]: "safe (io_ret x)" "safe (io_err e)" "safe (dev_do f)" "safe (dev_get g)"
  by (simp_all add: safe_def dev_do_def dev_get_def split: prod.splits)

lemma safe_lift [simp]: "decides r \<Longrightarrow> safe (io_lift r)"
  by (auto simp: safe_def decides_def)

lemma safe_allocate [simp]: "safe global_allocate_frame"
  by (auto simp: safe_def global_allocate_frame_def allocate_frame_def out_of_frames_def split: prod.splits if_splits)

lemma calm_bind:
  assumes "calm hw quiet n m" and "\<And>x. calm hw quiet k (f x)"
  shows "calm hw quiet (n + k) (io_bind m f)"
  unfolding calm_def
proof
  fix s
  have m: "drift hw quiet n (snd s) (snd (snd (m s)))" using assms(1) by (simp add: calm_def del: split_paired_All)
  show "drift hw quiet (n + k) (snd s) (snd (snd (io_bind m f s)))"
  proof (cases "fst (m s)")
    case (Ok x)
    then have eq: "io_bind m f s = f x (snd (m s))" by (simp add: io_bind_def)
    have "drift hw quiet k (snd (snd (m s))) (snd (snd (f x (snd (m s)))))"
      using assms(2) [of x] unfolding calm_def by (rule spec)
    then show ?thesis unfolding eq using drift_trans [OF m] by blast
  qed (use drift_mono [OF m, of "n + k"] in \<open>simp_all add: io_bind_def\<close>)
qed

lemma calm_simple [simp]: "calm hw quiet n (io_ret x)" "calm hw quiet n (io_err e)" "calm hw quiet n (io_lift r)"
  by (simp_all add: calm_def drift_still)

section \<open>Loops end\<close>

text \<open>
  During a turn that holds or goes round at most \<open>t\<close> ticks come, and going round is counted down by \<open>rank\<close>.
\<close>

definition turn_ok :: "('d, 'z) nic_hw_scheme \<Rightarrow> ('d \<Rightarrow> nat) \<Rightarrow> ('x \<Rightarrow> nat) \<Rightarrow> nat \<Rightarrow> nat \<Rightarrow> ('d nic_state, ('x, 'r) turn) io \<Rightarrow> bool" where
  "turn_ok hw quiet rank n t m \<longleftrightarrow> (\<forall>s. case fst (m s) of
       Ok (Hold x') \<Rightarrow> rank x' \<le> n \<and> drift hw quiet t (snd s) (snd (snd (m s)))
     | Ok (Continue x') \<Rightarrow> rank x' < n \<and> drift hw quiet t (snd s) (snd (snd (m s)))
     | _ \<Rightarrow> True)"

definition turning :: "('d, 'z) nic_hw_scheme \<Rightarrow> ('d \<Rightarrow> nat) \<Rightarrow> ('x \<Rightarrow> nat) \<Rightarrow> ('x \<Rightarrow> ('d nic_state, ('x, 'r) turn) io) \<Rightarrow> bool" where
  "turning hw quiet rank body \<longleftrightarrow> (\<forall>x. rank x \<le> 8 \<and> turn_ok hw quiet rank (rank x) 8 (body x))"

lemma turning_hold: "turning hw quiet rank body \<Longrightarrow> body x s = (Ok (Hold x'), (a, d)) \<Longrightarrow>
    rank x' \<le> rank x \<and> drift hw quiet 8 (snd s) d"
  unfolding turning_def turn_ok_def by (drule spec [of _ x], drule conjunct2, drule spec [of _ s]) simp

lemma turning_continue: "turning hw quiet rank body \<Longrightarrow> body x s = (Ok (Continue x'), s1) \<Longrightarrow>
    rank x' < rank x \<and> drift hw quiet 8 (snd s) (snd s1)"
  unfolding turning_def turn_ok_def by (drule spec [of _ x], drule conjunct2, drule spec [of _ s]) simp

lemma turn_ok_bind:
  assumes "calm hw quiet k m" and "\<And>x. turn_ok hw quiet rank n t (f x)" and "k + t \<le> u"
  shows "turn_ok hw quiet rank n u (io_bind m f)"
  unfolding turn_ok_def
proof
  fix s
  have c: "drift hw quiet k (snd s) (snd (snd (m s)))"
    using assms(1) by (simp add: calm_def del: split_paired_All)
  show "case fst (io_bind m f s) of
       Ok (Hold x') \<Rightarrow> rank x' \<le> n \<and> drift hw quiet u (snd s) (snd (snd (io_bind m f s)))
     | Ok (Continue x') \<Rightarrow> rank x' < n \<and> drift hw quiet u (snd s) (snd (snd (io_bind m f s)))
     | _ \<Rightarrow> True"
  proof (cases "fst (m s)")
    case (Ok x)
    then have eq: "io_bind m f s = f x (snd (m s))" by (simp add: io_bind_def)
    have "drift hw quiet u (snd s) d'" if "drift hw quiet t (snd (snd (m s))) d'" for d'
      using drift_mono [OF drift_trans [OF c that] assms(3)] .
    then show ?thesis unfolding eq using assms(2) [of x, unfolded turn_ok_def, rule_format, of "snd (m s)"]
      by (auto split: outcome.splits turn.splits)
  qed (simp_all add: io_bind_def)
qed

lemma turn_ok_leave: "turn_ok hw quiet rank n t (io_ret (Leave r))" "turn_ok hw quiet rank n t (io_bind m (\<lambda>_. io_ret (Leave r)))"
  by (auto simp: turn_ok_def io_bind_def split: outcome.splits)

lemma turn_ok_hold: "rank x \<le> n \<Longrightarrow> turn_ok hw quiet rank n t (io_ret (Hold x))"
  by (simp add: turn_ok_def drift_still)

lemma turn_ok_continue: "rank x < n \<Longrightarrow> turn_ok hw quiet rank n t (io_ret (Continue x))"
  by (simp add: turn_ok_def drift_still)

lemma turn_ok_lift: "(\<And>x. turn_ok hw quiet rank n t (f x)) \<Longrightarrow> turn_ok hw quiet rank n t (io_bind (io_lift r) f)"
  using turn_ok_bind [of hw quiet 0 "io_lift r" rank n t f t] by simp

section \<open>Halting with interrupts disabled\<close>

text \<open>
  When interrupts are disabled nothing ends a halt: for the program the state stays as it is, and a loop that
  finds nothing to do goes on for ever, its time limit included.
\<close>

lemma timed_loop_stuck:
  assumes "body x (a, d) = (Ok (Hold x), (a, d))" and "cpu_hlt hw d = d" and "\<not> 90 < timer_ticks hw d - start"
  shows "timed_loop hw body start x (a, d) = None"
proof (rule timed_loop.fixp_induct [where P = "\<lambda>loop. loop hw body start x (a, d) = None"])
  let ?z = "((((hw, body), start), x), (a, d))"
  show "option.admissible (\<lambda>loop. curry (curry (curry (curry loop))) hw body start x (a, d) = None)"
    by (rule back_subst [of option.admissible, OF option_admissible [of "\<lambda>z y. z \<noteq> ?z"]]) (rule ext, auto simp: curry_def)
qed (use assms in simp_all)

lemma wait_loop_stuck:
  assumes "body x (a, d) = (Ok (Hold x), (a, d))" and "cpu_hlt hw d = d"
  shows "wait_loop hw body x (a, d) = (Diverge, (a, d))"
  using timed_loop_stuck [of body x a d hw "timer_ticks hw d"] assms by (simp add: wait_loop_def)

definition elapsed :: "('d, 'z) nic_hw_scheme \<Rightarrow> u64 \<Rightarrow> 'd nic_state \<Rightarrow> nat" where
  "elapsed hw start s = unat (timer_ticks hw (snd s) - start)"

lemma drift_elapsed:
  assumes "drift hw quiet n (snd s) (snd s')" and "elapsed hw start s + n < 2 ^ 64"
  shows "elapsed hw start s \<le> elapsed hw start s' \<and> elapsed hw start s' \<le> elapsed hw start s + n
     \<and> (elapsed hw start s' = elapsed hw start s \<longrightarrow> quiet (snd s') \<le> quiet (snd s))"
proof -
  obtain k where k: "k \<le> n" "timer_ticks hw (snd s') = timer_ticks hw (snd s) + of_nat k" "k = 0 \<longrightarrow> quiet (snd s') \<le> quiet (snd s)"
    using assms(1) by (auto simp: drift_def)
  have "timer_ticks hw (snd s') - start = (timer_ticks hw (snd s) - start) + of_nat k" using k(2) by simp
  then have "elapsed hw start s' = unat (timer_ticks hw (snd s) - start + of_nat k)" by (simp only: elapsed_def)
  also have "\<dots> = elapsed hw start s + k"
    using assms(2) k(1) by (simp add: elapsed_def unat_word_ariths unat_of_nat)
  finally have "elapsed hw start s' = elapsed hw start s + k" .
  then show ?thesis using k by auto
qed

context ticking
begin

lemma calm_load [simp]: "calm hw quiet 1 (dev_get (vol_load hw x n))"
  unfolding calm_def dev_get_def using load_time [of _ x n] by (auto split: prod.splits) (metis snd_conv)

lemma hlt_elapsed:
  assumes "elapsed hw start (a, d) \<le> 90"
  shows "elapsed hw start (a, cpu_hlt hw d) = Suc (elapsed hw start (a, d))
     \<or> elapsed hw start (a, cpu_hlt hw d) = elapsed hw start (a, d) \<and> quiet (cpu_hlt hw d) < quiet d"
proof -
  have "unat (timer_ticks hw d + 1 - start) = Suc (unat (timer_ticks hw d - start))"
  proof -
    have "timer_ticks hw d + 1 - start = (timer_ticks hw d - start) + 1" by simp
    moreover have "unat (w + 1) = Suc (unat w)" if "unat w \<le> 90" for w :: u64
      using that by (simp add: unat_word_ariths)
    ultimately show ?thesis using assms by (simp only: elapsed_def snd_conv)
  qed
  then show ?thesis using hlt_time [of d] by (auto simp: elapsed_def)
qed

text \<open>
  The loop is counted down by the ticks left, then by the interrupts before the next tick, then by the slots left. A turn
  that goes round does not look at the clock, so ticks may be left over when it is looked at, but not many.
\<close>

lemma timed_loop_ends:
  assumes t: "turning hw quiet rank body" and sf: "\<And>x s. fst (body x s) \<noteq> Diverge" and "elapsed hw start s + 8 * rank x \<le> 155"
  shows "\<exists>r s'. timed_loop hw body start x s = Some (r, s') \<and> r \<noteq> Diverge \<and> (r = Panic \<longrightarrow> (\<exists>y s0. body y s0 = (Panic, s')))"
  using assms(3)
proof (induction "(x, s)" arbitrary: x s rule: wf_induct_rule
    [OF wf_measures [of "[\<lambda>(x, s). 91 - elapsed hw start s, \<lambda>(x, s). if 91 \<le> elapsed hw start s then 0 else quiet (snd s), \<lambda>(x, s). rank x]"]])
  case (1 x s)
  let ?M = "measures [\<lambda>(x, s). 91 - elapsed hw start s, \<lambda>(x, s). if 91 \<le> elapsed hw start s then 0 else quiet (snd s), \<lambda>(x, s). rank x]"
  obtain o1 s1 where b: "body x s = (o1, s1)" by (cases "body x s")
  have bs: "o1 \<noteq> Diverge" using sf [of x s] b by auto
  have small: "elapsed hw start s + 8 < 2 ^ 64" using 1(2) by simp
  show ?case
  proof (cases o1)
    case (Ok tu)
    show ?thesis
    proof (cases tu)
      case (Leave r)
      then show ?thesis using b Ok timed_loop_leave [of body x s r s1 hw start] by (cases s1) simp
    next
      case (Continue x')
      then have c: "body x s = (Ok (Continue x'), s1)" using b Ok by simp
      have r: "rank x' < rank x" "drift hw quiet 8 (snd s) (snd s1)" using turning_continue [OF t c] by simp_all
      note d = drift_elapsed [OF r(2) small]
      have "((x', s1), (x, s)) \<in> ?M" using r(1) d
        by (cases "elapsed hw start s1 = elapsed hw start s"; cases "91 \<le> elapsed hw start s") auto
      moreover have "elapsed hw start s1 + 8 * rank x' \<le> 155" using r(1) d 1(2) by linarith
      ultimately show ?thesis using 1(1) [of x' s1] timed_loop_continue [of body x s x' s1 hw start, OF c] by simp
    next
      case (Hold x')
      obtain a d where s1: "s1 = (a, d)" by (cases s1)
      then have c: "body x s = (Ok (Hold x'), (a, d))" using b Ok Hold by simp
      have r: "rank x' \<le> rank x" "drift hw quiet 8 (snd s) (snd (a, d))" using turning_hold [OF t c] by simp_all
      note q = drift_elapsed [OF r(2) small]
      show ?thesis
      proof (cases "90 < timer_ticks hw d - start")
        case True
        then show ?thesis using timed_loop_hold [of body x s x' a d hw start, OF c] by simp
      next
        case False
        then have e: "elapsed hw start (a, d) \<le> 90" by (simp add: elapsed_def word_less_nat_alt)
        have "((x', (a, cpu_hlt hw d)), (x, s)) \<in> ?M" using hlt_elapsed [OF e] e q by auto
        moreover have "rank x' \<le> 8" using t by (simp add: turning_def)
        then have "elapsed hw start (a, cpu_hlt hw d) + 8 * rank x' \<le> 155" using hlt_elapsed [OF e] e by auto
        ultimately show ?thesis using 1(1) [of x' "(a, cpu_hlt hw d)"] False timed_loop_hold [of body x s x' a d hw start, OF c] by simp
      qed
    qed
  next
    case Panic
    then have "timed_loop hw body start x s = Some (Panic, s1)" using b by (simp add: timed_loop.simps [of hw body start x s])
    then show ?thesis using b Panic by blast
  qed (use b bs in \<open>simp_all add: timed_loop.simps [of hw body start x s]\<close>)
qed

lemma wait_loop_ends:
  assumes "turning hw quiet rank body" and "\<And>x s. fst (body x s) \<noteq> Diverge"
  shows "fst (wait_loop hw body x s) \<noteq> Diverge
     \<and> (fst (wait_loop hw body x s) = Panic \<longrightarrow> (\<exists>y s0. body y s0 = (Panic, snd (wait_loop hw body x s))))"
proof -
  have "rank x \<le> 8" using assms(1) by (simp add: turning_def)
  then have "elapsed hw (timer_ticks hw (snd s)) s + 8 * rank x \<le> 155" by (simp add: elapsed_def)
  from timed_loop_ends [OF assms this]
  obtain r s' where "timed_loop hw body (timer_ticks hw (snd s)) x s = Some (r, s')" "r \<noteq> Diverge"
    "r = Panic \<longrightarrow> (\<exists>y s0. body y s0 = (Panic, s'))" by blast
  then show ?thesis unfolding wait_loop_def by simp
qed

lemma safe_wait_loop:
  assumes "turning hw quiet rank body" and "\<And>x. safe (body x)"
  shows "safe (wait_loop hw body x)"
  unfolding safe_def
proof
  fix s :: "'d nic_state"
  have d: "fst (body y t) \<noteq> Diverge" for y t using assms(2) [of y] by (simp add: safe_def del: split_paired_All)
  have p: "out_of_frames (fst s')" if "body y t = (Panic, s')" for y t s'
    using assms(2) [of y, unfolded safe_def, rule_format, of t] that by simp
  show "fst (wait_loop hw body x s) \<noteq> Diverge \<and> (fst (wait_loop hw body x s) = Panic \<longrightarrow> out_of_frames (fst (snd (wait_loop hw body x s))))"
    using wait_loop_ends [OF assms(1) d, of x s] p by blast
qed

end

end
