(* ===== verification/E1000_Time.thy ===== *)
theory E1000_Time
  imports E1000_Link Timing
begin

text \<open>
  Every function of the driver returns, whatever the card and the network do: the clock interface
  \<open>ticking\<close> of \<open>Timing\<close> applied to the loops of the driver, and interpreted on the card of \<open>E1000_Link\<close>.
\<close>

section \<open>Decisions on received frames\<close>

lemma decides_parse [simp]: "decides (parse_reply_frame data ip src)"
  using parse_reply_frame_total [of data ip src] by auto

lemma decides_ping [simp]: "decides (ping_reply_matches data ip)"
  using ping_reply_matches_total [of data ip] by auto

lemma decides_dns [simp]: "decides (dns_reply data ip query)"
  using dns_reply_total [of data ip query] by auto

lemma decides_accepts [simp]:
  "decides (arp_accept ip data)" "decides (ping_accept ip data)" "decides (syn_accept ip port data)"
  "decides (syn_result_of ip port sp iss data)" "decides (echo_of ip port sp ack data)" "decides (fin_of ip port sp data)"
  unfolding arp_accept_def ping_accept_def syn_accept_def syn_result_of_def echo_of_def fin_of_def
  by (auto intro!: decides_obind simp: is_matching_reply_def split: option.splits)

lemma decides_build_query [simp]: "decides (build_query tid h qt)"
  using encode_qname_spec [of h "query_header tid"]
  by (auto simp: build_query_eq decides_def split: prod.splits) (metis is_err.simps obind.simps outcome.exhaust outcome.distinct)+

context ticking
begin

lemma calm_regs [simp]: "calm hw quiet 1 (read_reg hw base r)" "calm hw quiet 1 (write_reg hw base r v)"
  using mmio_read_time [of _ "base + r"] mmio_write_time [of _ "base + r" v]
  by (auto simp: calm_def read_reg_def write_reg_def dev_get_def dev_do_def split: prod.splits) (metis snd_conv)+

lemma calm_store_rx [simp]: "calm hw quiet 1 (dev_do (store_rx hw ring i y))"
  using store_time by (simp add: calm_def dev_do_def store_rx_def split: prod.splits)

section \<open>The driver\<close>

lemma calm_poll: "calm hw quiet 3 (poll_rx hw ring buf slot)"
proof -
  have "calm hw quiet (1 + (1 + 0)) (io_bind (dev_get (vol_load hw x k)) (\<lambda>len. io_bind (dev_get (vol_load hw y (g len))) (\<lambda>data. io_ret (Some data))))"
    for x k y g
    by (intro calm_bind calm_load) simp
  then have "calm hw quiet (1 + (1 + (1 + 0))) (poll_rx hw ring buf slot)"
    unfolding poll_rx_def by (intro calm_bind calm_load) (simp split: if_split)
  then show ?thesis by (simp add: numeral_3_eq_3)
qed

text \<open>How many ticks the parts of a turn may take.\<close>

lemma turn_poll: "(\<And>r. turn_ok hw quiet rank n 5 (f r)) \<Longrightarrow> turn_ok hw quiet rank n 8 (io_bind (poll_rx hw ring buf slot) f)"
  by (rule turn_ok_bind [OF calm_poll, where t = 5]) simp_all

lemma turn_load: "(\<And>r. turn_ok hw quiet rank n 5 (f r)) \<Longrightarrow> turn_ok hw quiet rank n 8 (io_bind (dev_get (vol_load hw x k)) f)"
  by (rule turn_ok_bind [OF calm_load, where t = 5]) simp_all

lemma turn_rearm: "(\<And>r. turn_ok hw quiet rank n 3 (f r)) \<Longrightarrow>
    turn_ok hw quiet rank n 5 (io_bind (dev_do (store_rx hw ring i y)) (\<lambda>_. io_bind (write_reg hw base reg v) f))"
  by (rule turn_ok_bind [OF calm_store_rx turn_ok_bind [OF calm_regs(2), where u = 4 and t = 3]]) simp_all

lemmas turn_steps = turn_poll turn_load turn_rearm turn_ok_lift

lemma safe_poll [simp]: "safe (poll_rx hw ring buf slot)"
  unfolding poll_rx_def by (intro safe_bind) (simp_all add: safe_bind)

lemma safe_regs [simp]: "safe (read_reg hw base r)" "safe (write_reg hw base r v)"
  by (simp_all add: read_reg_def write_reg_def)

lemma tx_turns: "turning hw quiet (\<lambda>_. 0) (tx_turn hw ring slot)" "safe (tx_turn hw ring slot u)"
  unfolding turning_def tx_turn_def
  by (auto intro!: turn_steps safe_bind simp: turn_ok_leave turn_ok_hold)

lemma rx_turns:
  assumes "\<And>data. decides (accept data)"
  shows "turning hw quiet (\<lambda>_. 0) (rx_turn hw base ring buf accept)" "safe (rx_turn hw base ring buf accept u)"
  unfolding turning_def rx_turn_def
  using assms by (auto intro!: turn_steps safe_bind simp: turn_ok_leave turn_ok_hold split: option.splits)

lemma echo_turns:
  assumes "\<And>data. decides (accept data)"
  shows "turning hw quiet (\<lambda>slot. 7 - slot) (echo_turn hw ring buf accept)" "safe (echo_turn hw ring buf accept k)"
  unfolding turning_def echo_turn_def NUM_RX_SLOTS_def
  using assms by (auto intro!: turn_steps safe_bind simp: turn_ok_leave turn_ok_hold turn_ok_continue split: option.splits)

lemma close_turns:
  assumes "\<And>data. decides (accept data)" and "\<And>seq. safe (answer seq)"
  shows "turning hw quiet (\<lambda>slot. 7 - slot) (close_turn hw ring buf accept answer)" "safe (close_turn hw ring buf accept answer k)"
  unfolding turning_def close_turn_def NUM_RX_SLOTS_def
  using assms by (auto intro!: turn_steps safe_bind simp: turn_ok_leave turn_ok_hold turn_ok_continue split: option.splits)

lemma syn_turns:
  assumes "\<And>data. decides (syn_result_of ip port sp iss data)"
  shows "turning hw quiet (\<lambda>_. 0) (syn_turn hw ring buf ip port sp iss)" "safe (syn_turn hw ring buf ip port sp iss u)"
  unfolding turning_def syn_turn_def
  using assms by (auto intro!: turn_steps safe_bind simp: turn_ok_leave turn_ok_hold split: option.splits)

lemma safe_bring_up [simp]: "safe (bring_up hw)" "safe (find_mmio_base hw)"
  unfolding bring_up_def find_mmio_base_def find_e1000_def read_mac_def
  by (auto intro!: safe_bind simp: Let_def split: option.splits)

lemma safe_rings [simp]: "safe (arm_rx hw base ring buf n)" "safe (clear_tx hw ring)" "safe (program_tx hw base ring)"
    "safe (send_single hw base ring buf frame)"
  unfolding arm_rx_def clear_tx_def program_tx_def send_single_def by (auto intro!: safe_bind)

lemma safe_waits [simp]: "safe (wait_loop hw (tx_turn hw ring k) ())" "safe (wait_tx hw ring k msg)"
    "safe (send_and_wait hw base ring buf k frame)"
  using safe_wait_loop [OF tx_turns] unfolding wait_tx_def send_and_wait_def
  by (auto intro!: safe_bind split: option.splits)

lemma safe_exchange: "(\<And>data. decides (accept data)) \<Longrightarrow> safe (exchange hw base frame msg accept)"
  unfolding exchange_def by (intro safe_bind) (simp_all add: safe_wait_loop [OF rx_turns])

lemma safe_send_test: "safe (send_test_frame hw)"
  unfolding send_test_frame_def by (auto intro!: safe_bind split: option.splits)

lemma safe_arp [simp]: "safe (arp_resolve hw ip)"
  unfolding arp_resolve_def by (auto intro!: safe_bind safe_exchange split: option.splits)

lemma safe_ping: "safe (ping hw ip)"
  unfolding ping_def by (auto intro!: safe_bind safe_exchange split: option.splits)

lemma safe_tcp_syn: "safe (tcp_syn_test hw ip port)"
  unfolding tcp_syn_test_def by (auto intro!: safe_bind safe_exchange split: option.splits)

lemma safe_dns [simp]: "safe (dns_query_test hw ip h)"
  unfolding dns_query_test_def by (auto intro!: safe_bind safe_exchange split: option.splits)

lemma safe_resolve: "safe (resolve_hostname hw h ip)"
  unfolding resolve_hostname_def by (auto intro!: safe_bind split: option.splits)

lemma safe_echo: "safe (tcp_echo_test hw ip port sp iss payload)"
  unfolding tcp_echo_test_def Let_def
  by (auto intro!: safe_bind safe_wait_loop [OF syn_turns] safe_wait_loop [OF echo_turns] safe_wait_loop [OF close_turns]
      split: option.splits syn_result.splits)

lemma receive_test_ends: "fst (receive_test_frame hw s) \<noteq> Diverge"
proof -
  have turns: "turning hw quiet (\<lambda>_. 0) (test_turn hw ring buf)" for ring buf
    unfolding turning_def test_turn_def by (auto intro!: turn_steps simp: turn_ok_leave turn_ok_hold split: option.splits)
  have "fst (test_turn hw ring buf u s) \<noteq> Diverge" for ring buf u s
    using safe_poll [of ring buf 0]
    by (auto simp: safe_def test_turn_def io_bind_def test_frame_seen_def slice_def split: outcome.splits option.splits simp del: split_paired_All)
  then have w: "ends (wait_loop hw (test_turn hw ring buf) ())" for ring buf
    using wait_loop_ends [OF turns] by (auto simp: ends_def)
  have "ends (\<lambda>s. case send_test_frame hw s of (r, s') \<Rightarrow> (result_ok r, s'))"
  proof -
    have "fst (send_test_frame hw s) \<noteq> Diverge" for s using safe_send_test by (simp add: safe_def del: split_paired_All)
    then show ?thesis unfolding ends_def by (auto split: prod.splits) (metis fst_conv result_ok.simps outcome.exhaust outcome.distinct)
  qed
  then have "ends (receive_test_frame hw)"
    unfolding receive_test_frame_def
    by (auto intro!: ends_bind w simp: safe_ends split: option.splits)
  then show ?thesis by (simp add: ends_def del: split_paired_All)
qed

end

section \<open>The clock of the card\<close>

lemma nic_tx_run_ticks [simp]: "nd_ticks (nic_tx_run n e d) = nd_ticks d"
  by (induction n arbitrary: d) (simp_all add: nic_tx_one_def Let_def)

interpretation card: ticking "e1000_hw e" "\<lambda>_. 0" for e
  by unfold_locales (auto intro!: drift_still simp: e1000_hw_def Let_def nic_transmit_def)

section \<open>Properties\<close>

text \<open>
  C9: On every hardware with a ticking clock, whatever the network card writes to memory and whatever
  frames arrive, all functions of the driver come back: sending and receiving test frames, address resolution, ping, the TCP
  handshake, the TCP echo exchange, the DNS query and name resolution. Apart from the receive test,
  they panic only if the allocator has run out of physical frames.
\<close>

theorem e1000_returns:
  assumes "ticking hw quiet"
  shows "safe (send_test_frame hw) \<and> safe (arp_resolve hw ip) \<and> safe (ping hw ip) \<and> safe (tcp_syn_test hw ip port)
     \<and> safe (tcp_echo_test hw ip port src_port initial_seq payload) \<and> safe (dns_query_test hw ip hostname)
     \<and> safe (resolve_hostname hw hostname ip) \<and> ends (receive_test_frame hw)"
proof -
  note t = assms
  show ?thesis
    using ticking.safe_send_test [OF t] ticking.safe_arp [OF t] ticking.safe_ping [OF t] ticking.safe_tcp_syn [OF t]
      ticking.safe_echo [OF t] ticking.safe_dns [OF t] ticking.safe_resolve [OF t] ticking.receive_test_ends [OF t]
    by (simp add: ends_def del: split_paired_All)
qed

text \<open>A card on a network that never answers.\<close>

definition silent_env :: nic_env where
  "silent_env = \<lparr>ne_device = 3, ne_function = 0, ne_offset = 0x18000000000, ne_peer = (\<lambda>hist frame. [])\<rparr>"

theorem e1000_returns_witness:
  "safe (arp_resolve (e1000_hw silent_env) [10, 0, 2, 2]) \<and> ends (receive_test_frame (e1000_hw silent_env))"
  using e1000_returns [OF card.ticking_axioms, of silent_env "[10, 0, 2, 2]"] by blast

end
