(* ===== verification/Virtio.thy ===== *)
theory Virtio
  imports E1000_Frames Dma
begin

text \<open>
  Model of \<^verbatim>\<open>net/virtio.rs\<close>: the legacy virtio network device behind an I/O port window, its two virtqueues
  in memory shared with the device, and the transmission and reception of test frames. The hardware is
  the parameter of \<open>Dma\<close>. Console output is left out; accesses to the device made for it are kept.
\<close>

section \<open>Definitions: ports\<close>

definition VIRTIO_VENDOR_ID :: u16 where "VIRTIO_VENDOR_ID = 0x1af4"
definition VIRTIO_NET_DEVICE_ID :: u16 where "VIRTIO_NET_DEVICE_ID = 0x1000"

definition VIRTIO_PCI_HOST_FEATURES :: u16 where "VIRTIO_PCI_HOST_FEATURES = 0"
definition VIRTIO_PCI_GUEST_FEATURES :: u16 where "VIRTIO_PCI_GUEST_FEATURES = 4"
definition VIRTIO_PCI_QUEUE_PFN :: u16 where "VIRTIO_PCI_QUEUE_PFN = 8"
definition VIRTIO_PCI_QUEUE_NUM :: u16 where "VIRTIO_PCI_QUEUE_NUM = 12"
definition VIRTIO_PCI_QUEUE_SEL :: u16 where "VIRTIO_PCI_QUEUE_SEL = 14"
definition VIRTIO_PCI_QUEUE_NOTIFY :: u16 where "VIRTIO_PCI_QUEUE_NOTIFY = 16"
definition VIRTIO_PCI_STATUS :: u16 where "VIRTIO_PCI_STATUS = 18"
definition VIRTIO_PCI_ISR :: u16 where "VIRTIO_PCI_ISR = 19"
definition VIRTIO_PCI_CONFIG_OFF_NO_MSIX :: u16 where "VIRTIO_PCI_CONFIG_OFF_NO_MSIX = 20"

definition VIRTIO_NET_F_MAC :: u32 where "VIRTIO_NET_F_MAC = push_bit 5 1"

definition VIRTIO_STATUS_ACKNOWLEDGE :: u8 where "VIRTIO_STATUS_ACKNOWLEDGE = 1"
definition VIRTIO_STATUS_DRIVER :: u8 where "VIRTIO_STATUS_DRIVER = 2"
definition VIRTIO_STATUS_DRIVER_OK :: u8 where "VIRTIO_STATUS_DRIVER_OK = 4"

definition RX_QUEUE_INDEX :: u16 where "RX_QUEUE_INDEX = 0"
definition TX_QUEUE_INDEX :: u16 where "TX_QUEUE_INDEX = 1"
definition VRING_ALIGN :: u64 where "VRING_ALIGN = 4096"
definition FRAME_SIZE :: u64 where "FRAME_SIZE = 4096"
definition VIRTIO_NET_HDR_LEN :: nat where "VIRTIO_NET_HDR_LEN = 10"
definition VRING_DESC_F_WRITE :: u16 where "VRING_DESC_F_WRITE = 2"

lemmas virtio_constants = VIRTIO_PCI_HOST_FEATURES_def VIRTIO_PCI_GUEST_FEATURES_def VIRTIO_PCI_QUEUE_PFN_def
  VIRTIO_PCI_QUEUE_NUM_def VIRTIO_PCI_QUEUE_SEL_def VIRTIO_PCI_QUEUE_NOTIFY_def VIRTIO_PCI_STATUS_def VIRTIO_PCI_ISR_def
  VIRTIO_PCI_CONFIG_OFF_NO_MSIX_def RX_QUEUE_INDEX_def TX_QUEUE_INDEX_def VRING_DESC_F_WRITE_def

definition find_virtio_net :: "('d, 'z) nic_hw_scheme \<Rightarrow> ('d nic_state, pci_device option) io" where
  "find_virtio_net hw = io_bind (dev_get (scan_bus0 hw)) (\<lambda>devs.
     io_ret (find (\<lambda>d. vendor_id d = VIRTIO_VENDOR_ID \<and> device_id d = VIRTIO_NET_DEVICE_ID) devs))"

definition find_io_base :: "('d, 'z) nic_hw_scheme \<Rightarrow> ('d nic_state, pci_device \<times> u16) io" where
  "find_io_base hw = io_bind (find_virtio_net hw) (\<lambda>r. case r of
     None \<Rightarrow> io_err ''no virtio-net device found on bus 0''
   | Some dev \<Rightarrow> io_bind (dev_get (read_bar0 hw dev)) (\<lambda>bar0.
       if bar0 AND 0x1 = 0 then io_err ''virtio-net BAR0 is memory-space - not supported yet''
       else let io_base = ucast (bar0 AND 0xFFFFFFFC) in io_ret (dev, io_base)))"

definition read_port_u32 :: "('d, 'z) nic_hw_scheme \<Rightarrow> u16 \<Rightarrow> u16 \<Rightarrow> ('d nic_state, u32) io" where
  "read_port_u32 hw base offset = dev_get (port_read32 hw (base + offset))"

definition read_port_u16 :: "('d, 'z) nic_hw_scheme \<Rightarrow> u16 \<Rightarrow> u16 \<Rightarrow> ('d nic_state, u16) io" where
  "read_port_u16 hw base offset = dev_get (port_read16 hw (base + offset))"

definition write_port_u16 :: "('d, 'z) nic_hw_scheme \<Rightarrow> u16 \<Rightarrow> u16 \<Rightarrow> u16 \<Rightarrow> ('d nic_state, unit) io" where
  "write_port_u16 hw base offset v = dev_do (port_write16 hw (base + offset) v)"

definition write_port_u32 :: "('d, 'z) nic_hw_scheme \<Rightarrow> u16 \<Rightarrow> u16 \<Rightarrow> u32 \<Rightarrow> ('d nic_state, unit) io" where
  "write_port_u32 hw base offset v = dev_do (port_write32 hw (base + offset) v)"

definition read_port_u8 :: "('d, 'z) nic_hw_scheme \<Rightarrow> u16 \<Rightarrow> u16 \<Rightarrow> ('d nic_state, u8) io" where
  "read_port_u8 hw base offset = dev_get (port_read8 hw (base + offset))"

definition write_port_u8 :: "('d, 'z) nic_hw_scheme \<Rightarrow> u16 \<Rightarrow> u16 \<Rightarrow> u8 \<Rightarrow> ('d nic_state, unit) io" where
  "write_port_u8 hw base offset v = dev_do (port_write8 hw (base + offset) v)"

primrec read_mac_bytes :: "nat \<Rightarrow> ('d, 'z) nic_hw_scheme \<Rightarrow> u16 \<Rightarrow> u16 \<Rightarrow> ('d nic_state, bytes) io" where
  "read_mac_bytes 0 hw io_base offset = io_ret []"
| "read_mac_bytes (Suc n) hw io_base offset =
     io_bind (read_port_u8 hw io_base offset) (\<lambda>b.
     io_bind (read_mac_bytes n hw io_base (offset + 1)) (\<lambda>bs. io_ret (b # bs)))"

definition read_mac_at :: "('d, 'z) nic_hw_scheme \<Rightarrow> u16 \<Rightarrow> u16 \<Rightarrow> ('d nic_state, bytes) io" where
  "read_mac_at hw io_base config_offset = read_mac_bytes 6 hw io_base config_offset"

text \<open>What \<^verbatim>\<open>probe\<close> prints: the features, the status, the interrupt status (cleared by reading) and the address.\<close>

definition virtio_probe :: "('d, 'z) nic_hw_scheme \<Rightarrow> ('d nic_state, (u32 \<times> u8 \<times> u8 \<times> bool \<times> bytes) option) io" where
  "virtio_probe hw =
     io_bind (\<lambda>s. case find_io_base hw s of (r, s') \<Rightarrow> (result_ok r, s')) (\<lambda>r. case r of
        None \<Rightarrow> io_ret None
      | Some (dev, io_base) \<Rightarrow>
          io_bind (dev_get (read_bar0 hw dev)) (\<lambda>bar0.
          io_bind (read_port_u32 hw io_base VIRTIO_PCI_HOST_FEATURES) (\<lambda>features.
          io_bind (read_port_u8 hw io_base VIRTIO_PCI_STATUS) (\<lambda>status.
          io_bind (read_port_u8 hw io_base VIRTIO_PCI_ISR) (\<lambda>isr.
          io_bind (read_mac_at hw io_base VIRTIO_PCI_CONFIG_OFF_NO_MSIX) (\<lambda>mac.
          io_ret (Some (features, status, isr, features AND VIRTIO_NET_F_MAC \<noteq> 0, mac))))))))"

section \<open>Definitions: virtqueues\<close>

text \<open>\<^verbatim>\<open>u64::div_ceil\<close>.\<close>

definition div_ceil64 :: "u64 \<Rightarrow> u64 \<Rightarrow> u64" where
  "div_ceil64 x y = (if x mod y = 0 then x div y else x div y + 1)"

definition vring_size :: "u64 \<Rightarrow> u64 \<Rightarrow> u64" where
  "vring_size num align =
     (let desc_and_avail = 16 * num + 2 * (num + 3);
          aligned = div_ceil64 desc_and_avail align * align
      in aligned + 2 * 3 + 8 * num)"

definition vring_offsets :: "u64 \<Rightarrow> u64 \<Rightarrow> u64 \<times> u64 \<times> u64" where
  "vring_offsets queue_num align =
     (let desc_offset = 0;
          avail_offset = 16 * queue_num;
          avail_end = avail_offset + 2 * (queue_num + 3);
          used_offset = div_ceil64 avail_end align * align
      in (desc_offset, avail_offset, used_offset))"

primrec contiguous_loop :: "nat \<Rightarrow> u64 \<Rightarrow> ('d nic_state, unit) io" where
  "contiguous_loop 0 expected_next = io_ret ()"
| "contiguous_loop (Suc n) expected_next =
     io_bind global_allocate_frame (\<lambda>f.
       if f \<noteq> expected_next then io_err ''virtio: frame allocator did not return contiguous frames''
       else contiguous_loop n (expected_next + FRAME_SIZE))"

definition allocate_contiguous_frames :: "u64 \<Rightarrow> ('d nic_state, u64) io" where
  "allocate_contiguous_frames count =
     io_bind global_allocate_frame (\<lambda>first_addr.
     io_bind (contiguous_loop (unat count - 1) (first_addr + FRAME_SIZE)) (\<lambda>_. io_ret first_addr))"

definition load16 :: "('d, 'z) nic_hw_scheme \<Rightarrow> u64 \<Rightarrow> ('d nic_state, u16) io" where
  "load16 hw p = io_bind (dev_get (vol_load hw p 2)) (\<lambda>b. io_ret (le16 (b ! 0) (b ! 1)))"

definition load32 :: "('d, 'z) nic_hw_scheme \<Rightarrow> u64 \<Rightarrow> ('d nic_state, u32) io" where
  "load32 hw p = io_bind (dev_get (vol_load hw p 4)) (\<lambda>b. io_ret (le32 (b ! 0) (b ! 1) (b ! 2) (b ! 3)))"

definition store16 :: "('d, 'z) nic_hw_scheme \<Rightarrow> u64 \<Rightarrow> u16 \<Rightarrow> ('d nic_state, unit) io" where
  "store16 hw p v = dev_do (vol_store hw p (le_bytes16 v))"

definition write_bytes :: "('d, 'z) nic_hw_scheme \<Rightarrow> u64 \<Rightarrow> u8 \<Rightarrow> nat \<Rightarrow> ('d nic_state, unit) io" where
  "write_bytes hw p v n = dev_do (vol_store hw p (replicate n v))"

text \<open>Writing one descriptor, and publishing its index in the available ring: first the entry, then the index.\<close>

definition write_desc :: "('d, 'z) nic_hw_scheme \<Rightarrow> u64 \<Rightarrow> u64 \<Rightarrow> u32 \<Rightarrow> u16 \<Rightarrow> ('d nic_state, unit) io" where
  "write_desc hw p addr len flags =
     io_bind (dev_do (vol_store hw p (le_bytes64 addr))) (\<lambda>_.
     io_bind (dev_do (vol_store hw (p + 8) (le_bytes32 len))) (\<lambda>_.
     io_bind (store16 hw (p + 12) flags) (\<lambda>_.
     store16 hw (p + 14) 0)))"

definition publish :: "('d, 'z) nic_hw_scheme \<Rightarrow> u64 \<Rightarrow> u64 \<Rightarrow> u16 \<Rightarrow> ('d nic_state, unit) io" where
  "publish hw avail_ptr queue_num desc_index =
     io_bind (load16 hw (avail_ptr + 2)) (\<lambda>avail_idx.
       if queue_num = 0 then io_lift Panic
       else let ring_slot = ucast avail_idx mod queue_num in
         io_bind (store16 hw (avail_ptr + 2 * (2 + ring_slot)) desc_index) (\<lambda>_.
         store16 hw (avail_ptr + 2) (avail_idx + 1)))"

record tx_queue_info =
  tq_queue_num :: u16
  tq_frames_needed :: u64
  tq_pfn :: u32
  tq_pfn_readback :: u32
  tq_final_status :: u8
  tq_io_base :: u16
  tq_virt_base :: u64

text \<open>The set-up of the selected queue: its size, zeroed memory for it, and its page number handed to the device.\<close>

definition setup_queue :: "('d, 'z) nic_hw_scheme \<Rightarrow> u16 \<Rightarrow> string \<Rightarrow> ('d nic_state, u16 \<times> u64 \<times> u64 \<times> u32 \<times> u32) io" where
  "setup_queue hw io_base e =
     io_bind (read_port_u16 hw io_base VIRTIO_PCI_QUEUE_NUM) (\<lambda>queue_num.
       if queue_num = 0 then io_err e
       else let frames_needed = div_ceil64 (vring_size (ucast queue_num) VRING_ALIGN) FRAME_SIZE in
         io_bind (allocate_contiguous_frames frames_needed) (\<lambda>phys_base.
         let virt_base = phys_mem_offset hw + phys_base; pfn = ucast (phys_base div FRAME_SIZE) in
         io_bind (write_bytes hw virt_base 0 (unat (frames_needed * FRAME_SIZE))) (\<lambda>_.
         io_bind (write_port_u32 hw io_base VIRTIO_PCI_QUEUE_PFN pfn) (\<lambda>_.
         io_bind (read_port_u32 hw io_base VIRTIO_PCI_QUEUE_PFN) (\<lambda>pfn_readback.
         io_ret (queue_num, frames_needed, virt_base, pfn, pfn_readback))))))"

definition init_tx_queue :: "('d, 'z) nic_hw_scheme \<Rightarrow> ('d nic_state, tx_queue_info) io" where
  "init_tx_queue hw =
     io_bind (find_io_base hw) (\<lambda>(dev, io_base).
     io_bind (dev_do (enable_bus_mastering hw dev)) (\<lambda>_.
     io_bind (write_port_u8 hw io_base VIRTIO_PCI_STATUS VIRTIO_STATUS_ACKNOWLEDGE) (\<lambda>_.
     io_bind (write_port_u8 hw io_base VIRTIO_PCI_STATUS (VIRTIO_STATUS_ACKNOWLEDGE OR VIRTIO_STATUS_DRIVER)) (\<lambda>_.
     io_bind (write_port_u32 hw io_base VIRTIO_PCI_GUEST_FEATURES 0) (\<lambda>_.
     io_bind (write_port_u16 hw io_base VIRTIO_PCI_QUEUE_SEL TX_QUEUE_INDEX) (\<lambda>_.
     io_bind (setup_queue hw io_base ''virtio: TX queue_num read back as 0 - queue not available'')
       (\<lambda>(queue_num, frames_needed, virt_base, pfn, pfn_readback).
     io_bind (write_port_u8 hw io_base VIRTIO_PCI_STATUS
        (VIRTIO_STATUS_ACKNOWLEDGE OR VIRTIO_STATUS_DRIVER OR VIRTIO_STATUS_DRIVER_OK)) (\<lambda>_.
     io_bind (read_port_u8 hw io_base VIRTIO_PCI_STATUS) (\<lambda>final_status.
     io_ret \<lparr>tq_queue_num = queue_num, tq_frames_needed = frames_needed, tq_pfn = pfn, tq_pfn_readback = pfn_readback,
             tq_final_status = final_status, tq_io_base = io_base, tq_virt_base = virt_base\<rparr>)))))))))"

section \<open>Definitions: transmission\<close>

record tx_send_info =
  ts_used_idx_before :: u16
  ts_used_idx_after :: u16
  ts_used_elem_id :: u32
  ts_used_elem_len :: u32

text \<open>The bounded polling of a used ring index.\<close>

definition USED_POLLS :: nat where "USED_POLLS = 1000000"

primrec poll_used :: "nat \<Rightarrow> ('d, 'z) nic_hw_scheme \<Rightarrow> u64 \<Rightarrow> u16 \<Rightarrow> u16 \<Rightarrow> ('d nic_state, u16) io" where
  "poll_used 0 hw p before after = io_ret after"
| "poll_used (Suc n) hw p before after =
     io_bind (load16 hw p) (\<lambda>x. if x \<noteq> before then io_ret x else poll_used n hw p before x)"

definition test_frame :: "bytes \<Rightarrow> bytes" where
  "test_frame mac = replicate 6 0xFF @ mac @ be_bytes16 0x88B5 @ map (\<lambda>c. of_nat (of_char c)) ''agentos virtio tx test''"

definition virtio_send_test_frame :: "('d, 'z) nic_hw_scheme \<Rightarrow> tx_queue_info \<Rightarrow> ('d nic_state, tx_send_info) io" where
  "virtio_send_test_frame hw info =
     io_bind (find_io_base hw) (\<lambda>(_, io_base).
     io_bind (read_mac_at hw io_base VIRTIO_PCI_CONFIG_OFF_NO_MSIX) (\<lambda>mac.
     io_bind global_allocate_frame (\<lambda>buf_phys.
     let buf = replicate VIRTIO_NET_HDR_LEN 0 @ test_frame mac; queue_num = ucast (tq_queue_num info) in
     io_bind (dev_do (vol_store hw (phys_mem_offset hw + buf_phys) buf)) (\<lambda>_.
     case vring_offsets queue_num VRING_ALIGN of (desc_off, avail_off, used_off) \<Rightarrow>
       let desc_ptr = tq_virt_base info + desc_off; avail_ptr = tq_virt_base info + avail_off;
           used_ptr = tq_virt_base info + used_off
       in
       io_bind (write_desc hw desc_ptr buf_phys (of_nat (length buf)) 0) (\<lambda>_.
       io_bind (publish hw avail_ptr queue_num 0) (\<lambda>_.
       io_bind (load16 hw (used_ptr + 2)) (\<lambda>used_idx_before.
       io_bind (write_port_u16 hw io_base VIRTIO_PCI_QUEUE_NOTIFY TX_QUEUE_INDEX) (\<lambda>_.
       io_bind (poll_used USED_POLLS hw (used_ptr + 2) used_idx_before used_idx_before) (\<lambda>used_idx_after.
       io_bind (load32 hw (used_ptr + 4)) (\<lambda>used_elem_id.
       io_bind (load32 hw (used_ptr + 8)) (\<lambda>used_elem_len.
       io_ret \<lparr>ts_used_idx_before = used_idx_before, ts_used_idx_after = used_idx_after,
               ts_used_elem_id = used_elem_id, ts_used_elem_len = used_elem_len\<rparr>)))))))))))"

section \<open>Definitions: reception\<close>

record rx_queue_info =
  rq_queue_num :: u16
  rq_frames_needed :: u64
  rq_pfn :: u32
  rq_pfn_readback :: u32
  rq_io_base :: u16
  rq_virt_base :: u64
  rq_buf_phys :: u64
  rq_buf_virt :: u64
  rq_buf_len :: nat
  rq_desc_flags_readback :: u16
  rq_avail_idx_after :: u16

definition init_rx_queue :: "('d, 'z) nic_hw_scheme \<Rightarrow> tx_queue_info \<Rightarrow> ('d nic_state, rx_queue_info) io" where
  "init_rx_queue hw tx_info =
     (let io_base = tq_io_base tx_info in
     io_bind (write_port_u16 hw io_base VIRTIO_PCI_QUEUE_SEL RX_QUEUE_INDEX) (\<lambda>_.
     io_bind (setup_queue hw io_base ''virtio: RX queue_num read back as 0 - queue not available'')
       (\<lambda>(queue_num, frames_needed, virt_base, pfn, pfn_readback).
     let buf_len = 2048 in
     io_bind global_allocate_frame (\<lambda>buf_phys.
     let buf_virt = phys_mem_offset hw + buf_phys in
     io_bind (write_bytes hw buf_virt 0 buf_len) (\<lambda>_.
     case vring_offsets (ucast queue_num) VRING_ALIGN of (desc_off, avail_off, _) \<Rightarrow>
       let desc_ptr = virt_base + desc_off; avail_ptr = virt_base + avail_off in
       io_bind (write_desc hw desc_ptr buf_phys (of_nat buf_len) VRING_DESC_F_WRITE) (\<lambda>_.
       io_bind (load16 hw (desc_ptr + 12)) (\<lambda>desc_flags_readback.
       io_bind (publish hw avail_ptr (ucast queue_num) 0) (\<lambda>_.
       io_bind (load16 hw (avail_ptr + 2)) (\<lambda>avail_idx_after.
       io_bind (write_port_u16 hw io_base VIRTIO_PCI_QUEUE_NOTIFY RX_QUEUE_INDEX) (\<lambda>_.
       io_ret \<lparr>rq_queue_num = queue_num, rq_frames_needed = frames_needed, rq_pfn = pfn, rq_pfn_readback = pfn_readback,
               rq_io_base = io_base, rq_virt_base = virt_base, rq_buf_phys = buf_phys, rq_buf_virt = buf_virt,
               rq_buf_len = buf_len, rq_desc_flags_readback = desc_flags_readback,
               rq_avail_idx_after = avail_idx_after\<rparr>))))))))))"

record rx_recv_info =
  rr_used_idx_before :: u16
  rr_used_idx_after :: u16
  rr_received_len :: u32
  rr_is_arp_reply :: bool
  rr_gateway_ip :: "bytes option"

definition used_turn :: "('d, 'z) nic_hw_scheme \<Rightarrow> u64 \<Rightarrow> u16 \<Rightarrow> unit \<Rightarrow> ('d nic_state, (unit, u16) turn) io" where
  "used_turn hw p before u =
     io_bind (load16 hw p) (\<lambda>x. io_ret (if x \<noteq> before then Leave x else Hold ()))"

text \<open>Re-arming descriptor 0 of the receive queue.\<close>

definition rearm_rx :: "('d, 'z) nic_hw_scheme \<Rightarrow> u16 \<Rightarrow> rx_queue_info \<Rightarrow> u64 \<Rightarrow> ('d nic_state, unit) io" where
  "rearm_rx hw io_base rx_info rx_avail_ptr =
     io_bind (write_bytes hw (rq_buf_virt rx_info) 0 (rq_buf_len rx_info)) (\<lambda>_.
     io_bind (publish hw rx_avail_ptr (ucast (rq_queue_num rx_info)) 0) (\<lambda>_.
     write_port_u16 hw io_base VIRTIO_PCI_QUEUE_NOTIFY RX_QUEUE_INDEX))"

definition ARP_DESC_INDEX :: u16 where "ARP_DESC_INDEX = 1"

text \<open>Sending the address request through descriptor 1; the result tells whether the device has used it.\<close>

definition send_arp_request :: "('d, 'z) nic_hw_scheme \<Rightarrow> tx_queue_info \<Rightarrow> bytes \<Rightarrow> ('d nic_state, bool) io" where
  "send_arp_request hw tx_info mac =
     io_bind global_allocate_frame (\<lambda>buf_phys.
     let buf = replicate VIRTIO_NET_HDR_LEN 0 @ arp_request mac [10, 0, 2, 2]; queue_num = ucast (tq_queue_num tx_info) in
     io_bind (dev_do (vol_store hw (phys_mem_offset hw + buf_phys) buf)) (\<lambda>_.
     case vring_offsets queue_num VRING_ALIGN of (desc_off, avail_off, used_off) \<Rightarrow>
       let desc_ptr = tq_virt_base tx_info + desc_off; avail_ptr = tq_virt_base tx_info + avail_off;
           used_ptr = tq_virt_base tx_info + used_off
       in
       io_bind (write_desc hw (desc_ptr + 16 * ucast ARP_DESC_INDEX) buf_phys (of_nat (length buf)) 0) (\<lambda>_.
       io_bind (publish hw avail_ptr queue_num ARP_DESC_INDEX) (\<lambda>_.
       io_bind (load16 hw (used_ptr + 2)) (\<lambda>tx_used_idx_before.
       io_bind (write_port_u16 hw (tq_io_base tx_info) VIRTIO_PCI_QUEUE_NOTIFY TX_QUEUE_INDEX) (\<lambda>_.
       io_bind (poll_used USED_POLLS hw (used_ptr + 2) tx_used_idx_before tx_used_idx_before) (\<lambda>tx_used_idx_after.
       io_ret (tx_used_idx_after \<noteq> tx_used_idx_before))))))))"

definition virtio_receive_test_frame ::
    "('d, 'z) nic_hw_scheme \<Rightarrow> tx_queue_info \<Rightarrow> rx_queue_info \<Rightarrow> ('d nic_state, rx_recv_info) io" where
  "virtio_receive_test_frame hw tx_info rx_info =
     io_bind (read_mac_at hw (tq_io_base tx_info) VIRTIO_PCI_CONFIG_OFF_NO_MSIX) (\<lambda>mac.
     case vring_offsets (ucast (rq_queue_num rx_info)) VRING_ALIGN of (rx_desc_off, rx_avail_off, rx_used_off) \<Rightarrow>
       let rx_avail_ptr = rq_virt_base rx_info + rx_avail_off; rx_used_ptr = rq_virt_base rx_info + rx_used_off in
       io_bind (rearm_rx hw (tq_io_base tx_info) rx_info rx_avail_ptr) (\<lambda>_.
       io_bind (load16 hw (rx_used_ptr + 2)) (\<lambda>used_idx_before.
       io_bind (send_arp_request hw tx_info mac) (\<lambda>tx_ok.
       if \<not> tx_ok then io_err ''virtio: RX test's own ARP request TX never completed''
       else io_bind (wait_loop hw (used_turn hw (rx_used_ptr + 2) used_idx_before) ()) (\<lambda>r. case r of
           None \<Rightarrow>
             io_bind (read_port_u8 hw (tq_io_base tx_info) VIRTIO_PCI_ISR) (\<lambda>isr.
             io_bind (dev_get (vol_load hw (rq_virt_base rx_info + rx_desc_off) 16)) (\<lambda>raw_desc.
             io_bind (dev_get (vol_load hw (rq_buf_virt rx_info) 16)) (\<lambda>raw_buf_head.
             io_bind (load16 hw (rx_avail_ptr + 2)) (\<lambda>avail_idx_now.
             io_err ''virtio: RX timed out waiting for a received frame''))))
         | Some used_idx_after \<Rightarrow>
             io_bind (load32 hw (rx_used_ptr + 4 + 4)) (\<lambda>received_len.
             let eth_len = unat received_len - VIRTIO_NET_HDR_LEN in
             io_bind (dev_get (vol_load hw (rq_buf_virt rx_info + of_nat VIRTIO_NET_HDR_LEN) eth_len)) (\<lambda>eth_data.
             io_ret \<lparr>rr_used_idx_before = used_idx_before, rr_used_idx_after = used_idx_after, rr_received_len = received_len,
                     rr_is_arp_reply = is_arp_reply eth_data,
                     rr_gateway_ip = (if 32 \<le> length eth_data then Some (sub eth_data 28 4) else None)\<rparr>)))))))"

section \<open>Definitions: the boot test\<close>

text \<open>What the kernel does with the device at boot; the result is what it prints.\<close>

definition virtio_boot_test :: "('d, 'z) nic_hw_scheme \<Rightarrow> ('d nic_state,
    string + (tx_queue_info \<times> (string + tx_send_info) \<times> (string + (rx_queue_info \<times> (string + rx_recv_info))))) io" where
  "virtio_boot_test hw =
     io_bind (io_match (init_tx_queue hw)) (\<lambda>r. case r of
        Inl e \<Rightarrow> io_ret (Inl e)
      | Inr info \<Rightarrow>
          io_bind (io_match (virtio_send_test_frame hw info)) (\<lambda>send.
          io_bind (io_match (init_rx_queue hw info)) (\<lambda>r. case r of
             Inl e \<Rightarrow> io_ret (Inr (info, send, Inl e))
           | Inr rx \<Rightarrow>
               io_bind (io_match (virtio_receive_test_frame hw info rx)) (\<lambda>recv.
               io_ret (Inr (info, send, Inr (rx, recv)))))))"

end
