(* ===== verification/Virtio_Mem.thy ===== *)
theory Virtio_Mem
  imports Virtio
begin

text \<open>
  Lemmas for the virtqueues: memory at natural-number addresses, the layout of a queue, contiguous
  frames, and the descriptor and available-ring writes of the driver.
\<close>

section \<open>Memory at natural addresses\<close>

definition adr :: "nat \<Rightarrow> u64" where
  "adr n = of_nat n"

lemma adr_add [simp]: "adr x + adr y = adr (x + y)" "adr x + (adr y + z) = adr (x + y) + z"
  by (simp_all add: adr_def)

lemma adr_plus [simp]: "adr x + numeral k = adr (x + numeral k)" "adr x + 1 = adr (x + 1)" "adr x + of_nat n = adr (x + n)"
    "adr x + (numeral k + z) = adr (x + numeral k) + z" "adr 0 = 0"
  by (simp_all add: adr_def)

lemma unat_adr: "n < 2 ^ 64 \<Longrightarrow> unat (adr n) = n"
  by (simp add: adr_def unat_of_nat)

lemma store_adr:
  assumes "x + length bs \<le> 2 ^ 63" and "y < 2 ^ 63"
  shows "store_mem m (adr x) bs (adr y) = (if x \<le> y \<and> y < x + length bs then bs ! (y - x) else m (adr y))"
proof -
  have "unat (adr y - adr x) = (if x \<le> y then y - x else 2 ^ 64 - (x - y))"
  proof (cases "x \<le> y")
    case True
    then have "adr y - adr x = adr (y - x)" by (simp add: adr_def)
    then show ?thesis using True assms(2) by (simp add: unat_adr)
  next
    case False
    have "of_nat (2 ^ 64 - (x - y)) = (of_nat (2 ^ 64) :: u64) - of_nat (x - y)"
      by (rule of_nat_diff) (use assms in simp)
    then have "adr y - adr x = adr (2 ^ 64 - (x - y))" using False by (simp add: adr_def)
    then show ?thesis using False assms by (simp add: unat_adr)
  qed
  then show ?thesis using assms by (auto simp: store_mem_def)
qed

definition mem16 :: "mem \<Rightarrow> u64 \<Rightarrow> u16" where
  "mem16 m p = le16 (m p) (m (p + 1))"

definition mem32 :: "mem \<Rightarrow> u64 \<Rightarrow> u32" where
  "mem32 m p = le32 (m p) (m (p + 1)) (m (p + 2)) (m (p + 3))"

text \<open>Two memories that agree on a range of addresses.\<close>

definition same_on :: "nat \<Rightarrow> nat \<Rightarrow> mem \<Rightarrow> mem \<Rightarrow> bool" where
  "same_on x n m m' \<longleftrightarrow> (\<forall>y. x \<le> y \<and> y < x + n \<longrightarrow> m' (adr y) = m (adr y))"

lemma same_onD: "same_on x n m m' \<Longrightarrow> x \<le> y \<Longrightarrow> y < x + n \<Longrightarrow> m' (adr y) = m (adr y)"
  by (simp add: same_on_def)

lemma same_on_refl [simp]: "same_on x n m m"
  by (simp add: same_on_def)

lemma same_on_trans: "same_on x n m1 m2 \<Longrightarrow> same_on x n m2 m3 \<Longrightarrow> same_on x n m1 m3"
  by (simp add: same_on_def)

lemma same_on_sub: "same_on x n m m' \<Longrightarrow> x \<le> y \<Longrightarrow> y + k \<le> x + n \<Longrightarrow> same_on y k m m'"
  by (auto simp: same_on_def)

lemma same_on_store: "y + k \<le> x \<or> x + length bs \<le> y \<Longrightarrow> x + length bs \<le> 2 ^ 63 \<Longrightarrow> y + k \<le> 2 ^ 63
    \<Longrightarrow> same_on y k m (store_mem m (adr x) bs)"
  by (auto simp: same_on_def store_adr)

lemma same_on_mem16: "same_on x n m m' \<Longrightarrow> x \<le> y \<Longrightarrow> y + 2 \<le> x + n \<Longrightarrow> mem16 m' (adr y) = mem16 m (adr y)"
  by (simp add: mem16_def same_on_def)

lemma same_on_mem32: "same_on x n m m' \<Longrightarrow> x \<le> y \<Longrightarrow> y + 4 \<le> x + n \<Longrightarrow> mem32 m' (adr y) = mem32 m (adr y)"
  by (simp add: mem32_def same_on_def)

lemma load_adr: "load_mem m (adr x) n = map (\<lambda>k. m (adr (x + k))) [0..<n]"
  by (simp add: load_mem_def)

lemma same_on_load: "same_on x n m m' \<Longrightarrow> x \<le> y \<Longrightarrow> y + k \<le> x + n \<Longrightarrow> load_mem m' (adr y) k = load_mem m (adr y) k"
  by (simp add: load_adr same_on_def)

lemma mem16_store: "x + 2 \<le> 2 ^ 63 \<Longrightarrow> mem16 (store_mem m (adr x) (le_bytes16 v)) (adr x) = v"
  by (simp add: mem16_def store_adr le_bytes16_def)

lemma mem16_skip: "y + 2 \<le> x \<or> x + length bs \<le> y \<Longrightarrow> x + length bs \<le> 2 ^ 63 \<Longrightarrow> y + 2 \<le> 2 ^ 63
    \<Longrightarrow> mem16 (store_mem m (adr x) bs) (adr y) = mem16 m (adr y)"
  by (rule same_on_mem16 [OF same_on_store [where y = y and k = 2]]) auto

lemma mem32_store: "x + 4 \<le> 2 ^ 63 \<Longrightarrow> mem32 (store_mem m (adr x) (le_bytes32 v)) (adr x) = v"
  by (simp add: mem32_def store_adr le_bytes32_def)

lemma load_store_adr: "x + length bs \<le> 2 ^ 63 \<Longrightarrow> length bs = n \<Longrightarrow> load_mem (store_mem m (adr x) bs) (adr x) n = bs"
  by (rule nth_equalityI) (simp_all add: load_adr store_adr)

section \<open>The layout of a queue\<close>

definition used_at :: "nat \<Rightarrow> nat" where
  "used_at num = (18 * num + 6 + 4095) div 4096 * 4096"

definition queue_frames :: "nat \<Rightarrow> nat" where
  "queue_frames num = (used_at num + 6 + 8 * num + 4095) div 4096"

lemma used_at_bounds: "18 * num + 6 \<le> used_at num" "used_at num < 18 * num + 6 + 4096" "4096 dvd used_at num"
  unfolding used_at_def using div_mult_mod_eq [of "18 * num + 6 + 4095" 4096] mod_less_divisor [of 4096 "18 * num + 6 + 4095"]
  by linarith+ simp

lemma queue_frames_bounds: "used_at num + 6 + 8 * num \<le> 4096 * queue_frames num"
    "4096 * queue_frames num < used_at num + 6 + 8 * num + 4096"
  unfolding queue_frames_def using div_mult_mod_eq [of "used_at num + 6 + 8 * num + 4095" 4096]
    mod_less_divisor [of 4096 "used_at num + 6 + 8 * num + 4095"]
  by linarith+

lemma div_ceil64_adr:
  assumes "x + 4096 < 2 ^ 64"
  shows "div_ceil64 (adr x) 4096 = adr ((x + 4095) div 4096)"
proof -
  have u: "unat (adr x div 4096) = x div 4096" "unat (adr x mod 4096) = x mod 4096"
    using assms by (simp_all add: unat_div_distrib unat_mod_distrib unat_adr)
  have "x div 4096 < 2 ^ 64" using assms div_le_dividend [of x 4096] by linarith
  then have d: "adr x div 4096 = adr (x div 4096)" "adr x mod 4096 = 0 \<longleftrightarrow> x mod 4096 = 0"
    using u by (simp_all add: word_unat_eq_iff unat_adr)
  have e: "(x + 4095) div 4096 = (if x mod 4096 = 0 then x div 4096 else x div 4096 + 1)"
  proof (cases "x mod 4096 = 0")
    case False
    have "x + 4095 = (x mod 4096 + 4095) + 4096 * (x div 4096)" by simp
    moreover have m: "x mod 4096 < 4096" "0 < x mod 4096" using False by simp_all
    have "(x mod 4096 + 4095) div 4096 = 1" by (rule div_nat_eqI) (use m in simp_all)
    ultimately show ?thesis using False by (simp only: div_mult_self2) simp
  next
    case True
    have "x + 4095 = 4095 + 4096 * (x div 4096)" using True div_mult_mod_eq [of x 4096] by linarith
    then show ?thesis using True by (simp only: div_mult_self2) simp
  qed
  show ?thesis unfolding div_ceil64_def d(2) e by (simp add: d(1))
qed

lemma queue_layout:
  assumes "num \<le> 65535"
  shows "vring_offsets (adr num) VRING_ALIGN = (0, adr (16 * num), adr (used_at num))"
    and "vring_size (adr num) VRING_ALIGN = adr (used_at num + 6 + 8 * num)"
    and "div_ceil64 (vring_size (adr num) VRING_ALIGN) FRAME_SIZE = adr (queue_frames num)"
proof -
  have a: "16 * adr num = adr (16 * num)" "16 * adr num + 2 * (adr num + 3) = adr (18 * num + 6)" "8 * adr num = adr (8 * num)"
    by (simp_all add: adr_def)
  have "adr n * 4096 = adr (n * 4096)" for n by (simp add: adr_def)
  then have u: "div_ceil64 (adr (18 * num + 6)) 4096 * 4096 = adr (used_at num)"
    using assms by (simp add: div_ceil64_adr used_at_def)
  show "vring_offsets (adr num) VRING_ALIGN = (0, adr (16 * num), adr (used_at num))"
    using u a by (simp add: vring_offsets_def Let_def VRING_ALIGN_def)
  show s: "vring_size (adr num) VRING_ALIGN = adr (used_at num + 6 + 8 * num)"
    unfolding vring_size_def Let_def VRING_ALIGN_def a(2,3) u by simp
  show "div_ceil64 (vring_size (adr num) VRING_ALIGN) FRAME_SIZE = adr (queue_frames num)"
    unfolding s FRAME_SIZE_def queue_frames_def using used_at_bounds(2) [of num] assms by (intro div_ceil64_adr) simp
qed

text \<open>
  C35: whatever 16-bit queue size the device reports, the offsets computed for the queue do not wrap: the
  descriptor table, the available ring and the used ring are disjoint and in this order, the used ring starts
  on a page, \<open>vring_size\<close> is its end, and the frames allocated for the queue are just enough to hold it.
\<close>

theorem vring_layout:
  fixes num :: u16
  defines "n \<equiv> unat num" and "k \<equiv> unat (div_ceil64 (vring_size (ucast num) VRING_ALIGN) FRAME_SIZE)"
  shows "\<exists>avail used. vring_offsets (ucast num) VRING_ALIGN = (0, avail, used)
     \<and> unat avail = 16 * n \<and> unat avail + 2 * (n + 3) \<le> unat used \<and> unat used < unat avail + 2 * (n + 3) + 4096 \<and> 4096 dvd unat used
     \<and> unat (vring_size (ucast num) VRING_ALIGN) = unat used + 6 + 8 * n
     \<and> unat used + 6 + 8 * n \<le> 4096 * k \<and> 4096 * k < unat used + 6 + 8 * n + 4096"
proof -
  have n: "n \<le> 65535" unfolding n_def using unat_u16_less [of num] by linarith
  have c: "(ucast num :: u64) = adr n" by (simp add: adr_def n_def word_unat_eq_iff unat_of_nat unat_ucast_up)
  note lay = queue_layout [OF n] and ub = used_at_bounds [of n] and qb = queue_frames_bounds [of n]
  have k: "k = queue_frames n" unfolding k_def c lay(3) by (rule unat_adr) (use ub qb n in simp)
  have "unat (adr (16 * n)) = 16 * n" "unat (adr (used_at n)) = used_at n" "unat (adr (used_at n + 6 + 8 * n)) = used_at n + 6 + 8 * n"
    by (rule unat_adr; use ub n in simp)+
  then show ?thesis unfolding c lay(1,2) k using ub qb by simp
qed

section \<open>Consecutive frames\<close>

definition frames_at :: "boot_info_frame_allocator \<Rightarrow> nat \<Rightarrow> nat \<Rightarrow> bool" where
  "frames_at a n F \<longleftrightarrow> next_frame a + n \<le> length (usable_frames a) \<and> (\<forall>i<n. usable_frames a ! (next_frame a + i) = F + 4096 * i)
     \<and> 4096 dvd F \<and> 0 < F \<and> F + 4096 * n \<le> 2 ^ 44"

lemma frames_at_next:
  "frames_at a (k + n) F \<Longrightarrow> frames_at (a\<lparr>next_frame := next_frame a + k\<rparr>) n (F + 4096 * k)"
  by (auto simp: frames_at_def ac_simps dest: spec [of _ "k + _"])

lemma frame_run:
  "frames_at a (Suc n) F \<Longrightarrow> global_allocate_frame (a, d) = (Ok (adr F), (a\<lparr>next_frame := next_frame a + 1\<rparr>, d))"
  by (auto simp: frames_at_def global_allocate_frame_def allocate_frame_def adr_def dest: spec [of _ 0])

lemma contiguous_run:
  "frames_at a (n + k) F \<Longrightarrow> contiguous_loop n (adr F) (a, d) = (Ok (), (a\<lparr>next_frame := next_frame a + n\<rparr>, d))"
proof (induction n arbitrary: a F)
  case (Suc n)
  have f: "frames_at a (Suc (n + k)) F" "frames_at (a\<lparr>next_frame := next_frame a + 1\<rparr>) (n + k) (F + 4096)"
    using Suc.prems frames_at_next [of a 1 "n + k" F] by simp_all
  show ?case
    using Suc.IH [OF f(2)] by (simp add: io_bind_def frame_run [OF f(1)] FRAME_SIZE_def)
qed simp

lemma contiguous_frames_run:
  assumes "frames_at a (c + k) F" and "0 < c" and "c < 2 ^ 64"
  shows "allocate_contiguous_frames (adr c) (a, d) = (Ok (adr F), (a\<lparr>next_frame := next_frame a + c\<rparr>, d))"
proof -
  obtain n where n: "c = Suc n" using assms(2) by (cases c) auto
  have f: "frames_at a (Suc (n + k)) F" "frames_at (a\<lparr>next_frame := next_frame a + 1\<rparr>) (n + k) (F + 4096)"
    using assms(1) frames_at_next [of a 1 "n + k" F] by (simp_all add: n)
  show ?thesis
    unfolding allocate_contiguous_frames_def FRAME_SIZE_def
    using contiguous_run [OF f(2), of d] assms(3) by (simp add: io_bind_def frame_run [OF f(1)] unat_adr n)
qed

lemma contiguous_loop_ok:
  "contiguous_loop n p (a, d) = (Ok (), (a', d')) \<Longrightarrow>
     d' = d \<and> a' = a\<lparr>next_frame := next_frame a + n\<rparr> \<and> next_frame a + n \<le> max (next_frame a) (length (usable_frames a))
     \<and> (\<forall>i<n. of_nat (usable_frames a ! (next_frame a + i)) = p + 4096 * of_nat i)"
proof (induction n arbitrary: a p)
  case (Suc n)
  have fr: "next_frame a < length (usable_frames a)" "of_nat (usable_frames a ! next_frame a) = p"
      "contiguous_loop n (p + 4096) (a\<lparr>next_frame := next_frame a + 1\<rparr>, d) = (Ok (), (a', d'))"
    using Suc.prems by (auto simp: io_bind_eq_Ok global_allocate_frame_def allocate_frame_def FRAME_SIZE_def split: if_splits)
  have u: "usable_frames (a\<lparr>next_frame := k\<rparr>) = usable_frames a" for k by (simp add: usable_frames_def)
  note ih = Suc.IH [OF fr(3), unfolded u, simplified]
  have "of_nat (usable_frames a ! (next_frame a + i)) = p + 4096 * of_nat i" if "i < Suc n" for i
    using ih fr(2) that by (cases i) (auto simp: algebra_simps)
  then show ?case using ih fr(1) by auto
qed simp

text \<open>
  \<open>allocate_contiguous_frames\<close> never hands out a range that the frame allocator did not give it. If it
  returns \<open>p\<close>, then the frames it took are the next \<open>count\<close> usable frames, they exist, and they lie at
  \<open>p\<close>, \<open>p + 4096\<close>, and so on.
\<close>

theorem contiguous_frames_sound:
  assumes "allocate_contiguous_frames count (a, d) = (Ok p, (a', d'))" and "0 < count"
  shows "d' = d \<and> a' = a\<lparr>next_frame := next_frame a + unat count\<rparr> \<and> next_frame a + unat count \<le> length (usable_frames a)
     \<and> (\<forall>i<unat count. of_nat (usable_frames a ! (next_frame a + i)) = p + 4096 * of_nat i)"
proof -
  obtain n where n: "unat count = Suc n" using assms(2) by (cases "unat count") (auto simp: word_gt_0_no unat_eq_zero)
  have fr: "next_frame a < length (usable_frames a)" "p = of_nat (usable_frames a ! next_frame a)"
      "contiguous_loop n (p + 4096) (a\<lparr>next_frame := next_frame a + 1\<rparr>, d) = (Ok (), (a', d'))"
    using assms(1) unfolding allocate_contiguous_frames_def n
    by (auto simp: io_bind_eq_Ok global_allocate_frame_def allocate_frame_def FRAME_SIZE_def split: if_splits)
  have u: "usable_frames (a\<lparr>next_frame := k\<rparr>) = usable_frames a" for k by (simp add: usable_frames_def)
  note l = contiguous_loop_ok [OF fr(3), unfolded u, simplified]
  have "of_nat (usable_frames a ! (next_frame a + i)) = p + 4096 * of_nat i" if "i < Suc n" for i
    using l fr(2) that by (cases i) (auto simp: algebra_simps)
  then show ?thesis using l fr(1) by (auto simp: n)
qed

definition nine_frames :: boot_info_frame_allocator where
  "nine_frames = frame_allocator_init [\<lparr>mr_start = 0x100000, mr_end = 0x109000, mr_usable = True\<rparr>]"

lemma nine_frames_at: "frames_at nine_frames 9 0x100000"
proof -
  have al: "page_aligned \<lparr>mr_start = 0x100000, mr_end = 0x109000, mr_usable = True\<rparr>" by (simp add: page_aligned_def)
  have "usable_frames nine_frames = map (\<lambda>i. 0x100000 + i * 4096) [0..<9]"
    using usable_frames_eq [of nine_frames] al
    by (simp add: nine_frames_def frame_allocator_init_def region_frames_def del: upt_rec_numeral)
  then show ?thesis by (simp add: frames_at_def nine_frames_def frame_allocator_init_def del: upt_rec_numeral)
qed

theorem contiguous_frames_sound_witness:
  "allocate_contiguous_frames 3 (nine_frames, ()) = (Ok 0x100000, (nine_frames\<lparr>next_frame := 3\<rparr>, ()))
   \<and> map (\<lambda>i. of_nat (usable_frames nine_frames ! i)) [0, 1, 2] = [0x100000, 0x101000, 0x102000 :: u64]"
proof -
  have "frames_at nine_frames (3 + 6) 0x100000" using nine_frames_at by simp
  moreover have "next_frame nine_frames = 0" by (simp add: nine_frames_def frame_allocator_init_def)
  ultimately have "allocate_contiguous_frames 3 (nine_frames, ()) = (Ok 0x100000, (nine_frames\<lparr>next_frame := 3\<rparr>, ()))"
    using contiguous_frames_run [where a = nine_frames and c = 3 and k = 6 and F = "0x100000" and d = "()"] by (simp add: adr_def)
  then show ?thesis
    using contiguous_frames_sound [where count = 3 and a = nine_frames and d = "()" and p = "0x100000"] \<open>next_frame nine_frames = 0\<close>
    by (auto dest: spec [of _ 0] spec [of _ 1] spec [of _ 2])
qed

section \<open>Descriptors and rings in memory\<close>

definition described :: "nat \<Rightarrow> u64 \<Rightarrow> u32 \<Rightarrow> u16 \<Rightarrow> mem \<Rightarrow> mem" where
  "described D x len flags m =
     store_mem (store_mem (store_mem (store_mem m (adr D) (le_bytes64 x)) (adr (D + 8)) (le_bytes32 len))
       (adr (D + 12)) (le_bytes16 flags)) (adr (D + 14)) (le_bytes16 0)"

lemma described_facts:
  assumes "D + 16 \<le> 2 ^ 63"
  shows "le64 (load_mem (described D x len flags m) (adr D) 8) = x" (is ?addr)
    and "mem32 (described D x len flags m) (adr (D + 8)) = len" (is ?len)
    and "mem16 (described D x len flags m) (adr (D + 12)) = flags" (is ?flags)
    and "y + k \<le> D \<or> D + 16 \<le> y \<Longrightarrow> y + k \<le> 2 ^ 63 \<Longrightarrow> same_on y k m (described D x len flags m)" (is "_ \<Longrightarrow> _ \<Longrightarrow> ?same")
proof -
  let ?m1 = "store_mem m (adr D) (le_bytes64 x)" let ?m2 = "store_mem ?m1 (adr (D + 8)) (le_bytes32 len)"
  let ?m3 = "store_mem ?m2 (adr (D + 12)) (le_bytes16 flags)" let ?m4 = "described D x len flags m"
  have step: "same_on z n ?m1 ?m2" "same_on z n ?m2 ?m3" "same_on z n ?m3 ?m4" if "z + n \<le> D + 8" for z n
    unfolding described_def by (rule same_on_store; use assms that in simp)+
  have "same_on D 8 ?m1 ?m4" by (rule same_on_trans [OF step(1) same_on_trans [OF step(2,3)]]) simp_all
  then have "load_mem ?m4 (adr D) 8 = load_mem ?m1 (adr D) 8" by (rule same_on_load) simp_all
  also have "\<dots> = le_bytes64 x" by (rule load_store_adr) (use assms in simp_all)
  finally show ?addr by simp
  have s3: "same_on (D + 8) 4 ?m2 ?m3" "same_on (D + 8) 4 ?m3 ?m4" "same_on (D + 12) 2 ?m3 ?m4"
    unfolding described_def by (rule same_on_store; use assms in simp)+
  have "mem32 ?m4 (adr (D + 8)) = mem32 ?m2 (adr (D + 8))"
    by (rule same_on_mem32 [OF same_on_trans [OF s3(1,2)]]) simp_all
  then show ?len using mem32_store [of "D + 8"] assms by simp
  have "mem16 ?m4 (adr (D + 12)) = mem16 ?m3 (adr (D + 12))" by (rule same_on_mem16 [OF s3(3)]) simp_all
  then show ?flags using mem16_store [of "D + 12"] assms by simp
  assume a: "y + k \<le> D \<or> D + 16 \<le> y" "y + k \<le> 2 ^ 63"
  have "same_on y k m ?m1" "same_on y k ?m1 ?m2" "same_on y k ?m2 ?m3" "same_on y k ?m3 ?m4"
    unfolding described_def by (rule same_on_store; use assms a in auto)+
  then show ?same by (blast intro: same_on_trans)
qed

definition published :: "nat \<Rightarrow> nat \<Rightarrow> u16 \<Rightarrow> mem \<Rightarrow> mem" where
  "published A num i m =
     (let n = mem16 m (adr (A + 2)) in
      store_mem (store_mem m (adr (A + 4 + 2 * (unat n mod num))) (le_bytes16 i)) (adr (A + 2)) (le_bytes16 (n + 1)))"

lemma published_facts:
  fixes m :: mem
  assumes "A + 4 + 2 * num \<le> 2 ^ 63" and "0 < num"
  defines "n \<equiv> mem16 m (adr (A + 2))"
  shows "mem16 (published A num i m) (adr (A + 2)) = n + 1"
    and "mem16 (published A num i m) (adr (A + 4 + 2 * (unat n mod num))) = i"
    and "y + k \<le> A + 2 \<or> A + 4 + 2 * num \<le> y \<Longrightarrow> y + k \<le> 2 ^ 63 \<Longrightarrow> same_on y k m (published A num i m)"
proof -
  let ?x = "A + 4 + 2 * (unat n mod num)"
  have b: "?x + 2 \<le> A + 4 + 2 * num" using mod_less_divisor [OF assms(2), of "unat n"] by linarith
  have p: "published A num i m = store_mem (store_mem m (adr ?x) (le_bytes16 i)) (adr (A + 2)) (le_bytes16 (n + 1))"
    by (simp add: published_def n_def Let_def)
  show "mem16 (published A num i m) (adr (A + 2)) = n + 1" unfolding p by (rule mem16_store) (use assms(1) in simp)
  have "mem16 (published A num i m) (adr ?x) = mem16 (store_mem m (adr ?x) (le_bytes16 i)) (adr ?x)"
    unfolding p by (rule mem16_skip) (use assms(1) b in simp_all)
  then show "mem16 (published A num i m) (adr ?x) = i" using mem16_store [of ?x m i] assms(1) b by simp
  assume a: "y + k \<le> A + 2 \<or> A + 4 + 2 * num \<le> y" "y + k \<le> 2 ^ 63"
  show "same_on y k m (published A num i m)"
    unfolding p by (rule same_on_trans; rule same_on_store) (use assms(1) b a in auto)
qed

end
