(* ===== verification/Virtio_Link.thy ===== *)
theory Virtio_Link
  imports Virtio_Mem
begin

text \<open>
  The virtio driver on a device. The device is modelled as far as the driver relies on it: the port window,
  the status handshake, the two queues it reads and completes in memory while bus mastering and the driver
  status bit are set, and the network behind it, an arbitrary function of the frames sent so far. Answers
  reach the receive queue inside the notification (\<open>ve_prompt\<close>) or while the processor is halted.
\<close>

section \<open>The device\<close>

record vio_dev =
  vd_mem :: mem
  vd_bridge :: host_bridge
  vd_ticks :: u64
  vd_status :: u8
  vd_sel :: u16
  vd_pfn :: "u16 \<Rightarrow> u32"
  vd_last :: "u16 \<Rightarrow> u16"
  vd_isr :: u8
  vd_sent :: "bytes list"
  vd_inbox :: "bytes list"

record vio_env =
  ve_device :: nat
  ve_function :: nat
  ve_offset :: u64
  ve_num :: nat
  ve_mac :: bytes
  ve_peer :: "bytes list \<Rightarrow> bytes \<Rightarrow> bytes list"
  ve_prompt :: bool

definition vio_conf :: "vio_env \<Rightarrow> vio_dev \<Rightarrow> nat \<Rightarrow> u32" where
  "vio_conf e d r = hb_conf (vd_bridge d) 0 (ve_device e) (ve_function e) r"

definition vio_port :: "vio_env \<Rightarrow> vio_dev \<Rightarrow> u16" where
  "vio_port e d = ucast (vio_conf e d 4 AND 0xFFFFFFFC)"

definition vio_running :: "vio_env \<Rightarrow> vio_dev \<Rightarrow> bool" where
  "vio_running e d \<longleftrightarrow> vd_status d AND 4 \<noteq> 0 \<and> vio_conf e d 1 AND 4 \<noteq> 0"

definition vq_base :: "vio_dev \<Rightarrow> u16 \<Rightarrow> u64" where
  "vq_base d q = 4096 * ucast (vd_pfn d q)"

definition vq_pending :: "vio_env \<Rightarrow> vio_dev \<Rightarrow> u16 \<Rightarrow> bool" where
  "vq_pending e d q \<longleftrightarrow> vd_pfn d q \<noteq> 0 \<and> mem16 (vd_mem d) (vq_base d q + adr (16 * ve_num e + 2)) \<noteq> vd_last d q"

definition vq_head :: "vio_env \<Rightarrow> vio_dev \<Rightarrow> u16 \<Rightarrow> u16" where
  "vq_head e d q = mem16 (vd_mem d) (vq_base d q + adr (16 * ve_num e + 4 + 2 * (unat (vd_last d q) mod ve_num e)))"

text \<open>Completing a descriptor: the next element of the used ring, then its index.\<close>

definition vq_used_mem :: "nat \<Rightarrow> u64 \<Rightarrow> u16 \<Rightarrow> u32 \<Rightarrow> mem \<Rightarrow> mem" where
  "vq_used_mem num base head len m =
     (let i = mem16 m (base + adr (used_at num + 2)) in
      store_mem (store_mem m (base + adr (used_at num + 4 + 8 * (unat i mod num))) (le_bytes32 (ucast head) @ le_bytes32 len))
        (base + adr (used_at num + 2)) (le_bytes16 (i + 1)))"

definition vq_use :: "vio_env \<Rightarrow> u16 \<Rightarrow> u16 \<Rightarrow> u32 \<Rightarrow> vio_dev \<Rightarrow> vio_dev" where
  "vq_use e q head len d =
     d\<lparr>vd_mem := vq_used_mem (ve_num e) (vq_base d q) head len (vd_mem d),
       vd_last := (vd_last d)(q := vd_last d q + 1), vd_isr := vd_isr d OR 1\<rparr>"

definition vio_tx_one :: "vio_env \<Rightarrow> vio_dev \<Rightarrow> vio_dev" where
  "vio_tx_one e d =
     (let head = vq_head e d 1; p = vq_base d 1 + adr (16 * unat head); m = vd_mem d;
          frame = drop 10 (load_mem m (le64 (load_mem m p 8)) (unat (mem32 m (p + 8))))
      in (vq_use e 1 head 0 d)\<lparr>vd_sent := vd_sent d @ [frame], vd_inbox := vd_inbox d @ ve_peer e (vd_sent d) frame\<rparr>)"

fun vio_tx_run :: "nat \<Rightarrow> vio_env \<Rightarrow> vio_dev \<Rightarrow> vio_dev" where
  "vio_tx_run 0 e d = d"
| "vio_tx_run (Suc n) e d = (if vq_pending e d 1 then vio_tx_run n e (vio_tx_one e d) else d)"

text \<open>A frame that does not fit into the buffer is lost; without a buffer frames wait.\<close>

definition vio_rx_one :: "vio_env \<Rightarrow> bytes \<Rightarrow> vio_dev \<Rightarrow> vio_dev" where
  "vio_rx_one e frame d =
     (let head = vq_head e d 0; p = vq_base d 0 + adr (16 * unat head); m = vd_mem d; buf = replicate 10 0 @ frame
      in if mem16 m (p + 12) AND 2 = 0 \<or> unat (mem32 m (p + 8)) < length buf then d
         else vq_use e 0 head (of_nat (length buf)) (d\<lparr>vd_mem := store_mem m (le64 (load_mem m p 8)) buf\<rparr>))"

fun vio_deliver :: "nat \<Rightarrow> vio_env \<Rightarrow> vio_dev \<Rightarrow> vio_dev" where
  "vio_deliver 0 e d = d"
| "vio_deliver (Suc n) e d =
     (case vd_inbox d of [] \<Rightarrow> d
      | f # rest \<Rightarrow> if vq_pending e d 0 then vio_deliver n e (vio_rx_one e f (d\<lparr>vd_inbox := rest\<rparr>)) else d)"

definition vio_receive :: "vio_env \<Rightarrow> vio_dev \<Rightarrow> vio_dev" where
  "vio_receive e d = (if vio_running e d then vio_deliver (length (vd_inbox d)) e d else d)"

definition vio_notify :: "vio_env \<Rightarrow> u16 \<Rightarrow> vio_dev \<Rightarrow> vio_dev" where
  "vio_notify e q d =
     (let d' = (if vio_running e d \<and> q = 1 then vio_tx_run (ve_num e) e d else d)
      in if ve_prompt e then vio_receive e d' else d')"

definition vio_reset :: "vio_dev \<Rightarrow> vio_dev" where
  "vio_reset d = d\<lparr>vd_status := 0, vd_pfn := (\<lambda>_. 0), vd_last := (\<lambda>_. 0), vd_isr := 0\<rparr>"

definition virtio_hw :: "vio_env \<Rightarrow> vio_dev nic_hw" where
  "virtio_hw e =
     \<lparr>port_read8 = (\<lambda>p d. let r = p - vio_port e d in
         if r = 18 then (vd_status d, d) else if r = 19 then (vd_isr d, d\<lparr>vd_isr := 0\<rparr>)
         else if 20 \<le> r \<and> r < 26 then (ve_mac e ! unat (r - 20), d) else (0xFF, d)),
      port_write8 = (\<lambda>p v d. if p - vio_port e d = 18 then (if v = 0 then vio_reset d else d\<lparr>vd_status := v\<rparr>) else d),
      port_read16 = (\<lambda>p d. if p = 0xCFC then (fst (port_read16 bridge_ports p (vd_bridge d)), d)
         else let r = p - vio_port e d in
           (if r = 12 then (if vd_sel d \<le> 1 then of_nat (ve_num e) else 0) else if r = 14 then vd_sel d else 0xFFFF, d)),
      port_write16 = (\<lambda>p v d. if p = 0xCFC then d\<lparr>vd_bridge := port_write16 bridge_ports p v (vd_bridge d)\<rparr>
         else let r = p - vio_port e d in
           if r = 14 then d\<lparr>vd_sel := v\<rparr> else if r = 16 then vio_notify e v d else d),
      port_read32 = (\<lambda>p d. if p = 0xCFC then (fst (port_read32 bridge_ports p (vd_bridge d)), d)
         else let r = p - vio_port e d in (if r = 0 then 0x20 else if r = 8 then vd_pfn d (vd_sel d) else 0xFFFFFFFF, d)),
      port_write32 = (\<lambda>p v d. if p = 0xCF8 then d\<lparr>vd_bridge := port_write32 bridge_ports p v (vd_bridge d)\<rparr>
         else if p - vio_port e d = 8
         then d\<lparr>vd_pfn := (vd_pfn d)(vd_sel d := v), vd_last := (vd_last d)(vd_sel d := 0)\<rparr> else d),
      mmio_read = (\<lambda>x d. (0, d)), mmio_write = (\<lambda>x v d. d),
      vol_load = (\<lambda>x n d. (load_mem (vd_mem d) (x - ve_offset e) n, d)),
      vol_store = (\<lambda>x bs d. d\<lparr>vd_mem := store_mem (vd_mem d) (x - ve_offset e) bs\<rparr>),
      timer_ticks = vd_ticks,
      cpu_hlt = (\<lambda>d. (vio_receive e d)\<lparr>vd_ticks := vd_ticks d + 1\<rparr>),
      phys_mem_offset = ve_offset e\<rparr>"

section \<open>Accesses to the device\<close>

interpretation vio_pci: config_device "virtio_hw e" "\<lambda>d. hb_conf (vd_bridge d)" hb_writable
    "\<lambda>d. (vd_mem d, vd_ticks d, vd_status d, vd_sel d, vd_pfn d, vd_last d, vd_isr d, vd_sent d, vd_inbox d)" for e
  by unfold_locales (auto simp: virtio_hw_def bridge_ports_def hb_reg_def hb_decode_select)

lemma vio_only_bridge:
  fixes d :: vio_dev
  shows "(vd_mem d', vd_ticks d', vd_status d', vd_sel d', vd_pfn d', vd_last d', vd_isr d', vd_sent d', vd_inbox d') =
      (vd_mem d, vd_ticks d, vd_status d, vd_sel d, vd_pfn d, vd_last d, vd_isr d, vd_sent d, vd_inbox d)
     \<Longrightarrow> d' = d\<lparr>vd_bridge := vd_bridge d'\<rparr>"
  by (cases d; cases d') simp

text \<open>The device is the first virtio network device on the bus, with a port window above the configuration ports.\<close>

definition vio_found :: "vio_env \<Rightarrow> vio_dev \<Rightarrow> bool" where
  "vio_found e d \<longleftrightarrow> ve_device e < 32 \<and> ve_function e < 8 \<and> vio_conf e d 4 AND 1 \<noteq> 0
     \<and> 0xD00 \<le> unat (vio_port e d) \<and> unat (vio_port e d) < 0xFFE0
     \<and> first_match (\<lambda>x. vendor_id x = VIRTIO_VENDOR_ID \<and> device_id x = VIRTIO_NET_DEVICE_ID) (hb_conf (vd_bridge d))
       = Some (pci_function_at (hb_conf (vd_bridge d)) (ve_device e) (ve_function e))"

lemma vio_found_cong: "vd_bridge d' = vd_bridge d \<Longrightarrow> vio_found e d' = vio_found e d"
  by (simp add: vio_found_def vio_conf_def vio_port_def)

lemma vio_port_cong: "vd_bridge d' = vd_bridge d \<Longrightarrow> vio_port e d' = vio_port e d"
  by (simp add: vio_conf_def vio_port_def)

lemma window_ports:
  assumes "vio_found e d" and "unat r < 32"
  shows "vio_port e d + r \<noteq> 0xCFC" "vio_port e d + r \<noteq> 0xCF8"
proof -
  have "unat (vio_port e d + r) = unat (vio_port e d) + unat r"
    using assms by (simp add: vio_found_def unat_word_ariths)
  then have "0xD00 \<le> unat (vio_port e d + r)" using assms by (simp add: vio_found_def)
  then show "vio_port e d + r \<noteq> 0xCFC" "vio_port e d + r \<noteq> 0xCF8" by auto
qed

lemma find_io_base_run:
  assumes "vio_found e d"
  obtains b where "find_io_base (virtio_hw e) (a, d) =
      (Ok (pci_function_at (hb_conf (vd_bridge d)) (ve_device e) (ve_function e), vio_port e d), (a, d\<lparr>vd_bridge := b\<rparr>))"
    and "hb_conf b = hb_conf (vd_bridge d)"
proof -
  let ?c = "hb_conf (vd_bridge d)" let ?dev = "pci_function_at ?c (ve_device e) (ve_function e)"
  note f = assms [unfolded vio_found_def]
  obtain devs d1 d2 where r: "scan_bus0 (virtio_hw e) d = (devs, d1)"
      "find (\<lambda>x. vendor_id x = VIRTIO_VENDOR_ID \<and> device_id x = VIRTIO_NET_DEVICE_ID) devs = Some ?dev"
      "read_bar0 (virtio_hw e) ?dev d1 = (?c 0 (ve_device e) (ve_function e) 4, d2)" "hb_conf (vd_bridge d2) = ?c"
      "(vd_mem d2, vd_ticks d2, vd_status d2, vd_sel d2, vd_pfn d2, vd_last d2, vd_isr d2, vd_sent d2, vd_inbox d2) =
       (vd_mem d, vd_ticks d, vd_status d, vd_sel d, vd_pfn d, vd_last d, vd_isr d, vd_sent d, vd_inbox d)"
    by (rule vio_pci.find_device_law [of _ d "ve_device e" "ve_function e" e]) (use f in auto)
  have "find_io_base (virtio_hw e) (a, d) = (Ok (?dev, vio_port e d), (a, d2))"
    unfolding find_io_base_def find_virtio_net_def io_bind_assoc
    using f r(1-3) by (simp add: vio_port_def vio_conf_def Let_def)
  then show ?thesis using that [of "vd_bridge d2"] r(4) vio_only_bridge [OF r(5)] by metis
qed

text \<open>The driver has found the device at port \<open>B\<close>.\<close>

definition at_port :: "vio_env \<Rightarrow> u16 \<Rightarrow> vio_dev \<Rightarrow> bool" where
  "at_port e B d \<longleftrightarrow> vio_found e d \<and> vio_port e d = B"

lemma at_port_cong: "vd_bridge d' = vd_bridge d \<Longrightarrow> at_port e B d' = at_port e B d"
  using vio_found_cong [of d' d e] vio_port_cong [of d' d e] by (simp add: at_port_def)

lemma at_port_updates [simp]:
  "at_port e B (d\<lparr>vd_mem := m\<rparr>) = at_port e B d" "at_port e B (d\<lparr>vd_ticks := t\<rparr>) = at_port e B d"
  "at_port e B (d\<lparr>vd_status := st\<rparr>) = at_port e B d" "at_port e B (d\<lparr>vd_sel := q\<rparr>) = at_port e B d"
  "at_port e B (d\<lparr>vd_pfn := pf\<rparr>) = at_port e B d" "at_port e B (d\<lparr>vd_last := l\<rparr>) = at_port e B d"
  "at_port e B (d\<lparr>vd_isr := i\<rparr>) = at_port e B d" "at_port e B (d\<lparr>vd_sent := x\<rparr>) = at_port e B d"
  "at_port e B (d\<lparr>vd_inbox := x\<rparr>) = at_port e B d"
  by (simp_all add: at_port_def vio_found_def vio_port_def vio_conf_def)

lemma port_runs:
  assumes "at_port e B d"
  shows "write_port_u8 (virtio_hw e) B VIRTIO_PCI_STATUS v (a, d) = (Ok (), (a, if v = 0 then vio_reset d else d\<lparr>vd_status := v\<rparr>))"
    and "read_port_u8 (virtio_hw e) B VIRTIO_PCI_STATUS (a, d) = (Ok (vd_status d), (a, d))"
    and "read_port_u8 (virtio_hw e) B VIRTIO_PCI_ISR (a, d) = (Ok (vd_isr d), (a, d\<lparr>vd_isr := 0\<rparr>))"
    and "write_port_u32 (virtio_hw e) B VIRTIO_PCI_GUEST_FEATURES w (a, d) = (Ok (), (a, d))"
    and "write_port_u16 (virtio_hw e) B VIRTIO_PCI_QUEUE_SEL q (a, d) = (Ok (), (a, d\<lparr>vd_sel := q\<rparr>))"
    and "write_port_u16 (virtio_hw e) B VIRTIO_PCI_QUEUE_NOTIFY q (a, d) = (Ok (), (a, vio_notify e q d))"
    and "read_port_u16 (virtio_hw e) B VIRTIO_PCI_QUEUE_NUM (a, d) = (Ok (if vd_sel d \<le> 1 then of_nat (ve_num e) else 0), (a, d))"
    and "write_port_u32 (virtio_hw e) B VIRTIO_PCI_QUEUE_PFN w (a, d) =
      (Ok (), (a, d\<lparr>vd_pfn := (vd_pfn d)(vd_sel d := w), vd_last := (vd_last d)(vd_sel d := 0)\<rparr>))"
    and "read_port_u32 (virtio_hw e) B VIRTIO_PCI_QUEUE_PFN (a, d) = (Ok (vd_pfn d (vd_sel d)), (a, d))"
proof -
  have f: "vio_found e d" "vio_port e d = B" using assms by (auto simp: at_port_def)
  note w = window_ports [OF f(1), unfolded f(2)]
  show "write_port_u8 (virtio_hw e) B VIRTIO_PCI_STATUS v (a, d) = (Ok (), (a, if v = 0 then vio_reset d else d\<lparr>vd_status := v\<rparr>))"
    and "read_port_u8 (virtio_hw e) B VIRTIO_PCI_STATUS (a, d) = (Ok (vd_status d), (a, d))"
    and "read_port_u8 (virtio_hw e) B VIRTIO_PCI_ISR (a, d) = (Ok (vd_isr d), (a, d\<lparr>vd_isr := 0\<rparr>))"
    and "write_port_u32 (virtio_hw e) B VIRTIO_PCI_GUEST_FEATURES w (a, d) = (Ok (), (a, d))"
    and "write_port_u16 (virtio_hw e) B VIRTIO_PCI_QUEUE_SEL q (a, d) = (Ok (), (a, d\<lparr>vd_sel := q\<rparr>))"
    and "write_port_u16 (virtio_hw e) B VIRTIO_PCI_QUEUE_NOTIFY q (a, d) = (Ok (), (a, vio_notify e q d))"
    and "read_port_u16 (virtio_hw e) B VIRTIO_PCI_QUEUE_NUM (a, d) = (Ok (if vd_sel d \<le> 1 then of_nat (ve_num e) else 0), (a, d))"
    and "write_port_u32 (virtio_hw e) B VIRTIO_PCI_QUEUE_PFN w (a, d) =
      (Ok (), (a, d\<lparr>vd_pfn := (vd_pfn d)(vd_sel d := w), vd_last := (vd_last d)(vd_sel d := 0)\<rparr>))"
    and "read_port_u32 (virtio_hw e) B VIRTIO_PCI_QUEUE_PFN (a, d) = (Ok (vd_pfn d (vd_sel d)), (a, d))"
    using w [of 4] w [of 8] w [of 12] w [of 14] w [of 16]
    by (simp_all add: read_port_u8_def write_port_u8_def read_port_u16_def write_port_u16_def read_port_u32_def write_port_u32_def
        dev_get_def dev_do_def virtio_hw_def Let_def f(2) virtio_constants)
qed

lemma read_mac_run:
  assumes "at_port e B d" and "length (ve_mac e) = 6"
  shows "read_mac_at (virtio_hw e) B VIRTIO_PCI_CONFIG_OFF_NO_MSIX (a, d) = (Ok (ve_mac e), (a, d))"
proof -
  have f: "vio_port e d = B" using assms by (auto simp: at_port_def)
  have r: "read_port_u8 (virtio_hw e) B (20 + of_nat i) (a, d) = (Ok (ve_mac e ! i), (a, d))" if "i < 6" for i
  proof -
    have "i = 0 \<or> i = 1 \<or> i = 2 \<or> i = 3 \<or> i = 4 \<or> i = 5" using that by linarith
    then show ?thesis by (elim disjE) (simp_all add: read_port_u8_def dev_get_def virtio_hw_def Let_def f)
  qed
  have "ve_mac e = map (\<lambda>i. ve_mac e ! i) [0..<6]" using assms(2) map_nth [of "ve_mac e"] by simp
  also have "\<dots> = [ve_mac e ! 0, ve_mac e ! 1, ve_mac e ! 2, ve_mac e ! 3, ve_mac e ! 4, ve_mac e ! 5]"
    by (simp add: upt_rec) (simp add: numeral_eq_Suc)
  finally have mac: "ve_mac e = [ve_mac e ! 0, ve_mac e ! 1, ve_mac e ! 2, ve_mac e ! 3, ve_mac e ! 4, ve_mac e ! 5]" .
  have six: "(6 :: nat) = Suc (Suc (Suc (Suc (Suc (Suc 0)))))" by simp
  have "read_mac_at (virtio_hw e) B VIRTIO_PCI_CONFIG_OFF_NO_MSIX (a, d) =
      (Ok [ve_mac e ! 0, ve_mac e ! 1, ve_mac e ! 2, ve_mac e ! 3, ve_mac e ! 4, ve_mac e ! 5], (a, d))"
    using r [of 0] r [of 1] r [of 2] r [of 3] r [of 4] r [of 5]
    unfolding read_mac_at_def six by (simp add: virtio_constants io_bind_def)
  then show ?thesis by (simp only: mac [symmetric])
qed

lemma mem_runs:
  "load16 (virtio_hw e) (ve_offset e + adr x) (a, d) = (Ok (mem16 (vd_mem d) (adr x)), (a, d))"
  "load32 (virtio_hw e) (ve_offset e + adr x) (a, d) = (Ok (mem32 (vd_mem d) (adr x)), (a, d))"
  "store16 (virtio_hw e) (ve_offset e + adr x) v (a, d) = (Ok (), (a, d\<lparr>vd_mem := store_mem (vd_mem d) (adr x) (le_bytes16 v)\<rparr>))"
  "write_bytes (virtio_hw e) (ve_offset e + adr x) b n (a, d) = (Ok (), (a, d\<lparr>vd_mem := store_mem (vd_mem d) (adr x) (replicate n b)\<rparr>))"
  "dev_do (vol_store (virtio_hw e) (ve_offset e + adr x) bs) (a, d) = (Ok (), (a, d\<lparr>vd_mem := store_mem (vd_mem d) (adr x) bs\<rparr>))"
  "dev_get (vol_load (virtio_hw e) (ve_offset e + adr x) n) (a, d) = (Ok (load_mem (vd_mem d) (adr x) n), (a, d))"
  by (simp_all add: load16_def load32_def store16_def write_bytes_def dev_do_def dev_get_def io_bind_def virtio_hw_def mem16_def mem32_def
      numeral_eq_Suc)

lemma write_desc_run:
  "write_desc (virtio_hw e) (ve_offset e + adr D) x len flags (a, d) = (Ok (), (a, d\<lparr>vd_mem := described D x len flags (vd_mem d)\<rparr>))"
  by (simp add: write_desc_def io_bind_def add.assoc mem_runs described_def)

lemma publish_run:
  assumes "0 < num" and "num < 65536"
  shows "publish (virtio_hw e) (ve_offset e + adr A) (adr num) i (a, d) = (Ok (), (a, d\<lparr>vd_mem := published A num i (vd_mem d)\<rparr>))"
proof -
  have nz: "adr num \<noteq> 0" using assms by (simp add: adr_def word_unat_eq_iff unat_of_nat)
  have r: "ucast n mod adr num = adr (unat n mod num)" for n :: u16
  proof -
    have "unat (ucast n mod adr num :: u64) = unat n mod num"
      using assms by (simp add: unat_mod_distrib unat_adr unat_ucast_up)
    moreover have "unat n mod num < 2 ^ 64" using mod_less_divisor [OF assms(1), of "unat n"] assms(2) by simp
    ultimately show ?thesis by (simp add: word_unat_eq_iff unat_adr)
  qed
  have t: "2 * adr x = adr (2 * x)" for x by (simp add: adr_def)
  show ?thesis unfolding published_def Let_def
    using nz by (simp add: publish_def io_bind_def add.assoc mem_runs r t)
qed

section \<open>Queues\<close>

lemma mem32_parts:
  "x + 8 \<le> 2 ^ 63 \<Longrightarrow> mem32 (store_mem m (adr x) (le_bytes32 v @ le_bytes32 w)) (adr x) = v"
  "x + 8 \<le> 2 ^ 63 \<Longrightarrow> mem32 (store_mem m (adr x) (le_bytes32 v @ le_bytes32 w)) (adr (x + 4)) = w"
  by (simp_all add: mem32_def store_adr le_bytes32_def)

lemma used_facts:
  fixes m :: mem and head :: u16 and len :: u32
  assumes "P + used_at num + 4 + 8 * num \<le> 2 ^ 63" and "0 < num"
  defines "i \<equiv> mem16 m (adr (P + used_at num + 2))" and "m' \<equiv> vq_used_mem num (adr P) head len m"
  shows "mem16 m' (adr (P + used_at num + 2)) = i + 1"
    and "mem32 m' (adr (P + used_at num + 4 + 8 * (unat i mod num))) = ucast head"
    and "mem32 m' (adr (P + used_at num + 8 + 8 * (unat i mod num))) = len"
    and "y + k \<le> P + used_at num + 2 \<or> P + used_at num + 4 + 8 * num \<le> y \<Longrightarrow> y + k \<le> 2 ^ 63 \<Longrightarrow> same_on y k m m'"
    and "j < num \<Longrightarrow> j \<noteq> unat i mod num \<Longrightarrow> same_on (P + used_at num + 4 + 8 * j) 8 m m'"
proof -
  let ?x = "P + used_at num + 4 + 8 * (unat i mod num)" and ?y = "P + used_at num + 2"
  let ?el = "le_bytes32 (ucast head) @ le_bytes32 len"
  let ?m1 = "store_mem m (adr ?x) ?el"
  have lt: "unat i mod num < num" using assms(2) by simp
  then have b: "?x + 8 \<le> P + used_at num + 4 + 8 * num" by linarith
  have p: "m' = store_mem ?m1 (adr ?y) (le_bytes16 (i + 1))"
    unfolding m'_def by (simp only: vq_used_mem_def i_def Let_def adr_add add.assoc)
  have b63: "?x + 8 \<le> 2 ^ 63" "?y + 2 \<le> ?x" using b assms(1) by linarith+
  show "mem16 m' (adr ?y) = i + 1" unfolding p by (rule mem16_store) (use b63 in linarith)
  have keep: "same_on z n ?m1 m'" if "?x \<le> z" "z + n \<le> 2 ^ 63" for z n
    unfolding p by (rule same_on_store) (use b63 that in simp_all)
  have "mem32 m' (adr ?x) = mem32 ?m1 (adr ?x)" by (rule same_on_mem32 [OF keep [of ?x 8]]) (use b63 in simp_all)
  then show "mem32 m' (adr ?x) = ucast head" using mem32_parts(1) [OF b63(1)] by simp
  have "mem32 m' (adr (?x + 4)) = mem32 ?m1 (adr (?x + 4))" by (rule same_on_mem32 [OF keep [of ?x 8]]) (use b63 in simp_all)
  then have "mem32 m' (adr (?x + 4)) = len" using mem32_parts(2) [OF b63(1)] by simp
  moreover have "?x + 4 = P + used_at num + 8 + 8 * (unat i mod num)" by simp
  ultimately show "mem32 m' (adr (P + used_at num + 8 + 8 * (unat i mod num))) = len" by (simp only:)
  {
    assume a: "y + k \<le> P + used_at num + 2 \<or> P + used_at num + 4 + 8 * num \<le> y" "y + k \<le> 2 ^ 63"
    show "same_on y k m m'" unfolding p by (rule same_on_trans; rule same_on_store) (use b b63 a in auto)
  next
    assume a: "j < num" "j \<noteq> unat i mod num"
    then have "8 * j + 8 \<le> 8 * (unat i mod num) \<or> 8 * (unat i mod num) + 8 \<le> 8 * j" by linarith
    moreover have "P + used_at num + 4 + 8 * j + 8 \<le> 2 ^ 63" using a(1) assms(1) by linarith
    ultimately show "same_on (P + used_at num + 4 + 8 * j) 8 m m'"
      unfolding p by (intro same_on_trans [OF same_on_store same_on_store]) (use b b63 in auto)
  }
qed

text \<open>A queue that the driver has set up at a physical address.\<close>

definition vq_at :: "vio_env \<Rightarrow> u16 \<Rightarrow> nat \<Rightarrow> vio_dev \<Rightarrow> bool" where
  "vq_at e q P d \<longleftrightarrow> vd_pfn d q = of_nat (P div 4096) \<and> 4096 dvd P \<and> 0 < P \<and> P + 4096 * queue_frames (ve_num e) \<le> 2 ^ 44
     \<and> 2 \<le> ve_num e \<and> ve_num e \<le> 32768"

lemma vq_at_base:
  assumes "vq_at e q P d"
  shows "vq_base d q = adr P" and "vd_pfn d q \<noteq> 0"
proof -
  obtain k where k: "P = 4096 * k" using assms by (auto simp: vq_at_def elim!: dvdE)
  have "0 < queue_frames (ve_num e)" using queue_frames_bounds(1) [of "ve_num e"] by linarith
  then have b: "k < 2 ^ 32" "0 < k" using assms k by (auto simp: vq_at_def)
  have pfn: "vd_pfn d q = of_nat k" using assms k by (simp add: vq_at_def)
  have "ucast (of_nat k :: u32) = (of_nat k :: u64)" using b(1) by (simp add: word_unat_eq_iff unat_of_nat unat_ucast_up)
  then show "vq_base d q = adr P" unfolding vq_base_def pfn by (simp add: adr_def k)
  show "vd_pfn d q \<noteq> 0" unfolding pfn using b by (simp add: word_unat_eq_iff unat_of_nat)
qed

lemma vq_bounds:
  assumes "vq_at e q P d"
  shows "P + used_at (ve_num e) + 6 + 8 * ve_num e \<le> P + 4096 * queue_frames (ve_num e)"
    and "P + 4096 * queue_frames (ve_num e) \<le> 2 ^ 44" and "18 * ve_num e + 6 \<le> used_at (ve_num e)" and "0 < ve_num e"
    and "(2 :: nat) ^ 44 \<le> 2 ^ 63"
  using assms queue_frames_bounds(1) [of "ve_num e"] used_at_bounds(1) [of "ve_num e"] by (auto simp: vq_at_def)

lemma setup_queue_run:
  assumes "at_port e B d" and "vd_sel d \<le> 1" and "2 \<le> ve_num e" and "ve_num e \<le> 32768"
    and "frames_at a (queue_frames (ve_num e) + n) F"
  shows "setup_queue (virtio_hw e) B msg (a, d) =
     (Ok (of_nat (ve_num e), adr (queue_frames (ve_num e)), ve_offset e + adr F, of_nat (F div 4096), of_nat (F div 4096)),
      (a\<lparr>next_frame := next_frame a + queue_frames (ve_num e)\<rparr>,
       d\<lparr>vd_mem := store_mem (vd_mem d) (adr F) (replicate (4096 * queue_frames (ve_num e)) 0),
         vd_pfn := (vd_pfn d)(vd_sel d := of_nat (F div 4096)), vd_last := (vd_last d)(vd_sel d := 0)\<rparr>))"
proof -
  let ?num = "ve_num e" and ?K = "queue_frames (ve_num e)"
  have F: "F + 4096 * ?K \<le> 2 ^ 44" "4096 dvd F" using assms(5) by (auto simp: frames_at_def)
  have K: "0 < ?K" "?K < 4294967297" using queue_frames_bounds(1) [of ?num] F(1) by simp_all
  have n: "(of_nat ?num :: u16) \<noteq> 0" "(ucast (of_nat ?num :: u16) :: u64) = adr ?num"
    using assms(3,4) by (simp_all add: adr_def word_unat_eq_iff unat_of_nat unat_ucast_up)
  have z: "unat (adr ?K * FRAME_SIZE) = 4096 * ?K"
    using K(2) by (simp add: FRAME_SIZE_def unat_word_ariths unat_adr)
  have "unat (adr F div 4096) = F div 4096" using F(1) by (simp add: unat_div_distrib unat_adr)
  then have "adr F div 4096 = adr (F div 4096)" using F(1) by (simp add: word_unat_eq_iff unat_adr)
  moreover have "F div 4096 < 2 ^ 32" using F(1) K(1) by (intro less_mult_imp_div_less) simp
  ultimately have pf: "(ucast (adr F div FRAME_SIZE) :: u32) = of_nat (F div 4096)"
    by (simp add: FRAME_SIZE_def adr_def word_unat_eq_iff unat_of_nat unsigned_ucast_eq take_bit_eq_mod)
  have lay: "div_ceil64 (vring_size (adr ?num) VRING_ALIGN) FRAME_SIZE = adr ?K" by (rule queue_layout(3)) (use assms(4) in simp)
  have off: "phys_mem_offset (virtio_hw e) = ve_offset e" by (simp add: virtio_hw_def)
  have K64: "?K < 2 ^ 64" using K(2) by simp
  show ?thesis
    unfolding setup_queue_def io_bind_step [where m = "read_port_u16 (virtio_hw e) B VIRTIO_PCI_QUEUE_NUM", OF port_runs(7) [OF assms(1)]]
    using assms(1,2) n
    by (simp add: lay contiguous_frames_run [OF assms(5) K(1) K64] Let_def off z io_bind_def mem_runs pf port_runs)
qed

section \<open>The transmit queue\<close>

text \<open>A running transmit queue in which \<open>i\<close> requests have been made and completed.\<close>

definition txq :: "vio_env \<Rightarrow> nat \<Rightarrow> u16 \<Rightarrow> vio_dev \<Rightarrow> bool" where
  "txq e P i d \<longleftrightarrow> vq_at e 1 P d \<and> vio_running e d \<and> vd_last d 1 = i
     \<and> mem16 (vd_mem d) (adr (P + (16 * ve_num e + 2))) = i \<and> mem16 (vd_mem d) (adr (P + (used_at (ve_num e) + 2))) = i"

definition tx_info :: "vio_env \<Rightarrow> u16 \<Rightarrow> nat \<Rightarrow> tx_queue_info" where
  "tx_info e B P = \<lparr>tq_queue_num = of_nat (ve_num e), tq_frames_needed = adr (queue_frames (ve_num e)), tq_pfn = of_nat (P div 4096),
     tq_pfn_readback = of_nat (P div 4096), tq_final_status = 7, tq_io_base = B, tq_virt_base = ve_offset e + adr P\<rparr>"

lemma zero_mem16:
  assumes "F + n \<le> 2 ^ 44" and "F \<le> y" and "y + 2 \<le> F + n"
  shows "mem16 (store_mem m (adr F) (replicate n 0)) (adr y) = 0"
  using assms by (simp add: mem16_def store_adr le16_def be16_def)

lemma init_tx_run:
  assumes found: "vio_found e d" and num: "2 \<le> ve_num e" "ve_num e \<le> 32768" and fr: "frames_at a (queue_frames (ve_num e) + n) F"
  obtains d' where "init_tx_queue (virtio_hw e) (a, d) =
      (Ok (tx_info e (vio_port e d) F), (a\<lparr>next_frame := next_frame a + queue_frames (ve_num e)\<rparr>, d'))"
    and "at_port e (vio_port e d) d'" and "txq e F 0 d'" and "vd_sent d' = vd_sent d" and "vd_inbox d' = vd_inbox d"
    and "vd_pfn d' 0 = vd_pfn d 0"
proof -
  let ?K = "queue_frames (ve_num e)" and ?B = "vio_port e d" and ?c = "hb_conf (vd_bridge d)"
  let ?dev = "pci_function_at ?c (ve_device e) (ve_function e)"
  note f = found [unfolded vio_found_def]
  obtain b1 where b1: "find_io_base (virtio_hw e) (a, d) = (Ok (?dev, ?B), (a, d\<lparr>vd_bridge := b1\<rparr>))" "hb_conf b1 = ?c"
    using find_io_base_run [OF found] by metis
  let ?d = "enable_bus_mastering (virtio_hw e) ?dev (d\<lparr>vd_bridge := b1\<rparr>)"
  have w: "bit (hb_writable 0 (ve_device e) (ve_function e) 1) 2" by (simp add: hb_writable_def)
  have c: "hb_conf (vd_bridge ?d) = with_master ?c (ve_device e) (ve_function e)"
    using vio_pci.enable_device_law(1) [of "ve_device e" "ve_function e" e ?c "d\<lparr>vd_bridge := b1\<rparr>"] f w b1(2) by simp
  have d: "?d = d\<lparr>vd_bridge := vd_bridge ?d\<rparr>"
    by (rule vio_only_bridge) (use vio_pci.enable_device_law(2) [of "ve_device e" "ve_function e" e ?c "d\<lparr>vd_bridge := b1\<rparr>"] f w in simp)
  define b where "b = vd_bridge ?d"
  have b: "?d = d\<lparr>vd_bridge := b\<rparr>" "hb_conf b = with_master ?c (ve_device e) (ve_function e)"
    unfolding b_def by (fact d, fact c)
  have conf: "vio_conf e (d\<lparr>vd_bridge := b\<rparr>) 4 = vio_conf e d 4" "vio_conf e (d\<lparr>vd_bridge := b\<rparr>) 1 AND 4 \<noteq> 0"
    by (simp_all add: vio_conf_def b(2) with_master_same) (simp add: with_master_def and.commute [of _ 4] bit.conj_disj_distrib)
  have p: "at_port e ?B (d\<lparr>vd_bridge := b\<rparr>)"
    using f conf(1) by (simp add: at_port_def vio_found_def vio_port_def b(2))
  let ?m = "store_mem (vd_mem d) (adr F) (replicate (4096 * ?K) 0)"
  let ?d' = "d\<lparr>vd_bridge := b, vd_status := 7, vd_sel := 1, vd_mem := ?m, vd_pfn := (vd_pfn d)(1 := of_nat (F div 4096)),
     vd_last := (vd_last d)(1 := 0)\<rparr>"
  have F: "F + 4096 * ?K \<le> 2 ^ 44" "4096 dvd F" "0 < F" using fr by (auto simp: frames_at_def)
  have run: "init_tx_queue (virtio_hw e) (a, d) = (Ok (tx_info e ?B F), (a\<lparr>next_frame := next_frame a + ?K\<rparr>, ?d'))"
    unfolding init_tx_queue_def io_bind_step [where m = "find_io_base (virtio_hw e)", OF b1(1)] prod.case
    using p by (simp add: io_bind_def dev_do_def b(1) port_runs setup_queue_run [OF _ _ num fr] tx_info_def
        VIRTIO_STATUS_ACKNOWLEDGE_def VIRTIO_STATUS_DRIVER_def VIRTIO_STATUS_DRIVER_OK_def TX_QUEUE_INDEX_def)
  have q: "vq_at e 1 F ?d'" using F num by (simp add: vq_at_def)
  note bb = vq_bounds [OF q]
  have "mem16 ?m (adr (F + (16 * ve_num e + 2))) = 0" "mem16 ?m (adr (F + (used_at (ve_num e) + 2))) = 0"
    by (rule zero_mem16; use F(1) bb in linarith)+
  moreover have "vio_running e ?d'" using conf(2) by (simp add: vio_running_def vio_conf_def)
  ultimately have "txq e F 0 ?d'" using q by (simp add: txq_def)
  then show ?thesis using that [OF run] p by simp
qed

lemma vq_use_fields [simp]:
  "vd_bridge (vq_use e q h n d) = vd_bridge d" "vd_ticks (vq_use e q h n d) = vd_ticks d" "vd_status (vq_use e q h n d) = vd_status d"
  "vd_sel (vq_use e q h n d) = vd_sel d" "vd_pfn (vq_use e q h n d) = vd_pfn d" "vd_sent (vq_use e q h n d) = vd_sent d"
  "vd_inbox (vq_use e q h n d) = vd_inbox d" "vd_last (vq_use e q h n d) = (vd_last d)(q := vd_last d q + 1)"
  "vd_mem (vq_use e q h n d) = vq_used_mem (ve_num e) (vq_base d q) h n (vd_mem d)"
  by (simp_all add: vq_use_def)

lemma tx_run_one:
  assumes q: "vq_at e 1 P d" and l: "vd_last d 1 = i"
    and av: "mem16 (vd_mem d) (adr (P + (16 * ve_num e + 2))) = i + 1"
    and ring: "mem16 (vd_mem d) (adr (P + (16 * ve_num e + 4 + 2 * (unat i mod ve_num e)))) = s"
    and desc: "le64 (load_mem (vd_mem d) (adr (P + 16 * unat s)) 8) = adr Q" "mem32 (vd_mem d) (adr (P + 16 * unat s + 8)) = of_nat n"
    and n: "n < 2 ^ 32" and buf: "load_mem (vd_mem d) (adr Q) n = replicate 10 0 @ frame"
  shows "vio_tx_run (ve_num e) e d =
     (vq_use e 1 s 0 d)\<lparr>vd_sent := vd_sent d @ [frame], vd_inbox := vd_inbox d @ ve_peer e (vd_sent d) frame\<rparr>"
proof -
  let ?d = "(vq_use e 1 s 0 d)\<lparr>vd_sent := vd_sent d @ [frame], vd_inbox := vd_inbox d @ ve_peer e (vd_sent d) frame\<rparr>"
  note base = vq_at_base [OF q] note bb = vq_bounds [OF q]
  have head: "vq_head e d 1 = s" unfolding vq_head_def l base(1) adr_add by (rule ring)
  have one: "vio_tx_one e d = ?d"
    unfolding vio_tx_one_def head Let_def base(1) using desc n buf by (simp add: unat_of_nat)
  have p1: "vq_pending e d 1" using av base by (simp add: vq_pending_def l)
  have "same_on (P + (16 * ve_num e + 2)) 2 (vd_mem d) (vq_used_mem (ve_num e) (adr P) s 0 (vd_mem d))"
    by (rule used_facts(4)) (use bb in simp_all)
  then have "mem16 (vd_mem ?d) (adr (P + (16 * ve_num e + 2))) = i + 1"
    using same_on_mem16 [of "P + (16 * ve_num e + 2)" 2 _ _ "P + (16 * ve_num e + 2)"] av base(1) by simp
  then have p2: "\<not> vq_pending e ?d 1" using base l by (simp add: vq_pending_def vq_base_def)
  obtain k where k: "ve_num e = Suc (Suc k)" using q by (auto simp: vq_at_def numeral_2_eq_2 Suc_le_eq dest!: less_imp_Suc_add)
  show ?thesis unfolding k using p1 p2 one by simp
qed

text \<open>One request from the driver to its completion.\<close>

lemma transmit_run:
  assumes t: "txq e P i d" and s: "unat s < ve_num e"
    and buf: "load_mem (vd_mem d) (adr Q) n = replicate 10 0 @ frame" and n: "n \<le> 4096"
    and Q: "Q + 4096 \<le> P \<or> P + 4096 * queue_frames (ve_num e) \<le> Q" "Q + 4096 \<le> 2 ^ 44"
  defines "m2 \<equiv> published (P + 16 * ve_num e) (ve_num e) s (described (P + 16 * unat s) (adr Q) (of_nat n) 0 (vd_mem d))"
  defines "d3 \<equiv> vio_tx_run (ve_num e) e (d\<lparr>vd_mem := m2\<rparr>)"
  shows "mem16 m2 (adr (P + (used_at (ve_num e) + 2))) = i" and "txq e P (i + 1) d3"
    and "vd_sent d3 = vd_sent d @ [frame]" and "vd_inbox d3 = vd_inbox d @ ve_peer e (vd_sent d) frame"
    and "mem32 (vd_mem d3) (adr (P + used_at (ve_num e) + 4 + 8 * (unat i mod ve_num e))) = ucast s"
    and "mem32 (vd_mem d3) (adr (P + used_at (ve_num e) + 8 + 8 * (unat i mod ve_num e))) = 0"
    and "\<And>y k. y + k \<le> P \<or> P + 4096 * queue_frames (ve_num e) \<le> y \<Longrightarrow> y + k \<le> 2 ^ 44 \<Longrightarrow> same_on y k (vd_mem d) (vd_mem d3)"
    and "vd_bridge d3 = vd_bridge d" and "vd_pfn d3 = vd_pfn d" and "vd_last d3 0 = vd_last d 0" and "vd_ticks d3 = vd_ticks d"
proof -
  let ?num = "ve_num e" and ?U = "used_at (ve_num e)" let ?A = "P + 16 * ?num" and ?D = "P + 16 * unat s"
  let ?m1 = "described ?D (adr Q) (of_nat n) 0 (vd_mem d)"
  have q: "vq_at e 1 P d" "vio_running e d" "vd_last d 1 = i" "mem16 (vd_mem d) (adr (P + (16 * ?num + 2))) = i"
    "mem16 (vd_mem d) (adr (P + (?U + 2))) = i" using t by (auto simp: txq_def)
  note bb = vq_bounds [OF q(1)]
  have D: "?D + 16 \<le> ?A" using s by linarith
  have d63: "?D + 16 \<le> 2 ^ 63" and a63: "?A + 4 + 2 * ?num \<le> 2 ^ 63" using D bb by linarith+
  note df = described_facts [OF d63, where x = "adr Q" and len = "of_nat n" and flags = 0 and m = "vd_mem d"]
  have m1: "mem16 ?m1 (adr (?A + 2)) = i"
  proof -
    have "mem16 ?m1 (adr (?A + 2)) = mem16 (vd_mem d) (adr (?A + 2))"
      by (rule same_on_mem16 [OF df(4) [of "?A + 2" 2]]) (use D bb in linarith)+
    then show ?thesis using q(4) by (simp add: add.assoc)
  qed
  note pf = published_facts [OF a63 bb(4), where m = ?m1 and i = s, unfolded m1, folded m2_def]
  have out: "same_on y k (vd_mem d) m2" if "y + k \<le> P \<or> ?A + 4 + 2 * ?num \<le> y" "y + k \<le> 2 ^ 44" for y k
    by (rule same_on_trans [OF df(4) pf(3)]) (use that D bb in linarith)+
  show used: "mem16 m2 (adr (P + (?U + 2))) = i"
    using same_on_mem16 [OF out [of "P + (?U + 2)" 2]] bb q(5) by simp
  have keepD: "same_on ?D 16 ?m1 m2" by (rule pf(3)) (use D bb in linarith)+
  have desc: "le64 (load_mem m2 (adr ?D) 8) = adr Q" "mem32 m2 (adr (?D + 8)) = of_nat n"
    using same_on_load [OF keepD, of ?D 8] same_on_mem32 [OF keepD, of "?D + 8"] df(1,2) by simp_all
  have "load_mem m2 (adr Q) n = load_mem (vd_mem d) (adr Q) n"
    by (rule same_on_load [OF out [of Q 4096]]) (use Q bb n in linarith)+
  then have buf2: "load_mem m2 (adr Q) n = replicate 10 0 @ frame" using buf by simp
  let ?d2 = "d\<lparr>vd_mem := m2\<rparr>"
  have q2: "vq_at e 1 P ?d2" using q(1) by (simp add: vq_at_def)
  have d3: "d3 = (vq_use e 1 s 0 ?d2)\<lparr>vd_sent := vd_sent d @ [frame], vd_inbox := vd_inbox d @ ve_peer e (vd_sent d) frame\<rparr>"
    unfolding d3_def using tx_run_one [OF q2, of i s Q n frame] q(3) pf(1,2) desc buf2 n by (simp add: add.assoc)
  then have m3: "vd_mem d3 = vq_used_mem ?num (adr P) s 0 m2" using vq_at_base(1) [OF q2] by simp
  have u63: "P + ?U + 4 + 8 * ?num \<le> 2 ^ 63" using bb by linarith
  have i2: "mem16 m2 (adr (P + ?U + 2)) = i" using used by (simp add: add.assoc)
  note uf = used_facts [OF u63 bb(4), where m = m2 and head = s and len = 0, unfolded i2, folded m3]
  show "mem32 (vd_mem d3) (adr (P + ?U + 4 + 8 * (unat i mod ?num))) = ucast s"
    and "mem32 (vd_mem d3) (adr (P + ?U + 8 + 8 * (unat i mod ?num))) = 0" by (fact uf(2), fact uf(3))
  have out3: "same_on y k m2 (vd_mem d3)" if "y + k \<le> P + ?U + 2 \<or> P + 4096 * queue_frames ?num \<le> y" "y + k \<le> 2 ^ 44" for y k
    by (rule uf(4)) (use that bb in linarith)+
  show "same_on y k (vd_mem d) (vd_mem d3)" if "y + k \<le> P \<or> P + 4096 * queue_frames ?num \<le> y" "y + k \<le> 2 ^ 44" for y k
    by (rule same_on_trans [OF out out3]) (use that bb in linarith)+
  have "mem16 (vd_mem d3) (adr (P + (16 * ?num + 2))) = i + 1"
    using same_on_mem16 [OF out3 [of "P + (16 * ?num + 2)" 2]] bb pf(1) by (simp add: add.assoc)
  moreover have "mem16 (vd_mem d3) (adr (P + (?U + 2))) = i + 1" using uf(1) by (simp add: add.assoc)
  moreover have "vq_at e 1 P d3" "vio_running e d3" "vd_last d3 1 = i + 1"
    using q d3 by (simp_all add: vq_at_def vio_running_def vio_conf_def)
  ultimately show "txq e P (i + 1) d3" by (simp add: txq_def)
  show "vd_sent d3 = vd_sent d @ [frame]" "vd_inbox d3 = vd_inbox d @ ve_peer e (vd_sent d) frame" "vd_bridge d3 = vd_bridge d"
    "vd_pfn d3 = vd_pfn d" "vd_last d3 0 = vd_last d 0" "vd_ticks d3 = vd_ticks d"
    by (simp_all add: d3)
qed

lemma virtio_offset [simp]: "phys_mem_offset (virtio_hw e) = ve_offset e" "timer_ticks (virtio_hw e) = vd_ticks"
  by (simp_all add: virtio_hw_def)

lemma poll_used_hit:
  assumes "mem16 (vd_mem d) (adr x) \<noteq> before"
  shows "poll_used USED_POLLS (virtio_hw e) (ve_offset e + adr x) before b (a, d) = (Ok (mem16 (vd_mem d) (adr x)), (a, d))"
proof -
  have u: "USED_POLLS = Suc 999999" by (simp add: USED_POLLS_def)
  show ?thesis unfolding u poll_used.simps(2) using assms by (simp add: io_bind_def mem_runs)
qed

lemma receive_idle: "vd_pfn d 0 = 0 \<or> vd_inbox d = [] \<Longrightarrow> vio_receive e d = d"
  by (cases "vd_inbox d") (auto simp: vio_receive_def vq_pending_def)

lemma notify_tx: "vio_running e d \<Longrightarrow> vio_notify e 1 d =
    (if ve_prompt e then vio_receive e (vio_tx_run (ve_num e) e d) else vio_tx_run (ve_num e) e d)"
  by (simp add: vio_notify_def Let_def)

lemma txq_bridge: "hb_conf b = hb_conf (vd_bridge d) \<Longrightarrow> txq e P i (d\<lparr>vd_bridge := b\<rparr>) = txq e P i d"
  by (simp add: txq_def vq_at_def vio_running_def vio_conf_def)

lemma at_port_bridge: "hb_conf b = hb_conf (vd_bridge d) \<Longrightarrow> at_port e B (d\<lparr>vd_bridge := b\<rparr>) = at_port e B d"
  by (simp add: at_port_def vio_found_def vio_port_def vio_conf_def)

lemma txq_same:
  assumes "txq e P i d" and same: "same_on P (4096 * queue_frames (ve_num e)) (vd_mem d) (vd_mem d')"
    and "vd_pfn d' 1 = vd_pfn d 1" and "vd_last d' 1 = vd_last d 1" and "vd_status d' = vd_status d" and "vd_bridge d' = vd_bridge d"
  shows "txq e P i d'"
proof -
  have q: "vq_at e 1 P d" using assms(1) by (simp add: txq_def)
  note bb = vq_bounds [OF q]
  have *: "mem16 (vd_mem d') (adr (P + x)) = mem16 (vd_mem d) (adr (P + x))" if "x + 2 \<le> 4096 * queue_frames (ve_num e)" for x
    by (rule same_on_mem16 [OF same]) (use that in simp_all)
  show ?thesis
    using assms(1,3-6) bb * [of "16 * ve_num e + 2"] * [of "used_at (ve_num e) + 2"]
    by (simp add: txq_def vq_at_def vio_running_def vio_conf_def)
qed

lemma txq_keep:
  assumes "txq e P i d" and "\<And>y k. P \<le> y \<Longrightarrow> y + k \<le> P + 4096 * queue_frames (ve_num e) \<Longrightarrow> same_on y k (vd_mem d) m"
  shows "txq e P i (d\<lparr>vd_mem := m\<rparr>)"
  by (rule txq_same [OF assms(1)]) (use assms(2) in simp_all)

lemma store_keep:
  assumes "Q + length bs \<le> P \<or> P + n \<le> Q" and "Q + length bs \<le> 2 ^ 44" and "P + n \<le> 2 ^ 44" and "P \<le> y" and "y + k \<le> P + n"
  shows "same_on y k m (store_mem m (adr Q) bs)"
proof -
  have "(2 :: nat) ^ 44 \<le> 2 ^ 63" by simp
  then show ?thesis by (intro same_on_store) (use assms in linarith)+
qed

lemma ucast_num: "ve_num e \<le> 32768 \<Longrightarrow> ucast (of_nat (ve_num e) :: u16) = adr (ve_num e)"
  by (simp add: adr_def word_unat_eq_iff unat_of_nat unat_ucast_up)

lemma length_test_frame: "length (test_frame mac) = 30 + length mac"
  by (simp add: test_frame_def)

lemma send_test_run:
  assumes p: "at_port e B d" and t: "txq e P 0 d" and mac: "length (ve_mac e) = 6" and fr: "frames_at a (Suc n) Q"
    and Q: "P + 4096 * queue_frames (ve_num e) \<le> Q" and idle: "vd_pfn d 0 = 0"
  obtains d' where "virtio_send_test_frame (virtio_hw e) (tx_info e B P) (a, d) =
      (Ok \<lparr>ts_used_idx_before = 0, ts_used_idx_after = 1, ts_used_elem_id = 0, ts_used_elem_len = 0\<rparr>,
       (a\<lparr>next_frame := next_frame a + 1\<rparr>, d'))"
    and "at_port e B d'" and "txq e P 1 d'" and "vd_sent d' = vd_sent d @ [test_frame (ve_mac e)]"
    and "vd_inbox d' = vd_inbox d @ ve_peer e (vd_sent d) (test_frame (ve_mac e))" and "vd_pfn d' 0 = 0"
proof -
  have f: "vio_found e d" "vio_port e d = B" using p by (auto simp: at_port_def)
  obtain b where b: "find_io_base (virtio_hw e) (a, d) =
      (Ok (pci_function_at (hb_conf (vd_bridge d)) (ve_device e) (ve_function e), B), (a, d\<lparr>vd_bridge := b\<rparr>))"
      "hb_conf b = hb_conf (vd_bridge d)"
    using find_io_base_run [OF f(1)] f(2) by metis
  let ?num = "ve_num e" and ?buf = "replicate 10 0 @ test_frame (ve_mac e)"
  let ?m = "store_mem (vd_mem d) (adr Q) ?buf" let ?d1 = "d\<lparr>vd_bridge := b, vd_mem := ?m\<rparr>"
  have q: "vq_at e 1 P d" using t by (simp add: txq_def)
  note bb = vq_bounds [OF q]
  have num: "2 \<le> ?num" "?num \<le> 32768" using q by (auto simp: vq_at_def)
  have Qb: "Q + 4096 \<le> 2 ^ 44" using fr by (auto simp: frames_at_def)
  have lb: "length ?buf = 46" using mac by (simp add: length_test_frame)
  have keep: "same_on y k (vd_mem d) ?m" if "P \<le> y" "y + k \<le> P + 4096 * queue_frames ?num" for y k
    by (rule store_keep [where P = P and n = "4096 * queue_frames ?num"]) (use lb Q Qb bb that in simp_all)
  have "txq e P 0 (d\<lparr>vd_bridge := b\<rparr>)" using t b(2) by (simp add: txq_bridge)
  from txq_keep [OF this, of ?m] have t1: "txq e P 0 ?d1" using keep by simp
  have "load_mem ?m (adr Q) 46 = ?buf" by (rule load_store_adr) (use lb Qb in simp_all)
  then have buf: "load_mem (vd_mem ?d1) (adr Q) 46 = replicate 10 0 @ test_frame (ve_mac e)" by simp
  have s0: "unat (0 :: u16) < ?num" using num by simp
  have Q': "Q + 4096 \<le> P \<or> P + 4096 * queue_frames ?num \<le> Q" using Q by simp
  note tr = transmit_run [OF t1 s0 buf _ Q' Qb, simplified]
  let ?m2 = "published (P + 16 * ?num) ?num 0 (described P (adr Q) 46 0 ?m)"
  define d3 where "d3 = vio_tx_run ?num e (?d1\<lparr>vd_mem := ?m2\<rparr>)"
  have run: "vio_running e (?d1\<lparr>vd_mem := ?m2\<rparr>)" using t1 by (simp add: txq_def vio_running_def vio_conf_def)
  have "vd_pfn d3 0 = 0" using tr(9) idle by (simp add: d3_def)
  then have not: "vio_notify e 1 (?d1\<lparr>vd_mem := ?m2\<rparr>) = d3"
    unfolding notify_tx [OF run] d3_def [symmetric] by (simp add: receive_idle)
  have p1: "at_port e B (d\<lparr>vd_bridge := b\<rparr>)" using p b(2) by (simp add: at_port_bridge)
  have t3: "txq e P 1 d3" using tr(2) by (simp add: d3_def)
  then have u3: "mem16 (vd_mem d3) (adr (P + (used_at ?num + 2))) = 1" by (simp add: txq_def)
  have el: "mem32 (vd_mem d3) (adr (P + (used_at ?num + 4))) = 0" "mem32 (vd_mem d3) (adr (P + (used_at ?num + 8))) = 0"
    using tr(5,6) by (simp_all add: d3_def add.assoc)
  have "virtio_send_test_frame (virtio_hw e) (tx_info e B P) (a, d) =
      (Ok \<lparr>ts_used_idx_before = 0, ts_used_idx_after = 1, ts_used_elem_id = 0, ts_used_elem_len = 0\<rparr>,
       (a\<lparr>next_frame := next_frame a + 1\<rparr>, d3))"
    unfolding virtio_send_test_frame_def io_bind_step [where m = "find_io_base (virtio_hw e)", OF b(1)] prod.case
    using p1 not tr(1) u3 el num lb
    by (simp add: io_bind_def read_mac_run mac frame_run [OF fr] Let_def tx_info_def ucast_num queue_layout add.assoc mem_runs
        write_desc_run publish_run port_runs VIRTIO_NET_HDR_LEN_def TX_QUEUE_INDEX_def poll_used_hit)
  then show ?thesis
    using that [of d3] t3 tr(3,4) at_port_cong [of d3 "d\<lparr>vd_bridge := b\<rparr>"] tr(8) p1 \<open>vd_pfn d3 0 = 0\<close> by (simp add: d3_def)
qed

end
