(* ===== verification/Virtio_Rx.thy ===== *)
theory Virtio_Rx
  imports Virtio_Link
begin

text \<open>
  Reception of the virtio driver on the device of \<open>Virtio_Link\<close>: the receive queue, the delivery of a frame
  into the driver's buffer, and the exchange of an address request for its answer.
\<close>

section \<open>The receive queue\<close>

text \<open>
  A receive queue whose descriptor 0 is the writable buffer at \<open>Q\<close>: \<open>u\<close> frames have been delivered and
  the descriptor has been made available \<open>v\<close> times.
\<close>

definition rxq :: "vio_env \<Rightarrow> nat \<Rightarrow> nat \<Rightarrow> u16 \<Rightarrow> u16 \<Rightarrow> vio_dev \<Rightarrow> bool" where
  "rxq e P Q u v d \<longleftrightarrow> vq_at e 0 P d \<and> vd_last d 0 = u
     \<and> mem16 (vd_mem d) (adr (P + (16 * ve_num e + 2))) = v \<and> mem16 (vd_mem d) (adr (P + (used_at (ve_num e) + 2))) = u
     \<and> (\<forall>j<ve_num e. mem16 (vd_mem d) (adr (P + (16 * ve_num e + 4 + 2 * j))) = 0)
     \<and> le64 (load_mem (vd_mem d) (adr P) 8) = adr Q \<and> mem32 (vd_mem d) (adr (P + 8)) = 2048 \<and> mem16 (vd_mem d) (adr (P + 12)) = 2
     \<and> Q + 4096 \<le> 2 ^ 44 \<and> (Q + 4096 \<le> P \<or> P + 4096 * queue_frames (ve_num e) \<le> Q)"

lemma rxq_same:
  assumes "rxq e P Q u v d" and same: "same_on P (4096 * queue_frames (ve_num e)) (vd_mem d) (vd_mem d')"
    and "vd_pfn d' 0 = vd_pfn d 0" and "vd_last d' 0 = vd_last d 0"
  shows "rxq e P Q u v d'"
proof -
  have q: "vq_at e 0 P d" using assms(1) by (simp add: rxq_def)
  note bb = vq_bounds [OF q]
  have 16: "mem16 (vd_mem d') (adr (P + x)) = mem16 (vd_mem d) (adr (P + x))" if "x + 2 \<le> 4096 * queue_frames (ve_num e)" for x
    by (rule same_on_mem16 [OF same]) (use that in simp_all)
  have "mem32 (vd_mem d') (adr (P + 8)) = mem32 (vd_mem d) (adr (P + 8))"
    by (rule same_on_mem32 [OF same]) (use bb in simp_all)
  moreover have "load_mem (vd_mem d') (adr P) 8 = load_mem (vd_mem d) (adr P) 8"
    by (rule same_on_load [OF same]) (use bb in simp_all)
  moreover have "mem16 (vd_mem d') (adr (P + (16 * ve_num e + 4 + 2 * j))) = 0" if "j < ve_num e" for j
    using 16 [of "16 * ve_num e + 4 + 2 * j"] assms(1) that bb by (simp add: rxq_def)
  ultimately show ?thesis
    using assms(1,3,4) 16 [of "16 * ve_num e + 2"] 16 [of "used_at (ve_num e) + 2"] 16 [of 12] bb
    by (simp add: rxq_def vq_at_def)
qed

text \<open>Delivery of one frame.\<close>

lemma rx_one_run:
  fixes d :: vio_dev
  assumes r: "rxq e P Q u v d" and f: "10 + length f \<le> 2048"
  defines "d' \<equiv> vio_rx_one e f d"
  shows "rxq e P Q (u + 1) v d'"
    and "same_on y k (store_mem (vd_mem d) (adr Q) (replicate 10 0 @ f)) (vd_mem d')
      \<or> \<not> (y + k \<le> P \<or> P + 4096 * queue_frames (ve_num e) \<le> y) \<or> 2 ^ 44 < y + k"
    and "mem32 (vd_mem d') (adr (P + used_at (ve_num e) + 8)) =
      (if unat u mod ve_num e = 0 then of_nat (10 + length f) else mem32 (vd_mem d) (adr (P + used_at (ve_num e) + 8)))"
    and "vd_bridge d' = vd_bridge d" and "vd_status d' = vd_status d" and "vd_pfn d' = vd_pfn d" and "vd_last d' 1 = vd_last d 1"
    and "vd_sent d' = vd_sent d" and "vd_inbox d' = vd_inbox d" and "vd_ticks d' = vd_ticks d"
proof -
  let ?num = "ve_num e" and ?U = "used_at (ve_num e)" and ?buf = "replicate 10 0 @ f"
  let ?m1 = "store_mem (vd_mem d) (adr Q) ?buf" let ?d1 = "d\<lparr>vd_mem := ?m1\<rparr>"
  note q = r [unfolded rxq_def]
  have qa: "vq_at e 0 P d" using q by simp
  note bb = vq_bounds [OF qa] and base = vq_at_base [OF qa]
  have lb: "length ?buf = 10 + length f" by simp
  have Qb: "Q + length ?buf \<le> P \<or> P + 4096 * queue_frames ?num \<le> Q" "Q + length ?buf \<le> 2 ^ 63" using q f bb by auto
  have s1: "same_on P (4096 * queue_frames ?num) (vd_mem d) ?m1"
    by (rule same_on_store) (use Qb bb in linarith)+
  then have r1: "rxq e P Q u v ?d1" using rxq_same [OF r, of ?d1] by simp
  note q1 = r1 [unfolded rxq_def]
  have "unat u mod ?num < ?num" using bb by simp
  then have head: "vq_head e d 0 = 0" using q by (simp add: vq_head_def base)
  have d': "d' = vq_use e 0 0 (of_nat (10 + length f)) ?d1"
    unfolding d'_def vio_rx_one_def head Let_def base(1) using q f by simp
  then have m': "vd_mem d' = vq_used_mem ?num (adr P) 0 (of_nat (10 + length f)) ?m1" using base(1) by (simp add: vq_base_def)
  have u63: "P + ?U + 4 + 8 * ?num \<le> 2 ^ 63" using bb by linarith
  have i1: "mem16 ?m1 (adr (P + ?U + 2)) = u" using q1 by (simp add: add.assoc)
  note uf = used_facts [OF u63 bb(4), where m = ?m1 and head = 0 and len = "of_nat (10 + length f)", unfolded i1, folded m']
  have low: "same_on P (?U + 2) ?m1 (vd_mem d')" by (rule uf(4)) (use bb in linarith)+
  have 16: "mem16 (vd_mem d') (adr (P + x)) = mem16 ?m1 (adr (P + x))" if "x + 2 \<le> ?U + 2" for x
    by (rule same_on_mem16 [OF low]) (use that in simp_all)
  have "mem32 (vd_mem d') (adr (P + 8)) = mem32 ?m1 (adr (P + 8))" by (rule same_on_mem32 [OF low]) (use bb in simp_all)
  moreover have "load_mem (vd_mem d') (adr P) 8 = load_mem ?m1 (adr P) 8" by (rule same_on_load [OF low]) (use bb in simp_all)
  moreover have "mem16 (vd_mem d') (adr (P + (16 * ?num + 4 + 2 * j))) = 0" if "j < ?num" for j
    using 16 [of "16 * ?num + 4 + 2 * j"] q1 that bb by simp
  moreover have "mem16 (vd_mem d') (adr (P + (?U + 2))) = u + 1" using uf(1) by (simp add: add.assoc)
  ultimately show "rxq e P Q (u + 1) v d'"
    using q1 16 [of "16 * ?num + 2"] 16 [of 12] bb unfolding rxq_def by (simp add: d' vq_at_def)
  show "same_on y k ?m1 (vd_mem d') \<or> \<not> (y + k \<le> P \<or> P + 4096 * queue_frames (ve_num e) \<le> y) \<or> 2 ^ 44 < y + k"
    using uf(4) [of y k] bb by linarith
  have one: "mem32 ?m1 (adr (P + ?U + 8)) = mem32 (vd_mem d) (adr (P + ?U + 8))"
    by (rule same_on_mem32 [OF s1]) (use bb in simp_all)
  have "mem32 (vd_mem d') (adr (P + ?U + 8)) = mem32 ?m1 (adr (P + ?U + 8))" if "unat u mod ?num \<noteq> 0"
    using same_on_mem32 [OF uf(5) [of 0], of "P + ?U + 8"] that bb by simp
  then show "mem32 (vd_mem d') (adr (P + ?U + 8)) =
      (if unat u mod ?num = 0 then of_nat (10 + length f) else mem32 (vd_mem d) (adr (P + ?U + 8)))"
    using uf(3) one by (cases "unat u mod ?num = 0") simp_all
  show "vd_bridge d' = vd_bridge d" "vd_status d' = vd_status d" "vd_pfn d' = vd_pfn d" "vd_last d' 1 = vd_last d 1"
    "vd_sent d' = vd_sent d" "vd_inbox d' = vd_inbox d" "vd_ticks d' = vd_ticks d"
    by (simp_all add: d')
qed


lemma receive_one:
  assumes "rxq e P Q u v d" and "vio_running e d" and "u \<noteq> v" and "vd_inbox d = [f]"
  shows "vio_receive e d = vio_rx_one e f (d\<lparr>vd_inbox := []\<rparr>)"
proof -
  have q: "vq_at e 0 P d" using assms(1) by (simp add: rxq_def)
  have "vq_pending e d 0" using assms(1,3) vq_at_base [OF q] by (simp add: rxq_def vq_pending_def)
  then show ?thesis using assms(2,4) by (simp add: vio_receive_def)
qed

section \<open>The driver sets the queue up and arms it\<close>

text \<open>Making descriptor 0 available once more changes nothing else of the queue.\<close>

lemma rxq_published:
  assumes r: "rxq e P Q u v d"
  shows "rxq e P Q u (v + 1) (d\<lparr>vd_mem := published (P + 16 * ve_num e) (ve_num e) 0 (vd_mem d)\<rparr>)"
proof -
  let ?num = "ve_num e" and ?U = "used_at (ve_num e)" let ?A = "P + 16 * ?num" let ?m = "published ?A ?num 0 (vd_mem d)"
  note q = r [unfolded rxq_def]
  have qa: "vq_at e 0 P d" using q by simp
  note bb = vq_bounds [OF qa]
  have a63: "?A + 4 + 2 * ?num \<le> 2 ^ 63" using bb by linarith
  have v: "mem16 (vd_mem d) (adr (?A + 2)) = v" using q by (simp add: add.assoc)
  note pf = published_facts [OF a63 bb(4), where m = "vd_mem d" and i = 0, unfolded v]
  have low: "same_on P (16 * ?num) (vd_mem d) ?m" by (rule pf(3)) (use bb in linarith)+
  have hi: "same_on (P + ?U) 4 (vd_mem d) ?m" by (rule pf(3)) (use bb in linarith)+
  have n2: "2 \<le> ?num" using qa by (simp add: vq_at_def)
  have "mem16 ?m (adr (P + (16 * ?num + 4 + 2 * j))) = 0" if "j < ?num" for j
  proof (cases "j = unat v mod ?num")
    case True
    then show ?thesis using pf(2) by (simp add: add.assoc)
  next
    case False
    obtain w where w: "unat v mod ?num = w" "w < ?num" using bb by simp
    have "j < w \<or> w < j" using False w by linarith
    then have "mem16 ?m (adr (P + (16 * ?num + 4 + 2 * j))) = mem16 (vd_mem d) (adr (P + (16 * ?num + 4 + 2 * j)))"
      unfolding published_def Let_def v w(1) using that a63 w(2) by (subst mem16_skip; (subst mem16_skip)?) auto
    then show ?thesis using q that by simp
  qed
  moreover have "mem32 ?m (adr (P + 8)) = 2048" using same_on_mem32 [OF low, of "P + 8"] q n2 by simp
  moreover have "mem16 ?m (adr (P + 12)) = 2" using same_on_mem16 [OF low, of "P + 12"] q n2 by simp
  moreover have "load_mem ?m (adr P) 8 = load_mem (vd_mem d) (adr P) 8" by (rule same_on_load [OF low]) (use n2 in simp_all)
  moreover have "mem16 ?m (adr (P + (?U + 2))) = u" using same_on_mem16 [OF hi, of "P + (?U + 2)"] q by simp
  moreover have "mem16 ?m (adr (P + (16 * ?num + 2))) = v + 1" using pf(1) by (simp add: add.assoc)
  ultimately show ?thesis using q by (simp add: rxq_def vq_at_def)
qed

lemma published_outside:
  assumes "vq_at e q P d" and "y + k \<le> P \<or> P + 4096 * queue_frames (ve_num e) \<le> y" and "y + k \<le> 2 ^ 44"
  shows "same_on y k m (published (P + 16 * ve_num e) (ve_num e) i m)"
  by (rule published_facts(3)) (use assms(2,3) vq_bounds [OF assms(1)] in linarith)+

definition rx_info :: "vio_env \<Rightarrow> u16 \<Rightarrow> nat \<Rightarrow> nat \<Rightarrow> rx_queue_info" where
  "rx_info e B P Q = \<lparr>rq_queue_num = of_nat (ve_num e), rq_frames_needed = adr (queue_frames (ve_num e)), rq_pfn = of_nat (P div 4096),
     rq_pfn_readback = of_nat (P div 4096), rq_io_base = B, rq_virt_base = ve_offset e + adr P, rq_buf_phys = adr Q,
     rq_buf_virt = ve_offset e + adr Q, rq_buf_len = 2048, rq_desc_flags_readback = 2, rq_avail_idx_after = 1\<rparr>"

lemma zeroed_queue:
  assumes "vq_at e 0 P d" and "vd_last d 0 = 0" and "\<And>y. P \<le> y \<Longrightarrow> y < P + 4096 * queue_frames (ve_num e) \<Longrightarrow> vd_mem d (adr y) = 0"
    and "Q + 4096 \<le> 2 ^ 44" and "P + 4096 * queue_frames (ve_num e) \<le> Q"
  shows "rxq e P Q 0 0 (d\<lparr>vd_mem := described P (adr Q) 2048 2 (vd_mem d)\<rparr>)"
proof -
  note bb = vq_bounds [OF assms(1)]
  have P: "P + 16 \<le> 2 ^ 63" "2 \<le> ve_num e" using bb assms(1) by (simp_all add: vq_at_def)
  note df = described_facts [OF P(1), where x = "adr Q" and len = 2048 and flags = 2 and m = "vd_mem d"]
  have "mem16 (described P (adr Q) 2048 2 (vd_mem d)) (adr (P + x)) = 0" if "16 \<le> x" "x + 2 \<le> 4096 * queue_frames (ve_num e)" for x
  proof -
    have "same_on (P + x) 2 (vd_mem d) (described P (adr Q) 2048 2 (vd_mem d))" by (rule df(4)) (use that bb in simp_all)
    then have "mem16 (described P (adr Q) 2048 2 (vd_mem d)) (adr (P + x)) = mem16 (vd_mem d) (adr (P + x))"
      by (rule same_on_mem16) simp_all
    then show ?thesis using assms(3) [of "P + x"] assms(3) [of "P + x + 1"] that by (simp add: mem16_def le16_def be16_def)
  qed
  from this [of "16 * ve_num e + 2"] this [of "used_at (ve_num e) + 2"] this [of "16 * ve_num e + 4 + 2 * _"]
  show ?thesis using df(1-3) assms(1,2,4,5) bb P by (simp add: rxq_def vq_at_def)
qed

lemma notify_rx: "vd_inbox d = [] \<Longrightarrow> vio_notify e 0 d = d"
  by (simp add: vio_notify_def receive_idle)

lemma init_rx_run:
  assumes p: "at_port e B d" and t: "txq e P i d" and fr: "frames_at a (queue_frames (ve_num e) + Suc n) F"
    and F: "P + 4096 * queue_frames (ve_num e) \<le> F" and idle: "vd_inbox d = []"
  obtains d' where "init_rx_queue (virtio_hw e) (tx_info e B P) (a, d) =
      (Ok (rx_info e B F (F + 4096 * queue_frames (ve_num e))), (a\<lparr>next_frame := next_frame a + (queue_frames (ve_num e) + 1)\<rparr>, d'))"
    and "at_port e B d'" and "txq e P i d'" and "rxq e F (F + 4096 * queue_frames (ve_num e)) 0 1 d'"
    and "vd_sent d' = vd_sent d" and "vd_inbox d' = []"
proof -
  let ?num = "ve_num e" and ?K = "queue_frames (ve_num e)" let ?Q = "F + 4096 * ?K"
  let ?m1 = "store_mem (store_mem (vd_mem d) (adr F) (replicate (4096 * ?K) 0)) (adr ?Q) (replicate 2048 0)"
  let ?d1 = "d\<lparr>vd_sel := 0, vd_mem := ?m1, vd_pfn := (vd_pfn d)(0 := of_nat (F div 4096)), vd_last := (vd_last d)(0 := 0)\<rparr>"
  let ?m2 = "described F (adr ?Q) 2048 2 ?m1" let ?m3 = "published (F + 16 * ?num) ?num 0 ?m2"
  let ?d3 = "?d1\<lparr>vd_mem := ?m3\<rparr>"
  have q: "vq_at e 1 P d" using t by (simp add: txq_def)
  note bb = vq_bounds [OF q]
  have num: "2 \<le> ?num" "?num \<le> 32768" using q by (auto simp: vq_at_def)
  have Fb: "?Q + 4096 \<le> 2 ^ 44" "4096 dvd F" "0 < F" using fr by (auto simp: frames_at_def)
  have fr2: "frames_at (a\<lparr>next_frame := next_frame a + ?K\<rparr>) (Suc n) ?Q" using frames_at_next [OF fr] .
  have v: "vq_at e 0 F ?d1" using Fb num by (simp add: vq_at_def)
  have "?m1 (adr y) = 0" if "F \<le> y" "y < ?Q" for y using that Fb by (simp add: store_adr)
  then have r2: "rxq e F ?Q 0 0 (?d1\<lparr>vd_mem := ?m2\<rparr>)" using zeroed_queue [OF v, of ?Q] Fb by simp
  then have r3: "rxq e F ?Q 0 1 ?d3" using rxq_published by fastforce
  have "same_on P (4096 * ?K) (vd_mem d) (store_mem (vd_mem d) (adr F) (replicate (4096 * ?K) 0))"
    "same_on P (4096 * ?K) (store_mem (vd_mem d) (adr F) (replicate (4096 * ?K) 0)) ?m1"
    by (rule same_on_store; use F Fb bb in simp)+
  moreover have "same_on P (4096 * ?K) ?m1 ?m2" by (rule described_facts(4)) (use F Fb in simp_all)
  moreover have "same_on P (4096 * ?K) ?m2 ?m3" by (rule published_outside [OF v]) (use F Fb in simp_all)
  ultimately have "same_on P (4096 * ?K) (vd_mem d) ?m3" by (blast intro: same_on_trans)
  then have t3: "txq e P i ?d3" using txq_same [OF t, of ?d3] by simp
  have "mem16 ?m3 (adr (F + (16 * ?num + 2))) = 1" "mem16 ?m2 (adr (F + 12)) = 2" using r2 r3 by (simp_all add: rxq_def)
  then have "init_rx_queue (virtio_hw e) (tx_info e B P) (a, d) =
      (Ok (rx_info e B F ?Q), (a\<lparr>next_frame := next_frame a + (?K + 1)\<rparr>, ?d3))"
    unfolding init_rx_queue_def Let_def using p num idle
    by (simp add: io_bind_def port_runs setup_queue_run [OF _ _ num fr] tx_info_def RX_QUEUE_INDEX_def frame_run [OF fr2]
        ucast_num queue_layout add.assoc mem_runs write_desc_run publish_run notify_rx rx_info_def VRING_DESC_F_WRITE_def)
  then show ?thesis using that [of ?d3] p t3 r3 idle by simp
qed

section \<open>A request and its answer\<close>

lemma rearm_run:
  assumes p: "at_port e B d" and t: "txq e P i d" and r: "rxq e F Q u v d" and idle: "vd_inbox d = []"
    and apart: "P + 4096 * queue_frames (ve_num e) \<le> F \<or> F + 4096 * queue_frames (ve_num e) \<le> P"
      "P + 4096 * queue_frames (ve_num e) \<le> Q \<or> Q + 4096 \<le> P"
  defines "d' \<equiv> d\<lparr>vd_mem := published (F + 16 * ve_num e) (ve_num e) 0 (store_mem (vd_mem d) (adr Q) (replicate 2048 0))\<rparr>"
  shows "rearm_rx (virtio_hw e) B (rx_info e B F Q) (ve_offset e + adr (F + 16 * ve_num e)) (a, d) = (Ok (), (a, d'))"
    and "txq e P i d'" and "rxq e F Q u (v + 1) d'" and "load_mem (vd_mem d') (adr Q) 2048 = replicate 2048 0"
    and "mem32 (vd_mem d') (adr (F + used_at (ve_num e) + 8)) = mem32 (vd_mem d) (adr (F + used_at (ve_num e) + 8))"
proof -
  let ?num = "ve_num e" and ?K = "queue_frames (ve_num e)" let ?m1 = "store_mem (vd_mem d) (adr Q) (replicate 2048 0)"
  have q: "vq_at e 1 P d" "vq_at e 0 F d" "Q + 4096 \<le> 2 ^ 44" "Q + 4096 \<le> F \<or> F + 4096 * ?K \<le> Q" using t r by (auto simp: txq_def rxq_def)
  note bp = vq_bounds [OF q(1)] and bf = vq_bounds [OF q(2)]
  have num: "2 \<le> ?num" "?num \<le> 32768" using q(1) by (auto simp: vq_at_def)
  have s1: "same_on F (4096 * ?K) (vd_mem d) ?m1" "same_on P (4096 * ?K) (vd_mem d) ?m1"
    by (rule same_on_store; use q(3,4) apart(2) bp bf in auto)+
  have s2: "same_on P (4096 * ?K) ?m1 (vd_mem d')" "same_on Q 2048 ?m1 (vd_mem d')"
    unfolding d'_def by (simp_all, (rule published_outside [OF q(2)], use apart(1) q(3,4) bp in auto)+)
  show "txq e P i d'" by (rule txq_same [OF t same_on_trans [OF s1(2) s2(1)]]) (simp_all add: d'_def)
  have r1: "rxq e F Q u v (d\<lparr>vd_mem := ?m1\<rparr>)" by (rule rxq_same [OF r]) (use s1(1) in simp_all)
  show "rxq e F Q u (v + 1) d'" using rxq_published [OF r1] by (simp add: d'_def)
  have "load_mem (vd_mem d') (adr Q) 2048 = load_mem ?m1 (adr Q) 2048" by (rule same_on_load [OF s2(2)]) simp_all
  also have "\<dots> = replicate 2048 0" by (rule load_store_adr) (use q(3) in simp_all)
  finally show "load_mem (vd_mem d') (adr Q) 2048 = replicate 2048 0" .
  have "same_on (F + used_at ?num + 8) 4 ?m1 (vd_mem d')"
    unfolding d'_def by (simp, rule published_facts(3)) (use bf in linarith)+
  then have "mem32 (vd_mem d') (adr (F + used_at ?num + 8)) = mem32 ?m1 (adr (F + used_at ?num + 8))" by (rule same_on_mem32) simp_all
  also have "\<dots> = mem32 (vd_mem d) (adr (F + used_at ?num + 8))" by (rule same_on_mem32 [OF s1(1)]) (use bf in simp_all)
  finally show "mem32 (vd_mem d') (adr (F + used_at ?num + 8)) = mem32 (vd_mem d) (adr (F + used_at ?num + 8))" .
  show "rearm_rx (virtio_hw e) B (rx_info e B F Q) (ve_offset e + adr (F + 16 * ?num)) (a, d) = (Ok (), (a, d'))"
    unfolding rearm_rx_def rx_info_def d'_def using p num idle
    by (simp add: io_bind_def mem_runs ucast_num publish_run port_runs RX_QUEUE_INDEX_def notify_rx)
qed

text \<open>The state after the delivery of \<open>f\<close> into a zeroed buffer.\<close>

lemma delivered:
  fixes d :: vio_dev
  assumes t: "txq e P i d" and r: "rxq e F Q u v d" and zero: "load_mem (vd_mem d) (adr Q) 2048 = replicate 2048 0"
    and f: "10 + length f \<le> 2048"
    and apart: "P + 4096 * queue_frames (ve_num e) \<le> F \<or> F + 4096 * queue_frames (ve_num e) \<le> P"
      "P + 4096 * queue_frames (ve_num e) \<le> Q \<or> Q + 4096 \<le> P"
  defines "d' \<equiv> vio_rx_one e f d"
  shows "txq e P i d'" and "load_mem (vd_mem d') (adr Q) 2048 = replicate 10 0 @ f @ replicate (2038 - length f) 0"
proof -
  let ?K = "queue_frames (ve_num e)" let ?m1 = "store_mem (vd_mem d) (adr Q) (replicate 10 0 @ f)"
  have q: "vq_at e 1 P d" "vq_at e 0 F d" "Q + 4096 \<le> 2 ^ 44" "Q + 4096 \<le> F \<or> F + 4096 * ?K \<le> Q" using t r by (auto simp: txq_def rxq_def)
  note bp = vq_bounds [OF q(1)]
  note one = rx_one_run [OF r f, folded d'_def]
  have "same_on P (4096 * ?K) (vd_mem d) ?m1" by (rule same_on_store) (use apart(2) f q(3) bp in auto)
  moreover have "same_on P (4096 * ?K) ?m1 (vd_mem d')" using one(2) [of P "4096 * ?K"] apart(1) bp by auto
  ultimately have "same_on P (4096 * ?K) (vd_mem d) (vd_mem d')" by (rule same_on_trans)
  then show "txq e P i d'" by (rule txq_same [OF t]) (simp_all add: one)
  have "same_on Q 2048 ?m1 (vd_mem d')" using one(2) [of Q 2048] q(3,4) by auto
  then have "load_mem (vd_mem d') (adr Q) 2048 = load_mem ?m1 (adr Q) 2048" by (rule same_on_load) simp_all
  also have "\<dots> = replicate 10 0 @ f @ replicate (2038 - length f) 0"
  proof (rule nth_equalityI)
    fix k assume "k < length (load_mem ?m1 (adr Q) 2048)"
    then have k: "k < 2048" by (simp add: load_adr)
    have "vd_mem d (adr (Q + k)) = load_mem (vd_mem d) (adr Q) 2048 ! k" using k by (simp add: load_adr)
    then have z: "vd_mem d (adr (Q + k)) = 0" using zero k by simp
    have "load_mem ?m1 (adr Q) 2048 ! k = ?m1 (adr (Q + k))" using k by (simp add: load_adr)
    also have "\<dots> = (if k < 10 + length f then (replicate 10 0 @ f) ! k else 0)" using q(3) f k z by (simp add: store_adr)
    finally show "load_mem ?m1 (adr Q) 2048 ! k = (replicate 10 0 @ f @ replicate (2038 - length f) 0) ! k"
      using k by (auto simp: nth_append)
  qed (use f in \<open>simp add: load_adr\<close>)
  finally show "load_mem (vd_mem d') (adr Q) 2048 = replicate 10 0 @ f @ replicate (2038 - length f) 0" .
qed

lemma send_arp_run:
  assumes p: "at_port e B d" and t: "txq e P i d" and r: "rxq e F Q u v d" and uv: "u \<noteq> v"
    and zero: "load_mem (vd_mem d) (adr Q) 2048 = replicate 2048 0"
    and apart: "P + 4096 * queue_frames (ve_num e) \<le> F" "P + 4096 * queue_frames (ve_num e) \<le> Q"
    and fr: "frames_at a (Suc n) R" and R: "F + 4096 * queue_frames (ve_num e) \<le> R" "Q + 4096 \<le> R"
    and mac: "length (ve_mac e) = 6" and idle: "vd_inbox d = []"
    and peer: "ve_peer e (vd_sent d) (arp_request (ve_mac e) [10, 0, 2, 2]) = [f]" and f: "10 + length f \<le> 2048"
  obtains d3 d4 where "send_arp_request (virtio_hw e) (tx_info e B P) (ve_mac e) (a, d) =
      (Ok True, (a\<lparr>next_frame := next_frame a + 1\<rparr>, if ve_prompt e then d4 else d3))"
    and "vio_receive e d3 = d4" and "rxq e F Q u v d3" and "txq e P (i + 1) d4" and "rxq e F Q (u + 1) v d4"
    and "load_mem (vd_mem d4) (adr Q) 2048 = replicate 10 0 @ f @ replicate (2038 - length f) 0"
    and "mem32 (vd_mem d4) (adr (F + used_at (ve_num e) + 8)) =
      (if unat u mod ve_num e = 0 then of_nat (10 + length f) else mem32 (vd_mem d) (adr (F + used_at (ve_num e) + 8)))"
    and "vd_sent d4 = vd_sent d @ [arp_request (ve_mac e) [10, 0, 2, 2]]" and "vd_inbox d4 = []" and "at_port e B d4"
    and "vd_ticks d3 = vd_ticks d"
proof -
  let ?num = "ve_num e" and ?K = "queue_frames (ve_num e)" and ?U = "used_at (ve_num e)" and ?frame = "arp_request (ve_mac e) [10, 0, 2, 2]"
  let ?buf = "replicate 10 0 @ ?frame" let ?m = "store_mem (vd_mem d) (adr R) ?buf" let ?d1 = "d\<lparr>vd_mem := ?m\<rparr>"
  have q: "vq_at e 1 P d" "vq_at e 0 F d" using t r by (auto simp: txq_def rxq_def)
  note bp = vq_bounds [OF q(1)] and bf = vq_bounds [OF q(2)]
  have num: "2 \<le> ?num" "?num \<le> 32768" using q(1) by (auto simp: vq_at_def)
  have Rb: "R + 4096 \<le> 2 ^ 44" using fr by (auto simp: frames_at_def)
  have lb: "length ?buf = 52" using mac by (simp add: arp_request_def)
  have keep: "same_on y k (vd_mem d) ?m" if "y + k \<le> R" for y k by (rule same_on_store) (use lb Rb that in simp_all)
  have t1: "txq e P i ?d1" by (rule txq_same [OF t]) (use keep apart R in simp_all)
  have "load_mem ?m (adr R) 52 = ?buf" by (rule load_store_adr) (use lb Rb in simp_all)
  then have buf: "load_mem (vd_mem ?d1) (adr R) 52 = replicate 10 0 @ ?frame" by simp
  have s1: "unat (1 :: u16) < ?num" using num by simp
  have R': "R + 4096 \<le> P \<or> P + 4096 * ?K \<le> R" using apart R by simp
  note tr = transmit_run [OF t1 s1 buf _ R' Rb, simplified]
  let ?m2 = "published (P + 16 * ?num) ?num 1 (described (P + 16) (adr R) 52 0 ?m)"
  define d3 where "d3 = vio_tx_run ?num e (?d1\<lparr>vd_mem := ?m2\<rparr>)"
  define d4 where "d4 = vio_rx_one e f (d3\<lparr>vd_inbox := []\<rparr>)"
  have tr3: "txq e P (i + 1) d3" "vd_inbox d3 = [f]" "vd_sent d3 = vd_sent d @ [?frame]" "vd_bridge d3 = vd_bridge d"
      "vd_pfn d3 = vd_pfn d" "vd_last d3 0 = vd_last d 0" "vd_ticks d3 = vd_ticks d" "mem16 ?m2 (adr (P + (?U + 2))) = i"
    using tr(1-4,8-11) idle peer by (simp_all add: d3_def)
  have out: "same_on y k (vd_mem d) (vd_mem d3)" if "P + 4096 * ?K \<le> y" "y + k \<le> R" for y k
    using same_on_trans [OF keep] tr(7) [of y k] that Rb by (simp add: d3_def)
  have r3: "rxq e F Q u v d3" by (rule rxq_same [OF r out]) (use apart R tr3 in simp_all)
  have t3': "txq e P (i + 1) (d3\<lparr>vd_inbox := []\<rparr>)" by (rule txq_same [OF tr3(1)]) simp_all
  have r3': "rxq e F Q u v (d3\<lparr>vd_inbox := []\<rparr>)" by (rule rxq_same [OF r3]) simp_all
  have z3: "load_mem (vd_mem (d3\<lparr>vd_inbox := []\<rparr>)) (adr Q) 2048 = replicate 2048 0"
    using same_on_load [OF out [of Q 2048], of Q 2048] zero apart R by simp
  note dl = delivered [OF t3' r3' z3 f, folded d4_def] and one = rx_one_run [OF r3' f, folded d4_def]
  have t4: "txq e P (i + 1) d4" using dl(1) apart by simp
  have rec: "vio_receive e d3 = d4" unfolding d4_def by (rule receive_one [OF r3 _ uv tr3(2)]) (use tr3(1) in \<open>simp add: txq_def\<close>)
  have run: "vio_running e (?d1\<lparr>vd_mem := ?m2\<rparr>)" using t1 by (simp add: txq_def vio_running_def vio_conf_def)
  have not: "vio_notify e 1 (?d1\<lparr>vd_mem := ?m2\<rparr>) = (if ve_prompt e then d4 else d3)"
    unfolding notify_tx [OF run] d3_def [symmetric] rec ..
  have u4: "mem16 (vd_mem (if ve_prompt e then d4 else d3)) (adr (P + (?U + 2))) = i + 1" using t4 tr3(1) by (simp add: txq_def)
  have send: "send_arp_request (virtio_hw e) (tx_info e B P) (ve_mac e) (a, d) =
      (Ok True, (a\<lparr>next_frame := next_frame a + 1\<rparr>, if ve_prompt e then d4 else d3))"
    unfolding send_arp_request_def
    using p not tr3(8) u4 num lb
    by (simp add: io_bind_def frame_run [OF fr] Let_def tx_info_def ucast_num queue_layout add.assoc mem_runs ARP_DESC_INDEX_def
        write_desc_run publish_run port_runs VIRTIO_NET_HDR_LEN_def TX_QUEUE_INDEX_def poll_used_hit)
  have "mem32 (vd_mem d3) (adr (F + ?U + 8)) = mem32 (vd_mem d) (adr (F + ?U + 8))"
    by (rule same_on_mem32 [OF out [of F "4096 * ?K"]]) (use apart R bf in simp_all)
  then show ?thesis
    using that [OF send rec r3 t4] dl(2) one tr3 apart at_port_cong [of d4 d e B] p by simp
qed

lemma load_part: "x + n \<le> k \<Longrightarrow> load_mem m (adr (Q + x)) n = take n (drop x (load_mem m (adr Q) k))"
  by (rule nth_equalityI) (simp_all add: load_adr add.assoc)

lemma wait_used:
  assumes r3: "rxq e F Q u v d3" and r4: "rxq e F Q (u + 1) v d4" and rec: "vio_receive e d3 = d4"
  defines "x \<equiv> ve_offset e + adr (F + (used_at (ve_num e) + 2))"
  shows "\<exists>t. wait_loop (virtio_hw e) (used_turn (virtio_hw e) x u) () (a, if ve_prompt e then d4 else d3) =
     (Ok (Some (u + 1)), (a, d4\<lparr>vd_ticks := t\<rparr>))"
proof -
  let ?hw = "virtio_hw e"
  have turn: "used_turn ?hw x u () (a, d) = (Ok (if mem16 (vd_mem d) (adr (F + (used_at (ve_num e) + 2))) \<noteq> u
      then Leave (mem16 (vd_mem d) (adr (F + (used_at (ve_num e) + 2)))) else Hold ()), (a, d))" for d
    by (simp add: used_turn_def x_def io_bind_def mem_runs)
  have leave: "used_turn ?hw x u () (a, d4\<lparr>vd_ticks := t\<rparr>) = (Ok (Leave (u + 1)), (a, d4\<lparr>vd_ticks := t\<rparr>))" for t
    using r4 by (simp add: turn rxq_def)
  have hold: "used_turn ?hw x u () (a, d3) = (Ok (Hold ()), (a, d3))" using r3 by (simp add: turn rxq_def)
  have hlt: "cpu_hlt ?hw d3 = d4\<lparr>vd_ticks := vd_ticks d3 + 1\<rparr>" using rec by (simp add: virtio_hw_def)
  have end4: "timed_loop ?hw (used_turn ?hw x u) start () (a, d4\<lparr>vd_ticks := t\<rparr>) = Some (Ok (Some (u + 1)), (a, d4\<lparr>vd_ticks := t\<rparr>))" for t start
    by (rule timed_loop_leave [where body = "used_turn ?hw x u", OF leave])
  show ?thesis
  proof (cases "ve_prompt e")
    case True
    then show ?thesis using end4 [of _ "vd_ticks d4"] by (intro exI [of _ "vd_ticks d4"]) (simp add: wait_loop_def)
  next
    case False
    have "timed_loop ?hw (used_turn ?hw x u) (vd_ticks d3) () (a, d3) = Some (Ok (Some (u + 1)), (a, d4\<lparr>vd_ticks := vd_ticks d3 + 1\<rparr>))"
      using end4 by (subst timed_loop_hold [where body = "used_turn ?hw x u", OF hold]) (simp add: hlt)
    then show ?thesis using False by (auto simp: wait_loop_def)
  qed
qed

text \<open>
  The whole of a reception. The driver reads the length of the frame from element 0 of the used ring, which
  the device writes for this frame only when \<open>u\<close>, the number of frames delivered before, is a multiple of
  the queue's size.
\<close>

definition length_read :: "vio_env \<Rightarrow> nat \<Rightarrow> u16 \<Rightarrow> bytes \<Rightarrow> vio_dev \<Rightarrow> nat" where
  "length_read e F u f d =
     (if unat u mod ve_num e = 0 then 10 + length f else unat (mem32 (vd_mem d) (adr (F + used_at (ve_num e) + 8))))"

definition data_read :: "nat \<Rightarrow> bytes \<Rightarrow> bytes" where
  "data_read l f = take (l - 10) (f @ replicate (2038 - length f) 0)"

lemma receive_run:
  assumes p: "at_port e B d" and t: "txq e P i d" and r: "rxq e F Q u v d" and uv: "u \<noteq> v + 1"
    and apart: "P + 4096 * queue_frames (ve_num e) \<le> F" "P + 4096 * queue_frames (ve_num e) \<le> Q"
    and fr: "frames_at a (Suc n) R" and R: "F + 4096 * queue_frames (ve_num e) \<le> R" "Q + 4096 \<le> R"
    and mac: "length (ve_mac e) = 6" and idle: "vd_inbox d = []"
    and peer: "ve_peer e (vd_sent d) (arp_request (ve_mac e) [10, 0, 2, 2]) = [f]" and f: "10 + length f \<le> 2048"
    and L: "L = length_read e F u f d" "L \<le> 2048"
  obtains d' where "virtio_receive_test_frame (virtio_hw e) (tx_info e B P) (rx_info e B F Q) (a, d) =
      (Ok \<lparr>rr_used_idx_before = u, rr_used_idx_after = u + 1, rr_received_len = of_nat L,
           rr_is_arp_reply = is_arp_reply (data_read L f),
           rr_gateway_ip = (if 32 \<le> length (data_read L f) then Some (sub (data_read L f) 28 4) else None)\<rparr>,
       (a\<lparr>next_frame := next_frame a + 1\<rparr>, d'))"
    and "at_port e B d'" and "txq e P (i + 1) d'" and "rxq e F Q (u + 1) (v + 1) d'"
    and "vd_sent d' = vd_sent d @ [arp_request (ve_mac e) [10, 0, 2, 2]]" and "vd_inbox d' = []"
    and "unat u mod ve_num e = 0 \<Longrightarrow> unat (mem32 (vd_mem d') (adr (F + used_at (ve_num e) + 8))) = 10 + length f"
proof -
  let ?num = "ve_num e" and ?U = "used_at (ve_num e)"
  have num: "2 \<le> ?num" "?num \<le> 32768" using t by (auto simp: txq_def vq_at_def)
  have apart': "P + 4096 * queue_frames ?num \<le> F \<or> F + 4096 * queue_frames ?num \<le> P" "P + 4096 * queue_frames ?num \<le> Q \<or> Q + 4096 \<le> P"
    using apart by simp_all
  define d1 where "d1 = d\<lparr>vd_mem := published (F + 16 * ?num) ?num 0 (store_mem (vd_mem d) (adr Q) (replicate 2048 0))\<rparr>"
  note re = rearm_run [OF p t r idle apart', folded d1_def]
  have p1: "at_port e B d1" "vd_inbox d1 = []" "vd_sent d1 = vd_sent d" using p idle by (simp_all add: d1_def)
  obtain d3 d4 where s: "send_arp_request (virtio_hw e) (tx_info e B P) (ve_mac e) (a, d1) =
        (Ok True, (a\<lparr>next_frame := next_frame a + 1\<rparr>, if ve_prompt e then d4 else d3))"
      "vio_receive e d3 = d4" "rxq e F Q u (v + 1) d3" "txq e P (i + 1) d4" "rxq e F Q (u + 1) (v + 1) d4"
      "load_mem (vd_mem d4) (adr Q) 2048 = replicate 10 0 @ f @ replicate (2038 - length f) 0"
      "mem32 (vd_mem d4) (adr (F + ?U + 8)) =
        (if unat u mod ?num = 0 then of_nat (10 + length f) else mem32 (vd_mem d1) (adr (F + ?U + 8)))"
      "vd_sent d4 = vd_sent d1 @ [arp_request (ve_mac e) [10, 0, 2, 2]]" "vd_inbox d4 = []" "at_port e B d4"
    using send_arp_run [OF p1(1) re(2,3) uv re(4) apart fr R mac p1(2) peer [folded p1(3)] f] by metis
  obtain tk where w: "wait_loop (virtio_hw e) (used_turn (virtio_hw e) (ve_offset e + adr (F + (?U + 2))) u) ()
        (a\<lparr>next_frame := next_frame a + 1\<rparr>, if ve_prompt e then d4 else d3) =
      (Ok (Some (u + 1)), (a\<lparr>next_frame := next_frame a + 1\<rparr>, d4\<lparr>vd_ticks := tk\<rparr>))"
    using wait_used [OF s(3,5,2)] by blast
  let ?d = "d4\<lparr>vd_ticks := tk\<rparr>"
  have len: "unat (mem32 (vd_mem d4) (adr (F + ?U + 8))) = L"
    using s(7) re(5) L(1) f by (simp add: length_read_def unat_word_ariths unat_of_nat)
  then have len': "mem32 (vd_mem d4) (adr (F + (?U + 8))) = of_nat L" by (simp add: add.assoc flip: len)
  have "load_mem (vd_mem d4) (adr (Q + 10)) (L - 10) = take (L - 10) (drop 10 (load_mem (vd_mem d4) (adr Q) 2048))"
    using load_part [of 10 "L - 10" 2048] L(2) by simp
  also have "\<dots> = data_read L f" unfolding s(6) by (simp add: data_read_def)
  finally have eth: "load_mem (vd_mem d4) (adr (Q + 10)) (L - 10) = data_read L f" .
  have u1: "mem16 (vd_mem d1) (adr (F + (?U + 2))) = u" using re(3) by (simp add: rxq_def)
  have Lu: "unat (of_nat L :: u32) = L" using L(2) by (simp add: unat_of_nat)
  have rx: "rq_queue_num (rx_info e B F Q) = of_nat ?num" "rq_virt_base (rx_info e B F Q) = ve_offset e + adr F"
      "rq_buf_virt (rx_info e B F Q) = ve_offset e + adr Q" "tq_io_base (tx_info e B P) = B"
    by (simp_all add: rx_info_def tx_info_def)
  have run: "virtio_receive_test_frame (virtio_hw e) (tx_info e B P) (rx_info e B F Q) (a, d) =
      (Ok \<lparr>rr_used_idx_before = u, rr_used_idx_after = u + 1, rr_received_len = of_nat L,
           rr_is_arp_reply = is_arp_reply (data_read L f),
           rr_gateway_ip = (if 32 \<le> length (data_read L f) then Some (sub (data_read L f) 28 4) else None)\<rparr>,
       (a\<lparr>next_frame := next_frame a + 1\<rparr>, ?d))"
    unfolding virtio_receive_test_frame_def rx
    using p p1 re(1) s(1) w u1 len' eth num Lu
    by (simp add: io_bind_def read_mac_run mac Let_def ucast_num queue_layout add.assoc mem_runs VIRTIO_NET_HDR_LEN_def)
  have "txq e P (i + 1) ?d" by (rule txq_same [OF s(4)]) simp_all
  moreover have "rxq e F Q (u + 1) (v + 1) ?d" by (rule rxq_same [OF s(5)]) simp_all
  ultimately show ?thesis using that [OF run] s(8-10) p1(3) len L(1) by (simp add: length_read_def)
qed

section \<open>The boot test\<close>

text \<open>A device at its reset state behind which a network answers the address request, and memory for the driver.\<close>

definition vio_ready :: "vio_env \<Rightarrow> boot_info_frame_allocator \<Rightarrow> nat \<Rightarrow> vio_dev \<Rightarrow> bool" where
  "vio_ready e a n d \<longleftrightarrow> vio_found e d \<and> 2 \<le> ve_num e \<and> ve_num e \<le> 32768 \<and> length (ve_mac e) = 6
     \<and> vd_pfn d 0 = 0 \<and> vd_inbox d = [] \<and> (\<exists>F. frames_at a (2 * queue_frames (ve_num e) + n) F)
     \<and> ve_peer e (vd_sent d) (test_frame (ve_mac e)) = []"

abbreviation test_sent :: "vio_env \<Rightarrow> vio_dev \<Rightarrow> bytes list" where
  "test_sent e d \<equiv> vd_sent d @ [test_frame (ve_mac e)]"

abbreviation request :: "vio_env \<Rightarrow> bytes" where
  "request e \<equiv> arp_request (ve_mac e) [10, 0, 2, 2]"

lemma boot_test_run:
  assumes ready: "vio_ready e a (3 + n) d"
    and peer: "ve_peer e (test_sent e d) (request e) = [f]" and f: "10 + length f \<le> 2048"
  obtains B P F Q d' where "virtio_boot_test (virtio_hw e) (a, d) =
      (Ok (Inr (tx_info e B P, Inr \<lparr>ts_used_idx_before = 0, ts_used_idx_after = 1, ts_used_elem_id = 0, ts_used_elem_len = 0\<rparr>,
        Inr (rx_info e B F Q, Inr \<lparr>rr_used_idx_before = 0, rr_used_idx_after = 1, rr_received_len = of_nat (10 + length f),
           rr_is_arp_reply = is_arp_reply f, rr_gateway_ip = (if 32 \<le> length f then Some (sub f 28 4) else None)\<rparr>))),
       (a\<lparr>next_frame := next_frame a + (2 * queue_frames (ve_num e) + 3)\<rparr>, d'))"
    and "at_port e B d'" and "txq e P 2 d'" and "rxq e F Q 1 2 d'" and "vd_sent d' = test_sent e d @ [request e]" and "vd_inbox d' = []"
    and "unat (mem32 (vd_mem d') (adr (F + used_at (ve_num e) + 8))) = 10 + length f"
    and "P + 4096 * queue_frames (ve_num e) \<le> F" and "P + 4096 * queue_frames (ve_num e) \<le> Q"
    and "0 < n \<Longrightarrow> \<exists>R. frames_at (a\<lparr>next_frame := next_frame a + (2 * queue_frames (ve_num e) + 3)\<rparr>) n R
        \<and> F + 4096 * queue_frames (ve_num e) \<le> R \<and> Q + 4096 \<le> R"
proof -
  let ?K = "queue_frames (ve_num e)"
  obtain P where fr: "frames_at a (2 * ?K + (3 + n)) P" using ready by (auto simp: vio_ready_def)
  note v = ready [unfolded vio_ready_def]
  let ?B = "vio_port e d" and ?T = "P + 4096 * ?K" let ?F = "P + 4096 * (?K + 1)" let ?Q = "?F + 4096 * ?K" let ?R = "?Q + 4096"
  let ?a = "\<lambda>k. a\<lparr>next_frame := next_frame a + k\<rparr>"
  have at: "frames_at (?a k) m (P + 4096 * k)" if "k + m = 2 * ?K + (3 + n)" for k m
    by (rule frames_at_next) (use fr that in simp)
  have f0: "frames_at a (?K + (?K + (3 + n))) P" using fr unfolding mult_2 add.assoc .
  obtain d1 where d1: "init_tx_queue (virtio_hw e) (a, d) = (Ok (tx_info e ?B P), (?a ?K, d1))" "at_port e ?B d1" "txq e P 0 d1"
      "vd_sent d1 = vd_sent d" "vd_inbox d1 = []" "vd_pfn d1 0 = 0"
    by (rule init_tx_run [where d = d, OF _ _ _ f0]) (use v in simp_all)
  have f1: "frames_at (?a ?K) (Suc (?K + (2 + n))) ?T" by (rule at) simp
  obtain d2 where d2: "virtio_send_test_frame (virtio_hw e) (tx_info e ?B P) (?a ?K, d1) =
        (Ok \<lparr>ts_used_idx_before = 0, ts_used_idx_after = 1, ts_used_elem_id = 0, ts_used_elem_len = 0\<rparr>, (?a (?K + 1), d2))"
      "at_port e ?B d2" "txq e P 1 d2" "vd_sent d2 = test_sent e d" "vd_inbox d2 = []" "vd_pfn d2 0 = 0"
    by (rule send_test_run [OF d1(2,3) _ f1]) (use d1 v in simp_all)
  have f2: "frames_at (?a (?K + 1)) (?K + Suc (1 + n)) ?F" by (rule at) simp
  obtain d3 where d3: "init_rx_queue (virtio_hw e) (tx_info e ?B P) (?a (?K + 1), d2) = (Ok (rx_info e ?B ?F ?Q), (?a (2 * ?K + 2), d3))"
      "at_port e ?B d3" "txq e P 1 d3" "rxq e ?F ?Q 0 1 d3" "vd_sent d3 = test_sent e d" "vd_inbox d3 = []"
    by (rule init_rx_run [OF d2(2,3) f2]) (use d2 in \<open>simp_all add: algebra_simps\<close>)
  have f3: "frames_at (?a (2 * ?K + 2)) (Suc n) ?R" using at [of "2 * ?K + 2" "Suc n"] by (simp add: algebra_simps)
  have L: "10 + length f = length_read e ?F 0 f d3" by (simp add: length_read_def)
  have data: "data_read (10 + length f) f = f" by (simp add: data_read_def)
  obtain d4 where d4: "virtio_receive_test_frame (virtio_hw e) (tx_info e ?B P) (rx_info e ?B ?F ?Q) (?a (2 * ?K + 2), d3) =
        (Ok \<lparr>rr_used_idx_before = 0, rr_used_idx_after = 1, rr_received_len = of_nat (10 + length f),
           rr_is_arp_reply = is_arp_reply f, rr_gateway_ip = (if 32 \<le> length f then Some (sub f 28 4) else None)\<rparr>,
         (?a (2 * ?K + 3), d4))"
      "at_port e ?B d4" "txq e P 2 d4" "rxq e ?F ?Q 1 2 d4" "vd_sent d4 = test_sent e d @ [request e]" "vd_inbox d4 = []"
      "unat (mem32 (vd_mem d4) (adr (?F + used_at (ve_num e) + 8))) = 10 + length f"
    by (rule receive_run [OF d3(2-4) _ _ _ f3 _ _ _ d3(6) _ f L]) (use d3 v peer f data in \<open>simp_all add: numeral_3_eq_3\<close>)
  have run: "virtio_boot_test (virtio_hw e) (a, d) = (Ok (Inr (tx_info e ?B P,
        Inr \<lparr>ts_used_idx_before = 0, ts_used_idx_after = 1, ts_used_elem_id = 0, ts_used_elem_len = 0\<rparr>,
        Inr (rx_info e ?B ?F ?Q, Inr \<lparr>rr_used_idx_before = 0, rr_used_idx_after = 1, rr_received_len = of_nat (10 + length f),
           rr_is_arp_reply = is_arp_reply f, rr_gateway_ip = (if 32 \<le> length f then Some (sub f 28 4) else None)\<rparr>))),
       (?a (2 * ?K + 3), d4))"
    using d1(1) d2(1) d3(1) d4(1) by (simp add: virtio_boot_test_def io_bind_def io_match_def)
  have "frames_at (?a (2 * ?K + 3)) n (?R + 4096)" using at [of "2 * ?K + 3" n] by (simp add: algebra_simps)
  then show ?thesis using that [OF run d4(2-7)] by fastforce
qed

text \<open>
  C12: on a device behind which the gateway answers the address request, the boot test of the virtio driver
  succeeds in all its steps, whether the answer arrives inside the notification of the request or later while the
  processor is halted: the device confirms both queue addresses and the status, the test frame is completed,
  the receive descriptor is writable, the answer is recognised and its length and the gateway's address are
  reported. The test frame and the request are what was sent, and the memory is two queues and three buffers.
\<close>

theorem virtio_round_trip:
  assumes "vio_ready e a 3 d" and "ve_peer e (test_sent e d) (request e) = [f]"
    and "is_arp_reply f" and "32 \<le> length f" and "length f \<le> 2038"
  shows "\<exists>tx rx d'. virtio_boot_test (virtio_hw e) (a, d) =
      (Ok (Inr (tx, Inr \<lparr>ts_used_idx_before = 0, ts_used_idx_after = 1, ts_used_elem_id = 0, ts_used_elem_len = 0\<rparr>,
        Inr (rx, Inr \<lparr>rr_used_idx_before = 0, rr_used_idx_after = 1, rr_received_len = of_nat (10 + length f),
           rr_is_arp_reply = True, rr_gateway_ip = Some (sub f 28 4)\<rparr>))),
       (a\<lparr>next_frame := next_frame a + (2 * queue_frames (ve_num e) + 3)\<rparr>, d'))
     \<and> tq_queue_num tx = of_nat (ve_num e) \<and> tq_pfn_readback tx = tq_pfn tx \<and> tq_final_status tx = 7
     \<and> rq_pfn_readback rx = rq_pfn rx \<and> rq_desc_flags_readback rx = 2 \<and> rq_avail_idx_after rx = 1
     \<and> vd_sent d' = test_sent e d @ [request e]"
proof -
  have r: "vio_ready e a (3 + 0) d" "10 + length f \<le> 2048" using assms by simp_all
  show ?thesis
    by (rule boot_test_run [OF r(1) assms(2) r(2)]) (use assms(3,4) in \<open>simp add: tx_info_def rx_info_def\<close>)
qed

text \<open>
  C36: a reception after the boot test misreads its frame. The driver takes the length from element 0 of the used
  ring, but the device has put the second completion into element 1: the length reported is that of the first
  frame \<open>f\<close>, and the frame \<open>g\<close> is cut to it or extended by zeros.
\<close>

theorem virtio_second_length:
  assumes "vio_ready e a 4 d" and "ve_peer e (test_sent e d) (request e) = [f]"
    and "ve_peer e (test_sent e d @ [request e]) (request e) = [g]" and "length f \<le> 2038" and "length g \<le> 2038"
  shows "\<exists>tx send rx recv s1 r s2. virtio_boot_test (virtio_hw e) (a, d) = (Ok (Inr (tx, send, Inr (rx, Inr recv))), s1)
     \<and> rr_received_len recv = of_nat (10 + length f)
     \<and> virtio_receive_test_frame (virtio_hw e) tx rx s1 = (Ok r, s2)
     \<and> rr_received_len r = of_nat (10 + length f)
     \<and> rr_is_arp_reply r = is_arp_reply (take (length f) (g @ replicate (2038 - length g) 0))"
proof -
  let ?K = "queue_frames (ve_num e)"
  have r: "vio_ready e a (3 + 1) d" "10 + length f \<le> 2048" "10 + length g \<le> 2048" using assms by simp_all
  obtain B P F Q d1 recv send where b: "virtio_boot_test (virtio_hw e) (a, d) = (Ok (Inr (tx_info e B P, send, Inr (rx_info e B F Q, Inr recv))),
        (a\<lparr>next_frame := next_frame a + (2 * ?K + 3)\<rparr>, d1))" "rr_received_len recv = of_nat (10 + length f)"
      "at_port e B d1" "txq e P 2 d1" "rxq e F Q 1 2 d1" "vd_sent d1 = test_sent e d @ [request e]" "vd_inbox d1 = []"
      "unat (mem32 (vd_mem d1) (adr (F + used_at (ve_num e) + 8))) = 10 + length f"
      "P + 4096 * ?K \<le> F" "P + 4096 * ?K \<le> Q"
      "\<exists>R. frames_at (a\<lparr>next_frame := next_frame a + (2 * ?K + 3)\<rparr>) 1 R \<and> F + 4096 * ?K \<le> R \<and> Q + 4096 \<le> R"
    by (rule boot_test_run [OF r(1) assms(2) r(2)]) fastforce
  then obtain R where R: "frames_at (a\<lparr>next_frame := next_frame a + (2 * ?K + 3)\<rparr>) (Suc 0) R" "F + 4096 * ?K \<le> R" "Q + 4096 \<le> R"
    by auto
  have "2 \<le> ve_num e" using assms(1) by (simp add: vio_ready_def)
  then have L: "10 + length f = length_read e F 1 g d1" using b(8) by (simp add: length_read_def)
  have mac: "length (ve_mac e) = 6" using assms(1) by (simp add: vio_ready_def)
  show ?thesis
    by (rule receive_run [OF b(3-5) _ b(9,10) R mac b(7) _ r(3) L r(2)])
      (use b(1,2,6) assms(3) in \<open>fastforce simp: data_read_def\<close>)+
qed

section \<open>A network to try it on\<close>

definition one_virtio :: host_bridge where
  "one_virtio = \<lparr>hb_addr = 0, hb_conf = (\<lambda>b dv fn r. if (b, dv, fn) = (0, 4, 0)
      then (if r = 0 then 0x10001AF4 else if r = 1 then 0x00100003 else if r = 2 then 0x02000000 else 0xC041)
      else 0xFFFFFFFF)\<rparr>"

lemma one_virtio_slots: "filter (\<lambda>(dv, fn). present (hb_conf one_virtio) dv fn) slots = [(4, 0)]"
  by (simp add: slots_def present_def one_virtio_def) code_simp

definition slirp_mac :: bytes where
  "slirp_mac = [0x52, 0x55, 0x0A, 0x00, 0x02, 0x02]"

definition slirp_reply :: bytes where
  "slirp_reply = [0xFF, 0xFF, 0xFF, 0xFF, 0xFF, 0xFF] @ slirp_mac @ [8, 6, 0, 1, 8, 0, 6, 4, 0, 2] @ slirp_mac @ [10, 0, 2, 2]
     @ [0xFF, 0xFF, 0xFF, 0xFF, 0xFF, 0xFF] @ [10, 0, 2, 15]"

lemma slirp_reply_facts: "is_arp_reply slirp_reply" "length slirp_reply = 42" "sub slirp_reply 28 4 = [10, 0, 2, 2]"
  by (simp_all add: slirp_reply_def slirp_mac_def is_arp_reply_def sub_def)

definition slirp_env :: "bool \<Rightarrow> vio_env" where
  "slirp_env prompt = \<lparr>ve_device = 4, ve_function = 0, ve_offset = 0x18000000000, ve_num = 256, ve_mac = [0x52, 0x54, 0, 0x12, 0x34, 0x57],
     ve_peer = (\<lambda>sent frame. if length sent = 0 then [] else if length sent = 1 then [slirp_reply] else [slirp_reply @ replicate 18 0]),
     ve_prompt = prompt\<rparr>"

definition slirp_dev :: vio_dev where
  "slirp_dev = \<lparr>vd_mem = (\<lambda>_. 0), vd_bridge = one_virtio, vd_ticks = 0, vd_status = 0, vd_sel = 0, vd_pfn = (\<lambda>_. 0), vd_last = (\<lambda>_. 0),
     vd_isr = 0, vd_sent = [], vd_inbox = []\<rparr>"

definition ten_frames :: boot_info_frame_allocator where
  "ten_frames = frame_allocator_init [\<lparr>mr_start = 0x100000, mr_end = 0x10A000, mr_usable = True\<rparr>]"

lemma slirp_ready: "n \<le> 4 \<Longrightarrow> vio_ready (slirp_env prompt) ten_frames n slirp_dev"
proof -
  assume n: "n \<le> 4"
  have al: "page_aligned \<lparr>mr_start = 0x100000, mr_end = 0x10A000, mr_usable = True\<rparr>" by (simp add: page_aligned_def)
  have "usable_frames ten_frames = map (\<lambda>i. 0x100000 + i * 4096) [0..<10]"
    using usable_frames_eq [of ten_frames] al
    by (simp add: ten_frames_def frame_allocator_init_def region_frames_def del: upt_rec_numeral)
  then have "frames_at ten_frames (6 + n) 0x100000"
    using n by (simp add: frames_at_def ten_frames_def frame_allocator_init_def del: upt_rec_numeral)
  moreover have "queue_frames 256 = 3" by (simp add: queue_frames_def used_at_def)
  moreover have "vio_found (slirp_env prompt) slirp_dev"
    unfolding vio_found_def slirp_dev_def vio_dev.simps first_match_def one_virtio_slots
    by (simp add: slirp_env_def vio_conf_def vio_port_def pci_function_at_def one_virtio_def VIRTIO_VENDOR_ID_def VIRTIO_NET_DEVICE_ID_def)
  ultimately show ?thesis by (auto simp: vio_ready_def slirp_dev_def slirp_env_def)
qed

theorem virtio_round_trip_witness:
  "\<exists>tx rx d'. virtio_boot_test (virtio_hw (slirp_env True)) (ten_frames, slirp_dev) =
      (Ok (Inr (tx, Inr \<lparr>ts_used_idx_before = 0, ts_used_idx_after = 1, ts_used_elem_id = 0, ts_used_elem_len = 0\<rparr>,
        Inr (rx, Inr \<lparr>rr_used_idx_before = 0, rr_used_idx_after = 1, rr_received_len = 52,
           rr_is_arp_reply = True, rr_gateway_ip = Some [10, 0, 2, 2]\<rparr>))), (ten_frames\<lparr>next_frame := 9\<rparr>, d'))"
proof -
  have "queue_frames 256 = 3" by (simp add: queue_frames_def used_at_def)
  then show ?thesis
    using virtio_round_trip [of "slirp_env True" ten_frames slirp_dev slirp_reply] slirp_ready [of 3 True]
    by (auto simp: slirp_env_def slirp_dev_def slirp_reply_facts ten_frames_def frame_allocator_init_def)
qed

theorem virtio_second_length_witness:
  "\<exists>tx send rx recv s1 r s2. virtio_boot_test (virtio_hw (slirp_env False)) (ten_frames, slirp_dev) = (Ok (Inr (tx, send, Inr (rx, Inr recv))), s1)
     \<and> virtio_receive_test_frame (virtio_hw (slirp_env False)) tx rx s1 = (Ok r, s2) \<and> rr_received_len r = 52"
  using virtio_second_length [of "slirp_env False" ten_frames slirp_dev slirp_reply "slirp_reply @ replicate 18 0"] slirp_ready [of 4 False]
  by (simp add: slirp_env_def slirp_dev_def slirp_reply_facts) blast

end
