(* ===== verification/Virtio_Time.thy ===== *)
theory Virtio_Time
  imports Virtio_Rx Timing
begin

text \<open>
  The functions of the virtio driver return, whatever the device and the network do: the clock interface
  \<open>ticking\<close> of \<open>Timing\<close> applied to its loops, and interpreted on the device of \<open>Virtio_Link\<close>.
\<close>

section \<open>Results that later steps rely on\<close>

lemma safe_bind_result:
  assumes "safe m" and "\<And>s x s'. m s = (Ok x, s') \<Longrightarrow> P x" and "\<And>x. P x \<Longrightarrow> safe (f x)"
  shows "safe (io_bind m f)"
  unfolding safe_def
proof
  fix s
  obtain r s' where m: "m s = (r, s')" by (cases "m s")
  have ms: "fst (m s) \<noteq> Diverge \<and> (fst (m s) = Panic \<longrightarrow> out_of_frames (fst (snd (m s))))"
    using assms(1) unfolding safe_def by blast
  show "fst (io_bind m f s) \<noteq> Diverge \<and> (fst (io_bind m f s) = Panic \<longrightarrow> out_of_frames (fst (snd (io_bind m f s))))"
  proof (cases r)
    case (Ok x)
    then have "safe (f x)" using assms(2,3) m by blast
    then have "fst (f x s') \<noteq> Diverge \<and> (fst (f x s') = Panic \<longrightarrow> out_of_frames (fst (snd (f x s'))))" unfolding safe_def by blast
    then show ?thesis using m Ok by (simp add: io_bind_def)
  qed (use ms m in \<open>simp_all add: io_bind_def\<close>)
qed

lemma io_match_InrD: "io_match m s = (Ok (Inr x), s') \<Longrightarrow> m s = (Ok x, s')"
  by (cases "m s") (auto simp: io_match_def split: outcome.splits)

lemma setup_queue_nonzero: "setup_queue hw B e s = (Ok (n, k, v, p, p'), s') \<Longrightarrow> n \<noteq> 0"
  unfolding setup_queue_def Let_def by (auto simp: io_bind_eq_Ok split: if_splits simp del: split_paired_Ex)

lemma init_tx_nonzero: "init_tx_queue hw s = (Ok tx, s') \<Longrightarrow> tq_queue_num tx \<noteq> 0"
  unfolding init_tx_queue_def by (auto simp: io_bind_eq_Ok dest!: setup_queue_nonzero)

lemma init_rx_nonzero: "init_rx_queue hw tx s = (Ok rx, s') \<Longrightarrow> rq_queue_num rx \<noteq> 0"
  unfolding init_rx_queue_def Let_def by (auto simp: io_bind_eq_Ok vring_offsets_def Let_def dest!: setup_queue_nonzero)

section \<open>Steps that return\<close>

lemma safe_ports [simp]: "safe (read_port_u8 hw b r)" "safe (read_port_u16 hw b r)" "safe (read_port_u32 hw b r)"
    "safe (write_port_u8 hw b r x)" "safe (write_port_u16 hw b r y)" "safe (write_port_u32 hw b r z)"
  by (simp_all add: read_port_u8_def read_port_u16_def read_port_u32_def write_port_u8_def write_port_u16_def write_port_u32_def)

lemma safe_memory [simp]: "safe (load16 hw p)" "safe (load32 hw p)" "safe (store16 hw p x)" "safe (write_bytes hw p b n)"
    "safe (write_desc hw p a len flags)" "num \<noteq> 0 \<Longrightarrow> safe (publish hw p num i)"
  unfolding load16_def load32_def store16_def write_bytes_def write_desc_def publish_def Let_def
  by (auto intro!: safe_bind)

lemma safe_mac [simp]: "safe (read_mac_at hw b r)"
proof -
  have "safe (read_mac_bytes n hw b r)" for n by (induction n arbitrary: r) (auto intro!: safe_bind)
  then show ?thesis by (simp add: read_mac_at_def)
qed

lemma safe_find [simp]: "safe (find_io_base hw)"
  unfolding find_io_base_def find_virtio_net_def Let_def by (auto intro!: safe_bind split: option.splits)

lemma safe_contiguous [simp]: "safe (allocate_contiguous_frames n)"
proof -
  have "safe (contiguous_loop n p)" for n p by (induction n arbitrary: p) (auto intro!: safe_bind)
  then show ?thesis unfolding allocate_contiguous_frames_def by (auto intro!: safe_bind)
qed

lemma safe_setup [simp]: "safe (setup_queue hw b e)"
  unfolding setup_queue_def Let_def by (auto intro!: safe_bind)

lemma safe_poll_used [simp]: "safe (poll_used n hw p before after)"
  by (induction n arbitrary: after) (auto intro!: safe_bind)

lemma safe_init_tx [simp]: "safe (init_tx_queue hw)"
  unfolding init_tx_queue_def by (auto intro!: safe_bind split: prod.splits)

lemma ucast_nonzero: "(n :: u16) \<noteq> 0 \<Longrightarrow> (ucast n :: u64) \<noteq> 0"
  by (simp add: word_unat_eq_iff unat_ucast_up)

lemma safe_virtio_send: "tq_queue_num tx \<noteq> 0 \<Longrightarrow> safe (virtio_send_test_frame hw tx)"
  unfolding virtio_send_test_frame_def Let_def
  by (auto intro!: safe_bind simp: ucast_nonzero split: prod.splits)

lemma safe_init_rx: "safe (init_rx_queue hw tx)"
  unfolding init_rx_queue_def Let_def
  by (intro safe_bind safe_bind_result [where m = "setup_queue _ _ _" and P = "\<lambda>(n, k, v, p, p'). n \<noteq> 0"])
    (auto intro!: safe_bind simp: ucast_nonzero split: prod.splits dest: setup_queue_nonzero)

lemma safe_send_arp: "tq_queue_num tx \<noteq> 0 \<Longrightarrow> safe (send_arp_request hw tx mac)"
  unfolding send_arp_request_def Let_def
  by (auto intro!: safe_bind simp: ucast_nonzero split: prod.splits)

lemma safe_rearm: "rq_queue_num rx \<noteq> 0 \<Longrightarrow> safe (rearm_rx hw b rx p)"
  unfolding rearm_rx_def by (auto intro!: safe_bind simp: ucast_nonzero)

context ticking
begin

lemma used_turns: "turning hw quiet (\<lambda>_. 0) (used_turn hw p before)" "safe (used_turn hw p before u)"
proof -
  have "calm hw quiet (1 + 0) (load16 hw p)" unfolding load16_def by (intro calm_bind calm_load) simp
  then have "turn_ok hw quiet (\<lambda>_. 0) 0 8 (used_turn hw p before u)" for u
    unfolding used_turn_def by (rule turn_ok_bind [where t = 7]) (auto simp: turn_ok_leave turn_ok_hold)
  then show "turning hw quiet (\<lambda>_. 0) (used_turn hw p before)" by (simp add: turning_def)
  show "safe (used_turn hw p before u)" unfolding used_turn_def by (intro safe_bind) simp_all
qed

lemma safe_receive: "tq_queue_num tx \<noteq> 0 \<Longrightarrow> rq_queue_num rx \<noteq> 0 \<Longrightarrow> safe (virtio_receive_test_frame hw tx rx)"
  unfolding virtio_receive_test_frame_def Let_def
  by (auto intro!: safe_bind safe_wait_loop [OF used_turns] simp: safe_rearm safe_send_arp split: prod.splits option.splits)

lemma safe_boot_test: "safe (virtio_boot_test hw)"
proof -
  have rest: "safe (io_bind (io_match (virtio_send_test_frame hw tx)) (\<lambda>send. io_bind (io_match (init_rx_queue hw tx)) (\<lambda>r. case r of
       Inl e \<Rightarrow> io_ret (Inr (tx, send, Inl e))
     | Inr rx \<Rightarrow> io_bind (io_match (virtio_receive_test_frame hw tx rx)) (\<lambda>recv. io_ret (Inr (tx, send, Inr (rx, recv)))))))"
    if tx: "tq_queue_num tx \<noteq> 0" for tx
  proof (rule safe_bind)
    fix send
    show "safe (io_bind (io_match (init_rx_queue hw tx)) (\<lambda>r. case r of
       Inl e \<Rightarrow> io_ret (Inr (tx, send, Inl e))
     | Inr rx \<Rightarrow> io_bind (io_match (virtio_receive_test_frame hw tx rx)) (\<lambda>recv. io_ret (Inr (tx, send, Inr (rx, recv))))))"
      by (rule safe_bind_result [where P = "\<lambda>r. case r of Inl e \<Rightarrow> True | Inr rx \<Rightarrow> rq_queue_num rx \<noteq> 0"])
        (auto intro!: safe_bind safe_match safe_init_rx safe_receive tx split: sum.splits dest!: io_match_InrD init_rx_nonzero)
  qed (simp add: safe_match safe_virtio_send tx)
  show ?thesis
    unfolding virtio_boot_test_def
    by (rule safe_bind_result [where P = "\<lambda>r. case r of Inl e \<Rightarrow> True | Inr tx \<Rightarrow> tq_queue_num tx \<noteq> 0"])
      (auto intro!: safe_match rest split: sum.splits dest!: io_match_InrD init_tx_nonzero)
qed

end

section \<open>The clock of the device\<close>

lemma vio_tx_run_ticks [simp]: "vd_ticks (vio_tx_run n e d) = vd_ticks d"
  by (induction n arbitrary: d) (simp_all add: vio_tx_one_def Let_def)

lemma vio_receive_ticks [simp]: "vd_ticks (vio_receive e d) = vd_ticks d"
proof -
  have "vd_ticks (vio_deliver n e d) = vd_ticks d" for n
    by (induction n arbitrary: d) (auto simp: vio_rx_one_def Let_def split: list.splits)
  then show ?thesis by (simp add: vio_receive_def)
qed

interpretation vio_clock: ticking "virtio_hw e" "\<lambda>_. 0" for e
  by unfold_locales (auto intro!: drift_still simp: virtio_hw_def)

section \<open>Properties\<close>

text \<open>
  C13: on every hardware with a ticking clock, the boot test of the virtio driver comes back, whatever queue sizes,
  ring indices and data the device presents. It panics only if the allocator has run out of
  physical frames; in particular, a device that reports an empty queue never makes the driver divide by its size.
\<close>

theorem virtio_returns:
  assumes "ticking hw quiet"
  shows "safe (virtio_boot_test hw)"
  by (rule ticking.safe_boot_test [OF assms])

text \<open>A device whose network never answers.\<close>

theorem virtio_returns_witness:
  "safe (virtio_boot_test (virtio_hw ((slirp_env False)\<lparr>ve_peer := \<lambda>sent frame. []\<rparr>)))"
  using virtio_returns [OF vio_clock.ticking_axioms] .

end
