(* ===== verification/Shell_Text.thy ===== *)
theory Shell_Text
  imports Prelude
begin

text \<open>
  The text side of the shell (\<^verbatim>\<open>shell.rs\<close>): splitting a line into words, a path into its segments, and
  reading numbers and IPv4 addresses. A line is a sequence of ASCII characters, as the keyboard driver makes
  it. The standard library's \<^verbatim>\<open>trim\<close>, \<^verbatim>\<open>split_whitespace\<close>, \<^verbatim>\<open>split\<close>, \<^verbatim>\<open>join\<close> and the parsing of unsigned
  integers are modelled as documented, including the leading plus sign that the latter accepts.
\<close>

section \<open>Definitions: the standard library\<close>

definition ascii :: "string \<Rightarrow> bytes" where
  "ascii cs = map (\<lambda>c. of_nat (of_char c)) cs"

definition is_whitespace :: "u8 \<Rightarrow> bool" where
  "is_whitespace c \<longleftrightarrow> c = 0x20 \<or> 9 \<le> c \<and> c \<le> 13"

definition trim :: "bytes \<Rightarrow> bytes" where
  "trim s = rev (dropWhile is_whitespace (rev (dropWhile is_whitespace s)))"

fun split_at :: "(u8 \<Rightarrow> bool) \<Rightarrow> bytes \<Rightarrow> bytes list" where
  "split_at p [] = [[]]"
| "split_at p (c # s) =
     (if p c then [] # split_at p s
      else case split_at p s of [] \<Rightarrow> [[c]] | w # ws \<Rightarrow> (c # w) # ws)"

definition split_whitespace :: "bytes \<Rightarrow> bytes list" where
  "split_whitespace s = filter (\<lambda>w. w \<noteq> []) (split_at is_whitespace s)"

fun join_with :: "u8 \<Rightarrow> bytes list \<Rightarrow> bytes" where
  "join_with c [] = []"
| "join_with c [w] = w"
| "join_with c (w # ws) = w @ c # join_with c ws"

text \<open>\<^verbatim>\<open>parse\<close> of an unsigned integer type with the maximum \<open>m\<close>.\<close>

fun parse_digits :: "nat \<Rightarrow> nat \<Rightarrow> bytes \<Rightarrow> nat option" where
  "parse_digits m acc [] = Some acc"
| "parse_digits m acc (c # s) =
     (if 0x30 \<le> c \<and> c \<le> 0x39
      then let acc' = 10 * acc + (unat c - 48) in if m < acc' then None else parse_digits m acc' s
      else None)"

definition parse_unsigned :: "nat \<Rightarrow> bytes \<Rightarrow> nat option" where
  "parse_unsigned m s =
     (case s of
        [] \<Rightarrow> None
      | c # s' \<Rightarrow> if c = 0x2B then if s' = [] then None else parse_digits m 0 s' else parse_digits m 0 s)"

section \<open>Definitions: paths and addresses\<close>

definition split_segments :: "bytes \<Rightarrow> bytes list outcome" where
  "split_segments path =
     (let segments = split_at (\<lambda>c. c = 0x2F) path in
      if list_ex (\<lambda>s. s = []) segments then Err (''invalid path - check for a leading/trailing/double '/'' @ [CHR 0x27])
      else Ok segments)"

definition split_path :: "bytes \<Rightarrow> (bytes list \<times> bytes) outcome" where
  "split_path path = obind (split_segments path) (\<lambda>segments.
     if segments = [] then Panic
     else let name = last segments in
       if name = ascii ''.'' \<or> name = ascii ''..''
       then Err ''invalid path - '.' or '..' can't be used as the target name''
       else Ok (butlast segments, name))"

fun parse_octets :: "nat \<Rightarrow> bytes list \<Rightarrow> bytes option" where
  "parse_octets 0 parts = (if parts = [] then Some [] else None)"
| "parse_octets (Suc n) [] = None"
| "parse_octets (Suc n) (p # parts) =
     (case parse_unsigned 255 p of
        None \<Rightarrow> None
      | Some x \<Rightarrow> map_option (\<lambda>xs. of_nat x # xs) (parse_octets n parts))"

definition parse_ipv4 :: "bytes \<Rightarrow> bytes option" where
  "parse_ipv4 s = parse_octets 4 (split_at (\<lambda>c. c = 0x2E) s)"

section \<open>Splitting and joining\<close>

lemma ascii_inject [simp]: "ascii x = ascii y \<longleftrightarrow> x = y"
proof -
  have "inj (\<lambda>c :: char. of_nat (of_char c) :: u8)"
  proof (rule injI)
    fix c d :: char
    assume "(of_nat (of_char c) :: u8) = of_nat (of_char d)"
    then have "unat (of_nat (of_char c :: nat) :: u8) = unat (of_nat (of_char d :: nat) :: u8)" by simp
    moreover have "(of_char c :: nat) < 256" "(of_char d :: nat) < 256" for c d :: char by simp_all
    ultimately show "c = d" by (simp add: unat_of_nat)
  qed
  then show ?thesis unfolding ascii_def by (rule inj_map_eq_map)
qed

lemma split_at_ne [simp]: "split_at p s \<noteq> []"
  by (cases s) (auto split: list.splits)

lemma split_at_parts: "w \<in> set (split_at p s) \<Longrightarrow> c \<in> set w \<Longrightarrow> \<not> p c \<and> c \<in> set s"
proof (induction s arbitrary: w)
  case (Cons a s)
  obtain v vs where v: "split_at p s = v # vs" by (cases "split_at p s") auto
  have "\<not> p c \<and> c \<in> set s" if "c \<in> set v \<or> w \<in> set vs" using Cons.IH [of v] Cons.IH [of w] Cons.prems that v by auto
  then show ?case using Cons.prems v by (auto split: if_splits)
qed simp

lemma split_at_append:
  "(\<And>c. c \<in> set w \<Longrightarrow> \<not> p c) \<Longrightarrow> split_at p (w @ s) = (w @ hd (split_at p s)) # tl (split_at p s)"
proof (induction w)
  case (Cons a w)
  then show ?case by simp
qed simp

lemma split_at_word: "(\<And>c. c \<in> set w \<Longrightarrow> \<not> p c) \<Longrightarrow> split_at p w = [w]"
  using split_at_append [of w p "[]"] by simp

lemma split_at_join:
  assumes "ws \<noteq> []" and "\<And>w c. w \<in> set ws \<Longrightarrow> c \<in> set w \<Longrightarrow> \<not> p c" and "p s"
  shows "split_at p (join_with s ws) = ws"
  using assms(1,2)
proof (induction ws rule: induct_list012)
  case (2 w)
  then show ?case by (auto intro: split_at_word)
next
  case (3 w w' ws)
  then have "split_at p (join_with s (w' # ws)) = w' # ws" by (meson list.set_intros(2) list.discI)
  moreover have "split_at p (w @ s # join_with s (w' # ws)) = w # split_at p (join_with s (w' # ws))"
    using "3.prems" assms(3) by (subst split_at_append) auto
  ultimately show ?case by simp
qed simp

lemma join_split_at: "join_with s (split_at (\<lambda>c. c = s) x) = x"
proof (induction x)
  case (Cons a x)
  obtain w ws where w: "split_at (\<lambda>c. c = s) x = w # ws" by (cases "split_at (\<lambda>c. c = s) x") auto
  then show ?case using Cons.IH by (cases ws) auto
qed simp

section \<open>Numbers\<close>

text \<open>Decimal notation.\<close>

fun decimal :: "nat \<Rightarrow> bytes" where
  "decimal n = (if n < 10 then [of_nat (48 + n)] else decimal (n div 10) @ [of_nat (48 + n mod 10)])"

declare decimal.simps [simp del]

lemma digit: "k < 10 \<Longrightarrow> 0x30 \<le> (of_nat (48 + k) :: u8) \<and> (of_nat (48 + k) :: u8) \<le> 0x39 \<and> unat (of_nat (48 + k) :: u8) = 48 + k"
  by (simp add: word_le_nat_alt unat_word_ariths unat_of_nat)

lemma decimal_digits: "c \<in> set (decimal n) \<Longrightarrow> 0x30 \<le> c \<and> c \<le> 0x39"
proof (induction n rule: decimal.induct)
  case (1 n)
  then show ?case using digit [of n] digit [of "n mod 10"] by (subst (asm) decimal.simps) (auto split: if_splits)
qed

lemma decimal_ne: "decimal n \<noteq> []"
  by (subst decimal.simps) simp

lemma parse_digits_snoc: "parse_digits m acc (s @ [c]) =
    (case parse_digits m acc s of None \<Rightarrow> None | Some a \<Rightarrow> parse_digits m a [c])"
  by (induction s arbitrary: acc) (auto simp: Let_def)

lemma parse_decimal: "parse_digits m 0 (decimal n) = (if n \<le> m then Some n else None)"
proof (induction n rule: decimal.induct)
  case (1 n)
  show ?case
  proof (cases "n < 10")
    case True
    then show ?thesis using digit [of n] by (subst decimal.simps) simp
  next
    case False
    have "n div 10 \<le> m" if "n \<le> m" using that div_le_dividend le_trans by blast
    then show ?thesis
      using False 1 digit [of "n mod 10"] by (subst decimal.simps) (auto simp: parse_digits_snoc)
  qed
qed

lemma parse_unsigned_decimal: "parse_unsigned m (decimal n) = (if n \<le> m then Some n else None)"
proof -
  obtain c s where c: "decimal n = c # s" using decimal_ne [of n] by (cases "decimal n") auto
  then have "c \<noteq> 0x2B" using decimal_digits [of c n] by auto
  then show ?thesis using parse_decimal [of m n] c by (simp add: parse_unsigned_def)
qed

lemma parse_digits_facts: "parse_digits m acc s = Some x \<Longrightarrow> acc \<le> m \<Longrightarrow> x \<le> m \<and> 0x2E \<notin> set s"
  by (induction s arbitrary: acc) (auto simp: Let_def split: if_splits)

lemma parse_unsigned_facts:
  assumes "parse_unsigned m s = Some x"
  shows "x \<le> m" and "0x2E \<notin> set s"
  using assms parse_digits_facts [of m 0 s x] parse_digits_facts [of m 0 "tl s" x]
  by (auto simp del: parse_digits.simps simp: parse_unsigned_def split: list.splits if_splits)

text \<open>The notation of an IPv4 address.\<close>

definition dotted :: "bytes \<Rightarrow> bytes" where
  "dotted ip = join_with 0x2E (map (\<lambda>x. decimal (unat x)) ip)"

lemma parse_octets_exact: "parse_octets n parts = Some ip \<longleftrightarrow>
    length ip = n \<and> map (parse_unsigned 255) parts = map (\<lambda>x. Some (unat x)) ip"
proof (induction n parts arbitrary: ip rule: parse_octets.induct)
  case (3 n p parts)
  have b: "x \<le> 255" if "parse_unsigned 255 p = Some x" for x using parse_unsigned_facts [OF that] by simp
  have "(of_nat x = y) = (x = unat y)" if "x \<le> 255" for x and y :: u8
    using that by (auto simp: word_unat_eq_iff unat_of_nat)
  then show ?case using 3 b by (cases "parse_unsigned 255 p"; cases ip) (auto 0 3)
qed auto

section \<open>Properties\<close>

text \<open>
  C37: what paths the shell takes. \<open>split_path\<close> never panics. It accepts a path exactly when it is
  directory names and a last name, joined by slashes, none of them empty or with a slash of its own and the last
  not one of the two special names of a directory, and it returns these names; every other path is
  an error.
\<close>

theorem split_path_exact:
  "(split_path path = Ok (dirs, name) \<longleftrightarrow> path = join_with 0x2F (dirs @ [name])
       \<and> (\<forall>w \<in> set (dirs @ [name]). w \<noteq> [] \<and> 0x2F \<notin> set w) \<and> name \<noteq> ascii ''.'' \<and> name \<noteq> ascii ''..'')
   \<and> (\<nexists>x. split_path path = Ok x) = is_err (split_path path)"
proof
  let ?ws = "split_at (\<lambda>c. c = 0x2F) path"
  have eq: "split_path path = (if [] \<in> set ?ws then Err (''invalid path - check for a leading/trailing/double '/'' @ [CHR 0x27])
      else if last ?ws = ascii ''.'' \<or> last ?ws = ascii ''..'' then Err ''invalid path - '.' or '..' can't be used as the target name''
      else Ok (butlast ?ws, last ?ws))"
    by (simp add: split_path_def split_segments_def Let_def list_ex_iff)
  show "split_path path = Ok (dirs, name) \<longleftrightarrow> path = join_with 0x2F (dirs @ [name])
       \<and> (\<forall>w \<in> set (dirs @ [name]). w \<noteq> [] \<and> 0x2F \<notin> set w) \<and> name \<noteq> ascii ''.'' \<and> name \<noteq> ascii ''..''" (is "_ \<longleftrightarrow> ?path")
  proof
    assume "split_path path = Ok (dirs, name)"
    then have ok: "[] \<notin> set ?ws" "name \<noteq> ascii ''.''" "name \<noteq> ascii ''..''" "butlast ?ws = dirs" "last ?ws = name"
      unfolding eq by (simp_all split: if_splits)
    then have ws: "?ws = dirs @ [name]" using append_butlast_last_id [OF split_at_ne] by metis
    have "0x2F \<notin> set w" if "w \<in> set ?ws" for w using split_at_parts [OF that] by blast
    then show ?path using ok(1-3) join_split_at [of "0x2F" path] unfolding ws by auto
  next
    assume p: ?path
    then have "?ws = dirs @ [name]" using split_at_join [of "dirs @ [name]" "\<lambda>c. c = 0x2F" "0x2F"] by blast
    then show "split_path path = Ok (dirs, name)" using p unfolding eq by auto
  qed
  show "(\<nexists>x. split_path path = Ok x) = is_err (split_path path)"
    unfolding eq by simp
qed

theorem split_path_exact_witness:
  "split_path (ascii ''A/B/C.TXT'') = Ok ([ascii ''A'', ascii ''B''], ascii ''C.TXT'') \<and> is_err (split_path (ascii ''A/..''))"
  using split_path_exact [of "ascii ''A/B/C.TXT''" "[ascii ''A'', ascii ''B'']" "ascii ''C.TXT''"] split_path_exact [of "ascii ''A/..''"]
  by (simp add: ascii_def) (simp add: split_path_def split_segments_def ascii_def)

text \<open>
  C38: reading addresses. \<open>parse_ipv4\<close> accepts exactly the texts that are four decimal numbers of at most 255 joined by
  dots (where a number may have leading zeros and a plus sign), and yields their values; in particular
  it reads every address back from its dotted notation.
\<close>

theorem parse_ipv4_exact:
  "(parse_ipv4 s = Some ip \<longleftrightarrow> length ip = 4
       \<and> (\<exists>parts. s = join_with 0x2E parts \<and> map (parse_unsigned 255) parts = map (\<lambda>x. Some (unat x)) ip))
   \<and> (length ip = 4 \<longrightarrow> parse_ipv4 (dotted ip) = Some ip)"
proof -
  let ?ws = "split_at (\<lambda>c. c = 0x2E)"
  have split: "?ws (join_with 0x2E parts) = parts" if "map (parse_unsigned 255) parts = map (\<lambda>x. Some (unat x)) ip" "length ip = 4" for parts
  proof (rule split_at_join)
    have "parts \<noteq> []" using map_eq_imp_length_eq [OF that(1)] that(2) by auto
    then show "parts \<noteq> []" .
    show "c \<noteq> 0x2E" if "w \<in> set parts" "c \<in> set w" for w c
    proof -
      have "parse_unsigned 255 w \<in> set (map (\<lambda>x. Some (unat x)) ip)"
        unfolding \<open>map (parse_unsigned 255) parts = map (\<lambda>x. Some (unat x)) ip\<close> [symmetric] using that(1) by simp
      then show ?thesis using parse_unsigned_facts(2) [of 255 w] that(2) by auto
    qed
  qed simp
  have exact: "parse_ipv4 s = Some ip \<longleftrightarrow> length ip = 4
       \<and> (\<exists>parts. s = join_with 0x2E parts \<and> map (parse_unsigned 255) parts = map (\<lambda>x. Some (unat x)) ip)" for s
    unfolding parse_ipv4_def parse_octets_exact using split join_split_at [of "0x2E" s] by metis
  have "parse_ipv4 (dotted ip) = Some ip" if "length ip = 4"
  proof -
    have "parse_unsigned 255 (decimal (unat x)) = Some (unat x)" for x :: u8
      using unat_u8_less [of x] by (simp add: parse_unsigned_decimal del: unat_u8_less)
    then show ?thesis unfolding exact dotted_def using that by (intro conjI exI [of _ "map (\<lambda>x. decimal (unat x)) ip"]) simp_all
  qed
  then show ?thesis using exact by blast
qed

theorem parse_ipv4_exact_witness: "parse_ipv4 (dotted [10, 0, 2, 15]) = Some [10, 0, 2, 15]"
  using parse_ipv4_exact [of "[]" "[10, 0, 2, 15]"] by simp

end
