(* ===== verification/Shell.thy ===== *)
theory Shell
  imports Shell_Text Fat12 Fat32 E1000 Kv_Allocator Agent_Scheduler Vga_Buffer
begin

text \<open>
  Model of \<^verbatim>\<open>shell.rs\<close>: the commands of the prompt on the state of the kernel they use, which is the disk and clock
  behind the port bus, the network card and the frame allocator, the process table, the table of cache blocks and
  the screen. A command returns what it prints, as a value of type \<open>reply\<close>: the data (without the words of the line that are
  repeated), the usage message or the error. The lines written to the serial port repeat them and are left out, and so is the
  scrolling of the screen by the printed text.
\<close>

section \<open>Definitions: the file commands\<close>

definition find_fat_partition :: "'b port_bus \<Rightarrow> ('b, partition_entry) io" where
  "find_fat_partition bus =
     io_bind (read_sector bus 0) (\<lambda>mbr.
     case find (\<lambda>p. partition_type p \<in> {0x01, 0x04, 0x06, 0x0B, 0x0C, 0x0E}) (parse_mbr mbr) of
       None \<Rightarrow> io_err ''no FAT-typed partition found in the MBR''
     | Some p \<Rightarrow> io_ret p)"

definition shell_list_root :: "'b port_bus \<Rightarrow> ('b, string \<times> dir_entry list) io" where
  "shell_list_root bus =
     io_bind (find_fat_partition bus) (\<lambda>partition.
     io_bind (io_match (fat32_read_bpb bus partition)) (\<lambda>r. case r of
        Inr fs \<Rightarrow>
          io_bind (fat32_list_directory bus fs (f32_root_cluster fs)) (\<lambda>entries. io_ret (''FAT32'', entries))
      | Inl fat32_err \<Rightarrow>
          io_bind (read_bpb bus partition) (\<lambda>fs.
          io_bind (list_root_directory bus fs) (\<lambda>entries. io_ret (''FAT12/16'', entries)))))"

fun resolve_segments :: "'b port_bus \<Rightarrow> fat12_info \<Rightarrow> bytes list \<Rightarrow> u32 option \<Rightarrow> ('b, u32 option) io" where
  "resolve_segments bus fs [] cluster = io_ret cluster"
| "resolve_segments bus fs (name # segments) cluster =
     io_bind (case cluster of None \<Rightarrow> list_root_directory bus fs | Some c \<Rightarrow> list_directory bus fs c) (\<lambda>entries.
     case find (\<lambda>e. eq_ignore_ascii_case (de_name e) name) entries of
       None \<Rightarrow> io_err ''no such directory in path''
     | Some entry \<Rightarrow>
         if \<not> de_is_dir entry then io_err ''that's a file, not a directory''
         else resolve_segments bus fs segments (if de_start_cluster entry = 0 then None else Some (de_start_cluster entry)))"

definition resolve_dir_path :: "'b port_bus \<Rightarrow> fat12_info \<Rightarrow> bytes list \<Rightarrow> ('b, u32 option) io" where
  "resolve_dir_path bus fs segments = resolve_segments bus fs segments None"

definition read_fat_file :: "'b port_bus \<Rightarrow> bytes \<Rightarrow> ('b, bytes) io" where
  "read_fat_file bus name =
     io_bind (find_fat_partition bus) (\<lambda>partition.
     io_bind (io_match (fat32_read_bpb bus partition)) (\<lambda>r. case r of
        Inr fs \<Rightarrow> fat32_read_file bus fs name
      | Inl _ \<Rightarrow>
          io_bind (read_bpb bus partition) (\<lambda>fs.
          io_bind (io_lift (split_path name)) (\<lambda>(dirs, file).
          io_bind (resolve_dir_path bus fs dirs) (\<lambda>c. case c of
             None \<Rightarrow> read_file bus fs file
           | Some cluster \<Rightarrow> read_file_in bus fs cluster file)))))"

text \<open>
  The four commands that change the disk mount the volume, resolve the path and call an operation of the FAT12
  driver on it; \<open>not_fat32\<close> is the error on a FAT32 volume.
\<close>

definition on_volume :: "fat12_info \<Rightarrow> (fat12_info \<times> 'b, 'a) io \<Rightarrow> ('b, 'a) io" where
  "on_volume fs m d = (case m (fs, d) of (r, (fs', d')) \<Rightarrow> (r, d'))"

definition change_volume :: "'b port_bus \<Rightarrow> string \<Rightarrow> bytes \<Rightarrow> (bytes \<Rightarrow> (fat12_info \<times> 'b, unit) io)
    \<Rightarrow> (u32 \<Rightarrow> bytes \<Rightarrow> (fat12_info \<times> 'b, unit) io) \<Rightarrow> ('b, unit) io" where
  "change_volume bus not_fat32 name in_root in_cluster =
     io_bind (find_fat_partition bus) (\<lambda>partition.
     io_bind (io_match (fat32_read_bpb bus partition)) (\<lambda>r. case r of
        Inr _ \<Rightarrow> io_err not_fat32
      | Inl _ \<Rightarrow>
          io_bind (read_bpb bus partition) (\<lambda>fs.
          io_bind (io_lift (split_path name)) (\<lambda>(dirs, file).
          io_bind (resolve_dir_path bus fs dirs) (\<lambda>c. case c of
             None \<Rightarrow> on_volume fs (in_root file)
           | Some cluster \<Rightarrow> on_volume fs (in_cluster cluster file))))))"

definition create_fat_file :: "'b port_bus \<Rightarrow> bytes \<Rightarrow> bytes \<Rightarrow> ('b, unit) io" where
  "create_fat_file bus name data =
     change_volume bus ''FAT32 file creation isn't implemented yet (this disk is FAT12 in practice)'' name
       (\<lambda>file. create_file bus file data) (\<lambda>cluster file. create_file_in bus cluster file data)"

definition delete_fat_file :: "'b port_bus \<Rightarrow> bytes \<Rightarrow> ('b, unit) io" where
  "delete_fat_file bus name =
     change_volume bus ''FAT32 file deletion isn't implemented yet (this disk is FAT12 in practice)'' name
       (delete_file bus) (delete_file_in bus)"

definition create_fat_directory :: "'b port_bus \<Rightarrow> bytes \<Rightarrow> ('b, unit) io" where
  "create_fat_directory bus name =
     change_volume bus ''FAT32 directory creation isn't implemented yet (this disk is FAT12 in practice)'' name
       (create_directory bus) (create_directory_in bus)"

definition delete_fat_directory :: "'b port_bus \<Rightarrow> bytes \<Rightarrow> ('b, unit) io" where
  "delete_fat_directory bus name =
     change_volume bus ''FAT32 directory deletion isn't implemented yet (this disk is FAT12 in practice)'' name
       (delete_directory bus) (delete_directory_in bus)"

definition list_fat_directory :: "'b port_bus \<Rightarrow> bytes \<Rightarrow> ('b, dir_entry list) io" where
  "list_fat_directory bus name =
     io_bind (find_fat_partition bus) (\<lambda>partition.
     io_bind (io_match (fat32_read_bpb bus partition)) (\<lambda>r. case r of
        Inr _ \<Rightarrow> io_err ''listing a FAT32 subdirectory by name isn't wired up yet (this disk is FAT12 in practice)''
      | Inl _ \<Rightarrow>
          io_bind (read_bpb bus partition) (\<lambda>fs.
          io_bind (io_lift (split_segments name)) (\<lambda>segments.
          io_bind (resolve_dir_path bus fs segments) (\<lambda>c. case c of
             None \<Rightarrow> list_root_directory bus fs
           | Some cluster \<Rightarrow> list_directory bus fs cluster)))))"

section \<open>Definitions: the prompt\<close>

record ('b, 'n) shell_state =
  sh_disk :: 'b
  sh_net :: "'n nic_state"
  sh_table :: native_agent_scheduler
  sh_kv :: kv_cache_memory_manager
  sh_screen :: writer

definition on_disk :: "('b, 'a) io \<Rightarrow> (('b, 'n) shell_state, 'a) io" where
  "on_disk m s = (case m (sh_disk s) of (r, d) \<Rightarrow> (r, s\<lparr>sh_disk := d\<rparr>))"

definition on_net :: "('n nic_state, 'a) io \<Rightarrow> (('b, 'n) shell_state, 'a) io" where
  "on_net m s = (case m (sh_net s) of (r, d) \<Rightarrow> (r, s\<lparr>sh_net := d\<rparr>))"

definition priority_label :: "priority \<Rightarrow> string" where
  "priority_label p = (case p of KernelCritical \<Rightarrow> ''KCRIT'' | High \<Rightarrow> ''HIGH'' | Normal \<Rightarrow> ''NORM'' | Background \<Rightarrow> ''BG'')"

definition state_label :: "process_state \<Rightarrow> string" where
  "state_label p = (case p of Ready \<Rightarrow> ''READY'' | Running \<Rightarrow> ''RUNNING'' | Blocked \<Rightarrow> ''BLOCKED'' | Terminated \<Rightarrow> ''DEAD'')"

datatype reply =
    No_Command
  | Help
  | Processes nat "(u32 \<times> string \<times> string \<times> string \<times> u64) list"
  | Memory u64 u64 u64 u64 "kv_cache_block list"
  | Uptime u64
  | Date rtc_time
  | Pci_Devices "(pci_device \<times> string) list"
  | Disk_Read u8 u8 bool "(nat \<times> partition_entry \<times> string) list"
  | Root_Listing string "dir_entry list"
  | Listing bytes "dir_entry list"
  | Made_Directory bytes
  | Removed_Directory bytes
  | File_Read nat "bytes option"
  | Created bytes nat
  | Deleted bytes
  | Network_Ok
  | Ping_Ok bytes
  | Resolved bytes reply
  | Dns_Answer bool bool u16 "bytes option"
  | Echo nat bool
  | Too_Long nat
  | Cleared
  | Usage string
  | Failed string
  | Unknown bytes

definition report :: "('s, 'a) io \<Rightarrow> ('a \<Rightarrow> reply) \<Rightarrow> ('s, reply) io" where
  "report m f = io_bind (io_match m) (\<lambda>r. io_ret (case r of Inl e \<Rightarrow> Failed e | Inr x \<Rightarrow> f x))"

text \<open>The partitions that \<^verbatim>\<open>disk\<close> shows: none when the signature is wrong, and not the empty ones.\<close>

definition disk_reply :: "bytes \<Rightarrow> reply" where
  "disk_reply buf =
     (let sig_ok = buf ! 510 = 0x55 \<and> buf ! 511 = 0xAA in
      Disk_Read (buf ! 510) (buf ! 511) sig_ok
        (if sig_ok then map (\<lambda>(i, p). (i, p, partition_type_name (partition_type p)))
           (filter (\<lambda>(i, p). partition_type p \<noteq> 0) (enumerate 0 (parse_mbr buf))) else []))"

definition MAX_TCPECHO_PAYLOAD :: nat where "MAX_TCPECHO_PAYLOAD = 100"

definition ping_command :: "('n, 'z) nic_hw_scheme \<Rightarrow> bytes \<Rightarrow> ('n nic_state, reply) io" where
  "ping_command hw target_str =
     (case parse_ipv4 target_str of
        Some target_ip \<Rightarrow> report (ping hw target_ip) (\<lambda>_. Ping_Ok target_str)
      | None \<Rightarrow>
          if target_str = [] then io_ret (Failed ''usage: ping A.B.C.D | ping hostname'')
          else io_bind (io_match (resolve_hostname hw target_str [10, 0, 2, 3])) (\<lambda>resolved.
            case resolved of
              Inl e \<Rightarrow> io_ret (Failed e)
            | Inr target_ip \<Rightarrow> io_bind (report (ping hw target_ip) (\<lambda>_. Ping_Ok target_str)) (\<lambda>r.
                io_ret (Resolved target_ip r))))"

definition dns_command :: "('n, 'z) nic_hw_scheme \<Rightarrow> bytes \<Rightarrow> bytes \<Rightarrow> ('n nic_state, reply) io" where
  "dns_command hw ip_str hostname =
     (case parse_ipv4 ip_str of
        None \<Rightarrow> io_ret (Usage ''dns'')
      | Some target_ip \<Rightarrow>
          if hostname = [] then io_ret (Usage ''dns'')
          else report (dns_query_test hw target_ip hostname)
            (\<lambda>(reply_received, qr_bit_set, answer_count, parsed). Dns_Answer reply_received qr_bit_set answer_count parsed))"

definition tcpecho_command :: "('n, 'z) nic_hw_scheme \<Rightarrow> bytes \<Rightarrow> bytes \<Rightarrow> bytes \<Rightarrow> ('n nic_state, reply) io" where
  "tcpecho_command hw ip_str port_str message =
     (case (parse_ipv4 ip_str, parse_unsigned 65535 port_str) of
        (Some target_ip, Some target_port) \<Rightarrow>
          if length message \<le> MAX_TCPECHO_PAYLOAD
          then let payload = message @ [0x0A] in
            report (tcp_echo_test hw target_ip (of_nat target_port) 54322 0x30000000 payload)
              (\<lambda>echoed. Echo (length echoed) (echoed = payload))
          else io_ret (Too_Long (length message))
      | _ \<Rightarrow> io_ret (Usage ''tcpecho''))"

text \<open>The next word of the line, empty when there is none.\<close>

definition word_at :: "nat \<Rightarrow> bytes list \<Rightarrow> bytes" where
  "word_at n ws = (if n < length ws then ws ! n else [])"

definition named :: "string \<Rightarrow> bytes \<Rightarrow> ('s, reply) io \<Rightarrow> ('s, reply) io" where
  "named cmd name m = (if name = [] then io_ret (Usage cmd) else m)"

text \<open>The commands that show the state of the kernel.\<close>

definition ps_command :: "(('b, 'n) shell_state, reply) io" where
  "ps_command s = (Ok (Processes (get_active_count (sh_table s))
     (map (\<lambda>p. (pid p, priority_label (prio p), state_label (pstate p), pname p, stack_pointer p)) (for_each_process (sh_table s)))), s)"

definition mem_command :: "(('b, 'n) shell_state, reply) io" where
  "mem_command s = (Ok (Memory HEAP_START (HEAP_START + HEAP_SIZE) (HEAP_SIZE div 1024)
     (get_allocated_count (sh_kv s)) (for_each_block (sh_kv s))), s)"

definition lspci_command :: "('n, 'z) nic_hw_scheme \<Rightarrow> ('n nic_state, reply) io" where
  "lspci_command hw = io_bind (dev_get (scan_bus0 hw)) (\<lambda>devices.
     io_ret (Pci_Devices (map (\<lambda>d. (d, class_name (pci_class d))) devices)))"

text \<open>The commands on files; \<open>arg\<close> is the second word of the line.\<close>

definition ls_command :: "'b port_bus \<Rightarrow> bytes \<Rightarrow> ('b, reply) io" where
  "ls_command bus arg =
     (if arg = [] then report (shell_list_root bus) (\<lambda>(fs, es). Root_Listing fs es)
      else report (list_fat_directory bus arg) (Listing arg))"

definition mkdir_command :: "'b port_bus \<Rightarrow> bytes \<Rightarrow> ('b, reply) io" where
  "mkdir_command bus arg = named ''mkdir'' arg (report (create_fat_directory bus arg) (\<lambda>_. Made_Directory arg))"

definition rmdir_command :: "'b port_bus \<Rightarrow> bytes \<Rightarrow> ('b, reply) io" where
  "rmdir_command bus arg = named ''rmdir'' arg (report (delete_fat_directory bus arg) (\<lambda>_. Removed_Directory arg))"

text \<open>\<^verbatim>\<open>cat\<close> shows the length of the file and, if there are as many, its first four bytes.\<close>

definition shown_content :: "bytes \<Rightarrow> reply" where
  "shown_content data = File_Read (length data) (if 4 \<le> length data then Some (take 4 data) else None)"

definition cat_command :: "'b port_bus \<Rightarrow> bytes \<Rightarrow> ('b, reply) io" where
  "cat_command bus arg = named ''cat'' arg (report (read_fat_file bus arg) shown_content)"

definition touch_command :: "'b port_bus \<Rightarrow> bytes \<Rightarrow> bytes list \<Rightarrow> ('b, reply) io" where
  "touch_command bus arg rest = named ''touch'' arg
     (let content = join_with 0x20 rest
      in report (create_fat_file bus arg content) (\<lambda>_. Created arg (length content)))"

definition rm_command :: "'b port_bus \<Rightarrow> bytes \<Rightarrow> ('b, reply) io" where
  "rm_command bus arg = named ''rm'' arg (report (delete_fat_file bus arg) (\<lambda>_. Deleted arg))"

definition dispatch_command :: "'b port_bus \<Rightarrow> ('n, 'z) nic_hw_scheme \<Rightarrow> bytes \<Rightarrow> (('b, 'n) shell_state, reply) io" where
  "dispatch_command bus hw line =
     (let words = split_whitespace (trim line); cmd = word_at 0 words; arg = word_at 1 words in
      if trim line = [] then io_ret No_Command
      else if cmd = ascii ''help'' then io_ret Help
      else if cmd = ascii ''ps'' then ps_command
      else if cmd = ascii ''mem'' then mem_command
      else if cmd = ascii ''uptime'' then (\<lambda>s. (Ok (Uptime (timer_ticks hw (snd (sh_net s)))), s))
      else if cmd = ascii ''date'' then on_disk (io_bind (read_time bus) (\<lambda>t. io_ret (Date t)))
      else if cmd = ascii ''lspci'' then on_net (lspci_command hw)
      else if cmd = ascii ''disk'' then on_disk (report (read_sector bus 0) disk_reply)
      else if cmd = ascii ''ls'' then on_disk (ls_command bus arg)
      else if cmd = ascii ''mkdir'' then on_disk (mkdir_command bus arg)
      else if cmd = ascii ''rmdir'' then on_disk (rmdir_command bus arg)
      else if cmd = ascii ''cat'' then on_disk (cat_command bus arg)
      else if cmd = ascii ''touch'' then on_disk (touch_command bus arg (drop 2 words))
      else if cmd = ascii ''rm'' then on_disk (rm_command bus arg)
      else if cmd = ascii ''netcheck'' then on_net (report (receive_test_frame hw) (\<lambda>_. Network_Ok))
      else if cmd = ascii ''ping'' then on_net (ping_command hw arg)
      else if cmd = ascii ''dns'' then on_net (dns_command hw arg (word_at 2 words))
      else if cmd = ascii ''tcpecho'' then on_net (tcpecho_command hw arg (word_at 2 words) (join_with 0x20 (drop 3 words)))
      else if cmd = ascii ''ring3test'' \<or> cmd = ascii ''ring3syscall'' then io_lift Diverge
      else if cmd = ascii ''clear'' then (\<lambda>s. (Ok Cleared, s\<lparr>sh_screen := clear_screen (sh_screen s)\<rparr>))
      else io_ret (Unknown cmd))"

lemmas command_defs = ps_command_def mem_command_def lspci_command_def ls_command_def mkdir_command_def rmdir_command_def
  cat_command_def touch_command_def rm_command_def

end
