(* ===== verification/Shell_Read.thy ===== *)
theory Shell_Read
  imports Shell E1000_Net
begin

text \<open>
  What a command may change on the disk. A machine whose sector reads never alter the disk (locale \<open>quiet_disk\<close>)
  keeps its content through every function that only reads, and with it through every command but the four that
  are meant to change it.
\<close>

section \<open>Reading keeps the disk\<close>

lemma bind_Err: "io_bind (io_lift (Err e)) f = io_err e"
  by (rule ext) (simp add: io_bind_def)

lemma snd_io_match: "snd (io_match m s) = snd (m s)"
  by (simp add: io_match_def split: prod.split outcome.split)

locale quiet_disk = disk_machine +
  assumes any_read: "ready d \<Longrightarrow> ready (snd (read_sector bus lba d)) \<and> sects (snd (read_sector bus lba d)) = sects d"
begin

definition keeps :: "('a, 'r) io \<Rightarrow> bool" where
  "keeps m \<longleftrightarrow> (\<forall>d. ready d \<longrightarrow> ready (snd (m d)) \<and> sects (snd (m d)) = sects d)"

lemma keepsD: "keeps m \<Longrightarrow> m d = (r, d') \<Longrightarrow> ready d \<Longrightarrow> ready d' \<and> sects d' = sects d"
  using keeps_def snd_conv by metis

lemma keeps_bind:
  assumes "keeps m" and "\<And>x. keeps (f x)"
  shows "keeps (io_bind m f)"
  unfolding keeps_def
proof (intro allI impI)
  fix d
  assume d: "ready d"
  have m: "ready (snd (m d)) \<and> sects (snd (m d)) = sects d" using assms(1) d by (simp add: keeps_def)
  show "ready (snd (io_bind m f d)) \<and> sects (snd (io_bind m f d)) = sects d"
  proof (cases "fst (m d)")
    case (Ok x)
    then show ?thesis using assms(2) [of x] m by (simp add: keeps_def io_bind_def)
  qed (use m in \<open>simp_all add: io_bind_def\<close>)
qed

lemma keeps_simple [simp]: "keeps (io_ret x)" "keeps (io_err e)" "keeps (io_lift r)"
  by (simp_all add: keeps_def)

lemma keeps_match: "keeps m \<Longrightarrow> keeps (io_match m)"
  by (simp add: keeps_def snd_io_match)

lemma keeps_read [simp]: "keeps (read_sector bus lba)"
  by (simp add: keeps_def any_read)

lemma keeps_clock [simp]: "keeps (read_time bus)"
  unfolding keeps_def
proof (intro allI impI)
  fix d
  assume "ready d"
  then obtain t d' where "read_time bus d = (Ok t, d')" "ready d'" "sects d' = sects d" using clock_law by blast
  then show "ready (snd (read_time bus d)) \<and> sects (snd (read_time bus d)) = sects d" by simp
qed

lemma keeps_sectors [simp]:
  "keeps (load_fat bus first ss fat)" "keeps (list_sectors bus lbas es lfn)" "keeps (find_in_sectors bus nf name lbas lfn)"
  "keeps (read_sectors_upto bus n lbas data)" "keeps (fat32_find_sectors bus name lbas lfn)"
proof -
  show "keeps (load_fat bus first ss fat)" by (induction ss arbitrary: fat) (auto intro!: keeps_bind)
  show "keeps (list_sectors bus lbas es lfn)"
    by (induction lbas arbitrary: es lfn) (auto intro!: keeps_bind split: prod.splits)
  show "keeps (find_in_sectors bus nf name lbas lfn)"
    by (induction lbas arbitrary: lfn) (auto intro!: keeps_bind split: scan.splits)
  show "keeps (read_sectors_upto bus n lbas data)"
    by (induction lbas arbitrary: data) (auto intro!: keeps_bind simp: Let_def)
  show "keeps (fat32_find_sectors bus name lbas lfn)"
    by (induction lbas arbitrary: lfn) (auto intro!: keeps_bind split: scan.splits)
qed

lemma keeps_clusters [simp]:
  "keeps (list_clusters n bus i c es lfn)" "keeps (read_clusters n bus i k c data)"
proof -
  show "keeps (list_clusters n bus i c es lfn)"
    by (induction n arbitrary: c es lfn) (auto intro!: keeps_bind split: option.splits)
  show "keeps (read_clusters n bus i k c data)"
    by (induction n arbitrary: c data) (auto intro!: keeps_bind split: option.splits scan.splits)
qed

lemma keeps_fat32_next [simp]: "keeps (fat32_next_cluster bus i c)"
  unfolding fat32_next_cluster_def by (auto intro!: keeps_bind simp: Let_def)

lemma keeps_if_diverge: "keeps m \<Longrightarrow> keeps (\<lambda>d. if n = 0 then (Diverge, d) else m d)"
  by (simp add: keeps_def)

lemma keeps_fat32 [simp]:
  "keeps (fat32_list_clusters n bus i c es lfn)" "keeps (fat32_find_clusters n bus i name c lfn')" "keeps (fat32_read_clusters n bus i k c data)"
proof -
  show "keeps (fat32_list_clusters n bus i c es lfn)"
  proof (induction n arbitrary: c es lfn)
    case (Suc n)
    then show ?case
      by (subst fat32_list_clusters.simps [abs_def]) (auto intro!: keeps_bind split: option.splits)
  qed (simp add: keeps_def fat32_list_clusters.simps)
  show "keeps (fat32_find_clusters n bus i name c lfn')"
  proof (induction n arbitrary: c lfn')
    case (Suc n)
    then show ?case
      by (subst fat32_find_clusters.simps [abs_def]) (auto intro!: keeps_bind split: option.splits scan.splits)
  qed (simp add: keeps_def fat32_find_clusters.simps)
  show "keeps (fat32_read_clusters n bus i k c data)"
  proof (induction n arbitrary: c data)
    case (Suc n)
    then show ?case
      by (subst fat32_read_clusters.simps [abs_def]) (auto intro!: keeps_bind split: option.splits scan.splits)
  qed (simp add: keeps_def fat32_read_clusters.simps)
qed

lemma keeps_volumes [simp]:
  "keeps (read_bpb bus p)" "keeps (fat32_read_bpb bus p)" "keeps (list_root_directory bus i)" "keeps (list_directory bus i c)"
  "keeps (fat32_list_directory bus f c)" "keeps (fat32_read_file bus f name)"
  "keeps (read_file bus i name)" "keeps (read_file_in bus i c name)"
  unfolding read_bpb_def fat32_read_bpb_def list_root_directory_def list_directory_def fat32_list_directory_def
    fat32_read_file_def fat32_find_entry_def read_file_def read_file_in_def read_file_impl_def find_entry_location_in_def Let_def
  by (auto intro!: keeps_bind split: prod.splits)

lemma keeps_shell [simp]:
  "keeps (find_fat_partition bus)" "keeps (shell_list_root bus)" "keeps (resolve_dir_path bus i ds)" "keeps (read_fat_file bus name)"
  "keeps (list_fat_directory bus name)"
proof -
  show p: "keeps (find_fat_partition bus)" unfolding find_fat_partition_def by (auto intro!: keeps_bind split: option.splits)
  then show "keeps (shell_list_root bus)"
    unfolding shell_list_root_def by (auto intro!: keeps_bind keeps_match split: sum.splits)
  have "keeps (resolve_segments bus i ds c)" for i ds c
    by (induction ds arbitrary: c) (auto intro!: keeps_bind split: option.splits)
  then show r: "keeps (resolve_dir_path bus i ds)" for i ds by (simp add: resolve_dir_path_def)
  show "keeps (read_fat_file bus name)"
    unfolding read_fat_file_def using p r by (auto intro!: keeps_bind keeps_match split: sum.splits option.splits)
  show "keeps (list_fat_directory bus name)"
    unfolding list_fat_directory_def using p r by (auto intro!: keeps_bind keeps_match split: sum.splits option.splits)
qed

lemma keeps_refused: "split_path name = Err e \<Longrightarrow> keeps (change_volume bus msg name f g)"
  unfolding change_volume_def by (auto intro!: keeps_bind keeps_match split: sum.splits simp: bind_Err)

lemma keeps_report: "keeps m \<Longrightarrow> keeps (report m f)"
  unfolding report_def by (auto intro!: keeps_bind keeps_match)

text \<open>The same for commands, on the state of the shell.\<close>

definition disk_kept :: "(('a, 'n) shell_state, 'r) io \<Rightarrow> bool" where
  "disk_kept m \<longleftrightarrow> (\<forall>s. ready (sh_disk s) \<longrightarrow> ready (sh_disk (snd (m s))) \<and> sects (sh_disk (snd (m s))) = sects (sh_disk s))"

lemma disk_kept_on_disk: "keeps m \<Longrightarrow> disk_kept (on_disk m)"
  unfolding disk_kept_def on_disk_def by (auto split: prod.splits dest: keepsD)

lemma disk_kept_simple [simp]: "disk_kept (on_net m)" "disk_kept (io_ret x)" "disk_kept (io_lift r)"
    "disk_kept (\<lambda>s. (f s, s))" "disk_kept (\<lambda>s. (g s, s\<lparr>sh_screen := h s\<rparr>))"
  unfolding disk_kept_def on_net_def by (auto split: prod.splits)

lemma disk_kept_shown [simp]: "disk_kept ps_command" "disk_kept mem_command"
  unfolding disk_kept_def ps_command_def mem_command_def by simp_all

lemma keeps_named: "(name \<noteq> [] \<Longrightarrow> keeps m) \<Longrightarrow> keeps (named cmd name m)"
  by (simp add: named_def)

lemma keeps_commands [simp]: "keeps (ls_command bus arg)" "keeps (cat_command bus arg)"
  unfolding ls_command_def cat_command_def by (auto intro!: keeps_named keeps_report)

lemma keeps_refused_commands:
  assumes "split_path arg = Err e"
  shows "keeps (touch_command bus arg rest)" "keeps (rm_command bus arg)" "keeps (mkdir_command bus arg)" "keeps (rmdir_command bus arg)"
  using assms unfolding touch_command_def rm_command_def mkdir_command_def rmdir_command_def Let_def
    create_fat_file_def delete_fat_file_def create_fat_directory_def delete_fat_directory_def
  by (auto intro!: keeps_named keeps_report keeps_refused)

lemma kept_if: "(b \<Longrightarrow> disk_kept x) \<Longrightarrow> (\<not> b \<Longrightarrow> disk_kept y) \<Longrightarrow> disk_kept (if b then x else y)"
  by simp

lemma disk_kept_dispatch:
  fixes line :: bytes
  defines "words \<equiv> split_whitespace (trim line)"
  assumes "word_at 0 words \<notin> ascii ` {''touch'', ''rm'', ''mkdir'', ''rmdir''} \<or> is_err (split_path (word_at 1 words))"
  shows "disk_kept (dispatch_command bus hw line)"
proof -
  have w: "disk_kept (on_disk (touch_command bus (word_at 1 words) rest))" "disk_kept (on_disk (rm_command bus (word_at 1 words)))"
      "disk_kept (on_disk (mkdir_command bus (word_at 1 words)))" "disk_kept (on_disk (rmdir_command bus (word_at 1 words)))"
    if "word_at 0 words \<in> ascii ` {''touch'', ''rm'', ''mkdir'', ''rmdir''}" for rest
  proof -
    have "is_err (split_path (word_at 1 words))" using that assms(2) by blast
    then obtain e where e: "split_path (word_at 1 words) = Err e" by (cases "split_path (word_at 1 words)") auto
    show "disk_kept (on_disk (touch_command bus (word_at 1 words) rest))" "disk_kept (on_disk (rm_command bus (word_at 1 words)))"
      "disk_kept (on_disk (mkdir_command bus (word_at 1 words)))" "disk_kept (on_disk (rmdir_command bus (word_at 1 words)))"
      by (intro disk_kept_on_disk keeps_refused_commands [OF e])+
  qed
  show ?thesis
    unfolding dispatch_command_def words_def [symmetric] Let_def
    by (intro kept_if; (rule w, simp only: image_insert insert_iff simp_thms; fail)?; (intro disk_kept_on_disk keeps_report keeps_bind)?;
        rule disk_kept_simple disk_kept_shown keeps_simple keeps_read keeps_clock keeps_commands)
qed

end

section \<open>A drive reads outside its address range\<close>

text \<open>The driver sends 28 bits of the address.\<close>

lemma read_sector_28: "read_sector bus lba = read_sector bus (lba AND 0x0FFFFFFF)"
proof -
  have "drop_bit 24 lba AND 0x0F = drop_bit 24 (lba AND 0x0FFFFFFF) AND 0x0F"
    "lba AND 0xFF = (lba AND 0x0FFFFFFF) AND 0xFF" "drop_bit 8 lba AND 0xFF = drop_bit 8 (lba AND 0x0FFFFFFF) AND 0xFF"
    "drop_bit 16 lba AND 0xFF = drop_bit 16 (lba AND 0x0FFFFFFF) AND 0xFF"
    by (simp_all add: and.assoc drop_bit_and)
  then show ?thesis by (simp only: read_sector_def select_drive_and_issue_command_def)
qed

interpretation quiet_pc: quiet_disk pio_bus pio_store pio_ready
proof
  fix p and lba :: u32
  assume r: "pio_ready p"
  have "unat (lba AND 0x0FFFFFFF) < 2 ^ 28" using word_and_le1 [of lba "0x0FFFFFFF"] by (simp add: word_le_nat_alt)
  then show "pio_ready (snd (read_sector pio_bus lba p)) \<and> pio_store (snd (read_sector pio_bus lba p)) = pio_store p"
    unfolding read_sector_28 [of _ lba] using pio.read_law [OF r] by fastforce
qed

section \<open>Properties\<close>

text \<open>
  C11: which commands write. Whatever line is entered, the content of the disk stays what it was unless the command is
  \<^verbatim>\<open>touch\<close>, \<^verbatim>\<open>rm\<close>, \<^verbatim>\<open>mkdir\<close> or \<^verbatim>\<open>rmdir\<close>; and it also stays what it was if the command is one of these and its path is malformed or
  names an entry \<^verbatim>\<open>.\<close> or \<^verbatim>\<open>..\<close> of a directory, however damaged the file system is.
\<close>

theorem shell_disk_unchanged:
  fixes line :: bytes
  defines "words \<equiv> split_whitespace (trim line)"
  assumes "quiet_disk bus sects ready" and "ready (sh_disk s)" and "dispatch_command bus hw line s = (r, s')"
    and "word_at 0 words \<notin> ascii ` {''touch'', ''rm'', ''mkdir'', ''rmdir''} \<or> is_err (split_path (word_at 1 words))"
  shows "ready (sh_disk s') \<and> sects (sh_disk s') = sects (sh_disk s)"
  using quiet_disk.disk_kept_dispatch [OF assms(2), of line hw] assms(3-5)
  unfolding words_def quiet_disk.disk_kept_def [OF assms(2)] by fastforce

definition demo_shell :: "(pio_drive, nic_dev) shell_state" where
  "demo_shell = \<lparr>sh_disk = blank_drive, sh_net = (demo_alloc, demo_dev), sh_table = sched_new, sh_kv = kv_new,
     sh_screen = blank_writer\<rparr>"

theorem shell_disk_unchanged_witness:
  "\<exists>r s'. dispatch_command pio_bus (e1000_hw (demo_env (\<lambda>_ _. []))) (ascii ''rmdir A/..'') demo_shell = (r, s')
     \<and> pio_store (sh_disk s') = (\<lambda>_. replicate 512 0)"
proof -
  have "is_err (split_path (word_at 1 (split_whitespace (trim (ascii ''rmdir A/..'')))))"
    by (simp add: ascii_def trim_def split_whitespace_def is_whitespace_def word_at_def split_path_def split_segments_def)
  moreover obtain r s' where "dispatch_command pio_bus (e1000_hw (demo_env (\<lambda>_ _. []))) (ascii ''rmdir A/..'') demo_shell = (r, s')" by fastforce
  ultimately show ?thesis
    using shell_disk_unchanged [OF quiet_pc.quiet_disk_axioms, of demo_shell] blank_drive_ready
    by (fastforce simp: demo_shell_def blank_drive_def)
qed

end
