(* ===== verification/Shell_Files.thy ===== *)
theory Shell_Files
  imports Shell_Read
begin

text \<open>
  The file commands of the shell on a disk with a FAT12 volume: mounting it from the master boot record and the boot
  sector, and a file that is created by one command and read by another, each with a mount of its own.
\<close>

section \<open>A disk with a FAT12 volume\<close>

text \<open>The partition the shell finds, and a boot sector that describes the volume \<open>i\<close>.\<close>

definition boot_sector_of :: "bytes \<Rightarrow> fat12_info \<Rightarrow> bool" where
  "boot_sector_of b i \<longleftrightarrow> b ! 510 = 0x55 \<and> b ! 511 = 0xAA \<and> le16 (b ! 11) (b ! 12) = 512 \<and> b ! 13 = sectors_per_cluster i
     \<and> le16 (b ! 14) (b ! 15) = reserved_sector_count i \<and> b ! 16 = num_fats i \<and> le16 (b ! 17) (b ! 18) = root_entry_count i
     \<and> le16 (b ! 22) (b ! 23) = fat_size_16 i \<and> root_entry_count i \<noteq> 0 \<and> fat_size_16 i \<noteq> 0 \<and> reserved_sector_count i \<noteq> 0"

definition fat12_disk :: "(u32 \<Rightarrow> bytes) \<Rightarrow> partition_entry \<Rightarrow> fat12_info \<Rightarrow> bool" where
  "fat12_disk D p i \<longleftrightarrow> find (\<lambda>p. partition_type p \<in> {0x01, 0x04, 0x06, 0x0B, 0x0C, 0x0E}) (parse_mbr (D 0)) = Some p
     \<and> boot_sector_of (D (start_lba p)) i \<and> partition_start_lba i = start_lba p \<and> layout_ok i \<and> coherent D i"

lemma fat12_disk_base:
  assumes "fat12_disk D p i"
  shows "unat (start_lba p) < fat_base i" and "fat_base i < 2 ^ 28"
proof -
  have "0 < unat (reserved_sector_count i)" using assms by (simp add: fat12_disk_def boot_sector_of_def unat_gt_0)
  then show "unat (start_lba p) < fat_base i" using assms by (simp add: fat12_disk_def fat_base_def)
  have "0 < unat (sectors_per_cluster i)" "data_base i + 4096 * unat (sectors_per_cluster i) \<le> 2 ^ 28"
    using assms by (simp_all add: fat12_disk_def layout_ok_def)
  then show "fat_base i < 2 ^ 28" using base_order [of i] by linarith
qed

lemma root_lbas_from:
  assumes "layout_ok i" and "lba \<in> set (root_lbas i)"
  shows "root_base i \<le> unat lba"
proof -
  obtain k where k: "k < unat (root_dir_sectors i)" "lba = first_root_dir_sector i + of_nat k"
    using assms(2) by (auto simp: root_lbas_def)
  have "root_base i + k < data_base i" using k(1) unat_root_dir_sectors [of i] by (simp add: data_base_def)
  moreover have "data_base i \<le> 2 ^ 28" using assms(1) by (simp add: layout_ok_def)
  ultimately show ?thesis unfolding k(2) using unat_first_root_dir_sector [OF assms(1)] by (subst unat_add_of_nat) simp_all
qed

text \<open>A change of the table and of sectors from the table on leaves it such a disk.\<close>

lemma fat12_disk_changed:
  assumes "fat12_disk D p i" and "\<And>lba. unat lba < fat_base i \<Longrightarrow> D' lba = D lba"
    and "i' = i\<lparr>fat_bytes := F\<rparr>" and "coherent D' i'"
  shows "fat12_disk D' p i'"
proof -
  have lay: "layout_ok (i\<lparr>fat_bytes := F\<rparr>) = layout_ok i"
    by (simp add: layout_ok_def data_base_def root_base_def fat_base_def)
  have "D' 0 = D 0" "D' (start_lba p) = D (start_lba p)" using fat12_disk_base(1) [OF assms(1)] by (auto intro!: assms(2))
  moreover have "layout_ok i'" "boot_sector_of b i' = boot_sector_of b i" "partition_start_lba i' = partition_start_lba i" for b
    using lay assms(1) by (simp_all add: assms(3) fat12_disk_def boot_sector_of_def)
  ultimately show ?thesis using assms(1,4) by (simp add: fat12_disk_def)
qed

section \<open>Mounting\<close>

context disk_machine
begin

lemma load_fat_reads:
  assumes "ready d" and "length X = n * 512" and "\<And>j. j < n \<Longrightarrow> sects d (first + of_nat j) = sub X (j * 512) 512"
    and "\<And>j. j < n \<Longrightarrow> unat (first + of_nat j) < 2 ^ 28" and "k \<le> n" and "length Y = n * 512" and "take (k * 512) Y = take (k * 512) X"
  shows "reads (load_fat bus first [k..<n] Y) d (Ok X)"
  using assms
proof (induction "n - k" arbitrary: k Y d)
  case 0
  then show ?case by (simp add: reads_def)
next
  case (Suc m)
  then have k: "k < n" by linarith
  let ?Y = "overwrite Y (k * 512) (sub X (k * 512) 512)"
  have l: "length (sub X (k * 512) 512) = 512" using k Suc.prems(2) by (simp add: sub_def)
  have "take (Suc k * 512) ?Y = take (k * 512) X @ sub X (k * 512) 512"
    using l k Suc.prems(2,6,7) by (simp add: overwrite_def)
  also have "\<dots> = take (Suc k * 512) X" using take_add [of "k * 512" 512 X] by (simp add: sub_def add.commute)
  finally have t: "take (Suc k * 512) ?Y = take (Suc k * 512) X" .
  have "length ?Y = n * 512" using l k Suc.prems(6) by (simp add: overwrite_def)
  then have ih: "reads (load_fat bus first [Suc k..<n] ?Y) d' (Ok X)" if "ready d'" "sects d' = sects d" for d'
    using Suc.hyps(1) [of "Suc k" d' ?Y] Suc.hyps(2) Suc.prems(2-4) k t that by simp
  have "reads (read_sector bus (first + of_nat k)) d (Ok (sub X (k * 512) 512))"
    using reads_sector [OF Suc.prems(1) Suc.prems(4) [OF k]] Suc.prems(3) [OF k] by simp
  then show ?case using k ih by (simp add: upt_conv_Cons) (rule reads_bind)
qed

lemma mount_reads:
  assumes fd: "fat12_disk (sects d) p i" and rdy: "ready d"
  shows "reads (find_fat_partition bus) d (Ok p)" and "\<exists>e. reads (fat32_read_bpb bus p) d (Err e)" and "reads (read_bpb bus p) d (Ok i)"
proof -
  note f = fd [unfolded fat12_disk_def boot_sector_of_def]
  have "reads (read_sector bus 0) d (Ok (sects d 0))" by (rule reads_sector [OF rdy]) simp
  then show "reads (find_fat_partition bus) d (Ok p)"
    unfolding find_fat_partition_def by (rule reads_bind) (use f in \<open>auto intro: reads_simple\<close>)
  have lba: "unat (start_lba p) < 2 ^ 28" using fat12_disk_base [OF fd] by linarith
  note boot = reads_sector [OF rdy lba]
  have "reads (fat32_read_bpb bus p) d (Err ''not FAT32 (root_entry_count != 0 means this is FAT12/16)'')"
    unfolding fat32_read_bpb_def by (rule reads_bind [OF boot]) (use f in \<open>auto intro: reads_simple\<close>)
  then show "\<exists>e. reads (fat32_read_bpb bus p) d (Err e)" by blast
  have first: "start_lba p + ucast (reserved_sector_count i) = first_fat_sector i" using f by (simp add: first_fat_sector_def)
  have fat: "reads (load_fat bus (first_fat_sector i) [0..<unat (fat_size_16 i)] (replicate (unat (fat_size_16 i) * 512) 0)) d' (Ok (fat_bytes i))"
    if d': "ready d'" "sects d' = sects d" for d'
    using f fat_lba_bound(1,3) [of i] d' by (intro load_fat_reads) (auto simp: coherent_def)
  have rest: "reads (io_bind (load_fat bus (start_lba p + ucast (reserved_sector_count i)) [0..<unat (fat_size_16 i)]
        (replicate (unat (fat_size_16 i) * 512) 0)) (\<lambda>fat. io_ret \<lparr>sectors_per_cluster = sectors_per_cluster i,
          num_fats = num_fats i, fat_size_16 = fat_size_16 i, root_entry_count = root_entry_count i,
          reserved_sector_count = reserved_sector_count i, partition_start_lba = start_lba p, fat_bytes = fat\<rparr>)) d' (Ok i)"
    if d': "ready d'" "sects d' = sects d" for d'
    unfolding first by (rule reads_bind [OF fat [OF d']]) (use f in \<open>auto simp: reads_def\<close>)
  show "reads (read_bpb bus p) d (Ok i)"
    unfolding read_bpb_def by (rule reads_bind [OF boot]) (use f rest in \<open>simp add: Let_def\<close>)
qed

text \<open>What a file command does on such a disk.\<close>

lemma reads_match_Err: "reads m d (Err e) \<Longrightarrow> reads (io_match m) d (Ok (Inl e))"
  by (auto simp: reads_def io_match_def)

lemma mounted:
  assumes fd: "fat12_disk (sects d) p i" and rdy: "ready d"
  obtains e d1 d2 d3 where "find_fat_partition bus d = (Ok p, d1)" and "io_match (fat32_read_bpb bus p) d1 = (Ok (Inl e), d2)"
    and "read_bpb bus p d2 = (Ok i, d3)" and "ready d3" and "sects d3 = sects d"
proof -
  obtain d1 where d1: "find_fat_partition bus d = (Ok p, d1)" "ready d1" "sects d1 = sects d"
    using mount_reads(1) [OF fd rdy] by (auto simp: reads_def)
  have fd1: "fat12_disk (sects d1) p i" using fd d1(3) by simp
  obtain e where e: "reads (fat32_read_bpb bus p) d1 (Err e)" using mount_reads(2) [OF fd1 d1(2)] by blast
  obtain d2 where d2: "io_match (fat32_read_bpb bus p) d1 = (Ok (Inl e), d2)" "ready d2" "sects d2 = sects d"
    using reads_match_Err [OF e] d1(3) unfolding reads_def by auto
  have fd2: "fat12_disk (sects d2) p i" using fd d2(3) by simp
  obtain d3 where d3: "read_bpb bus p d2 = (Ok i, d3)" "ready d3" "sects d3 = sects d"
    using mount_reads(3) [OF fd2 d2(2)] d2(3) by (auto simp: reads_def)
  show ?thesis using that [OF d1(1) d2(1) d3] .
qed

lemma create_keeps:
  assumes lay: "layout_ok i" and co: "coherent (sects d) i" and rdy: "ready d"
    and none: "\<forall>x. flat_find (not_found dir_location.Root) name (dir_slots (sects d) (root_lbas i)) lfn_default \<noteq> Ok x"
    and nm: "storable_name name" and acc: "root_accepts (sects d) i name (length data)"
    and run: "create_file bus name data (i, d) = (Ok (), (i', d'))"
  shows "\<exists>F. i' = i\<lparr>fat_bytes := F\<rparr>" and "unat lba < fat_base i \<Longrightarrow> sects d' lba = sects d lba"
proof -
  obtain short long pre mid post cs F D3 d5 t dt where c: "name_entries name short long"
    "dir_slots (sects d) (root_lbas i) = pre @ mid @ post" "length mid = length long + 1"
    "cs = take (file_clusters i (length data)) (free_clusters i)" "laid i data cs (sects d) F D3"
    "create_file bus name data (i, d) = (Ok (), (i\<lparr>fat_bytes := F\<rparr>, d5))"
    "sects d5 = fold put_slot (zip (map fst mid) (long @ [build_dir_entry short 0x20 (cs ! 0) (of_nat (length data)) t dt])) D3"
    by (rule create_accepted [OF lay co rdy none nm acc])
  show "\<exists>F. i' = i\<lparr>fat_bytes := F\<rparr>" using c(6) run by auto
  assume lba: "unat lba < fat_base i"
  have fat: "length (fat_bytes i) \<le> 6144" using co lay by (simp add: coherent_def layout_ok_def)
  have dc: "\<forall>c \<in> set cs. data_cluster c" using set_free_clusters [OF fat] by (auto simp: c(4) data_cluster_def dest: in_set_takeD)
  have len: "length (build_dir_entry short 0x20 (cs ! 0) (of_nat (length data)) t dt) = 32"
    using c(1) by (simp add: name_entries_def build_dir_entry_def)
  have "lba \<notin> fat_lbas i" using fat_lba_bound(1) [OF lay] lba by (fastforce simp: fat_lbas_def)
  moreover have root: "lba \<notin> set (root_lbas i)" using lba base_order(1) [of i] root_lbas_from [OF lay] by fastforce
  moreover have "\<forall>c \<in> set cs. lba \<notin> set (cluster_sectors i c)"
    using cluster_sectors_bound(2) [OF lay] dc lba base_order [of i] by fastforce
  ultimately have "sects d5 lba = sects d lba"
    using directory_after(2) [OF lay rdy c(2,5) dc c(3,1) len root] c(5) unfolding c(7) laid_def by auto
  moreover have "d' = d5" using c(6) run by simp
  ultimately show "sects d' lba = sects d lba" by simp
qed

end

section \<open>Creating and reading a file at the prompt\<close>

lemma split_path_name:
  assumes "name \<noteq> []" and "0x2F \<notin> set name" and "name \<noteq> ascii ''.''" and "name \<noteq> ascii ''..''"
  shows "split_path name = Ok ([], name)"
proof -
  have "split_at (\<lambda>c. c = 0x2F) name = [name]" by (rule split_at_word) (use assms(2) in auto)
  then show ?thesis using assms by (simp add: split_path_def split_segments_def)
qed

lemma dispatch_touch:
  assumes "split_whitespace (trim line) = ascii ''touch'' # name # ws" and "name \<noteq> []"
  shows "dispatch_command bus hw line =
     on_disk (report (create_fat_file bus name (join_with 0x20 ws)) (\<lambda>_. Created name (length (join_with 0x20 ws))))"
proof -
  have "trim line \<noteq> []" using assms(1) by (auto simp: split_whitespace_def)
  then show ?thesis
    unfolding dispatch_command_def assms(1) Let_def using assms(2) by (simp add: word_at_def named_def command_defs Let_def)
qed

lemma dispatch_cat:
  assumes "split_whitespace (trim line) = ascii ''cat'' # name # ws" and "name \<noteq> []"
  shows "dispatch_command bus hw line = on_disk (report (read_fat_file bus name) shown_content)"
proof -
  have "trim line \<noteq> []" using assms(1) by (auto simp: split_whitespace_def)
  then show ?thesis
    unfolding dispatch_command_def assms(1) Let_def using assms(2) by (simp add: word_at_def named_def command_defs Let_def)
qed

context disk_machine
begin

lemma create_mounted:
  assumes fd: "fat12_disk (sects d) p i" and rdy: "ready d" and path: "split_path name = Ok ([], name)"
  obtains d1 where "ready d1" and "sects d1 = sects d"
    and "create_fat_file bus name data d = on_volume i (create_file bus name data) d1"
proof -
  obtain e d1 d2 d3 where m: "find_fat_partition bus d = (Ok p, d1)" "io_match (fat32_read_bpb bus p) d1 = (Ok (Inl e), d2)"
      "read_bpb bus p d2 = (Ok i, d3)" "ready d3" "sects d3 = sects d"
    by (rule mounted [OF fd rdy])
  have "create_fat_file bus name data d = on_volume i (create_file bus name data) d3"
    unfolding create_fat_file_def change_volume_def using m by (simp add: path io_bind_def resolve_dir_path_def)
  then show ?thesis using that m(4,5) by blast
qed

lemma read_mounted:
  assumes fd: "fat12_disk (sects d) p i" and rdy: "ready d" and path: "split_path name = Ok ([], name)"
  obtains d1 where "ready d1" and "sects d1 = sects d" and "read_fat_file bus name d = read_file bus i name d1"
proof -
  obtain e d1 d2 d3 where m: "find_fat_partition bus d = (Ok p, d1)" "io_match (fat32_read_bpb bus p) d1 = (Ok (Inl e), d2)"
      "read_bpb bus p d2 = (Ok i, d3)" "ready d3" "sects d3 = sects d"
    by (rule mounted [OF fd rdy])
  have "read_fat_file bus name d = read_file bus i name d3"
    unfolding read_fat_file_def using m by (simp add: path io_bind_def resolve_dir_path_def)
  then show ?thesis using that m(4,5) by blast
qed

lemma touch_cat:
  assumes fd: "fat12_disk (sects d) p i" and rdy: "ready d" and wf: "dir_wf (dir_slots (sects d) (root_lbas i))"
    and path: "split_path name = Ok ([], name)" and nm: "storable_name name"
    and none: "\<forall>x. flat_find (not_found dir_location.Root) name (dir_slots (sects d) (root_lbas i)) lfn_default \<noteq> Ok x"
    and acc: "root_accepts (sects d) i name (length data)"
    and small: "length data < 2 ^ 32" and low: "\<forall>c \<in> set (free_clusters i). unat c < 0xFF8"
  shows "\<exists>d' d'' i'. create_fat_file bus name data d = (Ok (), d') \<and> ready d' \<and> fat12_disk (sects d') p i'
     \<and> read_fat_file bus name d' = (Ok data, d'') \<and> ready d'' \<and> sects d'' = sects d'"
proof -
  have lay: "layout_ok i" "coherent (sects d) i" using fd by (simp_all add: fat12_disk_def)
  obtain d1 where d1: "ready d1" "sects d1 = sects d" "create_fat_file bus name data d = on_volume i (create_file bus name data) d1"
    by (rule create_mounted [OF fd rdy path])
  note pre = lay(1) lay(2) [folded d1(2)] d1(1)
  note cr = wf [folded d1(2)] none [folded d1(2)] nm acc [folded d1(2)]
  obtain i' d2 where c: "create_file bus name data (i, d1) = (Ok (), (i', d2))" "ready d2" "coherent (sects d2) i'"
      "\<forall>x. ready x \<longrightarrow> sects x = sects d2 \<longrightarrow> reads (read_file bus i' name) x (Ok data)"
    using create_then_read [OF pre cr small low] by (elim exE conjE)
  obtain F where "i' = i\<lparr>fat_bytes := F\<rparr>" using create_keeps(1) [OF pre cr(2-4) c(1)] by blast
  then have fd2: "fat12_disk (sects d2) p i'"
    using fat12_disk_changed [OF fd, of "sects d2" i' F] create_keeps(2) [OF pre cr(2-4) c(1)] c(3) d1(2) by simp
  obtain d3 where d3: "ready d3" "sects d3 = sects d2" "read_fat_file bus name d2 = read_file bus i' name d3"
    by (rule read_mounted [OF fd2 c(2) path])
  have "reads (read_file bus i' name) d3 (Ok data)" using c(4) d3(1,2) by blast
  then obtain d4 where "read_file bus i' name d3 = (Ok data, d4)" "ready d4" "sects d4 = sects d2" using d3(2) by (auto simp: reads_def)
  moreover have "create_fat_file bus name data d = (Ok (), d2)" using d1(3) c(1) by (simp add: on_volume_def)
  ultimately show ?thesis using c(2) fd2 d3(3) by auto
qed

end

text \<open>
  C3: creating and reading a file at the prompt. On a disk with a FAT12 volume in its first FAT partition, \<^verbatim>\<open>touch\<close> with
  a name that the root directory can store and does not have yet reports success. The file then holds the
  words of the line, joined by single spaces, and a later \<^verbatim>\<open>cat\<close> of this
  name shows the length of this text and, if it has at least four characters, the first four; both commands find the
  partition and mount the volume anew. The disk is still one with a FAT12 volume, and nothing but the disk changes.
\<close>

theorem touch_then_cat:
  assumes "disk_machine bus sects ready" and "fat12_disk (sects (sh_disk s)) p i" and "ready (sh_disk s)"
    and "dir_wf (dir_slots (sects (sh_disk s)) (root_lbas i))"
    and "split_whitespace (trim line) = ascii ''touch'' # name # ws" and "split_whitespace (trim line') = ascii ''cat'' # name # ws'"
    and "name \<noteq> []" and "0x2F \<notin> set name" and "name \<noteq> ascii ''.''" and "name \<noteq> ascii ''..''" and "storable_name name"
    and "\<forall>x. fst (find_entry_location_in bus i dir_location.Root name (sh_disk s)) \<noteq> Ok x"
    and "root_accepts (sects (sh_disk s)) i name (length (join_with 0x20 ws))"
    and "length (join_with 0x20 ws) < 2 ^ 32" and "\<forall>c \<in> set (free_clusters i). unat c < 0xFF8"
  shows "\<exists>s1 s2 i'. dispatch_command bus hw line s = (Ok (Created name (length (join_with 0x20 ws))), s1)
     \<and> fst (read_fat_file bus name (sh_disk s1)) = Ok (join_with 0x20 ws)
     \<and> dispatch_command bus hw line' s1 = (Ok (File_Read (length (join_with 0x20 ws))
          (if 4 \<le> length (join_with 0x20 ws) then Some (take 4 (join_with 0x20 ws)) else None)), s2)
     \<and> fat12_disk (sects (sh_disk s1)) p i' \<and> sects (sh_disk s2) = sects (sh_disk s1)
     \<and> s1 = s\<lparr>sh_disk := sh_disk s1\<rparr> \<and> s2 = s1\<lparr>sh_disk := sh_disk s2\<rparr>"
proof -
  let ?data = "join_with 0x20 ws"
  have ad: "ata_disk bus sects ready" using assms(1) by (simp add: disk_machine_def)
  have lay: "layout_ok i" using assms(2) by (simp add: fat12_disk_def)
  have none: "\<forall>x. flat_find (not_found dir_location.Root) name (dir_slots (sects (sh_disk s)) (root_lbas i)) lfn_default \<noteq> Ok x"
    using ata_disk.reads_root(3) [OF ad assms(3) lay, of name] assms(12) by (auto simp: ata_disk.reads_def [OF ad])
  have path: "split_path name = Ok ([], name)" using split_path_name assms(7-10) by blast
  obtain d' d'' i' where c: "create_fat_file bus name ?data (sh_disk s) = (Ok (), d')" "fat12_disk (sects d') p i'"
      "read_fat_file bus name d' = (Ok ?data, d'')" "sects d'' = sects d'"
    using disk_machine.touch_cat [OF assms(1-4) path assms(11) none assms(13-15)] by blast
  have t: "dispatch_command bus hw line s = (Ok (Created name (length ?data)), s\<lparr>sh_disk := d'\<rparr>)"
    unfolding dispatch_touch [OF assms(5,7)] using c(1) by (simp add: on_disk_def report_def io_bind_def io_match_def)
  have k: "dispatch_command bus hw line' (s\<lparr>sh_disk := d'\<rparr>)
      = (Ok (File_Read (length ?data) (if 4 \<le> length ?data then Some (take 4 ?data) else None)), s\<lparr>sh_disk := d''\<rparr>)"
    unfolding dispatch_cat [OF assms(6,7)] using c(3) by (simp add: on_disk_def report_def io_bind_def io_match_def shown_content_def)
  show ?thesis using t k c(2-4) by (intro exI [of _ "s\<lparr>sh_disk := d'\<rparr>"] exI [of _ "s\<lparr>sh_disk := d''\<rparr>"] exI [of _ i']) simp
qed

text \<open>A drive with one partition and an empty volume in it.\<close>

definition one_partition :: bytes where
  "one_partition = replicate 446 0 @ [0x80, 0, 0, 0, 0x01, 0, 0, 0, 0, 8, 0, 0, 0, 4, 0, 0] @ replicate 48 0 @ [0x55, 0xAA]"

definition tiny_boot_sector :: bytes where
  "tiny_boot_sector = replicate 11 0 @ [0, 2, 1, 1, 0, 1, 16, 0, 0, 0, 0, 2, 0] @ replicate 486 0 @ [0x55, 0xAA]"

definition formatted_drive :: pio_drive where
  "formatted_drive = blank_drive\<lparr>pio_store := (pio_store blank_drive)(0 := one_partition, 2048 := tiny_boot_sector)\<rparr>"

lemma formatted_drive_ready: "pio_ready formatted_drive"
  using blank_drive_ready by (simp add: pio_ready_def formatted_drive_def one_partition_def tiny_boot_sector_def)

lemma formatted_drive_fat12:
  "fat12_disk (pio_store formatted_drive) \<lparr>bootable = True, partition_type = 1, start_lba = 2048, sector_count = 1024\<rparr> tiny_volume"
proof -
  have "parse_mbr_entry (sub one_partition 446 16) = \<lparr>bootable = True, partition_type = 1, start_lba = 2048, sector_count = 1024\<rparr>"
    by (simp add: parse_mbr_entry_def one_partition_def sub_def le32_def be32_def)
  then have "find (\<lambda>p. partition_type p \<in> {0x01, 0x04, 0x06, 0x0B, 0x0C, 0x0E}) (parse_mbr one_partition) =
      Some \<lparr>bootable = True, partition_type = 1, start_lba = 2048, sector_count = 1024\<rparr>"
    by (simp add: parse_mbr_def upt_conv_Cons)
  moreover have "boot_sector_of tiny_boot_sector tiny_volume"
    by (simp add: boot_sector_of_def tiny_boot_sector_def tiny_volume_def nth_append le16_def be16_def)
  moreover have "coherent (pio_store formatted_drive) tiny_volume"
    using tiny_volume_ok(2) by (auto simp: coherent_def formatted_drive_def first_fat_sector_def tiny_volume_def less_2_cases_iff)
  ultimately show ?thesis using tiny_volume_ok(1) by (simp add: fat12_disk_def formatted_drive_def tiny_volume_def)
qed

theorem touch_then_cat_witness:
  "\<exists>s1 s2. dispatch_command pio_bus (e1000_hw (demo_env (\<lambda>_ _. []))) (ascii ''touch A  ab cd '') (demo_shell\<lparr>sh_disk := formatted_drive\<rparr>)
        = (Ok (Created (ascii ''A'') 5), s1)
     \<and> dispatch_command pio_bus (e1000_hw (demo_env (\<lambda>_ _. []))) (ascii ''cat A'') s1 = (Ok (File_Read 5 (Some (ascii ''ab c''))), s2)"
proof -
  have w: "split_whitespace (trim (ascii ''touch A  ab cd '')) = [ascii ''touch'', ascii ''A'', ascii ''ab'', ascii ''cd'']"
    "split_whitespace (trim (ascii ''cat A'')) = [ascii ''cat'', ascii ''A'']"
    by (simp_all add: ascii_def trim_def split_whitespace_def is_whitespace_def)
  have A: "ascii ''A'' = [0x41]" "ascii ''A'' \<noteq> ascii ''.''" "ascii ''A'' \<noteq> ascii ''..''" "0x2F \<notin> set (ascii ''A'')" "ascii ''A'' \<noteq> []"
    by (simp_all add: ascii_def)
  have j: "join_with 0x20 [ascii ''ab'', ascii ''cd''] = ascii ''ab cd''" "length (ascii ''ab cd'') = 5" "take 4 (ascii ''ab cd'') = ascii ''ab c''" by (simp_all add: ascii_def)
  have "pio_store formatted_drive 2051 = replicate 512 0" by (simp add: formatted_drive_def blank_drive_def)
  note e = empty_root [of "pio_store formatted_drive", OF this]
  have none: "\<forall>x. fst (find_entry_location_in pio_bus tiny_volume dir_location.Root [0x41] formatted_drive) \<noteq> Ok x"
    using pio.reads_root(3) [OF formatted_drive_ready tiny_volume_ok(1), of "[0x41]"] e(2) by (auto simp: pio.reads_def)
  let ?s = "demo_shell\<lparr>sh_disk := formatted_drive\<rparr>"
  have d: "sh_disk ?s = formatted_drive" by simp
  have acc: "root_accepts (pio_store formatted_drive) tiny_volume (ascii ''A'') (length (join_with 0x20 [ascii ''ab'', ascii ''cd'']))"
    unfolding A(1) j by (rule e(3)) simp_all
  have small: "length (join_with 0x20 [ascii ''ab'', ascii ''cd'']) < 2 ^ 32" unfolding j by simp
  show ?thesis
    using touch_then_cat [OF pc.disk_machine_axioms, of ?s, unfolded d, OF formatted_drive_fat12 formatted_drive_ready e(1) w A(5,4,2,3)
        storable_A [folded A(1)] none [folded A(1)] acc small e(4), of "e1000_hw (demo_env (\<lambda>_ _. []))"]
    unfolding j by auto
qed

end
