(* ===== verification/Shell_Net.thy ===== *)
theory Shell_Net
  imports Shell E1000_Net E1000_Time
begin

text \<open>
  The network commands of the shell: a message that
  \<^verbatim>\<open>tcpecho\<close> accepts fits into the transmit slots of the driver, and with interrupts
  disabled, which is how the keyboard handler runs the shell, an answer that is not there at once is waited for forever.
\<close>

section \<open>Parts of the commands\<close>

lemma parse_ipv4_length: "parse_ipv4 s = Some ip \<Longrightarrow> length ip = 4"
  unfolding parse_ipv4_def parse_octets_exact by simp

lemma tx_turn_idle:
  "vol_load hw (phys_mem_offset hw + ring + of_nat (16 * slot) + 12) 1 d = ([st], d) \<Longrightarrow> st AND TXD_STATUS_DD = 0 \<Longrightarrow>
   tx_turn hw ring slot u (a, d) = (Ok (Hold u), (a, d))"
  by (simp add: tx_turn_def)

lemma rx_turn_idle:
  assumes "vol_load hw (phys_mem_offset hw + ring + 12) 1 d = ([st], d)" and "st AND RXD_STAT_DD = 0"
  shows "rx_turn hw mmio_base ring buf accept u (a, d) = (Ok (Hold u), (a, d))"
proof -
  have "poll_rx hw ring buf 0 (a, d) = (Ok None, (a, d))" using assms by (simp add: poll_rx_def)
  then show ?thesis by (simp add: rx_turn_def io_bind_def)
qed

text \<open>The card while the processor does not take interrupts: a halt changes nothing for the program.\<close>

definition masked_hw :: "nic_env \<Rightarrow> nic_dev nic_hw" where
  "masked_hw e = (e1000_hw e)\<lparr>cpu_hlt := (\<lambda>d. d)\<rparr>"

section \<open>Properties\<close>

text \<open>
  Every segment that \<^verbatim>\<open>tcpecho\<close> sends for a message it accepts fits into a transmit slot of the driver, which
  does not check this itself; a longer message is refused with its length, before any access to the card.
\<close>

theorem tcpecho_fits:
  assumes "length dest_mac = 6" and "length src_mac = 6"
    and "parse_ipv4 ip_str = Some dst_ip" and "parse_unsigned 65535 port_str = Some port"
  shows "if length message \<le> MAX_TCPECHO_PAYLOAD
     then length (build_tcp_frame dest_mac src_mac SRC_IP dst_ip
         (build_tcp_header SRC_IP dst_ip 54322 (of_nat port) seq ack flags 65535 (message @ [0x0A])) (message @ [0x0A])) \<le> unat TX_SLOT_STRIDE
     else tcpecho_command hw ip_str port_str message s = (Ok (Too_Long (length message)), s)"
  using assms parse_ipv4_length [of ip_str dst_ip] by (simp add: build_tcp_frame_eq length_ip_frame TX_SLOT_STRIDE_def MAX_TCPECHO_PAYLOAD_def tcpecho_command_def SRC_IP_def)

theorem tcpecho_fits_witness:
  "tcpecho_command (e1000_hw silent_env) (ascii ''10.0.2.2'') (ascii ''7'') (replicate 101 0x41) (demo_alloc, demo_dev)
     = (Ok (Too_Long 101), (demo_alloc, demo_dev))"
proof -
  have four: "(4 :: nat) = Suc (Suc (Suc (Suc 0)))" by simp
  have "parse_ipv4 (ascii ''10.0.2.2'') = Some host_ip"
    unfolding parse_ipv4_def four by (simp add: ascii_def parse_unsigned_def host_ip_def)
  moreover have "parse_unsigned 65535 (ascii ''7'') = Some 7" by (simp add: ascii_def parse_unsigned_def)
  ultimately show ?thesis
    using tcpecho_fits [of host_mac our_mac "ascii ''10.0.2.2''" host_ip "ascii ''7''" 7 "replicate 101 0x41"]
    by (simp add: MAX_TCPECHO_PAYLOAD_def)
qed

text \<open>
  C40: When a halt changes nothing, because interrupts are disabled, a wait of the driver whose descriptor is not
  finished at the first look never returns: neither the wait for the transmission nor the wait
  for the answer, whose time limit is counted by the timer interrupt that is not taken.
\<close>

theorem masked_wait_hangs:
  assumes "cpu_hlt hw d = d" and "vol_load hw (phys_mem_offset hw + ring + 12) 1 d = ([st], d)" and "st AND 1 = 0"
  shows "wait_tx hw ring 0 e (a, d) = (Diverge, (a, d))
     \<and> wait_loop hw (rx_turn hw mmio_base ring buf accept) () (a, d) = (Diverge, (a, d))"
proof
  have "tx_turn hw ring 0 () (a, d) = (Ok (Hold ()), (a, d))"
    using tx_turn_idle [of hw ring 0 d st] assms by (simp add: TXD_STATUS_DD_def)
  then have "wait_loop hw (tx_turn hw ring 0) () (a, d) = (Diverge, (a, d))" using assms(1) by (rule wait_loop_stuck)
  then show "wait_tx hw ring 0 e (a, d) = (Diverge, (a, d))" by (simp add: wait_tx_def io_bind_def)
  have "rx_turn hw mmio_base ring buf accept () (a, d) = (Ok (Hold ()), (a, d))"
    using rx_turn_idle [of hw ring d st] assms by (simp add: RXD_STAT_DD_def)
  then show "wait_loop hw (rx_turn hw mmio_base ring buf accept) () (a, d) = (Diverge, (a, d))" using assms(1) by (rule wait_loop_stuck)
qed

theorem masked_wait_hangs_witness:
  "wait_tx (masked_hw silent_env) 0x100000 0 ''time-out'' (demo_alloc, demo_dev) = (Diverge, (demo_alloc, demo_dev))
   \<and> wait_loop (masked_hw silent_env) (rx_turn (masked_hw silent_env) 0xFEB80000 0x100000 0x101000 (\<lambda>data. Ok (Some data))) () (demo_alloc, demo_dev)
     = (Diverge, (demo_alloc, demo_dev))"
proof (rule masked_wait_hangs)
  show "vol_load (masked_hw silent_env) (phys_mem_offset (masked_hw silent_env) + 0x100000 + 12) 1 demo_dev = ([0], demo_dev)"
    by (simp add: masked_hw_def load_mem_def demo_dev_def)
qed (simp_all add: masked_hw_def)

end
