(* ===== verification/Spec2Isabelle.thy ===== *)
theory Spec2Isabelle
  imports Udp Tcp Dns Net_Sim Ring3_Sched Preemptive Fat12 Fat32 Keyboard Syscall Gguf_Decode E1000_Echo E1000_Time Virtio_Time Shell_Files Shell_Net
begin

text \<open>
  Verification of the AgentOS kernel: the Rust sources under \<^verbatim>\<open>agentos-kernel/src\<close>, a small x86-64
  kernel with a process table, cooperative and preemptive schedulers, ring-3 programs, system calls, a
  FAT12/FAT32 file system on an ATA disk, a text console with a line editor and a shell, a loader of language-model files,
  and a network stack on an Intel e1000 card or a virtio device.

  \<^bold>\<open>Conventions.\<close> Machine integers are words of their width (\<open>u8\<close> to \<open>u64\<close>) and arithmetic wraps, as in
  the release build. A fallible function returns an \<open>outcome\<close>: \<open>Ok\<close>, \<open>Err\<close> with the message of the source,
  \<open>Panic\<close> (an index out of range, an assertion, a failed allocation) or \<open>Diverge\<close> (a loop that does not end). Code that works on
  hardware or on a mounted volume is in \<open>('s, 'a) io\<close>, a state-passing function with such an outcome.
  Byte slices are lists. Spin locks are not modelled: each operation runs to its end. Output to
  the console and the serial line is left out except in the console itself and in the shell, whose commands return what they print.

  Hardware and the code of other crates are parameters, and the theorems name what they assume of them: the I/O ports
  (\<open>port_bus\<close>, \<open>io_ports\<close>), register window, shared memory, timer and halt of the network drivers (\<open>nic_hw\<close>), the page tables
  (\<open>page_tables\<close>), the floating-point operations (\<open>f32_ops\<close>), whether the allocator can serve a request (\<open>can_allocate\<close>), and the closures
  that enter ring 3. The interfaces to them are locales, interpreted on concrete devices: \<open>ata_disk\<close>, \<open>disk_machine\<close> and
  \<open>quiet_disk\<close> on a PIO drive with a clock, \<open>config_mechanism\<close> and \<open>config_device\<close> on a host bridge, \<open>ticking\<close> on both network devices.
  The network card (\<open>e1000_hw\<close>) and the virtio device (\<open>virtio_hw\<close>) are idealised: a transmission
  is complete when the write that starts it is, at most one frame is received per halt, and what answers on the
  network is an arbitrary function of the frames sent. The functional theorems about the drivers are about these
  devices; termination is proved for any hardware with a ticking clock.

  \<^bold>\<open>Theories.\<close>
  \<^item> \<open>Prelude\<close>: words, outcomes, state passing, byte order, list lemmas. \<open>Machine\<close>: memory as bytes at
    64-bit addresses, block copies, 64-bit loads and stores.
  \<^item> \<open>Icmp\<close>, \<open>Udp\<close>, \<open>Tcp\<close>, \<open>Dns\<close> (\<^verbatim>\<open>net/icmp.rs\<close>, \<^verbatim>\<open>udp.rs\<close>, \<^verbatim>\<open>tcp.rs\<close>, \<^verbatim>\<open>dns.rs\<close>): checksums, builders and
    parsers. Round trips of every builder with its parser, exact header bytes, rejection of corrupted
    messages, exactly which TCP segments are accepted, and parsers that end without panic on all input.
    \<open>Net_Sim\<close> (\<^verbatim>\<open>net/virtio_net.rs\<close>, \<^verbatim>\<open>net/tcpip.rs\<close>): the simulated driver and its broadcast frame.
  \<^item> \<open>Kv_Allocator\<close> (\<^verbatim>\<open>memory/kv_allocator.rs\<close>): the block store refines a map of owners (locale
    \<open>block_store\<close>). \<open>Agent_Scheduler\<close> (\<^verbatim>\<open>scheduler/process.rs\<close>, \<^verbatim>\<open>agent_scheduler.rs\<close>): the process table, its
    invariant and the order in which processes run.
  \<^item> \<open>Tier_Select\<close> (\<^verbatim>\<open>scheduler/tier_select.rs\<close>): selection with fairness proved in the locale
    \<open>tier_policy\<close>; the search has as fuel the number of tasks, and more fuel changes nothing.
    \<open>Ring3_Sched\<close> (\<^verbatim>\<open>scheduler/ring3_preempt.rs\<close>, \<^verbatim>\<open>ring3_mt.rs\<close>): interception and multitasking of ring-3
    programs, with the memory that holds their contexts: at a tick and at the end of a program the one that is resumed gets its own
    context. \<open>Context_Switch\<close> (\<^verbatim>\<open>scheduler/context_switch.rs\<close>):
    \<^verbatim>\<open>switch_to\<close> instruction by instruction and the cooperative scheduler. \<open>Preemptive\<close>
    (\<^verbatim>\<open>scheduler/preemptive.rs\<close>): the timer-driven one, its budget, and that its choice is the one of \<open>Tier_Select\<close>.
  \<^item> \<open>Ata\<close> (\<^verbatim>\<open>ata.rs\<close>): sector transfers as port accesses over any hardware that behaves like a PIO
    drive (locale \<open>ata_disk\<close>); polling ends after its bound. \<open>Rtc\<close> (\<^verbatim>\<open>rtc.rs\<close>): the CMOS clock, whose loops are
    partial functions, and the time stamps of directory entries.
  \<^item> \<open>Fat_Common\<close> (\<^verbatim>\<open>partition.rs\<close>, \<^verbatim>\<open>fat_common.rs\<close>, the name functions of \<^verbatim>\<open>fat12.rs\<close>): directory entries, long
    and short names. \<open>Fat12_Model\<close> has the operations of \<^verbatim>\<open>fat12.rs\<close>; \<open>Fat12_Table\<close>, \<open>Fat12_Dir\<close> and \<open>Fat12_Files\<close>
    prove what they do to the allocation table, to directories and to the clusters of files, and
    \<open>Fat12\<close> composes this to the correctness of creating a file. Walking a cluster chain has as fuel
    4096 steps, the number of different 12-bit entries; only a cyclic chain uses it up, which is \<open>Diverge\<close>.
    \<open>Fat32\<close> (\<^verbatim>\<open>fat32.rs\<close>): the read-only FAT32 support over the same driver.
  \<^item> \<open>Vga_Buffer\<close> (\<^verbatim>\<open>vga_buffer.rs\<close>) refines an unbounded terminal; \<open>Keyboard\<close> (\<^verbatim>\<open>keyboard.rs\<close>) is the scancode
    decoder with its line editor, kept in step with the screen while prompt and line fit on a row; after Enter the terminal shows
    the output of the shell, here any function of the line, and the prompt.
  \<^item> \<open>Paging\<close> (\<^verbatim>\<open>memory/frame_allocator.rs\<close>, \<^verbatim>\<open>heap.rs\<close>, \<^verbatim>\<open>user_page.rs\<close>, \<^verbatim>\<open>paging.rs\<close>): physical frames, the mapping
    of heap and user pages, and the exact meaning of the pointer checks. \<open>Tensor_Engine\<close> (\<^verbatim>\<open>tensor_engine.rs\<close>): the
    layer computation against its mathematical form, for any arithmetic. \<open>Syscall\<close> (\<^verbatim>\<open>syscall.rs\<close>) composes process table,
    block store, paging and tensor engine: isolation of ring-3 callers, consistency of the tables. The slices of the tensor
    call are places in memory, read and written row by row, so that overlapping ones are covered.
  \<^item> \<open>Gguf_Loader\<close> (\<^verbatim>\<open>gguf_loader.rs\<close>): header and tensor table, half-precision numbers, the block-quantised formats.
    \<open>Gguf_Decode\<close>: a closed form for every format, round trip of the tables, and what untrusted files can do to the parsers.
  \<^item> \<open>Pci\<close> (\<^verbatim>\<open>pci.rs\<close>): configuration space, the scan of bus 0 and bus mastering. \<open>Dma\<close>: the hardware parameter of the
    network drivers and their polling loops, which are partial functions. \<open>Timing\<close>: the clock interface \<open>ticking\<close>; a tick may
    come at any access to the card or its memory and at a halt, and between two ticks only finitely many other interrupts wake the processor.
  \<^item> \<open>E1000_Frames\<close> and \<open>E1000\<close> (\<^verbatim>\<open>net/e1000.rs\<close>): the frames, the acceptance tests and the functions of the driver.
    \<open>E1000_Link\<close> is the card with its descriptor rings; \<open>E1000_Net\<close> (ARP, ping, TCP handshake, DNS) and \<open>E1000_Echo\<close> (a whole
    TCP connection) run the functions on it from the PCI scan to the result; \<open>E1000_Time\<close>: every function returns.
  \<^item> \<open>Virtio\<close> (\<^verbatim>\<open>net/virtio.rs\<close> and its boot test in \<^verbatim>\<open>main.rs\<close>): status handshake, virtqueues, test frames.
    \<open>Virtio_Mem\<close> is the layout of a queue, \<open>Virtio_Link\<close> the device, \<open>Virtio_Rx\<close> the round trip of the boot test and
    \<open>Virtio_Time\<close> its termination.
  \<^item> \<open>Shell_Text\<close> and \<open>Shell\<close> (\<^verbatim>\<open>shell.rs\<close>): words, paths and addresses, and all commands on disk, card and tables.
    \<open>Shell_Read\<close>: which commands can change the disk. \<open>Shell_Files\<close>: a file created by one command and read by another.
    \<open>Shell_Net\<close>: the size limit of \<^verbatim>\<open>tcpecho\<close>, and that the waits of the driver hang when interrupts are disabled, as they
    are while the keyboard handler runs the shell.

  \<^bold>\<open>Not modelled.\<close> The rest of \<^verbatim>\<open>main.rs\<close> is boot code and printing self-tests; \<^verbatim>\<open>ring3.rs\<close>, \<^verbatim>\<open>interrupts.rs\<close> and \<^verbatim>\<open>gdt.rs\<close> are
  assembly stubs, machine-code programs and descriptor tables around the modelled handlers; \<^verbatim>\<open>serial.rs\<close> only calls a
  crate; \<^verbatim>\<open>probe\<close> of the e1000 driver only prints. The kernel runner and the TypeScript demonstration run on a host. Interrupts
  that change the state of the schedulers in the middle of an operation are outside the model, as the operations hold a lock.
  Allocations other than the one sized by a number in a file are taken to succeed.
\<close>

end
